(* ===== verification/Prelude.thy ===== *)
theory Prelude
  imports Main "HOL-Library.Sublist" "HOL-Library.Multiset" "HOL-Library.AList"
begin

text \<open>
  The part of Go's standard library the test kit leans on, and the automation the
  components share.

  A Go string is its bytes, a \<open>char list\<close>. Package \<open>strings\<close>: \<open>HasPrefix\<close> and \<open>HasSuffix\<close>
  are the library's \<open>prefix\<close> and \<open>suffix\<close>, \<open>Contains\<close> is \<open>sublist\<close>; \<open>Index\<close>, \<open>Split\<close>,
  \<open>Join\<close>, \<open>Cut\<close>, \<open>ReplaceAll\<close>, \<open>TrimSpace\<close>, \<open>Fields\<close>, \<open>ToLower\<close> and \<open>ToUpper\<close> are defined
  here. White space is Unicode's, as UTF-8 spells it. Case mapping is the ASCII one: on a
  text with other letters it leaves them alone, where Go would map them.
  Package \<open>strconv\<close>: \<open>Itoa\<close> and \<open>Atoi\<close>, the second failing outside 64 bits.
\<close>

named_theorems go_text \<open>laws of the string operations\<close>
named_theorems go_num \<open>laws of decimal printing and reading\<close>

subsection \<open>Searching and cutting\<close>

abbreviation has_prefix :: "'a list \<Rightarrow> 'a list \<Rightarrow> bool" where
  "has_prefix s p \<equiv> prefix p s"

abbreviation has_suffix :: "'a list \<Rightarrow> 'a list \<Rightarrow> bool" where
  "has_suffix s p \<equiv> suffix p s"

abbreviation contains :: "'a list \<Rightarrow> 'a list \<Rightarrow> bool" where
  "contains s p \<equiv> sublist p s"

fun index_of :: "'a list \<Rightarrow> 'a list \<Rightarrow> nat option" where
  "index_of [] p = (if p = [] then Some 0 else None)"
| "index_of (c # s) p =
     (if prefix p (c # s) then Some 0 else map_option Suc (index_of s p))"

definition last_index_of :: "'a list \<Rightarrow> 'a list \<Rightarrow> nat option" where
  "last_index_of s p =
     map_option (\<lambda>i. length s - length p - i) (index_of (rev s) (rev p))"

text \<open>\<open>strings.Cut\<close> at one byte: what is before it, what is after it, and whether it was there.\<close>

fun cut_at :: "'a \<Rightarrow> 'a list \<Rightarrow> 'a list \<times> 'a list \<times> bool" where
  "cut_at c [] = ([], [], False)"
| "cut_at c (x # xs) =
     (if x = c then ([], xs, True)
      else (case cut_at c xs of (a, b, ok) \<Rightarrow> (x # a, b, ok)))"

definition trim_prefix :: "'a list \<Rightarrow> 'a list \<Rightarrow> 'a list" where
  "trim_prefix s p = (if prefix p s then drop (length p) s else s)"

definition trim_suffix :: "'a list \<Rightarrow> 'a list \<Rightarrow> 'a list" where
  "trim_suffix s p = (if suffix p s then take (length s - length p) s else s)"

lemma subseq_set: "subseq xs ys \<Longrightarrow> set xs \<subseteq> set ys"
  by (induction rule: list_emb.induct) auto

lemma index_of_Some:
  "index_of s p = Some i \<Longrightarrow> \<exists>a b. s = a @ p @ b \<and> length a = i"
proof (induction s arbitrary: i)
  case Nil
  then show ?case by (auto split: if_splits)
next
  case (Cons c s)
  show ?case
  proof (cases "prefix p (c # s)")
    case True
    with Cons.prems show ?thesis by (auto simp: prefix_def)
  next
    case False
    with Cons.prems obtain j where "index_of s p = Some j" and i: "i = Suc j"
      by auto
    then obtain a b where "s = a @ p @ b" and "length a = j" using Cons.IH by blast
    then have "c # s = (c # a) @ p @ b" and "length (c # a) = i" using i by auto
    then show ?thesis by blast
  qed
qed

lemma index_of_None [go_text]: "index_of s p = None \<longleftrightarrow> \<not> sublist p s"
proof (induction s)
  case Nil
  show ?case by simp
next
  case (Cons c s)
  then show ?case by (simp add: sublist_Cons_right)
qed

lemma index_of_first:
  assumes "index_of s p = Some i" and "j < i"
  shows "\<not> prefix p (drop j s)"
  using assms
proof (induction s arbitrary: i j)
  case Nil
  then show ?case by (auto split: if_splits)
next
  case (Cons c s)
  show ?case
  proof (cases "prefix p (c # s)")
    case True
    with Cons.prems show ?thesis by simp
  next
    case False
    with Cons.prems obtain k where k: "index_of s p = Some k" "i = Suc k" by auto
    show ?thesis
    proof (cases j)
      case 0
      with False show ?thesis by simp
    next
      case (Suc j')
      with Cons.IH [of k j'] k Cons.prems show ?thesis by simp
    qed
  qed
qed

lemma cut_at_absent [go_text]: "c \<notin> set s \<Longrightarrow> cut_at c s = (s, [], False)"
  by (induction s) auto

lemma cut_at_append [go_text]: "c \<notin> set a \<Longrightarrow> cut_at c (a @ c # b) = (a, b, True)"
  by (induction a) auto

lemma cut_at_found: "cut_at c s = (a, b, True) \<Longrightarrow> s = a @ c # b \<and> c \<notin> set a"
  by (induction s arbitrary: a) (auto split: if_splits prod.splits)

lemma trim_prefix_append [go_text]: "trim_prefix (p @ s) p = s"
  by (simp add: trim_prefix_def)

lemma trim_suffix_append [go_text]: "trim_suffix (s @ p) p = s"
  by (simp add: trim_suffix_def suffix_def)

subsection \<open>Split and Join\<close>

fun split_on :: "'a \<Rightarrow> 'a list \<Rightarrow> 'a list list" where
  "split_on c [] = [[]]"
| "split_on c (x # xs) =
     (if x = c then [] # split_on c xs
      else (case split_on c xs of [] \<Rightarrow> [[x]] | y # ys \<Rightarrow> (x # y) # ys))"

fun join_with :: "'a list \<Rightarrow> 'a list list \<Rightarrow> 'a list" where
  "join_with sep [] = []"
| "join_with sep [s] = s"
| "join_with sep (s # t # ss) = s @ sep @ join_with sep (t # ss)"

lemma split_on_not_Nil [simp]: "split_on c s \<noteq> []"
  by (induction s) (auto split: list.splits)

lemma join_split [go_text]: "join_with [c] (split_on c s) = s"
proof (induction s)
  case Nil
  show ?case by simp
next
  case (Cons x xs)
  show ?case
  proof (cases "split_on c xs")
    case Nil
    then show ?thesis by simp
  next
    case (Cons y ys)
    with \<open>join_with [c] (split_on c xs) = xs\<close> show ?thesis
      by (cases ys) auto
  qed
qed

lemma split_on_absent [go_text]: "c \<notin> set s \<Longrightarrow> split_on c s = [s]"
  by (induction s) auto

lemma split_on_append [go_text]:
  "c \<notin> set a \<Longrightarrow> split_on c (a @ c # b) = a # split_on c b"
  by (induction a) auto

lemma split_join [go_text]:
  "\<forall>s \<in> set ss. c \<notin> set s \<Longrightarrow> ss \<noteq> [] \<Longrightarrow> split_on c (join_with [c] ss) = ss"
  by (induction "[c]" ss rule: join_with.induct) (auto simp: split_on_absent split_on_append)

lemma split_on_cut: "split_on c (a @ c # b) = split_on c a @ split_on c b"
proof (induction a)
  case (Cons x a)
  then show ?case by (cases "split_on c a") simp_all
qed simp

text \<open>What is before a separator, once one more is put at the end: some of the parts, joined.\<close>

lemma before_separator:
  "(\<exists>b. s @ [c] = u @ c # b) \<longleftrightarrow> (\<exists>i < length (split_on c s). u = join_with [c] (take (Suc i) (split_on c s)))"
proof (induction s arbitrary: u)
  case Nil
  show ?case by (cases u) auto
next
  case (Cons x s)
  obtain h ts where sp: "split_on c s = h # ts" by (cases "split_on c s") simp_all
  show ?case
  proof (cases "x = c")
    case True
    have "(\<exists>i < length (split_on c (x # s)). u = join_with [c] (take (Suc i) (split_on c (x # s)))) \<longleftrightarrow>
      u = [] \<or> (\<exists>i < length (split_on c s). u = c # join_with [c] (take (Suc i) (split_on c s)))"
      using True by (simp add: sp All_less_Suc2 Ex_less_Suc2)
    also have "\<dots> \<longleftrightarrow> u = [] \<or> (\<exists>v. u = c # v \<and> (\<exists>b. s @ [c] = v @ c # b))"
      using Cons.IH by auto
    also have "\<dots> \<longleftrightarrow> (\<exists>b. (x # s) @ [c] = u @ c # b)" using True by (cases u) auto
    finally show ?thesis by simp
  next
    case False
    have j: "join_with [c] ((x # h) # rs) = x # join_with [c] (h # rs)" for rs
      by (cases rs) simp_all
    have "(\<exists>i < length (split_on c (x # s)). u = join_with [c] (take (Suc i) (split_on c (x # s)))) \<longleftrightarrow>
      (\<exists>i < length (split_on c s). u = x # join_with [c] (take (Suc i) (split_on c s)))"
      using False by (simp add: sp j)
    also have "\<dots> \<longleftrightarrow> (\<exists>v. u = x # v \<and> (\<exists>b. s @ [c] = v @ c # b))" using Cons.IH by auto
    also have "\<dots> \<longleftrightarrow> (\<exists>b. (x # s) @ [c] = u @ c # b)" using False by (cases u) auto
    finally show ?thesis by simp
  qed
qed

lemma split_on_free: "s \<in> set (split_on c t) \<Longrightarrow> c \<notin> set s"
proof (induction t arbitrary: s)
  case Nil
  then show ?case by simp
next
  case (Cons x t)
  then show ?case by (auto split: if_splits list.splits)
qed

lemma join_with_snoc:
  "join_with sep (ss @ [s]) = (if ss = [] then s else join_with sep ss @ sep @ s)"
  by (induction sep ss rule: join_with.induct) auto

subsection \<open>Replacing\<close>

function replace_all :: "'a list \<Rightarrow> 'a list \<Rightarrow> 'a list \<Rightarrow> 'a list" where
  "replace_all [] old new = (if old = [] then new else [])"
| "replace_all (c # s) old new =
     (if old = [] then new @ c # replace_all s old new
      else if prefix old (c # s)
      then new @ replace_all (drop (length old) (c # s)) old new
      else c # replace_all s old new)"
  by pat_completeness auto
termination
  by (relation "measure (\<lambda>(s, old, new). length s)") (auto simp: neq_Nil_conv)

declare replace_all.simps(2) [simp del]

lemma replace_all_absent [go_text]: "old \<noteq> [] \<Longrightarrow> \<not> sublist old s \<Longrightarrow> replace_all s old new = s"
proof (induction s)
  case Nil
  then show ?case by simp
next
  case (Cons c s)
  then show ?case by (simp add: replace_all.simps(2) sublist_Cons_right)
qed

text \<open>Replacing one byte by another is a map over the bytes.\<close>

lemma replace_all_char [go_text]:
  "replace_all s [a] [b] = map (\<lambda>c. if c = a then b else c) s"
  by (induction s) (auto simp: replace_all.simps(2))

lemma replace_all_char_away [go_text]: "a \<noteq> b \<Longrightarrow> a \<notin> set (replace_all s [a] [b])"
  by (induction s) (auto simp: replace_all.simps(2))

subsection \<open>White space and case\<close>

definition char_nat :: "char \<Rightarrow> nat" where
  "char_nat c = of_char c"

definition ascii_spaces :: "char list" where
  "ascii_spaces = map char_of [9::nat, 10, 11, 12, 13, 32]"

text \<open>The white space of \<open>unicode.IsSpace\<close>, each as its UTF-8 bytes.\<close>

definition space_runes :: "string list" where
  "space_runes = map (\<lambda>c. [c]) ascii_spaces @
     map (map char_of)
       ([[194, 133], [194, 160], [225, 154, 128]] @
        map (\<lambda>b. [226, 128, b]) [128..<139] @
        [[226, 128, 168], [226, 128, 169], [226, 128, 175], [226, 129, 159], [227, 128, 128::nat]])"

definition front_width :: "string list \<Rightarrow> string \<Rightarrow> nat" where
  "front_width ws s = (case find (\<lambda>w. prefix w s) ws of None \<Rightarrow> 0 | Some w \<Rightarrow> length w)"

function strip_front :: "string list \<Rightarrow> string \<Rightarrow> string" where
  "strip_front ws s =
     (if s = [] \<or> front_width ws s = 0 then s else strip_front ws (drop (front_width ws s) s))"
  by pat_completeness auto
termination
  by (relation "measure (\<lambda>(ws, s). length s)") auto

declare strip_front.simps [simp del]

definition trim_space_left :: "string \<Rightarrow> string" where
  "trim_space_left s = strip_front space_runes s"

definition trim_space_right :: "string \<Rightarrow> string" where
  "trim_space_right s = rev (strip_front (map rev space_runes) (rev s))"

definition trim_space :: "string \<Rightarrow> string" where
  "trim_space s = trim_space_right (trim_space_left s)"

definition trim_left_of :: "char list \<Rightarrow> string \<Rightarrow> string" where
  "trim_left_of cs s = dropWhile (\<lambda>c. c \<in> set cs) s"

definition trim_right_of :: "char list \<Rightarrow> string \<Rightarrow> string" where
  "trim_right_of cs s = rev (dropWhile (\<lambda>c. c \<in> set cs) (rev s))"

definition trim_of :: "char list \<Rightarrow> string \<Rightarrow> string" where
  "trim_of cs s = trim_right_of cs (trim_left_of cs s)"

definition lower_char :: "char \<Rightarrow> char" where
  "lower_char c = (if 65 \<le> char_nat c \<and> char_nat c \<le> 90 then char_of (char_nat c + 32) else c)"

definition upper_char :: "char \<Rightarrow> char" where
  "upper_char c = (if 97 \<le> char_nat c \<and> char_nat c \<le> 122 then char_of (char_nat c - 32) else c)"

definition to_lower :: "string \<Rightarrow> string" where
  "to_lower s = map lower_char s"

definition to_upper :: "string \<Rightarrow> string" where
  "to_upper s = map upper_char s"

lemma strip_front_suffix: "suffix (strip_front ws s) s"
proof (induction ws s rule: strip_front.induct)
  case (1 ws s)
  show ?case
  proof (cases "s = [] \<or> front_width ws s = 0")
    case True
    then show ?thesis by (subst strip_front.simps) simp
  next
    case False
    with "1" have "suffix (strip_front ws (drop (front_width ws s) s)) (drop (front_width ws s) s)"
      by simp
    then have "suffix (strip_front ws (drop (front_width ws s) s)) s"
      using suffix_drop suffix_order.trans by blast
    with False show ?thesis by (subst strip_front.simps) simp
  qed
qed

lemma strip_front_stuck: "strip_front ws s = [] \<or> front_width ws (strip_front ws s) = 0"
proof (induction ws s rule: strip_front.induct)
  case (1 ws s)
  then show ?case by (subst (1 2) strip_front.simps) auto
qed

lemma strip_front_id: "front_width ws s = 0 \<Longrightarrow> strip_front ws s = s"
  by (subst strip_front.simps) simp

lemma trim_space_left_suffix: "suffix (trim_space_left s) s"
  by (simp add: trim_space_left_def strip_front_suffix)

lemma trim_space_right_prefix: "prefix (trim_space_right s) s"
  using strip_front_suffix [of "map rev space_runes" "rev s"]
  by (auto simp: trim_space_right_def suffix_to_prefix)

lemma trim_space_sublist: "sublist (trim_space s) s"
  using trim_space_left_suffix [of s] trim_space_right_prefix [of "trim_space_left s"]
  unfolding trim_space_def by (auto simp: suffix_def prefix_def sublist_def) (metis append.assoc)

lemma set_trim_space: "set (trim_space s) \<subseteq> set s"
  using trim_space_sublist by (rule set_mono_sublist)

lemma find_None_all: "find P xs = None \<longleftrightarrow> (\<forall>x \<in> set xs. \<not> P x)"
  by (auto simp: find_None_iff)

lemma front_width_0:
  "[] \<notin> set ws \<Longrightarrow> front_width ws s = 0 \<longleftrightarrow> (\<forall>w \<in> set ws. \<not> prefix w s)"
  by (auto simp: front_width_def find_None_iff find_Some_iff split: option.splits)
     (metis nth_mem)

lemma space_runes_not_Nil: "[] \<notin> set space_runes"
  by (auto simp: space_runes_def)

text \<open>A text is trimmed when neither end is white space.\<close>

definition trimmed :: "string \<Rightarrow> bool" where
  "trimmed s \<longleftrightarrow> (\<forall>w \<in> set space_runes. \<not> prefix w s \<and> \<not> suffix w s)"

lemma trim_space_trimmed [go_text]: "trimmed s \<Longrightarrow> trim_space s = s"
proof -
  assume t: "trimmed s"
  have l: "front_width space_runes s = 0"
    using t by (simp add: trimmed_def front_width_0 space_runes_not_Nil)
  have r: "front_width (map rev space_runes) (rev s) = 0"
    using t space_runes_not_Nil
    by (subst front_width_0) (auto simp: trimmed_def suffix_to_prefix)
  show ?thesis
    by (simp add: trim_space_def trim_space_left_def trim_space_right_def strip_front_id l r)
qed

lemma trimmed_trim_space [go_text]: "trimmed (trim_space s)"
proof -
  let ?l = "trim_space_left s" and ?t = "trim_space s"
  have left: "\<not> prefix w ?t" if "w \<in> set space_runes" for w
  proof
    assume "prefix w ?t"
    moreover have "prefix ?t ?l" by (simp add: trim_space_def trim_space_right_prefix)
    ultimately have p: "prefix w ?l" by (rule prefix_order.trans)
    have "w \<noteq> []" using that space_runes_not_Nil by auto
    with p have "?l \<noteq> []" by auto
    then have "front_width space_runes ?l = 0"
      using strip_front_stuck [of space_runes s] by (simp add: trim_space_left_def)
    with p that show False by (simp add: front_width_0 space_runes_not_Nil)
  qed
  have right: "\<not> suffix w ?t" if "w \<in> set space_runes" for w
  proof
    assume "suffix w ?t"
    then have p: "prefix (rev w) (strip_front (map rev space_runes) (rev ?l))"
      by (simp add: trim_space_def trim_space_right_def suffix_to_prefix)
    have "w \<noteq> []" using that space_runes_not_Nil by auto
    with p have "strip_front (map rev space_runes) (rev ?l) \<noteq> []" by auto
    then have "front_width (map rev space_runes) (strip_front (map rev space_runes) (rev ?l)) = 0"
      using strip_front_stuck by blast
    moreover have "[] \<notin> set (map rev space_runes)" using space_runes_not_Nil by auto
    ultimately show False using p that by (auto simp: front_width_0)
  qed
  from left right show ?thesis by (simp add: trimmed_def)
qed

lemma trim_space_idem [go_text]: "trim_space (trim_space s) = trim_space s"
  by (simp add: trim_space_trimmed trimmed_trim_space)

text \<open>A text whose first and last bytes are printing ASCII is trimmed.\<close>

definition graphic :: "char \<Rightarrow> bool" where
  "graphic c \<longleftrightarrow> 33 \<le> char_nat c \<and> char_nat c \<le> 126"

lemma spaces_not_graphic:
  "list_all (\<lambda>w. w \<noteq> [] \<and> \<not> graphic (hd w) \<and> \<not> graphic (last w)) space_runes"
  by (simp add: space_runes_def ascii_spaces_def graphic_def char_nat_def upt_rec)

lemma graphic_trimmed: "s = [] \<or> graphic (hd s) \<and> graphic (last s) \<Longrightarrow> trimmed s"
  using spaces_not_graphic
  by (auto simp: trimmed_def list_all_iff prefix_def suffix_def hd_append split: if_splits)

lemma front_graphic: "graphic c \<Longrightarrow> front_width space_runes (c # s) = 0"
  using spaces_not_graphic space_runes_not_Nil
  by (auto simp: front_width_0 list_all_iff prefix_Cons)

lemma front_space: "front_width space_runes (CHR '' '' # s) \<noteq> 0"
  by (simp add: front_width_def space_runes_def ascii_spaces_def char_of_def bit_0)

subsection \<open>Fields\<close>

fun take_word :: "string \<Rightarrow> string" where
  "take_word [] = []"
| "take_word (c # s) = (if 0 < front_width space_runes (c # s) then [] else c # take_word s)"

lemma take_word_Nil: "take_word s = [] \<longleftrightarrow> s = [] \<or> 0 < front_width space_runes s"
  by (cases s) simp_all

lemma left_trimmed: "trim_space_left s \<noteq> [] \<Longrightarrow> front_width space_runes (trim_space_left s) = 0"
  using strip_front_stuck [of space_runes s] by (simp add: trim_space_left_def)

function go_fields :: "string \<Rightarrow> string list" where
  "go_fields s =
     (let t = trim_space_left s in
      if t = [] then [] else take_word t # go_fields (drop (length (take_word t)) t))"
  by pat_completeness auto
termination
proof (relation "measure length")
  fix s t :: string
  assume t: "t = trim_space_left s" "t \<noteq> []"
  then have "take_word t \<noteq> []" using left_trimmed [of s] by (simp add: take_word_Nil)
  moreover have "length t \<le> length s" using t trim_space_left_suffix suffix_length_le by blast
  moreover have "0 < length t" using t by simp
  moreover have "0 < length (take_word t)" using calculation(1) by simp
  ultimately show "(drop (length (take_word t)) t, s) \<in> measure length" by (simp del: length_greater_0_conv)
qed simp

declare go_fields.simps [simp del]

lemma take_word_graphic:
  "\<forall>c \<in> set w. graphic c \<Longrightarrow> s = [] \<or> hd s = CHR '' '' \<Longrightarrow> take_word (w @ s) = w"
proof (induction w)
  case Nil
  then show ?case by (cases s) (simp_all add: front_space)
qed (simp add: front_graphic)

lemma left_graphic: "graphic c \<Longrightarrow> trim_space_left (c # s) = c # s"
  by (simp add: trim_space_left_def strip_front_id front_graphic)

lemma left_blank: "trim_space_left (CHR '' '' # s) = trim_space_left s"
proof -
  have "front_width space_runes (CHR '' '' # s) = 1"
    by (simp add: front_width_def space_runes_def ascii_spaces_def char_of_def bit_0)
  then show ?thesis unfolding trim_space_left_def by (subst strip_front.simps) simp
qed

lemma go_fields_word:
  assumes "w \<noteq> []" "\<forall>c \<in> set w. graphic c" "s = [] \<or> hd s = CHR '' ''"
  shows "go_fields (w @ s) = w # go_fields s"
proof -
  have "trim_space_left (w @ s) = w @ s" using assms(1,2) by (cases w) (simp_all add: left_graphic)
  then show ?thesis using assms by (subst go_fields.simps) (simp add: take_word_graphic)
qed

lemma go_fields_blank: "go_fields (CHR '' '' # s) = go_fields s"
  by (subst (1 2) go_fields.simps) (simp add: left_blank)

lemma go_fields_Nil: "go_fields [] = []"
  by (subst go_fields.simps) (simp add: trim_space_left_def strip_front.simps)

lemma go_fields_join:
  "\<forall>w \<in> set ws. w \<noteq> [] \<and> (\<forall>c \<in> set w. graphic c) \<Longrightarrow> s = [] \<or> hd s = CHR '' '' \<Longrightarrow>
   go_fields (join_with '' '' ws @ s) = ws @ go_fields s"
proof (induction ws rule: induct_list012)
  case (2 w)
  then show ?case using go_fields_word [of w s] by simp
next
  case (3 v w ws)
  then show ?case using go_fields_word [of v "CHR '' '' # join_with '' '' (w # ws) @ s"]
    by (simp add: go_fields_blank)
qed simp

end
