(* ===== verification/Ordering.thy ===== *)
theory Ordering
  imports Prelude
begin

text \<open>
  Package \<open>sort\<close>. \<open>sort.SliceStable\<close> with a less-function is insertion from the left, a new
  element going behind the ones it does not precede. \<open>sort.Slice\<close> promises no order among
  elements its less-function does not separate; where the function separates any two
  elements the result is the only sorted arrangement, and the two agree. The test kit sorts
  what it took out of a Go map, whose iteration order is random: \<open>sort_by_set_determined\<close> says
  that under such a less-function nothing of that order is left.
\<close>

fun insert_by :: "('a \<Rightarrow> 'a \<Rightarrow> bool) \<Rightarrow> 'a \<Rightarrow> 'a list \<Rightarrow> 'a list" where
  "insert_by lt x [] = [x]"
| "insert_by lt x (y # ys) = (if lt x y then x # y # ys else y # insert_by lt x ys)"

definition sort_by :: "('a \<Rightarrow> 'a \<Rightarrow> bool) \<Rightarrow> 'a list \<Rightarrow> 'a list" where
  "sort_by lt xs = foldl (\<lambda>acc x. insert_by lt x acc) [] xs"

lemma mset_insert_by [simp]: "mset (insert_by lt x ys) = add_mset x (mset ys)"
  by (induction ys) auto

lemma mset_foldl_insert: "mset (foldl (\<lambda>acc x. insert_by lt x acc) acc xs) = mset acc + mset xs"
  by (induction xs arbitrary: acc) auto

lemma mset_sort_by [simp]: "mset (sort_by lt xs) = mset xs"
  by (simp add: sort_by_def mset_foldl_insert)

lemma set_sort_by [simp]: "set (sort_by lt xs) = set xs"
  by (metis mset_sort_by set_mset_mset)

lemma length_sort_by [simp]: "length (sort_by lt xs) = length xs"
  by (metis mset_sort_by size_mset)

lemma distinct_sort_by [simp]: "distinct (sort_by lt xs) = distinct xs"
  by (metis mset_sort_by mset_eq_imp_distinct_iff)

text \<open>
  A less-function that is a strict weak order on the elements of a set, and one that also
  separates any two of them.
\<close>

locale weak_less =
  fixes lt :: "'a \<Rightarrow> 'a \<Rightarrow> bool" and A :: "'a set"
  assumes irrefl: "x \<in> A \<Longrightarrow> \<not> lt x x"
    and trans: "x \<in> A \<Longrightarrow> y \<in> A \<Longrightarrow> z \<in> A \<Longrightarrow> lt x y \<Longrightarrow> lt y z \<Longrightarrow> lt x z"
    and cotrans: "x \<in> A \<Longrightarrow> y \<in> A \<Longrightarrow> z \<in> A \<Longrightarrow> lt x z \<Longrightarrow> lt x y \<or> lt y z"
begin

definition le :: "'a \<Rightarrow> 'a \<Rightarrow> bool" where
  "le x y \<longleftrightarrow> \<not> lt y x"

lemma le_trans: "x \<in> A \<Longrightarrow> y \<in> A \<Longrightarrow> z \<in> A \<Longrightarrow> le x y \<Longrightarrow> le y z \<Longrightarrow> le x z"
  unfolding le_def using cotrans by blast

lemma lt_le: "x \<in> A \<Longrightarrow> y \<in> A \<Longrightarrow> lt x y \<Longrightarrow> le x y"
  unfolding le_def using irrefl trans by blast

lemma sorted_insert_by:
  "x \<in> A \<Longrightarrow> set ys \<subseteq> A \<Longrightarrow> sorted_wrt le ys \<Longrightarrow> sorted_wrt le (insert_by lt x ys)"
proof (induction ys)
  case Nil
  then show ?case by simp
next
  case (Cons y ys)
  show ?case
  proof (cases "lt x y")
    case True
    have "le x z" if "z \<in> set (y # ys)" for z
    proof -
      have "le x y" using True Cons.prems by (auto intro: lt_le)
      moreover have "z = y \<or> le y z" using that Cons.prems by auto
      ultimately show ?thesis using that Cons.prems by (auto intro: le_trans [of x y z])
    qed
    with True Cons.prems show ?thesis by auto
  next
    case False
    have *: "set (insert_by lt x ys) = insert x (set ys)"
      by (metis mset_insert_by set_mset_add_mset_insert set_mset_mset)
    have "sorted_wrt le (insert_by lt x ys)" using Cons by auto
    moreover have "le y x" using False by (simp add: le_def)
    ultimately show ?thesis using False Cons.prems * by auto
  qed
qed

lemma sorted_sort_by: "set xs \<subseteq> A \<Longrightarrow> sorted_wrt le (sort_by lt xs)"
proof -
  have "set xs \<subseteq> A \<Longrightarrow> set acc \<subseteq> A \<Longrightarrow> sorted_wrt le acc \<Longrightarrow>
      sorted_wrt le (foldl (\<lambda>acc x. insert_by lt x acc) acc xs)" for acc
  proof (induction xs arbitrary: acc)
    case Nil
    then show ?case by simp
  next
    case (Cons x xs)
    have "set (insert_by lt x acc) = insert x (set acc)"
      by (metis mset_insert_by set_mset_add_mset_insert set_mset_mset)
    with Cons.prems show ?case by (simp add: Cons.IH sorted_insert_by)
  qed
  then show "set xs \<subseteq> A \<Longrightarrow> sorted_wrt le (sort_by lt xs)" by (simp add: sort_by_def)
qed

text \<open>Sorting what is sorted already changes nothing: the second of two runs agrees with the first.\<close>

lemma insert_by_last: "\<forall>y \<in> set ys. le y x \<Longrightarrow> insert_by lt x ys = ys @ [x]"
  by (induction ys) (auto simp: le_def)

lemma sort_by_sorted: "sorted_wrt le xs \<Longrightarrow> sort_by lt xs = xs"
proof (induction xs rule: rev_induct)
  case Nil
  then show ?case by (simp add: sort_by_def)
next
  case (snoc x xs)
  then have "sort_by lt xs = xs" by (simp add: sorted_wrt_append)
  moreover have "insert_by lt x xs = xs @ [x]"
    using snoc.prems by (simp add: insert_by_last sorted_wrt_append)
  ultimately show ?case by (simp add: sort_by_def)
qed

end

locale total_less = weak_less +
  assumes separates: "x \<in> A \<Longrightarrow> y \<in> A \<Longrightarrow> x \<noteq> y \<Longrightarrow> lt x y \<or> lt y x"
begin

lemma le_antisym: "x \<in> A \<Longrightarrow> y \<in> A \<Longrightarrow> le x y \<Longrightarrow> le y x \<Longrightarrow> x = y"
  unfolding le_def using separates by blast

lemma sorted_unique:
  "set xs \<subseteq> A \<Longrightarrow> sorted_wrt le xs \<Longrightarrow> sorted_wrt le ys \<Longrightarrow> mset xs = mset ys \<Longrightarrow> xs = ys"
proof (induction xs arbitrary: ys)
  case Nil
  then show ?case by simp
next
  case (Cons x xs)
  then obtain y ys' where ys: "ys = y # ys'" by (cases ys) auto
  have sets: "set (x # xs) = set ys" using Cons.prems(4) by (metis set_mset_mset)
  have inA: "x \<in> A" "y \<in> A" using sets Cons.prems(1) ys by auto
  have "x = y"
  proof (rule ccontr)
    assume ne: "x \<noteq> y"
    have "y \<in> set xs" using sets ys ne by auto
    then have "le x y" using Cons.prems(2) by auto
    moreover have "x \<in> set ys'" using sets ys ne by auto
    then have "le y x" using Cons.prems(3) ys by auto
    ultimately show False using le_antisym inA ne by blast
  qed
  moreover from this have "xs = ys'" using Cons ys by auto
  ultimately show ?case using ys by simp
qed

theorem sort_by_set_determined:
  "set xs \<subseteq> A \<Longrightarrow> mset xs = mset ys \<Longrightarrow> sort_by lt xs = sort_by lt ys"
proof -
  assume "set xs \<subseteq> A" and m: "mset xs = mset ys"
  then have "set ys \<subseteq> A" by (metis set_mset_mset)
  with \<open>set xs \<subseteq> A\<close> m show ?thesis
    by (intro sorted_unique) (auto intro: sorted_sort_by)
qed

end

text \<open>Go's \<open><\<close> on strings: byte by byte, a proper prefix first.\<close>

fun byte_less :: "string \<Rightarrow> string \<Rightarrow> bool" where
  "byte_less s [] = False"
| "byte_less [] (d # t) = True"
| "byte_less (c # s) (d # t) =
     (if char_nat c = char_nat d then byte_less s t else char_nat c < char_nat d)"

lemma char_nat_eq [simp]: "char_nat c = char_nat d \<longleftrightarrow> c = d"
  by (simp add: char_nat_def)

lemma byte_less_irrefl [simp]: "\<not> byte_less s s"
  by (induction s) auto

lemma byte_less_trans: "byte_less s t \<Longrightarrow> byte_less t u \<Longrightarrow> byte_less s u"
proof (induction s t arbitrary: u rule: byte_less.induct)
  case (1 s)
  then show ?case by simp
next
  case (2 d t)
  then show ?case by (cases u) auto
next
  case (3 c s d t)
  then show ?case by (cases u) (auto split: if_splits)
qed

lemma byte_less_total: "s \<noteq> t \<Longrightarrow> byte_less s t \<or> byte_less t s"
proof (induction s t rule: byte_less.induct)
  case (3 c s d t)
  then show ?case using linorder_neq_iff [of "char_nat c" "char_nat d"] by auto
qed (auto simp: neq_Nil_conv)

lemma byte_less_asym: "byte_less s t \<Longrightarrow> \<not> byte_less t s"
  using byte_less_trans byte_less_irrefl by blast

lemma byte_less_cotrans: "byte_less s u \<Longrightarrow> byte_less s t \<or> byte_less t u"
  using byte_less_total byte_less_trans by metis

definition sort_strings :: "string list \<Rightarrow> string list" where
  "sort_strings xs = sort_by byte_less xs"

interpretation bytes: total_less byte_less UNIV
proof unfold_locales
  fix x y z :: string
  show "\<not> byte_less x x" by simp
  show "byte_less x y \<Longrightarrow> byte_less y z \<Longrightarrow> byte_less x z" by (rule byte_less_trans)
  show "byte_less x z \<Longrightarrow> byte_less x y \<or> byte_less y z" by (rule byte_less_cotrans)
  show "x \<noteq> y \<Longrightarrow> byte_less x y \<or> byte_less y x" by (rule byte_less_total)
qed

lemma sort_strings_determined: "mset xs = mset ys \<Longrightarrow> sort_strings xs = sort_strings ys"
  unfolding sort_strings_def by (rule bytes.sort_by_set_determined) auto

lemma set_sort_strings [simp]: "set (sort_strings xs) = set xs"
  by (simp add: sort_strings_def)

lemma mset_sort_strings [simp]: "mset (sort_strings xs) = mset xs"
  by (simp add: sort_strings_def)

text \<open>
  The order of the test kit's records: most of a measure first, ties by name. It is the
  less-function of the plan, of the sizes and of the heaviest cases.
\<close>

definition most_first :: "(string \<Rightarrow> 'b::linorder) \<Rightarrow> string \<Rightarrow> string \<Rightarrow> bool" where
  "most_first f a b = (if f a \<noteq> f b then f a > f b else byte_less a b)"

interpretation most: total_less "most_first f" UNIV for f :: "string \<Rightarrow> 'b::linorder"
proof unfold_locales
  fix x y z :: string
  show "\<not> most_first f x x" by (simp add: most_first_def)
  show "most_first f x y \<Longrightarrow> most_first f y z \<Longrightarrow> most_first f x z"
    by (auto simp: most_first_def split: if_splits intro: byte_less_trans)
  show "most_first f x z \<Longrightarrow> most_first f x y \<or> most_first f y z"
    using byte_less_cotrans [of x z y] by (auto simp: most_first_def split: if_splits)
  show "x \<noteq> y \<Longrightarrow> most_first f x y \<or> most_first f y x"
    using byte_less_total [of x y] by (auto simp: most_first_def)
qed

end
