(* ===== verification/Decimal.thy ===== *)
theory Decimal
  imports Prelude
begin

text \<open>
  Package \<open>strconv\<close> for base ten: \<open>Itoa\<close> prints an integer, \<open>Atoi\<close> reads one back and fails
  on anything that is not an optionally signed run of digits within 64 bits. Go's \<open>int\<close> is
  64 bits wide on the platforms the test kit runs on; a value of the model's type \<open>int\<close> that
  came from \<open>Atoi\<close> is within those bounds.
\<close>

definition int_lo :: int where "int_lo = - (2 ^ 63)"
definition int_hi :: int where "int_hi = 2 ^ 63 - 1"

definition digit_char :: "nat \<Rightarrow> char" where
  "digit_char d = char_of (48 + d)"

definition is_digit :: "char \<Rightarrow> bool" where
  "is_digit c \<longleftrightarrow> 48 \<le> char_nat c \<and> char_nat c \<le> 57"

definition digit_val :: "char \<Rightarrow> nat" where
  "digit_val c = char_nat c - 48"

fun nat_digits :: "nat \<Rightarrow> string" where
  "nat_digits n = (if n < 10 then [digit_char n] else nat_digits (n div 10) @ [digit_char (n mod 10)])"

declare nat_digits.simps [simp del]

definition itoa :: "int \<Rightarrow> string" where
  "itoa n = (if n < 0 then CHR ''-'' # nat_digits (nat (- n)) else nat_digits (nat n))"

definition digits_val :: "string \<Rightarrow> nat" where
  "digits_val s = foldl (\<lambda>a c. 10 * a + digit_val c) 0 s"

definition all_digits :: "string \<Rightarrow> bool" where
  "all_digits s \<longleftrightarrow> s \<noteq> [] \<and> list_all is_digit s"

definition in_int :: "int \<Rightarrow> bool" where
  "in_int n \<longleftrightarrow> int_lo \<le> n \<and> n \<le> int_hi"

definition ranged :: "int \<Rightarrow> int option" where
  "ranged n = (if in_int n then Some n else None)"

definition atoi :: "string \<Rightarrow> int option" where
  "atoi s = (case s of [] \<Rightarrow> None
     | c # ds \<Rightarrow>
         if c = CHR ''-'' then (if all_digits ds then ranged (- int (digits_val ds)) else None)
         else if c = CHR ''+'' then (if all_digits ds then ranged (int (digits_val ds)) else None)
         else if all_digits s then ranged (int (digits_val s)) else None)"

lemma digit_char_val [go_num]: "d < 10 \<Longrightarrow> digit_val (digit_char d) = d"
  by (simp add: digit_val_def digit_char_def char_nat_def)

lemma digit_char_digit [go_num]: "d < 10 \<Longrightarrow> is_digit (digit_char d)"
  by (simp add: is_digit_def digit_char_def char_nat_def)

lemma is_digit_not_sign: "is_digit c \<Longrightarrow> c \<noteq> CHR ''-'' \<and> c \<noteq> CHR ''+''"
  by (auto simp: is_digit_def char_nat_def)

lemma nat_digits_digits [go_num]: "all_digits (nat_digits n)"
proof (induction n rule: nat_digits.induct)
  case (1 n)
  show ?case
  proof (cases "n < 10")
    case True
    then show ?thesis by (subst nat_digits.simps) (simp add: all_digits_def digit_char_digit)
  next
    case False
    with 1 have "all_digits (nat_digits (n div 10))" by simp
    with False show ?thesis
      by (subst nat_digits.simps) (simp add: all_digits_def digit_char_digit)
  qed
qed

lemma digits_val_snoc: "digits_val (s @ [c]) = 10 * digits_val s + digit_val c"
  by (simp add: digits_val_def)

lemma digits_val_nat_digits [go_num]: "digits_val (nat_digits n) = n"
proof (induction n rule: nat_digits.induct)
  case (1 n)
  show ?case
  proof (cases "n < 10")
    case True
    then show ?thesis
      by (subst nat_digits.simps) (simp add: digits_val_def digit_char_val)
  next
    case False
    with 1 have "digits_val (nat_digits (n div 10)) = n div 10" by simp
    with False show ?thesis
      by (subst nat_digits.simps) (simp add: digits_val_snoc digit_char_val)
  qed
qed

lemma nat_digits_not_Nil [simp]: "nat_digits n \<noteq> []"
  using nat_digits_digits [of n] by (simp add: all_digits_def)

text \<open>The digits of one number in front of those of another.\<close>

lemma nat_digits_front:
  "nat_digits m = nat_digits n @ y \<Longrightarrow> n \<le> m \<and> (y \<noteq> [] \<longrightarrow> 10 * n \<le> m \<and> 10 \<le> m)"
proof (induction y arbitrary: m rule: rev_induct)
  case Nil
  then show ?case by (metis append_Nil2 digits_val_nat_digits order_refl)
next
  case (snoc c y)
  have "10 \<le> m"
  proof (rule ccontr)
    assume "\<not> 10 \<le> m"
    then have "length (nat_digits m) = 1" by (simp add: nat_digits.simps)
    moreover have "0 < length (nat_digits n)" by simp
    ultimately show False using snoc.prems by simp
  qed
  then have "nat_digits m = nat_digits (m div 10) @ [digit_char (m mod 10)]" by (subst nat_digits.simps) simp
  then have "nat_digits (m div 10) = nat_digits n @ y" using snoc.prems by simp
  from snoc.IH [OF this] have "10 * n \<le> m" by linarith
  with \<open>10 \<le> m\<close> show ?case by simp
qed

text \<open>A number's digits never begin with those of its successor, whatever follows them.\<close>

lemma successor_digits:
  "\<not> prefix (nat_digits (Suc n)) (nat_digits n @ x)"
proof
  assume "prefix (nat_digits (Suc n)) (nat_digits n @ x)"
  then consider "prefix (nat_digits (Suc n)) (nat_digits n)" | y where "nat_digits (Suc n) = nat_digits n @ y"
    by (auto simp: prefix_append)
  then show False
  proof cases
    case 1
    then obtain y where "nat_digits n = nat_digits (Suc n) @ y" by (auto simp: prefix_def)
    from nat_digits_front [OF this] show False by simp
  next
    case 2
    from nat_digits_front [OF 2] have "y = []" by auto
    with 2 have "digits_val (nat_digits (Suc n)) = digits_val (nat_digits n)" by simp
    then show False by (simp only: digits_val_nat_digits)
  qed
qed

lemma nat_digits_set: "c \<in> set (nat_digits n) \<Longrightarrow> is_digit c"
  using nat_digits_digits [of n] by (auto simp: all_digits_def list_all_iff)

lemma atoi_digits [go_num]: "all_digits s \<Longrightarrow> atoi s = ranged (int (digits_val s))"
proof -
  assume a: "all_digits s"
  then obtain c t where s: "s = c # t" and c: "is_digit c"
    by (cases s) (auto simp: all_digits_def)
  with a is_digit_not_sign [OF c] show ?thesis by (simp add: atoi_def)
qed

theorem atoi_itoa [go_num]: "in_int n \<Longrightarrow> atoi (itoa n) = Some n"
proof (cases "n < 0")
  case True
  assume "in_int n"
  with True show ?thesis
    by (simp add: itoa_def atoi_def nat_digits_digits digits_val_nat_digits ranged_def)
next
  case False
  assume "in_int n"
  with False show ?thesis
    by (simp add: itoa_def atoi_digits nat_digits_digits digits_val_nat_digits ranged_def)
qed

lemma itoa_chars: "c \<in> set (itoa n) \<Longrightarrow> is_digit c \<or> c = CHR ''-''"
  by (auto simp: itoa_def nat_digits_set split: if_splits)

lemma itoa_graphic: "c \<in> set (itoa n) \<Longrightarrow> graphic c"
  using itoa_chars [of c n] by (auto simp: graphic_def is_digit_def char_nat_def)

lemma itoa_not_Nil [simp]: "itoa n \<noteq> []"
  by (simp add: itoa_def)

lemma atoi_in_int: "atoi s = Some n \<Longrightarrow> in_int n"
  by (auto simp: atoi_def ranged_def split: list.splits if_splits)

text \<open>The digits at the head of a text, as C's \<open>atoi\<close> takes them.\<close>

definition lead_digits :: "string \<Rightarrow> string" where
  "lead_digits s = takeWhile is_digit s"

definition after_digits :: "string \<Rightarrow> string" where
  "after_digits s = dropWhile is_digit s"

lemma lead_digits_append [go_num]:
  "all_digits ds \<Longrightarrow> rest = [] \<or> \<not> is_digit (hd rest) \<Longrightarrow>
   lead_digits (ds @ rest) = ds \<and> after_digits (ds @ rest) = rest"
proof -
  assume "all_digits ds" and r: "rest = [] \<or> \<not> is_digit (hd rest)"
  then have d: "\<forall>x \<in> set ds. is_digit x" by (auto simp: all_digits_def list_all_iff)
  have "takeWhile is_digit rest = []" and "dropWhile is_digit rest = rest"
    using r by (cases rest; simp)+
  with d show ?thesis by (simp add: lead_digits_def after_digits_def takeWhile_append2 dropWhile_append2)
qed

end
