(* ===== verification/Dispatch_Policy.thy ===== *)
theory Dispatch_Policy
  imports Ordering Decimal
begin

text \<open>
  Admission rules (\<open>internal/dispatch/policy.go\<close>). The interface \<open>Policy\<close> is the record
  \<open>policy\<close>: what \<open>Admit\<close> and \<open>Describe\<close> answer. \<open>Headroom\<close> asks the machine, so both take the
  reading \<open>'e\<close> of the machine at the time of the call. A nil \<open>Policy\<close> is \<open>None\<close>; a typed nil
  pointer (\<open>NewHeavyCap\<close> and \<open>NewHeadroom\<close> return one) is a policy that admits everything and
  describes itself as nothing.
\<close>

record 'e policy =
  admit :: "'e \<Rightarrow> string \<Rightarrow> string list \<Rightarrow> bool"
  describe :: "'e \<Rightarrow> string"

subsection \<open>Composition\<close>

definition all_admit :: "'e policy list \<Rightarrow> 'e \<Rightarrow> string \<Rightarrow> string list \<Rightarrow> bool" where
  "all_admit ps e c running = list_all (\<lambda>p. admit p e c running) ps"

definition all_describe :: "'e policy list \<Rightarrow> 'e \<Rightarrow> string" where
  "all_describe ps e = join_with ''; '' (filter (\<lambda>d. d \<noteq> []) (map (\<lambda>p. describe p e) ps))"

definition All :: "'e policy option list \<Rightarrow> 'e policy option" where
  "All ps =
     (case List.map_filter id ps of
        [] \<Rightarrow> None
      | [p] \<Rightarrow> Some p
      | kept \<Rightarrow> Some \<lparr>admit = all_admit kept, describe = all_describe kept\<rparr>)"

definition Describe :: "'e \<Rightarrow> 'e policy option \<Rightarrow> 'e policy option \<Rightarrow> string" where
  "Describe e hard soft =
     (let part = (\<lambda>label p. case p of None \<Rightarrow> []
                   | Some p \<Rightarrow> if describe p e \<noteq> [] then [label @ describe p e] else []);
          parts = part ''always: '' hard @ part ''while other work is left: '' soft
      in if parts = [] then ''the plan's order alone'' else join_with '', '' parts)"

subsection \<open>At most so many heavy cases at once\<close>

record heavy_cap =
  heavy :: "string list"
  cap_max :: int

definition NewHeavyCap :: "string list \<Rightarrow> int \<Rightarrow> heavy_cap option" where
  "NewHeavyCap hs m =
     (if hs = [] then None
      else Some \<lparr>heavy = remdups hs, cap_max = (if m < 1 then 1 else m)\<rparr>)"

definition heavy_count :: "heavy_cap \<Rightarrow> string list \<Rightarrow> nat" where
  "heavy_count h running = length (filter (\<lambda>r. r \<in> set (heavy h)) running)"

definition heavy_admit :: "heavy_cap option \<Rightarrow> string \<Rightarrow> string list \<Rightarrow> bool" where
  "heavy_admit h c running =
     (case h of None \<Rightarrow> True
      | Some h \<Rightarrow> if c \<notin> set (heavy h) then True
                  else int (heavy_count h running) < cap_max h)"

definition heavy_describe :: "heavy_cap option \<Rightarrow> string" where
  "heavy_describe h =
     (case h of None \<Rightarrow> []
      | Some h \<Rightarrow> ''at most '' @ itoa (cap_max h) @ '' of the '' @ itoa (int (length (heavy h))) @
                  '' heaviest cases at once'')"

definition heavy_policy :: "heavy_cap option \<Rightarrow> 'e policy" where
  "heavy_policy h = \<lparr>admit = (\<lambda>_. heavy_admit h), describe = (\<lambda>_. heavy_describe h)\<rparr>"

subsection \<open>Nothing new while a resource is nearly full\<close>

record 'e headroom =
  usage :: "'e \<Rightarrow> int \<times> int"
  percent :: int
  what :: string

definition NewHeadroom :: "string \<Rightarrow> ('e \<Rightarrow> int \<times> int) option \<Rightarrow> int \<Rightarrow> 'e headroom option" where
  "NewHeadroom w u pc =
     (case u of None \<Rightarrow> None
      | Some f \<Rightarrow> if pc \<le> 0 \<or> 100 \<le> pc then None
                  else Some \<lparr>usage = f, percent = pc, what = w\<rparr>)"

definition headroom_admit :: "'e headroom option \<Rightarrow> 'e \<Rightarrow> string \<Rightarrow> string list \<Rightarrow> bool" where
  "headroom_admit h e c running =
     (case h of None \<Rightarrow> True
      | Some h \<Rightarrow> (case usage h e of (used, limit) \<Rightarrow>
          if limit \<le> 0 then True else used * 100 < limit * percent h))"

definition headroom_describe :: "'e headroom option \<Rightarrow> 'e \<Rightarrow> string" where
  "headroom_describe h e =
     (case h of None \<Rightarrow> []
      | Some h \<Rightarrow> if snd (usage h e) \<le> 0 then []
                  else ''start nothing new while '' @ what h @ '' is over '' @
                       itoa (percent h) @ ''% full'')"

definition headroom_policy :: "'e headroom option \<Rightarrow> 'e policy" where
  "headroom_policy h = \<lparr>admit = headroom_admit h, describe = headroom_describe h\<rparr>"

subsection \<open>The heaviest cases of a plan\<close>

text \<open>\<open>took\<close> is a Go map; an association list with distinct keys holds it in some iteration order.\<close>

definition Heaviest :: "(string \<times> 'b::{linorder,zero}) list \<Rightarrow> int \<Rightarrow> string list" where
  "Heaviest took n =
     (if n < 1 \<or> took = [] then []
      else take (nat n)
        (sort_by (most_first (\<lambda>c. case map_of took c of None \<Rightarrow> 0 | Some d \<Rightarrow> d)) (map fst took)))"

subsection \<open>What the rules promise\<close>

lemma All_admit:
  "(case All ps of None \<Rightarrow> True | Some p \<Rightarrow> admit p e c running) \<longleftrightarrow>
   (\<forall>p. Some p \<in> set ps \<longrightarrow> admit p e c running)"
proof -
  have mem: "p \<in> set (List.map_filter id ps) \<longleftrightarrow> Some p \<in> set ps" for p
    by (force simp: List.map_filter_def image_iff)
  show ?thesis
    using mem
    by (auto simp: All_def all_admit_def list_all_iff split: list.splits)
       (metis list.set_intros(1) list.set_intros(2))+
qed

text \<open>
  What the queue relies on: a rule that bounds how many marked cases run at once keeps its
  bound when a case it admits starts, and when the only case of an idle run starts without
  being asked.
\<close>

locale running_cap =
  fixes adm :: "string \<Rightarrow> string list \<Rightarrow> bool"
    and within :: "string list \<Rightarrow> bool"
  assumes idle: "within []"
    and admitted: "adm c running \<Longrightarrow> within running \<Longrightarrow> within (running @ [c])"
    and alone: "within [c]"
    and leaving: "within (xs @ [c] @ ys) \<Longrightarrow> within (xs @ ys)"
begin

lemma remove_one: "within running \<Longrightarrow> within (remove1 c running)"
proof (cases "c \<in> set running")
  case True
  then obtain xs ys where "running = xs @ [c] @ ys" "c \<notin> set xs"
    by (metis append_Cons append_Nil split_list_first)
  then have "remove1 c running = xs @ ys" by (simp add: remove1_append)
  then show "within running \<Longrightarrow> ?thesis"
    using \<open>running = xs @ [c] @ ys\<close> leaving by simp
qed (simp add: remove1_idem)

end

definition heavy_within :: "heavy_cap option \<Rightarrow> string list \<Rightarrow> bool" where
  "heavy_within h running =
     (case h of None \<Rightarrow> True | Some h \<Rightarrow> int (heavy_count h running) \<le> cap_max h)"

text \<open>A cap made by \<open>NewHeavyCap\<close> allows at least one heavy case.\<close>

definition cap_ok :: "heavy_cap option \<Rightarrow> bool" where
  "cap_ok h = (case h of None \<Rightarrow> True | Some h \<Rightarrow> 1 \<le> cap_max h)"

lemma NewHeavyCap_ok: "cap_ok (NewHeavyCap hs m)"
  by (simp add: cap_ok_def NewHeavyCap_def)

lemma heavy_running_cap: "cap_ok h \<Longrightarrow> running_cap (heavy_admit h) (heavy_within h)"
  by unfold_locales
    (auto simp: heavy_within_def heavy_admit_def heavy_count_def cap_ok_def split: option.splits if_splits)

interpretation heavycap: running_cap "heavy_admit (NewHeavyCap hs m)" "heavy_within (NewHeavyCap hs m)"
  for hs m
  by (rule heavy_running_cap) (rule NewHeavyCap_ok)

lemma Heaviest_map_order:
  assumes "mset took = mset took'" and "distinct (map fst took)"
  shows "Heaviest took n = Heaviest took' n"
proof -
  have d: "distinct (map fst took')"
    by (metis assms mset_eq_imp_distinct_iff mset_map)
  have eq: "map_of took = map_of took'"
    using assms d by (metis map_of_inject_set set_mset_mset)
  have "mset (map fst took) = mset (map fst took')" using assms(1) by (metis mset_map)
  then have "sort_by (most_first f) (map fst took) = sort_by (most_first f) (map fst took')"
    for f :: "string \<Rightarrow> 'a"
    by (intro most.sort_by_set_determined) auto
  moreover have "took = [] \<longleftrightarrow> took' = []" using assms(1) by auto
  ultimately show ?thesis by (simp add: Heaviest_def eq)
qed

end
