(* ===== verification/Dispatch_Queue.thy ===== *)
theory Dispatch_Queue
  imports Dispatch_Policy
begin

text \<open>
  The work queue (\<open>internal/dispatch/dispatch.go\<close>). The struct \<open>Queue\<close> is the record
  \<open>queue\<close>, without its mutex: every method holds it from entry to return, so a method is one
  step. \<open>cases\<close> is the slice the caller handed over, which \<open>take\<close> shifts in place. A Go map
  that is only looked up is a partial function; \<open>held\<close>, which \<open>Finished\<close> ranges over, is an
  association list.
\<close>

datatype lane = LaneAny | LaneFast | LaneSlow

fun lane_index :: "lane \<Rightarrow> nat" where
  "lane_index LaneAny = 0"
| "lane_index LaneFast = 1"
| "lane_index LaneSlow = 2"

instantiation lane :: linorder
begin

definition less_eq_lane :: "lane \<Rightarrow> lane \<Rightarrow> bool" where
  "less_eq_lane a b \<longleftrightarrow> lane_index a \<le> lane_index b"

definition less_lane :: "lane \<Rightarrow> lane \<Rightarrow> bool" where
  "less_lane a b \<longleftrightarrow> lane_index a < lane_index b"

instance
proof
  fix a b c :: lane
  show "a < b \<longleftrightarrow> a \<le> b \<and> \<not> b \<le> a" by (auto simp: less_eq_lane_def less_lane_def)
  show "a \<le> a" by (simp add: less_eq_lane_def)
  show "a \<le> b \<Longrightarrow> b \<le> c \<Longrightarrow> a \<le> c" by (simp add: less_eq_lane_def)
  show "a \<le> b \<Longrightarrow> b \<le> a \<Longrightarrow> a = b" by (cases a; cases b) (auto simp: less_eq_lane_def)
  show "a \<le> b \<or> b \<le> a" by (auto simp: less_eq_lane_def)
qed

end

fun lane_string :: "lane \<Rightarrow> string" where
  "lane_string LaneFast = ''tmpfs''"
| "lane_string LaneSlow = ''disk''"
| "lane_string LaneAny = []"

record ticket =
  t_case :: string
  t_retry :: int

definition IsRetry :: "ticket \<Rightarrow> bool" where
  "IsRetry t \<longleftrightarrow> 0 < t_retry t"

record 'e queue =
  cases :: "string list"
  next_at :: nat
  max_retry :: int
  retry_queue :: "string list"
  retry_count :: "string \<Rightarrow> int option"
  queued :: "string \<Rightarrow> bool"
  stopped :: bool
  in_flight :: nat
  departed :: "string \<Rightarrow> bool"
  hard :: "'e policy option"
  soft :: "'e policy option"
  running :: "string list"
  lane_of :: "string \<Rightarrow> lane option"
  owner :: "string \<Rightarrow> string option"
  held :: "(string \<times> string list) list"
  taken :: "bool list"
  cursor :: "lane \<Rightarrow> nat"
  lanes :: bool

definition dir_of :: "string \<Rightarrow> string" where
  "dir_of p = (case last_index_of p ''/cases/'' of
      Some at \<Rightarrow> take (at + length ''/cases'') p
    | None \<Rightarrow> p)"

definition New :: "string list \<Rightarrow> int \<Rightarrow> 'e queue" where
  "New cs maxRetry =
     \<lparr>cases = cs, next_at = 0, max_retry = maxRetry, retry_queue = [],
      retry_count = (\<lambda>_. None), queued = (\<lambda>_. False), stopped = False, in_flight = 0,
      departed = (\<lambda>_. False), hard = None, soft = None, running = [],
      lane_of = (\<lambda>_. None), owner = (\<lambda>_. None), held = [],
      taken = replicate (length cs) False, cursor = (\<lambda>_. 0), lanes = False\<rparr>"

subsection \<open>Configuration\<close>

definition Assign :: "(string \<times> lane) list \<Rightarrow> 'e queue \<Rightarrow> 'e queue" where
  "Assign byDir q =
     (if byDir = [] then q
      else q\<lparr>lane_of := lane_of q ++ map_of byDir, lanes := True\<rparr>)"

definition Affinity :: "'e queue \<Rightarrow> 'e queue" where
  "Affinity q = q\<lparr>lanes := True\<rparr>"

definition Policy :: "'e policy option \<Rightarrow> 'e policy option \<Rightarrow> 'e queue \<Rightarrow> 'e queue" where
  "Policy h s q = q\<lparr>hard := h, soft := s\<rparr>"

definition LaneOfCase :: "string \<Rightarrow> 'e queue \<Rightarrow> lane" where
  "LaneOfCase p q =
     (if \<not> lanes q then LaneAny
      else case lane_of q (dir_of p) of Some l \<Rightarrow> l | None \<Rightarrow> LaneFast)"

definition Total :: "'e queue \<Rightarrow> nat" where
  "Total q = length (cases q)"

definition Stop :: "'e queue \<Rightarrow> 'e queue" where
  "Stop q = q\<lparr>stopped := True\<rparr>"

subsection \<open>The first pass without lanes\<close>

definition policy_ok :: "'e \<Rightarrow> 'e policy option \<Rightarrow> string \<Rightarrow> string list \<Rightarrow> bool" where
  "policy_ok e p c rs = (case p of None \<Rightarrow> True | Some p \<Rightarrow> admit p e c rs)"

definition scanPolicy ::
  "'e \<Rightarrow> 'e policy option list \<Rightarrow> 'e queue \<Rightarrow> (string \<times> nat) option" where
  "scanPolicy e ps q =
     (case find (\<lambda>i. list_all (\<lambda>p. policy_ok e p (cases q ! i) (running q)) ps)
             [next_at q ..< length (cases q)] of
        None \<Rightarrow> None
      | Some i \<Rightarrow> Some (cases q ! i, i))"

definition admissible :: "'e \<Rightarrow> 'e queue \<Rightarrow> (string \<times> nat) option" where
  "admissible e q =
     (if length (cases q) \<le> next_at q then None
      else case scanPolicy e [hard q, soft q] q of
        Some r \<Rightarrow> Some r
      | None \<Rightarrow> (case scanPolicy e [hard q, None] q of
          Some r \<Rightarrow> Some r
        | None \<Rightarrow> if running q = [] then Some (cases q ! next_at q, next_at q) else None))"

text \<open>\<open>copy(q.cases[q.next+1:i+1], q.cases[q.next:i])\<close> moves the skipped cases up by one.\<close>

definition take_at :: "nat \<Rightarrow> 'e queue \<Rightarrow> 'e queue" where
  "take_at i q =
     (if i = next_at q then q\<lparr>next_at := next_at q + 1\<rparr>
      else q\<lparr>cases := take (next_at q + 1) (cases q) @
                       take (i - next_at q) (drop (next_at q) (cases q)) @
                       drop (i + 1) (cases q),
             next_at := next_at q + 1\<rparr>)"

definition start :: "string \<Rightarrow> 'e queue \<Rightarrow> 'e queue" where
  "start c q = q\<lparr>in_flight := in_flight q + 1, running := running q @ [c]\<rparr>"

definition stop :: "string \<Rightarrow> 'e queue \<Rightarrow> 'e queue" where
  "stop c q = q\<lparr>running := remove1 c (running q)\<rparr>"

subsection \<open>Lanes: a directory goes to one slot\<close>

definition laneMatch :: "'e queue \<Rightarrow> string \<Rightarrow> lane \<Rightarrow> bool" where
  "laneMatch q p want =
     (if want = LaneAny then True
      else (case lane_of q (dir_of p) of Some l \<Rightarrow> l | None \<Rightarrow> LaneFast) = want)"

definition held_of :: "'e queue \<Rightarrow> string \<Rightarrow> string list" where
  "held_of q slot = (case map_of (held q) slot of None \<Rightarrow> [] | Some cs \<Rightarrow> cs)"

definition scan :: "string \<Rightarrow> lane \<Rightarrow> 'e queue \<Rightarrow> 'e queue \<times> string option" where
  "scan slot l q =
     (case find (\<lambda>i. \<not> taken q ! i \<and> laneMatch q (cases q ! i) l)
             [cursor q l ..< length (cases q)] of
        None \<Rightarrow> (q\<lparr>cursor := (cursor q)(l := length (cases q))\<rparr>, None)
      | Some i \<Rightarrow>
          (let c = cases q ! i;
               tk = (taken q)[i := True];
               sib = filter (\<lambda>j. \<not> tk ! j \<and> dir_of (cases q ! j) = dir_of c)
                       [i + 1 ..< length (cases q)];
               kept = map (\<lambda>j. cases q ! j) sib
           in (q\<lparr>taken := foldl (\<lambda>t j. t[j := True]) tk sib,
                 cursor := (cursor q)(l := i + 1),
                 owner := (owner q)(dir_of c \<mapsto> slot),
                 held := (if kept = [] then held q
                          else AList.update slot (held_of q slot @ kept) (held q))\<rparr>,
               Some c)))"

subsection \<open>Claiming\<close>

datatype claim = Got ticket | Over | Again

definition retry_no :: "'e queue \<Rightarrow> string \<Rightarrow> int" where
  "retry_no q c = (case retry_count q c of None \<Rightarrow> 0 | Some r \<Rightarrow> r)"

definition claim_held :: "string \<Rightarrow> string \<Rightarrow> string list \<Rightarrow> 'e queue \<Rightarrow> 'e queue \<times> claim" where
  "claim_held slot c rest q =
     (q\<lparr>held := AList.update slot rest (held q), queued := (queued q)(c := False),
        in_flight := in_flight q + 1\<rparr>,
      Got \<lparr>t_case = c, t_retry = retry_no q c\<rparr>)"

definition claim_retry :: "string \<Rightarrow> lane \<Rightarrow> 'e queue \<Rightarrow> 'e queue \<times> claim" where
  "claim_retry slot l q =
     (case (if in_flight q = 0
            then find (\<lambda>i. \<not> (lanes q \<and> \<not> laneMatch q (retry_queue q ! i) l))
                   [0 ..< length (retry_queue q)]
            else None) of
        Some i \<Rightarrow>
          (let c = retry_queue q ! i
           in (q\<lparr>retry_queue := take i (retry_queue q) @ drop (i + 1) (retry_queue q),
                 queued := (queued q)(c := False), in_flight := in_flight q + 1\<rparr>,
               Got \<lparr>t_case = c, t_retry = retry_no q c\<rparr>))
      | None \<Rightarrow> (q\<lparr>departed := (departed q)(slot := True)\<rparr>, Over))"

definition claimOnce :: "'e \<Rightarrow> string \<Rightarrow> lane \<Rightarrow> 'e queue \<Rightarrow> 'e queue \<times> claim" where
  "claimOnce e slot l q =
     (if stopped q then (q, Over)
      else case held_of q slot of
        c # rest \<Rightarrow> claim_held slot c rest q
      | [] \<Rightarrow>
          if \<not> lanes q then
            (case admissible e q of
               Some (c, at) \<Rightarrow> (start c (take_at at q), Got \<lparr>t_case = c, t_retry = 0\<rparr>)
             | None \<Rightarrow> if next_at q < length (cases q) then (q, Again)
                       else claim_retry slot l q)
          else
            (case scan slot l q of
               (q', Some c) \<Rightarrow> (start c q', Got \<lparr>t_case = c, t_retry = 0\<rparr>)
             | (q', None) \<Rightarrow> claim_retry slot l q'))"

text \<open>
  \<open>ClaimFor\<close> polls while the policy refuses. The readings of the machine the polls see are a
  list; a claimant still waiting when they run out is \<open>Again\<close>. Other workers' steps come
  between two polls in the run model.
\<close>

fun ClaimFor :: "'e list \<Rightarrow> string \<Rightarrow> lane \<Rightarrow> 'e queue \<Rightarrow> 'e queue \<times> claim" where
  "ClaimFor [] slot l q = (q, Again)"
| "ClaimFor (e # es) slot l q =
     (case claimOnce e slot l q of
        (q', Again) \<Rightarrow> ClaimFor es slot l q'
      | r \<Rightarrow> r)"

definition Claim :: "'e list \<Rightarrow> 'e queue \<Rightarrow> 'e queue \<times> claim" where
  "Claim es q = ClaimFor es [] LaneAny q"

subsection \<open>Completing\<close>

definition enqueue :: "string \<Rightarrow> int \<Rightarrow> 'e queue \<Rightarrow> 'e queue" where
  "enqueue c r q =
     (if max_retry q < r then q
      else let q1 = q\<lparr>retry_count := (retry_count q)(c \<mapsto> r)\<rparr> in
        if queued q1 c then q1
        else let q2 = q1\<lparr>queued := (queued q1)(c := True)\<rparr> in
          (case (if lanes q2 then owner q2 (dir_of c) else None) of
             Some o' \<Rightarrow>
               if \<not> departed q2 o'
               then q2\<lparr>held := AList.update o' (held_of q2 o' @ [c]) (held q2)\<rparr>
               else q2\<lparr>retry_queue := retry_queue q2 @ [c]\<rparr>
           | None \<Rightarrow> q2\<lparr>retry_queue := retry_queue q2 @ [c]\<rparr>))"

definition Complete :: "ticket \<Rightarrow> bool \<Rightarrow> bool \<Rightarrow> 'e queue \<Rightarrow> 'e queue \<times> bool" where
  "Complete t success hasCore q =
     (let q1 = stop (t_case t) (q\<lparr>in_flight := in_flight q - 1\<rparr>);
          retrying = (\<not> success \<and> \<not> hasCore \<and> t_retry t < max_retry q1)
      in if retrying then (enqueue (t_case t) (t_retry t + 1) q1, True)
         else (q1\<lparr>retry_count := (retry_count q1)(t_case t := None),
                  queued := (queued q1)(t_case t := False)\<rparr>, False))"

definition all_claimed :: "'e queue \<Rightarrow> bool" where
  "all_claimed q =
     (if \<not> lanes q then length (cases q) \<le> next_at q else list_all (\<lambda>t. t) (taken q))"

definition Drained :: "'e queue \<Rightarrow> bool" where
  "Drained q =
     (if stopped q then True
      else if retry_queue q \<noteq> [] then False
      else all_claimed q)"

definition Finished :: "'e queue \<Rightarrow> bool" where
  "Finished q =
     (if stopped q then True
      else if retry_queue q \<noteq> [] \<or> 0 < in_flight q then False
      else if list_ex (\<lambda>(s, cs). cs \<noteq> []) (held q) then False
      else all_claimed q)"

subsection \<open>The waiting window\<close>

definition waiting :: "'e queue \<Rightarrow> string list" where
  "waiting q = drop (next_at q) (cases q)"

definition window_ok :: "'e queue \<Rightarrow> bool" where
  "window_ok q \<longleftrightarrow> next_at q \<le> length (cases q)"

lemma scanPolicy_Some:
  "scanPolicy e ps q = Some (c, at) \<Longrightarrow>
     next_at q \<le> at \<and> at < length (cases q) \<and> c = cases q ! at \<and>
     (\<forall>p \<in> set ps. policy_ok e p c (running q))"
  by (auto simp: scanPolicy_def find_Some_iff list_all_iff split: option.splits)

lemma scanPolicy_None:
  "scanPolicy e ps q = None \<Longrightarrow> next_at q \<le> i \<Longrightarrow> i < length (cases q) \<Longrightarrow>
   \<exists>p \<in> set ps. \<not> policy_ok e p (cases q ! i) (running q)"
  by (auto simp: scanPolicy_def find_None_iff list_all_iff split: option.splits)

lemma admissible_Some:
  assumes "admissible e q = Some (c, at)"
  shows "next_at q \<le> at" "at < length (cases q)" "c = cases q ! at"
    and "policy_ok e (hard q) c (running q) \<or> running q = []"
  using assms scanPolicy_Some [of e _ q c at]
  by (auto simp: admissible_def split: if_splits option.splits)

lemma admissible_None:
  assumes "admissible e q = None" and "next_at q < length (cases q)"
  shows "running q \<noteq> []"
  using assms by (auto simp: admissible_def split: if_splits option.splits)

lemma take_at_window:
  assumes "next_at q \<le> at" "at < length (cases q)"
  shows "waiting (take_at at q) =
           take (at - next_at q) (waiting q) @ drop (Suc (at - next_at q)) (waiting q)"
    and "length (cases (take_at at q)) = length (cases q)"
    and "next_at (take_at at q) = Suc (next_at q)"
proof -
  have len: "length (take (Suc (next_at q)) (cases q)) = Suc (next_at q)"
    using assms by simp
  have sum: "Suc (at - next_at q) + next_at q = Suc at" using assms by simp
  show "waiting (take_at at q) =
      take (at - next_at q) (waiting q) @ drop (Suc (at - next_at q)) (waiting q)"
  proof (cases "at = next_at q")
    case True
    then show ?thesis by (simp add: take_at_def waiting_def)
  next
    case False
    then show ?thesis using len sum
      by (simp add: take_at_def waiting_def del: length_take)
  qed
  show "length (cases (take_at at q)) = length (cases q)"
    using assms by (simp add: take_at_def) arith
  show "next_at (take_at at q) = Suc (next_at q)" by (simp add: take_at_def)
qed

lemma waiting_nth:
  "next_at q \<le> at \<Longrightarrow> at < length (cases q) \<Longrightarrow> waiting q ! (at - next_at q) = cases q ! at"
  by (simp add: waiting_def)

lemma mset_take_at:
  assumes "next_at q \<le> at" "at < length (cases q)"
  shows "mset (waiting q) = add_mset (cases q ! at) (mset (waiting (take_at at q)))"
proof -
  let ?k = "at - next_at q" and ?w = "waiting q"
  have k: "?k < length ?w" using assms by (simp add: waiting_def)
  have "?w = take ?k ?w @ ?w ! ?k # drop (Suc ?k) ?w" using k by (simp add: id_take_nth_drop)
  then have "mset ?w = mset (take ?k ?w @ ?w ! ?k # drop (Suc ?k) ?w)" by simp
  then show ?thesis using assms by (simp add: take_at_window(1) waiting_nth)
qed

lemma claim_retry_shared:
  assumes "\<not> lanes q"
  shows "claim_retry slot l q =
    (case (in_flight q, retry_queue q) of
       (0, c # cs) \<Rightarrow> (q\<lparr>retry_queue := cs, queued := (queued q)(c := False),
                        in_flight := in_flight q + 1\<rparr>, Got \<lparr>t_case = c, t_retry = retry_no q c\<rparr>)
     | _ \<Rightarrow> (q\<lparr>departed := (departed q)(slot := True)\<rparr>, Over))"
proof (cases "in_flight q = 0 \<and> retry_queue q \<noteq> []")
  case True
  then obtain c cs where cs: "retry_queue q = c # cs" by (cases "retry_queue q") auto
  have "find (\<lambda>i. \<not> (lanes q \<and> \<not> laneMatch q (retry_queue q ! i) l)) [0 ..< length (retry_queue q)]
        = Some 0"
    using assms cs by (simp add: upt_rec)
  with True cs show ?thesis by (simp add: claim_retry_def)
next
  case False
  then have "(if in_flight q = 0
      then find (\<lambda>i. \<not> (lanes q \<and> \<not> laneMatch q (retry_queue q ! i) l)) [0 ..< length (retry_queue q)]
      else None) = None" by auto
  with False show ?thesis
    by (auto simp: claim_retry_def Let_def split: nat.splits list.splits)
qed

lemma enqueue_shared:
  assumes "\<not> lanes q" and "r \<le> max_retry q" and "\<not> queued q c"
  shows "enqueue c r q =
    q\<lparr>retry_count := (retry_count q)(c \<mapsto> r), queued := (queued q)(c := True),
      retry_queue := retry_queue q @ [c]\<rparr>"
  using assms by (simp add: enqueue_def Let_def)

end
