(* ===== verification/Dispatch_Run.thy ===== *)
theory Dispatch_Run
  imports Dispatch_Queue
begin

text \<open>
  A run: one queue and a crew of workers, each looping over \<open>ClaimFor\<close>, the case and
  \<open>Complete\<close> until \<open>ClaimFor\<close> reports the end (the worker loops of \<open>shellsuite/worker.go\<close>,
  \<open>sqlsuite/worker.go\<close> and \<open>isolationsuite/worker.go\<close>). Every method of the queue holds its
  mutex, so a run is a sequence of atomic steps in any order of workers; what a case does and
  what the machine reads are arbitrary. \<open>started\<close> and \<open>decided\<close> record the tickets handed out
  and the cases that got a verdict, in order.
\<close>

datatype phase = Asking | Working ticket | Gone

record 'e sys =
  sq :: "'e queue"
  crew :: "phase list"
  started :: "ticket list"
  decided :: "string list"

inductive run_step :: "(nat \<Rightarrow> string) \<Rightarrow> (nat \<Rightarrow> lane) \<Rightarrow> 'e sys \<Rightarrow> 'e sys \<Rightarrow> bool" for sl ln where
  claim: "i < length (crew s) \<Longrightarrow> crew s ! i = Asking \<Longrightarrow>
     claimOnce e (sl i) (ln i) (sq s) = (q', Got t) \<Longrightarrow>
     run_step sl ln s (s\<lparr>sq := q', crew := (crew s)[i := Working t], started := started s @ [t]\<rparr>)"
| wait: "i < length (crew s) \<Longrightarrow> crew s ! i = Asking \<Longrightarrow>
     claimOnce e (sl i) (ln i) (sq s) = (q', Again) \<Longrightarrow>
     run_step sl ln s (s\<lparr>sq := q'\<rparr>)"
| leave: "i < length (crew s) \<Longrightarrow> crew s ! i = Asking \<Longrightarrow>
     claimOnce e (sl i) (ln i) (sq s) = (q', Over) \<Longrightarrow>
     run_step sl ln s (s\<lparr>sq := q', crew := (crew s)[i := Gone]\<rparr>)"
| retry: "i < length (crew s) \<Longrightarrow> crew s ! i = Working t \<Longrightarrow>
     Complete t success hasCore (sq s) = (q', True) \<Longrightarrow>
     run_step sl ln s (s\<lparr>sq := q', crew := (crew s)[i := Asking]\<rparr>)"
| verdict: "i < length (crew s) \<Longrightarrow> crew s ! i = Working t \<Longrightarrow>
     Complete t success hasCore (sq s) = (q', False) \<Longrightarrow>
     run_step sl ln s (s\<lparr>sq := q', crew := (crew s)[i := Asking], decided := decided s @ [t_case t]\<rparr>)"
| halt: "run_step sl ln s (s\<lparr>sq := Stop (sq s)\<rparr>)"

definition fresh :: "'e queue \<Rightarrow> nat \<Rightarrow> 'e sys" where
  "fresh q n = \<lparr>sq = q, crew = replicate n Asking, started = [], decided = []\<rparr>"

inductive reaches ::
  "(nat \<Rightarrow> string) \<Rightarrow> (nat \<Rightarrow> lane) \<Rightarrow> 'e sys \<Rightarrow> 'e sys \<Rightarrow> bool" for sl ln s0 where
  here: "reaches sl ln s0 s0"
| more: "reaches sl ln s0 s \<Longrightarrow> run_step sl ln s t \<Longrightarrow> reaches sl ln s0 t"

subsection \<open>The tickets in flight\<close>

fun tick :: "phase \<Rightarrow> ticket multiset" where
  "tick (Working t) = {#t#}"
| "tick Asking = {#}"
| "tick Gone = {#}"

definition flying :: "phase list \<Rightarrow> ticket multiset" where
  "flying ws = sum_list (map tick ws)"

lemma flying_update:
  "i < length ws \<Longrightarrow> flying (ws[i := p]) + tick (ws ! i) = flying ws + tick p"
proof (induction ws arbitrary: i)
  case Nil
  then show ?case by simp
next
  case (Cons w ws)
  then show ?case
    by (cases i) (auto simp: flying_def ac_simps)
qed

lemma flying_asking:
  "i < length ws \<Longrightarrow> ws ! i = Asking \<Longrightarrow> flying (ws[i := Working t]) = add_mset t (flying ws)"
  "i < length ws \<Longrightarrow> ws ! i = Asking \<Longrightarrow> flying (ws[i := Gone]) = flying ws"
  using flying_update [of i ws "Working t"] flying_update [of i ws Gone] by auto

lemma flying_working:
  "i < length ws \<Longrightarrow> ws ! i = Working t \<Longrightarrow> flying ws = add_mset t (flying (ws[i := Asking]))"
  using flying_update [of i ws Asking] by auto

lemma flying_replicate [simp]: "flying (replicate n Asking) = {#}"
  by (induction n) (auto simp: flying_def)

lemma flying_nonempty: "flying ws \<noteq> {#} \<Longrightarrow> \<exists>i t. i < length ws \<and> ws ! i = Working t"
proof (induction ws)
  case Nil
  then show ?case by (simp add: flying_def)
next
  case (Cons w ws)
  show ?case
  proof (cases w)
    case (Working t)
    then show ?thesis by (intro exI [of _ 0]) auto
  next
    case Asking
    then have "flying ws \<noteq> {#}" using Cons.prems by (simp add: flying_def)
    then obtain i t where "i < length ws" "ws ! i = Working t" using Cons.IH by blast
    then show ?thesis by (intro exI [of _ "Suc i"]) auto
  next
    case Gone
    then have "flying ws \<noteq> {#}" using Cons.prems by (simp add: flying_def)
    then obtain i t where "i < length ws" "ws ! i = Working t" using Cons.IH by blast
    then show ?thesis by (intro exI [of _ "Suc i"]) auto
  qed
qed

lemma flying_gone: "\<forall>p \<in> set ws. p = Gone \<Longrightarrow> flying ws = {#}"
  by (induction ws) (auto simp: flying_def)

subsection \<open>What a claim and a completion do without lanes\<close>

definition shared :: "'e queue \<Rightarrow> bool" where
  "shared q \<longleftrightarrow> \<not> lanes q \<and> held q = [] \<and> window_ok q"

lemma shared_claim_cases:
  assumes "shared q" and "claimOnce e slot l q = (q', r)"
  obtains
    (stopped) "stopped q" "q' = q" "r = Over"
  | (first) c at where "\<not> stopped q" "next_at q \<le> at" "at < length (cases q)" "c = cases q ! at"
      "q' = start c (take_at at q)" "r = Got \<lparr>t_case = c, t_retry = 0\<rparr>"
      "policy_ok e (hard q) c (running q) \<or> running q = []"
  | (again) "\<not> stopped q" "q' = q" "r = Again" "running q \<noteq> []" "waiting q \<noteq> []"
  | (retry) c cs where "\<not> stopped q" "waiting q = []" "in_flight q = 0" "retry_queue q = c # cs"
      "q' = q\<lparr>retry_queue := cs, queued := (queued q)(c := False), in_flight := 1\<rparr>"
      "r = Got \<lparr>t_case = c, t_retry = retry_no q c\<rparr>"
  | (over) "\<not> stopped q" "waiting q = []" "0 < in_flight q \<or> retry_queue q = []"
      "q' = q\<lparr>departed := (departed q)(slot := True)\<rparr>" "r = Over"
proof (cases "stopped q")
  case True
  then have "q' = q" "r = Over" using assms(2) by (auto simp: claimOnce_def)
  with True show ?thesis by (rule stopped)
next
  case False
  note ns = this
  have held: "held_of q slot = []" using assms(1) by (simp add: shared_def held_of_def)
  have nl: "\<not> lanes q" and win: "window_ok q" using assms(1) by (auto simp: shared_def)
  show ?thesis
  proof (cases "admissible e q")
    case (Some a)
    obtain c at where a: "a = (c, at)" by (cases a)
    have "q' = start c (take_at at q)" "r = Got \<lparr>t_case = c, t_retry = 0\<rparr>"
      using assms(2) ns held nl Some a by (auto simp: claimOnce_def)
    with ns admissible_Some [OF Some [unfolded a]] show ?thesis by (intro first [of at c]) auto
  next
    case None
    note none = this
    show ?thesis
    proof (cases "next_at q < length (cases q)")
      case True
      have "q' = q" "r = Again" using assms(2) ns held nl none True by (auto simp: claimOnce_def)
      with ns admissible_None [OF none True] True show ?thesis
        by (intro again) (auto simp: waiting_def)
    next
      case False
      then have w: "waiting q = []" by (simp add: waiting_def)
      have cl: "claim_retry slot l q = (q', r)"
        using assms(2) ns held nl none False by (simp add: claimOnce_def)
      show ?thesis
      proof (cases "in_flight q = 0 \<and> retry_queue q \<noteq> []")
        case True
        then obtain c cs where cs: "retry_queue q = c # cs" by (cases "retry_queue q") auto
        with True cl nl w ns show ?thesis
          by (intro retry [of c cs]) (auto simp: claim_retry_shared)
      next
        case False
        then have "0 < in_flight q \<or> retry_queue q = []" by auto
        moreover have "q' = q\<lparr>departed := (departed q)(slot := True)\<rparr> \<and> r = Over"
          using cl False nl by (auto simp: claim_retry_shared split: nat.splits list.splits)
        ultimately show ?thesis using ns w by (intro over) auto
      qed
    qed
  qed
qed

lemma shared_complete_cases:
  assumes "shared q" and "\<not> queued q (t_case t)" and "Complete t ok core q = (q', r)"
  obtains
    (again) "r" "\<not> ok" "\<not> core" "t_retry t < max_retry q"
      "q' = q\<lparr>in_flight := in_flight q - 1, running := remove1 (t_case t) (running q),
              retry_count := (retry_count q)(t_case t \<mapsto> t_retry t + 1),
              queued := (queued q)(t_case t := True), retry_queue := retry_queue q @ [t_case t]\<rparr>"
  | (final) "\<not> r" "ok \<or> core \<or> max_retry q \<le> t_retry t"
      "q' = q\<lparr>in_flight := in_flight q - 1, running := remove1 (t_case t) (running q),
              retry_count := (retry_count q)(t_case t := None),
              queued := (queued q)(t_case t := False)\<rparr>"
proof (cases "\<not> ok \<and> \<not> core \<and> t_retry t < max_retry q")
  case True
  have nl: "\<not> lanes q" using assms(1) by (simp add: shared_def)
  have "q' = q\<lparr>in_flight := in_flight q - 1, running := remove1 (t_case t) (running q),
              retry_count := (retry_count q)(t_case t \<mapsto> t_retry t + 1),
              queued := (queued q)(t_case t := True), retry_queue := retry_queue q @ [t_case t]\<rparr>"
    and "r"
    using assms(2,3) True nl by (auto simp: Complete_def Let_def stop_def enqueue_shared)
  with True show ?thesis by (intro again) auto
next
  case False
  have "\<not> r" and "q' = q\<lparr>in_flight := in_flight q - 1, running := remove1 (t_case t) (running q),
              retry_count := (retry_count q)(t_case t := None),
              queued := (queued q)(t_case t := False)\<rparr>"
    using assms(3) False by (auto simp: Complete_def Let_def stop_def split: if_splits)
  with False show ?thesis by (intro final) auto
qed

end
