(* ===== verification/Dispatch_Safety.thy ===== *)
theory Dispatch_Safety
  imports Dispatch_Run
begin

text \<open>
  What a run without lanes keeps at every step (shell's queue, unless lanes are configured, and
  isolation's): every case is in exactly one of four places, the bookkeeping of the queue
  agrees with the workers, and the attempts of a case are numbered 0, 1, 2, and so on up to
  \<open>maxRetry\<close>. \<open>step_inv\<close> is the induction step; the run-level facts follow by rule induction.
\<close>

definition tries :: "'e sys \<Rightarrow> string \<Rightarrow> int list" where
  "tries s c = map t_retry (filter (\<lambda>t. t_case t = c) (started s))"

definition upto_try :: "int \<Rightarrow> int list" where
  "upto_try r = map int [0..<nat r]"

definition places :: "'e sys \<Rightarrow> string multiset" where
  "places s = mset (waiting (sq s)) + mset (retry_queue (sq s)) +
     image_mset t_case (flying (crew s)) + mset (decided s)"

definition account :: "string list \<Rightarrow> int \<Rightarrow> 'e sys \<Rightarrow> bool" where
  "account cs0 m s \<longleftrightarrow>
     shared (sq s) \<and> max_retry (sq s) = m \<and> in_flight (sq s) = size (flying (crew s)) \<and>
     places s = mset cs0 \<and>
     (\<forall>c. queued (sq s) c \<longleftrightarrow> c \<in> set (retry_queue (sq s))) \<and>
     mset (running (sq s)) = image_mset t_case (filter_mset (\<lambda>t. t_retry t = 0) (flying (crew s)))"

definition numbered :: "int \<Rightarrow> 'e sys \<Rightarrow> bool" where
  "numbered m s \<longleftrightarrow>
     (\<forall>c \<in> set (waiting (sq s)). tries s c = []) \<and>
     (\<forall>t \<in># flying (crew s). 0 \<le> t_retry t \<and> (t_retry t = 0 \<or> t_retry t \<le> m) \<and>
        tries s (t_case t) = upto_try (t_retry t + 1)) \<and>
     (\<forall>c \<in> set (retry_queue (sq s)). \<exists>r. retry_count (sq s) c = Some r \<and> 1 \<le> r \<and> r \<le> m \<and>
        tries s c = upto_try r) \<and>
     (\<forall>c \<in> set (decided s). \<exists>r. 0 \<le> r \<and> (r = 0 \<or> r \<le> m) \<and> tries s c = upto_try (r + 1))"

definition attended :: "'e sys \<Rightarrow> bool" where
  "attended s \<longleftrightarrow>
     (\<not> stopped (sq s) \<and> crew s \<noteq> [] \<and> (waiting (sq s) \<noteq> [] \<or> retry_queue (sq s) \<noteq> []) \<longrightarrow>
      (\<exists>p \<in> set (crew s). p \<noteq> Gone))"

definition run_inv :: "string list \<Rightarrow> int \<Rightarrow> 'e sys \<Rightarrow> bool" where
  "run_inv cs0 m s \<longleftrightarrow> account cs0 m s \<and> numbered m s \<and> attended s"

lemma upto_try_snoc: "0 \<le> r \<Longrightarrow> upto_try r @ [r] = upto_try (r + 1)"
  by (simp add: upto_try_def nat_add_distrib)

lemma places_fields:
  "places (s\<lparr>sq := q, crew := w, started := st, decided := d\<rparr>) =
   mset (waiting q) + mset (retry_queue q) + image_mset t_case (flying w) + mset d"
  by (simp add: places_def)

text \<open>With distinct cases, a case that is in one place is in no other.\<close>

lemma one_place:
  assumes "mset a + mset b + image_mset f c + mset d = mset cs0" and "distinct cs0"
  shows "x \<in> set a \<Longrightarrow> x \<notin> set b \<and> (\<forall>t \<in># c. f t \<noteq> x) \<and> x \<notin> set d"
    and "x \<in> set b \<Longrightarrow> (\<forall>t \<in># c. f t \<noteq> x) \<and> x \<notin> set d"
    and "t \<in># c \<Longrightarrow> f t \<notin> set d"
    and "distinct a" "distinct b" "distinct d"
    and "c = add_mset t c' \<Longrightarrow> \<forall>u \<in># c'. f u \<noteq> f t"
proof -
  have one: "count (mset a + mset b + image_mset f c + mset d) x \<le> 1" for x
    using assms by (simp add: distinct_count_atmost_1)
  have a: "x \<in> set a \<Longrightarrow> 1 \<le> count (mset a) x" for x by (simp add: Suc_le_eq)
  have b: "x \<in> set b \<Longrightarrow> 1 \<le> count (mset b) x" for x by (simp add: Suc_le_eq)
  have c: "t \<in># c \<Longrightarrow> 1 \<le> count (image_mset f c) (f t)" for t
    by (simp add: Suc_le_eq count_greater_zero_iff)
  have d: "x \<in> set d \<Longrightarrow> 1 \<le> count (mset d) x" for x by (simp add: Suc_le_eq)
  show "x \<in> set a \<Longrightarrow> x \<notin> set b \<and> (\<forall>t \<in># c. f t \<noteq> x) \<and> x \<notin> set d"
    using one [of x] a b c d by fastforce
  show "x \<in> set b \<Longrightarrow> (\<forall>t \<in># c. f t \<noteq> x) \<and> x \<notin> set d"
    using one [of x] b c d by fastforce
  show "t \<in># c \<Longrightarrow> f t \<notin> set d" using one [of "f t"] c d by fastforce
  have "count (mset a) x \<le> 1" "count (mset b) x \<le> 1" "count (mset d) x \<le> 1" for x
    using one [of x] by auto
  then show "distinct a" "distinct b" "distinct d"
    by (auto simp: distinct_count_atmost_1 le_Suc_eq count_mset_0_iff)
  show "c = add_mset t c' \<Longrightarrow> \<forall>u \<in># c'. f u \<noteq> f t"
  proof (intro ballI notI)
    fix u assume "c = add_mset t c'" "u \<in># c'" "f u = f t"
    moreover have "1 \<le> count (image_mset f c') (f u)" using \<open>u \<in># c'\<close> by (simp add: Suc_le_eq)
    ultimately have "2 \<le> count (image_mset f c) (f t)" by simp
    then show False using one [of "f t"] by simp
  qed
qed

subsection \<open>Each step keeps the account\<close>

lemma tries_start:
  "tries (s\<lparr>sq := q, crew := w, started := started s @ [t]\<rparr>) c =
   (if t_case t = c then tries s c @ [t_retry t] else tries s c)"
  by (simp add: tries_def)

lemma tries_frame [simp]:
  "tries (s\<lparr>sq := q\<rparr>) c = tries s c"
  "tries (s\<lparr>sq := q, crew := w\<rparr>) c = tries s c"
  "tries (s\<lparr>sq := q, crew := w, decided := d\<rparr>) c = tries s c"
  by (simp_all add: tries_def)

lemma first_account:
  assumes acc: "account cs0 m s"
    and i: "i < length (crew s)" "crew s ! i = Asking"
    and at: "next_at (sq s) \<le> at" "at < length (cases (sq s))" "c = cases (sq s) ! at"
    and t: "t = \<lparr>t_case = c, t_retry = 0\<rparr>"
  shows "account cs0 m (s\<lparr>sq := start c (take_at at (sq s)), crew := (crew s)[i := Working t],
           started := started s @ [t]\<rparr>)"
proof -
  let ?q = "sq s"
  have w: "mset (waiting ?q) = add_mset c (mset (waiting (take_at at ?q)))"
    using mset_take_at [OF at(1,2)] at(3) by simp
  have frame: "shared (start c (take_at at ?q))"
    using acc take_at_window [OF at(1,2)] at
    by (simp add: account_def shared_def start_def window_ok_def take_at_def)
  have wait': "waiting (start c (take_at at ?q)) = waiting (take_at at ?q)"
    by (simp add: waiting_def start_def)
  have fields: "max_retry (start c (take_at at ?q)) = max_retry ?q"
      "in_flight (start c (take_at at ?q)) = in_flight ?q + 1"
      "retry_queue (start c (take_at at ?q)) = retry_queue ?q"
      "queued (start c (take_at at ?q)) = queued ?q"
      "running (start c (take_at at ?q)) = running ?q @ [c]"
    by (simp_all add: start_def take_at_def)
  have "places s = mset cs0" using acc by (simp add: account_def)
  then have "places (s\<lparr>sq := start c (take_at at ?q), crew := (crew s)[i := Working t],
      started := started s @ [t]\<rparr>) = mset cs0"
    using w by (simp add: places_def wait' fields flying_asking [OF i] t)
  with acc frame show ?thesis
    by (simp add: account_def fields flying_asking [OF i] t)
qed

lemma retry_account:
  assumes acc: "account cs0 m s" and dist: "distinct cs0"
    and i: "i < length (crew s)" "crew s ! i = Asking"
    and q: "retry_queue (sq s) = c # cs" "in_flight (sq s) = 0"
    and t: "t_case t = c" "1 \<le> t_retry t"
  shows "account cs0 m (s\<lparr>sq := (sq s)\<lparr>retry_queue := cs, queued := (queued (sq s))(c := False),
           in_flight := 1\<rparr>, crew := (crew s)[i := Working t], started := started s @ [t]\<rparr>)"
proof -
  have parts: "places s = mset cs0" using acc by (simp add: account_def)
  have "distinct (c # cs)"
    using one_place(5) [OF parts [unfolded places_def] dist] q(1) by simp
  moreover have "flying (crew s) = {#}" using acc q(2) by (simp add: account_def)
  ultimately show ?thesis
    using acc parts q t
    by (auto simp: account_def shared_def places_def waiting_def window_ok_def flying_asking [OF i])
qed

lemma complete_running:
  assumes acc: "account cs0 m s" and dist: "distinct cs0"
    and fl: "flying (crew s) = add_mset t R"
  shows "mset (remove1 (t_case t) (running (sq s))) =
           image_mset t_case (filter_mset (\<lambda>t. t_retry t = 0) R)"
proof -
  have run: "mset (running (sq s)) =
      image_mset t_case (filter_mset (\<lambda>t. t_retry t = 0) (add_mset t R))"
    using acc fl by (simp add: account_def)
  show ?thesis
  proof (cases "t_retry t = 0")
    case True
    with run show ?thesis by simp
  next
    case False
    have parts: "places s = mset cs0" using acc by (simp add: account_def)
    have "\<forall>u \<in># R. t_case u \<noteq> t_case t"
      using one_place(7) [OF parts [unfolded places_def] dist fl] .
    then have "t_case t \<notin># image_mset t_case (filter_mset (\<lambda>t. t_retry t = 0) R)" by auto
    moreover have "mset (running (sq s)) = image_mset t_case (filter_mset (\<lambda>t. t_retry t = 0) R)"
      using run False by simp
    ultimately show ?thesis by (simp add: diff_single_trivial)
  qed
qed

lemma not_queued_in_flight:
  assumes acc: "account cs0 m s" and dist: "distinct cs0" and t: "t \<in># flying (crew s)"
  shows "t_case t \<notin> set (retry_queue (sq s))" and "\<not> queued (sq s) (t_case t)"
proof -
  have parts: "places s = mset cs0" using acc by (simp add: account_def)
  show "t_case t \<notin> set (retry_queue (sq s))"
    using one_place(2) [OF parts [unfolded places_def] dist, of "t_case t"] t by blast
  then show "\<not> queued (sq s) (t_case t)" using acc by (simp add: account_def)
qed

lemma again_account:
  assumes acc: "account cs0 m s" and dist: "distinct cs0"
    and i: "i < length (crew s)" "crew s ! i = Working t"
  shows "account cs0 m (s\<lparr>sq := (sq s)\<lparr>in_flight := in_flight (sq s) - 1,
              running := remove1 (t_case t) (running (sq s)),
              retry_count := (retry_count (sq s))(t_case t \<mapsto> t_retry t + 1),
              queued := (queued (sq s))(t_case t := True),
              retry_queue := retry_queue (sq s) @ [t_case t]\<rparr>, crew := (crew s)[i := Asking]\<rparr>)"
  using acc complete_running [OF acc dist flying_working [OF i]] flying_working [OF i]
  by (auto simp: account_def shared_def places_def waiting_def window_ok_def)

lemma verdict_account:
  assumes acc: "account cs0 m s" and dist: "distinct cs0"
    and i: "i < length (crew s)" "crew s ! i = Working t"
  shows "account cs0 m (s\<lparr>sq := (sq s)\<lparr>in_flight := in_flight (sq s) - 1,
              running := remove1 (t_case t) (running (sq s)),
              retry_count := (retry_count (sq s))(t_case t := None),
              queued := (queued (sq s))(t_case t := False)\<rparr>, crew := (crew s)[i := Asking],
            decided := decided s @ [t_case t]\<rparr>)"
  using acc complete_running [OF acc dist flying_working [OF i]] flying_working [OF i]
    not_queued_in_flight(1) [OF acc dist, of t]
  by (auto simp: account_def shared_def places_def waiting_def window_ok_def)

lemma account_idle:
  "account cs0 m s \<Longrightarrow> account cs0 m (s\<lparr>sq := Stop (sq s)\<rparr>)"
  "account cs0 m s \<Longrightarrow> i < length (crew s) \<Longrightarrow> crew s ! i = Asking \<Longrightarrow>
     account cs0 m (s\<lparr>sq := (sq s)\<lparr>departed := d\<rparr>, crew := (crew s)[i := Gone]\<rparr>)"
  "account cs0 m s \<Longrightarrow> i < length (crew s) \<Longrightarrow> crew s ! i = Asking \<Longrightarrow>
     account cs0 m (s\<lparr>crew := (crew s)[i := Gone]\<rparr>)"
  by (simp_all add: account_def shared_def places_def waiting_def window_ok_def Stop_def flying_asking)

subsection \<open>Each step keeps the numbering of attempts\<close>

lemma first_numbered:
  assumes num: "numbered m s" and acc: "account cs0 m s" and dist: "distinct cs0"
    and i: "i < length (crew s)" "crew s ! i = Asking"
    and at: "next_at (sq s) \<le> at" "at < length (cases (sq s))" "c = cases (sq s) ! at"
    and t: "t = \<lparr>t_case = c, t_retry = 0\<rparr>"
  shows "numbered m (s\<lparr>sq := start c (take_at at (sq s)), crew := (crew s)[i := Working t],
           started := started s @ [t]\<rparr>)"
proof -
  let ?q = "sq s"
  have parts: "mset (waiting ?q) + mset (retry_queue ?q) + image_mset t_case (flying (crew s)) +
      mset (decided s) = mset cs0" using acc by (simp add: account_def places_def)
  have w: "mset (waiting ?q) = add_mset c (mset (waiting (take_at at ?q)))"
    using mset_take_at [OF at(1,2)] at(3) by simp
  then have sets: "set (waiting ?q) = insert c (set (waiting (take_at at ?q)))"
    by (metis set_mset_add_mset_insert set_mset_mset)
  have dw: "distinct (waiting ?q)" using one_place(4) [OF parts dist] .
  have "c \<notin> set (waiting (take_at at ?q))"
  proof
    assume "c \<in> set (waiting (take_at at ?q))"
    then have "2 \<le> count (mset (waiting ?q)) c"
      using w by (simp add: Suc_le_eq)
    then show False using dw by (simp add: distinct_count_atmost_1 split: if_splits)
  qed
  moreover have elsewhere: "c \<notin> set (retry_queue ?q)" "\<forall>u \<in># flying (crew s). t_case u \<noteq> c"
      "c \<notin> set (decided s)"
    using one_place(1) [OF parts dist, of c] sets by auto
  moreover have "tries s c = []" using num sets by (simp add: numbered_def)
  moreover have fields: "waiting (start c (take_at at ?q)) = waiting (take_at at ?q)"
      "retry_queue (start c (take_at at ?q)) = retry_queue ?q"
      "retry_count (start c (take_at at ?q)) = retry_count ?q"
    by (simp_all add: start_def take_at_def waiting_def)
  ultimately show ?thesis
    using num sets unfolding numbered_def
    by (simp add: tries_start fields flying_asking [OF i] t)
       (auto simp: upto_try_def)
qed

lemma retry_numbered:
  assumes num: "numbered m s" and acc: "account cs0 m s" and dist: "distinct cs0"
    and i: "i < length (crew s)" "crew s ! i = Asking"
    and q: "waiting (sq s) = []" "retry_queue (sq s) = c # cs" "in_flight (sq s) = 0"
    and t: "t = \<lparr>t_case = c, t_retry = retry_no (sq s) c\<rparr>"
  shows "1 \<le> t_retry t"
    and "numbered m (s\<lparr>sq := (sq s)\<lparr>retry_queue := cs, queued := (queued (sq s))(c := False),
           in_flight := 1\<rparr>, crew := (crew s)[i := Working t], started := started s @ [t]\<rparr>)"
proof -
  have parts: "mset (waiting (sq s)) + mset (retry_queue (sq s)) +
      image_mset t_case (flying (crew s)) + mset (decided s) = mset cs0"
    using acc by (simp add: account_def places_def)
  obtain r where r: "retry_count (sq s) c = Some r" "1 \<le> r" "r \<le> m" "tries s c = upto_try r"
    using num q(2) by (auto simp: numbered_def)
  then have t': "t_case t = c" "t_retry t = r" by (auto simp: t retry_no_def)
  show "1 \<le> t_retry t" using r t' by simp
  have none: "flying (crew s) = {#}" using acc q(3) by (simp add: account_def)
  have "distinct (c # cs)" using one_place(5) [OF parts dist] q(2) by simp
  moreover have "c \<notin> set (decided s)" using one_place(2) [OF parts dist, of c] q(2) by auto
  ultimately show "numbered m (s\<lparr>sq := (sq s)\<lparr>retry_queue := cs,
      queued := (queued (sq s))(c := False), in_flight := 1\<rparr>, crew := (crew s)[i := Working t],
      started := started s @ [t]\<rparr>)"
    using num q r t' none upto_try_snoc [of r] unfolding numbered_def
    by (auto simp: tries_start flying_asking [OF i] waiting_def)
qed

lemma again_numbered:
  assumes num: "numbered m s" and acc: "account cs0 m s" and dist: "distinct cs0"
    and i: "i < length (crew s)" "crew s ! i = Working t" and lt: "t_retry t < m"
  shows "numbered m (s\<lparr>sq := (sq s)\<lparr>in_flight := n,
              running := rs,
              retry_count := (retry_count (sq s))(t_case t \<mapsto> t_retry t + 1),
              queued := qd,
              retry_queue := retry_queue (sq s) @ [t_case t]\<rparr>, crew := (crew s)[i := Asking]\<rparr>)"
proof -
  have "t_case t \<notin> set (retry_queue (sq s))"
    using not_queued_in_flight(1) [OF acc dist, of t] flying_working [OF i] by simp
  with num lt flying_working [OF i] show ?thesis
    unfolding numbered_def by (auto simp: waiting_def)
qed

lemma verdict_numbered:
  assumes num: "numbered m s" and acc: "account cs0 m s" and dist: "distinct cs0"
    and i: "i < length (crew s)" "crew s ! i = Working t"
  shows "numbered m (s\<lparr>sq := (sq s)\<lparr>in_flight := n, running := rs,
              retry_count := (retry_count (sq s))(t_case t := None),
              queued := qd\<rparr>, crew := (crew s)[i := Asking],
            decided := decided s @ [t_case t]\<rparr>)"
proof -
  have "t_case t \<notin> set (retry_queue (sq s))"
    using not_queued_in_flight(1) [OF acc dist, of t] flying_working [OF i] by simp
  with num flying_working [OF i] show ?thesis
    unfolding numbered_def by (auto simp: waiting_def)
qed

lemma numbered_idle:
  "numbered m s \<Longrightarrow> numbered m (s\<lparr>sq := Stop (sq s)\<rparr>)"
  "numbered m s \<Longrightarrow> i < length (crew s) \<Longrightarrow> crew s ! i = Asking \<Longrightarrow>
     numbered m (s\<lparr>sq := (sq s)\<lparr>departed := d\<rparr>, crew := (crew s)[i := Gone]\<rparr>)"
  "numbered m s \<Longrightarrow> i < length (crew s) \<Longrightarrow> crew s ! i = Asking \<Longrightarrow>
     numbered m (s\<lparr>crew := (crew s)[i := Gone]\<rparr>)"
  by (auto simp: numbered_def waiting_def Stop_def flying_asking tries_def)

subsection \<open>Nobody leaves work behind\<close>

lemma attended_present:
  "i < length w \<Longrightarrow> p \<noteq> Gone \<Longrightarrow> \<exists>p' \<in> set (w[i := p]). p' \<noteq> Gone"
  by (meson set_update_memI)

lemma step_inv:
  assumes step: "run_step sl ln s t" and inv: "run_inv cs0 m s" and dist: "distinct cs0"
  shows "run_inv cs0 m t"
proof -
  have acc: "account cs0 m s" and num: "numbered m s" and att: "attended s"
    using inv by (auto simp: run_inv_def)
  have sh: "shared (sq s)" and mx: "max_retry (sq s) = m"
    and fl: "in_flight (sq s) = size (flying (crew s))"
    using acc by (auto simp: account_def)
  note qif = not_queued_in_flight(2) [OF acc dist]
  from step show ?thesis
  proof cases
    case (claim i e q' u)
    from sh claim(4) show ?thesis
    proof (cases rule: shared_claim_cases)
      case (first c at)
      then show ?thesis
        using claim first_account [OF acc claim(2,3) first(2-4), of u]
          first_numbered [OF num acc dist claim(2,3) first(2-4), of u]
          attended_present [OF claim(2), of "Working u"]
        by (simp add: run_inv_def attended_def)
    next
      case (retry c cs)
      have u: "u = \<lparr>t_case = c, t_retry = retry_no (sq s) c\<rparr>" using retry(6) by simp
      note rn = retry_numbered [OF num acc dist claim(2,3) retry(2,4,3) u]
      show ?thesis
        using claim(1) retry(5) rn(2) attended_present [OF claim(2), of "Working u"]
          retry_account [OF acc dist claim(2,3) retry(4,3) _ rn(1)] u
        by (simp add: run_inv_def attended_def)
    qed simp_all
  next
    case (wait i e q')
    from sh wait(4) have "q' = sq s" by (cases rule: shared_claim_cases) simp_all
    then show ?thesis using wait(1) inv by simp
  next
    case (leave i e q')
    from sh leave(4) show ?thesis
    proof (cases rule: shared_claim_cases)
      case stopped
      then show ?thesis
        using leave account_idle(3) [OF acc leave(2,3)] numbered_idle(3) [OF num leave(2,3)]
        by (simp add: run_inv_def attended_def)
    next
      case over
      have "attended t"
      proof (cases "retry_queue (sq s) = []")
        case True
        then show ?thesis using leave(1) over by (simp add: attended_def waiting_def)
      next
        case False
        then have "flying (crew s) \<noteq> {#}" using over(3) fl by auto
        then obtain j u where j: "j < length (crew s)" "crew s ! j = Working u"
          using flying_nonempty by blast
        then have "(crew s)[i := Gone] ! j = Working u" using leave(3) by (cases "i = j") auto
        then have "\<exists>p \<in> set ((crew s)[i := Gone]). p \<noteq> Gone"
          using j by (metis length_list_update nth_mem phase.distinct(5))
        then show ?thesis using leave(1) by (simp add: attended_def)
      qed
      then show ?thesis
        using leave(1) over(4) account_idle(2) [OF acc leave(2,3)] numbered_idle(2) [OF num leave(2,3)]
        by (simp add: run_inv_def)
    qed simp_all
  next
    case (retry i u ok core q')
    have u: "u \<in># flying (crew s)" using flying_working [OF retry(2,3)] by simp
    from sh qif [OF u] retry(4) show ?thesis
    proof (cases rule: shared_complete_cases)
      case again
      then show ?thesis
        using retry(1) again_account [OF acc dist retry(2,3)]
          again_numbered [OF num acc dist retry(2,3)] mx
          attended_present [OF retry(2), of Asking]
        by (simp add: run_inv_def attended_def)
    qed simp_all
  next
    case (verdict i u ok core q')
    have u: "u \<in># flying (crew s)" using flying_working [OF verdict(2,3)] by simp
    from sh qif [OF u] verdict(4) show ?thesis
    proof (cases rule: shared_complete_cases)
      case final
      then show ?thesis
        using verdict(1) verdict_account [OF acc dist verdict(2,3)]
          verdict_numbered [OF num acc dist verdict(2,3)]
          attended_present [OF verdict(2), of Asking]
        by (simp add: run_inv_def attended_def)
    qed simp_all
  next
    case halt
    then show ?thesis
      using account_idle(1) [OF acc] numbered_idle(1) [OF num]
      by (simp add: run_inv_def attended_def Stop_def)
  qed
qed

lemma fresh_inv:
  "run_inv cs m (fresh (Policy h sf (New cs m)) n)"
  by (auto simp: run_inv_def account_def numbered_def attended_def fresh_def Policy_def New_def
      shared_def places_def waiting_def window_ok_def tries_def)

lemma reaches_inv:
  "reaches sl ln s0 s \<Longrightarrow> run_inv cs0 m s0 \<Longrightarrow> distinct cs0 \<Longrightarrow> run_inv cs0 m s"
  by (induction rule: reaches.induct) (auto intro: step_inv)

end
