(* ===== verification/Dispatch_Claims.thy ===== *)
theory Dispatch_Claims
  imports Dispatch_Safety
begin

text \<open>
  The queue's promises, for every run of every crew: what its package comment says about
  order and retries, and what its callers rely on. \<open>shared_run\<close> names the runs meant here, those
  of a queue without lanes under any pair of policies.
\<close>

definition shared_run ::
  "(nat \<Rightarrow> string) \<Rightarrow> (nat \<Rightarrow> lane) \<Rightarrow> string list \<Rightarrow> int \<Rightarrow> 'e policy option \<Rightarrow> 'e policy option \<Rightarrow>
   nat \<Rightarrow> 'e sys \<Rightarrow> bool" where
  "shared_run sl ln cs m h sf n s \<longleftrightarrow> reaches sl ln (fresh (Policy h sf (New cs m)) n) s"

lemma shared_run_inv:
  "shared_run sl ln cs m h sf n s \<Longrightarrow> distinct cs \<Longrightarrow> run_inv cs m s"
  unfolding shared_run_def by (rule reaches_inv [OF _ fresh_inv])

lemma crew_length: "reaches sl ln s0 s \<Longrightarrow> length (crew s) = length (crew s0)"
  by (induction rule: reaches.induct) (auto elim!: run_step.cases)

lemma shared_crew: "shared_run sl ln cs m h sf n s \<Longrightarrow> length (crew s) = n"
  unfolding shared_run_def by (drule crew_length) (simp add: fresh_def)

subsection \<open>Nothing is lost\<close>

text \<open>
  C1: When every worker of a run has stopped asking and the run was not cancelled, the queue is
  finished and every case has exactly one verdict. No failure that was put up for a retry is
  stranded by the workers that stopped before it.
\<close>

theorem no_work_left_behind:
  assumes "shared_run sl ln cs m h sf n s" and "distinct cs" and "0 < n"
    and "\<not> stopped (sq s)" and "\<forall>p \<in> set (crew s). p = Gone"
  shows "Finished (sq s) \<and> mset (decided s) = mset cs"
proof -
  have inv: "run_inv cs m s" using shared_run_inv assms(1,2) by blast
  have "crew s \<noteq> []" using shared_crew [OF assms(1)] assms(3) by auto
  with inv assms(4,5) have w: "waiting (sq s) = []" and r: "retry_queue (sq s) = []"
    by (auto simp: run_inv_def attended_def)
  have f: "flying (crew s) = {#}" using assms(5) by (rule flying_gone)
  have "mset (decided s) = mset cs"
    using inv w r f by (simp add: run_inv_def account_def places_def)
  moreover have "Finished (sq s)"
    using inv assms(4) w r f
    by (simp add: Finished_def run_inv_def account_def shared_def all_claimed_def waiting_def)
  ultimately show ?thesis by simp
qed

lemma run_claim:
  "reaches sl ln s0 s \<Longrightarrow> i < length (crew s) \<Longrightarrow> crew s ! i = Asking \<Longrightarrow>
   claimOnce e (sl i) (ln i) (sq s) = (q', Got t) \<Longrightarrow>
   s' = s\<lparr>sq := q', crew := (crew s)[i := Working t], started := started s @ [t]\<rparr> \<Longrightarrow>
   reaches sl ln s0 s'"
  by (auto intro: reaches.more run_step.claim)

lemma run_leave:
  "reaches sl ln s0 s \<Longrightarrow> i < length (crew s) \<Longrightarrow> crew s ! i = Asking \<Longrightarrow>
   claimOnce e (sl i) (ln i) (sq s) = (q', Over) \<Longrightarrow>
   s' = s\<lparr>sq := q', crew := (crew s)[i := Gone]\<rparr> \<Longrightarrow> reaches sl ln s0 s'"
  by (auto intro: reaches.more run_step.leave)

lemma run_retry:
  "reaches sl ln s0 s \<Longrightarrow> i < length (crew s) \<Longrightarrow> crew s ! i = Working t \<Longrightarrow>
   Complete t success hasCore (sq s) = (q', True) \<Longrightarrow>
   s' = s\<lparr>sq := q', crew := (crew s)[i := Asking]\<rparr> \<Longrightarrow> reaches sl ln s0 s'"
  by (auto intro: reaches.more run_step.retry)

lemma run_verdict:
  "reaches sl ln s0 s \<Longrightarrow> i < length (crew s) \<Longrightarrow> crew s ! i = Working t \<Longrightarrow>
   Complete t success hasCore (sq s) = (q', False) \<Longrightarrow>
   s' = s\<lparr>sq := q', crew := (crew s)[i := Asking], decided := decided s @ [t_case t]\<rparr> \<Longrightarrow>
   reaches sl ln s0 s'"
  by (auto intro: reaches.more run_step.verdict)

text \<open>A run of one worker over one case that fails once and passes on its retry.\<close>

definition demo0 :: "unit sys" where
  "demo0 = fresh (Policy None None (New [''a''] 1)) 1"
definition demo1 :: "unit sys" where
  "demo1 = demo0\<lparr>sq := fst (claimOnce () ''s'' LaneAny (sq demo0)),
     crew := [Working \<lparr>t_case = ''a'', t_retry = 0\<rparr>],
     started := [\<lparr>t_case = ''a'', t_retry = 0\<rparr>]\<rparr>"
definition demo2 :: "unit sys" where
  "demo2 = demo1\<lparr>sq := fst (Complete \<lparr>t_case = ''a'', t_retry = 0\<rparr> False False (sq demo1)),
     crew := [Asking]\<rparr>"
definition demo3 :: "unit sys" where
  "demo3 = demo2\<lparr>sq := fst (claimOnce () ''s'' LaneAny (sq demo2)),
     crew := [Working \<lparr>t_case = ''a'', t_retry = 1\<rparr>],
     started := started demo2 @ [\<lparr>t_case = ''a'', t_retry = 1\<rparr>]\<rparr>"
definition demo4 :: "unit sys" where
  "demo4 = demo3\<lparr>sq := fst (Complete \<lparr>t_case = ''a'', t_retry = 1\<rparr> True False (sq demo3)),
     crew := [Asking], decided := [''a'']\<rparr>"
definition demo5 :: "unit sys" where
  "demo5 = demo4\<lparr>sq := fst (claimOnce () ''s'' LaneAny (sq demo4)), crew := [Gone]\<rparr>"

lemmas demo_defs = demo0_def demo1_def demo2_def demo3_def demo4_def demo5_def

lemmas queue_eval = fresh_def Policy_def New_def claimOnce_def held_of_def admissible_def
  scanPolicy_def policy_ok_def take_at_def start_def stop_def Complete_def enqueue_def
  claim_retry_def retry_no_def Let_def

lemma demo_run:
  "shared_run (\<lambda>_. ''s'') (\<lambda>_. LaneAny) [''a''] 1 None None 1 demo5"
  "shared_run (\<lambda>_. ''s'') (\<lambda>_. LaneAny) [''a''] 1 None None 1 demo3"
  "shared_run (\<lambda>_. ''s'') (\<lambda>_. LaneAny) [''a''] 1 None None 1 demo2"
  "shared_run (\<lambda>_. ''s'') (\<lambda>_. LaneAny) [''a''] 1 None None 1 demo0"
proof -
  let ?r = "reaches (\<lambda>_. ''s'') (\<lambda>_. LaneAny) demo0"
  have 0: "?r demo0" by (rule reaches.here)
  have 1: "?r demo1"
    by (rule run_claim [OF 0, where i = 0 and e = "()" and t = "\<lparr>t_case = ''a'', t_retry = 0\<rparr>"])
       (auto simp: demo_defs queue_eval)
  have 2: "?r demo2"
    by (rule run_retry [OF 1, where i = 0 and success = False and hasCore = False
          and t = "\<lparr>t_case = ''a'', t_retry = 0\<rparr>"])
       (auto simp: demo_defs queue_eval)
  have 3: "?r demo3"
    by (rule run_claim [OF 2, where i = 0 and e = "()" and t = "\<lparr>t_case = ''a'', t_retry = 1\<rparr>"])
       (auto simp: demo_defs queue_eval)
  have 4: "?r demo4"
    by (rule run_verdict [OF 3, where i = 0 and success = True and hasCore = False
          and t = "\<lparr>t_case = ''a'', t_retry = 1\<rparr>"])
       (auto simp: demo_defs queue_eval)
  have 5: "?r demo5"
    by (rule run_leave [OF 4, where i = 0 and e = "()"]) (auto simp: demo_defs queue_eval)
  from 0 2 3 5 show
    "shared_run (\<lambda>_. ''s'') (\<lambda>_. LaneAny) [''a''] 1 None None 1 demo5"
    "shared_run (\<lambda>_. ''s'') (\<lambda>_. LaneAny) [''a''] 1 None None 1 demo3"
    "shared_run (\<lambda>_. ''s'') (\<lambda>_. LaneAny) [''a''] 1 None None 1 demo2"
    "shared_run (\<lambda>_. ''s'') (\<lambda>_. LaneAny) [''a''] 1 None None 1 demo0"
    by (simp_all add: shared_run_def demo0_def)
qed

theorem no_work_left_behind_witness:
  "Finished (sq demo5) \<and> mset (decided demo5) = mset [''a'']"
  by (rule no_work_left_behind [OF demo_run(1)]) (auto simp: demo_defs queue_eval)

subsection \<open>Attempts\<close>

text \<open>
  C21: In a run without lanes, a case is never tried more than \<open>1 + maxRetry\<close> times, and its tickets carry the numbers
  0, 1, 2 and so on, each once and in order.
\<close>

theorem attempts_numbered_and_bounded:
  assumes "shared_run sl ln cs m h sf n s" and "distinct cs" and "c \<in> set cs"
  shows "\<exists>k. tries s c = map int [0..<k] \<and> k \<le> 1 + nat m"
proof -
  have inv: "run_inv cs m s" using shared_run_inv assms(1,2) by blast
  then have "c \<in># places s" using assms(3) by (simp add: run_inv_def account_def)
  then consider "c \<in> set (waiting (sq s))" | "c \<in> set (retry_queue (sq s))"
    | t where "t \<in># flying (crew s)" "t_case t = c" | "c \<in> set (decided s)"
    by (auto simp: places_def)
  then show ?thesis
  proof cases
    case 1
    then show ?thesis using inv by (intro exI [of _ 0]) (auto simp: run_inv_def numbered_def)
  next
    case 2
    then obtain r where "1 \<le> r" "r \<le> m" "tries s c = upto_try r"
      using inv by (auto simp: run_inv_def numbered_def)
    then show ?thesis by (intro exI [of _ "nat r"]) (auto simp: upto_try_def)
  next
    case 3
    then have "0 \<le> t_retry t" "t_retry t = 0 \<or> t_retry t \<le> m" "tries s c = upto_try (t_retry t + 1)"
      using inv by (auto simp: run_inv_def numbered_def)
    then show ?thesis by (intro exI [of _ "nat (t_retry t + 1)"]) (auto simp: upto_try_def)
  next
    case 4
    then have "\<exists>r. 0 \<le> r \<and> (r = 0 \<or> r \<le> m) \<and> tries s c = upto_try (r + 1)"
      using inv by (simp add: run_inv_def numbered_def)
    then obtain r where "0 \<le> r" "r = 0 \<or> r \<le> m" "tries s c = upto_try (r + 1)" by blast
    then show ?thesis by (intro exI [of _ "nat (r + 1)"]) (auto simp: upto_try_def)
  qed
qed

theorem attempts_numbered_and_bounded_witness:
  "\<exists>k. tries demo5 ''a'' = map int [0..<k] \<and> k \<le> 1 + nat 1"
  by (rule attempts_numbered_and_bounded [OF demo_run(1)]) simp_all

subsection \<open>Retries wait for the end of the first pass and for quiet\<close>

definition solo :: "'e sys \<Rightarrow> bool" where
  "solo s \<longleftrightarrow>
     (\<forall>t \<in># flying (crew s). t_retry t \<noteq> 0 \<longrightarrow> waiting (sq s) = [] \<and> flying (crew s) = {#t#})"

lemma solo_step:
  assumes step: "run_step sl ln s t" and inv: "run_inv cs0 m s" and dist: "distinct cs0"
    and solo: "solo s"
  shows "solo t"
proof -
  have acc: "account cs0 m s" and num: "numbered m s" using inv by (auto simp: run_inv_def)
  have sh: "shared (sq s)" and fl: "in_flight (sq s) = size (flying (crew s))"
    using acc by (auto simp: account_def)
  note qif = not_queued_in_flight(2) [OF acc dist]
  from step show ?thesis
  proof cases
    case (claim i e q' u)
    from sh claim(4) show ?thesis
    proof (cases rule: shared_claim_cases)
      case (first c at)
      then have "waiting (sq s) \<noteq> []" by (simp add: waiting_def)
      then have "\<forall>v \<in># flying (crew s). t_retry v = 0" using solo by (auto simp: solo_def)
      then show ?thesis using claim(1) first(6) flying_asking(1) [OF claim(2,3)]
        by (simp add: solo_def)
    next
      case (retry c cs)
      then have "flying (crew s) = {#}" using fl by simp
      then show ?thesis using claim(1) retry flying_asking(1) [OF claim(2,3)]
        by (simp add: solo_def waiting_def)
    qed simp_all
  next
    case (wait i e q')
    from sh wait(4) have "q' = sq s" by (cases rule: shared_claim_cases) simp_all
    then show ?thesis using wait(1) solo by simp
  next
    case (leave i e q')
    from sh leave(4) have "waiting q' = waiting (sq s)"
      by (cases rule: shared_claim_cases) (simp_all add: waiting_def)
    then show ?thesis using leave(1) solo flying_asking(2) [OF leave(2,3)] by (simp add: solo_def)
  next
    case (retry i u ok core q')
    have u: "u \<in># flying (crew s)" using flying_working [OF retry(2,3)] by simp
    from sh qif [OF u] retry(4) have "waiting q' = waiting (sq s)"
      by (cases rule: shared_complete_cases) (simp_all add: waiting_def)
    then show ?thesis using retry(1) solo flying_working [OF retry(2,3)]
      by (auto simp: solo_def)
  next
    case (verdict i u ok core q')
    have u: "u \<in># flying (crew s)" using flying_working [OF verdict(2,3)] by simp
    from sh qif [OF u] verdict(4) have "waiting q' = waiting (sq s)"
      by (cases rule: shared_complete_cases) (simp_all add: waiting_def)
    then show ?thesis using verdict(1) solo flying_working [OF verdict(2,3)]
      by (auto simp: solo_def)
  next
    case halt
    then show ?thesis using solo by (simp add: solo_def Stop_def waiting_def)
  qed
qed

lemma reaches_solo:
  "reaches sl ln s0 s \<Longrightarrow> run_inv cs0 m s0 \<Longrightarrow> distinct cs0 \<Longrightarrow> solo s0 \<Longrightarrow> solo s"
  by (induction rule: reaches.induct) (auto intro: solo_step reaches_inv)

lemma shared_run_solo: "shared_run sl ln cs m h sf n s \<Longrightarrow> distinct cs \<Longrightarrow> solo s"
  unfolding shared_run_def
  by (rule reaches_solo [OF _ fresh_inv]) (auto simp: fresh_def solo_def)

text \<open>
  C23: Without lanes, while a retry is running every first attempt has been handed out and
  nothing else is running: the second attempt sees a quiet machine.
\<close>

theorem retry_runs_alone:
  assumes "shared_run sl ln cs m h sf n s" and "distinct cs"
    and "t \<in># flying (crew s)" and "IsRetry t"
  shows "waiting (sq s) = [] \<and> flying (crew s) = {#t#}"
  using shared_run_solo [OF assms(1,2)] assms(3,4) by (auto simp: solo_def IsRetry_def)

theorem retry_runs_alone_witness:
  "waiting (sq demo3) = [] \<and> flying (crew demo3) = {# \<lparr>t_case = ''a'', t_retry = 1\<rparr> #}"
  by (rule retry_runs_alone [OF demo_run(2)])
    (simp_all add: demo_defs fresh_def flying_def IsRetry_def)

subsection \<open>Waiting ends\<close>

text \<open>
  When the policy makes a claimant wait, some worker has a case running, whose completion
  will let the claimant ask again under new circumstances: a refusal cannot stop a run.
\<close>

theorem refusal_has_a_worker:
  assumes "shared_run sl ln cs m h sf n s" and "distinct cs"
    and "claimOnce e slot l (sq s) = (q', Again)"
  shows "q' = sq s \<and> (\<exists>i t. i < length (crew s) \<and> crew s ! i = Working t)"
proof -
  have inv: "run_inv cs m s" using shared_run_inv assms(1,2) by blast
  then have sh: "shared (sq s)" by (simp add: run_inv_def account_def)
  from sh assms(3) show ?thesis
  proof (cases rule: shared_claim_cases)
    case again
    have "mset (running (sq s)) \<noteq> {#}" using again(4) by simp
    then have "flying (crew s) \<noteq> {#}" using inv by (auto simp: run_inv_def account_def)
    with again(2) flying_nonempty show ?thesis by blast
  qed simp_all
qed

text \<open>Two cases under a cap of one heavy case: the second claimant is told to wait.\<close>

definition wait0 :: "unit sys" where
  "wait0 = fresh (Policy (Some (heavy_policy (NewHeavyCap [''a'', ''b''] 1))) None
             (New [''a'', ''b''] 0)) 2"
definition wait1 :: "unit sys" where
  "wait1 = wait0\<lparr>sq := fst (claimOnce () ''s'' LaneAny (sq wait0)),
     crew := [Working \<lparr>t_case = ''a'', t_retry = 0\<rparr>, Asking],
     started := [\<lparr>t_case = ''a'', t_retry = 0\<rparr>]\<rparr>"

lemmas wait_eval = wait0_def wait1_def queue_eval heavy_policy_def heavy_admit_def
  NewHeavyCap_def heavy_count_def

lemma wait_run:
  "shared_run (\<lambda>_. ''s'') (\<lambda>_. LaneAny) [''a'', ''b''] 0
     (Some (heavy_policy (NewHeavyCap [''a'', ''b''] 1))) None 2 wait1"
proof -
  have 0: "reaches (\<lambda>_. ''s'') (\<lambda>_. LaneAny) wait0 wait0" by (rule reaches.here)
  have "reaches (\<lambda>_. ''s'') (\<lambda>_. LaneAny) wait0 wait1"
    by (rule run_claim [OF 0, where i = 0 and e = "()" and t = "\<lparr>t_case = ''a'', t_retry = 0\<rparr>"])
       (auto simp: wait_eval numeral_2_eq_2 upt_rec)
  then show ?thesis by (simp add: shared_run_def wait0_def)
qed

theorem refusal_has_a_worker_witness:
  "sq wait1 = sq wait1 \<and> (\<exists>i t. i < length (crew wait1) \<and> crew wait1 ! i = Working t)"
  by (rule refusal_has_a_worker [OF wait_run, of "()" "''s''" LaneAny])
    (auto simp: wait_eval numeral_2_eq_2 upt_rec)

subsection \<open>The cap on heavy cases\<close>

definition capped :: "string list \<Rightarrow> int \<Rightarrow> 'e sys \<Rightarrow> bool" where
  "capped hs k s \<longleftrightarrow> hard (sq s) = Some (heavy_policy (NewHeavyCap hs k)) \<and>
     heavy_within (NewHeavyCap hs k) (running (sq s))"

lemma capped_step:
  assumes step: "run_step sl ln s t" and inv: "run_inv cs0 m s" and dist: "distinct cs0"
    and cap: "capped hs k s"
  shows "capped hs k t"
proof -
  have acc: "account cs0 m s" using inv by (auto simp: run_inv_def)
  have sh: "shared (sq s)" using acc by (auto simp: account_def)
  note qif = not_queued_in_flight(2) [OF acc dist]
  from step show ?thesis
  proof cases
    case (claim i e q' u)
    from sh claim(4) show ?thesis
    proof (cases rule: shared_claim_cases)
      case (first c at)
      have "heavy_within (NewHeavyCap hs k) (running (sq s) @ [c])"
      proof (cases "running (sq s) = []")
        case True
        then show ?thesis using heavycap.alone [of hs k c] by simp
      next
        case False
        then have "heavy_admit (NewHeavyCap hs k) c (running (sq s))"
          using first(7) cap by (simp add: capped_def policy_ok_def heavy_policy_def)
        then show ?thesis using cap heavycap.admitted by (simp add: capped_def)
      qed
      then show ?thesis using claim(1) first(5) cap
        by (simp add: capped_def start_def take_at_def)
    next
      case (retry c cs)
      then show ?thesis using claim(1) cap by (simp add: capped_def)
    qed simp_all
  next
    case (wait i e q')
    from sh wait(4) have "q' = sq s" by (cases rule: shared_claim_cases) simp_all
    then show ?thesis using wait(1) cap by simp
  next
    case (leave i e q')
    from sh leave(4) show ?thesis
      using leave(1) cap by (cases rule: shared_claim_cases) (simp_all add: capped_def)
  next
    case (retry i u ok core q')
    have u: "u \<in># flying (crew s)" using flying_working [OF retry(2,3)] by simp
    from sh qif [OF u] retry(4) show ?thesis
      using retry(1) cap heavycap.remove_one
      by (cases rule: shared_complete_cases) (simp_all add: capped_def)
  next
    case (verdict i u ok core q')
    have u: "u \<in># flying (crew s)" using flying_working [OF verdict(2,3)] by simp
    from sh qif [OF u] verdict(4) show ?thesis
      using verdict(1) cap heavycap.remove_one
      by (cases rule: shared_complete_cases) (simp_all add: capped_def)
  next
    case halt
    then show ?thesis using cap by (simp add: capped_def Stop_def)
  qed
qed

lemma reaches_capped:
  "reaches sl ln s0 s \<Longrightarrow> run_inv cs0 m s0 \<Longrightarrow> distinct cs0 \<Longrightarrow> capped hs k s0 \<Longrightarrow> capped hs k s"
  by (induction rule: reaches.induct) (auto intro: capped_step reaches_inv)

definition heavy_flying :: "string list \<Rightarrow> 'e sys \<Rightarrow> nat" where
  "heavy_flying hs s = size (filter_mset (\<lambda>t. t_case t \<in> set hs) (flying (crew s)))"

text \<open>
  With \<open>HeavyCap\<close> as the constraint, no more than its maximum of the heavy cases are ever
  running at once, first attempts and retries together, although the queue hands a case out
  unasked when nothing is running.
\<close>

theorem heavy_cap_holds:
  assumes "shared_run sl ln cs m (Some (heavy_policy (NewHeavyCap hs k))) sf n s"
    and "distinct cs" and "hs \<noteq> []"
  shows "int (heavy_flying hs s) \<le> max 1 k"
proof -
  let ?h = "NewHeavyCap hs k"
  have h: "?h = Some \<lparr>heavy = remdups hs, cap_max = max 1 k\<rparr>"
    using assms(3) by (auto simp: NewHeavyCap_def)
  have inv: "run_inv cs m s" using shared_run_inv assms(1,2) by blast
  have solo: "solo s" using shared_run_solo assms(1,2) by blast
  have cap: "capped hs k s"
    using assms(1) unfolding shared_run_def
    by (rule reaches_capped [OF _ fresh_inv assms(2)])
      (simp add: capped_def fresh_def Policy_def New_def heavycap.idle)
  show ?thesis
  proof (cases "\<exists>t \<in># flying (crew s). t_retry t \<noteq> 0")
    case True
    then obtain t where "flying (crew s) = {#t#}" using solo by (auto simp: solo_def)
    then show ?thesis by (simp add: heavy_flying_def max_def)
  next
    case False
    then have "filter_mset (\<lambda>t. t_retry t = 0) (flying (crew s)) = flying (crew s)"
      by (simp add: filter_mset_eq_conv)
    then have "mset (running (sq s)) = image_mset t_case (flying (crew s))"
      using inv by (simp add: run_inv_def account_def)
    then have "mset (filter (\<lambda>c. c \<in> set hs) (running (sq s))) =
        image_mset t_case (filter_mset (\<lambda>t. t_case t \<in> set hs) (flying (crew s)))"
      by (simp add: filter_mset_image_mset)
    then have "length (filter (\<lambda>c. c \<in> set hs) (running (sq s))) = heavy_flying hs s"
      unfolding heavy_flying_def by (metis size_image_mset size_mset)
    then show ?thesis
      using cap h by (simp add: capped_def heavy_within_def heavy_count_def)
  qed
qed

theorem heavy_cap_holds_witness: "int (heavy_flying [''a'', ''b''] wait1) \<le> max 1 1"
  by (rule heavy_cap_holds [OF wait_run]) simp_all

subsection \<open>A run ends\<close>

definition left_tries :: "int \<Rightarrow> int \<Rightarrow> nat" where
  "left_tries m r = nat m - nat r"

definition rweight :: "int \<Rightarrow> (string \<Rightarrow> int option) \<Rightarrow> string list \<Rightarrow> nat" where
  "rweight m f cs =
     sum_list (map (\<lambda>x. 2 * left_tries m (case f x of None \<Rightarrow> 0 | Some r \<Rightarrow> r) + 2) cs)"

definition weight :: "int \<Rightarrow> 'e sys \<Rightarrow> nat" where
  "weight m s =
     length (waiting (sq s)) * (2 * nat m + 2) +
     rweight m (retry_count (sq s)) (retry_queue (sq s)) +
     (\<Sum>t \<in># flying (crew s). 2 * left_tries m (t_retry t) + 1) +
     length (filter (\<lambda>p. p \<noteq> Gone) (crew s))"

lemma staff_update:
  "i < length ws \<Longrightarrow> ws ! i \<noteq> Gone \<Longrightarrow>
   length (filter (\<lambda>p. p \<noteq> Gone) (ws[i := p])) =
     (if p = Gone then length (filter (\<lambda>p. p \<noteq> Gone) ws) - 1
      else length (filter (\<lambda>p. p \<noteq> Gone) ws))"
proof (induction ws arbitrary: i)
  case Nil
  then show ?case by simp
next
  case (Cons w ws)
  show ?case
  proof (cases i)
    case 0
    with Cons.prems show ?thesis by auto
  next
    case (Suc j)
    have "0 < length (filter (\<lambda>p. p \<noteq> Gone) ws)"
      using Cons.prems Suc by (auto simp: filter_empty_conv)
    then show ?thesis using Cons.IH [of j] Cons.prems Suc by auto
  qed
qed

lemma staff_pos:
  "i < length ws \<Longrightarrow> ws ! i \<noteq> Gone \<Longrightarrow> 0 < length (filter (\<lambda>p. p \<noteq> Gone) ws)"
  by (auto simp: filter_empty_conv)

lemma rweight_frame: "d \<notin> set cs \<Longrightarrow> rweight m (f(d := r)) cs = rweight m f cs"
  unfolding rweight_def by (intro arg_cong [of _ _ sum_list] map_cong) auto

lemma rweight_simps:
  "rweight m f [] = 0"
  "rweight m f (c # cs) =
     2 * left_tries m (case f c of None \<Rightarrow> 0 | Some r \<Rightarrow> r) + 2 + rweight m f cs"
  "rweight m f (cs @ [c]) =
     rweight m f cs + (2 * left_tries m (case f c of None \<Rightarrow> 0 | Some r \<Rightarrow> r) + 2)"
  by (simp_all add: rweight_def)

lemma claim_lightens:
  assumes "shared (sq s)" and "claimOnce e sl ln (sq s) = (q', Got u)"
    and i: "i < length (crew s)" "crew s ! i = Asking"
  shows "weight m (s\<lparr>sq := q', crew := (crew s)[i := Working u], started := ts\<rparr>) < weight m s"
proof -
  have staff: "length (filter (\<lambda>p. p \<noteq> Gone) ((crew s)[i := Working u])) =
      length (filter (\<lambda>p. p \<noteq> Gone) (crew s))"
    using staff_update [OF i(1)] i(2) by simp
  from assms(1,2) show ?thesis
  proof (cases rule: shared_claim_cases)
    case (first c at)
    have "length (waiting (sq s)) = Suc (length (waiting (take_at at (sq s))))"
      using mset_take_at [OF first(2,3)] by (metis size_add_mset size_mset)
    moreover have "waiting q' = waiting (take_at at (sq s))" "retry_queue q' = retry_queue (sq s)"
        "retry_count q' = retry_count (sq s)"
      using first(5) by (simp_all add: start_def waiting_def take_at_def)
    ultimately show ?thesis
      using first(6) staff
      by (simp add: weight_def flying_asking(1) [OF i] left_tries_def retry_no_def)
  next
    case (retry c cs')
    then show ?thesis
      using staff by (simp add: weight_def flying_asking(1) [OF i] waiting_def retry_no_def rweight_simps)
  qed simp_all
qed

lemma leave_lightens:
  assumes "shared (sq s)" and "claimOnce e sl ln (sq s) = (q', Over)" and "\<not> stopped q'"
    and i: "i < length (crew s)" "crew s ! i = Asking"
  shows "weight m (s\<lparr>sq := q', crew := (crew s)[i := Gone]\<rparr>) < weight m s"
proof -
  have staff: "length (filter (\<lambda>p. p \<noteq> Gone) ((crew s)[i := Gone])) <
      length (filter (\<lambda>p. p \<noteq> Gone) (crew s))"
    using staff_update [OF i(1)] staff_pos [OF i(1)] i(2) by simp
  from assms(1,2) show ?thesis
    using staff assms(3)
    by (cases rule: shared_claim_cases)
      (simp_all add: weight_def flying_asking(2) [OF i] waiting_def retry_no_def)
qed

lemma complete_lightens:
  assumes inv: "run_inv cs m s" "distinct cs" and c: "Complete u ok core (sq s) = (q', retrying)"
    and i: "i < length (crew s)" "crew s ! i = Working u"
  shows "weight m (s\<lparr>sq := q', crew := (crew s)[i := Asking], decided := ds\<rparr>) < weight m s"
proof -
  have acc: "account cs m s" and num: "numbered m s" using inv(1) by (auto simp: run_inv_def)
  then have sh: "shared (sq s)" and mx: "max_retry (sq s) = m" by (auto simp: account_def)
  have u: "u \<in># flying (crew s)" using flying_working [OF i] by simp
  note qif = not_queued_in_flight [OF acc inv(2)]
  have staff: "length (filter (\<lambda>p. p \<noteq> Gone) ((crew s)[i := Asking])) =
      length (filter (\<lambda>p. p \<noteq> Gone) (crew s))"
    using staff_update [OF i(1)] i(2) by simp
  have pos: "0 \<le> t_retry u" using num u by (simp add: numbered_def)
  from sh qif(2) [OF u] c show ?thesis
  proof (cases rule: shared_complete_cases)
    case again
    have fewer: "left_tries m (t_retry u) = Suc (left_tries m (t_retry u + 1))"
      using again(4) pos mx by (auto simp: left_tries_def nat_add_distrib)
    show ?thesis
      using again(5) staff
      by (simp add: weight_def flying_working [OF i] waiting_def fewer
          rweight_frame [OF qif(1) [OF u]] rweight_simps)
  next
    case final
    then show ?thesis
      using staff by (simp add: weight_def flying_working [OF i] waiting_def rweight_frame [OF qif(1) [OF u]])
  qed
qed

text \<open>
  Every step of a run that is not a wait uses up work: a claim, a completion or a worker
  leaving lowers a measure of the attempts left, the tickets out and the workers present. Since
  a claimant only waits while a case is running, a run whose cases all end reaches the state in
  which every worker is gone after finitely many such steps.
\<close>

theorem steps_use_up_work:
  assumes "shared_run sl ln cs m h sf n s" and "distinct cs"
    and "run_step sl ln s t" and "t \<noteq> s" and "\<not> stopped (sq t)"
  shows "weight m t < weight m s"
proof -
  have inv: "run_inv cs m s" using shared_run_inv assms(1,2) by blast
  then have sh: "shared (sq s)" by (auto simp: run_inv_def account_def)
  from assms(3) show ?thesis
  proof cases
    case (claim i e q' u)
    then show ?thesis using claim_lightens [OF sh claim(4,2,3)] by simp
  next
    case (wait i e q')
    from sh wait(4) have "q' = sq s" by (cases rule: shared_claim_cases) simp_all
    then show ?thesis using wait(1) assms(4) by simp
  next
    case (leave i e q')
    then show ?thesis using leave_lightens [OF sh leave(4) _ leave(2,3)] assms(5) by simp
  next
    case (retry i u ok core q')
    then show ?thesis using complete_lightens [OF inv assms(2) retry(4,2,3), of "decided s"] by simp
  next
    case (verdict i u ok core q')
    then show ?thesis using complete_lightens [OF inv assms(2) verdict(4,2,3)] by simp
  next
    case halt
    then show ?thesis using assms(5) by (simp add: Stop_def)
  qed
qed

theorem steps_use_up_work_witness: "weight 1 demo3 < weight 1 demo2"
proof (rule steps_use_up_work [OF demo_run(3)])
  show "distinct [''a'']" by simp
  show "run_step (\<lambda>_. ''s'') (\<lambda>_. LaneAny) demo2 demo3"
    unfolding demo3_def
    by (rule back_subst [of "run_step _ _ demo2", OF run_step.claim
          [where i = 0 and e = "()" and t = "\<lparr>t_case = ''a'', t_retry = 1\<rparr>" and s = demo2]])
      (auto simp: demo_defs queue_eval)
  show "demo3 \<noteq> demo2" "\<not> stopped (sq demo3)" by (auto simp: demo_defs queue_eval)
qed

end
