(* ===== verification/Dispatch_Lanes.thy ===== *)
theory Dispatch_Lanes
  imports Dispatch_Claims
begin

text \<open>
  Runs of a queue with lanes or affinity on: sql's runner and shell's when lanes are
  configured. The first worker to claim a case of a directory owns the directory. The slots'
  names are distinct, as both runners make them.
\<close>

definition held_all :: "(string \<times> string list) list \<Rightarrow> string multiset" where
  "held_all h = sum_list (map (\<lambda>p. mset (snd p)) h)"

definition get_held :: "(string \<times> string list) list \<Rightarrow> string \<Rightarrow> string list" where
  "get_held h k = (case map_of h k of None \<Rightarrow> [] | Some v \<Rightarrow> v)"

lemma held_of_get: "held_of q k = get_held (held q) k"
  by (simp add: held_of_def get_held_def)

lemma get_held_update: "get_held (AList.update k v h) k' = (if k' = k then v else get_held h k')"
  by (simp add: get_held_def update_conv')

lemma held_all_update:
  "distinct (map fst h) \<Longrightarrow> held_all (AList.update k v h) + mset (get_held h k) = held_all h + mset v"
proof (induction h)
  case Nil
  then show ?case by (simp add: held_all_def get_held_def)
next
  case (Cons p h)
  obtain k' v' where p: "p = (k', v')" by (cases p)
  show ?case
  proof (cases "k' = k")
    case True
    then show ?thesis by (simp add: p held_all_def get_held_def)
  next
    case False
    then have "held_all (AList.update k v h) + mset (get_held h k) = held_all h + mset v"
      using Cons by simp
    with False show ?thesis by (simp add: p held_all_def get_held_def ac_simps)
  qed
qed

lemma in_held_all:
  "distinct (map fst h) \<Longrightarrow> c \<in># held_all h \<Longrightarrow> \<exists>k. c \<in> set (get_held h k)"
proof (induction h)
  case Nil
  then show ?case by (simp add: held_all_def)
next
  case (Cons p h)
  obtain k v where p: "p = (k, v)" by (cases p)
  show ?case
  proof (cases "c \<in> set v")
    case True
    then show ?thesis by (intro exI [of _ k]) (simp add: p get_held_def)
  next
    case False
    then have "c \<in># held_all h" using Cons.prems by (auto simp: p held_all_def)
    then obtain k' where k': "c \<in> set (get_held h k')" using Cons by auto
    have "k' \<noteq> k"
    proof
      assume "k' = k"
      then have "map_of h k = None" using Cons.prems p by (simp add: map_of_eq_None_iff)
      with k' \<open>k' = k\<close> show False by (simp add: get_held_def)
    qed
    with k' show ?thesis by (intro exI [of _ k']) (simp add: p get_held_def)
  qed
qed

lemma held_all_get: "c \<in> set (get_held h k) \<Longrightarrow> c \<in># held_all h"
proof (induction h)
  case Nil
  then show ?case by (simp add: get_held_def)
next
  case (Cons p h)
  then show ?case by (cases p) (auto simp: get_held_def held_all_def split: if_splits)
qed

lemma held_all_empty: "(\<And>k. get_held h k = []) \<Longrightarrow> distinct (map fst h) \<Longrightarrow> held_all h = {#}"
  using in_held_all [of h] by (metis empty_iff list.set(1) multiset_nonemptyE)

subsection \<open>One scan takes one whole directory\<close>

definition untaken :: "'e queue \<Rightarrow> string multiset" where
  "untaken q = image_mset (nth (cases q)) (mset_set {i. i < length (cases q) \<and> \<not> taken q ! i})"

definition lanes_ok :: "'e queue \<Rightarrow> bool" where
  "lanes_ok q \<longleftrightarrow> length (taken q) = length (cases q) \<and>
     (\<forall>i < length (cases q). taken q ! i \<longleftrightarrow> owner q (dir_of (cases q ! i)) \<noteq> None) \<and>
     (\<forall>l. \<forall>i < length (cases q). i < cursor q l \<longrightarrow> laneMatch q (cases q ! i) l \<longrightarrow> taken q ! i)"

lemma mark_all:
  "length (foldl (\<lambda>t j. t[j := True]) tk js) = length tk"
  "k < length tk \<Longrightarrow> foldl (\<lambda>t j. t[j := True]) tk js ! k = (k \<in> set js \<or> tk ! k)"
proof (induction js arbitrary: tk)
  case (Cons j js)
  { case 1 show ?case using Cons.IH(1) [of "tk[j := True]"] by simp }
  { case 2 then show ?case using Cons.IH(2) [of "tk[j := True]"]
      by (cases "k = j") (auto simp: nth_list_update) }
qed simp_all

lemma laneMatch_dir: "dir_of p = dir_of p' \<Longrightarrow> laneMatch q p l = laneMatch q p' l"
  by (simp add: laneMatch_def)

lemma laneMatch_lane_of: "lane_of q' = lane_of q \<Longrightarrow> laneMatch q' = laneMatch q"
  by (simp add: fun_eq_iff laneMatch_def)

lemma scan_None:
  assumes "scan slot l q = (q', None)" and ok: "lanes_ok q"
  shows "q' = q\<lparr>cursor := (cursor q)(l := length (cases q))\<rparr>"
    and "\<forall>i < length (cases q). laneMatch q (cases q ! i) l \<longrightarrow> taken q ! i"
    and "lanes_ok q'"
proof -
  have f: "find (\<lambda>i. \<not> taken q ! i \<and> laneMatch q (cases q ! i) l) [cursor q l ..< length (cases q)] = None"
    using assms(1) by (auto simp: scan_def Let_def split: option.splits)
  then show q': "q' = q\<lparr>cursor := (cursor q)(l := length (cases q))\<rparr>"
    using assms(1) by (simp add: scan_def)
  show all: "\<forall>i < length (cases q). laneMatch q (cases q ! i) l \<longrightarrow> taken q ! i"
  proof (intro allI impI)
    fix i assume i: "i < length (cases q)" "laneMatch q (cases q ! i) l"
    show "taken q ! i"
    proof (cases "i < cursor q l")
      case True
      with ok i show ?thesis by (auto simp: lanes_ok_def)
    next
      case False
      with f i show ?thesis by (auto simp: find_None_iff)
    qed
  qed
  show "lanes_ok q'" using ok all by (auto simp: q' lanes_ok_def laneMatch_def)
qed

lemma scan_Some:
  assumes sc: "scan slot l q = (q', Some c)" and ok: "lanes_ok q"
  obtains kept where "owner q (dir_of c) = None"
    "q' = q\<lparr>taken := taken q', cursor := cursor q', owner := (owner q)(dir_of c \<mapsto> slot),
            held := (if kept = [] then held q
                     else AList.update slot (held_of q slot @ kept) (held q))\<rparr>"
    "untaken q = add_mset c (mset kept + untaken q')"
    "\<forall>x \<in> set kept. dir_of x = dir_of c" "lanes_ok q'"
proof -
  let ?n = "length (cases q)" and ?cs = "cases q"
  obtain i where f: "find (\<lambda>i. \<not> taken q ! i \<and> laneMatch q (cases q ! i) l) [cursor q l ..< ?n] = Some i"
    using sc by (auto simp: scan_def split: option.splits)
  then have i: "cursor q l \<le> i" "i < ?n" "\<not> taken q ! i" "laneMatch q (?cs ! i) l"
    and before: "\<And>j. cursor q l \<le> j \<Longrightarrow> j < i \<Longrightarrow> laneMatch q (?cs ! j) l \<Longrightarrow> taken q ! j"
    by (auto simp: find_Some_iff nth_append) (metis add.commute le_Suc_ex nat_add_left_cancel_less)
  define tk where "tk = (taken q)[i := True]"
  define sib where "sib = filter (\<lambda>j. \<not> tk ! j \<and> dir_of (?cs ! j) = dir_of (?cs ! i)) [i + 1 ..< ?n]"
  define kept where "kept = map (\<lambda>j. ?cs ! j) sib"
  have c: "c = ?cs ! i" using sc f by (simp add: scan_def Let_def)
  have q': "q' = q\<lparr>taken := foldl (\<lambda>t j. t[j := True]) tk sib,
      cursor := (cursor q)(l := i + 1), owner := (owner q)(dir_of c \<mapsto> slot),
      held := (if kept = [] then held q else AList.update slot (held_of q slot @ kept) (held q))\<rparr>"
    using sc f unfolding c by (auto simp: scan_def Let_def tk_def sib_def kept_def)
  have len: "length (taken q) = ?n" using ok by (simp add: lanes_ok_def)
  have ow: "owner q (dir_of c) = None" using ok i c by (auto simp: lanes_ok_def)
  have whole: "\<not> taken q ! j" if "j < ?n" "dir_of (?cs ! j) = dir_of c" for j
    using ok ow that by (auto simp: lanes_ok_def)
  have early: False if "j < i" "dir_of (?cs ! j) = dir_of c" for j
  proof -
    have m: "laneMatch q (?cs ! j) l" using that(2) i(4) c laneMatch_dir by metis
    have "taken q ! j"
    proof (cases "cursor q l \<le> j")
      case True then show ?thesis using before that(1) m by blast
    next
      case False
      then have "j < cursor q l" "j < ?n" using that(1) i(2) by auto
      then show ?thesis using ok m unfolding lanes_ok_def by blast
    qed
    with whole [of j] that i(2) show False by simp
  qed
  have sibs: "set sib = {j. i < j \<and> j < ?n \<and> dir_of (?cs ! j) = dir_of c}"
    using whole len c by (auto simp: sib_def tk_def)
  have tq: "taken q' = foldl (\<lambda>t j. t[j := True]) tk sib" by (subst q') simp
  have tk': "taken q' ! k \<longleftrightarrow> taken q ! k \<or> dir_of (?cs ! k) = dir_of c" if "k < ?n" for k
  proof -
    have m: "taken q' ! k \<longleftrightarrow> k \<in> set sib \<or> tk ! k"
      unfolding tq by (rule mark_all(2)) (simp add: tk_def len that)
    have t: "tk ! k \<longleftrightarrow> k = i \<or> taken q ! k" using i(2) len by (auto simp: tk_def nth_list_update)
    have g: "k \<in> set sib \<longleftrightarrow> i < k \<and> dir_of (?cs ! k) = dir_of c" using that by (simp add: sibs)
    show ?thesis
    proof (cases k i rule: linorder_cases)
      case less
      then have "dir_of (?cs ! k) \<noteq> dir_of c" using early by blast
      with less show ?thesis by (simp add: m t g)
    next
      case equal
      then show ?thesis using m t c by simp
    next
      case greater
      then show ?thesis by (auto simp: m t g)
    qed
  qed
  have lenk: "length (taken q') = ?n" using len by (simp add: tq mark_all(1) tk_def)
  let ?A = "{k. k < ?n \<and> \<not> taken q ! k}" and ?B = "{k. k < ?n \<and> \<not> taken q' ! k}"
  have split: "?A = insert i (set sib \<union> ?B)"
  proof (rule set_eqI)
    fix k
    show "k \<in> ?A \<longleftrightarrow> k \<in> insert i (set sib \<union> ?B)"
      using tk' [of k] sibs i c whole [of k] early [of k] by (cases k i rule: linorder_cases) auto
  qed
  have "i \<notin> set sib \<union> ?B" "set sib \<inter> ?B = {}" using sibs tk' c i by auto
  then have "mset_set ?A = add_mset i (mset_set (set sib) + mset_set ?B)"
    unfolding split by (subst mset_set.insert) (auto simp: mset_set_Union)
  moreover have "mset_set (set sib) = mset sib"
    by (rule mset_set_set) (simp add: sib_def)
  ultimately have un: "untaken q = add_mset c (mset kept + untaken q')"
    by (simp add: untaken_def q' c kept_def)
  have dirs: "\<forall>x \<in> set kept. dir_of x = dir_of c" using sibs by (auto simp: kept_def)
  have "lanes_ok q'"
    unfolding lanes_ok_def
  proof (intro conjI allI impI)
    show "length (taken q') = length (cases q')" using lenk by (simp add: q')
    fix k assume k: "k < length (cases q')"
    then have kn: "k < ?n" by (simp add: q')
    show "taken q' ! k \<longleftrightarrow> owner q' (dir_of (cases q' ! k)) \<noteq> None"
      using tk' [OF kn] ok kn by (auto simp: q' lanes_ok_def)
    fix l' assume lt': "k < cursor q' l'" and m': "laneMatch q' (cases q' ! k) l'"
    have "laneMatch q' = laneMatch q" by (rule laneMatch_lane_of) (subst q', simp)
    moreover have "cases q' = ?cs" by (subst q') simp
    ultimately have m: "laneMatch q (?cs ! k) l'" using m' by simp
    have lt: "k < ((cursor q)(l := i + 1)) l'" using lt' by (subst (asm) q') simp
    show "taken q' ! k"
    proof (cases "l' = l \<and> cursor q l \<le> k")
      case True
      then have "k < i \<or> k = i" using lt by auto
      then show ?thesis using before True m tk' [OF kn] c by auto
    next
      case False
      then have "k < cursor q l'" using lt by (auto split: if_splits)
      then show ?thesis using ok kn m tk' [OF kn] by (auto simp: lanes_ok_def)
    qed
  qed
  then show ?thesis using that [of kept] ow un dirs q' by simp
qed

subsection \<open>The invariant of a run with lanes\<close>

definition lane_inv :: "(nat \<Rightarrow> string) \<Rightarrow> string list \<Rightarrow> 'e sys \<Rightarrow> bool" where
  "lane_inv sl cs0 s \<longleftrightarrow>
     lanes (sq s) \<and> lanes_ok (sq s) \<and> retry_queue (sq s) = [] \<and>
     distinct (map fst (held (sq s))) \<and> in_flight (sq s) = size (flying (crew s)) \<and>
     untaken (sq s) + held_all (held (sq s)) + image_mset t_case (flying (crew s)) +
       mset (decided s) = mset cs0 \<and>
     (\<forall>c. queued (sq s) c \<longrightarrow> c \<in># held_all (held (sq s))) \<and>
     (\<forall>k. \<forall>c \<in> set (get_held (held (sq s)) k). owner (sq s) (dir_of c) = Some k) \<and>
     (\<forall>i t. i < length (crew s) \<longrightarrow> crew s ! i = Working t \<longrightarrow>
        owner (sq s) (dir_of (t_case t)) = Some (sl i)) \<and>
     (\<forall>i < length (crew s). crew s ! i \<noteq> Gone \<longrightarrow> \<not> departed (sq s) (sl i)) \<and>
     (\<forall>k. departed (sq s) k \<longrightarrow> get_held (held (sq s)) k = []) \<and>
     (\<forall>k. get_held (held (sq s)) k \<noteq> [] \<longrightarrow> k \<in> sl ` {..<length (crew s)}) \<and>
     (\<not> stopped (sq s) \<longrightarrow> (\<forall>i < length (crew s). crew s ! i = Gone \<longrightarrow> departed (sq s) (sl i)))"

lemma lane_invD:
  assumes "lane_inv sl cs0 s"
  shows "lanes (sq s)" "lanes_ok (sq s)" "retry_queue (sq s) = []"
    and "distinct (map fst (held (sq s)))" "in_flight (sq s) = size (flying (crew s))"
    and "untaken (sq s) + held_all (held (sq s)) + image_mset t_case (flying (crew s)) +
       mset (decided s) = mset cs0"
    and "queued (sq s) c \<Longrightarrow> c \<in># held_all (held (sq s))"
    and "c \<in> set (get_held (held (sq s)) k) \<Longrightarrow> owner (sq s) (dir_of c) = Some k"
    and "i < length (crew s) \<Longrightarrow> crew s ! i = Working t \<Longrightarrow>
        owner (sq s) (dir_of (t_case t)) = Some (sl i)"
    and "i < length (crew s) \<Longrightarrow> crew s ! i \<noteq> Gone \<Longrightarrow> \<not> departed (sq s) (sl i)"
    and "departed (sq s) k \<Longrightarrow> get_held (held (sq s)) k = []"
    and "get_held (held (sq s)) k \<noteq> [] \<Longrightarrow> k \<in> sl ` {..<length (crew s)}"
    and "\<not> stopped (sq s) \<Longrightarrow> i < length (crew s) \<Longrightarrow> crew s ! i = Gone \<Longrightarrow>
        departed (sq s) (sl i)"
  using assms unfolding lane_inv_def by blast+

lemma lane_invI:
  assumes "lanes (sq s)" "lanes_ok (sq s)" "retry_queue (sq s) = []"
    and "distinct (map fst (held (sq s)))" "in_flight (sq s) = size (flying (crew s))"
    and "untaken (sq s) + held_all (held (sq s)) + image_mset t_case (flying (crew s)) +
       mset (decided s) = mset cs0"
    and "\<And>c. queued (sq s) c \<Longrightarrow> c \<in># held_all (held (sq s))"
    and "\<And>c k. c \<in> set (get_held (held (sq s)) k) \<Longrightarrow> owner (sq s) (dir_of c) = Some k"
    and "\<And>i t. i < length (crew s) \<Longrightarrow> crew s ! i = Working t \<Longrightarrow>
        owner (sq s) (dir_of (t_case t)) = Some (sl i)"
    and "\<And>i. i < length (crew s) \<Longrightarrow> crew s ! i \<noteq> Gone \<Longrightarrow> \<not> departed (sq s) (sl i)"
    and "\<And>k. departed (sq s) k \<Longrightarrow> get_held (held (sq s)) k = []"
    and "\<And>k. get_held (held (sq s)) k \<noteq> [] \<Longrightarrow> k \<in> sl ` {..<length (crew s)}"
    and "\<And>i. \<not> stopped (sq s) \<Longrightarrow> i < length (crew s) \<Longrightarrow> crew s ! i = Gone \<Longrightarrow>
        departed (sq s) (sl i)"
  shows "lane_inv sl cs0 s"
  unfolding lane_inv_def using assms by blast

lemma lane_claim_cases:
  assumes inv: "lane_inv sl cs0 s" and cl: "claimOnce e slot l (sq s) = (q', r)"
  obtains
    (stopped) "stopped (sq s)" "q' = sq s" "r = Over"
  | (held) c rest where "\<not> stopped (sq s)" "get_held (held (sq s)) slot = c # rest"
      "q' = (sq s)\<lparr>held := AList.update slot rest (held (sq s)),
                   queued := (queued (sq s))(c := False), in_flight := in_flight (sq s) + 1\<rparr>"
      "r = Got \<lparr>t_case = c, t_retry = retry_no (sq s) c\<rparr>"
  | (fresh) c q1 where "\<not> stopped (sq s)" "get_held (held (sq s)) slot = []"
      "scan slot l (sq s) = (q1, Some c)" "q' = start c q1" "r = Got \<lparr>t_case = c, t_retry = 0\<rparr>"
  | (over) q1 where "\<not> stopped (sq s)" "get_held (held (sq s)) slot = []"
      "scan slot l (sq s) = (q1, None)" "q' = q1\<lparr>departed := (departed q1)(slot := True)\<rparr>"
      "r = Over"
proof (cases "stopped (sq s)")
  case True
  then have "q' = sq s" "r = Over" using cl by (auto simp: claimOnce_def)
  with True show ?thesis by (rule stopped)
next
  case False
  note ns = this
  have lan: "lanes (sq s)" and rq: "retry_queue (sq s) = []" and ok: "lanes_ok (sq s)"
    using inv by (auto simp: lane_inv_def)
  show ?thesis
  proof (cases "get_held (held (sq s)) slot")
    case (Cons c rest)
    then show ?thesis using cl ns
      by (intro held [of c rest]) (auto simp: claimOnce_def claim_held_def held_of_get)
  next
    case Nil
    obtain q1 oc where sc: "scan slot l (sq s) = (q1, oc)" by (cases "scan slot l (sq s)")
    show ?thesis
    proof (cases oc)
      case (Some c)
      then show ?thesis using cl ns Nil lan sc
        by (intro fresh [of q1 c]) (auto simp: claimOnce_def held_of_get)
    next
      case None
      then have q1: "q1 = (sq s)\<lparr>cursor := (cursor (sq s))(l := length (cases (sq s)))\<rparr>"
        using scan_None(1) ok sc by blast
      have "claim_retry slot l q1 = (q1\<lparr>departed := (departed q1)(slot := True)\<rparr>, Over)"
        by (simp add: claim_retry_def q1 rq)
      then show ?thesis using cl ns Nil lan sc None
        by (intro over [of q1]) (auto simp: claimOnce_def held_of_get)
    qed
  qed
qed

lemma lane_claim_held:
  assumes inv: "lane_inv sl cs0 s" and dist: "distinct cs0"
    and i: "i < length (crew s)" "crew s ! i = Asking"
    and h: "get_held (held (sq s)) (sl i) = c # rest"
  shows "lane_inv sl cs0 (s\<lparr>sq := (sq s)\<lparr>held := AList.update (sl i) rest (held (sq s)),
            queued := (queued (sq s))(c := False), in_flight := in_flight (sq s) + 1\<rparr>,
          crew := (crew s)[i := Working \<lparr>t_case = c, t_retry = r\<rparr>],
          started := started s @ [t]\<rparr>)"
proof -
  let ?h = "held (sq s)" and ?h' = "AList.update (sl i) rest (held (sq s))"
  have dk: "distinct (map fst ?h)" using inv by (simp add: lane_inv_def)
  have upd: "held_all ?h = add_mset c (held_all ?h')"
    using held_all_update [OF dk, of "sl i" rest] h by simp
  have lok: "lanes_ok ((sq s)\<lparr>held := x, queued := y, in_flight := z\<rparr>) = lanes_ok (sq s)" for x y z
    by (simp add: lanes_ok_def laneMatch_def)
  have ut: "untaken ((sq s)\<lparr>held := x, queued := y, in_flight := z\<rparr>) = untaken (sq s)" for x y z
    by (simp add: untaken_def)
  have ow: "\<And>k c. c \<in> set (get_held ?h k) \<Longrightarrow> owner (sq s) (dir_of c) = Some k"
    using inv by (simp add: lane_inv_def)
  show ?thesis
    using inv upd h dk ow [of c "sl i"] flying_asking(1) [OF i]
    unfolding lane_inv_def
    by (auto simp: lok ut get_held_update distinct_update nth_list_update i split: if_splits)
qed

lemma lane_claim_fresh:
  assumes inv: "lane_inv sl cs0 s"
    and i: "i < length (crew s)" "crew s ! i = Asking"
    and h: "get_held (held (sq s)) (sl i) = []"
    and sc: "scan (sl i) l (sq s) = (q1, Some c)" and ns: "\<not> stopped (sq s)"
  shows "lane_inv sl cs0 (s\<lparr>sq := start c q1,
          crew := (crew s)[i := Working \<lparr>t_case = c, t_retry = r\<rparr>],
          started := started s @ [t]\<rparr>)"
proof -
  let ?h = "held (sq s)"
  have ok: "lanes_ok (sq s)" and dk: "distinct (map fst ?h)" using inv by (auto simp: lane_inv_def)
  obtain kept where own: "owner (sq s) (dir_of c) = None"
    and q1: "q1 = (sq s)\<lparr>taken := taken q1, cursor := cursor q1,
        owner := (owner (sq s))(dir_of c \<mapsto> sl i),
        held := (if kept = [] then ?h else AList.update (sl i) (held_of (sq s) (sl i) @ kept) ?h)\<rparr>"
    and un: "untaken (sq s) = add_mset c (mset kept + untaken q1)"
    and dirs: "\<forall>x \<in> set kept. dir_of x = dir_of c" and ok1: "lanes_ok q1"
    by (rule scan_Some [OF sc ok])
  define h' where "h' = (if kept = [] then ?h else AList.update (sl i) kept ?h)"
  have hq: "held q1 = h'" using h by (subst q1) (simp add: h'_def held_of_get)
  have upd: "held_all h' = held_all ?h + mset kept"
    using held_all_update [OF dk, of "sl i" kept] h by (simp add: h'_def)
  have get: "get_held h' k = (if k = sl i then kept else get_held ?h k)" for k
    using h by (simp add: h'_def get_held_update)
  have dk': "distinct (map fst h')" using dk by (simp add: h'_def distinct_update)
  have f: "owner q1 = (owner (sq s))(dir_of c \<mapsto> sl i)" "retry_queue q1 = retry_queue (sq s)"
      "queued q1 = queued (sq s)" "in_flight q1 = in_flight (sq s)" "lanes q1 = lanes (sq s)"
      "departed q1 = departed (sq s)" "stopped q1 = stopped (sq s)"
    by (subst q1, simp)+
  have lm: "laneMatch (start c q1) = laneMatch q1" by (simp add: fun_eq_iff laneMatch_def start_def)
  have "taken (start c q1) = taken q1" "cases (start c q1) = cases q1"
      "owner (start c q1) = owner q1" "cursor (start c q1) = cursor q1"
    by (simp_all add: start_def)
  then have st: "lanes_ok (start c q1)" using ok1 unfolding lanes_ok_def lm by metis
  have ut: "untaken (start c q1) = untaken q1" by (simp add: untaken_def start_def)
  have fs: "owner (start c q1) = owner q1" "retry_queue (start c q1) = retry_queue q1"
      "queued (start c q1) = queued q1" "in_flight (start c q1) = Suc (in_flight q1)"
      "lanes (start c q1) = lanes q1" "departed (start c q1) = departed q1"
      "stopped (start c q1) = stopped q1" "held (start c q1) = held q1"
    by (simp_all add: start_def)
  have nown: "\<And>d k. owner (sq s) d = Some k \<Longrightarrow> d \<noteq> dir_of c" using own by auto
  show ?thesis
    using inv upd dk' un dirs nown ns flying_asking(1) [OF i]
    unfolding lane_inv_def
    by (auto simp: st ut fs f hq get nth_list_update i ac_simps split: if_splits)
qed

lemma lanes_ok_frame:
  assumes "taken q' = taken q" "cases q' = cases q" "owner q' = owner q" "cursor q' = cursor q"
    and "lane_of q' = lane_of q"
  shows "lanes_ok q' = lanes_ok q"
proof -
  have "laneMatch q' = laneMatch q" by (rule laneMatch_lane_of) fact
  then show ?thesis unfolding lanes_ok_def by (simp add: assms)
qed

lemma lane_leave_stopped:
  assumes inv: "lane_inv sl cs0 s" and i: "i < length (crew s)" "crew s ! i = Asking"
    and st: "stopped (sq s)"
  shows "lane_inv sl cs0 (s\<lparr>crew := (crew s)[i := Gone]\<rparr>)"
proof -
  note D = lane_invD [OF inv]
  have at: "(crew s)[i := Gone] ! j = crew s ! j \<or> (crew s)[i := Gone] ! j = Gone" for j
    using i by (auto simp: nth_list_update)
  show ?thesis
  proof (rule lane_invI, goal_cases)
    case (9 j t) then show ?case using at [of j] D(9) [of j t] by simp
  next
    case (10 j) then show ?case using at [of j] D(10) [of j] by simp
  next
    case (13 j) then show ?case using st by simp
  qed (use D(1-8) D(11,12) flying_asking(2) [OF i] in simp_all)
qed

lemma lane_leave_over:
  assumes inv: "lane_inv sl cs0 s" and i: "i < length (crew s)" "crew s ! i = Asking"
    and inj: "inj_on sl {..<length (crew s)}"
    and h: "get_held (held (sq s)) (sl i) = []" and sc: "scan (sl i) l (sq s) = (q1, None)"
  shows "lane_inv sl cs0 (s\<lparr>sq := q1\<lparr>departed := (departed q1)(sl i := True)\<rparr>,
                           crew := (crew s)[i := Gone]\<rparr>)"
proof -
  have ok: "lanes_ok (sq s)" using inv by (simp add: lane_inv_def)
  note q1 = scan_None(1) [OF sc ok] and ok1 = scan_None(3) [OF sc ok]
  have ok2: "lanes_ok (q1\<lparr>departed := d\<rparr>)" for d
    using ok1 by (subst lanes_ok_frame [of _ q1]) simp_all
  have ut: "untaken (q1\<lparr>departed := d\<rparr>) = untaken (sq s)" for d by (simp add: untaken_def q1)
  have f: "held q1 = held (sq s)" "owner q1 = owner (sq s)" "departed q1 = departed (sq s)"
      "retry_queue q1 = retry_queue (sq s)" "queued q1 = queued (sq s)"
      "in_flight q1 = in_flight (sq s)" "lanes q1 = lanes (sq s)" "stopped q1 = stopped (sq s)"
    by (simp_all add: q1)
  note D = lane_invD [OF inv]
  have other: "sl j \<noteq> sl i" if "j < length (crew s)" "j \<noteq> i" for j
    using inj i(1) that by (auto simp: inj_on_def)
  show ?thesis
  proof (rule lane_invI, goal_cases)
    case (9 j t) then show ?case using D(9) [of j t] by (simp add: f i nth_list_update split: if_splits)
  next
    case (10 j) then show ?case using D(10) [of j] other [of j]
      by (simp add: f i nth_list_update split: if_splits)
  next
    case (11 k) then show ?case using D(11) [of k] h by (simp add: f split: if_splits)
  next
    case (13 j) then show ?case using D(13) [of j] by (simp add: f i nth_list_update split: if_splits)
  qed (use D(1-8) D(12) ok2 in \<open>simp_all add: ut f flying_asking(2) [OF i]\<close>)
qed

lemma lane_verdict:
  assumes inv: "lane_inv sl cs0 s" and i: "i < length (crew s)" "crew s ! i = Working t"
    and cm: "Complete t ok core (sq s) = (q', False)"
  shows "lane_inv sl cs0 (s\<lparr>sq := q', crew := (crew s)[i := Asking],
                           decided := decided s @ [t_case t]\<rparr>)"
proof -
  have q': "q' = (sq s)\<lparr>in_flight := in_flight (sq s) - 1,
      running := remove1 (t_case t) (running (sq s)),
      retry_count := (retry_count (sq s))(t_case t := None),
      queued := (queued (sq s))(t_case t := False)\<rparr>"
    using cm by (auto simp: Complete_def Let_def stop_def split: if_splits)
  have ok: "lanes_ok q' = lanes_ok (sq s)" by (rule lanes_ok_frame) (simp_all add: q')
  have ut: "untaken q' = untaken (sq s)" by (simp add: untaken_def q')
  note D = lane_invD [OF inv]
  have f: "held q' = held (sq s)" "owner q' = owner (sq s)" "departed q' = departed (sq s)"
      "retry_queue q' = retry_queue (sq s)" "lanes q' = lanes (sq s)"
      "stopped q' = stopped (sq s)" "in_flight q' = in_flight (sq s) - 1"
      "queued q' = (queued (sq s))(t_case t := False)"
    by (simp_all add: q')
  show ?thesis
  proof (rule lane_invI, goal_cases)
    case (6) then show ?case using D(6) flying_working [OF i] by (simp add: ut f ac_simps)
  next
    case (7 c) then show ?case using D(7) [of c] by (simp add: f split: if_splits)
  next
    case (9 j u) then show ?case using D(9) [of j u] by (simp add: f i nth_list_update split: if_splits)
  next
    case (10 j) then show ?case using D(10) [of j] i by (cases "j = i") (simp_all add: f)
  next
    case (13 j) then show ?case using D(13) [of j] by (simp add: f i nth_list_update split: if_splits)
  qed (use D(1-5) D(8) D(11,12) ok flying_working [OF i] in \<open>simp_all add: f\<close>)
qed

lemma lane_retry_queue:
  assumes inv: "lane_inv sl cs0 s" and dist: "distinct cs0"
    and i: "i < length (crew s)" "crew s ! i = Working t"
    and cm: "Complete t ok core (sq s) = (q', True)"
  shows "q' = (sq s)\<lparr>in_flight := in_flight (sq s) - 1,
      running := remove1 (t_case t) (running (sq s)),
      retry_count := (retry_count (sq s))(t_case t \<mapsto> t_retry t + 1),
      queued := (queued (sq s))(t_case t := True),
      held := AList.update (sl i) (get_held (held (sq s)) (sl i) @ [t_case t]) (held (sq s))\<rparr>"
proof -
  let ?c = "t_case t" and ?h = "held (sq s)"
  have own: "owner (sq s) (dir_of ?c) = Some (sl i)"
    and here: "\<not> departed (sq s) (sl i)" and lan: "lanes (sq s)"
    using inv i by (auto simp: lane_inv_def)
  have fl: "?c \<in># image_mset t_case (flying (crew s))" by (simp add: flying_working [OF i])
  have "?c \<notin># held_all ?h"
  proof
    assume "?c \<in># held_all ?h"
    then have "1 \<le> count (held_all ?h) ?c" by simp
    moreover have "1 \<le> count (image_mset t_case (flying (crew s))) ?c" using fl by (simp add: Suc_le_eq)
    ultimately have "2 \<le> count (held_all ?h) ?c + count (image_mset t_case (flying (crew s))) ?c"
      by linarith
    also have "\<dots> \<le> count (mset cs0) ?c"
      by (simp flip: lane_invD(6) [OF inv])
    finally show False using dist
      by (auto simp: distinct_count_atmost_1 split: if_splits)
  qed
  then have nq: "\<not> queued (sq s) ?c" using inv by (auto simp: lane_inv_def)
  have lt: "t_retry t < max_retry (sq s)"
    using cm by (auto simp: Complete_def Let_def stop_def split: if_splits)
  show ?thesis
    using cm nq own here lan lt
    by (auto simp: Complete_def Let_def stop_def enqueue_def held_of_get split: if_splits)
qed

lemma lane_retry:
  assumes inv: "lane_inv sl cs0 s" and dist: "distinct cs0"
    and i: "i < length (crew s)" "crew s ! i = Working t"
    and cm: "Complete t ok core (sq s) = (q', True)"
  shows "lane_inv sl cs0 (s\<lparr>sq := q', crew := (crew s)[i := Asking]\<rparr>)"
proof -
  let ?c = "t_case t" and ?h = "held (sq s)"
  have dk: "distinct (map fst ?h)" and own: "owner (sq s) (dir_of ?c) = Some (sl i)"
    and here: "\<not> departed (sq s) (sl i)" and lan: "lanes (sq s)"
    using inv i by (auto simp: lane_inv_def)
  define h' where "h' = AList.update (sl i) (get_held ?h (sl i) @ [?c]) ?h"
  note q' = lane_retry_queue [OF inv dist i cm, folded h'_def]
  have upd: "held_all h' = add_mset ?c (held_all ?h)"
    using held_all_update [OF dk, of "sl i" "get_held ?h (sl i) @ [?c]"] by (simp add: h'_def)
  have get: "get_held h' k = (if k = sl i then get_held ?h k @ [?c] else get_held ?h k)" for k
    by (simp add: h'_def get_held_update)
  have dk': "distinct (map fst h')" using dk by (simp add: h'_def distinct_update)
  have ok: "lanes_ok q' = lanes_ok (sq s)" by (rule lanes_ok_frame) (simp_all add: q')
  have ut: "untaken q' = untaken (sq s)" by (simp add: untaken_def q')
  note D = lane_invD [OF inv]
  have f: "held q' = h'" "owner q' = owner (sq s)" "departed q' = departed (sq s)"
      "retry_queue q' = retry_queue (sq s)" "lanes q' = lanes (sq s)"
      "stopped q' = stopped (sq s)" "in_flight q' = in_flight (sq s) - 1"
      "queued q' = (queued (sq s))(?c := True)"
    by (simp_all add: q')
  show ?thesis
  proof (rule lane_invI, goal_cases)
    case (6) then show ?case using D(6) flying_working [OF i] by (simp add: ut f upd ac_simps)
  next
    case (7 c) then show ?case using D(7) [of c] by (simp add: f upd split: if_splits)
  next
    case (8 c k) then show ?case using D(8) [of c k] own by (auto simp: f get split: if_splits)
  next
    case (9 j u) then show ?case using D(9) [of j u] by (simp add: f i nth_list_update split: if_splits)
  next
    case (10 j) then show ?case using D(10) [of j] i by (cases "j = i") (simp_all add: f)
  next
    case (11 k) then show ?case using D(11) [of k] here by (auto simp: f get)
  next
    case (12 k) then show ?case using D(12) [of k] i by (auto simp: f get split: if_splits)
  next
    case (13 j) then show ?case using D(13) [of j] by (simp add: f i nth_list_update split: if_splits)
  qed (use D(1-5) ok dk' flying_working [OF i] in \<open>simp_all add: f\<close>)
qed

subsection \<open>Every step keeps the invariant\<close>

definition swept :: "(nat \<Rightarrow> lane) \<Rightarrow> 'e sys \<Rightarrow> bool" where
  "swept ln s \<longleftrightarrow> (\<not> stopped (sq s) \<longrightarrow> (\<forall>i < length (crew s). crew s ! i = Gone \<longrightarrow>
     (\<forall>k < length (cases (sq s)). laneMatch (sq s) (cases (sq s) ! k) (ln i) \<longrightarrow>
        owner (sq s) (dir_of (cases (sq s) ! k)) \<noteq> None)))"

definition only_grows :: "'e queue \<Rightarrow> 'e queue \<Rightarrow> bool" where
  "only_grows q q' \<longleftrightarrow> cases q' = cases q \<and> lane_of q' = lane_of q \<and>
     (\<forall>d k. owner q d = Some k \<longrightarrow> owner q' d = Some k) \<and> (stopped q \<longrightarrow> stopped q')"

lemma only_grows_refl: "only_grows q q"
  by (simp add: only_grows_def)

lemma only_grows_trans: "only_grows q q' \<Longrightarrow> only_grows q' q'' \<Longrightarrow> only_grows q q''"
  by (simp add: only_grows_def)

lemma lane_claim_grows:
  assumes inv: "lane_inv sl cs0 s" and cl: "claimOnce e slot l (sq s) = (q', r)"
  shows "only_grows (sq s) q'"
  using inv cl
proof (cases rule: lane_claim_cases)
  case stopped
  then show ?thesis by (simp add: only_grows_refl)
next
  case (held c rest)
  then show ?thesis by (simp add: only_grows_def)
next
  case (fresh c q1)
  have ok: "lanes_ok (sq s)" by (rule lane_invD(2) [OF inv])
  obtain kept where own: "owner (sq s) (dir_of c) = None"
    and q1: "q1 = (sq s)\<lparr>taken := taken q1, cursor := cursor q1,
        owner := (owner (sq s))(dir_of c \<mapsto> slot),
        held := (if kept = [] then held (sq s)
                 else AList.update slot (held_of (sq s) slot @ kept) (held (sq s)))\<rparr>"
    by (rule scan_Some [OF fresh(3) ok])
  have "cases q1 = cases (sq s)" "lane_of q1 = lane_of (sq s)" "stopped q1 = stopped (sq s)"
      "owner q1 = (owner (sq s))(dir_of c \<mapsto> slot)"
    by (subst q1, simp)+
  then show ?thesis using own fresh(4) by (auto simp: only_grows_def start_def)
next
  case (over q1)
  then show ?thesis using scan_None(1) [OF over(3) lane_invD(2) [OF inv]]
    by (simp add: only_grows_def)
qed

lemma complete_grows: "Complete t ok core q = (q', r) \<Longrightarrow> only_grows q q'"
  by (auto simp: Complete_def Let_def enqueue_def stop_def only_grows_def
      split: if_splits option.splits)

lemma lane_step_grows:
  assumes "run_step sl ln s s'" and "lane_inv sl cs0 s"
  shows "only_grows (sq s) (sq s')" "length (crew s') = length (crew s)"
  using assms
proof (induction rule: run_step.induct)
  { case (claim i s e q' t)
    { case 1 with claim show ?case using lane_claim_grows by fastforce }
    { case 2 show ?case by simp } }
  { case (wait i s e q')
    { case 1 with wait show ?case using lane_claim_grows by fastforce }
    { case 2 show ?case by simp } }
  { case (leave i s e q')
    { case 1 with leave show ?case using lane_claim_grows by fastforce }
    { case 2 show ?case by simp } }
  { case (retry i s t success hasCore q')
    { case 1 with retry show ?case using complete_grows by fastforce }
    { case 2 show ?case by simp } }
  { case (verdict i s t success hasCore q')
    { case 1 with verdict show ?case using complete_grows by fastforce }
    { case 2 show ?case by simp } }
  { case (halt s)
    { case 1 show ?case by (simp add: only_grows_def Stop_def) }
    { case 2 show ?case by simp } }
qed

lemma lane_step_inv:
  assumes "run_step sl ln s s'" and "lane_inv sl cs0 s" and dist: "distinct cs0"
    and "inj_on sl {..<length (crew s)}"
  shows "lane_inv sl cs0 s'"
  using assms(1,2,4)
proof (induction rule: run_step.induct)
  case (claim i s e q' t)
  from claim.prems(1) claim.hyps(3) show ?case
  proof (cases rule: lane_claim_cases)
    case (held c rest)
    then show ?thesis using lane_claim_held [OF claim.prems(1) dist claim.hyps(1,2)] by simp
  next
    case (fresh c q1)
    then show ?thesis using lane_claim_fresh [OF claim.prems(1) claim.hyps(1,2)] by simp
  qed simp_all
next
  case (wait i s e q')
  from wait.prems(1) wait.hyps(3) show ?case
    by (cases rule: lane_claim_cases) simp_all
next
  case (leave i s e q')
  from leave.prems(1) leave.hyps(3) show ?case
  proof (cases rule: lane_claim_cases)
    case stopped
    then show ?thesis using lane_leave_stopped [OF leave.prems(1) leave.hyps(1,2)] by simp
  next
    case (over q1)
    then show ?thesis
      using lane_leave_over [OF leave.prems(1) leave.hyps(1,2) leave.prems(2)] by simp
  qed simp_all
next
  case (retry i s t success hasCore q')
  then show ?case by (intro lane_retry [OF _ dist])
next
  case (verdict i s t success hasCore q')
  then show ?case by (intro lane_verdict)
next
  case (halt s)
  have "lanes_ok (Stop (sq s)) = lanes_ok (sq s)" by (rule lanes_ok_frame) (simp_all add: Stop_def)
  then show ?case using halt by (simp add: lane_inv_def Stop_def untaken_def)
qed

end
