(* ===== verification/Dispatch_Lane_Claims.thy ===== *)
theory Dispatch_Lane_Claims
  imports Dispatch_Lanes
begin

text \<open>
  The promises of a queue with lanes, for every run of a crew whose slots have distinct names.
  \<open>laned\<close> is the queue such a run starts from: with an empty table \<open>Affinity\<close> alone (sql), with
  one \<open>Assign\<close> (shell), under any pair of policies.
\<close>

definition laned ::
  "(string \<times> lane) list \<Rightarrow> 'e policy option \<Rightarrow> 'e policy option \<Rightarrow> string list \<Rightarrow> int \<Rightarrow> 'e queue" where
  "laned byDir h sf cs m = Affinity (Assign byDir (Policy h sf (New cs m)))"

lemma laned_assign:
  "byDir \<noteq> [] \<Longrightarrow> laned byDir h sf cs m = Assign byDir (Policy h sf (New cs m))"
  "laned [] h sf cs m = Affinity (Policy h sf (New cs m))"
  by (simp_all add: laned_def Assign_def Affinity_def)

lemma laned_fields:
  "lanes (laned b h sf cs m)" "cases (laned b h sf cs m) = cs"
  "taken (laned b h sf cs m) = replicate (length cs) False" "owner (laned b h sf cs m) = (\<lambda>_. None)"
  "held (laned b h sf cs m) = []" "retry_queue (laned b h sf cs m) = []"
  "in_flight (laned b h sf cs m) = 0" "queued (laned b h sf cs m) = (\<lambda>_. False)"
  "departed (laned b h sf cs m) = (\<lambda>_. False)" "cursor (laned b h sf cs m) = (\<lambda>_. 0)"
  "stopped (laned b h sf cs m) = False"
  by (simp_all add: laned_def Affinity_def Assign_def Policy_def New_def)

lemma untaken_all: "untaken (laned b h sf cs m) = mset cs"
proof -
  have "{i. i < length cs \<and> \<not> replicate (length cs) False ! i} = set [0..<length cs]" by auto
  then have "untaken (laned b h sf cs m) = image_mset (nth cs) (mset [0..<length cs])"
    by (simp add: untaken_def laned_fields mset_set_upto_eq_mset_upto lessThan_atLeast0)
  also have "\<dots> = mset (map (nth cs) [0..<length cs])" by simp
  finally show ?thesis by (simp only: map_nth)
qed

lemma fresh_lane_inv: "lane_inv sl cs (fresh (laned b h sf cs m) n)"
  by (rule lane_invI)
    (simp_all add: fresh_def laned_fields lanes_ok_def held_all_def get_held_def untaken_all
      nth_append)

lemma lane_reaches:
  assumes "reaches sl ln s0 s" and "lane_inv sl cs s0" and "distinct cs"
    and "inj_on sl {..<length (crew s0)}"
  shows "lane_inv sl cs s \<and> only_grows (sq s0) (sq s)"
  using assms(1)
proof (induction rule: reaches.induct)
  case here
  then show ?case using assms(2) by (simp add: only_grows_refl)
next
  case (more s t)
  then have inv: "lane_inv sl cs s" and g: "only_grows (sq s0) (sq s)" by auto
  have "inj_on sl {..<length (crew s)}" using assms(4) crew_length [OF more.hyps(1)] by simp
  with lane_step_inv [OF more.hyps(2) inv assms(3)]
    lane_step_grows(1) [OF more.hyps(2) inv] g
  show ?case by (auto intro: only_grows_trans)
qed

definition lane_run ::
  "(nat \<Rightarrow> string) \<Rightarrow> (nat \<Rightarrow> lane) \<Rightarrow> (string \<times> lane) list \<Rightarrow> 'e policy option \<Rightarrow> 'e policy option \<Rightarrow>
   string list \<Rightarrow> int \<Rightarrow> nat \<Rightarrow> 'e sys \<Rightarrow> bool" where
  "lane_run sl ln b h sf cs m n s \<longleftrightarrow>
     distinct cs \<and> inj_on sl {..<n} \<and> reaches sl ln (fresh (laned b h sf cs m) n) s"

lemma lane_run_inv:
  assumes "lane_run sl ln b h sf cs m n s"
  shows "lane_inv sl cs s" "length (crew s) = n" "inj_on sl {..<length (crew s)}"
    "distinct cs" "cases (sq s) = cs"
proof -
  note r = assms [unfolded lane_run_def]
  show n: "length (crew s) = n" using r crew_length by (fastforce simp: fresh_def)
  have *: "lane_inv sl cs s \<and> only_grows (sq (fresh (laned b h sf cs m) n)) (sq s)"
    using r by (intro lane_reaches [OF _ fresh_lane_inv]) (auto simp: fresh_def)
  then show "lane_inv sl cs s" ..
  show "cases (sq s) = cs" using * by (simp add: only_grows_def fresh_def laned_fields)
  show "inj_on sl {..<length (crew s)}" "distinct cs" using r n by simp_all
qed

text \<open>
  One worker over two directories; the first case fails once, is retried, passes, and then the
  second one passes.
\<close>

definition road0 :: "unit sys" where
  "road0 = fresh (laned [] None None [''a'', ''b''] 1) 1"
definition road1 :: "unit sys" where
  "road1 = road0\<lparr>sq := fst (claimOnce () ''s'' LaneAny (sq road0)),
     crew := [Working \<lparr>t_case = ''a'', t_retry = 0\<rparr>],
     started := [\<lparr>t_case = ''a'', t_retry = 0\<rparr>]\<rparr>"
definition road2 :: "unit sys" where
  "road2 = road1\<lparr>sq := fst (Complete \<lparr>t_case = ''a'', t_retry = 0\<rparr> False False (sq road1)),
     crew := [Asking]\<rparr>"
definition road3 :: "unit sys" where
  "road3 = road2\<lparr>sq := fst (claimOnce () ''s'' LaneAny (sq road2)),
     crew := [Working \<lparr>t_case = ''a'', t_retry = 1\<rparr>],
     started := started road2 @ [\<lparr>t_case = ''a'', t_retry = 1\<rparr>]\<rparr>"
text \<open>One worker over one case that passes.\<close>

definition hop0 :: "unit sys" where
  "hop0 = fresh (laned [] None None [''a''] 1) 1"
definition hop1 :: "unit sys" where
  "hop1 = hop0\<lparr>sq := fst (claimOnce () ''s'' LaneAny (sq hop0)),
     crew := [Working \<lparr>t_case = ''a'', t_retry = 0\<rparr>],
     started := [\<lparr>t_case = ''a'', t_retry = 0\<rparr>]\<rparr>"
definition hop2 :: "unit sys" where
  "hop2 = hop1\<lparr>sq := fst (Complete \<lparr>t_case = ''a'', t_retry = 0\<rparr> True False (sq hop1)),
     crew := [Asking], decided := [''a'']\<rparr>"
definition hop3 :: "unit sys" where
  "hop3 = hop2\<lparr>sq := fst (claimOnce () ''s'' LaneAny (sq hop2)), crew := [Gone]\<rparr>"

lemmas road_defs = road0_def road1_def road2_def road3_def hop0_def hop1_def hop2_def hop3_def
  laned_def Affinity_def Assign_def

lemmas lane_eval = queue_eval scan_def laneMatch_def claim_held_def dir_of_def last_index_of_def

abbreviation road_reaches :: "unit sys \<Rightarrow> unit sys \<Rightarrow> bool" where
  "road_reaches \<equiv> reaches (\<lambda>_. ''s'') (\<lambda>_. LaneAny)"

lemma road_steps:
  "road_reaches s road0 \<Longrightarrow> road_reaches s road1" "road_reaches s road1 \<Longrightarrow> road_reaches s road2"
  "road_reaches s road2 \<Longrightarrow> road_reaches s road3"
  "road_reaches s hop0 \<Longrightarrow> road_reaches s hop1" "road_reaches s hop1 \<Longrightarrow> road_reaches s hop2"
  "road_reaches s hop2 \<Longrightarrow> road_reaches s hop3"
  subgoal by (rule run_claim [where i = 0 and e = "()" and t = "\<lparr>t_case = ''a'', t_retry = 0\<rparr>"
        and s = road0]) (auto simp: road_defs lane_eval)
  subgoal by (rule run_retry [where i = 0 and success = False and hasCore = False
        and t = "\<lparr>t_case = ''a'', t_retry = 0\<rparr>" and s = road1]) (auto simp: road_defs lane_eval)
  subgoal by (rule run_claim [where i = 0 and e = "()" and t = "\<lparr>t_case = ''a'', t_retry = 1\<rparr>"
        and s = road2]) (auto simp: road_defs lane_eval)
  subgoal by (rule run_claim [where i = 0 and e = "()" and t = "\<lparr>t_case = ''a'', t_retry = 0\<rparr>"
        and s = hop0]) (auto simp: road_defs lane_eval)
  subgoal by (rule run_verdict [where i = 0 and success = True and hasCore = False
        and t = "\<lparr>t_case = ''a'', t_retry = 0\<rparr>" and s = hop1]) (auto simp: road_defs lane_eval)
  subgoal by (rule run_leave [where i = 0 and e = "()" and s = hop2])
      (auto simp: road_defs lane_eval)
  done

lemma road_all: "road_reaches road1 road3" "road_reaches road0 road1" "road_reaches hop0 hop3"
  by (rule reaches.here road_steps)+

lemma road_run:
  "lane_run (\<lambda>_. ''s'') (\<lambda>_. LaneAny) [] None None [''a'', ''b''] 1 1 road1"
  "lane_run (\<lambda>_. ''s'') (\<lambda>_. LaneAny) [] None None [''a''] 1 1 hop3"
  using road_all by (auto simp: lane_run_def road0_def hop0_def inj_on_def)

subsection \<open>A directory has one worker\<close>

text \<open>
  C32: In a run with lanes or affinity, a directory stays with the worker that first claimed a
  case of it: whichever cases of the directory run at any two moments of the run, first attempts
  or retries, one and the same worker runs them. Two cases of a directory therefore never run
  at the same time.
\<close>

theorem directory_keeps_its_worker:
  assumes "lane_run sl ln b h sf cs m n s" and "reaches sl ln s s'"
    and "i < n" and "crew s ! i = Working t" and "j < n" and "crew s' ! j = Working t'"
    and "dir_of (t_case t) = dir_of (t_case t')"
  shows "i = j"
proof -
  note r = lane_run_inv [OF assms(1)]
  have s': "lane_inv sl cs s' \<and> only_grows (sq s) (sq s')"
    by (rule lane_reaches [OF assms(2) r(1,4,3)])
  have n': "length (crew s') = n" using crew_length [OF assms(2)] r(2) by simp
  have "owner (sq s) (dir_of (t_case t)) = Some (sl i)"
    using lane_invD(9) [OF r(1)] assms(3,4) r(2) by simp
  then have "owner (sq s') (dir_of (t_case t)) = Some (sl i)" using s' by (simp add: only_grows_def)
  moreover have "owner (sq s') (dir_of (t_case t')) = Some (sl j)"
    using lane_invD(9) [of sl cs s'] s' assms(5,6) n' by simp
  ultimately have "sl i = sl j" using assms(7) by simp
  then show ?thesis using r(2,3) assms(3,5) by (auto simp: inj_on_def)
qed

text \<open>Two workers; the first fails a case and gets it again, while the other could have taken it.\<close>

definition duo_slot :: "nat \<Rightarrow> string" where
  "duo_slot i = (if i = 0 then ''s'' else ''t'' @ replicate i (CHR ''t''))"

definition duo0 :: "unit sys" where
  "duo0 = fresh (laned [] None None [''a'', ''b''] 1) 2"
definition duo1 :: "unit sys" where
  "duo1 = duo0\<lparr>sq := fst (claimOnce () ''s'' LaneAny (sq duo0)),
     crew := [Working \<lparr>t_case = ''a'', t_retry = 0\<rparr>, Asking],
     started := [\<lparr>t_case = ''a'', t_retry = 0\<rparr>]\<rparr>"
definition duo2 :: "unit sys" where
  "duo2 = duo1\<lparr>sq := fst (Complete \<lparr>t_case = ''a'', t_retry = 0\<rparr> False False (sq duo1)), crew := [Asking, Asking]\<rparr>"
definition duo3 :: "unit sys" where
  "duo3 = duo2\<lparr>sq := fst (claimOnce () ''s'' LaneAny (sq duo2)),
     crew := [Working \<lparr>t_case = ''a'', t_retry = 1\<rparr>, Asking],
     started := started duo2 @ [\<lparr>t_case = ''a'', t_retry = 1\<rparr>]\<rparr>"

lemmas duo_defs = duo0_def duo1_def duo2_def duo3_def duo_slot_def laned_def Affinity_def Assign_def numeral_2_eq_2

abbreviation duo_reaches :: "unit sys \<Rightarrow> unit sys \<Rightarrow> bool" where
  "duo_reaches \<equiv> reaches duo_slot (\<lambda>_. LaneAny)"

lemma duo_steps:
  "duo_reaches s duo0 \<Longrightarrow> duo_reaches s duo1" "duo_reaches s duo1 \<Longrightarrow> duo_reaches s duo2"
  "duo_reaches s duo2 \<Longrightarrow> duo_reaches s duo3"
  subgoal by (rule run_claim [where i = 0 and e = "()" and t = "\<lparr>t_case = ''a'', t_retry = 0\<rparr>"
        and s = duo0]) (auto simp: duo_defs lane_eval)
  subgoal by (rule run_retry [where i = 0 and success = False and hasCore = False
        and t = "\<lparr>t_case = ''a'', t_retry = 0\<rparr>" and s = duo1]) (auto simp: duo_defs lane_eval)
  subgoal by (rule run_claim [where i = 0 and e = "()" and t = "\<lparr>t_case = ''a'', t_retry = 1\<rparr>"
        and s = duo2]) (auto simp: duo_defs lane_eval)
  done

lemma duo_run: "lane_run duo_slot (\<lambda>_. LaneAny) [] None None [''a'', ''b''] 1 2 duo1" "duo_reaches duo1 duo3"
proof -
  have "duo_slot i \<noteq> duo_slot j" if "i \<noteq> j" for i j
    using that by (auto simp: duo_slot_def dest!: arg_cong [where f = length])
  then have "inj_on duo_slot A" for A by (auto simp: inj_on_def)
  moreover have "duo_reaches duo0 duo1" by (rule duo_steps(1) [OF reaches.here])
  ultimately show "lane_run duo_slot (\<lambda>_. LaneAny) [] None None [''a'', ''b''] 1 2 duo1"
    by (simp add: lane_run_def duo0_def)
  show "duo_reaches duo1 duo3" by (rule reaches.here duo_steps)+
qed

theorem directory_keeps_its_worker_witness:
  "duo_reaches duo1 duo3 \<and> (\<exists>i j. i < (2 :: nat) \<and> j < 2 \<and> crew duo1 ! i = Working \<lparr>t_case = ''a'', t_retry = 0\<rparr> \<and>
     crew duo3 ! j = Working \<lparr>t_case = ''a'', t_retry = 1\<rparr> \<and> i = j)"
proof -
  have c: "crew duo1 ! 0 = Working \<lparr>t_case = ''a'', t_retry = 0\<rparr>" "crew duo3 ! 0 = Working \<lparr>t_case = ''a'', t_retry = 1\<rparr>"
    by (simp_all add: duo1_def duo3_def)
  have "(0 :: nat) = 0" using directory_keeps_its_worker [OF duo_run, of 0 _ 0, OF _ c(1) _ c(2)] by simp
  then show ?thesis using c duo_run(2) by (intro conjI exI [of _ 0]) simp_all
qed

subsection \<open>Nothing is lost with lanes\<close>

lemma swept_step:
  assumes "run_step sl ln s t" and inv: "lane_inv sl cs0 s" and sw: "swept ln s"
  shows "swept ln t"
proof -
  note g = lane_step_grows [OF assms(1) inv]
  have lm: "laneMatch (sq t) = laneMatch (sq s)"
    by (rule laneMatch_lane_of) (use g(1) in \<open>simp add: only_grows_def\<close>)
  have keep: "owner (sq t) (dir_of (cases (sq t) ! k)) \<noteq> None"
    if "i < length (crew s)" "crew s ! i = Gone" "\<not> stopped (sq t)" "k < length (cases (sq t))"
      "laneMatch (sq t) (cases (sq t) ! k) (ln i)" for i k
  proof -
    have "owner (sq s) (dir_of (cases (sq s) ! k)) \<noteq> None"
      using sw that g(1) lm unfolding swept_def only_grows_def by metis
    then show ?thesis using g(1) by (auto simp: only_grows_def)
  qed
  have main: "swept ln t" if "\<And>i. i < length (crew s) \<Longrightarrow> crew t ! i = Gone \<Longrightarrow> crew s ! i = Gone"
    using keep that g(2) unfolding swept_def by simp
  from assms(1) show ?thesis
  proof cases
    case (claim i e q' u)
    then show ?thesis by (intro main) (auto simp: nth_list_update split: if_splits)
  next
    case (wait i e q')
    then show ?thesis by (intro main) simp
  next
    case (leave i e q')
    from inv leave(4) show ?thesis
    proof (cases rule: lane_claim_cases)
      case stopped
      then show ?thesis using leave(1) by (simp add: swept_def)
    next
      case (over q1)
      note sn = scan_None [OF over(3) lane_invD(2) [OF inv]]
      have "owner (sq s) (dir_of (cases (sq s) ! k)) \<noteq> None"
        if "k < length (cases (sq s))" "laneMatch (sq s) (cases (sq s) ! k) (ln i)" for k
        using sn(2) that lane_invD(2) [OF inv] by (auto simp: lanes_ok_def)
      then have now: "owner (sq t) (dir_of (cases (sq t) ! k)) \<noteq> None"
        if "k < length (cases (sq t))" "laneMatch (sq t) (cases (sq t) ! k) (ln i)" for k
        using g(1) lm that by (fastforce simp: only_grows_def)
      show ?thesis unfolding swept_def
      proof (intro impI allI)
        fix j k assume *: "\<not> stopped (sq t)" "j < length (crew t)" "crew t ! j = Gone"
          "k < length (cases (sq t))" "laneMatch (sq t) (cases (sq t) ! k) (ln j)"
        show "owner (sq t) (dir_of (cases (sq t) ! k)) \<noteq> None"
        proof (cases "j = i")
          case True
          then show ?thesis using now * by blast
        next
          case False
          then have "crew s ! j = Gone" using * leave(1) by (simp add: nth_list_update)
          then show ?thesis using keep [of j k] * g(2) by simp
        qed
      qed
    qed simp_all
  next
    case (retry i u ok core q')
    then show ?thesis by (intro main) (auto simp: nth_list_update split: if_splits)
  next
    case (verdict i u ok core q')
    then show ?thesis by (intro main) (auto simp: nth_list_update split: if_splits)
  next
    case halt
    then show ?thesis by (simp add: swept_def Stop_def)
  qed
qed

lemma lane_run_swept:
  assumes "lane_run sl ln b h sf cs m n s"
  shows "swept ln s"
proof -
  have "reaches sl ln (fresh (laned b h sf cs m) n) s" and d: "distinct cs" and j: "inj_on sl {..<n}"
    using assms by (auto simp: lane_run_def)
  then show ?thesis
  proof (induction rule: reaches.induct)
    case here
    show ?case by (simp add: swept_def fresh_def)
  next
    case (more s t)
    have "lane_inv sl cs s" using more d j by (intro lane_run_inv(1)) (auto simp: lane_run_def)
    then show ?case using more swept_step by blast
  qed
qed

text \<open>
  C19: When every worker of a run with lanes has stopped asking, the run was not cancelled and
  every case's lane had a worker, the queue is finished and every case has exactly one verdict.
\<close>

theorem lanes_leave_nothing:
  assumes "lane_run sl ln b h sf cs m n s" and "\<not> stopped (sq s)"
    and "\<forall>p \<in> set (crew s). p = Gone"
    and "\<forall>c \<in> set cs. \<exists>i < n. laneMatch (sq s) c (ln i)"
  shows "Finished (sq s) \<and> mset (decided s) = mset cs"
proof -
  note r = lane_run_inv [OF assms(1)]
  have ok: "lanes_ok (sq s)" and dk: "distinct (map fst (held (sq s)))"
    by (rule lane_invD [OF r(1)])+
  have gone: "crew s ! i = Gone" if "i < n" for i using assms(3) that r(2) by auto
  have all: "taken (sq s) ! k" if k: "k < length cs" for k
  proof -
    obtain i where "i < n" "laneMatch (sq s) (cs ! k) (ln i)"
      using assms(4) k nth_mem by blast
    then have "owner (sq s) (dir_of (cs ! k)) \<noteq> None"
      using lane_run_swept [OF assms(1)] assms(2) gone r(2,5) k unfolding swept_def by metis
    then show ?thesis using ok k r(5) by (auto simp: lanes_ok_def)
  qed
  then have e: "{i. i < length (cases (sq s)) \<and> \<not> taken (sq s) ! i} = {}" using r(5) by auto
  have u: "untaken (sq s) = {#}"
    by (simp only: untaken_def e mset_set.empty image_mset_empty)
  have empty: "get_held (held (sq s)) k = []" for k
  proof (rule ccontr)
    assume ne: "get_held (held (sq s)) k \<noteq> []"
    then obtain i where i: "i < n" "k = sl i" using lane_invD(12) [OF r(1)] r(2) by auto
    then have "departed (sq s) k" using lane_invD(13) [OF r(1)] assms(2) gone r(2) by simp
    then show False using lane_invD(11) [OF r(1)] ne by simp
  qed
  then have h: "held_all (held (sq s)) = {#}" using dk by (intro held_all_empty)
  have f: "flying (crew s) = {#}" using assms(3) by (rule flying_gone)
  have v: "cs' = []" if "(k, cs') \<in> set (held (sq s))" for k cs'
    using empty [of k] that dk by (simp add: get_held_def)
  have "mset (decided s) = mset cs" using lane_invD(6) [OF r(1)] u h f by simp
  moreover have "list_all (\<lambda>t. t) (taken (sq s))"
    using all ok r(5) by (auto simp: list_all_length lanes_ok_def)
  ultimately show ?thesis
    using lane_invD(1,3,5) [OF r(1)] f assms(2) v
    by (auto simp: Finished_def all_claimed_def list_ex_iff)
qed

theorem lanes_leave_nothing_witness:
  "Finished (sq hop3) \<and> mset (decided hop3) = mset [''a'']"
  by (rule lanes_leave_nothing [OF road_run(2)])
    (auto simp: road_defs lane_eval)

subsection \<open>With lanes a failure is retried at once\<close>

text \<open>
  With lanes a failed case with tries left goes back to its own worker and is the very next
  ticket that worker gets, whatever first attempts are still waiting and whoever else is running.
\<close>

theorem lanes_retry_at_once:
  assumes "lane_run sl ln b h sf cs m n s" and "\<not> stopped (sq s)"
    and "i < n" and "crew s ! i = Working t" and "held_of (sq s) (sl i) = []"
    and "Complete t ok core (sq s) = (q', True)"
  shows "snd (claimOnce e (sl i) l q') = Got \<lparr>t_case = t_case t, t_retry = t_retry t + 1\<rparr>"
proof -
  note r = lane_run_inv [OF assms(1)]
  have i: "i < length (crew s)" using assms(3) r(2) by simp
  note q' = lane_retry_queue [OF r(1,4) i assms(4,6)]
  have "held_of q' (sl i) = [t_case t]"
    using assms(5) by (simp add: q' held_of_get get_held_update)
  moreover have "\<not> stopped q'" using assms(2) by (simp add: q')
  moreover have "retry_count q' (t_case t) = Some (t_retry t + 1)" by (simp add: q')
  ultimately show ?thesis by (simp add: claimOnce_def claim_held_def retry_no_def)
qed

theorem lanes_retry_at_once_witness:
  "snd (claimOnce () ''s'' LaneAny (sq road2)) = Got \<lparr>t_case = ''a'', t_retry = 0 + 1\<rparr>"
  using lanes_retry_at_once [OF road_run(1), of 0 "\<lparr>t_case = ''a'', t_retry = 0\<rparr>" False False
      "sq road2" "()" LaneAny]
  by (auto simp: road_defs lane_eval)

subsection \<open>With lanes the policies are never asked\<close>

text \<open>
  With lanes on, a claim neither depends on the hard and soft policies nor on the machine:
  whatever constraint and whatever limits were set, the same ticket comes out.
\<close>

theorem lanes_ignore_policy:
  assumes "lanes q"
  shows "claimOnce e slot l (Policy h sf q) =
    (case claimOnce e' slot l q of (q', r) \<Rightarrow> (Policy h sf q', r))"
proof -
  have "laneMatch (Policy h sf q) = laneMatch q"
    by (rule laneMatch_lane_of) (simp add: Policy_def)
  then show ?thesis using assms
    by (auto simp: claimOnce_def claim_held_def scan_def claim_retry_def start_def retry_no_def
        held_of_def laneMatch_def Policy_def Let_def split: list.splits option.splits if_splits)
qed

theorem lanes_ignore_policy_witness:
  "claimOnce () ''s'' LaneAny (Policy (Some (heavy_policy (NewHeavyCap [''a''] 1))) None (sq road0)) =
    (case claimOnce () ''s'' LaneAny (sq road0) of
       (q', r) \<Rightarrow> (Policy (Some (heavy_policy (NewHeavyCap [''a''] 1))) None q', r))"
  by (rule lanes_ignore_policy) (simp add: road_defs fresh_def)

end
