(* ===== verification/Ctl_Reader.thy ===== *)
theory Ctl_Reader
  imports Prelude
begin

text \<open>
  The reader of the isolation suite's \<open>.ctl\<close> files (\<open>internal/ctl/tables.go\<close> and
  \<open>parse.go\<close>): twelve states, ten character classes, two tables, and the 1024-byte line buffer
  of the C program it is a port of. The reader's \<open>bufio.Reader\<close> is the list of the bytes not
  yet read.
\<close>

datatype pstate = Accept | Copy | OneSlash | InCComment | OneStar | OneDash | InSQLComment
  | InDQString | InDQStringEscape | InSQString | InSQStringOneSQ | InSQStringEscape

datatype cclass = ClNL | ClWS | ClSQ | ClDQ | ClEscape | ClSlash | ClStar | ClDash | ClSemi | ClOther

datatype action = CopyInput | CopyInputAndInsertWS | Hold | CopyHoldAndInput | CopyHoldAndInsertWS
  | InsertWS | Skip | Quit

fun class_index :: "cclass \<Rightarrow> nat" where
  "class_index ClNL = 0" | "class_index ClWS = 1" | "class_index ClSQ = 2"
| "class_index ClDQ = 3" | "class_index ClEscape = 4" | "class_index ClSlash = 5"
| "class_index ClStar = 6" | "class_index ClDash = 7" | "class_index ClSemi = 8"
| "class_index ClOther = 9"

fun state_row :: "pstate \<Rightarrow> pstate list" where
  "state_row Accept = replicate 10 Accept"
| "state_row Copy = [Copy, Copy, InSQString, InDQString, Copy, OneSlash, Copy, OneDash, Accept, Copy]"
| "state_row OneSlash = [Copy, Copy, Copy, Copy, Copy, OneSlash, InCComment, Copy, Accept, Copy]"
| "state_row InCComment = [InCComment, InCComment, InCComment, InCComment, InCComment, InCComment,
     OneStar, InCComment, InCComment, InCComment]"
| "state_row OneStar = [InCComment, InCComment, InCComment, InCComment, InCComment, Copy,
     OneStar, InCComment, InCComment, InCComment]"
| "state_row OneDash = [Copy, Copy, Copy, Copy, Copy, Copy, Copy, InSQLComment, Accept, Copy]"
| "state_row InSQLComment = Copy # replicate 9 InSQLComment"
| "state_row InDQString = [InDQString, InDQString, InDQString, Copy, InDQStringEscape, InDQString,
     InDQString, InDQString, InDQString, InDQString]"
| "state_row InDQStringEscape = replicate 10 InDQString"
| "state_row InSQString = [InSQString, InSQString, InSQStringOneSQ, InSQString, InSQStringEscape,
     InSQString, InSQString, InSQString, InSQString, InSQString]"
| "state_row InSQStringOneSQ = [Copy, Copy, InSQString, Copy, Copy, Copy, Copy, Copy, Accept, Copy]"
| "state_row InSQStringEscape = replicate 10 InSQString"

fun action_row :: "pstate \<Rightarrow> action list" where
  "action_row Accept = replicate 10 Quit"
| "action_row Copy = [InsertWS, InsertWS, CopyInput, CopyInput, CopyInput, Hold, CopyInput, Hold,
     CopyInput, CopyInput]"
| "action_row OneSlash = [CopyHoldAndInsertWS, CopyHoldAndInsertWS, CopyHoldAndInput,
     CopyHoldAndInput, CopyHoldAndInput, CopyInput, Skip, CopyHoldAndInput, CopyHoldAndInput,
     CopyHoldAndInput]"
| "action_row InCComment = replicate 10 Skip"
| "action_row OneStar = [Skip, Skip, Skip, Skip, Skip, InsertWS, Skip, Skip, Skip, Skip]"
| "action_row OneDash = [CopyHoldAndInsertWS, CopyHoldAndInsertWS, CopyHoldAndInput,
     CopyHoldAndInput, CopyHoldAndInput, CopyHoldAndInput, CopyHoldAndInput, Skip,
     CopyHoldAndInput, CopyHoldAndInput]"
| "action_row InSQLComment = InsertWS # replicate 9 Skip"
| "action_row InDQString = [CopyInput, CopyInput, CopyInput, CopyInput, Hold, CopyInput, CopyInput,
     CopyInput, CopyInput, CopyInput]"
| "action_row InDQStringEscape = Skip # replicate 9 CopyHoldAndInput"
| "action_row InSQString = [CopyInput, CopyInput, CopyInput, CopyInput, Hold, CopyInput, CopyInput,
     CopyInput, CopyInput, CopyInput]"
| "action_row InSQStringOneSQ = replicate 10 CopyInput"
| "action_row InSQStringEscape = Skip # replicate 9 CopyHoldAndInput"

definition nextState :: "pstate \<Rightarrow> cclass \<Rightarrow> pstate" where
  "nextState s c = state_row s ! class_index c"

definition actionTable :: "pstate \<Rightarrow> cclass \<Rightarrow> action" where
  "actionTable s c = action_row s ! class_index c"

definition classify :: "char \<Rightarrow> cclass" where
  "classify c =
     (if c = CHR 0x0A then ClNL
      else if c = CHR 0x27 then ClSQ
      else if c = CHR 0x22 then ClDQ
      else if c = CHR 0x5C then ClEscape
      else if c = CHR ''/'' then ClSlash
      else if c = CHR ''*'' then ClStar
      else if c = CHR ''-'' then ClDash
      else if c = CHR '';'' then ClSemi
      else if c \<in> set [CHR '' '', CHR 0x09, CHR 0x0D, CHR 0x0C, CHR 0x0B] then ClWS
      else ClOther)"

subsection \<open>One statement\<close>

text \<open>The variables of \<open>Next\<close>: what has been written, the state, the pending space, the held byte.\<close>

record acc =
  out :: string
  st :: pstate
  pending :: bool
  hold_byte :: char

definition fresh_acc :: acc where
  "fresh_acc = \<lparr>out = [], st = Copy, pending = False, hold_byte = CHR ''?''\<rparr>"

definition deposit :: "char \<Rightarrow> acc \<Rightarrow> acc" where
  "deposit ch a =
     a\<lparr>out := out a @ (if pending a \<and> out a \<noteq> [] then [CHR '' ''] else []) @ [ch],
       pending := False\<rparr>"

definition act :: "action \<Rightarrow> char \<Rightarrow> acc \<Rightarrow> acc" where
  "act x ch a =
     (case x of
        CopyInput \<Rightarrow> deposit ch a
      | CopyInputAndInsertWS \<Rightarrow> (deposit ch a)\<lparr>pending := True\<rparr>
      | Hold \<Rightarrow> a\<lparr>hold_byte := ch\<rparr>
      | CopyHoldAndInput \<Rightarrow> (let b = deposit (hold_byte a) a in b\<lparr>out := out b @ [ch]\<rparr>)
      | CopyHoldAndInsertWS \<Rightarrow> (deposit (hold_byte a) a)\<lparr>pending := True\<rparr>
      | InsertWS \<Rightarrow> a\<lparr>pending := True\<rparr>
      | Skip \<Rightarrow> a
      | Quit \<Rightarrow> a)"

definition consume :: "char \<Rightarrow> acc \<Rightarrow> acc" where
  "consume ch a =
     (let was = st a; cc = classify ch
      in act (actionTable was cc) ch (a\<lparr>st := nextState was cc\<rparr>))"

text \<open>The inner loop, over what is left of the line: how far it got, and whether to go on.\<close>

fun scan_raw :: "string \<Rightarrow> acc \<Rightarrow> acc \<times> nat" where
  "scan_raw [] a = (a, 0)"
| "scan_raw (ch # bs) a =
     (let a' = consume ch a
      in if st a' = Accept then (a', 1)
         else (case scan_raw bs a' of (a'', n) \<Rightarrow> (a'', Suc n)))"

subsection \<open>The reader\<close>

record reader =
  rest_in :: string
  raw :: string
  next_pos :: nat
  line_no :: nat

definition NewReader :: "string \<Rightarrow> reader" where
  "NewReader inp = \<lparr>rest_in = inp, raw = [], next_pos = 0, line_no = 0\<rparr>"

definition Lines :: "reader \<Rightarrow> nat" where
  "Lines r = line_no r"

definition rawBufSize :: nat where
  "rawBufSize = 1024"

fun fgets :: "nat \<Rightarrow> string \<Rightarrow> string \<times> string" where
  "fgets 0 s = ([], s)"
| "fgets (Suc n) [] = ([], [])"
| "fgets (Suc n) (b # s) =
     (if b = CHR 0x0A then ([b], s) else (case fgets n s of (x, y) \<Rightarrow> (b # x, y)))"

definition readRaw :: "reader \<Rightarrow> reader \<times> bool" where
  "readRaw r =
     (case fgets (rawBufSize - 1) (rest_in r) of (buf, rest') \<Rightarrow>
        (r\<lparr>rest_in := rest', raw := buf, next_pos := 0, line_no := line_no r + 1\<rparr>, buf \<noteq> []))"

lemma fgets_append: "fgets n s = (x, y) \<Longrightarrow> s = x @ y"
  by (induction n s arbitrary: x y rule: fgets.induct) (auto split: if_splits prod.splits)

lemma fgets_progress: "fgets (Suc n) s = ([], y) \<Longrightarrow> s = [] \<and> y = []"
  by (cases s) (auto split: if_splits prod.splits)

lemma scan_raw_count: "scan_raw bs a = (a', n) \<Longrightarrow> n \<le> length bs"
  by (induction bs a arbitrary: a' n rule: scan_raw.induct)
     (auto simp: Let_def split: if_splits prod.splits)

lemma scan_raw_all: "scan_raw bs a = (a', n) \<Longrightarrow> st a' \<noteq> Accept \<Longrightarrow> n = length bs"
  by (induction bs a arbitrary: a' n rule: scan_raw.induct)
     (auto simp: Let_def split: if_splits prod.splits)

definition left_over :: "reader \<Rightarrow> nat" where
  "left_over r = length (raw r) - next_pos r + 2 * length (rest_in r)"

lemma readRaw_left:
  "readRaw r = (r', True) \<Longrightarrow> length (raw r) \<le> next_pos r \<Longrightarrow>
   next_pos r' < length (raw r') \<and> left_over r' < left_over r"
  by (auto simp: readRaw_def left_over_def split: prod.splits dest!: fgets_append)

lemma next_loop_decreases:
  assumes "(r1, True) = (if length (raw r) \<le> next_pos r then readRaw r else (r, True))"
    and "(a', n) = scan_raw (drop (next_pos r1) (raw r1)) a" and "st a' \<noteq> Accept"
  shows "left_over (r1\<lparr>next_pos := next_pos r1 + n\<rparr>) < left_over r"
proof -
  have n: "n = length (raw r1) - next_pos r1" using scan_raw_all [OF assms(2) [symmetric] assms(3)] by simp
  have "next_pos r1 < length (raw r1) \<and> left_over r1 \<le> left_over r"
    using assms(1) readRaw_left [of r r1] by (auto split: if_splits)
  then show ?thesis by (auto simp: left_over_def n)
qed

text \<open>
  \<open>Next\<close>: the outer loop reads a line when the last one is used up, and returns the text
  accumulated when there is none. It ends because every round uses bytes.
\<close>

function next_loop :: "acc \<Rightarrow> reader \<Rightarrow> string option \<times> reader" where
  "next_loop a r =
     (case (if length (raw r) \<le> next_pos r then readRaw r else (r, True)) of (r1, got) \<Rightarrow>
        if \<not> got then (if out a \<noteq> [] then Some (out a) else None, r1)
        else (case scan_raw (drop (next_pos r1) (raw r1)) a of (a', n) \<Rightarrow>
          (let r2 = r1\<lparr>next_pos := next_pos r1 + n\<rparr>
           in if st a' = Accept then (Some (out a'), r2) else next_loop a' r2)))"
  by pat_completeness auto

termination
  by (relation "measure (\<lambda>(a, r). left_over r)") (auto intro: next_loop_decreases)

declare next_loop.simps [simp del]

definition Next :: "reader \<Rightarrow> string option \<times> reader" where
  "Next r = next_loop fresh_acc r"

subsection \<open>The buffer does not show\<close>

definition remaining :: "reader \<Rightarrow> string" where
  "remaining r = drop (next_pos r) (raw r) @ rest_in r"

fun next_plain :: "acc \<Rightarrow> string \<Rightarrow> string option \<times> string" where
  "next_plain a [] = (if out a \<noteq> [] then Some (out a) else None, [])"
| "next_plain a (ch # bs) =
     (let a' = consume ch a
      in if st a' = Accept then (Some (out a'), bs) else next_plain a' bs)"

lemma scan_raw_plain:
  "scan_raw bs a = (a', n) \<Longrightarrow> st a \<noteq> Accept \<Longrightarrow>
   next_plain a (bs @ t) =
     (if st a' = Accept then (Some (out a'), drop n bs @ t) else next_plain a' t)"
proof (induction bs a arbitrary: a' n rule: scan_raw.induct)
  case (2 ch bs a)
  show ?case
  proof (cases "st (consume ch a) = Accept")
    case True
    then show ?thesis using "2.prems" by (auto simp: Let_def)
  next
    case False
    obtain b k where "scan_raw bs (consume ch a) = (b, k)" by (cases "scan_raw bs (consume ch a)")
    then show ?thesis using "2.prems" "2.IH" False by (auto simp: Let_def)
  qed
qed simp

lemma readRaw_remaining:
  assumes "readRaw r = (r', got)" and "length (raw r) \<le> next_pos r"
  shows "remaining r' = remaining r" and "\<not> got \<Longrightarrow> remaining r = []"
proof -
  obtain buf y where f: "fgets (rawBufSize - 1) (rest_in r) = (buf, y)"
    by (cases "fgets (rawBufSize - 1) (rest_in r)")
  have r': "r' = r\<lparr>rest_in := y, raw := buf, next_pos := 0, line_no := line_no r + 1\<rparr>"
    and g: "got = (buf \<noteq> [])" using assms(1) f by (auto simp: readRaw_def)
  show "remaining r' = remaining r"
    using fgets_append [OF f] assms(2) by (simp add: remaining_def r')
  assume "\<not> got"
  then have "fgets (Suc 1022) (rest_in r) = ([], y)" using f g by (simp add: rawBufSize_def)
  then have "rest_in r = []" using fgets_progress by blast
  then show "remaining r = []" using assms(2) by (simp add: remaining_def)
qed

lemma next_loop_plain:
  "next_loop a r = (s, r') \<Longrightarrow> st a \<noteq> Accept \<Longrightarrow> next_plain a (remaining r) = (s, remaining r')"
proof (induction a r arbitrary: s r' rule: next_loop.induct)
  case (1 a r)
  obtain r1 got where rd: "(if length (raw r) \<le> next_pos r then readRaw r else (r, True)) = (r1, got)"
    by (cases "if length (raw r) \<le> next_pos r then readRaw r else (r, True)")
  have rem: "remaining r1 = remaining r" and none: "\<not> got \<Longrightarrow> remaining r = []"
    using rd readRaw_remaining [of r r1 got] by (auto split: if_splits)
  show ?case
  proof (cases got)
    case False
    then show ?thesis
      using "1.prems" rd rem none by (subst (asm) next_loop.simps) (auto split: if_splits)
  next
    case True
    obtain a' n where sc: "scan_raw (drop (next_pos r1) (raw r1)) a = (a', n)"
      by (cases "scan_raw (drop (next_pos r1) (raw r1)) a")
    let ?r2 = "r1\<lparr>next_pos := next_pos r1 + n\<rparr>"
    have n: "n \<le> length (drop (next_pos r1) (raw r1))" by (rule scan_raw_count [OF sc])
    have r2: "remaining ?r2 = drop n (drop (next_pos r1) (raw r1)) @ rest_in r1"
      by (simp add: remaining_def add.commute)
    note plain = scan_raw_plain [OF sc "1.prems"(2), of "rest_in r1"]
    show ?thesis
    proof (cases "st a' = Accept")
      case acc: True
      have "s = Some (out a')" "r' = ?r2"
        using "1.prems" rd True sc acc
        by (subst (asm) next_loop.simps, simp add: Let_def)+
      then show ?thesis using plain acc r2 rem by (simp add: remaining_def)
    next
      case no: False
      then have "n = length (drop (next_pos r1) (raw r1))" by (rule scan_raw_all [OF sc])
      then have rr: "remaining ?r2 = rest_in r1" using r2 by simp
      have "next_loop a' ?r2 = (s, r')"
        using "1.prems" rd True sc no by (subst (asm) next_loop.simps) (simp add: Let_def)
      then have "next_plain a' (remaining ?r2) = (s, remaining r')"
        using "1.IH" [OF rd [symmetric] _ sc [symmetric]] True no by simp
      then show ?thesis using plain no rr rem by (simp add: remaining_def)
    qed
  qed
qed

lemma next_plain_shorter:
  "next_plain a s = (Some x, s') \<Longrightarrow> length s' < length s \<or> (s = [] \<and> s' = [] \<and> out a \<noteq> [])"
proof (induction a s rule: next_plain.induct)
  case (2 a ch bs)
  show ?case
  proof (cases "st (consume ch a) = Accept")
    case True
    then show ?thesis using "2.prems" by (simp add: Let_def)
  next
    case False
    then have "next_plain (consume ch a) bs = (Some x, s')" using "2.prems" by (simp add: Let_def)
    then show ?thesis using "2.IH" False by fastforce
  qed
qed (auto split: if_splits)

lemma next_plain_None: "next_plain a s = (None, t) \<Longrightarrow> t = []"
  by (induction a s rule: next_plain.induct) (auto simp: Let_def split: if_splits)

lemma fresh_next_shorter: "next_plain fresh_acc s = (Some x, s') \<Longrightarrow> length s' < length s"
  using next_plain_shorter [of fresh_acc s x s'] by (simp add: fresh_acc_def)

lemma Next_plain: "Next r = (s, r') \<Longrightarrow> next_plain fresh_acc (remaining r) = (s, remaining r')"
  unfolding Next_def by (erule next_loop_plain) (simp add: fresh_acc_def)

function statements_from :: "reader \<Rightarrow> string list" where
  "statements_from r =
     (case Next r of (None, r') \<Rightarrow> [] | (Some s, r') \<Rightarrow> s # statements_from r')"
  by pat_completeness auto
termination
  by (relation "measure (\<lambda>r. length (remaining r))")
     (auto dest!: sym [of _ "Next _"] Next_plain fresh_next_shorter)

declare statements_from.simps [simp del]

definition Statements :: "string \<Rightarrow> string list" where
  "Statements inp = statements_from (NewReader inp)"

text \<open>The statements of a text, without a buffer: the reference the reader is compared with.\<close>

function plain_statements :: "string \<Rightarrow> string list" where
  "plain_statements s =
     (case next_plain fresh_acc s of (None, t) \<Rightarrow> [] | (Some x, t) \<Rightarrow> x # plain_statements t)"
  by pat_completeness auto
termination
  by (relation "measure length") (auto dest!: sym [of _ "next_plain _ _"] fresh_next_shorter)

declare plain_statements.simps [simp del]

lemma statements_from_plain: "statements_from r = plain_statements (remaining r)"
proof (induction r rule: statements_from.induct)
  case (1 r)
  obtain s r' where n: "Next r = (s, r')" by (cases "Next r")
  then show ?case
    using 1 Next_plain [OF n]
    by (subst statements_from.simps, subst plain_statements.simps) (auto split: option.splits)
qed

subsection \<open>A group of statements\<close>

text \<open>\<open>NextCompound\<close>: a statement, or those a group in braces holds joined, with their count.\<close>

definition opens_group :: "string \<Rightarrow> nat \<Rightarrow> bool" where
  "opens_group s i \<longleftrightarrow> i = 0 \<or> (1 \<le> i \<and> s ! (i - 1) = CHR '':'') \<or> (2 \<le> i \<and> s ! (i - 2) = CHR '':'')"

definition closes_group :: "string \<Rightarrow> bool" where
  "closes_group s \<longleftrightarrow> 0 < length s \<and> s ! 0 = CHR ''}'' \<and>
     ((1 < length s \<and> s ! 1 = CHR '';'') \<or> (2 < length s \<and> s ! 2 = CHR '';''))"

function group_rest :: "string \<Rightarrow> nat \<Rightarrow> reader \<Rightarrow> string \<times> nat \<times> reader" where
  "group_rest b k r =
     (case Next r of
        (None, r') \<Rightarrow> (b, k, r')
      | (Some s, r') \<Rightarrow>
          if closes_group s then (b, k, r') else group_rest (b @ s) (k + 1) r')"
  by pat_completeness auto
termination
  by (relation "measure (\<lambda>(b, k, r). length (remaining r))")
     (auto dest!: sym [of _ "Next _"] Next_plain fresh_next_shorter)

declare group_rest.simps [simp del]

definition NextCompound :: "reader \<Rightarrow> (string \<times> nat) option \<times> reader" where
  "NextCompound r =
     (case Next r of
        (None, r') \<Rightarrow> (None, r')
      | (Some s, r') \<Rightarrow>
          (case index_of s ''{'' of
             None \<Rightarrow> (Some (s, 1), r')
           | Some i \<Rightarrow>
               if \<not> opens_group s i then (Some (s, 1), r')
               else (case group_rest (take i s @ '' '' @ drop (i + 1) s) 1 r' of
                       (b, k, r'') \<Rightarrow> (Some (b, k), r''))))"

end
