(* ===== verification/Ctl_Reader_Claims.thy ===== *)
theory Ctl_Reader_Claims
  imports Ctl_Reader
begin

text \<open>
  What the reader of \<open>.ctl\<close> files promises: the line buffer does not show in the statements,
  plain text is split at its semicolons with its white space collapsed, a comment reads as a
  space, and a quoted text is kept as it is.
\<close>

text \<open>
  C38: The statements of a file do not depend on where the 1024-byte buffer cuts its lines, nor on
  a line holding several statements: the reader returns what one pass of the state machine over
  the bare bytes gives.
\<close>

theorem statements_ignore_buffer: "Statements inp = plain_statements inp"
  by (simp add: Statements_def statements_from_plain NewReader_def remaining_def)

subsection \<open>All statements in one pass\<close>

fun collect :: "acc \<Rightarrow> string \<Rightarrow> string list" where
  "collect a [] = (if out a \<noteq> [] then [out a] else [])"
| "collect a (ch # bs) =
     (let a' = consume ch a
      in if st a' = Accept then out a' # collect fresh_acc bs else collect a' bs)"

text \<open>The statements a text completes and the accumulator it leaves.\<close>

fun scan_text :: "acc \<Rightarrow> string \<Rightarrow> string list \<times> acc" where
  "scan_text a [] = ([], a)"
| "scan_text a (ch # bs) =
     (let a' = consume ch a
      in if st a' = Accept then apfst (Cons (out a')) (scan_text fresh_acc bs) else scan_text a' bs)"

lemma plain_nothing: "plain_statements [] = []"
  by (subst plain_statements.simps) (simp add: fresh_acc_def)

lemma collect_next:
  "collect a s = (case next_plain a s of (None, t) \<Rightarrow> [] | (Some x, t) \<Rightarrow> x # collect fresh_acc t)"
proof (induction a s rule: next_plain.induct)
  case (1 a)
  show ?case by (simp add: fresh_acc_def)
next
  case (2 a ch bs)
  then show ?case by (simp add: Let_def)
qed

lemma plain_collect: "plain_statements s = collect fresh_acc s"
proof (induction s rule: plain_statements.induct)
  case (1 s)
  show ?case
    using 1 by (subst plain_statements.simps, subst collect_next) (auto split: option.splits prod.splits)
qed

lemma Statements_collect: "Statements s = collect fresh_acc s"
  by (simp add: Statements_def statements_from_plain NewReader_def remaining_def plain_collect)

lemma collect_append:
  "collect a (s @ t) = fst (scan_text a s) @ collect (snd (scan_text a s)) t"
  by (induction a s rule: scan_text.induct) (simp_all add: Let_def)

subsection \<open>Steps in the normal state\<close>

lemma classify_iff:
  "classify c = ClStar \<longleftrightarrow> c = CHR ''*''" "classify c = ClSlash \<longleftrightarrow> c = CHR ''/''"
  "classify c = ClNL \<longleftrightarrow> c = CHR 0x0A" "classify c = ClSQ \<longleftrightarrow> c = CHR 0x27"
  "classify c = ClDQ \<longleftrightarrow> c = CHR 0x22" "classify c = ClEscape \<longleftrightarrow> c = CHR 0x5C"
  by (simp_all add: classify_def)

lemma inside_rows:
  "nextState InCComment c = (if c = ClStar then OneStar else InCComment)"
  "actionTable InCComment c = Skip"
  "nextState OneStar c = (if c = ClSlash then Copy else if c = ClStar then OneStar else InCComment)"
  "actionTable OneStar c = (if c = ClSlash then InsertWS else Skip)"
  "nextState InSQLComment c = (if c = ClNL then Copy else InSQLComment)"
  "actionTable InSQLComment c = (if c = ClNL then InsertWS else Skip)"
  "nextState InDQString c = (if c = ClDQ then Copy else if c = ClEscape then InDQStringEscape
     else InDQString)"
  "actionTable InDQString c = (if c = ClEscape then Hold else CopyInput)"
  "nextState InSQString c = (if c = ClSQ then InSQStringOneSQ else if c = ClEscape
     then InSQStringEscape else InSQString)"
  "actionTable InSQString c = (if c = ClEscape then Hold else CopyInput)"
  by (cases c; simp add: nextState_def actionTable_def numeral_eq_Suc)+

lemmas consume_eval = consume_def act_def nextState_def actionTable_def Let_def

lemma consume_other:
  "st a = Copy \<Longrightarrow> classify c = ClOther \<Longrightarrow> consume c a = deposit c a"
  by (cases a) (simp add: consume_eval)

lemma consume_gap:
  "st a = Copy \<Longrightarrow> classify c \<in> {ClWS, ClNL} \<Longrightarrow> consume c a = a\<lparr>pending := True\<rparr>"
  by (cases a) (auto simp: consume_eval)

lemma deposit_st [simp]: "st (deposit c a) = st a"
  by (simp add: deposit_def)

definition blank :: "string \<Rightarrow> bool" where
  "blank g \<longleftrightarrow> (\<forall>c \<in> set g. classify c \<in> {ClWS, ClNL})"

definition wordy :: "string \<Rightarrow> bool" where
  "wordy w \<longleftrightarrow> (\<forall>c \<in> set w. classify c = ClOther)"

lemma collect_blank:
  "st a = Copy \<Longrightarrow> blank g \<Longrightarrow>
   collect a (g @ t) = collect (if g = [] then a else a\<lparr>pending := True\<rparr>) t"
proof (induction g arbitrary: a)
  case (Cons c g)
  then have "consume c a = a\<lparr>pending := True\<rparr>" by (intro consume_gap) (auto simp: blank_def)
  then show ?case using Cons.prems Cons.IH [of "a\<lparr>pending := True\<rparr>"]
    by (cases a) (simp add: blank_def Let_def)
qed simp

lemma collect_rest_of_word:
  "st a = Copy \<Longrightarrow> \<not> pending a \<Longrightarrow> wordy w \<Longrightarrow>
   collect a (w @ t) = collect (a\<lparr>out := out a @ w\<rparr>) t"
proof (induction w arbitrary: a)
  case (Cons c w)
  have c: "consume c a = a\<lparr>out := out a @ [c]\<rparr>"
    using Cons.prems by (cases a) (auto simp: consume_other wordy_def deposit_def)
  show ?case using Cons.prems Cons.IH [of "a\<lparr>out := out a @ [c]\<rparr>"] by (simp add: c wordy_def)
qed simp

lemma collect_word:
  assumes "st a = Copy" "wordy w" "w \<noteq> []"
  shows "collect a (w @ t) =
    collect (a\<lparr>out := out a @ (if pending a \<and> out a \<noteq> [] then '' '' else []) @ w,
               pending := False\<rparr>) t"
proof -
  obtain c v where w: "w = c # v" using assms(3) by (cases w) auto
  have "consume c a = deposit c a" using assms w by (intro consume_other) (auto simp: wordy_def)
  moreover have "\<not> pending (deposit c a)" by (simp add: deposit_def)
  moreover have "(deposit c a)\<lparr>out := out (deposit c a) @ v\<rparr> =
      a\<lparr>out := out a @ (if pending a \<and> out a \<noteq> [] then '' '' else []) @ w, pending := False\<rparr>"
    by (cases a) (simp add: deposit_def w)
  ultimately show ?thesis
    using assms collect_rest_of_word [of "deposit c a" v t] by (simp add: w wordy_def Let_def)
qed

lemma collect_semi:
  "st a = Copy \<Longrightarrow> \<not> pending a \<Longrightarrow> collect a ('';'' @ t) = (out a @ '';'') # collect fresh_acc t"
  by (simp add: consume_eval classify_def deposit_def)

subsection \<open>Plain text\<close>

text \<open>A plain statement as it may be written: gaps of white space before its words.\<close>

definition written :: "(string \<times> string) list \<Rightarrow> string" where
  "written ws = concat (map (\<lambda>(g, w). g @ w) ws) @ '';''"

definition plain_stmt :: "(string \<times> string) list \<Rightarrow> bool" where
  "plain_stmt ws \<longleftrightarrow> ws \<noteq> [] \<and> (\<forall>(g, w) \<in> set ws. blank g \<and> wordy w \<and> w \<noteq> []) \<and>
     (\<forall>(g, w) \<in> set (tl ws). g \<noteq> [])"

lemma collect_words:
  assumes "\<forall>(g, w) \<in> set ws. blank g \<and> wordy w \<and> w \<noteq> [] \<and> g \<noteq> []"
    and "st a = Copy" "\<not> pending a" "out a \<noteq> []"
  shows "collect a (concat (map (\<lambda>(g, w). g @ w) ws) @ t) =
    collect (a\<lparr>out := out a @ concat (map (\<lambda>(g, w). '' '' @ w) ws)\<rparr>) t"
  using assms
proof (induction ws arbitrary: a)
  case (Cons p ws)
  obtain g w where p: "p = (g, w)" by (cases p)
  let ?a = "a\<lparr>out := out a @ '' '' @ w\<rparr>"
  have w: "wordy w" "w \<noteq> []" and g: "blank g" "g \<noteq> []" using Cons.prems(1) p by auto
  have "collect a (g @ w @ concat (map (\<lambda>(g, w). g @ w) ws) @ t) =
      collect ?a (concat (map (\<lambda>(g, w). g @ w) ws) @ t)"
    using Cons.prems(2-4) g
    by (cases a) (simp add: collect_blank collect_word [OF _ w])
  then show ?case using Cons.prems Cons.IH [of ?a] by (simp add: p)
qed simp

lemma join_words:
  "w @ concat (map (\<lambda>(g, w). '' '' @ w) vs) = join_with '' '' (w # map snd vs)"
proof (induction vs arbitrary: w)
  case (Cons p vs)
  obtain g v where p: "p = (g, v)" by (cases p)
  show ?case using Cons.IH [of v] by (simp add: p)
qed simp

lemma collect_statement:
  assumes "plain_stmt ws"
  shows "collect fresh_acc (written ws @ t) =
    (join_with '' '' (map snd ws) @ '';'') # collect fresh_acc t"
proof -
  obtain g w vs where ws: "ws = (g, w) # vs" using assms by (cases ws) (auto simp: plain_stmt_def)
  have w: "wordy w" "w \<noteq> []" and g: "blank g"
    and vs: "\<forall>(g, w) \<in> set vs. blank g \<and> wordy w \<and> w \<noteq> [] \<and> g \<noteq> []"
    using assms ws by (auto simp: plain_stmt_def)
  have j: "w @ concat (map (\<lambda>(g, w). '' '' @ w) vs) = join_with '' '' (map snd ws)"
    using join_words [of w vs] by (simp add: ws)
  let ?a = "fresh_acc\<lparr>out := w\<rparr>"
  have a: "st ?a = Copy" "\<not> pending ?a" "out ?a \<noteq> []" using w by (auto simp: fresh_acc_def)
  have "collect fresh_acc (written ws @ t) =
      collect ?a (concat (map (\<lambda>(g, w). g @ w) vs) @ '';'' @ t)"
    using g by (cases "g = []")
      (simp_all add: written_def ws collect_blank collect_word [OF _ w] fresh_acc_def)
  also have "\<dots> = collect (?a\<lparr>out := join_with '' '' (map snd ws)\<rparr>) ('';'' @ t)"
    using collect_words [OF vs a, of "'';'' @ t"] j by simp
  also have "\<dots> = (join_with '' '' (map snd ws) @ '';'') # collect fresh_acc t"
    by (subst collect_semi) (simp_all add: fresh_acc_def)
  finally show ?thesis .
qed

text \<open>
  A file of plain statements, whatever white space stands between their words, lines and
  statements, reads as those statements with one space between words and their semicolons kept.
\<close>

theorem plain_text_splits:
  assumes "list_all plain_stmt sts"
  shows "Statements (concat (map written sts)) =
    map (\<lambda>ws. join_with '' '' (map snd ws) @ '';'') sts"
  using assms unfolding Statements_collect
proof (induction sts)
  case Nil
  show ?case by (simp add: fresh_acc_def)
next
  case (Cons ws sts)
  then show ?case by (simp add: collect_statement)
qed

theorem plain_text_splits_witness:
  "Statements (concat (map written [[([], ''a''), (CHR 0x0A # '' '', ''b'')], [('' '', ''c'')]])) =
    map (\<lambda>ws. join_with '' '' (map snd ws) @ '';'')
      [[([], ''a''), (CHR 0x0A # '' '', ''b'')], [('' '', ''c'')]]"
  by (rule plain_text_splits) (simp add: plain_stmt_def blank_def wordy_def classify_def)

subsection \<open>Comments\<close>

text \<open>Two accumulators that differ in a held byte nothing will read.\<close>

definition alike :: "acc \<Rightarrow> acc \<Rightarrow> bool" where
  "alike a b \<longleftrightarrow> out a = out b \<and> st a = st b \<and> pending a = pending b \<and>
     (st a \<in> {OneSlash, OneDash, InDQStringEscape, InSQStringEscape} \<longrightarrow> hold_byte a = hold_byte b)"

lemma alike_consume: "alike a b \<Longrightarrow> alike (consume c a) (consume c b)"
  by (cases "st b"; cases "classify c")
     (auto simp: alike_def consume_eval deposit_def numeral_eq_Suc)

lemma alike_collect: "alike a b \<Longrightarrow> collect a s = collect b s"
proof (induction s arbitrary: a b)
  case Nil
  then show ?case by (simp add: alike_def)
next
  case (Cons c s)
  have "alike (consume c a) (consume c b)" using Cons.prems by (rule alike_consume)
  then show ?case using Cons.IH [of "consume c a" "consume c b"] by (simp add: Let_def alike_def)
qed

lemma in_c_comment:
  assumes "st a = InCComment \<or> st a = OneStar \<and> (c = [] \<or> hd c \<noteq> CHR ''/'')"
    and "\<not> sublist ''*/'' c"
  shows "collect a (c @ ''*/'' @ t) = collect (a\<lparr>st := Copy, pending := True\<rparr>) t"
  using assms
proof (induction c arbitrary: a)
  case Nil
  then show ?case by (auto simp: consume_eval classify_def)
next
  case (Cons x c)
  have ns: "\<not> sublist ''*/'' c" using Cons.prems(2) by (simp add: sublist_Cons_right)
  let ?s = "if x = CHR ''*'' then OneStar else InCComment"
  have "x \<noteq> CHR ''/'' \<or> st a = InCComment" using Cons.prems(1) by auto
  then have x: "consume x a = a\<lparr>st := ?s\<rparr>"
    using Cons.prems(1)
    by (cases a) (auto simp: consume_def Let_def inside_rows classify_iff act_def)
  have hd: "x = CHR ''*'' \<Longrightarrow> c = [] \<or> hd c \<noteq> CHR ''/''"
    using Cons.prems(2) by (cases c) (auto simp: sublist_Cons_right)
  have "collect (a\<lparr>st := ?s\<rparr>) (c @ ''*/'' @ t) = collect (a\<lparr>st := Copy, pending := True\<rparr>) t"
    using Cons.IH [of "a\<lparr>st := ?s\<rparr>"] hd ns by (cases "x = CHR ''*''") simp_all
  moreover have "st (consume x a) \<noteq> Accept" by (simp add: x)
  ultimately show ?case unfolding x [symmetric] by (simp add: Let_def)
qed

lemma in_sql_comment:
  assumes "st a = InSQLComment" "CHR 0x0A \<notin> set c"
  shows "collect a (c @ [CHR 0x0A] @ t) = collect (a\<lparr>st := Copy, pending := True\<rparr>) t"
  using assms
proof (induction c arbitrary: a)
  case Nil
  then show ?case by (simp add: consume_eval classify_def)
next
  case (Cons x c)
  have "consume x a = a"
    using Cons.prems by (cases a) (auto simp: consume_def Let_def inside_rows classify_iff act_def)
  then show ?case using Cons by simp
qed

lemma space_consume: "st a = Copy \<Longrightarrow> collect a ('' '' @ t) = collect (a\<lparr>pending := True\<rparr>) t"
  by (simp add: consume_gap classify_def)

text \<open>
  A comment in either style reads as one space wherever the reader is outside strings and
  comments, and what the comment holds (semicolons, quotes, dashes) does not matter.
\<close>

theorem comment_reads_as_space:
  assumes "st (snd (scan_text fresh_acc pre)) = Copy"
    and "\<not> sublist ''*/'' c" and "CHR 0x0A \<notin> set d"
  shows "Statements (pre @ ''/*'' @ c @ ''*/'' @ post) = Statements (pre @ '' '' @ post) \<and>
    Statements (pre @ ''--'' @ d @ [CHR 0x0A] @ post) = Statements (pre @ '' '' @ post)"
proof (intro conjI)
  obtain b p h where a: "snd (scan_text fresh_acc pre) =
      \<lparr>out = b, st = Copy, pending = p, hold_byte = h\<rparr>"
    using assms(1) by (cases "snd (scan_text fresh_acc pre)") simp
  define inside where "inside s k = \<lparr>out = b, st = s, pending = p, hold_byte = k\<rparr>" for s k
  define quit where "quit = collect \<lparr>out = b, st = Copy, pending = True, hold_byte = h\<rparr> post"
  have d: "collect ((inside s k)\<lparr>st := Copy, pending := True\<rparr>) post = quit" for s k
    unfolding quit_def by (rule alike_collect) (simp add: alike_def inside_def)
  have sp: "collect (snd (scan_text fresh_acc pre)) ('' '' @ post) = quit"
    using space_consume [of "snd (scan_text fresh_acc pre)" post] by (simp add: a quit_def)
  have "collect (snd (scan_text fresh_acc pre)) (''/*'' @ c @ ''*/'' @ post) =
      collect (inside InCComment (CHR ''/'')) (c @ ''*/'' @ post)"
    by (simp add: a inside_def consume_eval classify_def)
  also have "\<dots> = quit" using in_c_comment [of "inside InCComment (CHR ''/'')" c post] assms(2) d
    by (simp add: inside_def)
  finally show "Statements (pre @ ''/*'' @ c @ ''*/'' @ post) = Statements (pre @ '' '' @ post)"
    unfolding Statements_collect collect_append [of _ pre] sp by simp
  have "collect (snd (scan_text fresh_acc pre)) (''--'' @ d @ [CHR 0x0A] @ post) =
      collect (inside InSQLComment (CHR ''-'')) (d @ [CHR 0x0A] @ post)"
    by (simp add: a inside_def consume_eval classify_def)
  also have "\<dots> = quit"
    using in_sql_comment [of "inside InSQLComment (CHR ''-'')" d post] assms(3) d
    by (simp add: inside_def)
  finally show "Statements (pre @ ''--'' @ d @ [CHR 0x0A] @ post) = Statements (pre @ '' '' @ post)"
    unfolding Statements_collect collect_append [of _ pre] sp by simp
qed

theorem comment_reads_as_space_witness:
  "Statements (''a;b'' @ ''/*'' @ ''; *'' @ ''*/'' @ ''c;'') = Statements (''a;b'' @ '' '' @ ''c;'')"
  by (rule comment_reads_as_space [of _ _ "[]", THEN conjunct1])
    (simp_all add: fresh_acc_def consume_eval classify_def deposit_def sublist_Cons_right)

subsection \<open>Quoted text\<close>

lemma in_quotes:
  assumes "st a = (if q = CHR 0x27 then InSQString else InDQString)" and "q \<in> {CHR 0x27, CHR 0x22}"
    and "q \<notin> set s" and "CHR 0x5C \<notin> set s" and "\<not> pending a"
  shows "collect a (s @ q # '';'' @ t) = (out a @ s @ q # '';'') # collect fresh_acc t"
  using assms
proof (induction s arbitrary: a)
  case Nil
  then show ?case
    by (cases a; cases "q = CHR 0x27")
      (simp_all add: consume_def Let_def inside_rows classify_iff act_def deposit_def
        nextState_def actionTable_def classify_def)
next
  case (Cons x s)
  have x: "consume x a = a\<lparr>out := out a @ [x]\<rparr>"
    using Cons.prems
    by (cases a) (auto simp: consume_def Let_def inside_rows classify_iff act_def deposit_def)
  have "st (a\<lparr>out := out a @ [x]\<rparr>) \<noteq> Accept" using Cons.prems(1) by simp
  then show ?case using Cons.prems Cons.IH [of "a\<lparr>out := out a @ [x]\<rparr>"] by (simp add: x)
qed

text \<open>
  Inside quotes nothing splits a statement and nothing is collapsed: a statement of a word and
  a quoted text comes out byte for byte, semicolons, comment marks and runs of spaces included.
\<close>

theorem quoted_text_is_kept:
  assumes "wordy w" and "w \<noteq> []" and "q \<in> {CHR 0x27, CHR 0x22}"
    and "q \<notin> set s" and "CHR 0x5C \<notin> set s"
  shows "Statements (w @ q # s @ q # '';'' @ rest) = (w @ q # s @ q # '';'') # Statements rest"
proof -
  let ?a = "fresh_acc\<lparr>out := w\<rparr>"
  let ?b = "?a\<lparr>out := w @ [q], st := (if q = CHR 0x27 then InSQString else InDQString)\<rparr>"
  have "collect fresh_acc (w @ q # s @ q # '';'' @ rest) = collect ?a (q # s @ q # '';'' @ rest)"
    by (subst collect_word [OF _ assms(1,2)]) (simp_all add: fresh_acc_def)
  also have "consume q ?a = ?b"
    using assms(3) by (auto simp: consume_eval classify_def deposit_def fresh_acc_def)
  then have "collect ?a (q # s @ q # '';'' @ rest) = collect ?b (s @ q # '';'' @ rest)" by simp
  also have "\<dots> = ((w @ [q]) @ s @ q # '';'') # collect fresh_acc rest"
    using in_quotes [of ?b q s rest] assms(3-5) by (simp add: fresh_acc_def)
  finally show ?thesis by (simp add: Statements_collect)
qed

theorem quoted_text_is_kept_witness:
  "Statements (''v'' @ CHR 0x27 # ''a;  --b'' @ CHR 0x27 # '';'' @ ''w;'') =
     (''v'' @ CHR 0x27 # ''a;  --b'' @ CHR 0x27 # '';'') # Statements ''w;''"
  by (rule quoted_text_is_kept) (simp_all add: wordy_def classify_def)

end
