(* ===== verification/Ctl_Command.thy ===== *)
theory Ctl_Command
  imports Ctl_Reader Decimal
begin

text \<open>
  What a statement of a \<open>.ctl\<close> file asks for (\<open>internal/ctl/command.go\<close>): a line for a client,
  one of the master's waits and pauses, or a command it refuses. Letter case is folded for the
  comparison only; the folding is the ASCII one.
\<close>

datatype kind = ToClient | Setup | WaitReady | WaitBlocked | WaitUnblocked | Sleep
  | DeadlockPause | Retired | Unknown

record command =
  c_kind :: kind
  c_client :: int
  c_text :: string
  c_name :: string
  c_sleep :: int

definition cmd :: "kind \<Rightarrow> command" where
  "cmd k = \<lparr>c_kind = k, c_client = 0, c_text = [], c_name = [], c_sleep = 0\<rparr>"

definition retired :: "string list" where
  "retired = [''wait for'', ''reconnect'', ''rendezvous with'', ''execute'', ''allocate client'', ''no-op'']"

definition white :: "char list" where
  "white = [CHR '' '', CHR 0x09, CHR 0x0A, CHR 0x0D, CHR 0x0C, CHR 0x0B]"

definition skipWhite :: "string \<Rightarrow> string" where
  "skipWhite s = trim_left_of white s"

definition firstInt :: "string \<Rightarrow> int option" where
  "firstInt s = (if lead_digits s = [] then None else atoi (lead_digits s))"

definition toClient :: "string \<Rightarrow> command" where
  "toClient s =
     (let plain = (cmd ToClient)\<lparr>c_client := 1, c_text := s\<rparr> in
      case s of
        c # t \<Rightarrow>
          (if (c = CHR ''C'' \<or> c = CHR ''c'') \<and> lead_digits t \<noteq> [] then
             (case after_digits t of
                x # u \<Rightarrow>
                  (if x = CHR '':'' then
                     (case atoi (lead_digits t) of
                        Some n \<Rightarrow> (if 0 < n then (cmd ToClient)\<lparr>c_client := n, c_text := skipWhite u\<rparr>
                                   else plain)
                      | None \<Rightarrow> plain)
                   else plain)
              | [] \<Rightarrow> plain)
           else plain)
      | [] \<Rightarrow> plain)"

definition waitCommand :: "string \<Rightarrow> command" where
  "waitCommand rest =
     (case firstInt rest of
        None \<Rightarrow> (cmd Unknown)\<lparr>c_name := ''wait until c'' @ rest\<rparr>
      | Some n \<Rightarrow>
          (let rest' = after_digits rest; low = to_lower (skipWhite rest')
           in if has_prefix low ''blocked;'' then (cmd WaitBlocked)\<lparr>c_client := n\<rparr>
              else if has_prefix low ''unblocked;'' then (cmd WaitUnblocked)\<lparr>c_client := n\<rparr>
              else if has_prefix low ''ready;'' then (cmd WaitReady)\<lparr>c_client := n\<rparr>
              else if has_prefix low ''finished;''
                then (cmd Retired)\<lparr>c_name := ''wait until c<n> finished''\<rparr>
              else (cmd Unknown)\<lparr>c_name := ''wait until c'' @ rest'\<rparr>))"

definition Classify :: "string \<Rightarrow> command" where
  "Classify stmt =
     (let s = skipWhite stmt in
      if \<not> has_prefix (to_lower s) ''mc:'' then toClient s
      else (let body = skipWhite (drop 3 s); low = to_lower body in
        if has_prefix low ''setup'' then cmd Setup
        else if has_prefix low ''pause for deadlock resolution;'' then cmd DeadlockPause
        else if has_prefix low ''wait until c'' then waitCommand (drop (length ''wait until c'') body)
        else if has_prefix low ''sleep'' then
          (case firstInt (skipWhite (drop (length ''sleep'') body)) of
             None \<Rightarrow> (cmd Unknown)\<lparr>c_name := body\<rparr>
           | Some n \<Rightarrow> (cmd Sleep)\<lparr>c_sleep := n\<rparr>)
        else (case find (\<lambda>r. has_prefix low r) retired of
                Some r \<Rightarrow> (cmd Retired)\<lparr>c_name := r\<rparr>
              | None \<Rightarrow> (cmd Unknown)\<lparr>c_name := body\<rparr>)))"

definition NumClients :: "string \<Rightarrow> int" where
  "NumClients stmt =
     (case index_of (to_lower stmt) ''num_clients = '' of
        None \<Rightarrow> 1
      | Some i \<Rightarrow>
          (case firstInt (skipWhite (drop (i + length ''num_clients = '') stmt)) of
             Some n \<Rightarrow> n
           | None \<Rightarrow> 1))"

subsection \<open>Reading what was written\<close>

lemma to_lower_append: "to_lower (a @ b) = to_lower a @ to_lower b"
  by (simp add: to_lower_def)

lemma to_lower_length [simp]: "length (to_lower s) = length s"
  by (simp add: to_lower_def)

lemma drop_to_lower: "drop n (to_lower s) = to_lower (drop n s)"
  by (simp add: to_lower_def drop_map)

lemma char_nat_lower:
  "char_nat (lower_char c) =
     (if 65 \<le> char_nat c \<and> char_nat c \<le> 90 then char_nat c + 32 else char_nat c)"
  unfolding lower_char_def by (simp add: char_nat_def)

lemma lower_digit: "lower_char c = d \<Longrightarrow> is_digit d \<longleftrightarrow> is_digit c"
  using char_nat_lower [of c] by (auto simp: is_digit_def split: if_splits)

lemma lower_digit_same: "is_digit c \<Longrightarrow> lower_char c = c"
  by (simp add: lower_char_def is_digit_def)

lemma takeWhile_map_same:
  "(\<And>x. P (f x) = P x) \<Longrightarrow> (\<And>x. P x \<Longrightarrow> f x = x) \<Longrightarrow> takeWhile P (map f s) = takeWhile P s"
  by (induction s) auto

lemma lead_digits_lower: "lead_digits (to_lower s) = lead_digits s"
  unfolding lead_digits_def to_lower_def
  by (rule takeWhile_map_same) (auto simp: lower_digit_same lower_digit [OF refl])

lemma after_digits_lower: "after_digits (to_lower s) = to_lower (after_digits s)"
  unfolding after_digits_def to_lower_def
  by (induction s) (auto simp: lower_digit [OF refl])

lemma white_nat: "c \<in> set white \<longleftrightarrow> char_nat c \<in> {9, 10, 11, 12, 13, 32}"
proof -
  have "c \<in> set white \<longleftrightarrow> char_nat c \<in> char_nat ` set white"
    by (auto simp: char_nat_def)
  also have "char_nat ` set white = {9, 10, 11, 12, 13, 32}" by (auto simp: white_def char_nat_def)
  finally show ?thesis .
qed

lemma lower_white: "lower_char c \<in> set white \<longleftrightarrow> c \<in> set white"
  by (auto simp: white_nat char_nat_lower split: if_splits)

lemma skipWhite_lower: "skipWhite (to_lower s) = to_lower (skipWhite s)"
  unfolding skipWhite_def trim_left_of_def to_lower_def
  by (induction s) (auto simp: lower_white)

lemma firstInt_digits:
  "0 \<le> n \<Longrightarrow> in_int n \<Longrightarrow> rest = [] \<or> \<not> is_digit (hd rest) \<Longrightarrow>
   firstInt (itoa n @ rest) = Some n \<and> after_digits (itoa n @ rest) = rest"
  using lead_digits_append [of "itoa n" rest] atoi_itoa [of n]
  by (simp add: firstInt_def itoa_def nat_digits_digits)

lemma firstInt_lower: "firstInt (to_lower s) = firstInt s"
  by (simp add: firstInt_def lead_digits_lower)

lemma skipWhite_stop: "s = [] \<or> hd s \<notin> set white \<Longrightarrow> skipWhite s = s"
  by (cases s) (auto simp: skipWhite_def trim_left_of_def)

lemma skipWhite_idem [simp]: "skipWhite (skipWhite s) = skipWhite s"
  by (induction s) (auto simp: skipWhite_def trim_left_of_def)

text \<open>The three waits and what each is written as.\<close>

fun wait_word :: "kind \<Rightarrow> string" where
  "wait_word WaitReady = ''ready;''"
| "wait_word WaitBlocked = ''blocked;''"
| "wait_word WaitUnblocked = ''unblocked;''"
| "wait_word _ = []"

lemma waitCommand_reads:
  assumes "k \<in> {WaitReady, WaitBlocked, WaitUnblocked}" and "0 \<le> n" and "in_int n"
    and "to_lower rest = itoa n @ '' '' @ wait_word k"
  shows "waitCommand rest = (cmd k)\<lparr>c_client := n\<rparr>"
proof -
  have f: "firstInt rest = Some n"
    using firstInt_digits [of n "'' '' @ wait_word k"] assms firstInt_lower [of rest]
    by (simp add: is_digit_def char_nat_def)
  have "to_lower (after_digits rest) = '' '' @ wait_word k"
    using firstInt_digits [of n "'' '' @ wait_word k"] assms after_digits_lower [of rest]
    by (simp add: is_digit_def char_nat_def)
  then have l: "to_lower (skipWhite (after_digits rest)) = skipWhite ('' '' @ wait_word k)"
    using skipWhite_lower [of "after_digits rest"] by simp
  have "skipWhite ('' '' @ wait_word k) = wait_word k"
    using assms(1) by (auto simp: skipWhite_def trim_left_of_def white_def)
  then show ?thesis
    using f l assms(1) by (auto simp: waitCommand_def)
qed

text \<open>
  A wait of a case is understood whatever its letter case: a text that lowercases to
  \<open>mc: wait until c\<close>, a client's number and one of ready, blocked and unblocked asks for that
  wait on that client.
\<close>

theorem wait_is_understood:
  assumes "k \<in> {WaitReady, WaitBlocked, WaitUnblocked}" and "0 \<le> n" and "in_int n"
    and "to_lower stmt = ''mc: wait until c'' @ itoa n @ '' '' @ wait_word k"
  shows "Classify stmt = (cmd k)\<lparr>c_client := n\<rparr>"
proof -
  have s: "to_lower (skipWhite stmt) = to_lower stmt"
    using skipWhite_lower [of stmt] skipWhite_stop [of "to_lower stmt"] assms(4)
    by (simp add: white_def)
  have "to_lower (drop 3 (skipWhite stmt)) = '' wait until c'' @ itoa n @ '' '' @ wait_word k"
    using s assms(4) drop_to_lower [of 3 "skipWhite stmt"] by simp
  then have body: "to_lower (skipWhite (drop 3 (skipWhite stmt))) =
      ''wait until c'' @ itoa n @ '' '' @ wait_word k"
    using skipWhite_lower [of "drop 3 (skipWhite stmt)"]
    by (simp add: skipWhite_def trim_left_of_def white_def)
  then have "to_lower (drop (length ''wait until c'') (skipWhite (drop 3 (skipWhite stmt)))) =
      itoa n @ '' '' @ wait_word k"
    using drop_to_lower [of "length ''wait until c''" "skipWhite (drop 3 (skipWhite stmt))"] by simp
  from waitCommand_reads [OF assms(1-3) this] show ?thesis
    using s assms(4) body by (simp add: Classify_def Let_def)
qed

theorem wait_is_understood_witness:
  "Classify ''MC: Wait Until C12 Blocked;'' = (cmd WaitBlocked)\<lparr>c_client := 12\<rparr>"
  by (rule wait_is_understood)
    (simp_all add: in_int_def int_lo_def int_hi_def to_lower_def lower_char_def char_nat_def
      itoa_def nat_digits.simps digit_char_def char_of_def bit_0)

text \<open>
  A statement that names a client by number and colon goes to that client without the name;
  every other statement that is not the master's goes to client 1 as it is, among them one whose
  number is zero or does not fit an int.
\<close>

theorem statements_are_routed:
  assumes "\<not> has_prefix (to_lower (skipWhite stmt)) ''mc:''"
  shows "c_kind (Classify stmt) = ToClient \<and> 1 \<le> c_client (Classify stmt) \<and>
    (\<forall>c n t. skipWhite stmt = c # itoa n @ '':'' @ t \<longrightarrow> c \<in> {CHR ''C'', CHR ''c''} \<longrightarrow>
       1 \<le> n \<longrightarrow> in_int n \<longrightarrow> c_client (Classify stmt) = n \<and> c_text (Classify stmt) = skipWhite t) \<and>
    (c_text (Classify stmt) \<noteq> skipWhite stmt \<longrightarrow>
       (\<exists>c ds t n. skipWhite stmt = c # ds @ '':'' @ t \<and> c \<in> {CHR ''C'', CHR ''c''} \<and>
          all_digits ds \<and> atoi ds = Some n \<and> c_client (Classify stmt) = n \<and>
          c_text (Classify stmt) = skipWhite t))"
proof -
  have cl: "Classify stmt = toClient (skipWhite stmt)" using assms by (simp add: Classify_def)
  have named: "c_client (toClient s) = n \<and> c_text (toClient s) = skipWhite t"
    if "s = c # itoa n @ '':'' @ t" "c \<in> {CHR ''C'', CHR ''c''}" "1 \<le> n" "in_int n" for s c n t
  proof -
    have "all_digits (itoa n)" using that(3) by (simp add: itoa_def nat_digits_digits)
    then have "lead_digits (itoa n @ '':'' @ t) = itoa n" "after_digits (itoa n @ '':'' @ t) = '':'' @ t"
      using lead_digits_append [of "itoa n" "'':'' @ t"] by (auto simp: is_digit_def char_nat_def)
    then show ?thesis using that atoi_itoa [of n] by (auto simp: toClient_def)
  qed
  have kind: "c_kind (toClient s) = ToClient \<and> 1 \<le> c_client (toClient s)" for s
    by (simp add: toClient_def cmd_def Let_def split: list.split option.split)
  have origin: "\<exists>c ds t n. s = c # ds @ '':'' @ t \<and> c \<in> {CHR ''C'', CHR ''c''} \<and> all_digits ds \<and>
      atoi ds = Some n \<and> c_client (toClient s) = n \<and> c_text (toClient s) = skipWhite t"
    if ne: "c_text (toClient s) \<noteq> s" for s
  proof -
    obtain c u where s: "s = c # u" and c: "c = CHR ''C'' \<or> c = CHR ''c''"
      and ld: "lead_digits u \<noteq> []"
      using ne by (auto simp: toClient_def Let_def split: list.splits if_splits)
    obtain x t where a: "after_digits u = x # t" and x: "x = CHR '':''"
      using ne s c ld by (auto simp: toClient_def Let_def split: list.splits if_splits)
    obtain n where n: "atoi (lead_digits u) = Some n" and pos: "0 < n"
      using ne s c ld a x by (auto simp: toClient_def Let_def split: option.splits if_splits)
    have "u = lead_digits u @ '':'' @ t"
      using a x takeWhile_dropWhile_id [of is_digit u]
      by (simp add: lead_digits_def after_digits_def)
    moreover have "all_digits (lead_digits u)"
      using ld by (auto simp: all_digits_def lead_digits_def list_all_iff dest: set_takeWhileD)
    moreover have "c_client (toClient s) = n" "c_text (toClient s) = skipWhite t"
      using s c ld a x n pos by (simp_all add: toClient_def)
    ultimately show ?thesis using s c n by blast
  qed
  show ?thesis unfolding cl using kind named origin by blast
qed

theorem statements_are_routed_witness:
  "c_client (Classify ''C2: insert;'') = 2 \<and> c_text (Classify ''C2: insert;'') = ''insert;''"
proof -
  have "skipWhite ''C2: insert;'' = CHR ''C'' # itoa 2 @ '':'' @ '' insert;''"
    by (simp add: skipWhite_def trim_left_of_def white_def itoa_def nat_digits.simps
        digit_char_def char_of_def bit_0)
  note sk = this
  have "\<not> has_prefix (to_lower (skipWhite ''C2: insert;'')) ''mc:''"
    by (simp add: skipWhite_def trim_left_of_def white_def to_lower_def lower_char_def
        char_nat_def char_of_def bit_0)
  from statements_are_routed [OF this, THEN conjunct2, THEN conjunct2, THEN conjunct1,
      rule_format, OF sk]
  show ?thesis
    by (simp add: in_int_def int_lo_def int_hi_def skipWhite_def trim_left_of_def white_def)
qed

end
