(* ===== verification/Ctl_Client.thy ===== *)
theory Ctl_Client
  imports Ctl_Command
begin

text \<open>
  One client of the controller (\<open>internal/ctl/client.go\<close>): what it still owes, what is printed
  of what it says, and how a statement is sent. A read of its pipe is an argument, as many bytes
  as the read returned and none at its end. The process behind it is not modelled.
\<close>

datatype client_state = Running | Ready | Finished

record client =
  id_of :: int
  tranIndex :: int
  owes :: int
  cstate :: client_state

definition startClient :: "int \<Rightarrow> client" where
  "startClient i = \<lparr>id_of = i, tranIndex = -1, owes = 1, cstate = Running\<rparr>"

definition nl :: string where
  "nl = [CHR 0x0A]"

definition send :: "string \<Rightarrow> nat \<Rightarrow> client \<Rightarrow> client \<times> string" where
  "send stmt substatements c =
     (c\<lparr>owes := int substatements, cstate := Running\<rparr>,
      ''MC to C'' @ itoa (id_of c) @ '': '' @ stmt @ nl)"

fun wrap_tail :: "string \<Rightarrow> string" where
  "wrap_tail [] = nl"
| "wrap_tail (b # bs) = b # (if b = CHR 0x0A \<and> bs \<noteq> [] then ''| '' @ wrap_tail bs else wrap_tail bs)"

definition wrap :: "string \<Rightarrow> string" where
  "wrap chunk = ''| '' @ wrap_tail chunk"

definition leadingInt :: "string \<Rightarrow> int" where
  "leadingInt b =
     (let ds = lead_digits (skipWhite b)
      in if ds = [] then 0 else (case atoi ds of Some n \<Rightarrow> n | None \<Rightarrow> 0))"

definition baseName :: "string \<Rightarrow> string" where
  "baseName p = (case last_index_of p ''/'' of Some i \<Rightarrow> drop (i + 1) p | None \<Rightarrow> p)"

text \<open>How often a text stands in another, each time looking on after the last one found.\<close>

function occurrences :: "string \<Rightarrow> string \<Rightarrow> nat" where
  "occurrences p s =
     (if p = [] then 0
      else case index_of s p of
        None \<Rightarrow> 0
      | Some j \<Rightarrow> Suc (occurrences p (drop (j + length p) s)))"
  by pat_completeness auto
termination
proof (relation "measure (\<lambda>(p, s). length s)", simp)
  fix p s :: string and j
  assume "p \<noteq> []" "index_of s p = Some j"
  then obtain a b where "s = a @ p @ b" "length a = j" using index_of_Some by blast
  with \<open>p \<noteq> []\<close> show "((p, drop (j + length p) s), p, s) \<in> measure (\<lambda>(p, s). length s)" by simp
qed

declare occurrences.simps [simp del]

definition marker :: string where
  "marker = '') is ready.''"

fun answered :: "nat \<Rightarrow> client \<Rightarrow> client" where
  "answered 0 c = c"
| "answered (Suc n) c =
     (let c' = c\<lparr>owes := owes c - 1\<rparr>
      in answered n (if owes c' = 0 then c'\<lparr>cstate := Ready\<rparr> else c'))"

definition until_nul :: "string \<Rightarrow> string" where
  "until_nul s = takeWhile (\<lambda>b. b \<noteq> CHR 0x00) s"

definition chunk_markers :: "string \<Rightarrow> nat" where
  "chunk_markers bytes = occurrences marker (wrap (until_nul bytes))"

text \<open>\<open>readOutput\<close> after a read of at least one byte: the client after it and what is printed.\<close>

definition readOutput :: "string \<Rightarrow> client \<Rightarrow> client \<times> string" where
  "readOutput bytes c =
     (let chunk = until_nul bytes;
          c1 = (case index_of chunk ''Transaction index = '' of
                  Some i \<Rightarrow> c\<lparr>tranIndex := leadingInt (drop (i + length ''Transaction index = '') chunk)\<rparr>
                | None \<Rightarrow> c);
          warning = (if tranIndex c1 = -1
                     then ''WARNING: Client '' @ itoa (id_of c1) @
                       '' has an invalid Transaction index'' @ nl @ '' '' @ itoa (tranIndex c1) @ nl
                     else []);
          header = ''C'' @ itoa (id_of c1) @ '' output (Transaction index = '' @ itoa (tranIndex c1) @
            ''):'' @ nl;
          wrapped = wrap chunk
      in (answered (occurrences marker wrapped) c1, warning @ header @ wrapped))"

definition readError :: "string \<Rightarrow> client \<Rightarrow> string" where
  "readError bytes c =
     nl @ ''Client C'' @ itoa (id_of c) @ '' (with tran_index '' @ itoa (tranIndex c) @
       '') send on the STDERR:'' @ nl @ until_nul bytes"

text \<open>\<open>close\<close>: the process id when the process has to be killed is an argument.\<close>

definition close_client :: "int option \<Rightarrow> client \<Rightarrow> client \<times> string" where
  "close_client killed c =
     (if cstate c = Finished then (c, [])
      else (c\<lparr>cstate := Finished\<rparr>,
            case killed of
              Some pid \<Rightarrow> ''STATUS: forcefully killing pid '' @ itoa pid @ nl
            | None \<Rightarrow> []))"

subsection \<open>What a client owes\<close>

definition owing :: "client \<Rightarrow> bool" where
  "owing c \<longleftrightarrow> (cstate c = Running \<longrightarrow> 1 \<le> owes c) \<and> (cstate c = Ready \<longrightarrow> owes c \<le> 0)"

lemma answered_frame [simp]:
  "id_of (answered n c) = id_of c" "tranIndex (answered n c) = tranIndex c"
  by (induction n c rule: answered.induct) (simp_all add: Let_def)

lemma answered_owes: "owes (answered n c) = owes c - int n"
  by (induction n c rule: answered.induct) (simp_all add: Let_def)

lemma answered_state:
  "cstate (answered n c) = (if 1 \<le> owes c \<and> owes c \<le> int n then Ready else cstate c)"
  by (induction n c rule: answered.induct) (auto simp: Let_def)

lemma answered_owing: "cstate c \<noteq> Finished \<Longrightarrow> owing c \<Longrightarrow> owing (answered n c)"
  by (cases "cstate c") (auto simp: owing_def answered_state answered_owes)

lemma startClient_owing: "owing (startClient i)"
  by (simp add: owing_def startClient_def)

lemma send_owing: "1 \<le> k \<Longrightarrow> owing (fst (send stmt k c))"
  by (simp add: owing_def send_def)

lemma close_owing: "owing (fst (close_client k c))"
  by (simp add: owing_def close_client_def)

lemma readOutput_owes: "owes (fst (readOutput bytes c)) = owes c - int (chunk_markers bytes)"
  by (simp add: readOutput_def Let_def answered_owes chunk_markers_def split: option.split)

lemma readOutput_id: "id_of (fst (readOutput bytes c)) = id_of c"
  by (simp add: readOutput_def Let_def split: option.split)

lemma readOutput_state:
  "cstate (fst (readOutput bytes c)) =
     (if 1 \<le> owes c \<and> owes c \<le> int (chunk_markers bytes) then Ready else cstate c)"
  by (auto simp: readOutput_def Let_def answered_state chunk_markers_def split: option.split)

lemma readOutput_owing:
  "cstate c \<noteq> Finished \<Longrightarrow> owing c \<Longrightarrow> owing (fst (readOutput bytes c))"
  by (cases "cstate c") (auto simp: owing_def readOutput_state readOutput_owes)

subsection \<open>Unwrapping\<close>

fun unwrap_tail :: "string \<Rightarrow> string" where
  "unwrap_tail [] = []"
| "unwrap_tail [b] = []"
| "unwrap_tail (b # bs) =
     b # (if b = CHR 0x0A \<and> length bs \<noteq> 1 then unwrap_tail (drop 2 bs) else unwrap_tail bs)"

definition unwrap :: "string \<Rightarrow> string" where
  "unwrap s = unwrap_tail (drop 2 s)"

lemma wrap_tail_length: "length (wrap_tail s) = 1 \<longleftrightarrow> s = []"
  by (cases s) (auto simp: nl_def, cases "tl s", auto simp: nl_def)

lemma wrap_tail_not_Nil [simp]: "wrap_tail s \<noteq> []"
  by (cases s) (auto simp: nl_def)

lemma unwrap_wrap_tail: "unwrap_tail (wrap_tail s) = s"
proof (induction s)
  case Nil
  show ?case by (simp add: nl_def)
next
  case (Cons b bs)
  obtain x xs where w: "wrap_tail bs = x # xs" by (cases "wrap_tail bs") auto
  show ?case
  proof (cases "b = CHR 0x0A \<and> bs \<noteq> []")
    case True
    then show ?thesis using Cons.IH by simp
  next
    case False
    then have "\<not> (b = CHR 0x0A \<and> length (x # xs) \<noteq> 1)"
      using wrap_tail_length [of bs] w by auto
    then show ?thesis using Cons.IH w False by (cases xs) (auto simp: nl_def split: if_splits)
  qed
qed

text \<open>
  Nothing a client says is lost or mixed up in the result file: what is printed of a chunk
  determines the chunk.
\<close>

theorem wrap_keeps_chunk: "unwrap (wrap chunk) = chunk"
  by (simp add: unwrap_def wrap_def unwrap_wrap_tail)

end
