(* ===== verification/Ctl_Controller.thy ===== *)
theory Ctl_Controller
  imports Ctl_Client
begin

text \<open>
  The controller of an isolation case (\<open>internal/ctl/controller.go\<close> and the questions of
  \<open>probe.go\<close>). What the kernel, the client processes and the lock probe do is an environment:
  the record \<open>env\<close> holds the answers to the questions asked, in order, and \<open>events\<close> what each
  \<open>select\<close> returns and how long it took, in nanoseconds; a run that outlives its events is
  \<open>None\<close>, still going. The timeout handed to \<open>select\<close> only bounds that time and is left out, so
  \<open>serviceUntil\<close> has no \<open>asking\<close>. \<open>trace\<close> records the statements written to clients and the
  readiness markers read from them; the program keeps no such record.
\<close>

datatype heard = Interrupted | Quiet "int list" | Said "int \<Rightarrow> string option \<times> string option"

datatype mark = Sent int nat | Reported int nat

record env =
  e_blocked :: "nat \<Rightarrow> int \<Rightarrow> bool"
  e_pipe :: "nat \<Rightarrow> string option"
  e_kill :: "int \<Rightarrow> int option"
  e_locks :: string

record run =
  clients :: "client list"
  outs :: string
  errs :: string
  clock :: int
  events :: "(int \<times> heard) list"
  questions :: nat
  writes :: nat
  trace :: "mark list"

definition say :: "string \<Rightarrow> run \<Rightarrow> run" where
  "say t s = s\<lparr>outs := outs s @ t\<rparr>"

definition complain :: "string \<Rightarrow> run \<Rightarrow> run" where
  "complain t s = s\<lparr>errs := errs s @ t\<rparr>"

definition second :: int where "second = 1000000000"
definition shortDuration :: int where "shortDuration = 100 * second"
definition longDuration :: int where "longDuration = 300 * second"
definition deadlockPause :: nat where "deadlockPause = 3"
definition serviceQuiet :: int where "serviceQuiet = 500000"

text \<open>A product of Go's \<open>int\<close> and of a duration keeps its lowest 64 bits; a negative time is no sleep.\<close>

definition int64 :: "int \<Rightarrow> int" where
  "int64 n = (n + 2 ^ 63) mod 2 ^ 64 - 2 ^ 63"

definition sleepms :: "int \<Rightarrow> run \<Rightarrow> run" where
  "sleepms ms s = s\<lparr>clock := clock s + max 0 (int64 (ms * 1000000))\<rparr>"

definition put_client :: "nat \<Rightarrow> client \<Rightarrow> run \<Rightarrow> run" where
  "put_client i c s = s\<lparr>clients := (clients s)[i := c]\<rparr>"

definition closing :: "env \<Rightarrow> nat \<Rightarrow> run \<Rightarrow> run" where
  "closing E i s =
     (let c = clients s ! i in
      case close_client (e_kill E (id_of c)) c of (c', t) \<Rightarrow> complain t (put_client i c' s))"

subsection \<open>One select\<close>

text \<open>The turn of one client whose descriptors select reported; an empty read is the end.\<close>

definition hear_output :: "env \<Rightarrow> nat \<Rightarrow> string \<Rightarrow> run \<Rightarrow> run" where
  "hear_output E i bytes s =
     (let c = clients s ! i in
      case readOutput bytes c of (c', t) \<Rightarrow>
        (say t (put_client i c' s))\<lparr>trace := trace s @ [Reported (id_of c) (chunk_markers bytes)]\<rparr>)"

definition hear_error :: "nat \<Rightarrow> string option \<Rightarrow> run \<Rightarrow> run" where
  "hear_error i e s =
     (case e of
        None \<Rightarrow> s
      | Some bytes \<Rightarrow> if bytes = [] then s else complain (readError bytes (clients s ! i)) s)"

definition hear :: "env \<Rightarrow> (int \<Rightarrow> string option \<times> string option) \<Rightarrow> nat \<Rightarrow> run \<Rightarrow> run" where
  "hear E f i s =
     (let c = clients s ! i in
      if cstate c = Finished then s
      else (case f (id_of c) of
        (Some bytes, e) \<Rightarrow> if bytes = [] then closing E i s else hear_error i e (hear_output E i bytes s)
      | (None, e) \<Rightarrow> hear_error i e s))"

definition reap :: "int list \<Rightarrow> run \<Rightarrow> run" where
  "reap ids s = s\<lparr>clients := map (\<lambda>c. if cstate c \<noteq> Finished \<and> id_of c \<in> set ids
                                   then c\<lparr>cstate := Finished\<rparr> else c) (clients s)\<rparr>"

definition alive :: "run \<Rightarrow> bool" where
  "alive s \<longleftrightarrow> list_ex (\<lambda>c. cstate c \<noteq> Finished) (clients s)"

definition selectOnce :: "env \<Rightarrow> int \<times> heard \<Rightarrow> run \<Rightarrow> bool \<times> run" where
  "selectOnce E ev s =
     (case ev of (took, h) \<Rightarrow>
       let s = s\<lparr>clock := clock s + max 0 took\<rparr> in
       if \<not> alive s then (False, s)
       else (case h of
           Interrupted \<Rightarrow> (True, s)
         | Quiet ids \<Rightarrow> (False, reap ids s)
         | Said f \<Rightarrow> (True, fold (hear E f) [0..<length (clients s)] s)))"

subsection \<open>Waiting\<close>

type_synonym question = "run \<Rightarrow> bool \<times> run"

fun pursue :: "env \<Rightarrow> question \<Rightarrow> int \<Rightarrow> bool \<Rightarrow> (int \<times> heard) list \<Rightarrow> run \<Rightarrow> (bool \<times> run) option" where
  "pursue E done' dl quiet evs s =
     (case done' s of
        (True, s1) \<Rightarrow> Some (True, s1\<lparr>events := evs\<rparr>)
      | (False, s1) \<Rightarrow>
          if dl \<le> clock s1
          then (case done' s1 of (b, s2) \<Rightarrow> Some (b, s2\<lparr>events := evs\<rparr>))
          else (case evs of
              [] \<Rightarrow> None
            | ev # evs' \<Rightarrow>
                (case selectOnce E ev s1 of (got, s2) \<Rightarrow>
                   if quiet \<and> \<not> got then Some (False, s2\<lparr>events := evs'\<rparr>)
                   else pursue E done' dl quiet evs' s2)))"

declare pursue.simps [simp del]

definition serviceUntil :: "env \<Rightarrow> question \<Rightarrow> int \<Rightarrow> run \<Rightarrow> (bool \<times> run) option" where
  "serviceUntil E done' limit s =
     pursue E done' (clock s + limit) (limit = serviceQuiet) (events s) s"

definition service :: "env \<Rightarrow> run \<Rightarrow> (bool \<times> run) option" where
  "service E s = serviceUntil E (\<lambda>s. (False, s)) serviceQuiet s"

text \<open>\<open>probe.blocked\<close>: no question is asked about a client that has not connected.\<close>

definition ask_blocked :: "env \<Rightarrow> nat \<Rightarrow> question" where
  "ask_blocked E i s =
     (let t = tranIndex (clients s ! i) in
      if t < 0 then (False, s) else (e_blocked E (questions s) t, s\<lparr>questions := questions s + 1\<rparr>))"

definition is_done :: "nat \<Rightarrow> question" where
  "is_done i s = (cstate (clients s ! i) = Ready \<or> cstate (clients s ! i) = Finished, s)"

definition is_gone :: "nat \<Rightarrow> question" where
  "is_gone i s = (cstate (clients s ! i) = Finished, s)"

definition is_blocked :: "env \<Rightarrow> nat \<Rightarrow> question" where
  "is_blocked E i s = (if cstate (clients s ! i) = Finished then (True, s) else ask_blocked E i s)"

definition is_free :: "env \<Rightarrow> nat \<Rightarrow> question" where
  "is_free E i s =
     (if cstate (clients s ! i) = Finished then (True, s) else apfst Not (ask_blocked E i s))"

definition client_at :: "int \<Rightarrow> string \<Rightarrow> run \<Rightarrow> nat option \<times> run" where
  "client_at n stmt s =
     (if n < 1 \<or> int (length (clients s)) < n
      then (None, say (''ERROR! client identifier ('' @ itoa n @ '') out of range.'' @ nl @
                       ''=> '' @ stmt @ ''.'' @ nl) s)
      else (Some (nat n - 1), s))"

definition notResponding :: "nat \<Rightarrow> run \<Rightarrow> run" where
  "notResponding i s =
     say (''ERROR! Client '' @ itoa (id_of (clients s ! i)) @ '' is not responding.'' @ nl) s"

text \<open>A write to a client's standard input, which may find the pipe broken.\<close>

definition write_pipe :: "env \<Rightarrow> run \<Rightarrow> string option \<times> run" where
  "write_pipe E s = (e_pipe E (writes s), s\<lparr>writes := writes s + 1\<rparr>)"

definition send_to :: "env \<Rightarrow> nat \<Rightarrow> string \<Rightarrow> nat \<Rightarrow> run \<Rightarrow> string option \<times> run" where
  "send_to E i stmt k s =
     (case send stmt k (clients s ! i) of (c, t) \<Rightarrow>
        (case write_pipe E ((put_client i c s)\<lparr>trace := trace s @ [Sent (id_of c) k]\<rparr>) of
           (Some err, s1) \<Rightarrow> (Some err, s1)
         | (None, s1) \<Rightarrow>
             (case write_pipe E s1 of
                (Some err, s2) \<Rightarrow> (Some err, s2)
              | (None, s2) \<Rightarrow> (None, say t s2))))"

definition run_toClient :: "env \<Rightarrow> command \<Rightarrow> nat \<Rightarrow> run \<Rightarrow> (bool \<times> run) option" where
  "run_toClient E c k s =
     (case client_at (c_client c) (c_text c) s of
        (None, s1) \<Rightarrow> Some (False, s1)
      | (Some i, s1) \<Rightarrow>
          if cstate (clients s1 ! i) = Finished then Some (True, s1)
          else (case serviceUntil E (is_done i) longDuration s1 of
              None \<Rightarrow> None
            | Some (False, s2) \<Rightarrow> Some (False, notResponding i s2)
            | Some (True, s2) \<Rightarrow>
                if cstate (clients s2 ! i) \<noteq> Ready then Some (False, notResponding i s2)
                else (case send_to E i (c_text c) k s2 of
                    (Some err, s3) \<Rightarrow> Some (False, say (''ERROR! Detected broken pipe for client '' @
                        itoa (id_of (clients s3 ! i)) @ ''.'' @ nl @ ''Code: '' @ err @ nl) s3)
                  | (None, s3) \<Rightarrow> Some (True, s3))))"

subsection \<open>The three waits\<close>

definition long_seconds :: string where "long_seconds = itoa (longDuration div second)"
definition short_seconds :: string where "short_seconds = itoa (shortDuration div second)"

text \<open>\<open>all_blocked\<close>: it stops at the first live client that is not waiting on a lock.\<close>

fun allBlocked_from :: "env \<Rightarrow> nat list \<Rightarrow> nat \<Rightarrow> run \<Rightarrow> bool \<times> run" where
  "allBlocked_from E [] live s = (0 < live, s)"
| "allBlocked_from E (i # is) live s =
     (if cstate (clients s ! i) = Finished then allBlocked_from E is live s
      else (case ask_blocked E i s of
          (False, s1) \<Rightarrow> (False, s1)
        | (True, s1) \<Rightarrow> allBlocked_from E is (live + 1) s1))"

definition allBlocked :: "env \<Rightarrow> run \<Rightarrow> bool \<times> run" where
  "allBlocked E s = allBlocked_from E [0..<length (clients s)] 0 s"

definition waitReady :: "env \<Rightarrow> nat \<Rightarrow> string \<Rightarrow> run \<Rightarrow> (bool \<times> run) option" where
  "waitReady E i stmt s =
     (case serviceUntil E (is_done i) shortDuration s of
        None \<Rightarrow> None
      | Some (True, s1) \<Rightarrow> Some (True, s1)
      | Some (False, s1) \<Rightarrow>
          (case allBlocked E s1 of
             (True, s2) \<Rightarrow> Some (False, say (''ERROR! All clients are blocked.'' @ nl @
                 ''Check the script for unintentional deadlock situation.'' @ nl @
                 ''If the script is correct then check for possible deadlock bug.'' @ nl @
                 ''=> '' @ stmt @ ''.'' @ nl) s2)
           | (False, s2) \<Rightarrow>
               (case serviceUntil E (is_done i) longDuration
                       (say (''WARNING! Client '' @ itoa (id_of (clients s2 ! i)) @
                         '' was not ready after waiting '' @ short_seconds @ '' seconds.'' @ nl @
                         ''=> '' @ stmt @ ''.'' @ nl) s2) of
                  None \<Rightarrow> None
                | Some (True, s3) \<Rightarrow> Some (True, s3)
                | Some (False, s3) \<Rightarrow> Some (False,
                    say (''ERROR! Client was not ready after waiting '' @ long_seconds @
                      '' more seconds.'' @ nl @
                      ''Verify client needs more time to finish processing.'' @ nl @
                      ''If client finished processing then check qacsql for problems.'' @ nl @
                      ''=> '' @ stmt @ ''.'' @ nl) s3))))"

definition waitBlocked :: "env \<Rightarrow> nat \<Rightarrow> string \<Rightarrow> run \<Rightarrow> (bool \<times> run) option" where
  "waitBlocked E i stmt s =
     (case serviceUntil E (is_blocked E i) shortDuration s of
        None \<Rightarrow> None
      | Some (True, s1) \<Rightarrow> Some (True, s1)
      | Some (False, s1) \<Rightarrow>
          (let name = itoa (id_of (clients s1 ! i)) in
           if cstate (clients s1 ! i) = Ready
           then Some (False, say (''ERROR! Client '' @ name @ '' is ready.'' @ nl @
               '' Check the script for errors.'' @ nl @
               ''If the script is correct then check qacsql by testing manually.'' @ nl @
               ''=> '' @ stmt @ ''.'' @ nl) s1)
           else (case serviceUntil E (is_blocked E i) longDuration
                       (say (''WARNING! Client '' @ name @ '' was not blocked after waiting '' @
                         short_seconds @ '' seconds.'' @ nl @ '' => '' @ stmt @ ''.'' @ nl) s1) of
               None \<Rightarrow> None
             | Some (True, s2) \<Rightarrow> Some (True, s2)
             | Some (False, s2) \<Rightarrow> Some (False,
                 say (''ERROR! Client '' @ name @ '' was not blocked after waiting '' @ long_seconds @
                   '' more seconds.'' @ nl @
                   '' Verify client needs more time to finish processing.'' @ nl @
                   ''If client finished processing then check qacsql for problems.'' @ nl @
                   ''=> '' @ stmt @ ''.'' @ nl) s2))))"

definition waitUnblocked :: "env \<Rightarrow> nat \<Rightarrow> string \<Rightarrow> run \<Rightarrow> (bool \<times> run) option" where
  "waitUnblocked E i stmt s =
     (case serviceUntil E (is_free E i) shortDuration s of
        None \<Rightarrow> None
      | Some (True, s1) \<Rightarrow> Some (True, s1)
      | Some (False, s1) \<Rightarrow>
          (let name = itoa (id_of (clients s1 ! i)) in
           case serviceUntil E (is_free E i) longDuration
                  (say (''WARNING! Client '' @ name @ '' blocked after waiting '' @ short_seconds @
                    '' seconds.'' @ nl @ ''=> '' @ stmt @ ''.'' @ nl) s1) of
             None \<Rightarrow> None
           | Some (True, s2) \<Rightarrow> Some (True, s2)
           | Some (False, s2) \<Rightarrow> Some (False,
               say (''ERROR! Client '' @ name @ '' remains blocked after waiting '' @ long_seconds @
                 '' more seconds.'' @ nl @ ''=> '' @ stmt @ ''.'' @ nl) s2)))"

subsection \<open>The end of the input\<close>

fun endOfInput_from :: "env \<Rightarrow> nat list \<Rightarrow> run \<Rightarrow> (int \<times> run) option" where
  "endOfInput_from E [] s = Some (0, s)"
| "endOfInput_from E (i # is) s =
     (if cstate (clients s ! i) = Finished then endOfInput_from E is s
      else (case (if cstate (clients s ! i) = Ready then write_pipe E s else (None, s)) of
          (Some err, s1) \<Rightarrow>
            endOfInput_from E is (closing E i (say (''ERROR! Detected broken pipe for client '' @
              itoa (id_of (clients s1 ! i)) @ ''.'' @ nl) s1))
        | (None, s1) \<Rightarrow>
            (case serviceUntil E (is_gone i) longDuration s1 of
               None \<Rightarrow> None
             | Some (False, s2) \<Rightarrow> Some (1, notResponding i s2)
             | Some (True, s2) \<Rightarrow> endOfInput_from E is s2)))"

definition endOfInput :: "env \<Rightarrow> run \<Rightarrow> (int \<times> run) option" where
  "endOfInput E s = endOfInput_from E [0..<length (clients s)] s"

definition waitFailed :: "env \<Rightarrow> run \<Rightarrow> int \<times> run" where
  "waitFailed E s = (1, say (e_locks E) s)"

definition killAll :: "env \<Rightarrow> run \<Rightarrow> run" where
  "killAll E s = fold (closing E) [0..<length (clients s)] s"

subsection \<open>The statement loop\<close>

datatype outcome = Goes run | Stops int run

fun pause_for :: "env \<Rightarrow> nat \<Rightarrow> run \<Rightarrow> run option" where
  "pause_for E 0 s = Some s"
| "pause_for E (Suc n) s =
     (case service E s of None \<Rightarrow> None | Some (_, s1) \<Rightarrow> pause_for E n (sleepms 1000 s1))"

definition wait_on :: "env \<Rightarrow> (nat \<Rightarrow> string \<Rightarrow> run \<Rightarrow> (bool \<times> run) option) \<Rightarrow> int \<Rightarrow> string \<Rightarrow> run \<Rightarrow>
    outcome option" where
  "wait_on E w n stmt s =
     (case client_at n stmt s of
        (None, s1) \<Rightarrow> (case waitFailed E s1 of (x, s2) \<Rightarrow> Some (Stops x s2))
      | (Some i, s1) \<Rightarrow>
          (case w i stmt s1 of
             None \<Rightarrow> None
           | Some (True, s2) \<Rightarrow> Some (Goes s2)
           | Some (False, s2) \<Rightarrow> (case waitFailed E s2 of (x, s3) \<Rightarrow> Some (Stops x s3))))"

definition execute :: "env \<Rightarrow> nat \<Rightarrow> string \<Rightarrow> nat \<Rightarrow> run \<Rightarrow> outcome option" where
  "execute E line stmt k s0 =
     (let c = Classify stmt;
          s = (if c_kind c = ToClient then s0
               else complain (''QACTL '' @ itoa 0 @ '' line: '' @ itoa (int line) @
                 '' statement: ('' @ stmt @ '')'' @ nl) s0)
      in case c_kind c of
        Setup \<Rightarrow> Some (Goes s)
      | ToClient \<Rightarrow>
          (case run_toClient E c k s of
             None \<Rightarrow> None
           | Some (True, s1) \<Rightarrow> Some (Goes s1)
           | Some (False, s1) \<Rightarrow> Some (Stops 1 s1))
      | WaitReady \<Rightarrow> wait_on E (waitReady E) (c_client c) stmt s
      | WaitBlocked \<Rightarrow> wait_on E (waitBlocked E) (c_client c) stmt s
      | WaitUnblocked \<Rightarrow> wait_on E (waitUnblocked E) (c_client c) stmt s
      | Sleep \<Rightarrow> Some (Goes (sleepms (int64 (c_sleep c * 1000)) s))
      | DeadlockPause \<Rightarrow> map_option Goes (pause_for E deadlockPause s)
      | Retired \<Rightarrow> Some (Stops 1 (say
          (''ERROR! '' @ [CHR 0x22] @ c_name c @ [CHR 0x22] @
           '' is a command of ctltool's qactl that this controller does not'' @ nl @
           ''  implement: no case in the corpus uses it (ADR-019). Unset'' @ nl @
           ''  TESTKIT_ISOLATION_CTL to run this case with qactl instead.'' @ nl @
           ''  Unable to process the statement on line '' @ itoa (int line) @ '': '' @ stmt @ nl) s))
      | Unknown \<Rightarrow> Some (Stops 1 (say
          (''Master controller syntax error. Try one of the following:'' @ nl @
           ''  WAIT UNTIL Cx {READY|BLOCKED|UNBLOCKED}, SLEEP x, PAUSE FOR DEADLOCK.'' @ nl @
           ''  Unable to process the statement on line '' @ itoa (int line) @ '': '' @ stmt @ nl) s)))"

lemma group_rest_remaining:
  "group_rest b k r = (b', k', r') \<Longrightarrow> length (remaining r') \<le> length (remaining r) \<and> k \<le> k'"
proof (induction b k r arbitrary: b' k' r' rule: group_rest.induct)
  case (1 b k r)
  obtain s r1 where n: "Next r = (s, r1)" by (cases "Next r")
  note rem = Next_plain [OF n]
  show ?case
  proof (cases s)
    case None
    then have "remaining r1 = []" using rem
      by (metis next_plain_None)
    then show ?thesis using 1 n None by (subst (asm) group_rest.simps) simp
  next
    case (Some x)
    have lt: "length (remaining r1) < length (remaining r)"
      using rem Some fresh_next_shorter by simp
    show ?thesis
    proof (cases "closes_group x")
      case True
      then show ?thesis using "1.prems" n Some lt by (subst (asm) group_rest.simps) simp
    next
      case False
      then have "group_rest (b @ x) (k + 1) r1 = (b', k', r')"
        using "1.prems" n Some by (subst (asm) group_rest.simps) simp
      then show ?thesis using "1.IH" [OF n [symmetric] Some False] lt by simp
    qed
  qed
qed

lemma NextCompound_shorter:
  assumes "NextCompound r = (Some (s, k), r')"
  shows "length (remaining r') < length (remaining r) \<and> 1 \<le> k"
proof -
  obtain x r1 where n: "Next r = (Some x, r1)"
    using assms by (auto simp: NextCompound_def split: prod.splits option.splits)
  have lt: "length (remaining r1) < length (remaining r)"
    using Next_plain [OF n] fresh_next_shorter by simp
  show ?thesis
    using assms n lt group_rest_remaining
    by (fastforce simp: NextCompound_def split: option.splits if_splits prod.splits)
qed

function loop :: "env \<Rightarrow> reader \<Rightarrow> run \<Rightarrow> (int \<times> run) option" where
  "loop E rd s =
     (case NextCompound rd of
        (None, rd') \<Rightarrow> endOfInput E s
      | (Some (stmt, k), rd') \<Rightarrow>
          (let w = skipWhite stmt in
           if w = [] then loop E rd' (say (''Got an empty statement.'' @ nl) s)
           else (case execute E (Lines rd') w k s of
               None \<Rightarrow> None
             | Some (Goes s') \<Rightarrow> loop E rd' s'
             | Some (Stops x s') \<Rightarrow> Some (x, s'))))"
  by pat_completeness auto
termination
  by (relation "measure (\<lambda>(E, rd, s). length (remaining rd))")
     (auto dest!: sym [of _ "NextCompound _"] NextCompound_shorter)

declare loop.simps [simp del]

subsection \<open>A case\<close>

text \<open>
  \<open>Run\<close>: starting the probe, opening the file and starting a client may each fail, with the
  error's text. The deferred calls kill the clients that are left.
\<close>

fun start_all :: "(int \<Rightarrow> string option) \<Rightarrow> int \<Rightarrow> int list \<Rightarrow> run \<Rightarrow> bool \<times> run" where
  "start_all fails n [] s = (True, s)"
| "start_all fails n (i # is) s =
     (case fails i of
        Some err \<Rightarrow> (False, complain (''ERROR: Failed to create all '' @ itoa n @
          '' clients, client '' @ itoa i @ '' failed: '' @ err @ nl) s)
      | None \<Rightarrow> start_all fails n is (s\<lparr>clients := clients s @ [startClient i]\<rparr>))"

fun init_all :: "env \<Rightarrow> nat list \<Rightarrow> run \<Rightarrow> (bool \<times> run) option" where
  "init_all E [] s = Some (True, s)"
| "init_all E (i # is) s =
     (case waitReady E i ''client_init: Initial Client readiness test'' s of
        None \<Rightarrow> None
      | Some (False, s1) \<Rightarrow> Some (False, s1)
      | Some (True, s1) \<Rightarrow> init_all E is s1)"

definition boot :: "(int \<times> heard) list \<Rightarrow> run" where
  "boot evs = \<lparr>clients = [], outs = [], errs = [], clock = 0, events = evs, questions = 0,
     writes = 0, trace = []\<rparr>"

definition clients_wanted :: "string \<Rightarrow> int" where
  "clients_wanted text =
     (case fst (Next (NewReader text)) of None \<Rightarrow> 1 | Some first \<Rightarrow> NumClients first)"

definition setup_line :: "int \<Rightarrow> string" where
  "setup_line n = ''INFO! Setting up '' @ itoa n @ '' clients.'' @ nl"

definition run_case :: "env \<Rightarrow> string \<Rightarrow> (int \<Rightarrow> string option) \<Rightarrow> run \<Rightarrow> (int \<times> run) option" where
  "run_case E text start_fails s =
     (let n = clients_wanted text in
      if n < 1 then Some (1, complain (''ERROR: Could not read number of clients'' @ nl) s)
      else (case start_all start_fails n [1..n] (say (setup_line n) s) of
          (False, s1) \<Rightarrow> Some (1, killAll E s1)
        | (True, s1) \<Rightarrow>
            (case init_all E [0..<length (clients s1)] s1 of
               None \<Rightarrow> None
             | Some (False, s2) \<Rightarrow> Some (1, killAll E s2)
             | Some (True, s2) \<Rightarrow> map_option (apsnd (killAll E)) (loop E (NewReader text) s2))))"

definition Run ::
  "env \<Rightarrow> string option \<Rightarrow> string \<Rightarrow> string + string \<Rightarrow> (int \<Rightarrow> string option) \<Rightarrow>
   (int \<times> heard) list \<Rightarrow> (int \<times> run) option" where
  "Run E probe_fails path file start_fails evs =
     (let s = say (''MC: Attempting to restart master client.'' @ nl) (boot evs) in
      case probe_fails of
        Some err \<Rightarrow> Some (1, complain (''ERROR! attempting to restart the database:'' @ nl @ '' '' @
                      err @ nl) s)
      | None \<Rightarrow>
          (case file of
             Inl err \<Rightarrow> Some (1, say (''unable to open input file: '' @ path @ '', '' @ err @ nl) s)
           | Inr text \<Rightarrow> run_case E text start_fails s))"

end
