(* ===== verification/Ctl_Controller_Claims.thy ===== *)
theory Ctl_Controller_Claims
  imports Ctl_Controller
begin

text \<open>
  What the controller promises of every run, whatever the clients and the server do: it never
  talks over a client, a wait that fails has lasted, a wait that succeeds is true, and it exits
  with 0 only when every client has left.
\<close>

subsection \<open>What every step keeps\<close>

definition owed_step :: "int \<Rightarrow> int \<Rightarrow> mark \<Rightarrow> int" where
  "owed_step i d m =
     (case m of Sent j k \<Rightarrow> if j = i then int k else d
              | Reported j n \<Rightarrow> if j = i then d - int n else d)"

text \<open>The markers client \<open>i\<close> still owes after a trace; the readiness test is owed at the start.\<close>

definition debt :: "int \<Rightarrow> mark list \<Rightarrow> int" where
  "debt i tr = foldl (owed_step i) 1 tr"

definition polite :: "mark list \<Rightarrow> bool" where
  "polite tr \<longleftrightarrow>
     list_all (\<lambda>n. case tr ! n of Sent i k \<Rightarrow> debt i (take n tr) \<le> 0 | Reported i k \<Rightarrow> True)
       [0..<length tr]"

lemma debt_Nil [simp]: "debt i [] = 1"
  by (simp add: debt_def)

lemma debt_snoc [simp]: "debt i (tr @ [m]) = owed_step i (debt i tr) m"
  by (simp add: debt_def)

lemma polite_snoc:
  "polite (tr @ [m]) \<longleftrightarrow>
     polite tr \<and> (case m of Sent i k \<Rightarrow> debt i tr \<le> 0 | Reported i k \<Rightarrow> True)"
proof -
  have "list_all (\<lambda>n. case (tr @ [m]) ! n of
          Sent i k \<Rightarrow> debt i (take n (tr @ [m])) \<le> 0 | Reported i k \<Rightarrow> True) [0..<length tr]
      \<longleftrightarrow> polite tr"
    unfolding polite_def list_all_iff
    by (intro ball_cong) (auto simp: nth_append split: mark.split)
  note e = this [unfolded polite_def]
  show ?thesis by (simp add: polite_def e split: mark.split)
qed

definition tidy :: "run \<Rightarrow> bool" where
  "tidy s \<longleftrightarrow>
     (\<forall>i < length (clients s). id_of (clients s ! i) = int i + 1 \<and> owing (clients s ! i) \<and>
        (cstate (clients s ! i) \<noteq> Finished \<longrightarrow>
           owes (clients s ! i) = debt (int i + 1) (trace s))) \<and> polite (trace s)"

definition keeps :: "run \<Rightarrow> run \<Rightarrow> bool" where
  "keeps s s' \<longleftrightarrow>
     length (clients s') = length (clients s) \<and> clock s \<le> clock s' \<and> (tidy s \<longrightarrow> tidy s') \<and>
     (\<forall>i < length (clients s). cstate (clients s ! i) = Finished \<longrightarrow> cstate (clients s' ! i) = Finished)"

lemma keeps_refl [intro, simp]: "keeps s s"
  by (simp add: keeps_def)

lemma keeps_trans: "keeps s t \<Longrightarrow> keeps t u \<Longrightarrow> keeps s u"
  by (auto simp: keeps_def)

lemma keeps_same:
  "clients s' = clients s \<Longrightarrow> clock s \<le> clock s' \<Longrightarrow> trace s' = trace s \<Longrightarrow> keeps s s'"
  by (simp add: keeps_def tidy_def)

lemma keeps_say [simp]: "keeps s (say t s)"
  by (rule keeps_same) (simp_all add: say_def)

lemma keeps_complain [simp]: "keeps s (complain t s)"
  by (rule keeps_same) (simp_all add: complain_def)

lemma keeps_sleep [simp]: "keeps s (sleepms ms s)"
  by (rule keeps_same) (simp_all add: sleepms_def)

lemma keeps_events [simp]: "keeps s (s\<lparr>events := e\<rparr>)"
  by (rule keeps_same) simp_all

lemma keeps_notResponding [simp]: "keeps s (notResponding i s)"
  by (simp add: notResponding_def)

lemma keeps_length: "keeps s s' \<Longrightarrow> length (clients s') = length (clients s)"
  by (simp add: keeps_def)

lemma keeps_closing:
  assumes i: "i < length (clients s)"
  shows "keeps s (closing E i s)"
proof -
  let ?c = "clients s ! i"
  let ?c' = "fst (close_client (e_kill E (id_of ?c)) ?c)"
  have c: "id_of (fst (close_client k ?c)) = id_of ?c" "cstate (fst (close_client k ?c)) = Finished"
    for k by (simp_all add: close_client_def)
  have "keeps s (put_client i ?c' s)"
    using i by (auto simp: keeps_def put_client_def tidy_def close_owing c nth_list_update)
  then show ?thesis
    by (auto simp: closing_def Let_def intro: keeps_trans split: prod.split)
qed

lemma keeps_output:
  assumes "i < length (clients s)" and "cstate (clients s ! i) \<noteq> Finished"
  shows "keeps s (hear_output E i bytes s)"
proof -
  let ?c = "clients s ! i"
  let ?n = "chunk_markers bytes" and ?c' = "fst (readOutput bytes ?c)"
  let ?s = "(put_client i ?c' s)\<lparr>trace := trace s @ [Reported (id_of ?c) ?n]\<rparr>"
  have "tidy ?s" if t: "tidy s"
  proof -
    have c: "id_of ?c = int i + 1" "owing ?c" "owes ?c = debt (int i + 1) (trace s)"
      using t assms by (auto simp: tidy_def)
    have "owing ?c'" "id_of ?c' = int i + 1" "owes ?c' = debt (int i + 1) (trace s) - int ?n"
      using c assms(2) by (simp_all add: readOutput_owing readOutput_id readOutput_owes)
    then show ?thesis using t c(1)
      by (auto simp: tidy_def put_client_def nth_list_update polite_snoc owed_step_def)
  qed
  then have k: "keeps s ?s"
    using assms by (auto simp: keeps_def put_client_def nth_list_update)
  have "hear_output E i bytes s = ?s\<lparr>outs := outs s @ snd (readOutput bytes ?c)\<rparr>"
    by (simp add: hear_output_def Let_def say_def put_client_def split: prod.split)
  moreover have "keeps ?s (?s\<lparr>outs := outs s @ snd (readOutput bytes ?c)\<rparr>)"
    by (rule keeps_same) simp_all
  ultimately show ?thesis using k keeps_trans by metis
qed

lemma keeps_error: "keeps s (hear_error i e s)"
  by (simp add: hear_error_def split: option.split)

lemma keeps_hear:
  assumes i: "i < length (clients s)"
  shows "keeps s (hear E f i s)"
proof -
  have "keeps s (hear_error i e (hear_output E i bytes s))" if "cstate (clients s ! i) \<noteq> Finished"
    for e bytes by (rule keeps_trans [OF keeps_output [OF i that] keeps_error])
  then show ?thesis using keeps_closing [OF i] keeps_error
    by (auto simp: hear_def Let_def split: prod.split option.split)
qed

lemma keeps_fold:
  assumes "\<And>i s. i \<in> set is \<Longrightarrow> length (clients s) = n \<Longrightarrow> keeps s (g i s)"
    and "length (clients s) = n"
  shows "keeps s (fold g is s)"
  using assms
proof (induction "is" arbitrary: s)
  case (Cons i "is")
  have "keeps s (g i s)" using Cons.prems by simp
  moreover from this have "keeps (g i s) (fold g is (g i s))"
    using Cons.prems by (intro Cons.IH) (auto simp: keeps_length)
  ultimately show ?case using keeps_trans by simp
qed simp

lemma keeps_reap: "keeps s (reap ids s)"
  by (auto simp: keeps_def reap_def tidy_def owing_def)

lemma keeps_select: "selectOnce E ev s = (b, s') \<Longrightarrow> keeps s s'"
proof -
  obtain took h where ev: "ev = (took, h)" by (cases ev)
  let ?s = "s\<lparr>clock := clock s + max 0 took\<rparr>"
  have 0: "keeps s ?s" by (rule keeps_same) simp_all
  have 1: "keeps ?s (fold (hear E f) [0..<length (clients s)] ?s)" for f
    by (rule keeps_fold [where n = "length (clients s)"]) (auto intro: keeps_hear)
  assume "selectOnce E ev s = (b, s')"
  then show ?thesis
    using 0 1 keeps_reap keeps_trans [OF 0]
    by (auto simp: selectOnce_def ev Let_def split: if_splits heard.splits)
qed

definition tame :: "question \<Rightarrow> bool" where
  "tame q \<longleftrightarrow> (\<forall>s. clients (snd (q s)) = clients s \<and> clock (snd (q s)) = clock s \<and>
                 trace (snd (q s)) = trace s)"

lemma tame_keeps: "tame q \<Longrightarrow> q s = (b, s') \<Longrightarrow> keeps s s'"
  by (rule keeps_same) (metis order_refl snd_conv tame_def)+

lemma tame_clock: "tame q \<Longrightarrow> q s = (b, s') \<Longrightarrow> clock s' = clock s \<and> clients s' = clients s"
  by (metis snd_conv tame_def)

lemma tame_questions [simp]:
  "tame (is_done i)" "tame (is_gone i)" "tame (is_blocked E i)" "tame (is_free E i)"
  "tame (\<lambda>s. (False, s))"
  by (auto simp: tame_def is_done_def is_gone_def is_blocked_def is_free_def ask_blocked_def Let_def)

text \<open>A wait keeps the run in order, and when it is not a plain service it fails only at its end.\<close>

lemma keeps_then_events: "keeps s t \<Longrightarrow> keeps s (t\<lparr>events := e\<rparr>)"
  by (rule keeps_trans [OF _ keeps_events])

lemma pursue_keeps:
  assumes "tame q"
  shows "pursue E q dl quiet evs s = Some (b, s') \<Longrightarrow>
    keeps s s' \<and> (\<not> b \<longrightarrow> \<not> quiet \<longrightarrow> dl \<le> clock s') \<and>
    (b \<longrightarrow> (\<exists>s1 s2. q s1 = (True, s2) \<and> s' = s2\<lparr>events := events s'\<rparr>))"
proof (induction evs arbitrary: s)
  case (Cons ev evs)
  note IH = Cons.IH and run = Cons.prems
  obtain c s1 where q: "q s = (c, s1)" by (cases "q s")
  obtain d s2 where q1: "q s1 = (d, s2)" by (cases "q s1")
  obtain got s3 where sel: "selectOnce E ev s1 = (got, s3)" by (cases "selectOnce E ev s1")
  have k1: "keeps s s1" by (rule tame_keeps [OF assms q])
  have k2: "keeps s s2" by (rule keeps_trans [OF k1 tame_keeps [OF assms q1]])
  have k3: "keeps s s3" by (rule keeps_trans [OF k1 keeps_select [OF sel]])
  have cl: "clock s2 = clock s1" using tame_clock [OF assms q1] by simp
  consider "c" | "\<not> c" "dl \<le> clock s1" | "\<not> c" "\<not> dl \<le> clock s1" "quiet" "\<not> got"
    | "\<not> c" "\<not> dl \<le> clock s1" "\<not> (quiet \<and> \<not> got)" by blast
  then show ?case
  proof cases
    case 1
    then have "b" "s' = s1\<lparr>events := ev # evs\<rparr>"
      using run q by (subst (asm) pursue.simps, simp)+
    then show ?thesis using keeps_then_events [OF k1] q 1 by auto
  next
    case 2
    then have "b = d" "s' = s2\<lparr>events := ev # evs\<rparr>"
      using run q q1 by (subst (asm) pursue.simps, simp)+
    then show ?thesis using keeps_then_events [OF k2] q1 2 cl by (cases d) auto
  next
    case 3
    then have "\<not> b" "s' = s3\<lparr>events := evs\<rparr>"
      using run q sel by (subst (asm) pursue.simps, simp)+
    then show ?thesis using keeps_then_events [OF k3] 3 by auto
  next
    case 4
    then have "pursue E q dl quiet evs s3 = Some (b, s')"
      using run q sel by (subst (asm) pursue.simps) auto
    from IH [OF this] show ?thesis using k3 keeps_trans by blast
  qed
next
  case Nil
  note run = Nil.prems
  obtain c s1 where q: "q s = (c, s1)" by (cases "q s")
  obtain d s2 where q1: "q s1 = (d, s2)" by (cases "q s1")
  have k1: "keeps s s1" by (rule tame_keeps [OF assms q])
  have k2: "keeps s s2" by (rule keeps_trans [OF k1 tame_keeps [OF assms q1]])
  have cl: "clock s2 = clock s1" using tame_clock [OF assms q1] by simp
  consider "c" | "\<not> c" "dl \<le> clock s1" | "\<not> c" "\<not> dl \<le> clock s1" by blast
  then show ?case
  proof cases
    case 1
    then have "b" "s' = s1\<lparr>events := []\<rparr>"
      using run q by (subst (asm) pursue.simps, simp)+
    then show ?thesis using keeps_then_events [OF k1] q 1 by auto
  next
    case 2
    then have "b = d" "s' = s2\<lparr>events := []\<rparr>"
      using run q q1 by (subst (asm) pursue.simps, simp)+
    then show ?thesis using keeps_then_events [OF k2] q1 2 cl by (cases d) auto
  next
    case 3
    then show ?thesis using run q by (subst (asm) pursue.simps) simp
  qed
qed

lemma until_keeps:
  assumes "serviceUntil E q limit s = Some (b, s')" and "tame q"
  shows "keeps s s'" and "\<not> b \<Longrightarrow> limit \<noteq> serviceQuiet \<Longrightarrow> clock s + limit \<le> clock s'"
    and "b \<Longrightarrow> \<exists>s1 s2. q s1 = (True, s2) \<and> s' = s2\<lparr>events := events s'\<rparr>"
  using pursue_keeps [OF assms(2)] assms(1) by (auto simp: serviceUntil_def)

subsection \<open>What each operation keeps\<close>

lemma durations [simp]: "shortDuration \<noteq> serviceQuiet" "longDuration \<noteq> serviceQuiet"
  "0 < shortDuration" "0 < longDuration"
  by (simp_all add: shortDuration_def longDuration_def serviceQuiet_def second_def)

lemma service_keeps: "service E s = Some (b, s') \<Longrightarrow> keeps s s'"
  unfolding service_def by (erule until_keeps(1)) simp

lemma ask_keeps: "ask_blocked E i s = (b, s') \<Longrightarrow> keeps s s'"
  by (rule keeps_same) (auto simp: ask_blocked_def Let_def split: if_splits)

lemma allBlocked_keeps: "allBlocked_from E is live s = (b, s') \<Longrightarrow> keeps s s'"
  by (induction E "is" live s rule: allBlocked_from.induct)
     (auto split: if_splits prod.splits bool.splits dest!: ask_keeps intro: keeps_trans)

lemma client_at_cases:
  assumes "client_at n stmt s = (r, s')"
  shows "keeps s s'" and "r = Some i \<Longrightarrow> i < length (clients s') \<and> s' = s"
  using assms by (auto simp: client_at_def split: if_splits)

lemma write_keeps: "write_pipe E s = (r, s') \<Longrightarrow> keeps s s'"
  by (rule keeps_same) (auto simp: write_pipe_def)

lemma send_keeps:
  assumes "send_to E i stmt k s = (r, s')" and "1 \<le> k" and i: "i < length (clients s)"
    and "cstate (clients s ! i) = Ready"
  shows "keeps s s'"
proof -
  let ?c = "clients s ! i"
  let ?s = "(put_client i (fst (send stmt k ?c)) s)\<lparr>trace := trace s @ [Sent (id_of ?c) k]\<rparr>"
  have c: "id_of (fst (send stmt k ?c)) = id_of ?c" "owes (fst (send stmt k ?c)) = int k"
    by (simp_all add: send_def)
  have "keeps s ?s"
    using i assms(2,4) c send_owing [OF assms(2), of stmt ?c]
    by (auto simp: keeps_def tidy_def put_client_def nth_list_update polite_snoc owed_step_def
        owing_def)
  moreover have "keeps ?s s'"
    using assms(1) c
    by (auto simp: send_to_def split: prod.splits option.splits dest!: write_keeps
        intro: keeps_trans)
  ultimately show ?thesis by (rule keeps_trans)
qed

lemma toClient_keeps:
  assumes "run_toClient E c k s = Some (b, s')" and "1 \<le> k"
  shows "keeps s s'"
proof -
  obtain o1 s1 where at: "client_at (c_client c) (c_text c) s = (o1, s1)"
    by (cases "client_at (c_client c) (c_text c) s")
  note k1 = client_at_cases(1) [OF at]
  show ?thesis
  proof (cases o1)
    case None
    then show ?thesis using assms(1) at k1 by (simp add: run_toClient_def)
  next
    case (Some i)
    have i: "i < length (clients s1)" using client_at_cases(2) [OF at Some] by blast
    show ?thesis
    proof (cases "cstate (clients s1 ! i) = Finished")
      case True
      then show ?thesis using assms(1) at k1 Some by (simp add: run_toClient_def)
    next
      case False
      obtain b2 s2 where sv: "serviceUntil E (is_done i) longDuration s1 = Some (b2, s2)"
        using assms(1) at Some False by (auto simp: run_toClient_def split: option.splits)
      have k2: "keeps s s2" by (rule keeps_trans [OF k1 until_keeps(1) [OF sv]]) simp
      obtain r s3 where se: "send_to E i (c_text c) k s2 = (r, s3)"
        by (cases "send_to E i (c_text c) k s2")
      have "keeps s s3" if "cstate (clients s2 ! i) = Ready"
        using send_keeps [OF se assms(2) _ that] i keeps_length [OF until_keeps(1) [OF sv]]
          keeps_trans [OF k2] client_at_cases(2) [OF at Some] by auto
      then show ?thesis
        using assms(1) at Some False sv se k2
        by (auto simp: run_toClient_def split: bool.splits if_splits option.splits
            intro: keeps_trans)
    qed
  qed
qed

lemma keeps_into_say: "keeps s t \<Longrightarrow> keeps s (say m t)"
  by (rule keeps_trans [OF _ keeps_say])

lemma keeps_from_say: "keeps (say m s) t \<Longrightarrow> keeps s t"
  by (rule keeps_trans [OF keeps_say])

text \<open>The outcome of a wait for a question: how long a failure took, and what a success saw.\<close>

definition waited :: "question \<Rightarrow> int \<Rightarrow> run \<Rightarrow> bool \<Rightarrow> run \<Rightarrow> bool" where
  "waited q limit s b s' \<longleftrightarrow> keeps s s' \<and> (\<not> b \<longrightarrow> clock s + limit \<le> clock s') \<and>
     (b \<longrightarrow> (\<exists>s1 s2. q s1 = (True, s2) \<and> clients s' = clients s2 \<and> questions s' = questions s2))"

lemma until_waited:
  assumes "serviceUntil E q limit s = Some (b, s')" and "tame q" and "limit \<noteq> serviceQuiet"
  shows "waited q limit s b s'"
proof -
  note u = until_keeps [OF assms(1,2)]
  have "\<exists>s1 s2. q s1 = (True, s2) \<and> clients s' = clients s2 \<and> questions s' = questions s2" if "b"
  proof -
    from u(3) [OF that] obtain s1 s2 where q: "q s1 = (True, s2)"
      and e: "s' = s2\<lparr>events := events s'\<rparr>" by (elim exE conjE)
    have "clients s' = clients s2" "questions s' = questions s2" by (subst e, simp)+
    with q show ?thesis by blast
  qed
  then show ?thesis using u(1,2) assms(3) by (simp add: waited_def)
qed

lemma waited_longer: "waited q (l + m) s b s' \<Longrightarrow> 0 < m \<Longrightarrow> waited q l s b s'"
  by (auto simp: waited_def)

lemma waited_True: "waited q limit s True s' \<Longrightarrow> waited q limit' s True s'"
  by (simp add: waited_def)

lemma second_wait:
  assumes "waited q0 limit s False t" and "tame q" and "limit' \<noteq> serviceQuiet"
    and "(case serviceUntil E q limit' (say m t) of
        None \<Rightarrow> None
      | Some (True, u) \<Rightarrow> Some (True, u)
      | Some (False, u) \<Rightarrow> Some (False, say m' u)) = Some (b, s')"
  shows "waited q (limit + limit') s b s'"
proof -
  obtain c u where u: "serviceUntil E q limit' (say m t) = Some (c, u)"
    using assms(4) by (auto split: option.splits)
  have w: "waited q limit' (say m t) c u" by (rule until_waited [OF u assms(2,3)])
  have k0: "keeps s t" and kt: "keeps (say m t) u" using assms(1) w by (simp_all add: waited_def)
  have k: "keeps s u" by (rule keeps_trans [OF k0 keeps_from_say [OF kt]])
  have cl: "clock (say m t) = clock t" by (simp add: say_def)
  show ?thesis
  proof (cases c)
    case True
    then show ?thesis using assms(4) u w k by (auto simp: waited_def)
  next
    case False
    then have "\<not> b" "s' = say m' u" using assms(4) u by auto
    then show ?thesis
      using False assms(1) w k keeps_into_say cl by (auto simp: waited_def say_def)
  qed
qed

lemma waitUnblocked_waited:
  assumes "waitUnblocked E i stmt s = Some (b, s')"
  shows "waited (is_free E i) (shortDuration + longDuration) s b s'"
proof -
  obtain b1 s1 where u1: "serviceUntil E (is_free E i) shortDuration s = Some (b1, s1)"
    using assms by (auto simp: waitUnblocked_def split: option.splits)
  have w: "waited (is_free E i) shortDuration s b1 s1" by (rule until_waited [OF u1]) simp_all
  show ?thesis
  proof (cases b1)
    case True
    then show ?thesis using assms w waited_True by (simp add: waitUnblocked_def u1)
  next
    case False
    then have b: "b1 = False" by simp
    show ?thesis
      by (rule second_wait [OF w [unfolded b]])
        (use assms in \<open>simp_all only: waitUnblocked_def u1 b Let_def option.case prod.case
          bool.case tame_questions durations not_False_eq_True simp_thms\<close>)
  qed
qed

lemma waitBlocked_waited:
  assumes "waitBlocked E i stmt s = Some (b, s')"
  shows "waited (is_blocked E i) shortDuration s b s'"
proof -
  obtain b1 s1 where u1: "serviceUntil E (is_blocked E i) shortDuration s = Some (b1, s1)"
    using assms by (auto simp: waitBlocked_def split: option.splits)
  have w: "waited (is_blocked E i) shortDuration s b1 s1" by (rule until_waited [OF u1]) simp_all
  consider "b1" | "\<not> b1" "cstate (clients s1 ! i) = Ready"
    | "\<not> b1" "cstate (clients s1 ! i) \<noteq> Ready" by blast
  then show ?thesis
  proof cases
    case 1
    then show ?thesis using assms w by (simp add: waitBlocked_def u1)
  next
    case 2
    then obtain m where "\<not> b" "s' = say m s1"
      using assms by (auto simp: waitBlocked_def u1 Let_def)
    then show ?thesis using w 2 keeps_into_say by (simp add: waited_def say_def)
  next
    case 3
    then have b: "b1 = False" and r: "(cstate (clients s1 ! i) = Ready) = False" by simp_all
    have "waited (is_blocked E i) (shortDuration + longDuration) s b s'"
      by (rule second_wait [OF w [unfolded b]])
        (use assms in \<open>simp_all only: waitBlocked_def u1 b r Let_def option.case prod.case
          bool.case tame_questions durations not_False_eq_True simp_thms if_False\<close>)
    then show ?thesis by (rule waited_longer) simp
  qed
qed

lemma waitReady_waited:
  assumes "waitReady E i stmt s = Some (b, s')"
  shows "waited (is_done i) shortDuration s b s'"
proof -
  obtain b1 s1 where u1: "serviceUntil E (is_done i) shortDuration s = Some (b1, s1)"
    using assms by (auto simp: waitReady_def split: option.splits)
  have w: "waited (is_done i) shortDuration s b1 s1" by (rule until_waited [OF u1]) simp_all
  obtain b2 s2 where ab: "allBlocked E s1 = (b2, s2)" by (cases "allBlocked E s1")
  have k: "keeps s1 s2" by (rule allBlocked_keeps [OF ab [unfolded allBlocked_def]])
  show ?thesis
  proof (cases b1)
    case True
    then show ?thesis using assms w by (simp add: waitReady_def u1)
  next
    case False
    have k2: "keeps s s2" and c2: "clock s + shortDuration \<le> clock s2"
      using w False k keeps_trans [of s s1 s2] by (auto simp: waited_def keeps_def)
    then have w2: "waited (is_done i) shortDuration s False s2" by (simp add: waited_def)
    show ?thesis
    proof (cases b2)
      case True
      then obtain m where "\<not> b" "s' = say m s2"
        using assms False by (auto simp: waitReady_def u1 ab)
      then show ?thesis using k2 c2 keeps_into_say by (simp add: waited_def say_def)
    next
      case nb: False
      then have b: "b1 = False" "b2 = False" using False by simp_all
      have "waited (is_done i) (shortDuration + longDuration) s b s'"
        by (rule second_wait [OF w2])
          (use assms in \<open>simp_all only: waitReady_def u1 ab b option.case prod.case
            bool.case tame_questions durations not_False_eq_True simp_thms\<close>)
      then show ?thesis by (rule waited_longer) simp
    qed
  qed
qed

text \<open>
  A wait of a case fails only after its time: at least 100 seconds passed, and 400 for
  \<open>unblocked\<close>. When it succeeds, its condition was true when it was last asked: the client had
  answered everything or was gone, or the server said of its transaction what was waited for.
\<close>

theorem waits_are_patient_and_true:
  "(waitReady E i stmt s = Some (b, s') \<longrightarrow>
      (\<not> b \<longrightarrow> clock s + shortDuration \<le> clock s') \<and>
      (b \<longrightarrow> cstate (clients s' ! i) \<in> {Ready, Finished})) \<and>
   (waitBlocked E i stmt s = Some (b, s') \<longrightarrow>
      (\<not> b \<longrightarrow> clock s + shortDuration \<le> clock s') \<and>
      (b \<longrightarrow> cstate (clients s' ! i) = Finished \<or>
         0 \<le> tranIndex (clients s' ! i) \<and> 0 < questions s' \<and>
         e_blocked E (questions s' - 1) (tranIndex (clients s' ! i)))) \<and>
   (waitUnblocked E i stmt s = Some (b, s') \<longrightarrow>
      (\<not> b \<longrightarrow> clock s + shortDuration + longDuration \<le> clock s') \<and>
      (b \<longrightarrow> cstate (clients s' ! i) = Finished \<or> tranIndex (clients s' ! i) < 0 \<or>
         0 < questions s' \<and> \<not> e_blocked E (questions s' - 1) (tranIndex (clients s' ! i))))"
proof (rule conjI [OF impI conjI [OF impI impI]])
  assume "waitReady E i stmt s = Some (b, s')"
  from waitReady_waited [OF this] show "(\<not> b \<longrightarrow> clock s + shortDuration \<le> clock s') \<and>
      (b \<longrightarrow> cstate (clients s' ! i) \<in> {Ready, Finished})"
    by (auto simp: waited_def is_done_def)
next
  assume "waitBlocked E i stmt s = Some (b, s')"
  from waitBlocked_waited [OF this] show "(\<not> b \<longrightarrow> clock s + shortDuration \<le> clock s') \<and>
      (b \<longrightarrow> cstate (clients s' ! i) = Finished \<or>
         0 \<le> tranIndex (clients s' ! i) \<and> 0 < questions s' \<and>
         e_blocked E (questions s' - 1) (tranIndex (clients s' ! i)))"
    by (fastforce simp: waited_def is_blocked_def ask_blocked_def Let_def split: if_splits)
next
  assume "waitUnblocked E i stmt s = Some (b, s')"
  from waitUnblocked_waited [OF this] show
    "(\<not> b \<longrightarrow> clock s + shortDuration + longDuration \<le> clock s') \<and>
      (b \<longrightarrow> cstate (clients s' ! i) = Finished \<or> tranIndex (clients s' ! i) < 0 \<or>
         0 < questions s' \<and> \<not> e_blocked E (questions s' - 1) (tranIndex (clients s' ! i)))"
    by (fastforce simp: waited_def is_free_def ask_blocked_def Let_def split: if_splits)
qed

subsection \<open>Never talking over a client\<close>

lemma pause_keeps: "pause_for E n s = Some s' \<Longrightarrow> keeps s s'"
proof (induction n arbitrary: s)
  case (Suc n)
  then obtain b s1 where sv: "service E s = Some (b, s1)" and r: "pause_for E n (sleepms 1000 s1) = Some s'"
    by (auto split: option.splits)
  show ?case
    by (rule keeps_trans [OF service_keeps [OF sv] keeps_trans [OF keeps_sleep Suc.IH [OF r]]])
qed simp

definition state_of :: "outcome \<Rightarrow> run" where
  "state_of x = (case x of Goes s \<Rightarrow> s | Stops c s \<Rightarrow> s)"

lemma wait_on_keeps:
  assumes "wait_on E w n stmt s = Some x"
    and "\<And>i s b s'. w i stmt s = Some (b, s') \<Longrightarrow> keeps s s'"
  shows "keeps s (state_of x)"
proof -
  obtain o1 s1 where at: "client_at n stmt s = (o1, s1)" by (cases "client_at n stmt s")
  note k1 = client_at_cases(1) [OF at]
  show ?thesis
  proof (cases o1)
    case None
    then show ?thesis using assms(1) at keeps_into_say [OF k1]
      by (auto simp: wait_on_def waitFailed_def state_of_def)
  next
    case (Some i)
    then obtain b s2 where w: "w i stmt s1 = Some (b, s2)"
      using assms(1) at by (auto simp: wait_on_def split: option.splits)
    have k2: "keeps s s2" by (rule keeps_trans [OF k1 assms(2) [OF w]])
    then show ?thesis using assms(1) at Some w keeps_into_say [OF k2]
      by (auto simp: wait_on_def waitFailed_def state_of_def split: bool.splits)
  qed
qed

lemma execute_keeps:
  assumes "execute E line stmt k s = Some x" and "1 \<le> k"
  shows "keeps s (state_of x)"
proof -
  let ?c = "Classify stmt"
  define s1 where "s1 = (if c_kind ?c = ToClient then s
      else complain (''QACTL '' @ itoa 0 @ '' line: '' @ itoa (int line) @
        '' statement: ('' @ stmt @ '')'' @ nl) s)"
  have k1: "keeps s s1" by (simp add: s1_def)
  note ex = assms(1) [unfolded execute_def Let_def, folded s1_def]
  have wait: "keeps s (state_of x)"
    if "wait_on E w n stmt s1 = Some x" "\<And>i s b s'. w i stmt s = Some (b, s') \<Longrightarrow> keeps s s'" for w n
    by (rule keeps_trans [OF k1 wait_on_keeps [OF that]])
  show ?thesis
  proof (cases "c_kind ?c")
    case ToClient
    then obtain b s2 where t: "run_toClient E ?c k s1 = Some (b, s2)"
      using ex by (auto split: option.splits)
    have "keeps s s2" by (rule keeps_trans [OF k1 toClient_keeps [OF t assms(2)]])
    then show ?thesis using ex ToClient t by (auto simp: state_of_def split: bool.splits)
  next
    case DeadlockPause
    then obtain s2 where "pause_for E deadlockPause s1 = Some s2" and x: "x = Goes s2"
      using ex by auto
    then show ?thesis using keeps_trans [OF k1 pause_keeps] by (simp add: state_of_def)
  next
    case Sleep
    then show ?thesis using ex keeps_trans [OF k1 keeps_sleep] by (auto simp: state_of_def)
  next
    case Setup
    then show ?thesis using ex k1 by (auto simp: state_of_def)
  next
    case WaitReady
    then show ?thesis using ex wait waitReady_waited by (auto simp: waited_def)
  next
    case WaitBlocked
    then show ?thesis using ex wait waitBlocked_waited by (auto simp: waited_def)
  next
    case WaitUnblocked
    then show ?thesis using ex wait waitUnblocked_waited by (auto simp: waited_def)
  next
    case Retired
    then obtain m where "x = Stops 1 (say m s1)" using ex by auto
    then show ?thesis using keeps_into_say [OF k1] by (simp add: state_of_def)
  next
    case Unknown
    then obtain m where "x = Stops 1 (say m s1)" using ex by auto
    then show ?thesis using keeps_into_say [OF k1] by (simp add: state_of_def)
  qed
qed

lemma end_keeps:
  "endOfInput_from E is s = Some (x, s') \<Longrightarrow> \<forall>i \<in> set is. i < length (clients s) \<Longrightarrow>
   keeps s s' \<and> (x = 0 \<longrightarrow> (\<forall>i \<in> set is. cstate (clients s' ! i) = Finished))"
proof (induction "is" arbitrary: s)
  case Nil
  then show ?case by simp
next
  case (Cons i "is")
  have i: "i < length (clients s)" using Cons.prems(2) by simp
  have rest: "keeps s s' \<and> (x = 0 \<longrightarrow> (\<forall>j \<in> set (i # is). cstate (clients s' ! j) = Finished))"
    if "endOfInput_from E is t = Some (x, s')" "keeps s t" "cstate (clients t ! i) = Finished" for t
  proof -
    have len: "length (clients t) = length (clients s)" using that(2) by (rule keeps_length)
    have k: "keeps t s'" and f: "x = 0 \<longrightarrow> (\<forall>j \<in> set is. cstate (clients s' ! j) = Finished)"
      using Cons.IH [OF that(1)] Cons.prems(2) len by auto
    have "cstate (clients s' ! i) = Finished" using k that(3) i len by (simp add: keeps_def)
    then show ?thesis using f keeps_trans [OF that(2) k] by simp
  qed
  show ?case
  proof (cases "cstate (clients s ! i) = Finished")
    case True
    then show ?thesis using Cons.prems rest [of s] by simp
  next
    case False
    obtain r s1 where w: "(if cstate (clients s ! i) = Ready then write_pipe E s else (None, s)) = (r, s1)"
      by (cases "if cstate (clients s ! i) = Ready then write_pipe E s else (None, s)")
    have k1: "keeps s s1" using w write_keeps by (auto split: if_splits)
    have i1: "i < length (clients s1)" using i keeps_length [OF k1] by simp
    show ?thesis
    proof (cases r)
      case (Some err)
      then obtain m where run: "endOfInput_from E is (closing E i (say m s1)) = Some (x, s')"
        using Cons.prems(1) False w by auto
      have "cstate (clients (closing E i (say m s1)) ! i) = Finished"
        using i1 by (auto simp: closing_def Let_def complain_def put_client_def close_client_def
            say_def split: prod.split)
      moreover have "keeps s (closing E i (say m s1))"
        using keeps_trans [OF keeps_into_say [OF k1] keeps_closing] i1 by (simp add: say_def)
      ultimately show ?thesis using rest [OF run] by blast
    next
      case None
      obtain b s2 where sv: "serviceUntil E (is_gone i) longDuration s1 = Some (b, s2)"
        using Cons.prems(1) False w None by (auto split: option.splits)
      have k2: "keeps s s2" by (rule keeps_trans [OF k1 until_keeps(1) [OF sv]]) simp
      show ?thesis
      proof (cases b)
        case True
        have wd: "waited (is_gone i) longDuration s1 b s2" by (rule until_waited [OF sv]) simp_all
        have "cstate (clients s2 ! i) = Finished"
          using wd True by (auto simp: waited_def is_gone_def)
        moreover have "endOfInput_from E is s2 = Some (x, s')"
          using Cons.prems(1) False w None sv True by simp
        ultimately show ?thesis using rest k2 by blast
      next
        case nb: False
        then have "x = 1" "s' = notResponding i s2" using Cons.prems(1) False w None sv by auto
        then show ?thesis using keeps_trans [OF k2 keeps_notResponding] by simp
      qed
    qed
  qed
qed

lemma loop_keeps:
  "loop E rd s = Some (x, s') \<Longrightarrow>
   keeps s s' \<and> (x = 0 \<longrightarrow> (\<forall>c \<in> set (clients s'). cstate c = Finished) \<or>
     (\<exists>line stmt k t. execute E line stmt k t = Some (Stops 0 s')))"
proof (induction E rd s arbitrary: x s' rule: loop.induct)
  case (1 E rd s)
  obtain st rd' where n: "NextCompound rd = (st, rd')" by (cases "NextCompound rd")
  show ?case
  proof (cases st)
    case None
    then have e: "endOfInput_from E [0..<length (clients s)] s = Some (x, s')"
      using "1.prems" n by (subst (asm) loop.simps) (simp add: endOfInput_def)
    have "keeps s s'" "x = 0 \<longrightarrow> (\<forall>i < length (clients s). cstate (clients s' ! i) = Finished)"
      using end_keeps [OF e] by auto
    then show ?thesis using keeps_length [of s s'] by (auto simp: in_set_conv_nth)
  next
    case (Some p)
    obtain stmt k where p: "p = (stmt, k)" by (cases p)
    have k: "1 \<le> k" using NextCompound_shorter n Some p by blast
    show ?thesis
    proof (cases "skipWhite stmt = []")
      case True
      let ?t = "say (''Got an empty statement.'' @ nl) s"
      have "loop E rd' ?t = Some (x, s')"
        using "1.prems" n Some p True by (subst (asm) loop.simps) (simp add: Let_def)
      from "1.IH"(1) [OF n [symmetric] Some p [symmetric] refl True this] show ?thesis
        using keeps_from_say by blast
    next
      case False
      obtain y where ex: "execute E (Lines rd') (skipWhite stmt) k s = Some y"
        using "1.prems" n Some p False
        by (subst (asm) loop.simps) (auto simp: Let_def split: option.splits)
      note ky = execute_keeps [OF ex k]
      show ?thesis
      proof (cases y)
        case (Goes t)
        then have "loop E rd' t = Some (x, s')"
          using "1.prems" n Some p False ex by (subst (asm) loop.simps) (simp add: Let_def)
        from "1.IH"(2) [OF n [symmetric] Some p [symmetric] refl False ex Goes this] show ?thesis
          using keeps_trans ky Goes by (auto simp: state_of_def)
      next
        case (Stops c t)
        then have "c = x" "t = s'"
          using "1.prems" n Some p False ex by (subst (asm) loop.simps, simp add: Let_def)+
        then show ?thesis using ky Stops ex by (auto simp: state_of_def)
      qed
    qed
  qed
qed

lemma wait_on_stops: "wait_on E w n stmt s = Some (Stops x s') \<Longrightarrow> x = 1"
  by (auto simp: wait_on_def waitFailed_def split: prod.splits option.splits bool.splits)

lemma execute_stops: "execute E line stmt k s = Some (Stops x s') \<Longrightarrow> x = 1"
  by (auto simp: execute_def Let_def split: kind.splits option.splits bool.splits prod.splits
      dest: wait_on_stops)

lemma keeps_killAll: "keeps s (killAll E s)"
  unfolding killAll_def
  by (rule keeps_fold [where n = "length (clients s)"]) (auto intro: keeps_closing)

lemma start_all_tidy:
  "tidy s \<Longrightarrow> trace s = [] \<Longrightarrow> is = map (\<lambda>j. int j + 1) [length (clients s)..<m] \<Longrightarrow>
   tidy (snd (start_all f n is s))"
proof (induction "is" arbitrary: s)
  case Nil
  then show ?case by simp
next
  case (Cons i "is")
  have lt: "length (clients s) < m" using Cons.prems(3) by (cases "length (clients s) < m") auto
  then have i: "i = int (length (clients s)) + 1"
    and r: "is = map (\<lambda>j. int j + 1) [Suc (length (clients s))..<m]"
    using Cons.prems(3) by (simp_all add: upt_rec)
  let ?s = "s\<lparr>clients := clients s @ [startClient i]\<rparr>"
  show ?case
  proof (cases "f i")
    case (Some err)
    then show ?thesis using Cons.prems(1) by (simp add: tidy_def complain_def)
  next
    case None
    have "tidy ?s"
      using Cons.prems(1,2) startClient_owing [of i] i
      by (auto simp: tidy_def nth_append startClient_def less_Suc_eq)
    then have "tidy (snd (start_all f n is ?s))"
      using Cons.prems(2) r by (intro Cons.IH) auto
    then show ?thesis using None by simp
  qed
qed

lemma upto_nat: "[1..n] = map (\<lambda>j. int j + 1) [0..<nat n]"
proof -
  have "[1..int k] = map (\<lambda>j. int j + 1) [0..<k]" for k
  proof (induction k)
    case (Suc k)
    then show ?case by (simp add: upto_rec2 add.commute)
  qed simp
  from this [of "nat n"] show ?thesis by (cases "0 \<le> n") auto
qed

lemma init_keeps: "init_all E is s = Some (b, s') \<Longrightarrow> keeps s s'"
proof (induction E "is" s rule: init_all.induct)
  case (2 E i "is" s)
  obtain c s1 where w: "waitReady E i ''client_init: Initial Client readiness test'' s = Some (c, s1)"
    using "2.prems" by (auto split: option.splits)
  have k: "keeps s s1" using waitReady_waited [OF w] by (simp add: waited_def)
  show ?case
  proof (cases c)
    case True
    then show ?thesis using 2 w keeps_trans [OF k] by auto
  next
    case False
    then show ?thesis using 2 w k by auto
  qed
qed simp

lemma start_all_fresh:
  assumes "start_all f n [1..n] s = (b, s')" and "clients s = []" and "trace s = []"
  shows "tidy s'"
proof -
  have "tidy s" using assms(2,3) by (simp add: tidy_def polite_def)
  then have "tidy (snd (start_all f n [1..n] s))"
    using assms(2,3) by (intro start_all_tidy [where m = "nat n"]) (simp_all add: upto_nat)
  then show ?thesis by (simp add: assms(1))
qed

lemma say_frame [simp]: "clients (say m s) = clients s" "trace (say m s) = trace s"
  "events (say m s) = events s" "clock (say m s) = clock s"
  by (simp_all add: say_def)

lemma complain_frame [simp]: "clients (complain m s) = clients s" "trace (complain m s) = trace s"
  "events (complain m s) = events s" "clock (complain m s) = clock s"
  by (simp_all add: complain_def)

lemma run_case_polite:
  assumes run: "run_case E text fails s = Some (code, s')" and "clients s = []" and "trace s = []"
  shows "polite (trace s')"
proof -
  let ?n = "clients_wanted text"
  obtain b s2 where st: "start_all fails ?n [1..?n] (say (setup_line ?n) s) = (b, s2)"
    by (cases "start_all fails ?n [1..?n] (say (setup_line ?n) s)")
  have t2: "tidy s2" by (rule start_all_fresh [OF st]) (simp_all add: assms)
  have pol: "polite (trace u)" if "keeps s2 u" for u
    using that t2 by (simp add: keeps_def tidy_def)
  consider "?n < 1" | "\<not> ?n < 1" "\<not> b" | "\<not> ?n < 1" "b" by blast
  then show ?thesis
  proof cases
    case 1
    then have "trace s' = trace s" using run by (auto simp: run_case_def Let_def)
    then show ?thesis using assms(3) by (simp add: polite_def)
  next
    case 2
    then show ?thesis using run st pol [OF keeps_killAll] by (auto simp: run_case_def Let_def)
  next
    case 3
    then obtain c s3 where ini: "init_all E [0..<length (clients s2)] s2 = Some (c, s3)"
      using run st by (auto simp: run_case_def Let_def split: option.splits)
    note k3 = init_keeps [OF ini]
    show ?thesis
    proof (cases c)
      case True
      then obtain s4 where lp: "loop E (NewReader text) s3 = Some (code, s4)" and s': "s' = killAll E s4"
        using run st ini 3 by (auto simp: run_case_def Let_def)
      have "keeps s3 s4" using loop_keeps [OF lp] ..
      then show ?thesis unfolding s' using pol keeps_trans [OF k3 keeps_trans] keeps_killAll by blast
    next
      case False
      then have "s' = killAll E s3" using run st ini 3 by (simp add: run_case_def Let_def)
      then show ?thesis using pol keeps_trans [OF k3] keeps_killAll by simp
    qed
  qed
qed

text \<open>
  C26: The controller never talks over a client: in every run, whenever a statement is written to
  a client, that client has reported ready at least once for its start or for every statement of
  what it was sent before.
\<close>

theorem clients_are_not_talked_over:
  "case Run E probe_fails path file start_fails evs of None \<Rightarrow> True
   | Some (code, s) \<Rightarrow> polite (trace s)"
proof -
  have b: "clients (say m (boot evs)) = []" "trace (say m (boot evs)) = []" for m
    by (simp_all add: boot_def)
  show ?thesis
    using run_case_polite [OF _ b]
    by (auto simp: Run_def Let_def boot_def polite_def [of "[]"] split: option.split sum.split)
qed

lemma end_code: "endOfInput_from E is s = Some (x, s') \<Longrightarrow> x \<in> {0, 1}"
  by (induction E "is" s rule: endOfInput_from.induct)
     (auto split: if_splits prod.splits option.splits bool.splits)

lemma loop_code: "loop E rd s = Some (x, s') \<Longrightarrow> x \<in> {0, 1}"
proof (induction E rd s arbitrary: x s' rule: loop.induct)
  case (1 E rd s)
  then show ?case
    by (subst (asm) (3) loop.simps)
      (fastforce simp: Let_def endOfInput_def dest: end_code execute_stops
        split: prod.splits option.splits if_splits outcome.splits)
qed

text \<open>
  A case exits with 0 only when its script ran to the end and every client has left by
  itself; every failed wait, refused command, broken pipe or silent client gives 1.
\<close>

theorem success_needs_every_client_gone:
  assumes "loop E rd s = Some (code, s')"
  shows "(code = 0 \<longrightarrow> (\<forall>c \<in> set (clients s'). cstate c = Finished)) \<and> code \<in> {0, 1}"
  using loop_keeps [OF assms] loop_code [OF assms] execute_stops by fastforce

text \<open>One client, ready, and a script that is over: it is told to quit and goes.\<close>

definition quitting :: run where
  "quitting = (boot [(1000, Said (\<lambda>_. (Some [], None)))])\<lparr>clients :=
     [\<lparr>id_of = 1, tranIndex = 7, owes = 0, cstate = Ready\<rparr>]\<rparr>"

definition calm :: env where
  "calm = \<lparr>e_blocked = (\<lambda>_ _. True), e_pipe = (\<lambda>_. None), e_kill = (\<lambda>_. None), e_locks = []\<rparr>"

lemma Next_empty: "Next (NewReader []) = (None, (NewReader [])\<lparr>line_no := 1\<rparr>)"
  unfolding Next_def
  by (subst next_loop.simps)
    (simp add: NewReader_def readRaw_def rawBufSize_def numeral_eq_Suc, simp add: fresh_acc_def)

lemma NextCompound_empty: "NextCompound (NewReader []) = (None, (NewReader [])\<lparr>line_no := 1\<rparr>)"
  by (simp add: NextCompound_def Next_empty)

lemmas run_eval = serviceUntil_def pursue.simps selectOnce_def alive_def hear_def hear_error_def
  closing_def close_client_def put_client_def is_gone_def is_free_def is_blocked_def ask_blocked_def
  is_done_def write_pipe_def Let_def say_def complain_def shortDuration_def longDuration_def
  second_def serviceQuiet_def calm_def boot_def reap_def

theorem success_needs_every_client_gone_witness:
  "\<exists>s'. loop calm (NewReader []) quitting = Some (0, s') \<and>
     ((0::int) = 0 \<longrightarrow> (\<forall>c \<in> set (clients s'). cstate c = Finished)) \<and> (0::int) \<in> {0, 1}"
proof -
  have "loop calm (NewReader []) quitting = endOfInput calm quitting"
    by (subst loop.simps) (simp add: NextCompound_empty)
  then obtain s' where "loop calm (NewReader []) quitting = Some (0, s')"
    by (simp add: endOfInput_def quitting_def run_eval)
  with success_needs_every_client_gone [OF this] show ?thesis by blast
qed

definition stuck :: run where
  "stuck = (boot [(100000000000, Quiet []), (300000000000, Quiet [])])\<lparr>clients :=
     [\<lparr>id_of = 1, tranIndex = 7, owes = 1, cstate = Running\<rparr>]\<rparr>"

theorem waits_are_patient_and_true_witness:
  "\<exists>s'. waitUnblocked calm 0 ''w'' stuck = Some (False, s') \<and>
     clock stuck + shortDuration + longDuration \<le> clock s'"
proof -
  obtain s' where w: "waitUnblocked calm 0 ''w'' stuck = Some (False, s')"
    by (simp add: waitUnblocked_def stuck_def run_eval)
  with waits_are_patient_and_true [of calm 0 "''w''" stuck False s'] show ?thesis by blast
qed

end
