(* ===== verification/Ctl_Controller_Ends.thy ===== *)
theory Ctl_Controller_Ends
  imports Ctl_Controller_Claims
begin

text \<open>
  Every run of the controller ends. A case that hangs is the isolation suite's ordinary failure,
  so the controller must come back whatever the clients do: every wait has a deadline. Time is
  counted in the events of \<open>select\<close>, each of which takes at least a nanosecond here.
\<close>

definition brisk :: "(int \<times> heard) list \<Rightarrow> bool" where
  "brisk evs \<longleftrightarrow> (\<forall>e \<in> set evs. 1 \<le> fst e)"

definition lasts :: "nat \<Rightarrow> run \<Rightarrow> bool" where
  "lasts k s \<longleftrightarrow> brisk (events s) \<and> k \<le> length (events s)"

definition budget :: nat where
  "budget = nat (shortDuration + longDuration)"

lemma lasts_frame [simp]:
  "lasts k (say m s) = lasts k s" "lasts k (complain m s) = lasts k s"
  "lasts k (notResponding i s) = lasts k s" "lasts k (sleepms n s) = lasts k s"
  by (simp_all add: lasts_def notResponding_def sleepms_def)

lemma lasts_same: "events s' = events s \<Longrightarrow> lasts k s' = lasts k s"
  by (simp add: lasts_def)

lemma lasts_less: "lasts k s \<Longrightarrow> j \<le> k \<Longrightarrow> lasts j s"
  by (simp add: lasts_def)

lemma select_clock: "selectOnce E ev s = (b, s') \<Longrightarrow> clock s + max 0 (fst ev) \<le> clock s'"
proof -
  obtain took h where ev: "ev = (took, h)" by (cases ev)
  let ?s = "s\<lparr>clock := clock s + max 0 took\<rparr>"
  have 1: "keeps ?s (fold (hear E f) [0..<length (clients s)] ?s)" for f
    by (rule keeps_fold [where n = "length (clients s)"]) (auto intro: keeps_hear)
  have 2: "clock ?s \<le> clock (fold (hear E f) [0..<length (clients s)] ?s)" for f
    using 1 by (simp add: keeps_def)
  assume "selectOnce E ev s = (b, s')"
  then show ?thesis
    using 2 by (auto simp: selectOnce_def ev Let_def reap_def split: if_splits heard.splits)
qed

lemma pursue_ends:
  assumes "tame q"
  shows "brisk evs \<Longrightarrow> dl \<le> clock s + int (length evs) \<Longrightarrow>
    \<exists>b s'. pursue E q dl quiet evs s = Some (b, s') \<and> brisk (events s') \<and>
      length evs - nat (dl - clock s) \<le> length (events s')"
proof (induction evs arbitrary: s)
  case Nil
  obtain c s1 where q: "q s = (c, s1)" by (cases "q s")
  obtain d s2 where q1: "q s1 = (d, s2)" by (cases "q s1")
  have "clock s1 = clock s" using tame_clock [OF assms q] by simp
  then show ?case using Nil q q1 by (subst pursue.simps) (auto simp: brisk_def split: bool.split)
next
  case (Cons ev evs)
  obtain c s1 where q: "q s = (c, s1)" by (cases "q s")
  obtain d s2 where q1: "q s1 = (d, s2)" by (cases "q s1")
  obtain got s3 where sel: "selectOnce E ev s1 = (got, s3)" by (cases "selectOnce E ev s1")
  have cl: "clock s1 = clock s" using tame_clock [OF assms q] by simp
  have brisk: "brisk evs" "1 \<le> fst ev" using Cons.prems(1) by (auto simp: brisk_def)
  have later: "clock s + 1 \<le> clock s3" using select_clock [OF sel] brisk(2) cl by simp
  show ?case
  proof (cases "c \<or> dl \<le> clock s1 \<or> (quiet \<and> \<not> got)")
    case True
    then show ?thesis using q q1 sel Cons.prems brisk cl
      by (subst pursue.simps) (auto split: bool.split)
  next
    case False
    have "dl \<le> clock s3 + int (length evs)" using Cons.prems(2) later by simp
    then obtain b s' where p: "pursue E q dl quiet evs s3 = Some (b, s')" "brisk (events s')"
      and l: "length evs - nat (dl - clock s3) \<le> length (events s')"
      using Cons.IH [OF brisk(1)] by blast
    have "length (ev # evs) - nat (dl - clock s) \<le> length evs - nat (dl - clock s3)"
      using False cl later by (simp add: nat_diff_distrib') arith
    then have "length (ev # evs) - nat (dl - clock s) \<le> length (events s')" using l by simp
    moreover have "pursue E q dl quiet (ev # evs) s = Some (b, s')"
      using False q sel p by (subst pursue.simps) auto
    ultimately show ?thesis using p(2) by blast
  qed
qed

lemma until_ends:
  assumes "tame q" and "0 \<le> limit" and "lasts (k + nat limit) s"
  shows "\<exists>b s'. serviceUntil E q limit s = Some (b, s') \<and> lasts k s'"
  using pursue_ends [OF assms(1), of "events s" "clock s + limit" s E "limit = serviceQuiet"] assms(2,3)
  by (fastforce simp: serviceUntil_def lasts_def)

lemma budget_splits: "budget = nat shortDuration + nat longDuration"
  by (simp add: budget_def shortDuration_def longDuration_def second_def)

lemma allBlocked_events: "allBlocked_from E is live s = (b, s') \<Longrightarrow> events s' = events s"
  by (induction E "is" live s rule: allBlocked_from.induct)
     (auto simp: ask_blocked_def Let_def split: if_splits prod.splits bool.splits)

lemma second_ends:
  assumes "tame q" and "0 \<le> limit" and "lasts (k + nat limit) t"
  shows "\<exists>b s'. (case serviceUntil E q limit (say m t) of
        None \<Rightarrow> None
      | Some (True, u) \<Rightarrow> Some (True, u)
      | Some (False, u) \<Rightarrow> Some (False, say m' u)) = Some (b, s') \<and> lasts k s'"
proof -
  obtain c u where "serviceUntil E q limit (say m t) = Some (c, u)" "lasts k u"
    using until_ends [OF assms(1,2), of k "say m t" E] assms(3) by auto
  then show ?thesis by (cases c) auto
qed

lemma first_ends:
  assumes "tame q" and "lasts (k + budget) s"
  obtains b s1 where "serviceUntil E q shortDuration s = Some (b, s1)"
    "lasts (k + nat longDuration) s1" "lasts k s1"
proof -
  have "lasts ((k + nat longDuration) + nat shortDuration) s"
    using assms(2) by (simp add: budget_splits ac_simps)
  moreover have "0 \<le> shortDuration" using durations(3) by linarith
  ultimately obtain b s1 where "serviceUntil E q shortDuration s = Some (b, s1)"
    and l: "lasts (k + nat longDuration) s1"
    using until_ends [OF assms(1)] by blast
  then show ?thesis using that lasts_less [OF l, of k] by simp
qed

lemma long_nonneg: "0 \<le> longDuration"
  using durations(4) by linarith

lemma waitReady_ends:
  assumes "lasts (k + budget) s"
  shows "\<exists>b s'. waitReady E i stmt s = Some (b, s') \<and> lasts k s'"
proof -
  obtain b s1 where u: "serviceUntil E (is_done i) shortDuration s = Some (b, s1)"
    and l: "lasts (k + nat longDuration) s1" "lasts k s1" by (rule first_ends [OF tame_questions(1) assms])
  obtain c s2 where ab: "allBlocked E s1 = (c, s2)" by (cases "allBlocked E s1")
  have "events s2 = events s1" using allBlocked_events ab by (simp add: allBlocked_def)
  then have l2: "lasts (k + nat longDuration) s2" "lasts k s2" using l by (simp_all add: lasts_def)
  consider "b = True" | "b = False" "c = True" | "b = False" "c = False" by blast
  then show ?thesis
  proof cases
    case 3
    show ?thesis
      unfolding waitReady_def u ab 3 option.case prod.case bool.case
      by (rule second_ends [OF _ long_nonneg l2(1)]) simp
  qed (use u ab l l2 in \<open>auto simp: waitReady_def\<close>)
qed

lemma waitBlocked_ends:
  assumes "lasts (k + budget) s"
  shows "\<exists>b s'. waitBlocked E i stmt s = Some (b, s') \<and> lasts k s'"
proof -
  obtain b s1 where u: "serviceUntil E (is_blocked E i) shortDuration s = Some (b, s1)"
    and l: "lasts (k + nat longDuration) s1" "lasts k s1" by (rule first_ends [OF tame_questions(3) assms])
  consider "b = True" | "b = False" "cstate (clients s1 ! i) = Ready"
    | "b = False" "(cstate (clients s1 ! i) = Ready) = False" by blast
  then show ?thesis
  proof cases
    case 3
    show ?thesis
      unfolding waitBlocked_def u 3 Let_def option.case prod.case bool.case if_False
      by (rule second_ends [OF _ long_nonneg l(1)]) simp
  qed (use u l in \<open>auto simp: waitBlocked_def Let_def\<close>)
qed

lemma waitUnblocked_ends:
  assumes "lasts (k + budget) s"
  shows "\<exists>b s'. waitUnblocked E i stmt s = Some (b, s') \<and> lasts k s'"
proof -
  obtain b s1 where u: "serviceUntil E (is_free E i) shortDuration s = Some (b, s1)"
    and l: "lasts (k + nat longDuration) s1" "lasts k s1" by (rule first_ends [OF tame_questions(4) assms])
  show ?thesis
  proof (cases b)
    case True
    then show ?thesis using u l by (auto simp: waitUnblocked_def)
  next
    case False
    then have b: "b = False" by simp
    show ?thesis
      unfolding waitUnblocked_def u b Let_def option.case prod.case bool.case
      by (rule second_ends [OF _ long_nonneg l(1)]) simp
  qed
qed

lemma pause_ends:
  "lasts (k + n * nat serviceQuiet) s \<Longrightarrow> \<exists>s'. pause_for E n s = Some s' \<and> lasts k s'"
proof (induction n arbitrary: s)
  case (Suc n)
  have "0 \<le> serviceQuiet" by (simp add: serviceQuiet_def)
  moreover have "lasts ((k + n * nat serviceQuiet) + nat serviceQuiet) s"
    using Suc.prems by (simp add: algebra_simps)
  ultimately obtain b s1 where "service E s = Some (b, s1)" "lasts (k + n * nat serviceQuiet) s1"
    using until_ends [of "\<lambda>s. (False, s)" serviceQuiet] unfolding service_def
    using tame_questions(5) by blast
  then show ?case using Suc.IH [of "sleepms 1000 s1"] by simp
qed simp

lemma send_events: "send_to E i stmt k s = (r, s') \<Longrightarrow> events s' = events s"
  by (auto simp: send_to_def write_pipe_def put_client_def say_def split: prod.splits option.splits)

lemma long_budget: "nat longDuration \<le> budget"
  by (simp add: budget_splits)

lemma toClient_ends:
  assumes "lasts (k + budget) s"
  shows "\<exists>b s'. run_toClient E c n s = Some (b, s') \<and> lasts k s'"
proof -
  obtain o1 s1 where at: "client_at (c_client c) (c_text c) s = (o1, s1)"
    by (cases "client_at (c_client c) (c_text c) s")
  have l1: "lasts (k + budget) s1"
    using assms at by (auto simp: client_at_def split: if_splits)
  then have lk: "lasts k s1" by (rule lasts_less) simp
  show ?thesis
  proof (cases "o1 = None \<or> cstate (clients s1 ! the o1) = Finished")
    case True
    then show ?thesis using at lk by (cases o1) (auto simp: run_toClient_def)
  next
    case False
    then obtain i where i: "o1 = Some i" "cstate (clients s1 ! i) \<noteq> Finished" by auto
    have "lasts (k + nat longDuration) s1" using l1 long_budget by (auto intro: lasts_less)
    then obtain b s2 where sv: "serviceUntil E (is_done i) longDuration s1 = Some (b, s2)"
      and l2: "lasts k s2" using until_ends [OF _ long_nonneg, of "is_done i" k s1 E] by auto
    obtain r s3 where se: "send_to E i (c_text c) n s2 = (r, s3)"
      by (cases "send_to E i (c_text c) n s2")
    have l3: "lasts k s3" using l2 lasts_same [OF send_events [OF se]] by simp
    show ?thesis using at i sv se l2 l3
      by (cases b; cases r; cases "cstate (clients s2 ! i) = Ready") (auto simp: run_toClient_def)
  qed
qed

lemma wait_on_ends:
  assumes "lasts (k + budget) s"
    and "\<And>i s. lasts (k + budget) s \<Longrightarrow> \<exists>b s'. w i stmt s = Some (b, s') \<and> lasts k s'"
  shows "\<exists>x. wait_on E w n stmt s = Some x \<and> lasts k (state_of x)"
proof -
  obtain o1 s1 where at: "client_at n stmt s = (o1, s1)" by (cases "client_at n stmt s")
  have l1: "lasts (k + budget) s1"
    using assms(1) at by (auto simp: client_at_def split: if_splits)
  show ?thesis
  proof (cases o1)
    case None
    then show ?thesis using at lasts_less [OF l1, of k]
      by (simp add: wait_on_def waitFailed_def state_of_def)
  next
    case (Some i)
    obtain b s2 where "w i stmt s1 = Some (b, s2)" "lasts k s2" using assms(2) [OF l1] by blast
    then show ?thesis using at Some
      by (cases b) (simp_all add: wait_on_def waitFailed_def state_of_def)
  qed
qed

lemma execute_ends:
  assumes "lasts (k + budget) s"
  shows "\<exists>x. execute E line stmt n s = Some x \<and> lasts k (state_of x)"
proof -
  let ?c = "Classify stmt"
  define s1 where "s1 = (if c_kind ?c = ToClient then s
      else complain (''QACTL '' @ itoa 0 @ '' line: '' @ itoa (int line) @
        '' statement: ('' @ stmt @ '')'' @ nl) s)"
  have l1: "lasts (k + budget) s1" using assms by (simp add: s1_def)
  then have lk: "lasts k s1" by (rule lasts_less) simp
  note ex = execute_def [unfolded Let_def, of E line stmt n s, folded s1_def]
  show ?thesis
  proof (cases "c_kind ?c")
    case ToClient
    then show ?thesis using toClient_ends [OF l1, of E ?c n]
      by (auto simp: ex state_of_def split: bool.split)
  next
    case DeadlockPause
    have "3 * nat serviceQuiet \<le> budget"
      by (simp add: budget_splits serviceQuiet_def shortDuration_def longDuration_def second_def)
    then have "lasts (k + deadlockPause * nat serviceQuiet) s1"
      using l1 by (auto simp: deadlockPause_def intro: lasts_less)
    then show ?thesis using DeadlockPause pause_ends [of k deadlockPause s1 E]
      by (auto simp: ex state_of_def)
  next
    case WaitReady
    then show ?thesis using wait_on_ends [OF l1 waitReady_ends] by (simp add: ex)
  next
    case WaitBlocked
    then show ?thesis using wait_on_ends [OF l1 waitBlocked_ends] by (simp add: ex)
  next
    case WaitUnblocked
    then show ?thesis using wait_on_ends [OF l1 waitUnblocked_ends] by (simp add: ex)
  qed (use lk in \<open>simp_all add: ex state_of_def\<close>)
qed

lemma closing_events [simp]: "events (closing E i s) = events s"
  by (simp add: closing_def Let_def put_client_def split: prod.split)

lemma end_ends:
  "lasts (k + length is * budget) s \<Longrightarrow> \<exists>x s'. endOfInput_from E is s = Some (x, s')"
proof (induction "is" arbitrary: s)
  case (Cons i "is")
  have l: "lasts (k + length is * budget + budget) s" using Cons.prems by (simp add: ac_simps)
  obtain r s1 where w: "(if cstate (clients s ! i) = Ready then write_pipe E s else (None, s)) = (r, s1)"
    by (cases "if cstate (clients s ! i) = Ready then write_pipe E s else (None, s)")
  have e1: "events s1 = events s" using w by (auto simp: write_pipe_def split: if_splits)
  have l1: "lasts (k + length is * budget) s1" and l2: "lasts (k + length is * budget + nat longDuration) s1"
    using l long_budget unfolding lasts_same [OF e1] by (auto intro: lasts_less)
  obtain b s2 where sv: "serviceUntil E (is_gone i) longDuration s1 = Some (b, s2)"
    and l3: "lasts (k + length is * budget) s2"
    using until_ends [OF _ long_nonneg l2, of "is_gone i" E] by auto
  have l4: "lasts (k + length is * budget) (closing E i (say m s1))" for m
    using l1 by (simp add: lasts_def)
  have l0: "lasts (k + length is * budget) s" using l by (rule lasts_less) simp
  show ?case
    using w sv Cons.IH [OF l4] Cons.IH [OF l3] Cons.IH [OF l0]
    by (cases r; cases b) auto
qed simp

lemma loop_ends:
  "lasts ((length (clients s) + length (remaining rd)) * budget) s \<Longrightarrow>
   \<exists>x s'. loop E rd s = Some (x, s')"
proof (induction "length (remaining rd)" arbitrary: rd s rule: less_induct)
  case less
  obtain st rd' where n: "NextCompound rd = (st, rd')" by (cases "NextCompound rd")
  show ?case
  proof (cases st)
    case None
    have "lasts (0 + length [0..<length (clients s)] * budget) s"
      using less.prems by (auto simp: algebra_simps intro: lasts_less)
    from end_ends [OF this] show ?thesis
      using n None by (subst loop.simps) (simp add: endOfInput_def)
  next
    case (Some p)
    obtain stmt k where p: "p = (stmt, k)" by (cases p)
    have short: "length (remaining rd') < length (remaining rd)"
      and k: "1 \<le> k" using NextCompound_shorter n Some p by blast+
    let ?left = "(length (clients s) + length (remaining rd')) * budget"
    have "?left + budget \<le> (length (clients s) + length (remaining rd)) * budget"
      using short mult_le_mono1 [of "Suc (length (clients s) + length (remaining rd'))"
          "length (clients s) + length (remaining rd)" budget] by simp
    then have l: "lasts (?left + budget) s" using less.prems by (rule lasts_less [rotated])
    show ?thesis
    proof (cases "skipWhite stmt = []")
      case True
      let ?t = "say (''Got an empty statement.'' @ nl) s"
      have "lasts ((length (clients ?t) + length (remaining rd')) * budget) ?t"
        using lasts_less [OF l, of ?left] by simp
      from less.hyps [OF short this] show ?thesis
        using n Some p True by (subst loop.simps) (simp add: Let_def)
    next
      case False
      obtain y where ex: "execute E (Lines rd') (skipWhite stmt) k s = Some y"
        and ly: "lasts ?left (state_of y)" using execute_ends [OF l] by blast
      show ?thesis
      proof (cases y)
        case (Goes t)
        have "length (clients t) = length (clients s)"
          using keeps_length [OF execute_keeps [OF ex k]] Goes by (simp add: state_of_def)
        then have "lasts ((length (clients t) + length (remaining rd')) * budget) t"
          using ly Goes by (simp add: state_of_def)
        from less.hyps [OF short this] show ?thesis
          using n Some p False ex Goes by (subst loop.simps) (simp add: Let_def)
      next
        case (Stops c t)
        then show ?thesis using n Some p False ex by (subst loop.simps) (simp add: Let_def)
      qed
    qed
  qed
qed

lemma start_all_clients:
  "start_all f n is s = (b, s') \<Longrightarrow>
   events s' = events s \<and> length (clients s') \<le> length (clients s) + length is"
  by (induction f n "is" s rule: start_all.induct) (auto split: option.splits)

lemma init_ends:
  "lasts (k + length is * budget) s \<Longrightarrow> \<exists>b s'. init_all E is s = Some (b, s') \<and> lasts k s'"
proof (induction "is" arbitrary: s)
  case (Cons i "is")
  have "lasts (k + length is * budget + budget) s" using Cons.prems by (simp add: ac_simps)
  then obtain b s1 where w: "waitReady E i ''client_init: Initial Client readiness test'' s = Some (b, s1)"
    and l: "lasts (k + length is * budget) s1" using waitReady_ends by blast
  have "lasts k s1" using l by (rule lasts_less) simp
  then show ?case using w Cons.IH [OF l] by (cases b) auto
qed auto

text \<open>The events that are enough for a case file.\<close>

definition enough :: "string + string \<Rightarrow> nat" where
  "enough file =
     (case file of Inl err \<Rightarrow> 0
      | Inr text \<Rightarrow> (2 * nat (clients_wanted text) + length text) * budget)"

text \<open>
  C8: Every run of a case ends, whatever its clients, the server and the script do: as soon as
  the selects have brought as many events as \<open>enough\<close> counts, each of at least a nanosecond,
  the controller has returned its exit status.
\<close>

theorem every_case_ends:
  assumes "brisk evs" and "enough file \<le> length evs"
  shows "\<exists>code s. Run E probe_fails path file start_fails evs = Some (code, s)"
proof (cases "probe_fails = None \<and> (\<exists>text. file = Inr text)")
  case False
  then show ?thesis by (cases probe_fails; cases "file") (auto simp: Run_def Let_def)
next
  case True
  then obtain script where pf: "probe_fails = None" and f: "file = Inr script" by blast
  let ?n = "clients_wanted script"
  define s where "s = say (''MC: Attempting to restart master client.'' @ nl) (boot evs)"
  have s: "events s = evs" "clients s = []" by (simp_all add: s_def boot_def)
  have "\<exists>code s'. run_case E script start_fails s = Some (code, s')"
  proof (cases "?n < 1")
    case True
    then show ?thesis by (simp add: run_case_def Let_def)
  next
    case False
    obtain b s1 where st: "start_all start_fails ?n [1..?n] (say (setup_line ?n) s) = (b, s1)"
      by (cases "start_all start_fails ?n [1..?n] (say (setup_line ?n) s)")
    have e1: "events s1 = evs" and c1: "length (clients s1) \<le> nat ?n"
      using start_all_clients [OF st] s by auto
    let ?k = "(length (clients s1) + length script) * budget"
    have "?k + length [0..<length (clients s1)] * budget =
        (2 * length (clients s1) + length script) * budget"
      by (simp add: algebra_simps)
    also have "\<dots> \<le> enough file" using c1 by (simp add: enough_def f)
    finally have "lasts (?k + length [0..<length (clients s1)] * budget) s1"
      using assms e1 by (simp add: lasts_def)
    then obtain c s2 where ini: "init_all E [0..<length (clients s1)] s1 = Some (c, s2)"
      and l2: "lasts ?k s2" using init_ends by blast
    have "length (clients s2) = length (clients s1)" by (rule keeps_length [OF init_keeps [OF ini]])
    moreover have "remaining (NewReader script) = script" by (simp add: remaining_def NewReader_def)
    ultimately obtain x s3 where "loop E (NewReader script) s2 = Some (x, s3)"
      using loop_ends [of s2 "NewReader script" E] l2 by auto
    then show ?thesis using False st ini
      by (cases b; cases c) (auto simp: run_case_def Let_def)
  qed
  then show ?thesis by (simp add: Run_def pf f Let_def s_def)
qed

theorem every_case_ends_witness:
  "\<exists>code s. Run calm None ''a.ctl'' (Inr ''C1: x;'') (\<lambda>_. None)
     (replicate (enough (Inr ''C1: x;'')) (1, Quiet [])) = Some (code, s)"
  by (rule every_case_ends) (simp_all add: brisk_def)

end
