(* ===== verification/Store.thy ===== *)
theory Store
  imports Prelude
begin

text \<open>
  What the components that keep values by key rely on: a put is seen by the gets after it, and
  the listing of the keys is exactly what has a value, each once. The configuration reader and
  the result table provide it, each with an order of its own.
\<close>

locale store =
  fixes wf :: "'s \<Rightarrow> bool"
    and put :: "'k \<Rightarrow> 'v \<Rightarrow> 's \<Rightarrow> 's"
    and get :: "'s \<Rightarrow> 'k \<Rightarrow> 'v option"
    and keys :: "'s \<Rightarrow> 'k list"
  assumes put_wf: "wf s \<Longrightarrow> wf (put k v s)"
    and get_put: "wf s \<Longrightarrow> get (put k v s) k' = (if k' = k then Some v else get s k')"
    and keys_get: "wf s \<Longrightarrow> set (keys s) = {k. get s k \<noteq> None}"
    and keys_distinct: "wf s \<Longrightarrow> distinct (keys s)"
begin

definition put_all :: "('k \<times> 'v) list \<Rightarrow> 's \<Rightarrow> 's" where
  "put_all kvs s = fold (\<lambda>(k, v). put k v) kvs s"

lemma put_all_wf: "wf s \<Longrightarrow> wf (put_all kvs s)"
  unfolding put_all_def by (induction kvs arbitrary: s) (auto simp: put_wf)

lemma get_put_all:
  "wf s \<Longrightarrow> get (put_all kvs s) k =
     (case map_of (rev kvs) k of Some v \<Rightarrow> Some v | None \<Rightarrow> get s k)"
proof (induction kvs rule: rev_induct)
  case Nil
  then show ?case by (simp add: put_all_def)
next
  case (snoc p kvs)
  obtain a b where p: "p = (a, b)" by (cases p)
  have "put_all (kvs @ [p]) s = put a b (put_all kvs s)" by (simp add: put_all_def p)
  then show ?case using snoc get_put [OF put_all_wf [OF snoc.prems], of a b kvs k]
    by (simp add: p)
qed

lemma keys_put_all:
  "wf s \<Longrightarrow> set (keys (put_all kvs s)) = set (keys s) \<union> fst ` set kvs"
proof -
  assume wf: "wf s"
  have "map_of (rev kvs) k = None \<longleftrightarrow> k \<notin> fst ` set kvs" for k
    by (simp add: map_of_eq_None_iff)
  then show ?thesis
    using keys_get [OF wf] keys_get [OF put_all_wf [OF wf]]
    by (auto simp: get_put_all [OF wf] split: option.splits)
qed

lemma keys_mset:
  assumes "wf s" and "wf t" and "\<And>k. get s k = get t k"
  shows "mset (keys s) = mset (keys t)"
  using assms keys_get keys_distinct by (simp add: set_eq_iff_mset_eq_distinct [symmetric])

end

end
