(* ===== verification/Conf.thy ===== *)
theory Conf
  imports Store Decimal Ordering
begin

text \<open>
  Configuration files (\<open>internal/conf/config.go\<close> and \<open>ini.go\<close>): the Java properties format
  with its continuations and escapes, and the sectioned form of the sql family. A file is its
  text; the home directory and the CTP home are arguments. Lines longer than the scanner's four
  megabytes are not modelled.
\<close>

record config =
  vals :: "string \<Rightarrow> string option"
  keyOrder :: "string list"

definition empty_config :: config where
  "empty_config = \<lparr>vals = (\<lambda>_. None), keyOrder = []\<rparr>"

datatype conf_error = TruncatedEscape nat | BadEscape nat string | NoSeparator nat string
  | EndsInContinuation

definition BS :: char where "BS = CHR 0x5C"
definition TAB :: char where "TAB = CHR 0x09"
definition FF :: char where "FF = CHR 0x0C"
definition CR :: char where "CR = CHR 0x0D"
definition LF :: char where "LF = CHR 0x0A"

lemmas control = BS_def TAB_def FF_def CR_def LF_def

text \<open>\<open>bufio.ScanLines\<close>: a last empty line is no line, one carriage return before the end goes.\<close>

definition strip_cr :: "string \<Rightarrow> string" where
  "strip_cr l = trim_suffix l [CR]"

definition scan_lines :: "string \<Rightarrow> string list" where
  "scan_lines t =
     (let ls = split_on LF t in map strip_cr (if last ls = [] then butlast ls else ls))"

definition trailingBackslashes :: "string \<Rightarrow> nat" where
  "trailingBackslashes s = length (takeWhile (\<lambda>c. c = BS) (rev s))"

subsection \<open>Escapes\<close>

definition hex_val :: "char \<Rightarrow> nat option" where
  "hex_val c =
     (let n = char_nat c in
      if 48 \<le> n \<and> n \<le> 57 then Some (n - 48)
      else if 97 \<le> n \<and> n \<le> 102 then Some (n - 87)
      else if 65 \<le> n \<and> n \<le> 70 then Some (n - 55)
      else None)"

fun hex_number :: "nat \<Rightarrow> string \<Rightarrow> nat option" where
  "hex_number a [] = Some a"
| "hex_number a (c # s) = (case hex_val c of None \<Rightarrow> None | Some d \<Rightarrow> hex_number (16 * a + d) s)"

text \<open>\<open>WriteRune\<close> of a 16-bit rune; a surrogate half is the replacement character.\<close>

definition utf8 :: "nat \<Rightarrow> string" where
  "utf8 n =
     (if n < 128 then [char_of n]
      else if n < 2048 then [char_of (192 + n div 64), char_of (128 + n mod 64)]
      else if 55296 \<le> n \<and> n < 57344 then [char_of (239::nat), char_of (191::nat), char_of (189::nat)]
      else [char_of (224 + n div 4096), char_of (128 + n div 64 mod 64), char_of (128 + n mod 64)])"

datatype esc_error = Truncated | Bad string

function unescape_all :: "string \<Rightarrow> esc_error + string" where
  "unescape_all [] = Inr []"
| "unescape_all (c # s) =
     (if c \<noteq> BS then map_sum id (Cons c) (unescape_all s)
      else (case s of
          [] \<Rightarrow> Inr []
        | x # r \<Rightarrow>
            if x = CHR ''n'' then map_sum id (Cons LF) (unescape_all r)
            else if x = CHR ''r'' then map_sum id (Cons CR) (unescape_all r)
            else if x = CHR ''t'' then map_sum id (Cons TAB) (unescape_all r)
            else if x = CHR ''f'' then map_sum id (Cons FF) (unescape_all r)
            else if x = CHR ''u'' then
              (if length r < 4 then Inl Truncated
               else (case hex_number 0 (take 4 r) of
                   None \<Rightarrow> Inl (Bad (take 4 r))
                 | Some n \<Rightarrow> map_sum id (append (utf8 n)) (unescape_all (drop 4 r))))
            else map_sum id (Cons x) (unescape_all r)))"
  by pat_completeness auto
termination
  by (relation "measure length") auto

declare unescape_all.simps(2) [simp del]

definition unescape :: "string \<Rightarrow> esc_error + string" where
  "unescape s = (if BS \<notin> set s then Inr s else unescape_all s)"

lemma unescape_plain: "BS \<notin> set s \<Longrightarrow> unescape_all s = Inr s"
  by (induction s) (auto simp: unescape_all.simps(2))

lemma unescape_unescape_all: "unescape s = unescape_all s"
  by (simp add: unescape_def unescape_plain)

definition blanks :: "char list" where
  "blanks = [CHR '' '', TAB, FF]"

definition trimKey :: "string \<Rightarrow> string" where
  "trimKey s = (case unescape (trim_right_of blanks s) of Inr k \<Rightarrow> k | Inl e \<Rightarrow> [])"

definition trim_value :: "string \<Rightarrow> string" where
  "trim_value s = trim_left_of [CHR '' '', TAB] s"

text \<open>The scan of \<open>splitEntry\<close>: whether the byte is escaped, what is before it, what is left.\<close>

fun split_scan :: "bool \<Rightarrow> string \<Rightarrow> string \<Rightarrow> string \<times> string" where
  "split_scan esc pre [] = (trimKey pre, [])"
| "split_scan esc pre (c # cs) =
     (if esc then split_scan False (pre @ [c]) cs
      else if c = BS then split_scan True (pre @ [c]) cs
      else if c = CHR ''='' \<or> c = CHR '':'' then (trimKey pre, trim_value cs)
      else if c \<in> set blanks then
        (let rest' = trim_left_of blanks (c # cs) in
         case rest' of
           d # ds \<Rightarrow> if d = CHR ''='' \<or> d = CHR '':'' then (trimKey pre, trim_value ds)
                     else (trimKey pre, rest')
         | [] \<Rightarrow> (trimKey pre, rest'))
      else split_scan False (pre @ [c]) cs)"

definition splitEntry :: "string \<Rightarrow> string \<times> string" where
  "splitEntry line = split_scan False [] line"

definition substitute :: "string option \<Rightarrow> string \<Rightarrow> string \<Rightarrow> string" where
  "substitute home ctpHome v =
     (let v1 = (case home of Some h \<Rightarrow> if h = [] then v else replace_all v ''${HOME}'' h | None \<Rightarrow> v)
      in if ctpHome = [] then v1 else replace_all v1 ''${CTP_HOME}'' ctpHome)"

subsection \<open>Operations\<close>

definition set_value :: "string \<Rightarrow> string \<Rightarrow> config \<Rightarrow> config" where
  "set_value k v c =
     c\<lparr>keyOrder := (if vals c k = None then keyOrder c @ [k] else keyOrder c),
       vals := (vals c)(k \<mapsto> v)\<rparr>"

text \<open>The map of overrides comes as a list in any order, each key once.\<close>

definition Override :: "(string \<times> string) list \<Rightarrow> config \<Rightarrow> config" where
  "Override kv c =
     fold (\<lambda>k c. case map_of kv k of Some v \<Rightarrow> set_value k v c | None \<Rightarrow> c)
       (sort_strings (map fst kv)) c"

definition Get :: "config \<Rightarrow> string \<Rightarrow> string option" where
  "Get c k = vals c k"

definition GetOr :: "config \<Rightarrow> string \<Rightarrow> string \<Rightarrow> string" where
  "GetOr c k fallback = (case vals c k of Some v \<Rightarrow> v | None \<Rightarrow> fallback)"

definition Bool :: "config \<Rightarrow> string \<Rightarrow> bool \<Rightarrow> bool" where
  "Bool c k fallback =
     (case vals c k of
        None \<Rightarrow> fallback
      | Some v \<Rightarrow>
          (let w = to_lower (trim_space v) in
           if w \<in> set [''yes'', ''y'', ''true'', ''1'', ''on''] then True
           else if w \<in> set [''no'', ''n'', ''false'', ''0'', ''off''] then False
           else fallback))"

definition Config_Int :: "config \<Rightarrow> string \<Rightarrow> int \<Rightarrow> int" where
  "Config_Int c k fallback =
     (case vals c k of
        None \<Rightarrow> fallback
      | Some v \<Rightarrow> (case atoi (trim_space v) of Some n \<Rightarrow> n | None \<Rightarrow> fallback))"

definition Keys :: "config \<Rightarrow> string list" where
  "Keys c = keyOrder c"

definition dotted :: "string \<Rightarrow> string" where
  "dotted p = (if has_suffix p ''.'' then p else p @ ''.'')"

definition Prefixed :: "config \<Rightarrow> string \<Rightarrow> string \<Rightarrow> string option" where
  "Prefixed c p =
     (\<lambda>x. if dotted p @ x \<in> set (keyOrder c) then vals c (dotted p @ x) else None)"

subsection \<open>Parsing\<close>

fun parse_lines ::
  "string option \<Rightarrow> string \<Rightarrow> nat \<Rightarrow> string \<Rightarrow> string list \<Rightarrow> config \<Rightarrow> conf_error + config" where
  "parse_lines home ctp n pend [] c = (if pend \<noteq> [] then Inl EndsInContinuation else Inr c)"
| "parse_lines home ctp n pend (l # ls) c =
     (let line = (if pend \<noteq> [] then pend @ trim_left_of [CHR '' '', TAB] l else trim_left_of blanks l) in
      if pend = [] \<and> (line = [] \<or> has_prefix line ''#'' \<or> has_prefix line ''!'')
      then parse_lines home ctp (n + 1) [] ls c
      else if trailingBackslashes line mod 2 = 1
      then parse_lines home ctp (n + 1) (trim_suffix line [BS]) ls c
      else (case splitEntry line of (k, bytes) \<Rightarrow>
        (case unescape bytes of
           Inl Truncated \<Rightarrow> Inl (TruncatedEscape (n + 1))
         | Inl (Bad x) \<Rightarrow> Inl (BadEscape (n + 1) x)
         | Inr v \<Rightarrow> parse_lines home ctp (n + 1) [] ls (set_value k (substitute home ctp v) c))))"

definition parse :: "string option \<Rightarrow> string \<Rightarrow> string \<Rightarrow> conf_error + config" where
  "parse home ctp t = parse_lines home ctp 0 [] (scan_lines t) empty_config"

subsection \<open>The sectioned form\<close>

type_synonym ini = "string \<Rightarrow> (string \<Rightarrow> string option) option"

datatype ini_error = UnterminatedSection nat string

fun ini_lines :: "string option \<Rightarrow> string \<Rightarrow> nat \<Rightarrow> string \<Rightarrow> string list \<Rightarrow> ini \<Rightarrow> ini_error + ini" where
  "ini_lines home ctp n section [] m = Inr m"
| "ini_lines home ctp n section (l # ls) m =
     (let line = trim_space l in
      case line of
        [] \<Rightarrow> ini_lines home ctp (n + 1) section ls m
      | c # cs \<Rightarrow>
          if c = CHR ''#'' \<or> c = CHR '';'' then ini_lines home ctp (n + 1) section ls m
          else if c = CHR ''['' then
            (case cut_at (CHR '']'') cs of (name, _, ok) \<Rightarrow>
               if \<not> ok then Inl (UnterminatedSection n line)
               else ini_lines home ctp (n + 1) (trim_space name) ls m)
          else (case cut_at (CHR ''='') line of (k, v, ok) \<Rightarrow>
            (let old = (case m section of None \<Rightarrow> (\<lambda>_. None) | Some f \<Rightarrow> f) in
             ini_lines home ctp (n + 1) section ls
               (m(section \<mapsto> old(trim_space k \<mapsto> substitute home ctp (trim_space v)))))))"

definition LoadIni :: "string option \<Rightarrow> string \<Rightarrow> string \<Rightarrow> ini_error + ini" where
  "LoadIni home ctp t = ini_lines home ctp 1 [] (scan_lines t) (\<lambda>_. None)"

definition ini_Get :: "ini \<Rightarrow> string \<Rightarrow> string \<Rightarrow> string option" where
  "ini_Get i section k = (case i section of None \<Rightarrow> None | Some f \<Rightarrow> f k)"

definition ini_GetOr :: "ini \<Rightarrow> string \<Rightarrow> string \<Rightarrow> string \<Rightarrow> string" where
  "ini_GetOr i section k fallback = (case ini_Get i section k of Some v \<Rightarrow> v | None \<Rightarrow> fallback)"

definition ini_Int :: "ini \<Rightarrow> string \<Rightarrow> string \<Rightarrow> int \<Rightarrow> int" where
  "ini_Int i section k fallback =
     (case ini_Get i section k of
        None \<Rightarrow> fallback
      | Some v \<Rightarrow> (case atoi (trim_space v) of Some n \<Rightarrow> n | None \<Rightarrow> fallback))"

end
