(* ===== verification/Conf_Claims.thy ===== *)
theory Conf_Claims
  imports Conf
begin

text \<open>
  What the configuration promises: its keys are listed once each in the order of their first
  appearance, an override beats the file whatever order it comes in, and a file written with
  every special byte escaped reads back as what was written.
\<close>

subsection \<open>Keys\<close>

definition config_wf :: "config \<Rightarrow> bool" where
  "config_wf c \<longleftrightarrow> distinct (keyOrder c) \<and> (\<forall>k. (k \<in> set (keyOrder c)) = (vals c k \<noteq> None))"

interpretation settings: store config_wf set_value Get Keys
proof
  fix c k v
  assume wf: "config_wf c"
  show "config_wf (set_value k v c)" using wf by (auto simp: config_wf_def set_value_def)
  show "Get (set_value k v c) k' = (if k' = k then Some v else Get c k')" for k'
    by (simp add: Get_def set_value_def)
  show "set (Keys c) = {k. Get c k \<noteq> None}" using wf by (auto simp: config_wf_def Keys_def Get_def)
  show "distinct (Keys c)" using wf by (simp add: config_wf_def Keys_def)
qed

lemma empty_config_wf: "config_wf empty_config"
  by (simp add: config_wf_def empty_config_def)

lemma parse_lines_wf:
  "parse_lines home ctp n pend ls c = Inr c' \<Longrightarrow> config_wf c \<Longrightarrow> config_wf c'"
proof (induction home ctp n pend ls c rule: parse_lines.induct)
  case (2 home ctp n pend l ls c)
  then show ?case
    by (auto simp: Let_def settings.put_wf split: if_splits prod.splits sum.splits esc_error.splits)
qed (auto split: if_splits)

text \<open>
  Whatever file was read, every key has a value, every value a key, and the listing names each
  key once.
\<close>

theorem keys_listed_once:
  assumes "parse home ctp t = Inr c"
  shows "distinct (Keys c) \<and> set (Keys c) = {k. Get c k \<noteq> None}"
  using parse_lines_wf [OF assms [unfolded parse_def] empty_config_wf]
  by (simp add: settings.keys_distinct settings.keys_get)

lemma Override_puts:
  assumes "distinct (map fst kv)"
  shows "Override kv c =
    settings.put_all (map (\<lambda>k. (k, the (map_of kv k))) (sort_strings (map fst kv))) c"
proof -
  have "fold (\<lambda>k c. case map_of kv k of Some v \<Rightarrow> set_value k v c | None \<Rightarrow> c) ks c =
      settings.put_all (map (\<lambda>k. (k, the (map_of kv k))) ks) c" if "set ks \<subseteq> fst ` set kv" for ks c
    using that
  proof (induction ks arbitrary: c)
    case Nil
    then show ?case by (simp add: settings.put_all_def)
  next
    case (Cons k ks)
    have "k \<in> fst ` set kv" using Cons.prems by simp
    then obtain v where "map_of kv k = Some v" by (metis map_of_eq_None_iff not_None_eq)
    then show ?case using Cons by (simp add: settings.put_all_def)
  qed
  then show ?thesis by (simp add: Override_def)
qed

text \<open>
  An override beats the file and touches nothing else, and since a Go map has no order, the
  order its pairs come in makes no difference, not even to the listing of the keys.
\<close>

theorem override_beats_file:
  assumes "config_wf c" and "distinct (map fst kv)"
  shows "Get (Override kv c) k = (case map_of kv k of Some v \<Rightarrow> Some v | None \<Rightarrow> Get c k) \<and>
    (\<forall>kv'. mset kv' = mset kv \<longrightarrow> Override kv' c = Override kv c)"
proof (intro conjI allI impI)
  have "map_of (rev (map (\<lambda>k. (k, the (map_of kv k))) (sort_strings (map fst kv)))) k = map_of kv k"
    by (auto simp: rev_map map_of_map_restrict restrict_map_def map_of_eq_None_iff
        dest: map_of_SomeD split: option.split)
       (metis map_of_eq_None_iff option.collapse)
  then show "Get (Override kv c) k = (case map_of kv k of Some v \<Rightarrow> Some v | None \<Rightarrow> Get c k)"
    using settings.get_put_all [OF assms(1)] by (simp add: Override_puts [OF assms(2)])
  fix kv' assume m: "mset kv' = mset kv"
  then have k: "mset (map fst kv') = mset (map fst kv)" by simp
  then have d: "distinct (map fst kv')" using assms(2) mset_eq_imp_distinct_iff by blast
  have "map_of kv' = map_of kv"
    using m d assms(2) by (metis map_of_inject_set set_mset_mset)
  then show "Override kv' c = Override kv c"
    by (simp add: Override_puts [OF assms(2)] Override_puts [OF d] sort_strings_determined [OF k])
qed

theorem override_beats_file_witness:
  "Get (Override [(''b'', ''2''), (''a'', ''1'')] empty_config) ''a'' =
     (case map_of [(''b'', ''2''), (''a'', ''1'')] ''a'' of
        Some v \<Rightarrow> Some v | None \<Rightarrow> Get empty_config ''a'')"
  by (rule override_beats_file [THEN conjunct1]) (simp_all add: empty_config_wf)

subsection \<open>Writing and reading back\<close>

text \<open>A text with every byte that means something to the reader escaped.\<close>

definition esc :: "char \<Rightarrow> string" where
  "esc c =
     (if c = LF then [BS, CHR ''n''] else if c = CR then [BS, CHR ''r'']
      else if c = TAB then [BS, CHR ''t''] else if c = FF then [BS, CHR ''f'']
      else if c \<in> {BS, CHR ''='', CHR '':'', CHR '' '', CHR ''#'', CHR ''!''} then [BS, c]
      else [c])"

definition escaped :: "string \<Rightarrow> string" where
  "escaped s = concat (map esc s)"

lemma escaped_simps [simp]: "escaped [] = []" "escaped (c # s) = esc c @ escaped s"
  "escaped (s @ t) = escaped s @ escaped t"
  by (simp_all add: escaped_def)

lemma esc_cases:
  obtains (plain) "esc c = [c]" "c \<notin> {BS, CHR ''='', CHR '':'', CHR '' '', CHR ''#'', CHR ''!'', TAB, FF, CR, LF}"
  | (quoted) x where "esc c = [BS, x]" "x \<noteq> LF" "x \<noteq> CR" "x \<noteq> TAB" "x \<noteq> FF"
  by (cases "c \<in> {BS, CHR ''='', CHR '':'', CHR '' '', CHR ''#'', CHR ''!'', TAB, FF, CR, LF}")
     (auto simp: esc_def control)

lemma unescape_esc: "unescape_all (esc c @ s) = map_sum id (Cons c) (unescape_all s)"
  by (auto simp: esc_def control unescape_all.simps(2))

lemma unescape_escaped: "unescape (escaped s) = Inr s"
  unfolding unescape_unescape_all by (induction s) (simp_all add: unescape_esc)

lemma escaped_bytes: "set (escaped s) \<inter> {LF, CR, TAB, FF} = {}"
proof (induction s)
  case (Cons c s)
  then show ?case by (cases c rule: esc_cases) (auto simp: control)
qed simp

lemma split_scan_esc: "split_scan False pre (esc c @ t) = split_scan False (pre @ esc c) t"
  by (cases c rule: esc_cases) (auto simp: control blanks_def)

lemma split_scan_escaped: "split_scan False pre (escaped s @ t) = split_scan False (pre @ escaped s) t"
  by (induction s arbitrary: pre) (simp_all add: split_scan_esc)

lemma trimKey_escaped:
  assumes "s = [] \<or> last s \<noteq> CHR '' ''"
  shows "trimKey (escaped s) = s"
proof -
  have "dropWhile (\<lambda>c. c \<in> set blanks) (rev (escaped s)) = rev (escaped s)"
  proof (cases s rule: rev_cases)
    case (snoc r c)
    then have "c \<noteq> CHR '' ''" using assms by simp
    then show ?thesis using snoc by (auto simp: esc_def control blanks_def)
  qed simp
  then show ?thesis by (simp add: trimKey_def trim_right_of_def unescape_escaped)
qed

lemma trim_escaped: "trim_left_of [CHR '' '', TAB] (escaped s) = escaped s"
proof (cases s)
  case (Cons c r)
  then show ?thesis by (cases c rule: esc_cases) (auto simp: trim_left_of_def control)
qed (simp add: trim_left_of_def)

lemma trailing_esc:
  "even (trailingBackslashes t) \<Longrightarrow> even (trailingBackslashes (t @ escaped s))"
proof (induction s arbitrary: t)
  case (Cons c s)
  have "even (trailingBackslashes (t @ esc c))"
    using Cons.prems by (cases c rule: esc_cases) (auto simp: trailingBackslashes_def)
  then show ?case using Cons.IH [of "t @ esc c"] by simp
qed simp

subsection \<open>The file as a whole\<close>

definition entry_line :: "string \<times> string \<Rightarrow> string" where
  "entry_line kv = escaped (fst kv) @ ''='' @ escaped (snd kv)"

definition file_text :: "(string \<times> string) list \<Rightarrow> string" where
  "file_text kvs = concat (map (\<lambda>kv. entry_line kv @ [LF]) kvs)"

lemma entry_bytes: "set (entry_line kv) \<inter> {LF, CR, TAB, FF} = {}"
  using escaped_bytes [of "fst kv"] escaped_bytes [of "snd kv"]
  by (auto simp: entry_line_def control)

lemma split_lines: "\<forall>l \<in> set ls. c \<notin> set l \<Longrightarrow> split_on c (concat (map (\<lambda>l. l @ [c]) ls)) = ls @ [[]]"
  by (induction ls) (simp_all add: split_on_append)

lemma scan_file: "scan_lines (file_text kvs) = map entry_line kvs"
proof -
  have nl: "\<forall>l \<in> set (map entry_line kvs). LF \<notin> set l" using entry_bytes by auto
  have cr: "strip_cr (entry_line kv) = entry_line kv" for kv
    using entry_bytes [of kv] by (auto simp: strip_cr_def trim_suffix_def suffix_def)
  have "file_text kvs = concat (map (\<lambda>l. l @ [LF]) (map entry_line kvs))"
    by (simp add: file_text_def comp_def)
  then have "split_on LF (file_text kvs) = map entry_line kvs @ [[]]" using split_lines [OF nl] by simp
  then show ?thesis by (simp add: scan_lines_def cr)
qed

lemma entry_start: "entry_line (k, v) \<noteq> [] \<and> hd (entry_line (k, v)) \<notin> {CHR ''#'', CHR ''!''} \<union> set blanks"
proof (cases k)
  case (Cons c r)
  then show ?thesis by (cases c rule: esc_cases) (auto simp: entry_line_def control blanks_def)
qed (simp add: entry_line_def blanks_def control)

lemma parse_entries:
  "\<forall>(k, v) \<in> set kvs. k = [] \<or> last k \<noteq> CHR '' '' \<Longrightarrow>
   parse_lines home ctp n [] (map entry_line kvs) c =
     Inr (settings.put_all (map (\<lambda>(k, v). (k, substitute home ctp v)) kvs) c)"
proof (induction kvs arbitrary: n c)
  case Nil
  then show ?case by (simp add: settings.put_all_def)
next
  case (Cons kv kvs)
  obtain k v where kv: "kv = (k, v)" by (cases kv)
  have k: "k = [] \<or> last k \<noteq> CHR '' ''" using Cons.prems kv by auto
  let ?l = "entry_line (k, v)"
  have trim: "trim_left_of blanks ?l = ?l"
    using entry_start [of k v] by (cases ?l) (auto simp: trim_left_of_def)
  have data: "\<not> (?l = [] \<or> has_prefix ?l ''#'' \<or> has_prefix ?l ''!'')"
    using entry_start [of k v] by (cases ?l) auto
  have "even (trailingBackslashes (escaped k @ ''=''))" by (simp add: trailingBackslashes_def control)
  then have even: "trailingBackslashes ?l mod 2 \<noteq> 1"
    using trailing_esc [of "escaped k @ ''=''" v] by (simp add: entry_line_def odd_iff_mod_2_eq_one)
  have split: "splitEntry ?l = (k, escaped v)"
    using split_scan_escaped [of "[]" k "''='' @ escaped v"] trimKey_escaped [OF k] trim_escaped [of v]
    by (simp add: splitEntry_def entry_line_def trim_value_def control)
  show ?case
    using Cons.IH [of "n + 1" "set_value k (substitute home ctp v) c"] Cons.prems trim data even split
    by (simp add: kv unescape_escaped Let_def settings.put_all_def)
qed

text \<open>
  A file written with every special byte escaped, one entry to a line, reads back as what was
  written: no error, each key once in the order of its first entry, the last entry of a key its
  value, after the substitution of the two variables. A key that ends in a space is the exception,
  which the reader cuts off even when it is escaped.
\<close>

theorem written_file_reads_back:
  assumes "\<forall>(k, v) \<in> set kvs. k = [] \<or> last k \<noteq> CHR '' ''"
  shows "\<exists>c. parse home ctp (file_text kvs) = Inr c \<and>
    (\<forall>k. Get c k = map_of (rev (map (\<lambda>(k, v). (k, substitute home ctp v)) kvs)) k) \<and>
    set (Keys c) = fst ` set kvs \<and> distinct (Keys c)"
proof -
  let ?kvs = "map (\<lambda>(k, v). (k, substitute home ctp v)) kvs"
  let ?c = "settings.put_all ?kvs empty_config"
  have "parse home ctp (file_text kvs) = Inr ?c"
    using parse_entries [OF assms] by (simp add: parse_def scan_file)
  moreover have "Get ?c k = map_of (rev ?kvs) k" for k
    using settings.get_put_all [OF empty_config_wf, of ?kvs k]
    by (simp add: Get_def empty_config_def split: option.split)
  moreover have "set (Keys ?c) = fst ` set kvs"
    using settings.keys_put_all [OF empty_config_wf, of ?kvs]
    by (auto simp: Keys_def empty_config_def image_image case_prod_unfold)
  moreover have "distinct (Keys ?c)"
    by (intro settings.keys_distinct settings.put_all_wf empty_config_wf)
  ultimately show ?thesis by blast
qed

theorem keys_listed_once_witness:
  "\<exists>c. parse None [] (file_text [(''k'', ''v''), (''k'', ''w'')]) = Inr c \<and> distinct (Keys c) \<and>
    set (Keys c) = {k. Get c k \<noteq> None}"
proof -
  have "parse None [] (file_text [(''k'', ''v''), (''k'', ''w'')]) =
      Inr (settings.put_all [(''k'', substitute None [] ''v''), (''k'', substitute None [] ''w'')] empty_config)"
    using parse_entries [of "[(''k'', ''v''), (''k'', ''w'')]" None "[]" 0 empty_config]
    by (simp add: parse_def scan_file del: parse_lines.simps)
  then show ?thesis using keys_listed_once by blast
qed

theorem written_file_reads_back_witness:
  "\<exists>c. parse None [] (file_text [(''a b'', '' x=#''), (''k'', [])]) = Inr c \<and>
    (\<forall>k. Get c k = map_of (rev (map (\<lambda>(k, v). (k, substitute None [] v))
        [(''a b'', '' x=#''), (''k'', [])])) k) \<and>
    set (Keys c) = fst ` set [(''a b'', '' x=#''), (''k'', [])] \<and> distinct (Keys c)"
  by (rule written_file_reads_back) simp

text \<open>The space an escape should have kept.\<close>

lemma escaped_trailing_space_lost: "splitEntry (''a'' @ [BS] @ '' =1'') = (''a'', ''1'')"
  by (simp add: splitEntry_def control blanks_def trimKey_def trim_right_of_def unescape_def
      unescape_all.simps(2) trim_value_def trim_left_of_def)

end
