(* ===== verification/Topology.thy ===== *)
theory Topology
  imports Conf_Claims
begin

text \<open>
  The machines a configuration describes (\<open>internal/topology/topology.go\<close>): the properties of a
  role come from its \<open>default\<close> keys and the instance's own keys win. A map of properties is a
  partial function; a set that is ranged over after sorting is a list.
\<close>

definition Roles :: "string list" where
  "Roles = [''ssh'', ''cubrid'', ''broker1'', ''broker2'', ''brokercommon'', ''ha'', ''cm'',
     ''master'', ''slave'']"

record instance_rec =
  inst_id :: int
  inst_name :: string
  roles :: "string \<Rightarrow> (string \<Rightarrow> string option) option"

definition LocalName :: string where
  "LocalName = ''local''"

definition EnvID :: "instance_rec \<Rightarrow> string" where
  "EnvID i = (if inst_name i \<noteq> [] then inst_name i else ''env'' @ itoa (inst_id i))"

definition IsLocal :: "instance_rec \<Rightarrow> bool" where
  "IsLocal i \<longleftrightarrow> inst_name i = LocalName"

definition Local :: "config \<Rightarrow> instance_rec" where
  "Local c = \<lparr>inst_id = 0, inst_name = LocalName,
     roles = (\<lambda>r. if r \<in> set Roles then Some (Prefixed c (''default.'' @ r)) else None)\<rparr>"

definition Role :: "instance_rec \<Rightarrow> string \<Rightarrow> string \<Rightarrow> string option" where
  "Role i r = (case roles i r of Some m \<Rightarrow> m | None \<Rightarrow> (\<lambda>_. None))"

record ssh =
  Host :: string
  Port :: string
  User :: string
  Password :: string
  Related :: string

definition firstNonEmpty :: "string list \<Rightarrow> string" where
  "firstNonEmpty vs = (case find (\<lambda>v. v \<noteq> []) vs of Some v \<Rightarrow> v | None \<Rightarrow> [])"

definition SSH :: "instance_rec \<Rightarrow> ssh" where
  "SSH i =
     (let p = (\<lambda>k. case Role i ''ssh'' k of Some v \<Rightarrow> v | None \<Rightarrow> [])
      in \<lparr>Host = p ''host'', Port = firstNonEmpty [p ''port'', ''22''], User = p ''user'',
          Password = p ''pwd'', Related = p ''relatedhosts''\<rparr>)"

text \<open>The instance number a key mentions, as digits: \<open>^env\.instance([0-9]+)\.\<close>\<close>

definition instance_digits :: "string \<Rightarrow> string option" where
  "instance_digits k =
     (if has_prefix k ''env.instance''
      then (let t = drop (length ''env.instance'') k; ds = lead_digits t in
            if ds \<noteq> [] \<and> has_prefix (after_digits t) ''.'' then Some ds else None)
      else None)"

fun instance_ids :: "string list \<Rightarrow> string + int list" where
  "instance_ids [] = Inr []"
| "instance_ids (k # ks) =
     (case instance_digits k of
        None \<Rightarrow> instance_ids ks
      | Some ds \<Rightarrow>
          (case atoi ds of
             None \<Rightarrow> Inl k
           | Some n \<Rightarrow> map_sum id (Cons n) (instance_ids ks)))"

definition merge :: "config \<Rightarrow> int \<Rightarrow> string \<Rightarrow> string \<Rightarrow> string option" where
  "merge c n r = Prefixed c (''default.'' @ r) ++ Prefixed c (''env.instance'' @ itoa n @ ''.'' @ r)"

definition instance_prefix :: "int \<Rightarrow> string" where
  "instance_prefix n = ''env.instance'' @ itoa n @ ''.''"

definition role_of_key :: "int \<Rightarrow> string \<Rightarrow> string option" where
  "role_of_key n k =
     (if has_prefix k (instance_prefix n)
      then (case cut_at (CHR ''.'') (drop (length (instance_prefix n)) k) of (role, _, ok) \<Rightarrow>
              if ok \<and> role \<noteq> [] then Some role else None)
      else None)"

definition namedRoles :: "config \<Rightarrow> int \<Rightarrow> string list" where
  "namedRoles c n = sort_strings (remdups (List.map_filter (role_of_key n) (Keys c)))"

definition instance_of :: "config \<Rightarrow> int \<Rightarrow> instance_rec" where
  "instance_of c n =
     (let known = fold (\<lambda>r m. m(r \<mapsto> merge c n r)) Roles (\<lambda>_. None)
      in \<lparr>inst_id = n, inst_name = [],
          roles = fold (\<lambda>r m. if m r = None then m(r \<mapsto> merge c n r) else m) (namedRoles c n) known\<rparr>)"

definition From :: "config \<Rightarrow> string + instance_rec list" where
  "From c = map_sum id (\<lambda>ids. map (instance_of c) (sort (remdups ids))) (instance_ids (Keys c))"

subsection \<open>What an instance has\<close>

lemma instance_ids_set:
  "instance_ids ks = Inr ids \<Longrightarrow>
   set ids = {n. \<exists>k \<in> set ks. \<exists>ds. instance_digits k = Some ds \<and> atoi ds = Some n}"
proof (induction ks arbitrary: ids)
  case (Cons k ks)
  show ?case
  proof (cases "instance_digits k")
    case None
    then show ?thesis using Cons by auto
  next
    case (Some ds)
    then obtain n ids' where n: "atoi ds = Some n" and r: "instance_ids ks = Inr ids'"
      and ids: "ids = n # ids'"
      using Cons.prems by (cases "instance_ids ks") (auto split: option.splits)
    show ?thesis using Cons.IH [OF r] Some n by (auto simp: ids)
  qed
qed simp

lemma roles_fold:
  "fold (\<lambda>r m. m(r \<mapsto> f r)) rs m x = (if x \<in> set rs then Some (f x) else m x)"
  "fold (\<lambda>r m. if m r = None then m(r \<mapsto> f r) else m) rs m x =
     (case m x of Some v \<Rightarrow> Some v | None \<Rightarrow> if x \<in> set rs then Some (f x) else None)"
  by (induction rs arbitrary: m) (auto split: option.split)

lemma roles_instance:
  "roles (instance_of c n) r =
     (if r \<in> set Roles \<union> set (namedRoles c n) then Some (merge c n r) else None)"
  by (simp add: instance_of_def roles_fold)

lemma set_namedRoles: "set (namedRoles c n) = {r. \<exists>k \<in> set (Keys c). role_of_key n k = Some r}"
  by (force simp: namedRoles_def sort_strings_def List.map_filter_def)

lemma role_of_key_Some: "role_of_key n k = Some r \<Longrightarrow> r \<noteq> [] \<and> CHR ''.'' \<notin> set r"
  by (auto simp: role_of_key_def split: if_splits prod.splits dest: cut_at_found)

lemma Prefixed_get: "config_wf c \<Longrightarrow> Prefixed c p x = Get c (dotted p @ x)"
  by (auto simp: Prefixed_def Get_def config_wf_def)

lemma dotted_append: "r \<noteq> [] \<Longrightarrow> last r \<noteq> CHR ''.'' \<Longrightarrow> dotted (p @ r) = p @ r @ ''.''"
  by (auto simp: dotted_def suffix_def dest: arg_cong [of "p @ r" _ last])

text \<open>
  The instances of a configuration are those its keys mention, each once and in the order of
  their numbers. A property of a role is the instance's own when it has one and the default
  otherwise, for the nine known roles and for every other role the instance's keys name.
\<close>

theorem instance_beats_default:
  assumes "config_wf c" and "From c = Inr insts"
  shows "sorted (map inst_id insts) \<and> distinct (map inst_id insts) \<and>
    set (map inst_id insts) =
      {n. \<exists>k \<in> set (Keys c). \<exists>ds. instance_digits k = Some ds \<and> atoi ds = Some n} \<and>
    (\<forall>i \<in> set insts. \<forall>r \<in> set Roles \<union> set (namedRoles c (inst_id i)). \<forall>p.
       Role i r p =
         (case Get c (instance_prefix (inst_id i) @ r @ ''.'' @ p) of
            Some v \<Rightarrow> Some v
          | None \<Rightarrow> Get c (''default.'' @ r @ ''.'' @ p)))"
proof -
  obtain ids where ids: "instance_ids (Keys c) = Inr ids"
    and insts: "insts = map (instance_of c) (sort (remdups ids))"
    using assms(2) by (cases "instance_ids (Keys c)") (auto simp: From_def)
  have id: "map inst_id insts = sort (remdups ids)"
    by (simp add: insts comp_def instance_of_def)
  have role: "Role (instance_of c n) r p =
      (case Get c (instance_prefix n @ r @ ''.'' @ p) of
         Some v \<Rightarrow> Some v | None \<Rightarrow> Get c (''default.'' @ r @ ''.'' @ p))"
    if "r \<in> set Roles \<union> set (namedRoles c n)" for n r p
  proof -
    have r: "r \<noteq> [] \<and> last r \<noteq> CHR ''.''"
      using that
    proof
      assume "r \<in> set Roles" then show ?thesis by (auto simp: Roles_def)
    next
      assume "r \<in> set (namedRoles c n)"
      then obtain k where "role_of_key n k = Some r" by (auto simp: set_namedRoles)
      then show ?thesis using role_of_key_Some last_in_set by metis
    qed
    then show ?thesis
      using that dotted_append [of r "''default.''"] dotted_append [of r "instance_prefix n"]
      by (auto simp: Role_def roles_instance merge_def map_add_def Prefixed_get [OF assms(1)]
          instance_prefix_def split: option.split)
  qed
  have "inst_id (instance_of c n) = n" for n by (simp add: instance_of_def)
  then show ?thesis using role id instance_ids_set [OF ids] by (auto simp: insts)
qed

definition two_machines :: config where
  "two_machines = settings.put_all
     [(''default.ssh.port'', ''22''), (''env.instance2.ssh.port'', ''2222''),
      (''env.instance1.ssh.host'', ''h1'')] empty_config"

lemma two_machines_eval:
  "Keys two_machines = [''default.ssh.port'', ''env.instance2.ssh.port'', ''env.instance1.ssh.host'']"
  "instance_ids (Keys two_machines) = Inr [2, 1]" "config_wf two_machines"
proof -
  show k: "Keys two_machines =
      [''default.ssh.port'', ''env.instance2.ssh.port'', ''env.instance1.ssh.host'']"
    by (simp add: two_machines_def settings.put_all_def set_value_def empty_config_def Keys_def)
  show "instance_ids (Keys two_machines) = Inr [2, 1]"
    by (simp add: k instance_digits_def lead_digits_def after_digits_def is_digit_def char_nat_def
        atoi_def all_digits_def digits_val_def digit_val_def ranged_def in_int_def int_lo_def int_hi_def)
  show "config_wf two_machines"
    unfolding two_machines_def by (rule settings.put_all_wf [OF empty_config_wf])
qed

theorem instance_beats_default_witness:
  "sorted (map inst_id (map (instance_of two_machines) [1, 2]))"
  using instance_beats_default [OF two_machines_eval(3), of "map (instance_of two_machines) [1, 2]"]
  by (simp add: From_def two_machines_eval(2))

text \<open>A number written with a leading zero makes an instance that none of its own keys reach.\<close>

lemma leading_zero_orphans:
  "instance_digits ''env.instance01.ssh.host'' = Some ''01''" "atoi ''01'' = Some 1"
  "role_of_key 1 ''env.instance01.ssh.host'' = None"
  by (simp_all add: instance_digits_def lead_digits_def after_digits_def is_digit_def char_nat_def
      atoi_def all_digits_def digits_val_def digit_val_def ranged_def in_int_def int_lo_def int_hi_def
      role_of_key_def instance_prefix_def itoa_def nat_digits.simps digit_char_def char_of_def bit_0)

end
