(* ===== verification/Jtable.thy ===== *)
theory Jtable
  imports Store "HOL-Library.Word"
begin

text \<open>
  The hash table whose iteration order the summary files reproduce
  (\<open>internal/result/jhashtable.go\<close>): Java's \<open>Hashtable\<close> of JDK 8. A hash is 32 bits wide and
  wraps. Floating point is rounding to a number of bits, 24 for \<open>float32\<close>.
\<close>

subsection \<open>Rounding to a width\<close>

fun bit_len :: "nat \<Rightarrow> nat" where
  "bit_len n = (if n = 0 then 0 else Suc (bit_len (n div 2)))"

declare bit_len.simps [simp del]

text \<open>The nearest number with at most \<open>p\<close> significant bits, the even one of two as near.\<close>

definition round_to :: "nat \<Rightarrow> nat \<Rightarrow> nat" where
  "round_to p m =
     (if bit_len m \<le> p then m
      else (let s = bit_len m - p; q = m div 2 ^ s; r = m mod 2 ^ s; half = 2 ^ (s - 1)
            in if half < r \<or> (r = half \<and> odd q) then (q + 1) * 2 ^ s else q * 2 ^ s))"

subsection \<open>Strings as Java sees them\<close>

definition byte_of :: "char \<Rightarrow> nat" where
  "byte_of c = char_nat c"

definition cont :: "nat \<Rightarrow> nat \<Rightarrow> nat \<Rightarrow> bool" where
  "cont lo hi b \<longleftrightarrow> lo \<le> b \<and> b \<le> hi"

text \<open>\<open>[]rune(s)\<close>: the next rune and how many bytes it took; a bad byte is U+FFFD alone.\<close>

definition next_rune :: "nat list \<Rightarrow> nat \<times> nat" where
  "next_rune bs =
     (case bs of
        [] \<Rightarrow> (65533, 1)
      | b0 # r \<Rightarrow>
          if b0 < 128 then (b0, 1)
          else if 194 \<le> b0 \<and> b0 \<le> 223 then
            (case r of b1 # _ \<Rightarrow> if cont 128 191 b1 then ((b0 - 192) * 64 + (b1 - 128), 2) else (65533, 1)
                     | [] \<Rightarrow> (65533, 1))
          else if 224 \<le> b0 \<and> b0 \<le> 239 then
            (case r of
               b1 # b2 # _ \<Rightarrow>
                 if cont (if b0 = 224 then 160 else 128) (if b0 = 237 then 159 else 191) b1 \<and> cont 128 191 b2
                 then ((b0 - 224) * 4096 + (b1 - 128) * 64 + (b2 - 128), 3) else (65533, 1)
             | _ \<Rightarrow> (65533, 1))
          else if 240 \<le> b0 \<and> b0 \<le> 244 then
            (case r of
               b1 # b2 # b3 # _ \<Rightarrow>
                 if cont (if b0 = 240 then 144 else 128) (if b0 = 244 then 143 else 191) b1 \<and>
                    cont 128 191 b2 \<and> cont 128 191 b3
                 then ((b0 - 240) * 262144 + (b1 - 128) * 4096 + (b2 - 128) * 64 + (b3 - 128), 4)
                 else (65533, 1)
             | _ \<Rightarrow> (65533, 1))
          else (65533, 1))"

lemma next_rune_width: "1 \<le> snd (next_rune bs)"
  by (auto simp: next_rune_def split: list.split)

function runes :: "nat list \<Rightarrow> nat list" where
  "runes bs = (if bs = [] then [] else fst (next_rune bs) # runes (drop (snd (next_rune bs)) bs))"
  by pat_completeness auto
termination
  using next_rune_width by (relation "measure length") (auto simp: Suc_le_eq)

declare runes.simps [simp del]

definition utf16 :: "nat \<Rightarrow> nat list" where
  "utf16 r = (if r < 65536 then [r]
              else [55296 + (r - 65536) div 1024, 56320 + (r - 65536) mod 1024])"

definition jhash :: "string \<Rightarrow> 32 word" where
  "jhash s = foldl (\<lambda>h u. 31 * h + word_of_nat u) 0 (concat (map utf16 (runes (map byte_of s))))"

subsection \<open>The table\<close>

record 'v jtable =
  buckets :: "(string \<times> 'v) list list"
  count_of :: nat
  threshold :: nat

definition newJTable :: "'v jtable" where
  "newJTable = \<lparr>buckets = replicate 11 [], count_of = 0, threshold = 8\<rparr>"

definition jindex :: "string \<Rightarrow> nat \<Rightarrow> nat" where
  "jindex k n = unat (and (jhash k) 0x7FFFFFFF) mod n"

definition bucket_of :: "'v jtable \<Rightarrow> string \<Rightarrow> (string \<times> 'v) list" where
  "bucket_of t k = buckets t ! jindex k (length (buckets t))"

definition jget :: "'v jtable \<Rightarrow> string \<Rightarrow> 'v option" where
  "jget t k = map_of (bucket_of t k) k"

text \<open>The entry goes to the head of its bucket.\<close>

definition add_entry :: "(string \<times> 'v) \<Rightarrow> (string \<times> 'v) list list \<Rightarrow> (string \<times> 'v) list list" where
  "add_entry e bs = (let j = jindex (fst e) (length bs) in bs[j := e # bs ! j])"

definition rehash :: "'v jtable \<Rightarrow> 'v jtable" where
  "rehash t =
     (let n = length (buckets t) * 2 + 1
      in t\<lparr>buckets := fold add_entry (concat (rev (buckets t))) (replicate n []),
           threshold := round_to 24 (round_to 24 n * 3) div 4\<rparr>)"

fun update_first :: "string \<Rightarrow> 'v \<Rightarrow> (string \<times> 'v) list \<Rightarrow> (string \<times> 'v) list" where
  "update_first k v [] = []"
| "update_first k v (e # es) = (if fst e = k then (k, v) # es else e # update_first k v es)"

definition jput :: "string \<Rightarrow> 'v \<Rightarrow> 'v jtable \<Rightarrow> 'v jtable" where
  "jput k v t =
     (if k \<in> fst ` set (bucket_of t k)
      then t\<lparr>buckets := (buckets t)[jindex k (length (buckets t)) := update_first k v (bucket_of t k)]\<rparr>
      else (let t1 = (if threshold t \<le> count_of t then rehash t else t)
            in t1\<lparr>buckets := add_entry (k, v) (buckets t1), count_of := count_of t1 + 1\<rparr>))"

definition jkeys :: "'v jtable \<Rightarrow> string list" where
  "jkeys t = map fst (concat (rev (buckets t)))"

subsection \<open>What the table keeps\<close>

text \<open>Every entry is in the bucket of its key, no key is there twice, and the count is right.\<close>

definition placed :: "(string \<times> 'v) list list \<Rightarrow> bool" where
  "placed bs \<longleftrightarrow> bs \<noteq> [] \<and> distinct (map fst (concat bs)) \<and>
     (\<forall>i < length bs. \<forall>e \<in> set (bs ! i). jindex (fst e) (length bs) = i)"

definition jwf :: "'v jtable \<Rightarrow> bool" where
  "jwf t \<longleftrightarrow> placed (buckets t) \<and> count_of t = length (concat (buckets t))"

lemma jindex_less: "0 < n \<Longrightarrow> jindex k n < n"
  by (simp add: jindex_def)

lemma mset_concat_update:
  "i < length bs \<Longrightarrow> mset (concat (bs[i := b])) + mset (bs ! i) = mset (concat bs) + mset b"
proof (induction bs arbitrary: i)
  case (Cons c bs)
  then show ?case by (cases i) (auto simp: ac_simps)
qed simp

lemma mset_concat_rev: "mset (concat (rev bs)) = mset (concat bs)"
  by (induction bs) (auto simp: ac_simps)

lemma mset_add_entry: "bs \<noteq> [] \<Longrightarrow> mset (concat (add_entry e bs)) = add_mset e (mset (concat bs))"
  using mset_concat_update [of "jindex (fst e) (length bs)" bs
      "e # bs ! jindex (fst e) (length bs)"] jindex_less [of "length bs" "fst e"]
  by (simp add: add_entry_def Let_def)

lemma length_add_entry [simp]: "length (add_entry e bs) = length bs"
  by (simp add: add_entry_def Let_def)

lemma distinct_fst_mset: "mset xs = mset ys \<Longrightarrow> distinct (map fst xs) = distinct (map fst ys)"
  using mset_eq_imp_distinct_iff [of "map fst xs" "map fst ys"] by simp

lemma placedD: "placed bs \<Longrightarrow> i < length bs \<Longrightarrow> e \<in> set (bs ! i) \<Longrightarrow> jindex (fst e) (length bs) = i"
  by (simp add: placed_def)

lemma placed_add:
  assumes "placed bs" and "fst e \<notin> fst ` set (concat bs)"
  shows "placed (add_entry e bs)"
proof -
  have ne: "bs \<noteq> []" using assms(1) by (simp add: placed_def)
  have "mset (concat (add_entry e bs)) = mset (e # concat bs)" using mset_add_entry [OF ne] by simp
  then have "distinct (map fst (concat (add_entry e bs)))"
    by (rule distinct_fst_mset [THEN iffD2]) (use assms in \<open>simp add: placed_def\<close>)
  moreover have "add_entry e bs \<noteq> []" using ne by (metis length_0_conv length_add_entry)
  moreover have "jindex (fst f) (length bs) = i"
    if "i < length bs" "f \<in> set (add_entry e bs ! i)" for i f
  proof -
    have "f \<in> set (bs ! i) \<or> f = e \<and> i = jindex (fst e) (length bs)"
      using that by (cases "i = jindex (fst e) (length bs)") (auto simp: add_entry_def Let_def)
    then show ?thesis using assms(1) that(1) by (auto simp: placed_def)
  qed
  ultimately show ?thesis by (simp add: placed_def)
qed

lemma fold_add:
  "placed bs \<Longrightarrow> distinct (map fst (es @ concat bs)) \<Longrightarrow>
   placed (fold add_entry es bs) \<and> length (fold add_entry es bs) = length bs \<and>
   mset (concat (fold add_entry es bs)) = mset es + mset (concat bs)"
proof (induction es arbitrary: bs)
  case (Cons e es)
  have ne: "bs \<noteq> []" using Cons.prems(1) by (simp add: placed_def)
  have p: "placed (add_entry e bs)" using Cons.prems by (intro placed_add) auto
  have m: "mset (concat (add_entry e bs)) = add_mset e (mset (concat bs))" by (rule mset_add_entry [OF ne])
  have "mset (es @ concat (add_entry e bs)) = mset ((e # es) @ concat bs)" using m by simp
  then have "distinct (map fst (es @ concat (add_entry e bs)))"
    using Cons.prems(2) distinct_fst_mset by blast
  from Cons.IH [OF p this] m show ?case by simp
qed simp

lemma rehash_wf:
  assumes "jwf t"
  shows "jwf (rehash t)" and "mset (concat (buckets (rehash t))) = mset (concat (buckets t))"
proof -
  let ?n = "length (buckets t) * 2 + 1"
  have e: "placed (replicate ?n [])" by (simp add: placed_def del: replicate_Suc)
  have d: "distinct (map fst (concat (rev (buckets t)) @ concat (replicate ?n [])))"
    using assms distinct_fst_mset [OF mset_concat_rev [of "buckets t"]]
    by (auto simp: jwf_def placed_def simp del: replicate_Suc)
  note f = fold_add [OF e d]
  have b: "buckets (rehash t) = fold add_entry (concat (rev (buckets t))) (replicate ?n [])"
    and c: "count_of (rehash t) = count_of t" by (simp_all add: rehash_def Let_def)
  show m: "mset (concat (buckets (rehash t))) = mset (concat (buckets t))"
    using f mset_concat_rev [of "buckets t"] unfolding b by simp
  have "length (concat (buckets (rehash t))) = length (concat (buckets t))"
    using m by (metis size_mset)
  then show "jwf (rehash t)" using f assms c unfolding jwf_def b by simp
qed

lemma map_of_mset:
  "mset xs = mset ys \<Longrightarrow> distinct (map fst xs) \<Longrightarrow> map_of xs = map_of ys"
  by (metis distinct_fst_mset map_of_inject_set set_mset_mset)

lemma jget_entries: "placed (buckets t) \<Longrightarrow> jget t k = map_of (concat (buckets t)) k"
proof -
  assume p: "placed (buckets t)"
  let ?bs = "buckets t" and ?i = "jindex k (length (buckets t))"
  have i: "?i < length ?bs" using p jindex_less by (simp add: placed_def)
  have d: "distinct (map fst (concat ?bs))" using p by (simp add: placed_def)
  have b: "set (?bs ! ?i) \<subseteq> set (concat ?bs)"
    using nth_mem [OF i] by auto
  show ?thesis
  proof (cases "map_of (concat ?bs) k")
    case None
    then have "k \<notin> fst ` set (concat ?bs)" by (simp add: map_of_eq_None_iff)
    then have "map_of (?bs ! ?i) k = None" using b by (auto simp: map_of_eq_None_iff)
    then show ?thesis using None by (simp add: jget_def bucket_of_def)
  next
    case (Some v)
    then have "(k, v) \<in> set (concat ?bs)" by (rule map_of_SomeD)
    then obtain j where j: "j < length ?bs" "(k, v) \<in> set (?bs ! j)"
      by (auto simp: in_set_conv_nth [of _ ?bs])
    then have "j = ?i" using placedD [OF p] by fastforce
    moreover have "distinct (map fst (?bs ! j))"
      using d j(1) by (auto simp: map_concat distinct_concat_iff dest: nth_mem)
    ultimately show ?thesis using Some j(2) by (simp add: jget_def bucket_of_def)
  qed
qed

lemma placed_update:
  assumes p: "placed bs" and i: "i < length bs" and b: "map fst b = map fst (bs ! i)"
  shows "placed (bs[i := b])"
proof -
  have m: "image_mset fst (mset b) = image_mset fst (mset (bs ! i))" using b by (metis mset_map)
  have "image_mset fst (mset (concat (bs[i := b]))) + image_mset fst (mset (bs ! i)) =
      image_mset fst (mset (concat bs)) + image_mset fst (mset b)"
    using arg_cong [OF mset_concat_update [OF i, of b], of "image_mset fst"] by simp
  then have "mset (map fst (concat (bs[i := b]))) = mset (map fst (concat bs))" by (simp add: m)
  then have "distinct (map fst (concat (bs[i := b])))"
    using p mset_eq_imp_distinct_iff by (metis placed_def)
  moreover have "jindex (fst e) (length bs) = j" if "j < length bs" "e \<in> set (bs[i := b] ! j)" for j e
  proof (cases "j = i")
    case True
    then have "fst e \<in> fst ` set (bs ! i)" using that b i by (metis list.set_map nth_list_update_eq rev_image_eqI)
    then obtain f where "f \<in> set (bs ! i)" "fst f = fst e" by auto
    then show ?thesis using placedD [OF p i] True by metis
  next
    case False
    then show ?thesis using that p by (auto simp: placed_def)
  qed
  ultimately show ?thesis using p by (auto simp: placed_def)
qed

lemma update_first_keys: "map fst (update_first k v es) = map fst es"
  by (induction es) auto

lemma update_first_get:
  "k \<in> fst ` set es \<Longrightarrow> map_of (update_first k v es) k' = (if k' = k then Some v else map_of es k')"
  by (induction es) force+

lemma jindex_neq: "jindex k n \<noteq> jindex k' n \<Longrightarrow> k \<noteq> k'"
  by auto

lemma jput_wf:
  assumes wf: "jwf t"
  shows "jwf (jput k v t)" and "jget (jput k v t) k' = (if k' = k then Some v else jget t k')"
proof -
  let ?bs = "buckets t" and ?i = "jindex k (length (buckets t))"
  have p: "placed ?bs" and c: "count_of t = length (concat ?bs)" using wf by (auto simp: jwf_def)
  have i: "?i < length ?bs" using p jindex_less by (simp add: placed_def)
  have old: "jget t k' = map_of (concat ?bs) k'" by (rule jget_entries [OF p])
  have "jwf (jput k v t) \<and> jget (jput k v t) k' = (if k' = k then Some v else jget t k')"
  proof (cases "k \<in> fst ` set (bucket_of t k)")
    case True
    let ?b = "update_first k v (bucket_of t k)"
    have t': "jput k v t = t\<lparr>buckets := ?bs[?i := ?b]\<rparr>" using True by (simp add: jput_def)
    have p': "placed (?bs[?i := ?b])"
      by (rule placed_update [OF p i]) (simp add: update_first_keys bucket_of_def)
    have "length ?b = length (?bs ! ?i)"
      using update_first_keys [of k v "bucket_of t k"] by (metis bucket_of_def length_map)
    then have "length (concat (?bs[?i := ?b])) = length (concat ?bs)"
      using arg_cong [OF mset_concat_update [OF i, of ?b], of size] by (simp del: length_concat)
    moreover have "jget (jput k v t) k' = (if k' = k then Some v else jget t k')"
    proof (cases "jindex k' (length ?bs) = ?i")
      case same: True
      then show ?thesis using i update_first_get [OF True, of v k']
        by (simp add: t' jget_def bucket_of_def)
    next
      case False
      then show ?thesis by (auto simp: t' jget_def bucket_of_def)
    qed
    ultimately show ?thesis using p' c by (simp add: jwf_def t' del: length_concat)
  next
    case False
    define t1 where "t1 = (if threshold t \<le> count_of t then rehash t else t)"
    have t': "jput k v t =
        t1\<lparr>buckets := add_entry (k, v) (buckets t1), count_of := count_of t1 + 1\<rparr>"
      using False by (simp add: jput_def t1_def Let_def)
    have w1: "jwf t1" and m1: "mset (concat (buckets t1)) = mset (concat ?bs)"
      using rehash_wf [OF wf] wf by (auto simp: t1_def)
    have "map_of (bucket_of t k) k = None" using False by (simp add: map_of_eq_None_iff)
    then have "map_of (concat ?bs) k = None" using jget_entries [OF p, of k] by (simp add: jget_def)
    then have "k \<notin> fst ` set (concat ?bs)" by (simp add: map_of_eq_None_iff)
    then have new: "k \<notin> fst ` set (concat (buckets t1))" using m1 by (metis set_mset_mset)
    have p1: "placed (buckets t1)" using w1 by (simp add: jwf_def)
    have ne: "buckets t1 \<noteq> []" using p1 by (simp add: placed_def)
    have p2: "placed (add_entry (k, v) (buckets t1))" by (rule placed_add [OF p1]) (use new in simp)
    have m2: "mset (concat (add_entry (k, v) (buckets t1))) = mset ((k, v) # concat (buckets t1))"
      using mset_add_entry [OF ne] by simp
    then have "length (concat (add_entry (k, v) (buckets t1))) = Suc (length (concat (buckets t1)))"
      by (metis length_Cons size_mset)
    then have wf': "jwf (jput k v t)" using p2 w1 by (simp add: jwf_def t' del: length_concat)
    have a: "map_of (concat (buckets (jput k v t))) = map_of ((k, v) # concat (buckets t1))"
      by (rule map_of_mset) (use m2 p2 in \<open>simp_all add: t' placed_def\<close>)
    have "map_of (concat (buckets t1)) = map_of (concat ?bs)"
      by (rule map_of_mset [OF m1]) (use p1 in \<open>simp add: placed_def\<close>)
    then have "map_of ((k, v) # concat (buckets t1)) k' = (if k' = k then Some v else jget t k')"
      by (simp add: old)
    then show ?thesis using a wf' jget_entries [of "jput k v t"] by (simp add: jwf_def)
  qed
  then show "jwf (jput k v t)" "jget (jput k v t) k' = (if k' = k then Some v else jget t k')"
    by simp_all
qed

interpretation jstore: store jwf jput jget jkeys
proof
  fix t :: "'v jtable" and k v
  assume wf: "jwf t"
  show "jwf (jput k v t)" by (rule jput_wf(1) [OF wf])
  show "jget (jput k v t) k' = (if k' = k then Some v else jget t k')" for k'
    by (rule jput_wf(2) [OF wf])
  have s: "set (concat (rev (buckets t))) = set (concat (buckets t))" by auto
  show "set (jkeys t) = {k. jget t k \<noteq> None}"
    using wf jget_entries [of t] by (auto simp: jwf_def jkeys_def map_of_eq_None_iff)
  show "distinct (jkeys t)"
    using wf distinct_fst_mset [OF mset_concat_rev [of "buckets t"]]
    by (simp add: jkeys_def jwf_def placed_def)
qed

lemma new_wf: "jwf newJTable"
  by (simp add: jwf_def newJTable_def placed_def del: replicate_Suc)

text \<open>
  The table is a map whatever its buckets and rehashes do: after any sequence of puts, a key
  has the last value put for it, a key never put has none, and the iteration gives each key once.
\<close>

theorem table_is_a_map:
  "jget (fold (\<lambda>(k, v). jput k v) kvs newJTable) k = map_of (rev kvs) k \<and>
   distinct (jkeys (fold (\<lambda>(k, v). jput k v) kvs newJTable)) \<and>
   set (jkeys (fold (\<lambda>(k, v). jput k v) kvs newJTable)) = fst ` set kvs"
proof -
  have e: "jget newJTable k = None" for k
    using jget_entries [of newJTable] new_wf by (simp add: jwf_def) (simp add: newJTable_def)
  have n: "jkeys newJTable = []" by (simp add: jkeys_def newJTable_def)
  show ?thesis
    using jstore.get_put_all [OF new_wf, of kvs k] jstore.keys_put_all [OF new_wf, of kvs]
      jstore.keys_distinct [OF jstore.put_all_wf [OF new_wf], of kvs]
    by (simp add: jstore.put_all_def e n split: option.splits)
qed

end
