(* ===== verification/Sizing.thy ===== *)
theory Sizing
  imports Jtable Decimal Ordering "HOL-Library.Signed_Division"
begin

text \<open>
  How many cases a run does at once (\<open>internal/sizing/sizing.go\<close>). Doubles are exact: a double is
  a natural number of at most 53 significant bits over a power of two, a product is rounded to
  53 bits, and the constants 0.8, 1.05 and 1.15 are the doubles nearest to them. Integer division
  truncates as Go's does. Sums and products of megabytes and seconds are taken not to overflow.
  The machine's processors are an argument; what it takes to read them is not modelled.
\<close>

datatype mode = Conservative | Measured | Aggressive

fun mode_name :: "mode \<Rightarrow> string" where
  "mode_name Conservative = ''conservative''"
| "mode_name Measured = ''measured''"
| "mode_name Aggressive = ''aggressive''"

text \<open>\<open>ModeOf\<close>: the mode, and the text complained about when it is none of the three.\<close>

definition ModeOf :: "string \<Rightarrow> mode \<times> string option" where
  "ModeOf s =
     (let m = to_lower (trim_space s) in
      if m = [] then (Measured, None)
      else case find (\<lambda>x. mode_name x = m) [Conservative, Measured, Aggressive] of
        Some x \<Rightarrow> (x, None)
      | None \<Rightarrow> (Measured, Some s))"

definition double :: "nat \<Rightarrow> nat" where
  "double n = round_to 53 n"

text \<open>\<open>int(float64(b) * m.factor())\<close>, with 0.8 as 3602879701896397 over \<open>2 ^ 52\<close>.\<close>

definition scale_by :: "mode \<Rightarrow> nat \<Rightarrow> nat" where
  "scale_by m b =
     (case m of
        Conservative \<Rightarrow> double (double b * 2)
      | Measured \<Rightarrow> double b
      | Aggressive \<Rightarrow> double (double b * 3602879701896397) div 2 ^ 52)"

fun growth :: "mode \<Rightarrow> int" where
  "growth Conservative = 1"
| "growth Aggressive = 4"
| "growth Measured = 2"

definition reservedMB :: int where "reservedMB = 2048"

definition shipped :: "string \<Rightarrow> int" where
  "shipped s = (if s = ''isolation'' then 1750 else if s = ''sql'' then 2600
     else if s = ''medium'' then 2600 else 0)"

definition start_slots :: "string \<Rightarrow> int" where
  "start_slots s = (if s = ''isolation'' then 4 else if s = ''sql'' then 4
     else if s = ''medium'' then 1 else if s = ''shell'' then 1 else 0)"

record engine =
  DataBufferMB :: int
  LogBufferMB :: int

definition buffers :: "engine \<Rightarrow> int" where
  "buffers e = DataBufferMB e + LogBufferMB e"

definition megabytes :: "string \<Rightarrow> int" where
  "megabytes s0 =
     (let s = trim_space s0 in
      if s = [] then 0
      else (let unit = (if last s \<in> {CHR ''K'', CHR ''k''} then Some 1024
                        else if last s \<in> {CHR ''M'', CHR ''m''} then Some (1024 * 1024)
                        else if last s \<in> {CHR ''G'', CHR ''g''} then Some (1024 * 1024 * 1024)
                        else None);
                mult = (case unit of Some m \<Rightarrow> m | None \<Rightarrow> 1);
                digits = (case unit of Some _ \<Rightarrow> butlast s | None \<Rightarrow> s)
            in case atoi (trim_space digits) of
                 None \<Rightarrow> 0
               | Some n \<Rightarrow> (n * mult) sdiv (1024 * 1024)))"

definition With :: "engine \<Rightarrow> string \<Rightarrow> string \<Rightarrow> engine" where
  "With e dataBuffer logBuffer =
     (let e1 = (if 0 < megabytes dataBuffer then e\<lparr>DataBufferMB := megabytes dataBuffer\<rparr> else e)
      in if 0 < megabytes logBuffer then e1\<lparr>LogBufferMB := megabytes logBuffer\<rparr> else e1)"

record machine =
  m_host :: string
  m_cores :: int
  m_mem :: int

definition same :: "machine \<Rightarrow> machine \<Rightarrow> bool" where
  "same m o' \<longleftrightarrow> m_host m = m_host o' \<and> m_cores m = m_cores o' \<and> m_mem m = m_mem o'"

record size_record =
  r_when :: string
  r_machine :: machine
  r_engine :: engine
  r_corpus :: string
  r_lane :: string
  r_slots :: int
  r_cases :: int
  r_wall :: int
  r_case_s :: int
  r_longest :: int
  r_peak :: int
  r_shared :: int
  r_per_slot :: int

record input =
  in_suite :: string
  in_configured :: string
  in_mode :: mode
  in_engine :: engine
  in_avail :: int
  in_shared :: int
  in_cpus :: int
  in_cases :: int
  in_corpus :: string
  in_lane :: string
  in_records :: "size_record list"

type_synonym bound = "int \<times> string"

subsection \<open>Records that say something about this run\<close>

definition corpus_cases :: "input \<Rightarrow> int" where
  "corpus_cases i =
     (if in_cases i \<noteq> 0 then in_cases i
      else case find (\<lambda>x. r_corpus x = in_corpus i \<and> 0 < r_cases x) (in_records i) of
        Some x \<Rightarrow> r_cases x
      | None \<Rightarrow> 0)"

definition sameCorpus :: "input \<Rightarrow> size_record \<Rightarrow> bool" where
  "sameCorpus i r =
     (if in_corpus i = [] \<or> r_corpus r \<noteq> in_corpus i then False
      else (let cs = corpus_cases i in
        if cs = 0 \<or> r_cases r = 0 then True
        else (let d = r_cases r - cs in d * 10 \<le> cs \<and> - d * 10 \<le> cs)))"

definition peersWindow :: nat where "peersWindow = 4"

fun one_per_count :: "int set \<Rightarrow> size_record list \<Rightarrow> size_record list" where
  "one_per_count seen [] = []"
| "one_per_count seen (r # rs) =
     (if r_slots r \<in> seen then one_per_count seen rs
      else r # one_per_count (insert (r_slots r) seen) rs)"

definition peers :: "input \<Rightarrow> size_record list" where
  "peers i =
     one_per_count {} (take peersWindow
       (filter (\<lambda>r. \<not> (r_lane r \<noteq> in_lane i \<or> \<not> sameCorpus i r \<or> r_slots r \<le> 0)) (in_records i)))"

definition laneName :: "string \<Rightarrow> string" where
  "laneName l = (if l = [] then ''this lane'' else l)"

definition most_slots :: "input \<Rightarrow> int" where
  "most_slots i = fold (\<lambda>r m. max m (r_slots r)) (peers i) 0"

definition tried :: "input \<Rightarrow> bound" where
  "tried i =
     (let most = most_slots i; lane = laneName (in_lane i); g = growth (in_mode i) in
      if most = 0 then
        (let n = max (start_slots (in_suite i)) 1
         in (n, itoa n @ '', where a first run of this corpus on '' @ lane @ '' starts''))
      else if g = 1 then (most, itoa most @ '', the most this machine has run on '' @ lane)
      else (most * g, itoa (most * g) @ '', '' @ itoa g @ '' times the '' @ itoa most @
              '' this machine has run on '' @ lane))"

text \<open>\<open>float64(a) <= float64(b)*1.05\<close>, with 1.05 as 4728779608739021 over \<open>2 ^ 52\<close>.\<close>

definition within_noise :: "int \<Rightarrow> int \<Rightarrow> bool" where
  "within_noise a b \<longleftrightarrow> double (nat a) * 2 ^ 52 \<le> double (double (nat b) * 4728779608739021)"

definition knee :: "input \<Rightarrow> bound option" where
  "knee i =
     (case filter (\<lambda>r. 0 < r_wall r) (peers i) of
        r0 # r1 # rs \<Rightarrow>
          (let runs = r0 # r1 # rs;
               fastest = fold (\<lambda>r f. if r_wall r < r_wall f then r else f) (tl runs) r0;
               best = fold (\<lambda>r b. if within_noise (r_wall r) (r_wall fastest) \<and> r_slots r < r_slots b
                                  then r else b) runs fastest;
               over = fold (\<lambda>r ov. if r_slots best < r_slots r \<and>
                                      (case ov of None \<Rightarrow> True | Some x \<Rightarrow> r_wall r < r_wall x)
                                   then Some r else ov) runs None
           in case over of
                None \<Rightarrow> None
              | Some x \<Rightarrow> Some (r_slots best, itoa (r_slots best) @
                  '', the fewest slots within 5% of the fastest run of this corpus on '' @
                  laneName (in_lane i) @ '': '' @ itoa (r_slots best) @ '' took '' @
                  itoa (r_wall best) @ '' s, '' @ itoa (r_slots x) @ '' took '' @ itoa (r_wall x) @
                  '' s''))
      | _ \<Rightarrow> None)"

fun corpus_scan :: "input \<Rightarrow> size_record list \<Rightarrow> size_record option \<Rightarrow> bound option" where
  "corpus_scan i [] other =
     (case other of
        None \<Rightarrow> None
      | Some r \<Rightarrow>
          (let caseS = (r_case_s r * in_cases i) sdiv r_cases r;
               n = caseS sdiv r_longest r
           in Some (n, itoa n @ '' by the corpus (about '' @ itoa caseS @
                '' s of cases, scaled from another corpus's '' @ itoa (r_cases r) @
                '', the longest unit '' @ itoa (r_longest r) @ '' s)'')))"
| "corpus_scan i (r # rs) other =
     (if r_case_s r \<le> 0 \<or> r_longest r \<le> 0 then corpus_scan i rs other
      else if sameCorpus i r
      then (let n = r_case_s r sdiv r_longest r
            in Some (n, itoa n @ '' by the corpus ('' @ itoa (r_case_s r) @
                 '' s of cases, the longest unit '' @ itoa (r_longest r) @
                 '' s: more slots stop helping)''))
      else corpus_scan i rs (if other = None \<and> 0 < in_cases i \<and> 0 < r_cases r then Some r else other))"

definition corpusBound :: "input \<Rightarrow> bound option" where
  "corpusBound i = corpus_scan i (in_records i) None"

subsection \<open>The budget of a slot\<close>

text \<open>\<open>int(math.Round(float64(mb) * margin))\<close>, with 1.15 as 2589569785738035 over \<open>2 ^ 51\<close>.\<close>

definition withMargin :: "int \<Rightarrow> int" where
  "withMargin mb = int ((2 * double (double (nat mb) * 2589569785738035) + 2 ^ 51) div 2 ^ 52)"

definition adjusted :: "size_record \<Rightarrow> engine \<Rightarrow> int" where
  "adjusted r e =
     (if r_per_slot r \<le> 0 then 0
      else if 0 < buffers (r_engine r) \<and> 0 < buffers e
      then r_per_slot r - buffers (r_engine r) + buffers e
      else r_per_slot r)"

definition covering_step :: "input \<Rightarrow> size_record \<Rightarrow> int \<times> int \<Rightarrow> int \<times> int" where
  "covering_step i r ca =
     (case ca of (covering, any) \<Rightarrow>
       let mb = adjusted r (in_engine i) in
       if mb \<le> 0 then (covering, any)
       else (if sameCorpus i r \<or> (0 < in_cases i \<and> in_cases i \<le> r_cases r)
             then max covering mb else covering, max any mb))"

definition budgetFor :: "input \<Rightarrow> int \<times> string" where
  "budgetFor i =
     (case fold (covering_step i) (in_records i) (0, 0) of (covering, any) \<Rightarrow>
        if 0 < covering then (withMargin covering, ''this machine's own runs of it'')
        else (let ship = shipped (in_suite i) in
          if ship = 0 then (0, [])
          else if ship < withMargin any
          then (withMargin any, ''this machine's runs of a smaller corpus, which is more than the shipped figure'')
          else (ship, ''the shipped figure, until this machine has run this corpus'')))"

subsection \<open>The decision\<close>

definition slot_budget :: "input \<Rightarrow> int" where
  "slot_budget i = max (int (scale_by (in_mode i) (nat (fst (budgetFor i))))) 1"

definition memory_room :: "input \<Rightarrow> int" where
  "memory_room i = in_avail i - reservedMB - in_shared i"

definition memory_bound :: "input \<Rightarrow> bound" where
  "memory_bound i =
     (let n = memory_room i sdiv slot_budget i; whence = snd (budgetFor i) in
      if 0 < in_shared i
      then (n, itoa n @ '' by memory ('' @ itoa (in_avail i) @ '' MB less '' @ itoa reservedMB @
        '', less '' @ itoa (in_shared i) @ '' set aside for the run's writes, at '' @
        itoa (slot_budget i) @ '' MB a slot, '' @ whence @ '')'')
      else (n, itoa n @ '' by memory ('' @ itoa (in_avail i) @ '' MB less '' @ itoa reservedMB @
        '', at '' @ itoa (slot_budget i) @ '' MB a slot, '' @ whence @ '')''))"

definition cpu_count :: "int \<Rightarrow> input \<Rightarrow> int" where
  "cpu_count numCPU i = (if in_cpus i \<le> 0 then numCPU else in_cpus i)"

definition opt_list :: "'a option \<Rightarrow> 'a list" where
  "opt_list x = (case x of None \<Rightarrow> [] | Some y \<Rightarrow> [y])"

definition bounds :: "int \<Rightarrow> input \<Rightarrow> bound list" where
  "bounds numCPU i =
     [memory_bound i, (cpu_count numCPU i, itoa (cpu_count numCPU i) @ '' by processors'')] @
     (if 0 < in_cases i then [(in_cases i, itoa (in_cases i) @ '', one for each case'')] else []) @
     [tried i] @
     (if in_mode i \<noteq> Aggressive then opt_list (knee i) else []) @
     opt_list (corpusBound i)"

definition smallest :: "bound list \<Rightarrow> bound" where
  "smallest bs = fold (\<lambda>b best. if fst b < fst best then b else best) (tl bs) (hd bs)"

definition Slots :: "int \<Rightarrow> input \<Rightarrow> int \<times> string" where
  "Slots numCPU i =
     (let s = trim_space (in_configured i) in
      if s \<noteq> [] then
        (case atoi s of
           Some n \<Rightarrow> if 1 \<le> n then (n, ''parallel_slots='' @ itoa n)
                     else (1, ''parallel_slots='' @ s @ '' is not a number of slots; running one'')
         | None \<Rightarrow> (1, ''parallel_slots='' @ s @ '' is not a number of slots; running one''))
      else if fst (budgetFor i) \<le> 0
      then (1, in_suite i @ '' has no measured slot cost on this machine: running one, and measuring it (ADR-020)'')
      else if in_avail i \<le> 0 then (1, ''the machine's free memory is unknown: running one'')
      else (let best = smallest (bounds numCPU i);
                best1 = (if fst best < 1 then (1, snd best @ ''; one is the floor'') else best)
            in (fst best1, snd best1 @
                 (if in_mode i \<noteq> Measured then '', sized '' @ mode_name (in_mode i) else []))))"

subsection \<open>The records kept\<close>

text \<open>
  \<open>Load\<close> and \<open>Save\<close> of \<open>internal/sizing/record.go\<close> between reading the file and writing it:
  \<open>here\<close> is this machine, and the new record comes last.
\<close>

definition keep :: nat where "keep = 10"

definition Load :: "machine \<Rightarrow> size_record list \<Rightarrow> size_record list" where
  "Load here runs =
     sort_by (\<lambda>a b. byte_less (r_when b) (r_when a)) (filter (\<lambda>r. same (r_machine r) here) runs)"

fun trim_runs :: "(machine \<Rightarrow> nat) \<Rightarrow> size_record list \<Rightarrow> size_record list" where
  "trim_runs cnt [] = []"
| "trim_runs cnt (x # xs) =
     (if keep < cnt (r_machine x) then trim_runs (cnt(r_machine x := cnt (r_machine x) - 1)) xs
      else x # trim_runs cnt xs)"

definition completed :: "machine \<Rightarrow> string \<Rightarrow> size_record \<Rightarrow> size_record" where
  "completed here now r =
     (let r1 = (if r_when r = [] then r\<lparr>r_when := now\<rparr> else r);
          r2 = (if m_host (r_machine r1) = [] then r1\<lparr>r_machine := here\<rparr> else r1)
      in if r_per_slot r2 = 0 \<and> 0 < r_slots r2 \<and> r_shared r2 < r_peak r2
         then r2\<lparr>r_per_slot := (r_peak r2 - r_shared r2) sdiv r_slots r2\<rparr> else r2)"

definition Save :: "machine \<Rightarrow> string \<Rightarrow> size_record \<Rightarrow> size_record list \<Rightarrow> size_record list" where
  "Save here now r old =
     (let runs = old @ [completed here now r]
      in trim_runs (\<lambda>m. length (filter (\<lambda>x. r_machine x = m) runs)) runs)"

end
