(* ===== verification/Sizing_Claims.thy ===== *)
theory Sizing_Claims
  imports Sizing
begin

text \<open>
  What the slot count promises: at least one slot and never more than the bounds, an operator's
  figure above everything, memory that is enough for the slots, and modes in the order of their
  names.
\<close>

subsection \<open>The smallest bound\<close>

lemma fold_smallest:
  "fst (fold (\<lambda>b best. if fst b < fst best then b else best) bs (b0 :: bound)) = Min (fst ` set (b0 # bs))"
proof (induction bs arbitrary: b0)
  case (Cons b bs)
  have "fst (if fst b < fst b0 then b else b0) = min (fst b) (fst b0)" by (auto simp: min_def)
  then show ?case using Cons.IH [of "if fst b < fst b0 then b else b0"]
    by (cases "bs = []") (auto simp: min.commute min.left_commute)
qed simp

lemma smallest_Min: "bs \<noteq> [] \<Longrightarrow> fst (smallest bs) = Min (fst ` set bs)"
  using fold_smallest [of "tl bs" "hd bs"] by (simp add: smallest_def)

lemma bounds_not_Nil [simp]: "bounds n i \<noteq> []"
  by (simp add: bounds_def)

lemma fst_memory_bound: "fst (memory_bound i) = memory_room i sdiv slot_budget i"
  by (simp add: memory_bound_def Let_def)

lemma bounds_values:
  "fst ` set (bounds n i) =
     {fst (memory_bound i), cpu_count n i, fst (tried i)} \<union> (if 0 < in_cases i then {in_cases i} else {}) \<union>
     (if in_mode i = Aggressive then {} else fst ` set_option (knee i)) \<union> fst ` set_option (corpusBound i)"
  by (auto simp: bounds_def opt_list_def image_Un split: option.splits)

definition sized :: "input \<Rightarrow> bool" where
  "sized i \<longleftrightarrow> trim_space (in_configured i) = [] \<and> 0 < fst (budgetFor i) \<and> 0 < in_avail i"

lemma Slots_sized: "sized i \<Longrightarrow> fst (Slots n i) = max 1 (Min (fst ` set (bounds n i)))"
  using smallest_Min [of "bounds n i"] by (auto simp: Slots_def sized_def Let_def)

text \<open>
  A run always has at least one slot; with a positive \<open>parallel_slots\<close> it has exactly that
  many, whatever memory, processors and records say, and with anything else written there, one.
\<close>

theorem slots_floor_and_override:
  "1 \<le> fst (Slots n i) \<and>
   (trim_space (in_configured i) \<noteq> [] \<longrightarrow>
      fst (Slots n i) =
        (case atoi (trim_space (in_configured i)) of Some k \<Rightarrow> max 1 k | None \<Rightarrow> 1))"
  by (auto simp: Slots_def Let_def split: option.split)

theorem slots_floor_and_override_witness:
  "\<exists>i. trim_space (in_configured i) = ''8'' \<and> fst (Slots 1 i) = 8"
proof -
  define i :: input where "i = \<lparr>in_suite = ''sql'', in_configured = ''8'', in_mode = Measured,
    in_engine = \<lparr>DataBufferMB = 0, LogBufferMB = 0\<rparr>, in_avail = 0, in_shared = 0, in_cpus = 1,
    in_cases = 0, in_corpus = [], in_lane = [], in_records = []\<rparr>"
  have "trimmed ''8''" by (rule graphic_trimmed) (simp add: graphic_def char_nat_def)
  then have t: "trim_space (in_configured i) = ''8''" by (simp add: i_def trim_space_trimmed)
  have "atoi ''8'' = Some 8"
    by (simp add: atoi_def all_digits_def is_digit_def char_nat_def digits_val_def digit_val_def
        ranged_def in_int_def int_lo_def int_hi_def)
  then show ?thesis using slots_floor_and_override [of 1 i] t by auto
qed

subsection \<open>Memory\<close>

lemma sdiv_fits:
  fixes x b n :: int
  assumes "0 < b" and "n \<le> x sdiv b" and "1 \<le> n"
  shows "n * b \<le> x"
proof -
  have "0 \<le> x" using assms
    by (cases "0 \<le> x") (auto simp: signed_divide_int_def sgn_if split: if_splits, smt (verit) pos_imp_zdiv_neg_iff)
  then have "x sdiv b = x div b" using assms(1) by (simp add: signed_divide_int_def sgn_if)
  then have "n \<le> x div b" using assms(2) by simp
  then have "n * b \<le> x div b * b" using assms(1) by (simp add: mult_right_mono)
  also have "\<dots> = x - x mod b" by (simp add: minus_mod_eq_div_mult)
  also have "\<dots> \<le> x" using assms(1) by simp
  finally show ?thesis .
qed

lemma slot_budget_pos: "0 < slot_budget i"
  by (simp add: slot_budget_def)

lemma unconfigured_slots_fit:
  assumes "trim_space (in_configured i) = []" and "1 < fst (Slots n i)"
  shows "fst (Slots n i) * slot_budget i + in_shared i + reservedMB \<le> in_avail i \<and>
    fst (Slots n i) \<le> cpu_count n i \<and> (0 < in_cases i \<longrightarrow> fst (Slots n i) \<le> in_cases i)"
proof -
  have s: "sized i" using assms by (auto simp: sized_def Slots_def Let_def split: if_splits)
  let ?b = "fst ` set (bounds n i)"
  have m: "fst (Slots n i) = Min ?b" using Slots_sized [OF s] assms(2) by simp
  have le: "fst (Slots n i) \<le> x" if "x \<in> ?b" for x unfolding m using that by simp
  have "fst (memory_bound i) = memory_room i sdiv slot_budget i" by (simp add: memory_bound_def Let_def)
  moreover have "fst (memory_bound i) \<in> ?b" by (simp add: bounds_def)
  ultimately have "fst (Slots n i) * slot_budget i \<le> memory_room i"
    using le assms(2) by (intro sdiv_fits [OF slot_budget_pos]) auto
  moreover have "fst (Slots n i) \<le> cpu_count n i" using le by (simp add: bounds_def)
  moreover have "0 < in_cases i \<Longrightarrow> fst (Slots n i) \<le> in_cases i" using le by (simp add: bounds_def)
  ultimately show ?thesis by (simp add: memory_room_def)
qed

text \<open>
  C39: A number of slots that is configured is taken as it is, and anything else written there means
  one. With nothing configured the slots fit the machine: more than one only where their budgets, the
  run's own memory and the reserve together are within what is available, no more than the
  processors, and no more than the cases of the run.
\<close>

theorem slots_fit_the_machine:
  "if trim_space (in_configured i) \<noteq> []
   then fst (Slots n i) = (case atoi (trim_space (in_configured i)) of Some k \<Rightarrow> max 1 k | None \<Rightarrow> 1)
   else 1 < fst (Slots n i) \<longrightarrow>
     fst (Slots n i) * slot_budget i + in_shared i + reservedMB \<le> in_avail i \<and>
     fst (Slots n i) \<le> cpu_count n i \<and> (0 < in_cases i \<longrightarrow> fst (Slots n i) \<le> in_cases i)"
proof (cases "trim_space (in_configured i) = []")
  case True
  then show ?thesis using unconfigured_slots_fit [of i n] by simp
next
  case False
  then show ?thesis by (auto simp: Slots_def Let_def split: option.split)
qed

definition small_box :: input where
  "small_box = \<lparr>in_suite = ''sql'', in_configured = [], in_mode = Measured,
    in_engine = \<lparr>DataBufferMB = 0, LogBufferMB = 0\<rparr>, in_avail = 8000, in_shared = 0, in_cpus = 16,
    in_cases = 0, in_corpus = [], in_lane = [], in_records = []\<rparr>"

lemma small_box_simps:
  "in_records small_box = []" "in_suite small_box = ''sql''" "in_mode small_box = Measured"
  "in_avail small_box = 8000" "in_shared small_box = 0" "in_cpus small_box = 16"
  "in_cases small_box = 0" "trim_space (in_configured small_box) = []" "in_lane small_box = []"
  by (simp_all add: small_box_def trim_space_trimmed graphic_trimmed)

subsection \<open>Rounding\<close>

lemma bit_len_le: "bit_len n \<le> p \<longleftrightarrow> n < 2 ^ p"
proof (induction p arbitrary: n)
  case 0
  show ?case by (subst bit_len.simps) simp
next
  case (Suc p)
  show ?case using Suc [of "n div 2"] by (subst bit_len.simps) (auto simp: less_mult_imp_div_less)
qed

lemma round_exact: "n < 2 ^ p \<Longrightarrow> round_to p n = n"
  by (simp add: round_to_def bit_len_le)

lemma round_error: "2 ^ p * round_to p m \<le> (2 ^ p + 1) * m"
proof (cases "bit_len m \<le> p")
  case True
  then show ?thesis by (simp add: round_to_def)
next
  case False
  define s where "s = bit_len m - p"
  have s: "0 < s" "bit_len m = s + p" using False by (simp_all add: s_def)
  have half: "2 ^ s = 2 * (2 ^ (s - 1) :: nat)" using s(1) by (simp flip: power_Suc)
  have "\<not> bit_len m \<le> s - 1 + p" using s by simp
  then have big: "2 ^ p * 2 ^ (s - 1) \<le> m" by (simp add: bit_len_le power_add mult.commute)
  have "round_to p m \<le> m + 2 ^ (s - 1)"
    using div_mult_mod_eq [of m "2 ^ s"] half False
    by (auto simp: round_to_def Let_def algebra_simps simp flip: s_def)
  then have "2 ^ p * round_to p m \<le> 2 ^ p * (m + 2 ^ (s - 1))" by (rule mult_le_mono2)
  then show ?thesis using big by (simp add: algebra_simps)
qed

lemma scale_measured: "b < 2 ^ 52 \<Longrightarrow> scale_by Measured b = b"
  by (simp add: scale_by_def double_def round_exact)

lemma scale_conservative: "b < 2 ^ 52 \<Longrightarrow> scale_by Conservative b = 2 * b"
  by (simp add: scale_by_def double_def round_exact)

lemma scale_aggressive: "b < 2 ^ 52 \<Longrightarrow> scale_by Aggressive b \<le> b"
proof -
  assume b: "b < 2 ^ 52"
  let ?r = "round_to 53 (b * 3602879701896397)"
  have "2 ^ 53 * ?r \<le> (2 ^ 53 + 1) * (b * 3602879701896397)" by (rule round_error)
  also have "\<dots> \<le> 2 ^ 53 * (b * 2 ^ 52)" by simp
  finally have "?r \<le> b * 2 ^ 52" by simp
  then have "?r div 2 ^ 52 \<le> b * 2 ^ 52 div 2 ^ 52" by (rule div_le_mono)
  then show ?thesis using b by (simp add: scale_by_def double_def round_exact)
qed

theorem slots_fit_the_machine_witness:
  "fst (Slots 1 small_box) * slot_budget small_box + 2048 \<le> 8000 \<and> fst (Slots 1 small_box) \<le> 16"
proof -
  have b: "fst (budgetFor small_box) = 2600"
    by (simp add: budgetFor_def small_box_simps shipped_def withMargin_def double_def round_exact)
  then have m: "fst (memory_bound small_box) = 2"
    by (simp add: fst_memory_bound memory_room_def slot_budget_def small_box_simps
        scale_measured reservedMB_def signed_divide_int_def)
  have "peers small_box = []" by (simp add: peers_def small_box_simps)
  then have "fst (tried small_box) = 4" "knee small_box = None" "corpusBound small_box = None"
    by (simp_all add: tried_def most_slots_def start_slots_def knee_def corpusBound_def small_box_simps Let_def)
  then have "fst (Slots 1 small_box) = 2"
    using Slots_sized [of small_box 1] m b
    by (simp add: sized_def small_box_simps bounds_values cpu_count_def)
  then show ?thesis
    using slots_fit_the_machine [of small_box 1] by (simp add: small_box_simps cpu_count_def reservedMB_def)
qed

subsection \<open>The three modes\<close>

abbreviation as_mode :: "input \<Rightarrow> mode \<Rightarrow> input" where
  "as_mode i m \<equiv> i\<lparr>in_mode := m\<rparr>"

lemma mode_free:
  "sameCorpus (as_mode i m) = sameCorpus i" "peers (as_mode i m) = peers i"
  "most_slots (as_mode i m) = most_slots i" "corpusBound (as_mode i m) = corpusBound i"
  "budgetFor (as_mode i m) = budgetFor i" "knee (as_mode i m) = knee i"
  "memory_room (as_mode i m) = memory_room i" "cpu_count n (as_mode i m) = cpu_count n i"
proof -
  show c: "sameCorpus (as_mode i m) = sameCorpus i"
    by (rule ext) (simp add: sameCorpus_def corpus_cases_def)
  show p: "peers (as_mode i m) = peers i" by (simp add: peers_def c)
  show "most_slots (as_mode i m) = most_slots i" by (simp add: most_slots_def p)
  have "corpus_scan (as_mode i m) rs ov = corpus_scan i rs ov" for rs ov
    by (induction rs arbitrary: ov) (simp_all add: c split: option.split)
  then show "corpusBound (as_mode i m) = corpusBound i" by (simp add: corpusBound_def)
  have "covering_step (as_mode i m) = covering_step i"
    by (intro ext) (auto simp: covering_step_def c Let_def split: prod.split)
  then show "budgetFor (as_mode i m) = budgetFor i" by (simp add: budgetFor_def Let_def split: prod.split)
  have l: "in_lane (as_mode i m) = in_lane i" by simp
  show "knee (as_mode i m) = knee i" unfolding knee_def p l ..
  show "memory_room (as_mode i m) = memory_room i" by (simp add: memory_room_def)
  show "cpu_count n (as_mode i m) = cpu_count n i" by (simp add: cpu_count_def)
qed

lemma fold_max_pos: "(0 :: int) \<le> m0 \<Longrightarrow> 0 \<le> fold (\<lambda>r m. max m (f r)) xs m0"
  by (induction xs arbitrary: m0) auto

lemma most_slots_pos: "0 \<le> most_slots i"
  by (simp add: most_slots_def fold_max_pos)

lemma tried_mono:
  "growth m1 \<le> growth m2 \<Longrightarrow> fst (tried (as_mode i m1)) \<le> fst (tried (as_mode i m2))"
  using mult_left_mono [of "growth m1" "growth m2" "most_slots i"] most_slots_pos [of i]
  by (cases m1; cases m2) (auto simp: tried_def Let_def mode_free)

lemma sdiv_anti:
  fixes x a b :: int
  assumes "0 < a" "a \<le> b"
  shows "max 1 (x sdiv b) \<le> max 1 (x sdiv a)"
proof (cases "0 \<le> x")
  case True
  then have "x div b \<le> x div a" using assms by (simp add: zdiv_mono2)
  then show ?thesis using True assms by (auto simp: signed_divide_int_def sgn_if)
next
  case False
  then have "x sdiv b \<le> 0" using assms by (simp add: signed_divide_int_def sgn_if pos_imp_zdiv_nonneg_iff)
  then show ?thesis by simp
qed

lemma memory_mono:
  "slot_budget (as_mode i m2) \<le> slot_budget (as_mode i m1) \<Longrightarrow>
   max 1 (fst (memory_bound (as_mode i m1))) \<le> max 1 (fst (memory_bound (as_mode i m2)))"
  using sdiv_anti [OF slot_budget_pos, of "as_mode i m2" "slot_budget (as_mode i m1)" "memory_room i"]
  by (simp add: fst_memory_bound mode_free)

text \<open>A mode that budgets less and grows faster, and does not add a bound, never runs fewer.\<close>

lemma Slots_mono:
  assumes "slot_budget (as_mode i m2) \<le> slot_budget (as_mode i m1)" "growth m1 \<le> growth m2"
    "m1 = Aggressive \<longrightarrow> m2 = Aggressive"
  shows "fst (Slots n (as_mode i m1)) \<le> fst (Slots n (as_mode i m2))"
proof (cases "sized (as_mode i m1)")
  case True
  then have s2: "sized (as_mode i m2)" by (simp add: sized_def mode_free)
  let ?b1 = "fst ` set (bounds n (as_mode i m1))" and ?b2 = "fst ` set (bounds n (as_mode i m2))"
  have "max 1 (Min ?b1) \<le> max 1 x" if "x \<in> ?b2" for x
  proof -
    have t: "max 1 (fst (tried (as_mode i m1))) \<le> max 1 (fst (tried (as_mode i m2)))"
      using tried_mono [OF assms(2), of i] by simp
    have "x = fst (memory_bound (as_mode i m2)) \<or> x = fst (tried (as_mode i m2)) \<or> x \<in> ?b1"
      using that assms(3) by (auto simp: bounds_values mode_free split: if_splits)
    moreover have "fst (memory_bound (as_mode i m1)) \<in> ?b1" "fst (tried (as_mode i m1)) \<in> ?b1"
      by (simp_all add: bounds_values)
    ultimately have "\<exists>y \<in> ?b1. max 1 y \<le> max 1 x" using t memory_mono [OF assms(1)] by blast
    then obtain y where "y \<in> ?b1" "max 1 y \<le> max 1 x" by blast
    moreover have "Min ?b1 \<le> y" using \<open>y \<in> ?b1\<close> by simp
    ultimately show ?thesis by linarith
  qed
  moreover have "Min ?b2 \<in> ?b2" by (rule Min_in) simp_all
  ultimately show ?thesis by (simp add: Slots_sized [OF True] Slots_sized [OF s2])
next
  case False
  then show ?thesis
    by (auto simp: Slots_def sized_def mode_free Let_def split: option.splits)
qed

text \<open>
  On the same machine, with the same records, the cautious mode never runs more cases at once
  than the measured one, and the measured one never more than the aggressive one.
\<close>

theorem modes_are_ordered:
  assumes "fst (budgetFor i) < 2 ^ 52"
  shows "fst (Slots n (i\<lparr>in_mode := Conservative\<rparr>)) \<le> fst (Slots n (i\<lparr>in_mode := Measured\<rparr>)) \<and>
    fst (Slots n (i\<lparr>in_mode := Measured\<rparr>)) \<le> fst (Slots n (i\<lparr>in_mode := Aggressive\<rparr>))"
proof -
  have b: "nat (fst (budgetFor i)) < 2 ^ 52" using assms by simp
  show ?thesis
  proof (intro conjI Slots_mono)
    show "slot_budget (as_mode i Measured) \<le> slot_budget (as_mode i Conservative)"
      using b by (simp add: slot_budget_def mode_free scale_measured scale_conservative)
    show "slot_budget (as_mode i Aggressive) \<le> slot_budget (as_mode i Measured)"
      using scale_aggressive [OF b] b
      by (simp add: slot_budget_def mode_free scale_measured max_def) linarith
  qed simp_all
qed

theorem modes_are_ordered_witness:
  "fst (Slots 1 (small_box\<lparr>in_mode := Conservative\<rparr>)) \<le> fst (Slots 1 (small_box\<lparr>in_mode := Measured\<rparr>)) \<and>
   fst (Slots 1 (small_box\<lparr>in_mode := Measured\<rparr>)) \<le> fst (Slots 1 (small_box\<lparr>in_mode := Aggressive\<rparr>))"
  by (rule modes_are_ordered) (simp add: budgetFor_def small_box_simps shipped_def
      withMargin_def double_def round_exact)

subsection \<open>The records kept\<close>

lemma filter_trim:
  "filter (\<lambda>x. r_machine x = m) (trim_runs cnt xs) =
   drop (cnt m - keep) (filter (\<lambda>x. r_machine x = m) xs)"
proof (induction cnt xs rule: trim_runs.induct)
  case (2 cnt x xs)
  then show ?case by (cases "keep < cnt m") (auto simp: drop_Cons' Suc_diff_Suc fun_upd_def)
qed simp

text \<open>
  Saving a run keeps, of every machine that shares the file, its last ten runs in their
  order, the new one the last of its machine's; one machine's runs never push out another's.
\<close>

theorem last_ten_of_each_machine:
  "let ofm = filter (\<lambda>x. r_machine x = m); new = completed here now r; kept = ofm (Save here now r old) in
   kept = drop (length (ofm (old @ [new])) - 10) (ofm (old @ [new])) \<and> length kept \<le> 10 \<and>
   last (filter (\<lambda>x. r_machine x = r_machine new) (Save here now r old)) = new"
proof -
  let ?new = "completed here now r"
  have "last (drop (length ys - 9) (ys @ [z])) = z" for ys :: "size_record list" and z
    by (simp add: last_append)
  then have "last (filter (\<lambda>x. r_machine x = r_machine ?new) (Save here now r old)) = ?new"
    by (simp add: Save_def Let_def filter_trim keep_def)
  then show ?thesis
    by (simp add: Save_def Let_def filter_trim keep_def del: filter_append)
qed

end
