(* ===== verification/Plan.thy ===== *)
theory Plan
  imports Conf_Claims Ordering Decimal "HOL-Library.AList"
begin

text \<open>
  What a run remembers of the corpus: how long a case took and how much a directory held
  (\<open>internal/plan/plan.go\<close>, \<open>internal/plan/sizes.go\<close>). A Go map is a list of pairs with each key
  once, in the order an iteration happens to take; a nil record is \<open>None\<close>. Durations are
  nanoseconds. The text of a duration plan, which goes through decimal fractions, is left out, as
  are the locks and the replacement of the file.
\<close>

type_synonym 'v gomap = "(string \<times> 'v) list"

interpretation gomap: store "\<lambda>m :: 'v gomap. distinct (map fst m)" AList.update map_of "map fst"
proof unfold_locales
  fix m :: "'v gomap" and k k' :: string and v :: 'v
  assume wf: "distinct (map fst m)"
  show "distinct (map fst (AList.update k v m))" using wf by (rule AList.distinct_update)
  show "map_of (AList.update k v m) k' = (if k' = k then Some v else map_of m k')"
    by (simp add: update_conv')
  show "set (map fst m) = {k. map_of m k \<noteq> None}" by (auto simp: map_of_eq_None_iff)
  show "distinct (map fst m)" by (rule wf)
qed

subsection \<open>Durations\<close>

type_synonym plan_record = "int gomap option"

definition Continue :: "int gomap \<Rightarrow> plan_record" where
  "Continue prior = Some (fold (\<lambda>(n, d). AList.update n d) prior [])"

definition NewRecord :: plan_record where
  "NewRecord = Continue []"

definition plan_Add :: "string \<Rightarrow> int \<Rightarrow> plan_record \<Rightarrow> plan_record" where
  "plan_Add n d r = (case r of None \<Rightarrow> None | Some took \<Rightarrow> Some (AList.update n d took))"

text \<open>The names in the order \<open>Write\<close> puts them, none when it writes no file.\<close>

definition plan_names :: "plan_record \<Rightarrow> string \<Rightarrow> string list" where
  "plan_names r path =
     (if r = None \<or> path = [] then []
      else sort_by (most_first (\<lambda>n. case map_of (the r) n of Some d \<Rightarrow> d | None \<Rightarrow> 0)) (map fst (the r)))"

definition order_less :: "int gomap \<Rightarrow> string \<Rightarrow> string \<Rightarrow> bool" where
  "order_less known x y =
     (case (map_of known x, map_of known y) of
        (None, None) \<Rightarrow> byte_less x y
      | (None, Some _) \<Rightarrow> True
      | (Some _, None) \<Rightarrow> False
      | (Some a, Some b) \<Rightarrow> if a \<noteq> b then a > b else byte_less x y)"

definition Order :: "string list \<Rightarrow> int gomap \<Rightarrow> string list" where
  "Order cases known = (if known = [] then cases else sort_by (order_less known) cases)"

interpretation orders: total_less "order_less known" UNIV for known
proof unfold_locales
  fix x y z :: string
  show "\<not> order_less known x x" by (simp add: order_less_def split: option.split)
  show "order_less known x y \<Longrightarrow> order_less known y z \<Longrightarrow> order_less known x z"
    by (auto simp: order_less_def split: if_splits option.splits intro: byte_less_trans)
  show "order_less known x z \<Longrightarrow> order_less known x y \<or> order_less known y z"
    using byte_less_cotrans [of x z y] by (auto simp: order_less_def split: if_splits option.splits)
  show "x \<noteq> y \<Longrightarrow> order_less known x y \<or> order_less known y x"
    using byte_less_total [of x y] by (auto simp: order_less_def split: option.splits)
qed

subsection \<open>Sizes\<close>

type_synonym sizes = "int gomap option"

definition ContinueSizes :: "int gomap \<Rightarrow> sizes" where
  "ContinueSizes prior = Some (fold (\<lambda>(d, n). AList.update d n) prior [])"

definition NewSizes :: sizes where
  "NewSizes = ContinueSizes []"

definition sizes_Add :: "string \<Rightarrow> int \<Rightarrow> sizes \<Rightarrow> sizes" where
  "sizes_Add d mb s =
     (if s = None \<or> d = [] \<or> mb \<le> 0 then s else map_option (AList.update d mb) s)"

definition sizes_Merge :: "int gomap \<Rightarrow> sizes \<Rightarrow> sizes" where
  "sizes_Merge m s = fold (\<lambda>(d, mb). sizes_Add d mb) m s"

definition size_of :: "int gomap \<Rightarrow> string \<Rightarrow> int" where
  "size_of m d = (case map_of m d of Some n \<Rightarrow> n | None \<Rightarrow> 0)"

definition sizes_dirs :: "int gomap \<Rightarrow> string list" where
  "sizes_dirs m = sort_by (most_first (size_of m)) (map fst m)"

definition sizes_lines :: "int gomap \<Rightarrow> string list" where
  "sizes_lines m = map (\<lambda>d. itoa (size_of m d) @ '' '' @ d) (sizes_dirs m)"

text \<open>What \<open>Write\<close> puts in the file, \<open>None\<close> when it writes none.\<close>

definition sizes_Write :: "sizes \<Rightarrow> string \<Rightarrow> string option" where
  "sizes_Write s path =
     (if s = None \<or> path = [] then None
      else if sizes_lines (the s) = [] then None
      else Some (join_with [LF] (sizes_lines (the s)) @ [LF]))"

definition size_line :: "string \<Rightarrow> (string \<times> int) option" where
  "size_line l =
     (let line = trim_space l in
      if line = [] \<or> has_prefix line ''#'' then None
      else case index_of line '' '' of
        None \<Rightarrow> None
      | Some at \<Rightarrow>
          (case atoi (take at line) of
             None \<Rightarrow> None
           | Some mb \<Rightarrow>
               if mb < 0 then None
               else (let d = trim_space (drop (at + 1) line) in if d = [] then None else Some (d, mb))))"

definition ReadSizes :: "string \<Rightarrow> int gomap" where
  "ReadSizes t =
     fold (\<lambda>l m. case size_line l of None \<Rightarrow> m | Some (d, mb) \<Rightarrow> AList.update d mb m) (scan_lines t) []"

end
