(* ===== verification/Plan_Claims.thy ===== *)
theory Plan_Claims
  imports Plan
begin

text \<open>
  What the next run is promised: one order of the cases, whatever order they and the plan came in,
  unknown cases first and then the longest; and a record of sizes that reads back as it was.
\<close>

subsection \<open>The order of a run\<close>

lemma order_less_cong: "map_of known = map_of known' \<Longrightarrow> order_less known = order_less known'"
  by (intro ext) (simp add: order_less_def)

lemma orders_le:
  "orders.le known x y \<Longrightarrow>
   (map_of known y = None \<longrightarrow> map_of known x = None) \<and>
   (\<forall>a b. map_of known x = Some a \<longrightarrow> map_of known y = Some b \<longrightarrow> b \<le> a) \<and>
   (map_of known x = map_of known y \<longrightarrow> \<not> byte_less y x)"
  by (auto simp: orders.le_def order_less_def split: option.splits if_splits)

text \<open>
  With a plan, the cases are handed out in one order, whatever order discovery found them in
  and whatever order the plan is kept in: none lost and none twice, the ones the plan does not know
  before the ones it knows, a longer one before a shorter one, equal ones by name.
\<close>

theorem order_is_reproducible:
  assumes "known \<noteq> []"
  shows "mset (Order cases known) = mset cases \<and>
    sorted_wrt (\<lambda>x y. (map_of known y = None \<longrightarrow> map_of known x = None) \<and>
      (\<forall>a b. map_of known x = Some a \<longrightarrow> map_of known y = Some b \<longrightarrow> b \<le> a) \<and>
      (map_of known x = map_of known y \<longrightarrow> \<not> byte_less y x)) (Order cases known) \<and>
    (\<forall>cases' known'. mset cases' = mset cases \<and> map_of known' = map_of known \<longrightarrow>
       Order cases' known' = Order cases known)"
proof (intro conjI allI impI; (elim conjE)?)
  show "mset (Order cases known) = mset cases" using assms by (simp add: Order_def)
  have "sorted_wrt (orders.le known) (sort_by (order_less known) cases)"
    by (rule orders.sorted_sort_by) simp
  then show "sorted_wrt (\<lambda>x y. (map_of known y = None \<longrightarrow> map_of known x = None) \<and>
      (\<forall>a b. map_of known x = Some a \<longrightarrow> map_of known y = Some b \<longrightarrow> b \<le> a) \<and>
      (map_of known x = map_of known y \<longrightarrow> \<not> byte_less y x)) (Order cases known)"
    using assms by (auto simp: Order_def elim!: sorted_wrt_mono_rel [rotated] dest: orders_le)
  fix cases' known' assume c: "mset cases' = mset cases" and k: "map_of known' = map_of known"
  have "known' \<noteq> []" using assms k by (auto simp: fun_eq_iff) (metis map_of_eq_None_iff map_of.simps(1) empty_iff list.set(1) image_empty list.set_intros(1) image_eqI neq_Nil_conv)
  moreover have "sort_by (order_less known) cases' = sort_by (order_less known) cases"
    by (rule orders.sort_by_set_determined [OF _ c]) simp
  ultimately show "Order cases' known' = Order cases known"
    using assms order_less_cong [OF k] by (simp add: Order_def)
qed

theorem order_is_reproducible_witness:
  "Order [''a'', ''b'', ''c''] [(''a'', 3), (''c'', 5)] = Order [''c'', ''a'', ''b''] [(''c'', 5), (''a'', 3)] \<and>
   Order [''a'', ''b'', ''c''] [(''a'', 3), (''c'', 5)] = [''b'', ''c'', ''a'']"
proof
  have k: "map_of [(''a'', 3), (''c'', 5)] = map_of [(''c'', 5), (''a'', 3 :: int)]"
    by (simp add: fun_upd_twist)
  have "mset [''a'', ''b'', ''c''] = mset [''c'', ''a'', ''b'']" by simp
  with k order_is_reproducible [of "[(''c'', 5), (''a'', 3)]" "[''c'', ''a'', ''b'']"]
  show "Order [''a'', ''b'', ''c''] [(''a'', 3), (''c'', 5)] = Order [''c'', ''a'', ''b''] [(''c'', 5), (''a'', 3)]"
    by blast
  show "Order [''a'', ''b'', ''c''] [(''a'', 3), (''c'', 5)] = [''b'', ''c'', ''a'']"
    by (simp add: Order_def sort_by_def order_less_def)
qed

subsection \<open>The record of sizes\<close>

lemma space_alone:
  "list_all (\<lambda>w. list_all (\<lambda>c. char_nat c = 32 \<longrightarrow> w = [c]) w) space_runes"
  by (simp add: space_runes_def ascii_spaces_def char_nat_def upt_rec)

lemma trimmed_after_space:
  assumes "trimmed d" "d \<noteq> []" "c # n \<noteq> []" "graphic c"
  shows "trimmed (c # n @ CHR '' '' # d)"
proof -
  have "\<not> suffix w (c # n @ CHR '' '' # d)" if w: "w \<in> set space_runes" for w
  proof
    assume s: "suffix w (c # n @ CHR '' '' # d)"
    have sp: "CHR '' '' \<in> set w \<Longrightarrow> w = [CHR '' '']"
      using space_alone w by (auto simp: list_all_iff char_nat_def)
    have "suffix d (c # n @ CHR '' '' # d)" by (simp add: suffix_def)
    with s have "suffix w d \<or> suffix (CHR '' '' # d) w"
      using suffix_same_cases [of w "c # n @ CHR '' '' # d" "CHR '' '' # d"]
      by (auto simp: suffix_def Cons_eq_append_conv)
    then show False
    proof
      assume "suffix w d" then show False using assms(1) w by (simp add: trimmed_def)
    next
      assume "suffix (CHR '' '' # d) w"
      then show False using sp assms(2)
        by (auto simp: suffix_def Cons_eq_append_conv append_eq_Cons_conv)
    qed
  qed
  moreover have "\<not> prefix w (c # n @ CHR '' '' # d)" if w: "w \<in> set space_runes" for w
    using spaces_not_graphic w assms(4) by (cases w) (auto simp: list_all_iff)
  ultimately show ?thesis by (simp add: trimmed_def)
qed

lemma index_of_char: "c \<notin> set s \<Longrightarrow> index_of (s @ c # t) [c] = Some (length s)"
  by (induction s) auto

lemma itoa_nonneg: "0 \<le> n \<Longrightarrow> is_digit (hd (itoa n)) \<and> (\<forall>c \<in> set (itoa n). is_digit c)"
  using nat_digits_set [of _ "nat n"] nat_digits_not_Nil [of "nat n"]
  by (cases "nat_digits (nat n)") (auto simp: itoa_def)

lemma digit_graphic: "is_digit c \<Longrightarrow> graphic c \<and> c \<noteq> CHR ''#'' \<and> c \<noteq> CHR '' '' \<and> c \<noteq> LF"
  by (auto simp: is_digit_def graphic_def char_nat_def control)

lemma size_line_trimmed:
  assumes "trimmed d" "d \<noteq> []" "0 \<le> n" "in_int n"
  shows "trimmed (itoa n @ '' '' @ d)" "size_line (itoa n @ '' '' @ d) = Some (d, n)"
proof -
  obtain c ds where i: "itoa n = c # ds" using itoa_not_Nil [of n] by (cases "itoa n") auto
  have c: "is_digit c" "CHR '' '' \<notin> set (itoa n)"
    using itoa_nonneg [OF assms(3)] digit_graphic i by auto
  show t: "trimmed (itoa n @ '' '' @ d)"
    using trimmed_after_space [OF assms(1,2), of c ds] digit_graphic [OF c(1)] i by simp
  have at: "index_of (itoa n @ '' '' @ d) '' '' = Some (length (itoa n))"
    using index_of_char [OF c(2), of d] by simp
  have "\<not> (itoa n @ '' '' @ d = [] \<or> has_prefix (itoa n @ '' '' @ d) ''#'')"
    using i digit_graphic [OF c(1)] by auto
  then show "size_line (itoa n @ '' '' @ d) = Some (d, n)"
    using assms at by (simp add: size_line_def Let_def trim_space_trimmed [OF t, simplified] trim_space_trimmed atoi_itoa)
qed

lemma trimmed_last: "trimmed s \<Longrightarrow> s \<noteq> [] \<Longrightarrow> last s \<noteq> CR"
proof
  assume t: "trimmed s" "s \<noteq> []" "last s = CR"
  then have "suffix [CR] s" by (metis append_butlast_last_id suffixI)
  moreover have "[CR] \<in> set space_runes" by (simp add: space_runes_def ascii_spaces_def control char_of_def bit_0)
  ultimately show False using t(1) by (auto simp: trimmed_def)
qed

lemma scan_written:
  assumes "ls \<noteq> []" and "\<forall>l \<in> set ls. LF \<notin> set l \<and> l \<noteq> [] \<and> last l \<noteq> CR"
  shows "scan_lines (join_with [LF] ls @ [LF]) = ls"
proof -
  have "join_with [LF] ls @ [LF] = concat (map (\<lambda>l. l @ [LF]) ls)"
    using assms(1) by (induction "[LF]" ls rule: join_with.induct) auto
  then have "split_on LF (join_with [LF] ls @ [LF]) = ls @ [[]]"
    using split_lines [of ls LF] assms(2) by simp
  moreover have "map strip_cr ls = ls"
    using assms(2) by (intro map_idI) (auto simp: strip_cr_def trim_suffix_def suffix_def)
  ultimately show ?thesis by (simp add: scan_lines_def)
qed

text \<open>The directories a record can keep: not empty, no line break, no white space at either end.\<close>

definition plain_sizes :: "int gomap \<Rightarrow> bool" where
  "plain_sizes m \<longleftrightarrow> distinct (map fst m) \<and>
     (\<forall>(d, mb) \<in> set m. d \<noteq> [] \<and> trimmed d \<and> LF \<notin> set d \<and> 0 < mb \<and> in_int mb)"

lemma plain_size:
  assumes "plain_sizes m" "d \<in> fst ` set m"
  shows "d \<noteq> [] \<and> trimmed d \<and> LF \<notin> set d \<and> 0 < size_of m d \<and> in_int (size_of m d)"
proof -
  obtain mb where "(d, mb) \<in> set m" using assms(2) by auto
  moreover from this have "size_of m d = mb" using assms(1) by (simp add: size_of_def plain_sizes_def)
  ultimately show ?thesis using assms(1) by (auto simp: plain_sizes_def)
qed

lemma set_sizes_dirs: "set (sizes_dirs m) = fst ` set m"
  by (simp add: sizes_dirs_def)

lemma sizes_lines_plain:
  assumes "plain_sizes m" "l \<in> set (sizes_lines m)"
  shows "LF \<notin> set l \<and> l \<noteq> [] \<and> last l \<noteq> CR"
proof -
  obtain d where d: "d \<in> fst ` set m" "l = itoa (size_of m d) @ '' '' @ d"
    using assms(2) by (auto simp: sizes_lines_def set_sizes_dirs)
  note p = plain_size [OF assms(1) d(1)]
  have "trimmed l" "l \<noteq> []" using size_line_trimmed(1) [of d "size_of m d"] p d(2) by simp_all
  moreover have "LF \<notin> set (itoa (size_of m d))"
    using itoa_nonneg [of "size_of m d"] p digit_graphic by fastforce
  ultimately show ?thesis using p d(2) trimmed_last by (auto simp: control)
qed

lemma ReadSizes_lines:
  assumes "plain_sizes m" "set ds \<subseteq> fst ` set m"
  shows "fold (\<lambda>l r. case size_line l of None \<Rightarrow> r | Some (d, mb) \<Rightarrow> AList.update d mb r)
      (map (\<lambda>d. itoa (size_of m d) @ '' '' @ d) ds) r =
    gomap.put_all (map (\<lambda>d. (d, size_of m d)) ds) r"
  using assms(2)
proof (induction ds arbitrary: r)
  case Nil
  then show ?case by (simp add: gomap.put_all_def)
next
  case (Cons d ds)
  note p = plain_size [OF assms(1), of d]
  have "size_line (itoa (size_of m d) @ '' '' @ d) = Some (d, size_of m d)"
    using size_line_trimmed(2) [of d "size_of m d"] p Cons.prems by auto
  then show ?case using Cons.IH Cons.prems by (simp add: gomap.put_all_def)
qed

lemma sizes_Write_determined:
  assumes "distinct (map fst m)" "distinct (map fst m')" "map_of m' = map_of m"
  shows "sizes_Write (Some m') path = sizes_Write (Some m) path"
proof -
  have "size_of m' = size_of m" using assms(3) by (intro ext) (simp add: size_of_def)
  moreover have "mset (map fst m') = mset (map fst m)"
    by (rule gomap.keys_mset) (use assms in simp_all)
  then have "sort_by (most_first (size_of m)) (map fst m') = sort_by (most_first (size_of m)) (map fst m)"
    by (intro most.sort_by_set_determined) simp_all
  ultimately show ?thesis by (simp add: sizes_Write_def sizes_lines_def sizes_dirs_def)
qed

text \<open>
  A record of sizes, once written, reads back as the same record, and what is written depends
  only on the record, not on the order a map happens to be walked in.
\<close>

theorem sizes_read_back:
  assumes "plain_sizes m" and "m \<noteq> []" and "path \<noteq> []"
  shows "\<exists>t. sizes_Write (Some m) path = Some t \<and> map_of (ReadSizes t) = map_of m \<and>
    (\<forall>m'. distinct (map fst m') \<and> map_of m' = map_of m \<longrightarrow> sizes_Write (Some m') path = Some t)"
proof -
  let ?ds = "sizes_dirs m" and ?t = "join_with [LF] (sizes_lines m) @ [LF]"
  have ne: "sizes_lines m \<noteq> []"
    using assms(2) set_sizes_dirs [of m] by (auto simp: sizes_lines_def simp flip: set_empty)
  then have w: "sizes_Write (Some m) path = Some ?t" using assms(3) by (simp add: sizes_Write_def)
  have "scan_lines ?t = sizes_lines m"
    using scan_written [OF ne] sizes_lines_plain [OF assms(1)] by blast
  then have r: "ReadSizes ?t = gomap.put_all (map (\<lambda>d. (d, size_of m d)) ?ds) []"
    using ReadSizes_lines [OF assms(1), of ?ds] set_sizes_dirs [of m]
    by (simp add: ReadSizes_def sizes_lines_def)
  have dist: "distinct (map fst m)" using assms(1) by (simp add: plain_sizes_def)
  have "map_of (rev (map (\<lambda>d. (d, size_of m d)) ?ds)) k = map_of m k" for k
  proof (cases "map_of m k")
    case None
    then have "k \<notin> fst ` set m" by (simp add: map_of_eq_None_iff)
    then show ?thesis
      using None set_sizes_dirs [of m] by (simp add: rev_map map_of_map_restrict restrict_map_def)
  next
    case (Some mb)
    then have "k \<in> fst ` set m" by (metis map_of_SomeD fst_conv image_eqI)
    then show ?thesis
      using Some set_sizes_dirs [of m] by (simp add: rev_map map_of_map_restrict restrict_map_def size_of_def)
  qed
  then have "map_of (ReadSizes ?t) = map_of m"
    using gomap.get_put_all [of "[]" "map (\<lambda>d. (d, size_of m d)) ?ds"]
    by (intro ext) (simp add: r del: map_map split: option.splits)
  with w show ?thesis using sizes_Write_determined [OF dist] by metis
qed

theorem sizes_read_back_witness:
  "\<exists>t. sizes_Write (Some [(''/a b'', 7), (''/c'', 4820)]) ''f'' = Some t \<and>
     map_of (ReadSizes t) = map_of [(''/a b'', 7), (''/c'', 4820)]"
proof -
  have "plain_sizes [(''/a b'', 7), (''/c'', 4820)]"
    by (simp add: plain_sizes_def graphic_trimmed graphic_def char_nat_def control in_int_def
        int_lo_def int_hi_def char_of_def bit_0)
  then show ?thesis using sizes_read_back [of "[(''/a b'', 7), (''/c'', 4820)]" "''f''"] by fastforce
qed

end
