(* ===== verification/Harepl_Statement.thy ===== *)
theory Harepl_Statement
  imports Conf Decimal
begin

text \<open>
  How the HA replication suite cuts a case into statements and tells them apart
  (\<open>internal/runner/hareplsuite/statement.go\<close>). The source is UTF-8, of which only ASCII bytes mean
  anything to the reader, so bytes stand for runes; a position in the source is the text from it
  on, and \<open>prev\<close> is the byte before it, 0 at the start. Letters are folded for ASCII.
\<close>

definition NUL :: char where "NUL = CHR 0x00"
definition SQ :: char where "SQ = CHR 0x27"
definition DQ :: char where "DQ = CHR 0x22"

lemmas quotes = SQ_def DQ_def

definition isWordRune :: "char \<Rightarrow> bool" where
  "isWordRune c \<longleftrightarrow> c = CHR ''_'' \<or> is_digit c \<or> (97 \<le> char_nat c \<and> char_nat c \<le> 122) \<or>
     (65 \<le> char_nat c \<and> char_nat c \<le> 90)"

definition word_at :: "string \<Rightarrow> string" where
  "word_at s = takeWhile isWordRune s"

definition wordAt :: "string \<Rightarrow> string \<times> nat" where
  "wordAt s = (to_upper (word_at s), length (word_at s))"

lemmas word_eval = isWordRune_def is_digit_def char_nat_def word_at_def to_upper_def upper_char_def quotes

definition skipSpace :: "string \<Rightarrow> string" where
  "skipSpace s = dropWhile (\<lambda>c. c = CHR '' '' \<or> c = TAB \<or> c = LF \<or> c = CR) s"

text \<open>Whether a block opens or closes here, and how long the keyword is.\<close>

definition blockDelta :: "char \<Rightarrow> string \<Rightarrow> int \<times> nat" where
  "blockDelta prev s =
     (if isWordRune prev then (0, 0)
      else case wordAt s of (kw, n) \<Rightarrow>
        if kw = ''BEGIN'' then (1, n)
        else if kw = ''END'' then
          (let j = skipSpace (drop n s); nxt = fst (wordAt j) in
           if nxt \<in> {''IF'', ''LOOP'', ''CASE'', ''WHILE'', ''FOR''} then (0, 0)
           else if has_prefix j '';'' then (- 1, n)
           else if nxt \<noteq> [] \<and> has_prefix (skipSpace (drop (length nxt) j)) '';'' then (- 1, n)
           else (0, 0))
        else (0, 0))"

record splitter =
  sp_out :: "string list"
  sp_cur :: string
  sp_quote :: "char option"
  sp_line :: bool
  sp_block :: bool
  sp_depth :: int

definition new_splitter :: splitter where
  "new_splitter = \<lparr>sp_out = [], sp_cur = [], sp_quote = None, sp_line = False, sp_block = False, sp_depth = 0\<rparr>"

definition flush :: "splitter \<Rightarrow> splitter" where
  "flush p =
     (let s = trim_space (sp_cur p) in
      p\<lparr>sp_out := (if s \<noteq> [] then sp_out p @ [s] else sp_out p), sp_cur := []\<rparr>)"

definition put_text :: "string \<Rightarrow> splitter \<Rightarrow> splitter" where
  "put_text s p = p\<lparr>sp_cur := sp_cur p @ s\<rparr>"

text \<open>One turn of the loop: the new state and how many bytes it took.\<close>

definition split_step :: "char \<Rightarrow> char \<Rightarrow> string \<Rightarrow> splitter \<Rightarrow> splitter \<times> nat" where
  "split_step prev r rs p =
     (if sp_line p then (if r = LF then put_text [r] (p\<lparr>sp_line := False\<rparr>) else p, 1)
      else if sp_block p then (if prev = CHR ''*'' \<and> r = CHR ''/'' then p\<lparr>sp_block := False\<rparr> else p, 1)
      else if sp_quote p \<noteq> None then
        (if sp_quote p = Some r then put_text [r] p\<lparr>sp_quote := None\<rparr> else put_text [r] p, 1)
      else if r = SQ \<or> r = DQ then (put_text [r] p\<lparr>sp_quote := Some r\<rparr>, 1)
      else if r = CHR ''-'' \<and> prev = CHR ''-''
      then (p\<lparr>sp_cur := trim_suffix (sp_cur p) ''-'', sp_line := True\<rparr>, 1)
      else if r = CHR ''*'' \<and> prev = CHR ''/''
      then (p\<lparr>sp_cur := trim_suffix (sp_cur p) ''/'', sp_block := True\<rparr>, 1)
      else if r = CHR '';'' then (if 0 < sp_depth p then put_text [r] p else flush p, 1)
      else (case blockDelta prev (r # rs) of (d, skip) \<Rightarrow>
        if d \<noteq> 0
        then (put_text (take skip (r # rs)) (p\<lparr>sp_depth := max 0 (sp_depth p + d)\<rparr>), skip)
        else (put_text [r] p, 1)))"

lemma blockDelta_skip: "blockDelta prev s = (d, n) \<Longrightarrow> d \<noteq> 0 \<Longrightarrow> 0 < n \<and> n \<le> length s"
proof -
  assume b: "blockDelta prev s = (d, n)" and d: "d \<noteq> 0"
  then have "n = snd (wordAt s) \<and> fst (wordAt s) \<in> {''BEGIN'', ''END''}"
    by (auto simp: blockDelta_def Let_def split: if_splits prod.splits)
  then have "n = length (word_at s)" "word_at s \<noteq> []" by (auto simp: wordAt_def to_upper_def)
  then show ?thesis by (simp add: word_at_def length_takeWhile_le)
qed

lemma split_step_takes: "0 < snd (split_step prev r rs p) \<and> snd (split_step prev r rs p) \<le> Suc (length rs)"
  using blockDelta_skip [of prev "r # rs"] by (auto simp: split_step_def split: prod.splits)

function split_run :: "char \<Rightarrow> string \<Rightarrow> splitter \<Rightarrow> splitter" where
  "split_run prev [] p = p"
| "split_run prev (r # rs) p =
     (case split_step prev r rs p of (p', n) \<Rightarrow> split_run ((r # rs) ! (n - 1)) (drop n (r # rs)) p')"
  by pat_completeness auto
termination
proof (relation "measure (\<lambda>(prev, s, p). length s)", goal_cases)
  case (2 prev r rs p p' n)
  then show ?case using split_step_takes [of prev r rs p] by (cases "split_step prev r rs p") auto
qed simp

definition repl_Statements :: "string \<Rightarrow> string list" where
  "repl_Statements src = sp_out (flush (split_run NUL src new_splitter))"

definition Splittable :: "string \<Rightarrow> bool" where
  "Splittable src =
     (let stmts = repl_Statements src in
      if stmts = [] then True
      else (let l = to_upper (last stmts) in \<not> contains l ''BEGIN'' \<or> contains l ''END''))"

definition IsRead :: "string \<Rightarrow> bool" where
  "IsRead stmt =
     (let s = to_lower (trim_space stmt) in
      if contains s ''next_value'' \<or> contains s ''nextval'' then False
      else if list_ex (has_prefix s) [''select '', ''select'' @ [LF], ''select'' @ [TAB], ''show '', ''values '']
      then True
      else s = ''select'' \<or> has_prefix s ''select('')"

definition isDirective :: "string \<Rightarrow> bool" where
  "isDirective stmt =
     (let s = to_lower (trim_space stmt) in
      has_prefix s ''--+'' \<or> has_prefix s ''autocommit '' \<or> has_prefix s ''commit'' \<or> has_prefix s ''rollback'')"

definition IsWrite :: "string \<Rightarrow> bool" where
  "IsWrite stmt \<longleftrightarrow> \<not> IsRead stmt \<and> \<not> isDirective stmt"

end
