(* ===== verification/Harepl_Statement_Claims.thy ===== *)
theory Harepl_Statement_Claims
  imports Harepl_Statement
begin

text \<open>
  The splitter against its specification. The specification sees a case as tokens: bare text,
  literals, both kinds of comment, the keywords that may open and close a block, and semicolons. A
  semicolon outside every block ends a statement and nothing else does; comments leave nothing but
  their line break; everything else is kept as written. A \<open>BEGIN\<close> opens a block, and an \<open>END\<close> closes
  one when a semicolon follows it, or a name and a semicolon; an \<open>END\<close> before anything else, as that
  of \<open>END IF\<close> or of a \<open>CASE\<close> in an expression, closes nothing. A comment ends at the first \<open>*/\<close> behind
  its slash, so that \<open>/*/\<close> is one. The lemmas at the end are about what these rules do to a case.
\<close>

datatype tok = Bare string | Literal char string | LineComment string | BlockComment string
  | Opens string | Closes string | Stays string | Semi

fun tok_text :: "tok \<Rightarrow> string" where
  "tok_text (Bare b) = b"
| "tok_text (Literal q s) = q # s @ [q]"
| "tok_text (LineComment s) = ''--'' @ s @ [LF]"
| "tok_text (BlockComment s) = ''/'' @ s @ ''*/''"
| "tok_text (Opens w) = w"
| "tok_text (Closes w) = w"
| "tok_text (Stays w) = w"
| "tok_text Semi = '';''"

definition source :: "tok list \<Rightarrow> string" where
  "source ts = concat (map tok_text ts)"

definition ended :: "string \<Rightarrow> string list" where
  "ended s = (if trim_space s = [] then [] else [trim_space s])"

fun cut_up :: "nat \<Rightarrow> string \<Rightarrow> tok list \<Rightarrow> string list" where
  "cut_up d cur [] = ended cur"
| "cut_up d cur (Semi # ts) = (if 0 < d then cut_up d (cur @ '';'') ts else ended cur @ cut_up d [] ts)"
| "cut_up d cur (LineComment s # ts) = cut_up d (cur @ [LF]) ts"
| "cut_up d cur (BlockComment s # ts) = cut_up d cur ts"
| "cut_up d cur (Opens w # ts) = cut_up (d + 1) (cur @ w) ts"
| "cut_up d cur (Closes w # ts) = cut_up (d - 1) (cur @ w) ts"
| "cut_up d cur (Stays w # ts) = cut_up d (cur @ w) ts"
| "cut_up d cur (Bare b # ts) = cut_up d (cur @ b) ts"
| "cut_up d cur (Literal q s # ts) = cut_up d (cur @ tok_text (Literal q s)) ts"

fun bare_ok :: "char \<Rightarrow> string \<Rightarrow> bool" where
  "bare_ok prev [] = True"
| "bare_ok prev (r # rs) \<longleftrightarrow>
     r \<notin> {SQ, DQ, CHR '';''} \<and> \<not> (prev = CHR ''-'' \<and> r = CHR ''-'') \<and> \<not> (prev = CHR ''/'' \<and> r = CHR ''*'') \<and>
     (isWordRune prev \<or> to_upper (word_at (r # rs)) \<notin> {''BEGIN'', ''END''}) \<and> bare_ok r rs"

fun tok_ok :: "char \<Rightarrow> tok \<Rightarrow> bool" where
  "tok_ok prev (Bare b) \<longleftrightarrow> b \<noteq> [] \<and> bare_ok prev b"
| "tok_ok prev (Literal q s) \<longleftrightarrow> q \<in> {SQ, DQ} \<and> q \<notin> set s"
| "tok_ok prev (LineComment s) \<longleftrightarrow> prev \<noteq> CHR ''-'' \<and> LF \<notin> set s"
| "tok_ok prev (BlockComment s) \<longleftrightarrow> \<not> contains s ''*/'' \<and> (s = [] \<or> has_prefix s ''*'')"
| "tok_ok prev (Opens w) \<longleftrightarrow> \<not> isWordRune prev \<and> to_upper w = ''BEGIN''"
| "tok_ok prev (Closes w) \<longleftrightarrow> \<not> isWordRune prev \<and> to_upper w = ''END''"
| "tok_ok prev (Stays w) \<longleftrightarrow> \<not> isWordRune prev \<and> to_upper w = ''END''"
| "tok_ok prev Semi \<longleftrightarrow> True"

definition spaces :: "string \<Rightarrow> bool" where
  "spaces s \<longleftrightarrow> set s \<subseteq> {CHR '' '', TAB, LF, CR}"

text \<open>What follows an \<open>END\<close> that closes a block: a semicolon, or a name that is no construct and one.\<close>

definition block_ends :: "string \<Rightarrow> bool" where
  "block_ends rest \<longleftrightarrow> (\<exists>sp nm sp2 r. rest = sp @ nm @ sp2 @ CHR '';'' # r \<and> spaces sp \<and> spaces sp2 \<and>
     list_all isWordRune nm \<and> to_upper nm \<notin> {''IF'', ''LOOP'', ''CASE'', ''WHILE'', ''FOR''})"

text \<open>
  The tokens of a case: no word runs on into the next token, and what follows an \<open>END\<close> says which it is.
\<close>

fun legal :: "char \<Rightarrow> tok list \<Rightarrow> bool" where
  "legal prev [] = True"
| "legal prev (t # ts) \<longleftrightarrow> tok_ok prev t \<and> legal (last (tok_text t)) ts \<and>
     (ts \<noteq> [] \<longrightarrow> \<not> (isWordRune (last (tok_text t)) \<and> isWordRune (hd (source ts)))) \<and>
     (\<forall>w. t = Closes w \<longrightarrow> block_ends (source ts)) \<and> (\<forall>w. t = Stays w \<longrightarrow> \<not> block_ends (source ts))"

subsection \<open>One token at a time\<close>

lemma word_chars: "isWordRune CHR ''-'' = False" "isWordRune CHR ''/'' = False" "isWordRune CHR '';'' = False"
  "isWordRune CHR ''*'' = False" "isWordRune SQ = False" "isWordRune DQ = False"
  by (simp_all add: isWordRune_def is_digit_def char_nat_def quotes)

lemma blockDelta_other: "\<not> isWordRune r \<Longrightarrow> blockDelta prev (r # rs) = (0, 0)"
  by (simp add: blockDelta_def wordAt_def word_at_def to_upper_def)

lemma word_at_append:
  "rest = [] \<or> \<not> (isWordRune (last b) \<and> isWordRune (hd rest)) \<Longrightarrow> b \<noteq> [] \<Longrightarrow>
   word_at (b @ rest) = word_at b"
proof (induction b)
  case (Cons c b)
  then show ?case
    by (cases "b = []") (auto simp: word_at_def takeWhile_eq_Nil_iff)
qed simp

lemma blockDelta_bare:
  assumes "isWordRune prev \<or> to_upper (word_at s) \<notin> {''BEGIN'', ''END''}"
  shows "blockDelta prev s = (0, 0)"
  using assms by (auto simp: blockDelta_def wordAt_def)

definition copying :: "splitter \<Rightarrow> bool" where
  "copying p \<longleftrightarrow> \<not> sp_line p \<and> \<not> sp_block p \<and> sp_quote p = None"

lemma copying_put [simp]: "copying (put_text s p) = copying p"
  by (simp add: copying_def put_text_def)

lemma copying_depth [simp]: "copying (p\<lparr>sp_depth := n\<rparr>) = copying p"
  by (simp add: copying_def)

lemma splitter_reset:
  "sp_quote p = None \<Longrightarrow> p\<lparr>sp_cur := c, sp_quote := None\<rparr> = p\<lparr>sp_cur := c\<rparr>"
  "\<not> sp_line p \<Longrightarrow> p\<lparr>sp_line := False, sp_cur := c\<rparr> = p\<lparr>sp_cur := c\<rparr>"
  by (cases p; simp)+

lemma put_put [simp]: "put_text t (put_text s p) = put_text (s @ t) p"
  by (simp add: put_text_def)

lemma put_nothing [simp]: "put_text [] p = p"
  by (simp add: put_text_def)

lemma step_bare:
  assumes "copying p" "bare_ok prev (r # rs)" "to_upper (word_at (r # rs)) = to_upper (word_at (r # rs'))"
  shows "split_step prev r rs' p = (put_text [r] p, 1)"
proof -
  have "blockDelta prev (r # rs') = (0, 0)" using assms(2,3) by (intro blockDelta_bare) auto
  then show ?thesis using assms(1,2) by (auto simp: split_step_def copying_def)
qed

lemma run_bare:
  assumes "copying p" "bare_ok prev b" "b \<noteq> []"
    "rest = [] \<or> \<not> (isWordRune (last b) \<and> isWordRune (hd rest))"
  shows "split_run prev (b @ rest) p = split_run (last b) rest (put_text b p)"
  using assms
proof (induction b arbitrary: prev p)
  case (Cons r rs)
  have "word_at ((r # rs) @ rest) = word_at (r # rs)" using Cons.prems(4) by (rule word_at_append) simp
  then have s: "split_step prev r (rs @ rest) p = (put_text [r] p, 1)"
    using Cons.prems(1,2) by (intro step_bare [of p prev r rs]) simp_all
  show ?case
  proof (cases "rs = []")
    case True
    then show ?thesis using s by simp
  next
    case False
    then show ?thesis using s Cons by simp
  qed
qed simp

lemma run_literal:
  assumes "copying p" "q \<in> {SQ, DQ}" "q \<notin> set s"
  shows "split_run prev (q # s @ q # rest) p = split_run q rest (put_text (q # s @ [q]) p)"
proof -
  have inside: "split_run c (s @ q # rest) (put_text t p\<lparr>sp_quote := Some q\<rparr>) =
      split_run q rest (put_text (t @ s @ [q]) p)" for c t
    using assms(1,3)
  proof (induction s arbitrary: c t)
    case Nil
    show ?case using assms(1) by (simp add: split_step_def copying_def put_text_def splitter_reset)
  next
    case (Cons x s)
    have "split_step c x (s @ q # rest) (put_text t p\<lparr>sp_quote := Some q\<rparr>) =
        (put_text (t @ [x]) p\<lparr>sp_quote := Some q\<rparr>, 1)"
      using Cons.prems by (simp add: split_step_def copying_def put_text_def)
    then show ?case using Cons.IH [of x "t @ [x]"] Cons.prems by simp
  qed
  have "split_step prev q (s @ q # rest) p = (put_text [q] p\<lparr>sp_quote := Some q\<rparr>, 1)"
    using assms by (auto simp: split_step_def copying_def)
  then show ?thesis using inside [of q "[q]"] by simp
qed

lemma run_line:
  assumes "copying p" "prev \<noteq> CHR ''-''" "LF \<notin> set s"
  shows "split_run prev (''--'' @ s @ LF # rest) p = split_run LF rest (put_text [LF] p)"
proof -
  let ?q = "p\<lparr>sp_line := True\<rparr>"
  have skip: "split_run c (s @ LF # rest) ?q = split_run LF rest (put_text [LF] p)" for c
    using assms(1,3)
  proof (induction s arbitrary: c)
    case Nil
    show ?case using assms(1) by (simp add: split_step_def put_text_def copying_def splitter_reset)
  next
    case (Cons x s)
    then show ?case by (auto simp: split_step_def)
  qed
  have "split_step prev CHR ''-'' (CHR ''-'' # s @ LF # rest) p = (put_text ''-'' p, 1)"
    using assms(1,2) by (simp add: split_step_def copying_def blockDelta_other word_chars quotes)
  moreover have "split_step CHR ''-'' CHR ''-'' (s @ LF # rest) (put_text ''-'' p) = (?q, 1)"
    using assms(1) by (simp add: split_step_def copying_def put_text_def trim_suffix_append quotes)
  ultimately show ?thesis using skip [of "CHR ''-''"] by simp
qed

lemma run_block:
  assumes "copying p" "\<not> contains s ''*/''" "s = [] \<or> has_prefix s ''*''"
  shows "split_run prev (''/'' @ s @ ''*/'' @ rest) p = split_run CHR ''/'' rest p"
proof -
  let ?q = "p\<lparr>sp_block := True\<rparr>"
  have skip: "\<not> contains u ''*/'' \<Longrightarrow> \<not> (c = CHR ''*'' \<and> has_prefix u ''/'') \<Longrightarrow>
      split_run c (u @ CHR ''*'' # CHR ''/'' # rest) ?q = split_run CHR ''/'' rest p" for c u
  proof (induction u arbitrary: c)
    case Nil
    have "split_step c CHR ''*'' (CHR ''/'' # rest) ?q = (?q, 1)" using Nil assms(1) by (simp add: split_step_def copying_def)
    moreover have "split_step CHR ''*'' CHR ''/'' rest ?q = (p, 1)"
      using assms(1) by (cases p) (simp add: split_step_def copying_def)
    ultimately show ?case by simp
  next
    case (Cons x u)
    have "split_step c x (u @ CHR ''*'' # CHR ''/'' # rest) ?q = (?q, 1)"
      using Cons.prems assms(1) by (auto simp: split_step_def copying_def)
    moreover have "\<not> (x = CHR ''*'' \<and> has_prefix u ''/'')"
      using Cons.prems(1) by (auto simp: sublist_Cons_right)
    ultimately show ?case using Cons by (simp add: sublist_Cons_right)
  qed
  have first: "split_step prev CHR ''/'' rs p = (put_text ''/'' p, 1)" for rs
    using assms(1) by (simp add: split_step_def copying_def blockDelta_other word_chars quotes)
  have star: "split_step CHR ''/'' CHR ''*'' rs (put_text ''/'' p) = (?q, 1)" for rs
    using assms(1) by (simp add: split_step_def copying_def put_text_def trim_suffix_append quotes)
  show ?thesis
  proof (cases s)
    case Nil
    have "split_step CHR ''*'' CHR ''/'' rest ?q = (p, 1)"
      using assms(1) by (cases p) (simp add: split_step_def copying_def)
    then show ?thesis using Nil first star by simp
  next
    case (Cons c u)
    then have c: "c = CHR ''*''" and u: "\<not> contains u ''*/''" "\<not> has_prefix u ''/''"
      using assms(2,3) by (auto simp: sublist_Cons_right)
    have "split_run CHR ''*'' (u @ CHR ''*'' # CHR ''/'' # rest) ?q = split_run CHR ''/'' rest p"
      using skip [of u "CHR ''*''"] u by simp
    then show ?thesis using Cons c first star by simp
  qed
qed

lemma upper_word: "isWordRune (upper_char c) \<Longrightarrow> isWordRune c"
  by (auto simp: isWordRune_def upper_char_def is_digit_def char_nat_def split: if_splits)

lemma keyword_word:
  assumes "to_upper w = k" "list_all isWordRune k" "k \<noteq> []"
    "rest = [] \<or> \<not> (isWordRune (last w) \<and> isWordRune (hd rest))"
  shows "word_at (w @ rest) = w" "length w = length k" "w \<noteq> []" "isWordRune (last w)" "isWordRune (hd w)"
proof -
  have all: "list_all isWordRune w"
    using assms(1,2) upper_word by (auto simp: to_upper_def list_all_iff)
  show ne: "w \<noteq> []" and "length w = length k" using assms(1,3) by (auto simp: to_upper_def)
  show l: "isWordRune (last w)" "isWordRune (hd w)" using all ne by (auto simp: list_all_iff)
  have "word_at (w @ rest) = word_at w" using assms(4) ne by (intro word_at_append)
  then show "word_at (w @ rest) = w" using all by (simp add: word_at_def list_all_iff)
qed

lemma run_keyword:
  assumes "copying p" "blockDelta prev (w @ rest) = (d, length w)" "d \<noteq> 0" "w \<noteq> []" "isWordRune (hd w)"
  shows "split_run prev (w @ rest) p =
    split_run (last w) rest (put_text w (p\<lparr>sp_depth := max 0 (sp_depth p + d)\<rparr>))"
proof -
  obtain r rs where w: "w = r # rs" using assms(4) by (cases w) auto
  have r: "r \<noteq> SQ" "r \<noteq> DQ" "r \<noteq> CHR ''-''" "r \<noteq> CHR ''*''" "r \<noteq> CHR '';''"
    using assms(5) word_chars w by auto
  have "split_step prev r (rs @ rest) p =
      (put_text w (p\<lparr>sp_depth := max 0 (sp_depth p + d)\<rparr>), length w)"
    using assms(1-3) r w by (simp add: split_step_def copying_def)
  then show ?thesis using w by (simp add: nth_append last_conv_nth)
qed

subsection \<open>A whole case\<close>

lemma source_simps [simp]: "source [] = []" "source (t # ts) = tok_text t @ source ts"
  by (simp_all add: source_def)

lemma flush_out: "sp_out (flush p) = sp_out p @ ended (sp_cur p)"
  by (simp add: flush_def ended_def Let_def)

lemma copying_flush: "copying (flush p) = copying p" "sp_cur (flush p) = []" "sp_depth (flush p) = sp_depth p"
  by (simp_all add: flush_def copying_def Let_def)

lemma put_fields [simp]:
  "sp_out (put_text s p) = sp_out p" "sp_cur (put_text s p) = sp_cur p @ s" "sp_depth (put_text s p) = sp_depth p"
  by (simp_all add: put_text_def)

lemma step_semi:
  "copying p \<Longrightarrow> split_step prev CHR '';'' rs p = (if 0 < sp_depth p then put_text '';'' p else flush p, 1)"
  by (simp add: split_step_def copying_def quotes)

lemma blockDelta_opens:
  assumes "\<not> isWordRune prev" "to_upper w = ''BEGIN''" "word_at (w @ rest) = w"
  shows "blockDelta prev (w @ rest) = (1, length w)"
  using assms by (simp add: blockDelta_def wordAt_def)

lemma not_spaces: "spaces s \<Longrightarrow> c \<in> set s \<Longrightarrow> \<not> isWordRune c \<and> c \<noteq> CHR '';''"
  by (auto simp: spaces_def isWordRune_def is_digit_def char_nat_def control)

lemma skip_spaces: "spaces s \<Longrightarrow> skipSpace (s @ rest) = skipSpace rest"
  by (induction s) (auto simp: skipSpace_def spaces_def)

lemma skip_none: "isWordRune c \<or> c = CHR '';'' \<Longrightarrow> skipSpace (c # rest) = c # rest"
  using not_spaces [of "[c]" c] by (auto simp: skipSpace_def spaces_def)

lemma spaces_first: "\<exists>sp. spaces sp \<and> rest = sp @ skipSpace rest"
  by (intro exI [of _ "takeWhile (\<lambda>c. c = CHR '' '' \<or> c = TAB \<or> c = LF \<or> c = CR) rest"])
    (auto simp: spaces_def skipSpace_def dest: set_takeWhileD)

lemma word_split: "list_all isWordRune (word_at s) \<and> s = word_at s @ drop (length (word_at s)) s"
  by (simp add: word_at_def list_all_iff flip: dropWhile_eq_drop) (auto dest: set_takeWhileD)

lemma has_prefix_Cons: "has_prefix s [c] \<longleftrightarrow> (\<exists>r. s = c # r)"
  by (cases s) auto

lemma block_ends_read:
  "block_ends rest \<longleftrightarrow> (let j = skipSpace rest; nxt = fst (wordAt j) in
     nxt \<notin> {''IF'', ''LOOP'', ''CASE'', ''WHILE'', ''FOR''} \<and> has_prefix (skipSpace (drop (length nxt) j)) '';'')"
  (is "_ \<longleftrightarrow> ?read")
proof
  assume "block_ends rest"
  then obtain sp nm sp2 r where r: "rest = sp @ nm @ sp2 @ CHR '';'' # r" "spaces sp" "spaces sp2"
    "list_all isWordRune nm" "to_upper nm \<notin> {''IF'', ''LOOP'', ''CASE'', ''WHILE'', ''FOR''}"
    by (auto simp: block_ends_def)
  have hd: "\<not> isWordRune (hd (sp2 @ CHR '';'' # r))"
    using not_spaces [OF r(3)] word_chars by (cases sp2) auto
  show ?read
  proof (cases nm)
    case Nil
    then have "skipSpace rest = CHR '';'' # r" using r by (simp add: skip_spaces skip_none)
    then show ?thesis by (simp add: wordAt_def word_at_def word_chars to_upper_def skip_none Let_def)
  next
    case (Cons c u)
    then have c: "isWordRune c" using r(4) by simp
    have j: "skipSpace rest = nm @ sp2 @ CHR '';'' # r"
      using r(1,2) Cons c by (simp add: skip_spaces skip_none)
    have "word_at (nm @ sp2 @ CHR '';'' # r) = nm"
      using word_at_append [of "sp2 @ CHR '';'' # r" nm] hd Cons r(4) by (simp add: word_at_def list_all_iff)
    then show ?thesis using r(3,5) unfolding j Let_def
      by (simp add: wordAt_def to_upper_def skip_spaces skip_none)
  qed
next
  assume ?read
  then obtain r where up: "to_upper (word_at (skipSpace rest)) \<notin> {''IF'', ''LOOP'', ''CASE'', ''WHILE'', ''FOR''}"
    and r: "skipSpace (drop (length (word_at (skipSpace rest))) (skipSpace rest)) = CHR '';'' # r"
    by (auto simp: Let_def wordAt_def to_upper_def has_prefix_Cons)
  obtain sp where sp: "spaces sp" "rest = sp @ skipSpace rest" using spaces_first by blast
  obtain sp2 where sp2: "spaces sp2" "drop (length (word_at (skipSpace rest))) (skipSpace rest) = sp2 @ CHR '';'' # r"
    using spaces_first r by metis
  have "rest = sp @ word_at (skipSpace rest) @ sp2 @ CHR '';'' # r"
    using sp(2) sp2(2) word_split [of "skipSpace rest"] by metis
  then show "block_ends rest" using sp(1) sp2(1) up word_split [of "skipSpace rest"] unfolding block_ends_def by blast
qed

lemma blockDelta_end:
  assumes "\<not> isWordRune prev" "to_upper w = ''END''" "word_at (w @ rest) = w"
  shows "blockDelta prev (w @ rest) = (if block_ends rest then (- 1, length w) else (0, 0))"
proof -
  let ?j = "skipSpace rest"
  let ?n = "fst (wordAt ?j)"
  have same: "skipSpace ?j = ?j" by (simp add: skipSpace_def)
  have none: "has_prefix ?j '';'' \<Longrightarrow> ?n = []"
    by (auto simp: has_prefix_Cons wordAt_def word_at_def word_chars to_upper_def)
  have reads: "blockDelta prev (w @ rest) =
     (if ?n \<in> {''IF'', ''LOOP'', ''CASE'', ''WHILE'', ''FOR''} then (0, 0)
      else if has_prefix ?j '';'' then (- 1, length w)
      else if ?n \<noteq> [] \<and> has_prefix (skipSpace (drop (length ?n) ?j)) '';'' then (- 1, length w) else (0, 0))"
    using assms by (simp add: blockDelta_def wordAt_def Let_def)
  show ?thesis
  proof (cases "?n = []")
    case True
    then show ?thesis unfolding reads block_ends_read Let_def by (simp add: same)
  next
    case False
    then have "\<not> has_prefix ?j '';''" using none by blast
    then show ?thesis using False unfolding reads block_ends_read Let_def by simp
  qed
qed

text \<open>A word that is no block's, once its first letter is behind.\<close>

lemma run_word:
  "copying p \<Longrightarrow> isWordRune prev \<Longrightarrow> list_all isWordRune w \<Longrightarrow>
     split_run prev (w @ rest) p = split_run (last (prev # w)) rest (put_text w p)"
proof (induction w arbitrary: prev p)
  case (Cons r w)
  then have r: "r \<noteq> SQ" "r \<noteq> DQ" "r \<noteq> CHR ''-''" "r \<noteq> CHR ''*''" "r \<noteq> CHR '';''"
    using word_chars by auto
  have "split_step prev r (w @ rest) p = (put_text [r] p, 1)"
    using r Cons.prems by (simp add: split_step_def copying_def blockDelta_def)
  then show ?case using Cons by simp
qed simp

lemma run_stays:
  assumes "copying p" "blockDelta prev (w @ rest) = (0, 0)" "w \<noteq> []" "list_all isWordRune w"
  shows "split_run prev (w @ rest) p = split_run (last w) rest (put_text w p)"
proof -
  obtain r rs where w: "w = r # rs" using assms(3) by (cases w) auto
  have r: "r \<noteq> SQ" "r \<noteq> DQ" "r \<noteq> CHR ''-''" "r \<noteq> CHR ''*''" "r \<noteq> CHR '';''"
    using assms(4) word_chars w by auto
  have "split_step prev r (rs @ rest) p = (put_text [r] p, 1)"
    using assms(1,2) r w by (simp add: split_step_def copying_def)
  then show ?thesis using run_word [of "put_text [r] p" r rs rest] assms w by simp
qed

lemma splits_as_specified:
  assumes "legal prev ts" "copying p" "sp_depth p = int d"
  shows "sp_out (flush (split_run prev (source ts) p)) = sp_out p @ cut_up d (sp_cur p) ts"
  using assms
proof (induction ts arbitrary: prev p d)
  case Nil
  then show ?case by (simp add: flush_out)
next
  case (Cons t ts)
  have ok: "tok_ok prev t" "legal (last (tok_text t)) ts"
    and edge: "source ts = [] \<or> \<not> (isWordRune (last (tok_text t)) \<and> isWordRune (hd (source ts)))"
    using Cons.prems(1) by (cases ts; auto)+
  note IH = Cons.IH [OF ok(2)]
  show ?case
  proof (cases t)
    case (Bare b)
    then show ?thesis
      using run_bare [of p prev b "source ts"] ok edge IH [of "put_text b p" d] Cons.prems by simp
  next
    case (Literal q s)
    then show ?thesis
      using run_literal [of p q s prev "source ts"] ok IH [of "put_text (q # s @ [q]) p" d] Cons.prems by simp
  next
    case (LineComment s)
    then show ?thesis
      using run_line [of p prev s "source ts"] ok IH [of "put_text [LF] p" d] Cons.prems by simp
  next
    case (BlockComment s)
    then show ?thesis
      using run_block [of p s prev "source ts"] ok IH [of p d] Cons.prems by simp
  next
    case (Opens w)
    have k: "word_at (w @ source ts) = w" "w \<noteq> []" "isWordRune (hd w)"
      using keyword_word [of w "''BEGIN''" "source ts"] ok edge Opens
      by (simp_all add: isWordRune_def char_nat_def)
    let ?p = "put_text w (p\<lparr>sp_depth := int (d + 1)\<rparr>)"
    have "split_run prev (w @ source ts) p = split_run (last w) (source ts) ?p"
      using run_keyword [OF Cons.prems(2) blockDelta_opens [of prev w "source ts"] _ k(2,3)] ok k Opens Cons.prems(3)
      by (simp add: add.commute)
    then show ?thesis using IH [of ?p "d + 1"] Cons.prems Opens by simp
  next
    case (Closes w)
    have k: "word_at (w @ source ts) = w" "w \<noteq> []" "isWordRune (hd w)"
      using keyword_word [of w "''END''" "source ts"] ok edge Closes
      by (simp_all add: isWordRune_def char_nat_def)
    let ?p = "put_text w (p\<lparr>sp_depth := int (d - 1)\<rparr>)"
    have "blockDelta prev (w @ source ts) = (- 1, length w)"
      using blockDelta_end [of prev w "source ts"] ok k Closes Cons.prems(1) by simp
    then have "split_run prev (w @ source ts) p = split_run (last w) (source ts) ?p"
      using run_keyword [OF Cons.prems(2) _ _ k(2,3)] Cons.prems(3) by (simp add: max_def of_nat_diff)
    then show ?thesis using IH [of ?p "d - 1"] Cons.prems Closes by simp
  next
    case (Stays w)
    have k: "word_at (w @ source ts) = w" "w \<noteq> []"
      using keyword_word [of w "''END''" "source ts"] ok edge Stays
      by (simp_all add: isWordRune_def char_nat_def)
    then have "list_all isWordRune w" using word_split [of "w @ source ts"] by simp
    moreover have "blockDelta prev (w @ source ts) = (0, 0)"
      using blockDelta_end [of prev w "source ts"] ok k Stays Cons.prems(1) by simp
    ultimately show ?thesis
      using run_stays [OF Cons.prems(2) _ k(2)] IH [of "put_text w p" d] Cons.prems Stays by simp
  next
    case Semi
    show ?thesis
    proof (cases "0 < d")
      case True
      then show ?thesis
        using Semi step_semi [OF Cons.prems(2)] IH [of "put_text '';'' p" d] Cons.prems by simp
    next
      case False
      then show ?thesis
        using Semi step_semi [OF Cons.prems(2)] IH [of "flush p" d] Cons.prems
        by (simp add: copying_flush flush_out)
    qed
  qed
qed

text \<open>
  C4: A case splits as its tokens say: a semicolon ends a statement exactly when it is outside
  literals, comments and blocks, comments vanish, literals and block bodies stay as written, and
  every statement is there, trimmed, in order. A block opens at a \<open>BEGIN\<close> and closes at an \<open>END\<close> with a
  semicolon behind it, or a name and a semicolon; the \<open>END\<close> of \<open>END IF\<close>, \<open>LOOP\<close>, \<open>CASE\<close>, \<open>WHILE\<close> and
  \<open>FOR\<close>, and one with anything else behind it, close none. Every literal and comment of the case ends, and no star
  follows a comment's end.
\<close>

theorem statements_as_specified:
  assumes "legal NUL ts"
  shows "repl_Statements (source ts) = cut_up 0 [] ts"
  using splits_as_specified [OF assms, of new_splitter 0]
  by (simp add: repl_Statements_def new_splitter_def copying_def)

lemmas block_eval = block_ends_read wordAt_def skipSpace_def control Let_def

theorem statements_as_specified_witness:
  "repl_Statements (source [Opens ''begin'', Bare '' p'', Semi, Stays ''end'', Bare '' if'', Semi, Closes ''end'', Bare '' b'', Semi,
      BlockComment ''* ; '', Bare ''i '', Literal SQ '';'', Semi]) = [''begin p;end if;end b'', ''i '' @ [SQ] @ '';'' @ [SQ]]"
proof -
  let ?ts = "[Opens ''begin'', Bare '' p'', Semi, Stays ''end'', Bare '' if'', Semi, Closes ''end'', Bare '' b'', Semi,
      BlockComment ''* ; '', Bare ''i '', Literal SQ '';'', Semi]"
  have l: "legal NUL ?ts" by (simp add: block_eval word_eval NUL_def char_of_def bit_0 sublist_Cons_right)
  have c: "cut_up 0 [] ?ts = [''begin p;end if;end b'', ''i '' @ [SQ] @ '';'' @ [SQ]]"
    by (simp add: ended_def trim_space_trimmed graphic_trimmed graphic_def char_nat_def quotes)
  show ?thesis unfolding statements_as_specified [OF l] by (rule c)
qed

text \<open>\<open>/*/\<close> opens a comment and closes it again, so the rest of the comment runs.\<close>

lemma comment_closed_early:
  "sp_out (split_run NUL ''/*/a;'' new_splitter) = [''a'']"
  by (simp add: split_step_def new_splitter_def put_text_def flush_def trim_suffix_def blockDelta_def
      wordAt_def skipSpace_def word_eval NUL_def trim_space_trimmed graphic_trimmed graphic_def)

text \<open>
  The \<open>END\<close> of a \<open>CASE\<close> expression that is all of an assignment has a semicolon behind it: it closes the
  block it stands in, and the rest of the block is cut off as statements of its own.
\<close>

lemma case_end_closes_the_block:
  "repl_Statements ''begin x:=case a when b then c end;y;end;'' =
     [''begin x:=case a when b then c end'', ''y'', ''end'']"
proof -
  let ?ts = "[Opens ''begin'', Bare '' x:=case a when b then c '', Closes ''end'', Semi, Bare ''y'', Semi, Closes ''end'', Semi]"
  have l: "legal NUL ?ts" by (simp add: block_eval word_eval NUL_def char_of_def bit_0)
  have c: "cut_up 0 [] ?ts = [''begin x:=case a when b then c end'', ''y'', ''end'']"
    by (simp add: ended_def trim_space_trimmed graphic_trimmed graphic_def char_nat_def)
  show ?thesis
    using splits_as_specified [OF l, of new_splitter 0] c
    by (simp add: repl_Statements_def new_splitter_def copying_def)
qed

end
