(* ===== verification/Harepl_Batch.thy ===== *)
theory Harepl_Batch
  imports Harepl_Statement
begin

text \<open>
  Statements in groups (\<open>internal/runner/hareplsuite/batch.go\<close>): the script sent in one call and the
  line each statement starts on, the answers taken apart by csql's result markers, and the case cut
  into runs of writes and runs of reads. The channel to the node is a parameter: what it answers to
  a script, an error or both outputs with the exit code.
\<close>

subsection \<open>The script\<close>

record batch =
  bt_script :: string
  bt_line :: "nat list"

definition line_breaks :: "string \<Rightarrow> nat" where
  "line_breaks s = count_list s LF"

fun lay_out :: "nat \<Rightarrow> string list \<Rightarrow> string \<times> nat list \<times> nat" where
  "lay_out at [] = ([], [], at)"
| "lay_out at (s # ss) =
     (case lay_out (at + line_breaks s + 1) ss of (t, ls, at') \<Rightarrow> (s @ '';'' @ [LF] @ t, at # ls, at'))"

definition newBatchWith :: "string list \<Rightarrow> string list \<Rightarrow> batch" where
  "newBatchWith prelude stmts =
     (case lay_out 1 prelude of (p, _, at) \<Rightarrow>
      case lay_out at stmts of (t, ls, _) \<Rightarrow> \<lparr>bt_script = p @ t, bt_line = ls\<rparr>)"

definition newBatch :: "string list \<Rightarrow> batch" where
  "newBatch stmts = newBatchWith [] stmts"

definition IsSessionStatement :: "string \<Rightarrow> bool" where
  "IsSessionStatement stmt =
     (let s = to_lower (trim_space stmt) in
      if has_prefix s ''set system parameters'' then True
      else has_prefix s ''call login'' \<or>
        (has_prefix s ''call '' \<and> contains s '' login '' \<and> contains s ''db_user''))"

subsection \<open>The answers\<close>

text \<open>
  The marker \<open>=== <Result of ...Command in Line n> ===\<close> at the start of a line. The text before the
  number holds no \<open>>\<close>, so the one after it is the first; the digits before it are all of them.
\<close>

definition marker_line :: "string \<Rightarrow> int option" where
  "marker_line l =
     (if \<not> has_prefix l ''=== <Result of '' then None
      else (case cut_at (CHR ''>'') (drop (length ''=== <Result of '') l) of (inside, post, ok) \<Rightarrow>
        let ds = rev (takeWhile is_digit (rev inside));
            before = take (length inside - length ds) inside
        in if ok \<and> has_prefix post '' ==='' \<and> ds \<noteq> [] \<and> has_suffix before ''Command in Line ''
           then Some (case atoi ds of Some n \<Rightarrow> n | None \<Rightarrow> int_hi)
           else None))"

record unpacking =
  up_blocks :: "int \<Rightarrow> string option"
  up_cur :: "string list"
  up_line :: int

definition unpack_flush :: "unpacking \<Rightarrow> unpacking" where
  "unpack_flush u =
     \<lparr>up_blocks = (if 0 < up_line u then (up_blocks u)(up_line u \<mapsto> join_with [LF] (up_cur u)) else up_blocks u),
      up_cur = [], up_line = - 1\<rparr>"

definition unpack_line :: "string \<Rightarrow> unpacking \<Rightarrow> unpacking" where
  "unpack_line l u =
     (case marker_line (trim_space l) of
        Some n \<Rightarrow> (unpack_flush u)\<lparr>up_line := n\<rparr>
      | None \<Rightarrow> if 0 < up_line u then u\<lparr>up_cur := up_cur u @ [l]\<rparr> else u)"

definition splitResults :: "string \<Rightarrow> int \<Rightarrow> string option" where
  "splitResults t =
     up_blocks (unpack_flush (fold unpack_line (split_on LF t)
       \<lparr>up_blocks = (\<lambda>_. None), up_cur = [], up_line = - 1\<rparr>))"

type_synonym 'e channel = "string \<Rightarrow> 'e + (string \<times> string \<times> int)"

definition csql_call :: "string \<Rightarrow> string \<Rightarrow> string" where
  "csql_call db script =
     ''csql -u dba '' @ db @ '' <<'' @ [SQ] @ ''__TESTKIT_SQL__'' @ [SQ] @ [LF] @ script @ ''__TESTKIT_SQL__''"

definition run_batch :: "'e channel \<Rightarrow> string \<Rightarrow> batch \<Rightarrow> 'e + (string list \<times> int)" where
  "run_batch ch db b =
     (if bt_script b = [] then Inr ([], 0)
      else case ch (csql_call db (bt_script b)) of
        Inl e \<Rightarrow> Inl e
      | Inr (stdout, _, code) \<Rightarrow>
          Inr (map (\<lambda>ln. case splitResults stdout (int ln) of Some t \<Rightarrow> t | None \<Rightarrow> []) (bt_line b), code))"

definition runRaw :: "'e channel \<Rightarrow> string \<Rightarrow> batch \<Rightarrow> 'e + (string \<times> int)" where
  "runRaw ch db b =
     (if bt_script b = [] then Inr ([], 0)
      else case ch (csql_call db (bt_script b)) of
        Inl e \<Rightarrow> Inl e
      | Inr (stdout, stderr, code) \<Rightarrow> Inr (stdout @ stderr, code))"

subsection \<open>Segments\<close>

record segment =
  sg_read :: bool
  sg_stmts :: "string list"
  sg_idx :: "nat list"

definition segment_step :: "nat \<times> string \<Rightarrow> segment list \<Rightarrow> segment list" where
  "segment_step is gs =
     (case is of (i, s) \<Rightarrow>
        if isDirective s then gs
        else if gs \<noteq> [] \<and> sg_read (last gs) = IsRead s
        then butlast gs @ [(last gs)\<lparr>sg_stmts := sg_stmts (last gs) @ [s], sg_idx := sg_idx (last gs) @ [i]\<rparr>]
        else gs @ [\<lparr>sg_read = IsRead s, sg_stmts = [s], sg_idx = [i]\<rparr>])"

definition segments :: "string list \<Rightarrow> segment list" where
  "segments stmts = fold segment_step (enumerate 0 stmts) []"

end
