(* ===== verification/Harepl_Batch_Claims.thy ===== *)
theory Harepl_Batch_Claims
  imports Harepl_Batch
begin

text \<open>
  The segments of a case keep its statements, their order and their numbers; every answer of a
  batch goes to the statement that asked.
\<close>

subsection \<open>Segments\<close>

definition numbered_stmts :: "segment \<Rightarrow> (nat \<times> string) list" where
  "numbered_stmts g = zip (sg_idx g) (sg_stmts g)"

definition segment_ok :: "segment \<Rightarrow> bool" where
  "segment_ok g \<longleftrightarrow> sg_stmts g \<noteq> [] \<and> length (sg_idx g) = length (sg_stmts g) \<and>
     (\<forall>s \<in> set (sg_stmts g). IsRead s = sg_read g)"

lemma successively_snoc:
  "successively R (xs @ [x]) \<longleftrightarrow> successively R xs \<and> (xs = [] \<or> R (last xs) x)"
  by (auto simp: successively_append_iff)

lemma segment_step_inv:
  assumes "concat (map numbered_stmts gs) = xs" "list_all segment_ok gs"
    "successively (\<lambda>g h. sg_read g \<noteq> sg_read h) gs"
  shows "concat (map numbered_stmts (segment_step (i, s) gs)) = xs @ (if isDirective s then [] else [(i, s)])"
    "list_all segment_ok (segment_step (i, s) gs)"
    "successively (\<lambda>g h. sg_read g \<noteq> sg_read h) (segment_step (i, s) gs)"
proof -
  consider "isDirective s" | "\<not> isDirective s" "gs = [] \<or> sg_read (last gs) \<noteq> IsRead s"
    | fs g where "\<not> isDirective s" "gs = fs @ [g]" "sg_read g = IsRead s"
    by (cases gs rule: rev_cases) auto
  then have "concat (map numbered_stmts (segment_step (i, s) gs)) = xs @ (if isDirective s then [] else [(i, s)]) \<and>
    list_all segment_ok (segment_step (i, s) gs) \<and>
    successively (\<lambda>g h. sg_read g \<noteq> sg_read h) (segment_step (i, s) gs)"
  proof cases
    case 1
    then show ?thesis using assms by (simp add: segment_step_def)
  next
    case 2
    then have "segment_step (i, s) gs = gs @ [\<lparr>sg_read = IsRead s, sg_stmts = [s], sg_idx = [i]\<rparr>]"
      by (auto simp: segment_step_def)
    then show ?thesis using assms 2
      by (simp add: successively_snoc) (auto simp: numbered_stmts_def segment_ok_def)
  next
    case 3
    then have "segment_step (i, s) gs = fs @ [g\<lparr>sg_stmts := sg_stmts g @ [s], sg_idx := sg_idx g @ [i]\<rparr>]"
      by (auto simp: segment_step_def)
    then show ?thesis using assms 3
      by (simp add: successively_snoc) (auto simp: numbered_stmts_def segment_ok_def)
  qed
  then show "concat (map numbered_stmts (segment_step (i, s) gs)) = xs @ (if isDirective s then [] else [(i, s)])"
    "list_all segment_ok (segment_step (i, s) gs)"
    "successively (\<lambda>g h. sg_read g \<noteq> sg_read h) (segment_step (i, s) gs)" by blast+
qed

lemma segments_inv:
  assumes "concat (map numbered_stmts gs) = xs" "list_all segment_ok gs"
    "successively (\<lambda>g h. sg_read g \<noteq> sg_read h) gs"
  shows "concat (map numbered_stmts (fold segment_step ss gs)) = xs @ filter (\<lambda>(i, s). \<not> isDirective s) ss \<and>
    list_all segment_ok (fold segment_step ss gs) \<and>
    successively (\<lambda>g h. sg_read g \<noteq> sg_read h) (fold segment_step ss gs)"
  using assms
proof (induction ss arbitrary: gs xs)
  case (Cons x ss)
  obtain i s where x: "x = (i, s)" by (cases x)
  show ?case using Cons.IH [OF segment_step_inv [OF Cons.prems, of i s]] by (simp add: x)
qed simp

text \<open>
  The segments of a case hold every statement but csql's own directives, each with its number
  and in the order of the case; reads and writes never share a segment, and neighbours differ, so
  the wait for replication stands between a write and the reads after it and nowhere else.
\<close>

theorem segments_keep_the_case:
  "concat (map numbered_stmts (segments stmts)) = filter (\<lambda>(i, s). \<not> isDirective s) (enumerate 0 stmts) \<and>
   list_all segment_ok (segments stmts) \<and>
   successively (\<lambda>g h. sg_read g \<noteq> sg_read h) (segments stmts)"
  using segments_inv [of "[]" "[]" "enumerate 0 stmts"] by (simp add: segments_def)

subsection \<open>Where a statement starts\<close>

text \<open>The script as csql reads it, and the line on which its statement \<open>i\<close> begins.\<close>

definition script_of :: "string list \<Rightarrow> string" where
  "script_of ss = concat (map (\<lambda>s. s @ '';'' @ [LF]) ss)"

definition start_line :: "string list \<Rightarrow> string list \<Rightarrow> nat \<Rightarrow> nat" where
  "start_line prelude stmts i = 1 + line_breaks (script_of (prelude @ take i stmts))"

lemma breaks_script [simp]:
  "line_breaks (script_of []) = 0" "script_of [] = []"
  "script_of (s # ss) = s @ '';'' @ [LF] @ script_of ss" "script_of (ss @ ts) = script_of ss @ script_of ts"
  "line_breaks (s @ t) = line_breaks s + line_breaks t"
  "line_breaks [] = 0" "line_breaks (c # t) = (if c = LF then 1 else 0) + line_breaks t"
  by (simp_all add: script_of_def line_breaks_def)

lemma lay_out_is:
  "lay_out at ss = (script_of ss, map (\<lambda>i. at + line_breaks (script_of (take i ss))) [0..<length ss],
     at + line_breaks (script_of ss))"
proof (induction at ss rule: lay_out.induct)
  case (2 at s ss)
  have "[0..<length (s # ss)] = 0 # map Suc [0..<length ss]"
    by (subst upt_conv_Cons) (simp_all add: map_Suc_upt del: upt_Suc)
  then show ?case using 2 by (simp add: control del: upt_Suc)
qed (simp add: line_breaks_def)

lemma newBatchWith_is:
  "newBatchWith p ss = \<lparr>bt_script = script_of (p @ ss), bt_line = map (start_line p ss) [0..<length ss]\<rparr>"
  by (simp add: newBatchWith_def lay_out_is start_line_def add.assoc)

lemma start_line_increases: "i < j \<Longrightarrow> j \<le> length ss \<Longrightarrow> start_line p ss i < start_line p ss j"
proof -
  assume ij: "i < j" "j \<le> length ss"
  then have "take j ss = take i ss @ ss ! i # take (j - Suc i) (drop (Suc i) ss)"
    by (metis Cons_nth_drop_Suc Suc_diff_Suc less_le_trans le_add_diff_inverse less_imp_le take_Suc_Cons take_add)
  then show ?thesis by (simp add: start_line_def control)
qed

lemma start_line_inj: "inj_on (start_line p ss) {..<length ss}"
  by (rule linorder_inj_onI) (auto dest: start_line_increases [of _ _ ss p])

subsection \<open>Whose answer it is\<close>

text \<open>What csql prints for one statement that has a result: the marker with its line, then the rows.\<close>

type_synonym answer = "string \<times> nat \<times> string list"

definition answer_lines :: "answer \<Rightarrow> string list" where
  "answer_lines x =
     (case x of (kind, n, rows) \<Rightarrow>
       (''=== <Result of '' @ kind @ '' Command in Line '' @ itoa (int n) @ ''> ==='') # rows)"

definition csql_text :: "string list \<Rightarrow> answer list \<Rightarrow> string" where
  "csql_text head xs = join_with [LF] (head @ concat (map answer_lines xs))"

definition silent :: "string \<Rightarrow> bool" where
  "silent l \<longleftrightarrow> LF \<notin> set l \<and> marker_line (trim_space l) = None"

definition answer_ok :: "answer \<Rightarrow> bool" where
  "answer_ok x \<longleftrightarrow>
     (case x of (kind, n, rows) \<Rightarrow>
       CHR ''>'' \<notin> set kind \<and> LF \<notin> set kind \<and> 0 < n \<and> in_int (int n) \<and> list_all silent rows)"

lemma itoa_digits: "\<forall>c \<in> set (itoa (int n)). is_digit c" "itoa (int n) \<noteq> []"
  using nat_digits_set [of _ n] by (auto simp: itoa_def)

lemma cut_at_char: "c \<notin> set s \<Longrightarrow> cut_at c (s @ c # t) = (s, t, True)"
  by (simp add: cut_at_append)

lemma marker_of_answer:
  assumes "CHR ''>'' \<notin> set kind" "in_int (int n)"
  shows "marker_line (trim_space (''=== <Result of '' @ kind @ '' Command in Line '' @ itoa (int n) @ ''> ===''))
    = Some (int n)"
proof -
  define v where "v = kind @ '' Command in Line '' @ itoa (int n)"
  have t: "trim_space (''=== <Result of '' @ kind @ '' Command in Line '' @ itoa (int n) @ ''> ==='')
      = ''=== <Result of '' @ v @ CHR ''>'' # '' ===''"
    by (subst trim_space_trimmed) (simp_all add: v_def graphic_trimmed graphic_def char_nat_def)
  have "CHR ''>'' \<notin> set v"
    using assms(1) itoa_digits(1) [of n] by (auto simp: v_def is_digit_def char_nat_def)
  then have c: "cut_at (CHR ''>'') (v @ CHR ''>'' # '' ==='') = (v, '' ==='', True)" by (rule cut_at_char)
  have "takeWhile is_digit (rev (itoa (int n)) @ ys) = rev (itoa (int n)) @ takeWhile is_digit ys" for ys
    using itoa_digits(1) [of n] by (intro takeWhile_append2) simp
  then have d: "takeWhile is_digit (rev v) = rev (itoa (int n))"
    by (simp add: v_def is_digit_def char_nat_def)
  have b: "take (length v - length (itoa (int n))) v = kind @ '' Command in Line ''" by (simp add: v_def)
  have "has_suffix (kind @ '' Command in Line '') ''Command in Line ''"
    by (rule suffixI [of _ "kind @ '' ''"]) simp
  then show ?thesis
    unfolding t marker_line_def using c d b assms(2) itoa_digits(2) [of n] by (simp add: Let_def atoi_itoa)
qed

lemma silent_line: "silent l \<Longrightarrow> unpack_line l u = (if 0 < up_line u then u\<lparr>up_cur := up_cur u @ [l]\<rparr> else u)"
  by (simp add: silent_def unpack_line_def)

lemma silent_lines:
  "list_all silent ls \<Longrightarrow> fold unpack_line ls u = (if 0 < up_line u then u\<lparr>up_cur := up_cur u @ ls\<rparr> else u)"
  by (induction ls arbitrary: u) (auto simp: silent_line)

lemma answer_unpacked:
  assumes "answer_ok (kind, n, rows)"
  shows "fold unpack_line (answer_lines (kind, n, rows)) u =
    \<lparr>up_blocks = up_blocks (unpack_flush u), up_cur = rows, up_line = int n\<rparr>"
proof -
  have m: "unpack_line (hd (answer_lines (kind, n, rows))) u = (unpack_flush u)\<lparr>up_line := int n\<rparr>"
    using assms marker_of_answer [of kind n] by (simp add: answer_ok_def answer_lines_def unpack_line_def)
  then show ?thesis
    using assms by (simp add: answer_lines_def answer_ok_def silent_lines) (simp add: unpack_flush_def)
qed

lemma answers_unpacked:
  "\<forall>x \<in> set xs. answer_ok x \<Longrightarrow>
   up_blocks (unpack_flush (fold unpack_line (concat (map answer_lines xs)) u)) =
   fold (\<lambda>(kind, n, rows) m. m(int n \<mapsto> join_with [LF] rows)) xs (up_blocks (unpack_flush u))"
proof (induction xs arbitrary: u)
  case (Cons x xs)
  obtain kind n rows where x: "x = (kind, n, rows)" by (cases x)
  let ?u = "\<lparr>up_blocks = up_blocks (unpack_flush u), up_cur = rows, up_line = int n\<rparr>"
  have "up_blocks (unpack_flush ?u) = (up_blocks (unpack_flush u))(int n \<mapsto> join_with [LF] rows)"
    using Cons.prems by (simp add: x answer_ok_def unpack_flush_def)
  then show ?case
    using Cons.IH [of ?u] Cons.prems answer_unpacked [of kind n rows u] by (simp add: x)
qed simp

lemma splitResults_csql:
  assumes "head \<noteq> []" "list_all silent head" "\<forall>x \<in> set xs. answer_ok x"
  shows "splitResults (csql_text head xs) =
    fold (\<lambda>(kind, n, rows) m. m(int n \<mapsto> join_with [LF] rows)) xs (\<lambda>_. None)"
proof -
  let ?ls = "head @ concat (map answer_lines xs)"
  have "LF \<notin> set l" if l: "l \<in> set ?ls" for l
  proof -
    have "LF \<notin> set (itoa (int n))" for n
      using itoa_digits(1) [of n] by (auto simp: is_digit_def char_nat_def control)
    then show ?thesis
      using l assms(2,3)
      by (fastforce simp: list_all_iff silent_def answer_lines_def answer_ok_def control)
  qed
  then have "split_on LF (csql_text head xs) = ?ls"
    using assms(1) by (simp add: csql_text_def split_join)
  then show ?thesis
    using answers_unpacked [OF assms(3)] silent_lines [OF assms(2)]
    by (simp add: splitResults_def unpack_flush_def)
qed

lemma fold_upd:
  "fold (\<lambda>(kind, n, rows) m. m(int n \<mapsto> f rows)) xs m k =
     (case map_of (rev (map (\<lambda>(kind, n, rows). (int n, f rows)) xs)) k of Some v \<Rightarrow> Some v | None \<Rightarrow> m k)"
  by (induction xs rule: rev_induct) (auto split: option.split)

lemma map_of_inj:
  "inj_on key A \<Longrightarrow> set js \<subseteq> A \<Longrightarrow> k \<in> A \<Longrightarrow>
   map_of (map (\<lambda>i. (key i, val i)) js) (key k) = (if k \<in> set js then Some (val k) else None)"
  by (induction js) (auto dest: inj_onD)

text \<open>
  C31: In a batch every answer goes to the statement that asked: when csql labels the results it
  prints with the line on which the statement starts in the script, after whatever it says first,
  the answer recorded for a statement is what was printed for it, and nothing for a statement
  without a result. The prelude shifts the lines and is never mistaken for a statement.
\<close>

theorem answers_go_to_their_statements:
  assumes "stmts \<noteq> []" and "distinct asked" and "set asked \<subseteq> {..<length stmts}"
    and "head \<noteq> []" and "list_all silent head"
    and "\<forall>i \<in> set asked. answer_ok (kind i, start_line prelude stmts i, rows i)"
    and "ch (csql_call db (script_of (prelude @ stmts))) =
      Inr (csql_text head (map (\<lambda>i. (kind i, start_line prelude stmts i, rows i)) asked), err, code)"
  shows "run_batch ch db (newBatchWith prelude stmts) =
    Inr (map (\<lambda>i. if i \<in> set asked then join_with [LF] (rows i) else []) [0..<length stmts], code)"
proof -
  let ?line = "start_line prelude stmts"
  let ?text = "csql_text head (map (\<lambda>i. (kind i, ?line i, rows i)) asked)"
  have key: "inj_on (\<lambda>i. int (?line i)) {..<length stmts}"
    using start_line_inj [of prelude stmts] by (auto simp: inj_on_def)
  have "splitResults ?text (int (?line i)) = (if i \<in> set asked then Some (join_with [LF] (rows i)) else None)"
    if i: "i < length stmts" for i
  proof -
    have "splitResults ?text (int (?line i)) =
        map_of (map (\<lambda>i. (int (?line i), join_with [LF] (rows i))) (rev asked)) (int (?line i))"
      using splitResults_csql [OF assms(4,5), of "map (\<lambda>i. (kind i, ?line i, rows i)) asked"] assms(6)
      by (simp add: fold_upd rev_map comp_def split: option.split)
    then show ?thesis using map_of_inj [OF key, of "rev asked" i "\<lambda>i. join_with [LF] (rows i)"] assms(3) i by simp
  qed
  moreover have "script_of (prelude @ stmts) \<noteq> []" using assms(1) by (cases stmts) simp_all
  ultimately show ?thesis using assms(7) by (auto simp: run_batch_def newBatchWith_is simp del: breaks_script)
qed

theorem answers_go_to_their_statements_witness:
  "run_batch (\<lambda>_. Inr (csql_text [[]] [(''SELECT'', 3, [''1'', ''x''])], [], 0) :: unit + _) ''db''
     (newBatchWith [''call login''] [''insert'', ''select'']) = Inr ([[], join_with [LF] [''1'', ''x'']], 0)"
proof -
  have s: "list_all silent [''1'', ''x'']" "list_all silent [[]]"
    by (simp_all add: silent_def trim_space_trimmed graphic_trimmed graphic_def char_nat_def
        marker_line_def control)
  have l: "start_line [''call login''] [''insert'', ''select''] (Suc 0) = 3"
    by (simp add: start_line_def line_breaks_def control)
  have "answer_ok (''SELECT'', 3, [''1'', ''x''])"
    using s by (simp add: answer_ok_def in_int_def int_lo_def int_hi_def control)
  then show ?thesis
    using answers_go_to_their_statements [of "[''insert'', ''select'']" "[1]" "[[]]" "\<lambda>_. ''SELECT''"
        "[''call login'']" "\<lambda>_. [''1'', ''x'']"
        "\<lambda>_. Inr (csql_text [[]] [(''SELECT'', 3, [''1'', ''x''])], [], 0) :: unit + _" "''db''" "[]" 0] s
    by (simp add: l upt_rec)
qed

end
