(* ===== verification/Harepl_Convert.thy ===== *)
theory Harepl_Convert
  imports Harepl_Statement "HOL-Library.AList"
begin

text \<open>
  The key column the suite adds to a case's tables (\<open>internal/runner/hareplsuite/convert.go\<close>). The
  columns of the converted tables are a list of pairs, each table once; a position in a statement is
  the text from it on, with the byte before it where that matters.
\<close>

definition KeyColumn :: string where "KeyColumn = ''tk_repl_key''"

text \<open>The first \<open>c\<close> at a depth of parentheses, outside literals.\<close>

fun index_depth :: "char \<Rightarrow> int \<Rightarrow> int \<Rightarrow> char option \<Rightarrow> string \<Rightarrow> nat option" where
  "index_depth c want depth q [] = None"
| "index_depth c want depth q (ch # s) =
     (if q \<noteq> None then map_option Suc (index_depth c want depth (if q = Some ch then None else q) s)
      else if ch = SQ \<or> ch = DQ then map_option Suc (index_depth c want depth (Some ch) s)
      else if ch = c \<and> depth = want then Some 0
      else map_option Suc (index_depth c want
             (if ch = CHR ''('' then depth + 1 else if ch = CHR '')'' then depth - 1 else depth) None s))"

definition indexAtDepth :: "string \<Rightarrow> char \<Rightarrow> int \<Rightarrow> nat option" where
  "indexAtDepth s c want = index_depth c want 0 None s"

lemma index_depth_at: "index_depth c w d q s = Some i \<Longrightarrow> i < length s \<and> s ! i = c"
  by (induction c w d q s arbitrary: i rule: index_depth.induct) (auto split: if_splits)

lemma indexAtDepth_at: "indexAtDepth s c w = Some i \<Longrightarrow> i < length s \<and> s ! i = c"
  by (simp add: indexAtDepth_def index_depth_at)

function splitTopLevel :: "string \<Rightarrow> string list" where
  "splitTopLevel s =
     (case indexAtDepth s (CHR '','') 0 of
        None \<Rightarrow> [s]
      | Some i \<Rightarrow> take i s # splitTopLevel (drop (i + 1) s))"
  by pat_completeness auto
termination
  by (relation "measure length") (auto dest: indexAtDepth_at)

declare splitTopLevel.simps [simp del]

fun first_field :: "string \<Rightarrow> string" where
  "first_field [] = []"
| "first_field (c # s) = (if front_width space_runes (c # s) \<noteq> 0 then [] else c # first_field s)"

definition constraint_words :: "string list" where
  "constraint_words = [''PRIMARY'', ''FOREIGN'', ''UNIQUE'', ''INDEX'', ''KEY'', ''CONSTRAINT'', ''CHECK'', ''SHARED'']"

definition columnNames :: "string \<Rightarrow> string list" where
  "columnNames l =
     List.map_filter (\<lambda>item.
       let s = trim_space item; f = first_field s in
       if s = [] then None
       else if to_upper f \<in> set constraint_words then None
       else Some (trim_of [CHR ''['', CHR '']'', DQ, CHR ''`'', CHR '',''] f)) (splitTopLevel l)"

definition unquoted :: "string \<Rightarrow> string" where
  "unquoted s = trim_of [CHR ''['', CHR '']'', DQ, CHR ''`''] s"

definition after_word :: "string \<Rightarrow> string" where
  "after_word s = skipSpace (drop (length (word_at s)) s)"

lemma skipSpace_shorter: "length (skipSpace s) \<le> length s"
  by (simp add: skipSpace_def length_dropWhile_le)

lemma after_word_shorter: "word_at s \<noteq> [] \<Longrightarrow> length (after_word s) < length s"
proof -
  assume w: "word_at s \<noteq> []"
  have "length (word_at s) \<le> length s" by (simp add: word_at_def length_takeWhile_le)
  then have "length (drop (length (word_at s)) s) < length s" using w by (cases s) auto
  then show ?thesis using skipSpace_shorter [of "drop (length (word_at s)) s"] by (simp add: after_word_def)
qed

text \<open>\<open>IF NOT EXISTS\<close> between the keyword and the name.\<close>

function skip_exists :: "string \<Rightarrow> string" where
  "skip_exists s =
     (if to_upper (word_at s) \<in> {''IF'', ''NOT'', ''EXISTS''} then skip_exists (after_word s) else s)"
  by pat_completeness auto
termination
  by (relation "measure length") (auto simp: to_upper_def intro!: after_word_shorter)

declare skip_exists.simps [simp del]

function tableNameOf :: "string \<Rightarrow> string" where
  "tableNameOf s =
     (if s = [] then []
      else if word_at s = [] then tableNameOf (tl s)
      else if to_upper (word_at s) \<in> {''TABLE'', ''CLASS''}
      then unquoted (word_at (skip_exists (after_word s)))
      else tableNameOf (after_word s))"
  by pat_completeness auto
termination
  by (relation "measure length") (auto intro!: after_word_shorter)

declare tableNameOf.simps [simp del]

function subclassOf :: "string \<Rightarrow> string" where
  "subclassOf s =
     (if s = [] then []
      else if word_at s = [] then subclassOf (tl s)
      else if to_upper (word_at s) = ''SUBCLASS''
      then (if to_upper (word_at (after_word s)) = ''OF'' then unquoted (word_at (after_word (after_word s))) else [])
      else subclassOf (after_word s))"
  by pat_completeness auto
termination
  by (relation "measure length") (auto intro!: after_word_shorter)

declare subclassOf.simps [simp del]

definition isCreateTable :: "string \<Rightarrow> bool" where
  "isCreateTable stmt =
     (let s = to_upper (trim_space stmt) in
      has_prefix s ''CREATE'' \<and> (contains s '' TABLE '' \<or> contains s '' CLASS ''))"

type_synonym conversion = "(string \<times> string list) list"

definition NewConversion :: conversion where "NewConversion = []"

definition key_clause :: string where
  "key_clause = '', '' @ KeyColumn @ '' INT AUTO_INCREMENT PRIMARY KEY''"

definition convert_subclass :: "conversion \<Rightarrow> string \<Rightarrow> string \<Rightarrow> conversion" where
  "convert_subclass c parent stmt =
     (case map_of c (to_lower parent) of
        None \<Rightarrow> c
      | Some inherited \<Rightarrow>
          (let table = tableNameOf stmt;
               own = (case indexAtDepth stmt (CHR ''('') 0 of
                        None \<Rightarrow> []
                      | Some opening \<Rightarrow>
                          (let inner = drop (opening + 1) stmt in
                           case indexAtDepth inner (CHR '')'') 0 of
                             None \<Rightarrow> []
                           | Some closing \<Rightarrow> columnNames (take closing inner)))
           in if table = [] then c else AList.update (to_lower table) (inherited @ own) c))"

definition convertCreate :: "conversion \<Rightarrow> string \<Rightarrow> string \<times> bool \<times> conversion" where
  "convertCreate c stmt =
     (let upper = to_upper stmt; parent = subclassOf stmt in
      if \<not> isCreateTable stmt \<or> contains upper ''PRIMARY KEY'' \<or> contains upper ''AUTO_INCREMENT''
      then (stmt, False, c)
      else if parent \<noteq> [] then (stmt, False, convert_subclass c parent stmt)
      else case indexAtDepth stmt (CHR ''('') 0 of
        None \<Rightarrow> (stmt, False, c)
      | Some opening \<Rightarrow>
          (let inner = drop (opening + 1) stmt in
           case indexAtDepth inner (CHR '')'') 0 of
             None \<Rightarrow> (stmt, False, c)
           | Some closing \<Rightarrow>
               (let table = tableNameOf stmt; cols = columnNames (take closing inner); at = opening + 1 + closing in
                if table = [] then (stmt, False, c)
                else if cols = [] then (stmt, False, c)
                else (take at stmt @ key_clause @ drop at stmt, True, AList.update (to_lower table) cols c))))"

text \<open>The table of an insert that relies on the order of its columns, and the bytes before its values.\<close>

definition insertHeadAt :: "char \<Rightarrow> string \<Rightarrow> (string \<times> nat) option" where
  "insertHeadAt prev s =
     (let kw = to_upper (word_at s); j = after_word s in
      if isWordRune prev then None
      else if kw \<noteq> ''INSERT'' \<and> kw \<noteq> ''REPLACE'' then None
      else if to_upper (word_at j) \<noteq> ''INTO'' \<and> kw = ''REPLACE'' then None
      else (let j1 = (if to_upper (word_at j) = ''INTO'' then after_word j else j); k = after_word j1 in
        if word_at j1 = [] then None
        else if to_upper (word_at k) \<notin> {''VALUES'', ''SELECT''} then None
        else Some (word_at j1, length s - length k)))"

lemma insertHeadAt_takes: "insertHeadAt prev s = Some (t, n) \<Longrightarrow> 0 < n \<and> n \<le> length s"
proof -
  assume h: "insertHeadAt prev s = Some (t, n)"
  then have w: "word_at s \<noteq> []" by (auto simp: insertHeadAt_def Let_def to_upper_def split: if_splits)
  obtain k :: string where n: "n = length s - length k" and k: "length k \<le> length (after_word s)"
  proof -
    let ?j = "after_word s"
    let ?j1 = "if to_upper (word_at ?j) = ''INTO'' then after_word ?j else ?j"
    have "word_at ?j1 \<noteq> []" "n = length s - length (after_word ?j1)"
      using h by (auto simp: insertHeadAt_def Let_def split: if_splits)
    moreover have "length ?j1 \<le> length ?j"
      using after_word_shorter [of ?j] by (auto simp: to_upper_def)
    ultimately show thesis using that [of "after_word ?j1"] after_word_shorter [of ?j1] by simp
  qed
  then show ?thesis using after_word_shorter [OF w] by simp
qed

function name_scan :: "conversion \<Rightarrow> char \<Rightarrow> string \<Rightarrow> string \<times> bool" where
  "name_scan c prev s =
     (case s of
        [] \<Rightarrow> ([], False)
      | r # rs \<Rightarrow>
          (case insertHeadAt prev s of
             None \<Rightarrow> map_prod (Cons r) id (name_scan c r rs)
           | Some (table, n) \<Rightarrow>
               (case map_of c (to_lower table) of
                  None \<Rightarrow> map_prod (append (take n s)) id (name_scan c (s ! (n - 1)) (drop n s))
                | Some cols \<Rightarrow>
                    map_prod (append (take n s @ ''('' @ join_with '', '' cols @ '') '')) (\<lambda>_. True)
                      (name_scan c (s ! (n - 1)) (drop n s)))))"
  by pat_completeness auto
termination
  by (relation "measure (\<lambda>(c, prev, s). length s)") (auto dest!: insertHeadAt_takes)

declare name_scan.simps [simp del]

definition nameColumns :: "conversion \<Rightarrow> string \<Rightarrow> string \<times> bool" where
  "nameColumns c stmt = (if c = [] then (stmt, False) else name_scan c NUL stmt)"

definition Apply :: "conversion \<Rightarrow> string \<Rightarrow> string \<times> bool \<times> conversion" where
  "Apply c stmt =
     (case convertCreate c stmt of (t, ok, c1) \<Rightarrow>
        if ok then (t, True, c1) else (case nameColumns c1 stmt of (u, changed) \<Rightarrow> (u, changed, c1)))"

end
