(* ===== verification/Harepl_Convert_Claims.thy ===== *)
theory Harepl_Convert_Claims
  imports Harepl_Convert Harepl_Statement_Claims
begin

text \<open>
  The conversion adds and never removes, and an insert into a converted table names the columns of
  its create, in their order and without the added key.
\<close>

subsection \<open>Nothing is lost\<close>

lemma subseq_insert: "subseq (xs @ zs) (xs @ ys @ zs)"
  by (intro list_emb_append_mono subseq_order.refl) (simp add: list_emb_append2)

lemma name_scan_adds:
  "subseq s (fst (name_scan c prev s)) \<and> (snd (name_scan c prev s) \<or> fst (name_scan c prev s) = s)"
proof (induction c prev s rule: name_scan.induct)
  case (1 c prev s)
  show ?case
  proof (cases s)
    case Nil
    then show ?thesis by (simp add: name_scan.simps)
  next
    case (Cons r rs)
    show ?thesis
    proof (cases "insertHeadAt prev s")
      case None
      then show ?thesis
        using "1.IH"(1) [OF Cons None] Cons by (subst (1 2 3) name_scan.simps) simp
    next
      case (Some x)
      obtain table n where x: "x = (table, n)" by (cases x)
      have split: "s = take n s @ drop n s" by simp
      show ?thesis
      proof (cases "map_of c (to_lower table)")
        case None
        then have "name_scan c prev s = map_prod (append (take n s)) id (name_scan c (s ! (n - 1)) (drop n s))"
          using Cons Some x by (subst name_scan.simps) simp
        moreover have "subseq (take n s @ drop n s) (take n s @ fst (name_scan c (s ! (n - 1)) (drop n s)))"
          using "1.IH"(2) [OF Cons Some x [symmetric] None] by (intro list_emb_append_mono) simp_all
        ultimately show ?thesis using "1.IH"(2) [OF Cons Some x [symmetric] None] by auto
      next
        case (Some cols)
        let ?ins = "''('' @ join_with '', '' cols @ '') ''"
        have "name_scan c prev s =
            map_prod (append (take n s @ ?ins)) (\<lambda>_. True) (name_scan c (s ! (n - 1)) (drop n s))"
          using Cons \<open>insertHeadAt prev s = Some x\<close> x Some by (subst name_scan.simps) simp
        moreover have "subseq (take n s @ drop n s) (take n s @ ?ins @ fst (name_scan c (s ! (n - 1)) (drop n s)))"
          using "1.IH"(3) [OF Cons \<open>insertHeadAt prev s = Some x\<close> x [symmetric] Some]
          by (intro list_emb_append_mono list_emb_append2) simp_all
        ultimately show ?thesis by simp
      qed
    qed
  qed
qed

lemma convertCreate_adds:
  "subseq stmt (fst (convertCreate c stmt)) \<and>
   (fst (snd (convertCreate c stmt)) \<or> fst (convertCreate c stmt) = stmt)"
  using subseq_insert [of "take n stmt" "drop n stmt" key_clause for n]
  by (auto simp: convertCreate_def Let_def split: option.split)

text \<open>
  The conversion of a statement keeps every byte of it in order, so it can only add; a
  statement it reports unchanged is the statement.
\<close>

theorem conversion_only_adds:
  "subseq stmt (fst (Apply c stmt)) \<and> (fst (snd (Apply c stmt)) \<or> fst (Apply c stmt) = stmt)"
proof -
  obtain t ok c1 where cc: "convertCreate c stmt = (t, ok, c1)" by (cases "convertCreate c stmt")
  obtain u ch where nc: "nameColumns c1 stmt = (u, ch)" by (cases "nameColumns c1 stmt")
  show ?thesis
    using convertCreate_adds [of stmt c] name_scan_adds [of stmt c1 NUL] cc nc
    by (auto simp: Apply_def nameColumns_def split: if_splits)
qed

subsection \<open>Creating, then inserting\<close>

lemma created:
  assumes "convertCreate c create = (create', True, c')"
  obtains pre items post where "create = pre @ ''('' @ items @ '')'' @ post"
    "create' = pre @ ''('' @ items @ key_clause @ '')'' @ post"
    "map_of c' (to_lower (tableNameOf create)) = Some (columnNames items)" "c' \<noteq> []"
    "columnNames items \<noteq> []"
proof -
  obtain i where i: "indexAtDepth create (CHR ''('') 0 = Some i"
    using assms by (auto simp: convertCreate_def Let_def split: if_splits option.splits)
  obtain j where j: "indexAtDepth (drop (i + 1) create) (CHR '')'') 0 = Some j"
    using assms i by (auto simp: convertCreate_def Let_def split: if_splits option.splits)
  define inner where "inner = drop (i + 1) create"
  have c': "c' = AList.update (to_lower (tableNameOf create)) (columnNames (take j inner)) c"
    "create' = take (i + 1 + j) create @ key_clause @ drop (i + 1 + j) create" "columnNames (take j inner) \<noteq> []"
    using assms i j by (auto simp: convertCreate_def Let_def inner_def split: if_splits)
  have ja: "j < length inner" "inner ! j = CHR '')''" using indexAtDepth_at [OF j] by (simp_all add: inner_def)
  have a: "create = take i create @ ''('' @ inner"
    using id_take_nth_drop [of i create] indexAtDepth_at [OF i] by (simp add: inner_def)
  have b: "inner = take j inner @ '')'' @ drop (Suc j) inner" "j < length inner"
    using id_take_nth_drop [OF ja(1)] ja by simp_all
  define pre where "pre = take i create @ ''(''"
  have pre: "create = pre @ inner" "length pre = i + 1" using a indexAtDepth_at [OF i] by (simp_all add: pre_def)
  have "take (i + 1 + j) create = pre @ take j inner" "drop (i + 1 + j) create = drop j inner"
    using pre(2) by (subst pre(1), simp)+
  then have t: "take (i + 1 + j) create = take i create @ ''('' @ take j inner"
    "drop (i + 1 + j) create = drop j inner" by (simp_all add: pre_def)
  have d: "drop j inner = '')'' @ drop (Suc j) inner"
    using Cons_nth_drop_Suc [OF ja(1)] ja(2) by simp
  have e1: "create = take i create @ ''('' @ take j inner @ '')'' @ drop (Suc j) inner"
    using a b(1) by metis
  have e2: "create' = take i create @ ''('' @ take j inner @ key_clause @ '')'' @ drop (Suc j) inner"
    using c'(2) t d by simp
  have e3: "c' \<noteq> []" unfolding c'(1) by (cases c) auto
  show thesis by (rule that [OF e1 e2 _ e3 c'(3)]) (simp add: c'(1) update_conv')
qed

lemma word_at_word: "list_all isWordRune w \<Longrightarrow> rest = [] \<or> \<not> isWordRune (hd rest) \<Longrightarrow> word_at (w @ rest) = w"
  by (cases rest) (auto simp: word_at_def takeWhile_append list_all_iff)

lemma after_word_space:
  "list_all isWordRune w \<Longrightarrow> rest = [] \<or> hd rest \<notin> {CHR '' '', TAB, LF, CR} \<Longrightarrow>
   after_word (w @ CHR '' '' # rest) = rest"
  by (cases rest)
     (auto simp: after_word_def skipSpace_def word_at_word isWordRune_def is_digit_def char_nat_def)

lemma word_not_blank: "isWordRune c \<Longrightarrow> c \<notin> {CHR '' '', TAB, LF, CR}"
  by (auto simp: isWordRune_def is_digit_def char_nat_def control)

lemma space_not_word: "\<not> isWordRune CHR '' ''"
  by (simp add: isWordRune_def is_digit_def char_nat_def)

lemma hd_word: "list_all isWordRune w \<Longrightarrow> w \<noteq> [] \<Longrightarrow> hd (w @ s) \<notin> {CHR '' '', TAB, LF, CR}"
  using word_not_blank [of "hd w"] by (cases w) auto

lemma insert_head_words:
  assumes "word_at s = ''insert''" "after_word s = s2" "word_at s2 = ''into''" "after_word s2 = s3"
    "word_at s3 = u" "after_word s3 = s4" "to_upper (word_at s4) \<in> {''VALUES'', ''SELECT''}" "u \<noteq> []"
  shows "insertHeadAt NUL s = Some (u, length s - length s4)"
proof -
  have "to_upper ''insert'' = ''INSERT''" "to_upper ''into'' = ''INTO''" "\<not> isWordRune NUL"
    by (simp_all add: to_upper_def upper_char_def char_nat_def NUL_def isWordRune_def is_digit_def
        char_of_def bit_0)
  then show ?thesis using assms by (simp add: insertHeadAt_def Let_def)
qed

lemma insert_head:
  assumes u: "list_all isWordRune u" "u \<noteq> []" and v: "to_upper v \<in> {''VALUES'', ''SELECT''}"
    and rest: "rest = [] \<or> \<not> isWordRune (hd rest)"
  shows "insertHeadAt NUL (''insert into '' @ u @ '' '' @ v @ rest) = Some (u, length (''insert into '' @ u @ '' ''))"
proof -
  have vw: "list_all isWordRune v" "v \<noteq> []"
  proof -
    have "\<forall>c \<in> set (to_upper v). isWordRune c"
      using v by (auto simp: isWordRune_def char_nat_def)
    then show "list_all isWordRune v" using upper_word by (auto simp: to_upper_def list_all_iff)
    show "v \<noteq> []" using v by (auto simp: to_upper_def)
  qed
  have k1: "list_all isWordRune ''insert''" "list_all isWordRune ''into''"
    by (simp_all add: isWordRune_def char_nat_def)
  let ?v = "v @ rest" and ?u = "u @ CHR '' '' # v @ rest"
  let ?i = "''into'' @ CHR '' '' # u @ CHR '' '' # v @ rest"
  have a: "word_at (''insert'' @ CHR '' '' # ?i) = ''insert''" "after_word (''insert'' @ CHR '' '' # ?i) = ?i"
    by (rule word_at_word [OF k1(1)] after_word_space [OF k1(1)]; simp add: space_not_word control)+
  have b: "word_at ?i = ''into''" by (rule word_at_word [OF k1(2)]) (simp add: space_not_word)
  have c: "after_word ?i = ?u" using hd_word [OF u] by (intro after_word_space [OF k1(2)]) simp
  have d: "word_at ?u = u" by (rule word_at_word [OF u(1)]) (simp add: space_not_word)
  have e: "after_word ?u = ?v" using hd_word [OF vw] by (intro after_word_space [OF u(1)]) simp
  have f: "word_at ?v = v" by (rule word_at_word [OF vw(1) rest])
  have s: "''insert into '' @ u @ '' '' @ v @ rest = ''insert'' @ CHR '' '' # ?i" by simp
  show ?thesis using insert_head_words [OF a b c d e] f u v by (simp add: s)
qed

text \<open>
  After a create was given its key, an insert that relied on the order of the columns names
  exactly the columns of the create, in their order: the key column stands in the create and not
  in the list, so the values still meet the columns they were written for.
\<close>

theorem inserts_name_the_created_columns:
  assumes "convertCreate c create = (create', True, c')"
    and "list_all isWordRune u" and "u \<noteq> []" and "to_lower u = to_lower (tableNameOf create)"
    and "to_upper v \<in> {''VALUES'', ''SELECT''}" and "rest = [] \<or> \<not> isWordRune (hd rest)"
    and "name_scan c' CHR '' '' (v @ rest) = (v @ rest, False)"
  shows "\<exists>pre items post. create = pre @ ''('' @ items @ '')'' @ post \<and>
    create' = pre @ ''('' @ items @ '', tk_repl_key INT AUTO_INCREMENT PRIMARY KEY'' @ '')'' @ post \<and>
    nameColumns c' (''insert into '' @ u @ '' '' @ v @ rest) =
      (''insert into '' @ u @ '' ('' @ join_with '', '' (columnNames items) @ '') '' @ v @ rest, True)"
proof -
  obtain pre items post where
    cr: "create = pre @ ''('' @ items @ '')'' @ post" "create' = pre @ ''('' @ items @ key_clause @ '')'' @ post"
      "map_of c' (to_lower (tableNameOf create)) = Some (columnNames items)" "c' \<noteq> []"
    using created [OF assms(1)] by metis
  let ?h = "''insert into '' @ u @ '' ''"
  have h: "insertHeadAt NUL (?h @ v @ rest) = Some (u, length ?h)"
    using insert_head [OF assms(2,3,5,6)] by simp
  have m: "map_of c' (to_lower u) = Some (columnNames items)" using cr(3) assms(4) by simp
  have l: "(?h @ v @ rest) ! (length ?h - 1) = CHR '' ''" by (simp add: nth_append)
  have "name_scan c' NUL (?h @ v @ rest) =
      map_prod (append (take (length ?h) (?h @ v @ rest) @ ''('' @ join_with '', '' (columnNames items) @ '') ''))
        (\<lambda>_. True) (name_scan c' ((?h @ v @ rest) ! (length ?h - 1)) (drop (length ?h) (?h @ v @ rest)))"
    using h m by (subst name_scan.simps) (simp split: list.split)
  also have "\<dots> = (?h @ ''('' @ join_with '', '' (columnNames items) @ '') '' @ v @ rest, True)"
    unfolding l using assms(7) by simp
  finally show ?thesis
    using cr by (intro exI [of _ pre] exI [of _ items] exI [of _ post])
      (simp add: nameColumns_def key_clause_def KeyColumn_def)
qed

subsection \<open>What the conversion gets wrong\<close>

lemmas text_eval = front_graphic front_space graphic_def char_nat_def trim_space_trimmed graphic_trimmed quotes

lemmas case_eval = to_upper_def to_lower_def upper_char_def lower_char_def char_of_def bit_0

lemma small_create:
  "convertCreate [] ''create table T (a int)'' =
     (''create table T (a int, tk_repl_key INT AUTO_INCREMENT PRIMARY KEY)'', True, [(''t'', [''a''])])"
proof -
  let ?s = "''create table T (a int)''"
  have "isCreateTable ?s"
    by (simp add: isCreateTable_def text_eval case_eval sublist_Cons_right)
  moreover have "\<not> contains (to_upper ?s) ''PRIMARY KEY''" "\<not> contains (to_upper ?s) ''AUTO_INCREMENT''"
    by (simp_all add: case_eval char_nat_def sublist_Cons_right)
  moreover have "subclassOf ?s = []"
    by (simp add: subclassOf.simps after_word_def skipSpace_def control word_eval case_eval)
  moreover have "tableNameOf ?s = ''T''"
    by (simp add: tableNameOf.simps skip_exists.simps after_word_def skipSpace_def control word_eval case_eval
        unquoted_def trim_of_def trim_left_of_def trim_right_of_def)
  moreover have "indexAtDepth ?s (CHR ''('') 0 = Some 15" "indexAtDepth ''a int)'' (CHR '')'') 0 = Some 5"
    by (simp_all add: indexAtDepth_def quotes)
  moreover have "columnNames ''a int'' = [''a'']"
    by (simp add: columnNames_def splitTopLevel.simps indexAtDepth_def text_eval Let_def constraint_words_def
        case_eval trim_of_def trim_left_of_def trim_right_of_def map_filter_simps)
  ultimately show ?thesis
    by (simp add: convertCreate_def Let_def key_clause_def KeyColumn_def case_eval char_nat_def)
qed

theorem inserts_name_the_created_columns_witness:
  "\<exists>pre items post. ''create table T (a int)'' = pre @ ''('' @ items @ '')'' @ post \<and>
     nameColumns [(''t'', [''a''])] (''insert into '' @ ''t'' @ '' '' @ ''values'' @ ''(1)'') =
      (''insert into '' @ ''t'' @ '' ('' @ join_with '', '' (columnNames items) @ '') '' @ ''values'' @ ''(1)'', True)"
proof -
  have r: "name_scan [(''t'', [''a''])] CHR '' '' (''values'' @ ''(1)'') = (''values'' @ ''(1)'', False)"
    by (simp add: name_scan.simps insertHeadAt_def after_word_def skipSpace_def control word_eval case_eval)
  have "to_lower ''t'' = to_lower (tableNameOf ''create table T (a int)'')"
    by (simp add: tableNameOf.simps skip_exists.simps after_word_def skipSpace_def control word_eval case_eval
        unquoted_def trim_of_def trim_left_of_def trim_right_of_def)
  moreover have "list_all isWordRune ''t''" "to_upper ''values'' \<in> {''VALUES'', ''SELECT''}"
    "''(1)'' = [] \<or> \<not> isWordRune (hd ''(1)'')" by (simp_all add: word_eval case_eval)
  ultimately show ?thesis
    using inserts_name_the_created_columns [OF small_create, of "''t''" "''values''" "''(1)''"] r by blast
qed

text \<open>A table constraint written without a space before its parenthesis is taken for a column.\<close>

lemma constraint_taken_for_column: "columnNames ''a int,unique(a)'' = [''a'', ''unique(a)'']"
proof -
  have "splitTopLevel ''a int,unique(a)'' = [''a int'', ''unique(a)'']"
    by (simp add: splitTopLevel.simps indexAtDepth_def quotes)
  then show ?thesis
    by (simp add: columnNames_def text_eval Let_def constraint_words_def to_upper_def upper_char_def
        char_of_def bit_0 trim_of_def trim_left_of_def trim_right_of_def map_filter_simps)
qed

end
