(* ===== verification/Harepl_Compare.thy ===== *)
theory Harepl_Compare
  imports Harepl_Convert Ordering
begin

text \<open>
  Reading what two nodes answered: what of an answer counts, when two answers are the same rows in
  another order, which tables a statement names, which names reach a table whose rows do not
  replicate (\<open>compare.go\<close> and the second half of \<open>case.go\<close> in \<open>internal/runner/hareplsuite\<close>). Table
  names are never empty: the list they come from has no empty line.
\<close>

subsection \<open>Answers\<close>

definition noise :: "string \<Rightarrow> bool" where
  "noise t \<longleftrightarrow> t = [] \<or> has_prefix t ''Time:'' \<or>
     has_prefix t (''Program '' @ [SQ] @ ''csql'' @ [SQ]) \<or> contains t '' sec)'' \<or> has_prefix t ''Committed.''"

definition Normalise :: "string \<Rightarrow> string" where
  "Normalise s =
     join_with [LF] (map (trim_right_of [CHR '' '', TAB]) (filter (\<lambda>l. \<not> noise (trim_space l)) (split_on LF s)))"

definition samePermutation :: "string \<Rightarrow> string \<Rightarrow> bool" where
  "samePermutation a b =
     (let la = split_on LF (Normalise a); lb = split_on LF (Normalise b) in
      length la = length lb \<and> sort_strings la = sort_strings lb)"

definition noRows :: "string \<Rightarrow> bool" where
  "noRows block =
     (let b = Normalise block in
      trim_space b = [] \<or> contains b ''There are no results.'' \<or> contains b ''0 rows selected'' \<or>
      contains b ''0 row selected'')"

definition parseTableList :: "string \<Rightarrow> string list" where
  "parseTableList s =
     filter (\<lambda>l. \<not> (noise l \<or> has_prefix l ''ERROR:'' \<or> contains l ''ERROR: '')) (map trim_space (split_on LF s))"

definition firstLine :: "string \<Rightarrow> string" where
  "firstLine s0 =
     (let s = trim_space s0;
          s1 = (case index_of s [LF] of Some i \<Rightarrow> take i s @ '' ...'' | None \<Rightarrow> s)
      in if 90 < length s1 then take 90 s1 @ '' ...'' else s1)"

definition onlyValue :: "string \<Rightarrow> string" where
  "onlyValue block =
     (case find (\<lambda>l. \<not> (l = [] \<or> has_prefix l ''='' \<or> contains l '' sec)'' \<or> to_lower l = ''current_user''))
             (map trim_space (rev (split_on LF (trim_space block)))) of
        Some l \<Rightarrow> trim_of [SQ] l
      | None \<Rightarrow> ''(no answer)'')"

definition bare :: "string \<Rightarrow> string" where
  "bare s = trim_of [SQ] (trim_space s)"

definition names :: "string list \<Rightarrow> string list" where
  "names rows = filter (\<lambda>n. n \<noteq> []) (map bare rows)"

text \<open>\<open>strings.Count\<close> for a text that is not empty: occurrences that do not overlap.\<close>

function count_text :: "string \<Rightarrow> string \<Rightarrow> nat" where
  "count_text p s =
     (if p = [] then 0
      else case index_of s p of None \<Rightarrow> 0 | Some i \<Rightarrow> Suc (count_text p (drop (i + length p) s)))"
  by pat_completeness auto
termination
proof (relation "measure (\<lambda>(p, s). length s)", goal_cases)
  case (2 p s i)
  then have "s \<noteq> []" by (auto split: if_splits)
  then show ?case using 2(1) by (cases p) auto
qed simp

declare count_text.simps [simp del]

subsection \<open>What a statement names\<close>

fun literal_mask :: "bool \<Rightarrow> string \<Rightarrow> bool list" where
  "literal_mask inside [] = []"
| "literal_mask inside (c # s) =
     (if c = SQ then True # literal_mask (\<not> inside) s else inside # literal_mask inside s)"

definition literalMask :: "string \<Rightarrow> bool list" where
  "literalMask s = literal_mask False s"

definition byte_at :: "string \<Rightarrow> nat \<Rightarrow> char" where
  "byte_at s i = (if i < length s then s ! i else CHR '' '')"

function names_from :: "string \<Rightarrow> bool list \<Rightarrow> string \<Rightarrow> nat \<Rightarrow> bool" where
  "names_from low lit name i =
     (if name = [] then False
      else case index_of (drop i low) name of
        None \<Rightarrow> False
      | Some j \<Rightarrow>
          (let at = i + j; before = (if 0 < at then low ! (at - 1) else CHR '' '');
               after = byte_at low (at + length name)
           in if \<not> isWordRune before \<and> \<not> isWordRune after \<and> \<not> lit ! at then True
              else names_from low lit name (at + length name)))"
  by pat_completeness auto
termination
proof (relation "measure (\<lambda>(low, lit, name, i). length low - i)", goal_cases)
  case (2 low lit name i j at before after)
  then have "drop i low \<noteq> []" by (auto split: if_splits)
  then show ?case using 2 by (cases name) auto
qed simp

declare names_from.simps [simp del]

definition mentionsAny :: "string \<Rightarrow> string list \<Rightarrow> bool" where
  "mentionsAny stmt tables =
     (let low = to_lower stmt; lit = literalMask low in
      list_ex (\<lambda>t. names_from low lit (to_lower t) 0) tables)"

definition splitTwo :: "string \<Rightarrow> (string \<times> string) option" where
  "splitTwo row =
     (let s = trim_space row; f = first_field s; rest = trim_space (trim_prefix s f) in
      if s = [] \<or> rest = [] then None else Some (trim_of [SQ] f, rest))"

definition bothSpellings :: "string \<Rightarrow> string list" where
  "bothSpellings name =
     (case last_index_of name ''.'' of
        Some i \<Rightarrow> if i + 1 < length name then [name, drop (i + 1) name] else [name]
      | None \<Rightarrow> [name])"

subsection \<open>Names that reach a table\<close>

text \<open>The lower-case names seen, and the names as they are used.\<close>

record reaching =
  rc_seen :: "string list"
  rc_bare :: "string list"
  rc_grew :: bool

definition add_spelling :: "string \<Rightarrow> reaching \<Rightarrow> reaching" where
  "add_spelling n r =
     (if to_lower n \<in> set (rc_seen r) then r
      else r\<lparr>rc_seen := to_lower n # rc_seen r, rc_bare := rc_bare r @ [n], rc_grew := True\<rparr>)"

definition reach_row :: "string \<Rightarrow> reaching \<Rightarrow> reaching" where
  "reach_row row r =
     (case splitTwo row of
        None \<Rightarrow> r
      | Some (name, def) \<Rightarrow>
          if to_lower name \<notin> set (rc_seen r) \<and> mentionsAny def (rc_bare r)
          then fold add_spelling (bothSpellings name) r else r)"

fun reach_passes :: "nat \<Rightarrow> string list \<Rightarrow> reaching \<Rightarrow> reaching" where
  "reach_passes 0 rows r = r"
| "reach_passes (Suc n) rows r =
     (let r' = fold reach_row rows (r\<lparr>rc_grew := False\<rparr>) in
      if rc_grew r' then reach_passes n rows r' else r')"

text \<open>The rows of a catalog read that failed are not there.\<close>

definition keyless_names :: "string list \<Rightarrow> string list \<Rightarrow> string list \<Rightarrow> string list" where
  "keyless_names tables views syns =
     rc_bare (reach_passes 10 (views @ syns) \<lparr>rc_seen = map to_lower tables, rc_bare = tables, rc_grew = False\<rparr>)"

subsection \<open>What kind of case it is\<close>

definition IsErrorCase :: "string \<Rightarrow> bool" where
  "IsErrorCase sql = contains sql ''--[er]''"

definition IsDataless :: "string \<Rightarrow> bool" where
  "IsDataless sql =
     (\<not> list_ex (contains (to_lower sql))
        [''insert '', ''insert'' @ [LF], ''update '', ''delete '', ''replace '', ''load ''])"

end
