(* ===== verification/Harepl_Case.thy ===== *)
theory Harepl_Case
  imports Harepl_Batch Harepl_Compare
begin

text \<open>
  One case against the pair: \<open>RunCase\<close> of \<open>internal/runner/hareplsuite/case.go\<close>. The pair is an
  environment that answers from everything asked so far: it runs a script on a node, waits for
  replication, says whether the run was interrupted, keeps a difference. What was asked and answered
  is the history, which the result carries beside the fields of the code. Catalog reads have a
  fixed text. The time a wait took is counted in its own unit.
\<close>

datatype outcome_kind = NoOutcome | Same | Differ | NoData | CaseFailed | WaitTimeout | SessionDiffers
  | Skipped | Replicating | Unreplicatable

datatype call = WriteBatch string | ReadOnMaster string | ReadOnSlave string | CatalogRead string

text \<open>A failed call: whether the runner's own bound ended it, and its text.\<close>

type_synonym node_answer = "(bool \<times> string) + (string \<times> string \<times> int)"

datatype event = Asked call node_answer | WaitedFor int "string option"

type_synonym history = "event list"

record pair_env =
  pe_db :: string
  pe_cluster :: string
  pe_slaves :: "string list"
  pe_run :: "history \<Rightarrow> call \<Rightarrow> node_answer"
  pe_wait :: "history \<Rightarrow> int \<times> string option"
  pe_stopped :: "history \<Rightarrow> bool"
  pe_keep :: "history \<Rightarrow> string \<Rightarrow> string \<Rightarrow> string \<Rightarrow> string option"

record case_result =
  cr_Case :: string
  cr_Outcome :: outcome_kind
  cr_Statements :: nat
  cr_Compared :: nat
  cr_Converted :: nat
  cr_WriteFailed :: nat
  cr_KeyDuplicate :: nat
  cr_KeyNull :: nat
  cr_ObjectDomain :: nat
  cr_EmptyAgreement :: nat
  cr_Unordered :: nat
  cr_Unreplicated :: nat
  cr_SessionDiffered :: nat
  cr_SessionNote :: string
  cr_Tables :: "string list"
  cr_Kept :: string
  cr_Empty :: "string list"
  cr_ErrorCase :: bool
  cr_EmptyExpected :: nat
  cr_Differing :: string
  cr_Node :: string
  cr_Waited :: int
  cr_Detail :: string

definition blank_result :: "string \<Rightarrow> case_result" where
  "blank_result name =
     \<lparr>cr_Case = name, cr_Outcome = NoOutcome, cr_Statements = 0, cr_Compared = 0, cr_Converted = 0,
      cr_WriteFailed = 0, cr_KeyDuplicate = 0, cr_KeyNull = 0, cr_ObjectDomain = 0, cr_EmptyAgreement = 0,
      cr_Unordered = 0, cr_Unreplicated = 0, cr_SessionDiffered = 0, cr_SessionNote = [], cr_Tables = [],
      cr_Kept = [], cr_Empty = [], cr_ErrorCase = False, cr_EmptyExpected = 0, cr_Differing = [],
      cr_Node = [], cr_Waited = 0, cr_Detail = []\<rparr>"

text \<open>The variables of the loop.\<close>

record case_state =
  cs_res :: case_result
  cs_conv :: conversion
  cs_prelude :: "string list"
  cs_dirty :: bool
  cs_stale :: bool
  cs_noKey :: "string list"
  cs_withObject :: "string list"
  cs_hist :: history

datatype step_result = On case_state | Ended case_state

definition finish :: "outcome_kind \<Rightarrow> string \<Rightarrow> case_state \<Rightarrow> step_result" where
  "finish k detail s = Ended (s\<lparr>cs_res := (cs_res s)\<lparr>cr_Outcome := k, cr_Detail := detail\<rparr>\<rparr>)"

subsection \<open>Asking the pair\<close>

definition ask :: "pair_env \<Rightarrow> call \<Rightarrow> case_state \<Rightarrow> node_answer \<times> case_state" where
  "ask E c s = (let a = pe_run E (cs_hist s) c in (a, s\<lparr>cs_hist := cs_hist s @ [Asked c a]\<rparr>))"

definition unreachable :: "string \<Rightarrow> bool \<times> string \<Rightarrow> string" where
  "unreachable who e =
     (case e of (timedout, t) \<Rightarrow>
        if timedout
        then ''this case outran the runner's own bound on a '' @ who @
          '' call, which is a limit here rather than a fault on the pair: '' @ t
        else ''the '' @ who @ '' could not be reached: '' @ t)"

definition wait_first :: "pair_env \<Rightarrow> case_state \<Rightarrow> step_result" where
  "wait_first E s =
     (case pe_wait E (cs_hist s) of (t, failed) \<Rightarrow>
        let s1 = s\<lparr>cs_hist := cs_hist s @ [WaitedFor t failed],
                   cs_res := (cs_res s)\<lparr>cr_Waited := cr_Waited (cs_res s) + t\<rparr>\<rparr>
        in case failed of
             Some e \<Rightarrow> finish WaitTimeout e s1
           | None \<Rightarrow> On (s1\<lparr>cs_dirty := False\<rparr>))"

definition catalog_call :: "string \<Rightarrow> string \<Rightarrow> string" where
  "catalog_call db q = ''csql -u dba -t -N -c '' @ [DQ] @ q @ [DQ] @ '' '' @ db"

definition noPrimaryKeyQuery :: string where
  "noPrimaryKeyQuery = ''SELECT c.class_name FROM db_class c WHERE c.is_system_class='' @ [SQ] @ ''NO'' @ [SQ] @
     '' AND c.class_type='' @ [SQ] @ ''CLASS'' @ [SQ] @
     '' AND NOT EXISTS (SELECT 1 FROM db_index i WHERE i.class_name=c.class_name AND i.is_primary_key='' @
     [SQ] @ ''YES'' @ [SQ] @ '') ORDER BY 1''"

definition viewsQuery :: string where
  "viewsQuery = ''SELECT v.vclass_name, v.vclass_def FROM db_class c, db_vclass v WHERE '' @
     ''c.class_name = v.vclass_name AND c.is_system_class='' @ [SQ] @ ''NO'' @ [SQ]"

definition synonymsQuery :: string where
  "synonymsQuery = ''SELECT synonym_name, target_name FROM db_synonym''"

definition objectDomainQuery :: string where
  "objectDomainQuery = ''SELECT DISTINCT a.class_name FROM db_attribute a, db_class c WHERE '' @
     ''a.class_name = c.class_name AND c.is_system_class='' @ [SQ] @ ''NO'' @ [SQ] @
     '' AND a.domain_class_name IS NOT NULL ORDER BY 1''"

definition whoAmI :: string where "whoAmI = ''SELECT CURRENT_USER''"

definition catalog :: "pair_env \<Rightarrow> string \<Rightarrow> case_state \<Rightarrow> (string + string list) \<times> case_state" where
  "catalog E q s =
     (case ask E (CatalogRead (catalog_call (pe_db E) q)) s of
        (Inl (_, t), s1) \<Rightarrow> (Inl t, s1)
      | (Inr (stdout, _), s1) \<Rightarrow> (Inr (parseTableList stdout), s1))"

definition rows_or_none :: "string + string list \<Rightarrow> string list" where
  "rows_or_none r = (case r of Inl _ \<Rightarrow> [] | Inr rows \<Rightarrow> rows)"

definition tablesWithoutPrimaryKey :: "pair_env \<Rightarrow> case_state \<Rightarrow> (string + string list) \<times> case_state" where
  "tablesWithoutPrimaryKey E s =
     (case catalog E noPrimaryKeyQuery s of
        (Inl t, s1) \<Rightarrow> (Inl (''listing tables without a primary key: '' @ t), s1)
      | (Inr tables, s1) \<Rightarrow>
          if tables = [] then (Inr [], s1)
          else (case catalog E viewsQuery s1 of (views, s2) \<Rightarrow>
                case catalog E synonymsQuery s2 of (syns, s3) \<Rightarrow>
                  (Inr (keyless_names tables (rows_or_none views) (rows_or_none syns)), s3)))"

definition refresh_keys :: "pair_env \<Rightarrow> case_state \<Rightarrow> step_result" where
  "refresh_keys E s =
     (case tablesWithoutPrimaryKey E s of
        (Inl t, s1) \<Rightarrow> finish CaseFailed t s1
      | (Inr keyless, s1) \<Rightarrow>
          (case catalog E objectDomainQuery s1 of
             (Inl t, s2) \<Rightarrow> finish CaseFailed t s2
           | (Inr objs, s2) \<Rightarrow>
               On (s2\<lparr>cs_withObject := names objs, cs_noKey := keyless, cs_stale := False,
                      cs_res := (cs_res s2)\<lparr>cr_Tables := fold (\<lambda>t ts. if t \<in> set ts then ts else ts @ [t])
                        keyless (cr_Tables (cs_res s2))\<rparr>\<rparr>)))"

subsection \<open>Writes\<close>

fun convert_all :: "bool \<Rightarrow> string list \<Rightarrow> conversion \<Rightarrow> string list \<times> nat \<times> conversion" where
  "convert_all addKey [] c = ([], 0, c)"
| "convert_all addKey (s # ss) c =
     (if \<not> addKey then (s # ss, 0, c)
      else (case Apply c s of (t, changed, c1) \<Rightarrow>
        case convert_all addKey ss c1 of (ts, n, c2) \<Rightarrow>
          ((if changed then t else s) # ts, (if changed then n + 1 else n), c2)))"

definition write_segment :: "pair_env \<Rightarrow> bool \<Rightarrow> string list \<Rightarrow> case_state \<Rightarrow> step_result" where
  "write_segment E addKey stmts s =
     (case convert_all addKey stmts (cs_conv s) of (todo, n, c) \<Rightarrow>
        let prelude = cs_prelude s @ filter IsSessionStatement todo;
            s1 = s\<lparr>cs_conv := c, cs_prelude := prelude,
                   cs_res := (cs_res s)\<lparr>cr_Converted := cr_Converted (cs_res s) + n\<rparr>\<rparr>;
            b = newBatchWith prelude todo
        in case ask E (WriteBatch (csql_call (pe_db E) (bt_script b))) s1 of
             (Inl e, s2) \<Rightarrow> finish CaseFailed (unreachable ''master'' e) s2
           | (Inr (stdout, stderr, _), s2) \<Rightarrow>
               (let o' = stdout @ stderr; r = cs_res s2 in
                On (s2\<lparr>cs_dirty := True, cs_stale := True,
                       cs_res := r\<lparr>cr_WriteFailed := cr_WriteFailed r + count_text ''ERROR: '' o',
                         cr_KeyDuplicate := cr_KeyDuplicate r + count_text ''unique constraint violations. INDEX pk_'' o',
                         cr_KeyNull := cr_KeyNull r + count_text ''violated NOT NULL constraint'' o'\<rparr>\<rparr>)))"

subsection \<open>Reads\<close>

text \<open>The answers of a batch, from the output of its call.\<close>

definition answers_of :: "batch \<Rightarrow> string \<Rightarrow> string list" where
  "answers_of b stdout = map (\<lambda>ln. case splitResults stdout (int ln) of Some t \<Rightarrow> t | None \<Rightarrow> []) (bt_line b)"

definition sessionNote :: "string \<Rightarrow> string \<Rightarrow> string \<Rightarrow> string" where
  "sessionNote master slave node =
     ''the two nodes could not be put in the same session, so their answers are not comparable: the master ran as '' @
     firstLine (onlyValue master) @ '' and '' @ node @ '' as '' @ firstLine (onlyValue slave)"

definition compare_one :: "pair_env \<Rightarrow> bool \<Rightarrow> string \<times> string \<times> string \<Rightarrow> case_state \<Rightarrow> step_result" where
  "compare_one E keepDir x s =
     (case x of (stmt, want, got) \<Rightarrow>
        let r = cs_res s; node = hd (pe_slaves E) in
        if mentionsAny stmt (cs_noKey s)
        then On (s\<lparr>cs_res := r\<lparr>cr_Unreplicated := cr_Unreplicated r + 1\<rparr>\<rparr>)
        else if mentionsAny stmt (cs_withObject s)
        then On (s\<lparr>cs_res := r\<lparr>cr_ObjectDomain := cr_ObjectDomain r + 1\<rparr>\<rparr>)
        else (let r1 = r\<lparr>cr_Compared := cr_Compared r + 1\<rparr> in
          if Normalise want = Normalise got
          then (if noRows want
                then On (s\<lparr>cs_res := r1\<lparr>cr_EmptyAgreement := cr_EmptyAgreement r1 + 1,
                       cr_EmptyExpected := (if cr_ErrorCase r1 then cr_EmptyExpected r1 + 1 else cr_EmptyExpected r1),
                       cr_Empty := cr_Empty r1 @ [firstLine stmt]\<rparr>\<rparr>)
                else On (s\<lparr>cs_res := r1\<rparr>))
          else if samePermutation want got
          then On (s\<lparr>cs_res := r1\<lparr>cr_Unordered := cr_Unordered r1 + 1\<rparr>\<rparr>)
          else Ended (s\<lparr>cs_res := r1\<lparr>cr_Outcome := Differ, cr_Node := node, cr_Differing := firstLine stmt,
                 cr_Detail := node @ '' answered this read differently from the master, after replication was waited for'',
                 cr_Kept := (if keepDir
                             then (case pe_keep E (cs_hist s) stmt want got of Some w \<Rightarrow> w | None \<Rightarrow> cr_Kept r1)
                             else cr_Kept r1)\<rparr>\<rparr>)))"

fun compare_all :: "pair_env \<Rightarrow> bool \<Rightarrow> (string \<times> string \<times> string) list \<Rightarrow> case_state \<Rightarrow> step_result" where
  "compare_all E keepDir [] s = On s"
| "compare_all E keepDir (x # xs) s =
     (case compare_one E keepDir x s of Ended s' \<Rightarrow> Ended s' | On s' \<Rightarrow> compare_all E keepDir xs s')"

definition read_both :: "pair_env \<Rightarrow> bool \<Rightarrow> string list \<Rightarrow> case_state \<Rightarrow> step_result" where
  "read_both E keepDir stmts s =
     (let b = newBatchWith (cs_prelude s) (stmts @ [whoAmI]); script = csql_call (pe_db E) (bt_script b) in
      case ask E (ReadOnMaster script) s of
        (Inl e, s1) \<Rightarrow> finish CaseFailed (unreachable ''master'' e) s1
      | (Inr (mout, _), s1) \<Rightarrow>
          if pe_slaves E = []
          then finish CaseFailed (''sandbox: cluster '' @ [DQ] @ pe_cluster E @ [DQ] @
                 '' has 0 slave(s) and slave 0 was asked for'') s1
          else (case ask E (ReadOnSlave script) s1 of
             (Inl e, s2) \<Rightarrow> finish CaseFailed (unreachable ''slave'' e) s2
           | (Inr (sout, _), s2) \<Rightarrow>
               (let want = answers_of b mout; got = answers_of b sout; at = length stmts; r = cs_res s2 in
                if Normalise (want ! at) \<noteq> Normalise (got ! at)
                then On (s2\<lparr>cs_res := r\<lparr>cr_SessionDiffered := cr_SessionDiffered r + length stmts,
                       cr_SessionNote := sessionNote (want ! at) (got ! at) (hd (pe_slaves E))\<rparr>\<rparr>)
                else compare_all E keepDir (zip stmts (zip want got)) s2)))"

definition then_on :: "step_result \<Rightarrow> (case_state \<Rightarrow> step_result) \<Rightarrow> step_result" where
  "then_on x f = (case x of Ended s \<Rightarrow> Ended s | On s \<Rightarrow> f s)"

definition read_segment :: "pair_env \<Rightarrow> bool \<Rightarrow> string list \<Rightarrow> case_state \<Rightarrow> step_result" where
  "read_segment E keepDir stmts s =
     then_on (then_on (if cs_dirty s then wait_first E s else On s)
       (\<lambda>s1. if cs_stale s1 then refresh_keys E s1 else On s1)) (read_both E keepDir stmts)"

subsection \<open>The case\<close>

definition case_segment :: "pair_env \<Rightarrow> bool \<Rightarrow> bool \<Rightarrow> segment \<Rightarrow> case_state \<Rightarrow> step_result" where
  "case_segment E addKey keepDir g s =
     (if pe_stopped E (cs_hist s) then finish CaseFailed ''interrupted'' s
      else (let s1 = s\<lparr>cs_res := (cs_res s)\<lparr>cr_Statements := cr_Statements (cs_res s) + length (sg_stmts g)\<rparr>\<rparr> in
        if sg_read g then read_segment E keepDir (sg_stmts g) s1
        else write_segment E addKey (sg_stmts g) s1))"

fun run_segments :: "pair_env \<Rightarrow> bool \<Rightarrow> bool \<Rightarrow> segment list \<Rightarrow> case_state \<Rightarrow> step_result" where
  "run_segments E addKey keepDir [] s = On s"
| "run_segments E addKey keepDir (g # gs) s =
     then_on (case_segment E addKey keepDir g s) (run_segments E addKey keepDir gs)"

definition verdict :: "pair_env \<Rightarrow> case_state \<Rightarrow> step_result" where
  "verdict E s =
     (let r = cs_res s in
      if cr_Compared r = 0 then
        (if 0 < cr_ObjectDomain r \<and> cr_Unreplicated r = 0
         then finish Unreplicatable ''every read touches an object-domain column, whose reference is not replicated'' s
         else if 0 < cr_Unreplicated r
         then finish Unreplicatable (''every read touches a table with no primary key ('' @
                join_with '', '' (cr_Tables r) @ ''), whose rows are never replicated'') s
         else if 0 < cr_SessionDiffered r then finish SessionDiffers (cr_SessionNote r) s
         else if cs_dirty s
         then then_on (wait_first E s) (finish Replicating
           ''the case makes no read this suite can compare, but it wrote and the pair carried a marker across afterwards, so replication was alive while it ran'')
         else finish NoData ''the case neither writes nor reads, so the pair was never asked anything'' s)
      else finish Same (cr_Detail r) s)"

definition start_case :: "string \<Rightarrow> string \<Rightarrow> case_state" where
  "start_case name sql =
     \<lparr>cs_res = (blank_result name)\<lparr>cr_ErrorCase := IsErrorCase sql \<or> IsDataless sql\<rparr>, cs_conv = NewConversion,
      cs_prelude = [], cs_dirty = False, cs_stale = True, cs_noKey = [], cs_withObject = [], cs_hist = []\<rparr>"

definition state_after :: "step_result \<Rightarrow> case_state" where
  "state_after x = (case x of On s \<Rightarrow> s | Ended s \<Rightarrow> s)"

definition RunCase :: "pair_env \<Rightarrow> string \<Rightarrow> string \<Rightarrow> bool \<Rightarrow> bool \<Rightarrow> case_result \<times> history" where
  "RunCase E name sql keepDir addKey =
     (if \<not> Splittable sql
      then ((blank_result name)\<lparr>cr_Outcome := Skipped, cr_Detail :=
        ''the case opens a block whose END never comes, so the rest of the file would run as one statement''\<rparr>, [])
      else (let s = state_after
          (if repl_Statements sql = [] then finish NoData ''the case has no statement'' (start_case name sql)
           else then_on (run_segments E addKey keepDir (segments (repl_Statements sql)) (start_case name sql)) (verdict E))
        in (cs_res s, cs_hist s)))"

end
