(* ===== verification/Harepl_Case_Claims.thy ===== *)
theory Harepl_Case_Claims
  imports Harepl_Case Harepl_Batch_Claims
begin

text \<open>
  What a verdict of the HA suite rests on: every read is accounted for, nothing is read before the
  writes ahead of it were waited for, and a reported difference is one.
\<close>

subsection \<open>Steps that go on and steps that end\<close>

definition step_gives :: "step_result \<Rightarrow> (case_state \<Rightarrow> bool) \<Rightarrow> (case_state \<Rightarrow> bool) \<Rightarrow> bool" where
  "step_gives x P Q = (case x of On s \<Rightarrow> P s | Ended s \<Rightarrow> Q s)"

lemma outcome_simps [simp]: "step_gives (On s) P Q = P s" "step_gives (Ended s) P Q = Q s"
  by (simp_all add: step_gives_def)

lemma outcome_finish [simp]:
  "step_gives (finish k d s) P Q = Q (s\<lparr>cs_res := (cs_res s)\<lparr>cr_Outcome := k, cr_Detail := d\<rparr>\<rparr>)"
  by (simp add: finish_def)

lemma outcome_then:
  "step_gives x R Q \<Longrightarrow> (\<And>s. R s \<Longrightarrow> step_gives (f s) P Q) \<Longrightarrow> step_gives (then_on x f) P Q"
  by (cases x) (simp_all add: then_on_def)

lemma outcome_mono: "step_gives x P Q \<Longrightarrow> (\<And>s. P s \<Longrightarrow> P' s) \<Longrightarrow> (\<And>s. Q s \<Longrightarrow> Q' s) \<Longrightarrow> step_gives x P' Q'"
  by (cases x) auto

lemma ask_fields [simp]:
  "ask E c s = (a, s') \<Longrightarrow> s' = s\<lparr>cs_hist := cs_hist s @ [Asked c a]\<rparr>"
  by (auto simp: ask_def Let_def)

subsection \<open>Every read is accounted for\<close>

definition accounted :: "case_result \<Rightarrow> nat" where
  "accounted r = cr_Compared r + cr_Unreplicated r + cr_ObjectDomain r + cr_SessionDiffered r"

definition tally :: "case_state \<Rightarrow> nat \<times> nat" where
  "tally s = (cr_Statements (cs_res s), accounted (cs_res s))"

definition aborted :: "case_state \<Rightarrow> bool" where
  "aborted s \<longleftrightarrow> cr_Outcome (cs_res s) \<in> {CaseFailed, WaitTimeout, Differ}"

lemma wait_tally: "step_gives (wait_first E s) (\<lambda>s'. tally s' = tally s) aborted"
  by (auto simp: wait_first_def tally_def accounted_def aborted_def Let_def split: prod.split option.split)

lemma catalog_tally: "catalog E q s = (x, s') \<Longrightarrow> cs_res s' = cs_res s"
  by (auto simp: catalog_def ask_def Let_def split: prod.splits sum.splits)

lemma keyless_tally: "tablesWithoutPrimaryKey E s = (x, s') \<Longrightarrow> cs_res s' = cs_res s"
  by (auto simp: tablesWithoutPrimaryKey_def split: prod.splits sum.splits if_splits dest!: catalog_tally)

lemma refresh_tally: "step_gives (refresh_keys E s) (\<lambda>s'. tally s' = tally s) aborted"
  by (auto simp: refresh_keys_def tally_def accounted_def aborted_def
      split: prod.split sum.split dest!: keyless_tally catalog_tally)

lemma write_tally: "step_gives (write_segment E k stmts s) (\<lambda>s'. tally s' = tally s) aborted"
  by (auto simp: write_segment_def ask_def Let_def tally_def accounted_def aborted_def
      split: prod.split sum.split)

lemma compare_one_tally:
  "step_gives (compare_one E k x s) (\<lambda>s'. tally s' = (fst (tally s), Suc (snd (tally s)))) aborted"
  by (auto simp: compare_one_def Let_def tally_def accounted_def aborted_def split: prod.split)

lemma compare_all_then: "compare_all E k (x # xs) s = then_on (compare_one E k x s) (compare_all E k xs)"
  by (simp add: then_on_def split: step_result.split)

lemma compare_all_tally:
  "step_gives (compare_all E k xs s) (\<lambda>s'. tally s' = (fst (tally s), snd (tally s) + length xs)) aborted"
proof (induction xs arbitrary: s)
  case (Cons x xs)
  show ?case unfolding compare_all_then
  proof (rule outcome_then [OF compare_one_tally])
    fix s1 assume "tally s1 = (fst (tally s), Suc (snd (tally s)))"
    then show "step_gives (compare_all E k xs s1) (\<lambda>s'. tally s' = (fst (tally s), snd (tally s) + length (x # xs))) aborted"
      using Cons.IH [of s1] by simp
  qed
qed simp

lemma answers_length: "length (answers_of (newBatchWith p ss) t) = length ss"
  by (simp add: answers_of_def newBatchWith_is)

lemma read_both_tally:
  "step_gives (read_both E k stmts s) (\<lambda>s'. tally s' = (fst (tally s), snd (tally s) + length stmts)) aborted"
proof -
  have z: "length (zip stmts (zip (answers_of (newBatchWith p (stmts @ [whoAmI])) a)
      (answers_of (newBatchWith p (stmts @ [whoAmI])) b))) = length stmts" for p a b
    by (simp add: answers_length)
  have "step_gives (compare_all E k (zip stmts (zip (answers_of (newBatchWith p (stmts @ [whoAmI])) a)
      (answers_of (newBatchWith p (stmts @ [whoAmI])) b))) (s\<lparr>cs_hist := h\<rparr>))
      (\<lambda>s'. tally s' = (fst (tally s), snd (tally s) + length stmts)) aborted" for p a b h
    using compare_all_tally [of E k "zip stmts (zip (answers_of (newBatchWith p (stmts @ [whoAmI])) a)
      (answers_of (newBatchWith p (stmts @ [whoAmI])) b))" "s\<lparr>cs_hist := h\<rparr>"]
    unfolding z by (simp add: tally_def)
  then show ?thesis
    by (auto simp: read_both_def ask_def Let_def aborted_def split: prod.split sum.split)
      (simp_all add: tally_def accounted_def)
qed

lemma read_tally:
  "step_gives (read_segment E k stmts s) (\<lambda>s'. tally s' = (fst (tally s), snd (tally s) + length stmts)) aborted"
  unfolding read_segment_def
proof (rule outcome_then [where R = "\<lambda>s'. tally s' = tally s"])
  show "step_gives (then_on (if cs_dirty s then wait_first E s else On s)
      (\<lambda>s1. if cs_stale s1 then refresh_keys E s1 else On s1)) (\<lambda>s'. tally s' = tally s) aborted"
  proof (rule outcome_then [where R = "\<lambda>s'. tally s' = tally s"])
    show "step_gives (if cs_dirty s then wait_first E s else On s) (\<lambda>s'. tally s' = tally s) aborted"
      using wait_tally by simp
    fix s1 assume "tally s1 = tally s"
    then show "step_gives (if cs_stale s1 then refresh_keys E s1 else On s1) (\<lambda>s'. tally s' = tally s) aborted"
      using refresh_tally [of E s1] by simp
  qed
  fix s1 assume "tally s1 = tally s"
  then show "step_gives (read_both E k stmts s1) (\<lambda>s'. tally s' = (fst (tally s), snd (tally s) + length stmts)) aborted"
    using read_both_tally [of E k stmts s1] by simp
qed

definition reads_of :: "segment \<Rightarrow> nat" where
  "reads_of g = (if sg_read g then length (sg_stmts g) else 0)"

lemma segment_tally:
  "step_gives (case_segment E a k g s)
     (\<lambda>s'. tally s' = (fst (tally s) + length (sg_stmts g), snd (tally s) + reads_of g)) aborted"
proof -
  let ?s1 = "s\<lparr>cs_res := (cs_res s)\<lparr>cr_Statements := cr_Statements (cs_res s) + length (sg_stmts g)\<rparr>\<rparr>"
  have t: "tally ?s1 = (fst (tally s) + length (sg_stmts g), snd (tally s))"
    by (simp add: tally_def accounted_def)
  show ?thesis
    using read_tally [of E k "sg_stmts g" ?s1] write_tally [of E a "sg_stmts g" ?s1]
    by (simp add: case_segment_def t reads_of_def aborted_def)
qed

lemma segments_tally:
  "step_gives (run_segments E a k gs s)
     (\<lambda>s'. tally s' = (fst (tally s) + sum_list (map (length \<circ> sg_stmts) gs), snd (tally s) + sum_list (map reads_of gs)))
     aborted"
proof (induction gs arbitrary: s)
  case (Cons g gs)
  show ?case unfolding run_segments.simps
  proof (rule outcome_then [OF segment_tally])
    fix s1 assume "tally s1 = (fst (tally s) + length (sg_stmts g), snd (tally s) + reads_of g)"
    then show "step_gives (run_segments E a k gs s1) (\<lambda>s'. tally s' =
        (fst (tally s) + sum_list (map (length \<circ> sg_stmts) (g # gs)), snd (tally s) + sum_list (map reads_of (g # gs)))) aborted"
      using Cons.IH [of s1] by (simp add: add.assoc comp_def)
  qed
qed simp

lemma segments_sums:
  "sum_list (map (length \<circ> sg_stmts) (segments stmts)) = length (filter (\<lambda>s. \<not> isDirective s) stmts)"
  "sum_list (map reads_of (segments stmts)) = length (filter (\<lambda>s. \<not> isDirective s \<and> IsRead s) stmts)"
proof -
  have inv: "concat (map numbered_stmts (segments stmts)) = filter (\<lambda>(i, s). \<not> isDirective s) (enumerate 0 stmts)"
    "list_all segment_ok (segments stmts)"
    using segments_inv [of "[]" "[]" "enumerate 0 stmts"] by (simp_all add: segments_def)
  have stmts: "concat (map sg_stmts gs) = map snd (concat (map numbered_stmts gs))" if "list_all segment_ok gs" for gs
    using that by (induction gs) (simp_all add: numbered_stmts_def segment_ok_def)
  have "map snd (filter (\<lambda>(i, s). \<not> isDirective s) (enumerate n ss)) = filter (\<lambda>s. \<not> isDirective s) ss" for n ss
    by (induction ss arbitrary: n) simp_all
  then have all: "concat (map sg_stmts (segments stmts)) = filter (\<lambda>s. \<not> isDirective s) stmts"
    using stmts [OF inv(2)] inv(1) by simp
  then show "sum_list (map (length \<circ> sg_stmts) (segments stmts)) = length (filter (\<lambda>s. \<not> isDirective s) stmts)"
    by (metis length_concat map_map)
  have "length (filter IsRead (concat (map sg_stmts gs))) = sum_list (map reads_of gs)" if "list_all segment_ok gs" for gs
    using that
  proof (induction gs)
    case (Cons g gs)
    have "filter IsRead (sg_stmts g) = (if sg_read g then sg_stmts g else [])"
      using Cons.prems by (auto simp: segment_ok_def filter_id_conv filter_empty_conv)
    then show ?case using Cons by (simp add: reads_of_def)
  qed simp
  from this [OF inv(2)] show "sum_list (map reads_of (segments stmts)) =
      length (filter (\<lambda>s. \<not> isDirective s \<and> IsRead s) stmts)"
    by (simp add: all conj_commute)
qed

lemma verdict_tally:
  "step_gives (verdict E s) (\<lambda>_. False) (\<lambda>s'. aborted s' \<or> tally s' = tally s \<and>
     (cr_Outcome (cs_res s') = Same \<longleftrightarrow> 0 < cr_Compared (cs_res s')))"
proof -
  have w: "step_gives (then_on (wait_first E s) (finish Replicating d)) (\<lambda>_. False) (\<lambda>s'. aborted s' \<or>
      tally s' = tally s \<and> (cr_Outcome (cs_res s') = Same \<longleftrightarrow> 0 < cr_Compared (cs_res s')))"
    if "cr_Compared (cs_res s) = 0" for d
    using that
    by (auto simp: wait_first_def then_on_def Let_def tally_def accounted_def aborted_def finish_def
        split: prod.split option.split)
  show ?thesis
    using w by (simp add: verdict_def Let_def) (auto simp: tally_def accounted_def)
qed

text \<open>
  C30: Unless the run was broken off or found a difference, every statement was sent and every read
  is in exactly one of four counts: compared, skipped for a table without a key, skipped for an
  object domain, skipped because the sessions differed. The verdict is \<open>Same\<close> exactly when at
  least one read was compared.
\<close>

theorem every_read_is_accounted_for:
  assumes "RunCase E name sql keepDir addKey = (r, h)"
    and "cr_Outcome r \<notin> {CaseFailed, WaitTimeout, Differ, Skipped}"
  shows "cr_Statements r = length (filter (\<lambda>s. \<not> isDirective s) (repl_Statements sql)) \<and>
    cr_Compared r + cr_Unreplicated r + cr_ObjectDomain r + cr_SessionDiffered r =
      length (filter (\<lambda>s. \<not> isDirective s \<and> IsRead s) (repl_Statements sql)) \<and>
    (cr_Outcome r = Same \<longleftrightarrow> 0 < cr_Compared r)"
proof -
  let ?st = "repl_Statements sql" and ?s0 = "start_case name sql"
  have sp: "Splittable sql" using assms by (auto simp: RunCase_def split: if_splits)
  show ?thesis
  proof (cases "?st = []")
    case True
    then show ?thesis
      using assms(1) sp by (auto simp: RunCase_def finish_def state_after_def start_case_def blank_result_def)
  next
    case False
    let ?x = "then_on (run_segments E addKey keepDir (segments ?st) ?s0) (verdict E)"
    have t0: "tally ?s0 = (0, 0)" by (simp add: tally_def accounted_def start_case_def blank_result_def)
    let ?Q = "\<lambda>s'. aborted s' \<or> tally s' = (length (filter (\<lambda>s. \<not> isDirective s) ?st),
        length (filter (\<lambda>s. \<not> isDirective s \<and> IsRead s) ?st)) \<and>
        (cr_Outcome (cs_res s') = Same \<longleftrightarrow> 0 < cr_Compared (cs_res s'))"
    have "step_gives ?x (\<lambda>_. False) ?Q"
    proof (rule outcome_then)
      show "step_gives (run_segments E addKey keepDir (segments ?st) ?s0) (\<lambda>s'. tally s' =
          (length (filter (\<lambda>s. \<not> isDirective s) ?st), length (filter (\<lambda>s. \<not> isDirective s \<and> IsRead s) ?st))) ?Q"
        using segments_tally [of E addKey keepDir "segments ?st" ?s0]
        by (rule outcome_mono) (simp_all add: t0 segments_sums)
      fix s assume "tally s = (length (filter (\<lambda>s. \<not> isDirective s) ?st),
          length (filter (\<lambda>s. \<not> isDirective s \<and> IsRead s) ?st))"
      then show "step_gives (verdict E s) (\<lambda>_. False) ?Q" using verdict_tally [of E s] by simp
    qed
    then have "?Q (state_after ?x)" by (cases ?x) (simp_all add: state_after_def)
    moreover have "r = cs_res (state_after ?x)" using assms(1) sp False by (simp add: RunCase_def Let_def)
    ultimately show ?thesis using assms(2) by (auto simp: aborted_def tally_def accounted_def)
  qed
qed

subsection \<open>Nothing is read too early\<close>

definition settle :: "event \<Rightarrow> bool \<Rightarrow> bool" where
  "settle e d = (case e of Asked (WriteBatch t) a \<Rightarrow> True | WaitedFor t None \<Rightarrow> False | _ \<Rightarrow> d)"

definition unwaited :: "history \<Rightarrow> bool" where
  "unwaited h = fold settle h False"

definition is_read :: "event \<Rightarrow> bool" where
  "is_read e = (case e of Asked (ReadOnMaster t) a \<Rightarrow> True | Asked (ReadOnSlave t) a \<Rightarrow> True | _ \<Rightarrow> False)"

definition patient :: "history \<Rightarrow> bool" where
  "patient h \<longleftrightarrow> (\<forall>h1 e h2. h = h1 @ e # h2 \<and> is_read e \<longrightarrow> \<not> unwaited h1)"

lemma patient_snoc: "patient (h @ [e]) \<longleftrightarrow> patient h \<and> (is_read e \<longrightarrow> \<not> unwaited h)"
proof
  assume p: "patient (h @ [e])"
  have "patient h" unfolding patient_def
  proof (intro allI impI; elim conjE)
    fix h1 x h2 assume "h = h1 @ x # h2" "is_read x"
    then have "h @ [e] = h1 @ x # (h2 @ [e])" by simp
    with p \<open>is_read x\<close> show "\<not> unwaited h1" unfolding patient_def by blast
  qed
  moreover have "is_read e \<longrightarrow> \<not> unwaited h" using p unfolding patient_def by blast
  ultimately show "patient h \<and> (is_read e \<longrightarrow> \<not> unwaited h)" by blast
next
  assume p: "patient h \<and> (is_read e \<longrightarrow> \<not> unwaited h)"
  show "patient (h @ [e])" unfolding patient_def
  proof (intro allI impI; elim conjE)
    fix h1 x h2 assume eq: "h @ [e] = h1 @ x # h2" "is_read x"
    show "\<not> unwaited h1"
    proof (cases h2 rule: rev_cases)
      case Nil
      then show ?thesis using eq p by simp
    next
      case (snoc h3 y)
      then have "h = h1 @ x # h3" using eq by simp
      then show ?thesis using p eq(2) unfolding patient_def by blast
    qed
  qed
qed

lemma unwaited_snoc: "unwaited (h @ [e]) = settle e (unwaited h)"
  by (simp add: unwaited_def)

lemmas history_simps = patient_snoc unwaited_snoc settle_def is_read_def

definition in_step :: "case_state \<Rightarrow> bool" where
  "in_step s \<longleftrightarrow> patient (cs_hist s) \<and> cs_dirty s = unwaited (cs_hist s)"

definition settled :: "case_state \<Rightarrow> bool" where
  "settled s \<longleftrightarrow> in_step s \<and> \<not> cs_dirty s"

definition patient_end :: "case_state \<Rightarrow> bool" where
  "patient_end s \<longleftrightarrow> patient (cs_hist s)"

lemmas step_defs = in_step_def settled_def patient_end_def

lemma wait_patient: "in_step s \<Longrightarrow> step_gives (wait_first E s) settled patient_end"
  by (auto simp: wait_first_def Let_def step_defs history_simps split: prod.split option.split)

lemma catalog_patient: "catalog E q s = (x, s') \<Longrightarrow> settled s \<Longrightarrow> settled s'"
  by (auto simp: catalog_def ask_def Let_def step_defs history_simps split: prod.splits sum.splits)

lemma keyless_patient: "tablesWithoutPrimaryKey E s = (x, s') \<Longrightarrow> settled s \<Longrightarrow> settled s'"
  by (auto simp: tablesWithoutPrimaryKey_def split: prod.splits sum.splits if_splits dest!: catalog_patient)

lemma refresh_patient: "settled s \<Longrightarrow> step_gives (refresh_keys E s) settled patient_end"
proof -
  assume s: "settled s"
  obtain x s1 where t: "tablesWithoutPrimaryKey E s = (x, s1)" by (cases "tablesWithoutPrimaryKey E s")
  note s1 = keyless_patient [OF t s]
  obtain y s2 where c: "catalog E objectDomainQuery s1 = (y, s2)" by (cases "catalog E objectDomainQuery s1")
  note s2 = catalog_patient [OF c s1]
  show ?thesis using t c s1 s2
    by (cases x; cases y) (auto simp: refresh_keys_def step_defs)
qed

lemma write_patient: "in_step s \<Longrightarrow> step_gives (write_segment E k stmts s) in_step patient_end"
  by (auto simp: write_segment_def ask_def Let_def step_defs history_simps split: prod.split sum.split)

lemma compare_one_hist:
  "step_gives (compare_one E k x s) (\<lambda>s'. cs_hist s' = cs_hist s \<and> cs_dirty s' = cs_dirty s) (\<lambda>s'. cs_hist s' = cs_hist s)"
  by (auto simp: compare_one_def Let_def split: prod.split)

lemma compare_all_hist:
  "step_gives (compare_all E k xs s) (\<lambda>s'. cs_hist s' = cs_hist s \<and> cs_dirty s' = cs_dirty s) (\<lambda>s'. cs_hist s' = cs_hist s)"
proof (induction xs arbitrary: s)
  case (Cons x xs)
  show ?case unfolding compare_all_then
  proof (rule outcome_then [OF compare_one_hist])
    fix s1 :: case_state
    assume "cs_hist s1 = cs_hist s \<and> cs_dirty s1 = cs_dirty s"
    then show "step_gives (compare_all E k xs s1) (\<lambda>s'. cs_hist s' = cs_hist s \<and> cs_dirty s' = cs_dirty s)
        (\<lambda>s'. cs_hist s' = cs_hist s)" using Cons.IH [of s1] by simp
  qed
qed simp

lemma compare_all_patient: "settled s \<Longrightarrow> step_gives (compare_all E k xs s) in_step patient_end"
  using compare_all_hist [of E k xs s] by (rule outcome_mono) (auto simp: step_defs)

lemma read_both_patient: "settled s \<Longrightarrow> step_gives (read_both E k stmts s) in_step patient_end"
proof -
  assume s: "settled s"
  then have h: "settled (s\<lparr>cs_hist := cs_hist s @ [Asked (ReadOnMaster c) a]\<rparr>)"
    "settled (s\<lparr>cs_hist := cs_hist s @ [Asked (ReadOnMaster c) a, Asked (ReadOnSlave d) b]\<rparr>)" for a b c d
    using patient_snoc [of "cs_hist s @ [Asked (ReadOnMaster c) a]" "Asked (ReadOnSlave d) b"]
      unwaited_snoc [of "cs_hist s @ [Asked (ReadOnMaster c) a]" "Asked (ReadOnSlave d) b"]
    by (auto simp: step_defs history_simps)
  note ends = h [unfolded step_defs, simplified]
  show ?thesis
    using compare_all_patient [OF h(2)] ends
    by (auto simp: read_both_def ask_def Let_def step_defs split: prod.split sum.split)
qed

lemma read_patient: "in_step s \<Longrightarrow> step_gives (read_segment E k stmts s) in_step patient_end"
  unfolding read_segment_def
proof (rule outcome_then [where R = settled])
  assume s: "in_step s"
  show "step_gives (then_on (if cs_dirty s then wait_first E s else On s)
      (\<lambda>s1. if cs_stale s1 then refresh_keys E s1 else On s1)) settled patient_end"
  proof (rule outcome_then [where R = settled])
    show "step_gives (if cs_dirty s then wait_first E s else On s) settled patient_end"
      using wait_patient [OF s] s by (simp add: settled_def)
    fix s1 assume "settled s1"
    then show "step_gives (if cs_stale s1 then refresh_keys E s1 else On s1) settled patient_end"
      using refresh_patient by simp
  qed
qed (rule read_both_patient)

lemma segments_patient: "in_step s \<Longrightarrow> step_gives (run_segments E a k gs s) in_step patient_end"
proof (induction gs arbitrary: s)
  case (Cons g gs)
  have "step_gives (case_segment E a k g s) in_step patient_end"
    using Cons.prems read_patient [of "s\<lparr>cs_res := r\<rparr>" E k "sg_stmts g" for r]
      write_patient [of "s\<lparr>cs_res := r\<rparr>" E a "sg_stmts g" for r]
    by (auto simp: case_segment_def Let_def step_defs)
  then show ?case unfolding run_segments.simps by (rule outcome_then) (rule Cons.IH)
qed simp

lemma verdict_patient: "in_step s \<Longrightarrow> step_gives (verdict E s) (\<lambda>_. False) patient_end"
proof -
  assume s: "in_step s"
  have "step_gives (then_on (wait_first E s) (finish k d)) (\<lambda>_. False) patient_end" for k d
    by (rule outcome_then [OF wait_patient [OF s]]) (simp add: step_defs)
  then show ?thesis using s by (simp add: verdict_def Let_def step_defs)
qed

text \<open>
  C2: In every run of a case, no read is asked of either node while a write batch has gone out that
  no later wait for replication has answered; a wait that failed does not count.
\<close>

theorem reads_wait_for_writes:
  "patient (snd (RunCase E name sql keepDir addKey))"
proof -
  let ?s0 = "start_case name sql"
  have s0: "in_step ?s0" by (simp add: step_defs start_case_def patient_def unwaited_def)
  have "step_gives (then_on (run_segments E addKey keepDir (segments (repl_Statements sql)) ?s0) (verdict E))
      (\<lambda>_. False) patient_end"
    by (rule outcome_then [OF segments_patient [OF s0]]) (rule verdict_patient)
  then have "patient (cs_hist (state_after
      (then_on (run_segments E addKey keepDir (segments (repl_Statements sql)) ?s0) (verdict E))))"
    by (cases "then_on (run_segments E addKey keepDir (segments (repl_Statements sql)) ?s0) (verdict E)")
      (simp_all add: state_after_def patient_end_def)
  then show ?thesis
    by (simp add: RunCase_def Let_def finish_def state_after_def start_case_def patient_def)
qed

subsection \<open>A reported difference is one\<close>

text \<open>
  The last two calls of the history sent one script to both nodes, and statement \<open>i\<close> of it was
  answered differently, while the last one, which asks who is logged in, was answered alike.
\<close>

definition shown_difference :: "pair_env \<Rightarrow> string list \<Rightarrow> case_result \<Rightarrow> history \<Rightarrow> bool" where
  "shown_difference E all r h \<longleftrightarrow>
     (\<exists>h0 prelude stmts mo so i.
        let b = newBatchWith prelude (stmts @ [whoAmI]); script = csql_call (pe_db E) (bt_script b);
            want = answers_of b (fst mo); got = answers_of b (fst so)
        in h = h0 @ [Asked (ReadOnMaster script) (Inr mo), Asked (ReadOnSlave script) (Inr so)] \<and>
           i < length stmts \<and> stmts ! i \<in> set all \<and> IsRead (stmts ! i) \<and>
           Normalise (want ! i) \<noteq> Normalise (got ! i) \<and> \<not> samePermutation (want ! i) (got ! i) \<and>
           Normalise (want ! length stmts) = Normalise (got ! length stmts) \<and>
           cr_Differing r = firstLine (stmts ! i))"

definition honest :: "pair_env \<Rightarrow> string list \<Rightarrow> case_state \<Rightarrow> bool" where
  "honest E all s \<longleftrightarrow> (cr_Outcome (cs_res s) = Differ \<longrightarrow> shown_difference E all (cs_res s) (cs_hist s))"

lemma compare_one_shows:
  "step_gives (compare_one E k (stmt, want, got) s) (\<lambda>s'. cs_hist s' = cs_hist s)
     (\<lambda>s'. cs_hist s' = cs_hist s \<and> Normalise want \<noteq> Normalise got \<and> \<not> samePermutation want got \<and>
        cr_Differing (cs_res s') = firstLine stmt)"
  by (auto simp: compare_one_def Let_def)

lemma compare_all_shows:
  "step_gives (compare_all E k xs s) (\<lambda>s'. True)
     (\<lambda>s'. cs_hist s' = cs_hist s \<and> (\<exists>(stmt, want, got) \<in> set xs. Normalise want \<noteq> Normalise got \<and>
        \<not> samePermutation want got \<and> cr_Differing (cs_res s') = firstLine stmt))"
proof (induction xs arbitrary: s)
  case (Cons x xs)
  obtain stmt want got where x: "x = (stmt, want, got)" by (cases x)
  let ?Q = "\<lambda>s'. cs_hist s' = cs_hist s \<and> (\<exists>(stmt, want, got) \<in> set (x # xs). Normalise want \<noteq> Normalise got \<and>
        \<not> samePermutation want got \<and> cr_Differing (cs_res s') = firstLine stmt)"
  have "step_gives (compare_one E k x s) (\<lambda>s'. cs_hist s' = cs_hist s) ?Q"
    using compare_one_shows [of E k stmt want got s] unfolding x by (rule outcome_mono) auto
  then show ?case unfolding compare_all_then
  proof (rule outcome_then)
    fix s1 :: case_state assume "cs_hist s1 = cs_hist s"
    then show "step_gives (compare_all E k xs s1) (\<lambda>s'. True) ?Q"
      using Cons.IH [of s1] by (auto elim!: outcome_mono)
  qed
qed simp

lemma finish_honest:
  "k \<noteq> Differ \<Longrightarrow> honest E all (s\<lparr>cs_res := r\<lparr>cr_Outcome := k, cr_Detail := d\<rparr>\<rparr>)"
  by (simp add: honest_def)

lemma read_both_honest:
  assumes "set stmts \<subseteq> set all" and "\<forall>s \<in> set stmts. IsRead s"
  shows "step_gives (read_both E k stmts s) (\<lambda>_. True) (honest E all)"
proof -
  define b where "b = newBatchWith (cs_prelude s) (stmts @ [whoAmI])"
  define script where "script = csql_call (pe_db E) (bt_script b)"
  obtain a s1 where m: "ask E (ReadOnMaster script) s = (a, s1)" by (cases "ask E (ReadOnMaster script) s")
  obtain a' s2 where sl: "ask E (ReadOnSlave script) s1 = (a', s2)" by (cases "ask E (ReadOnSlave script) s1")
  have h: "cs_hist s2 = cs_hist s @ [Asked (ReadOnMaster script) a, Asked (ReadOnSlave script) a']"
    using ask_fields [OF m] ask_fields [OF sl] by simp
  show ?thesis
  proof (cases a)
    case (Inl e)
    then show ?thesis using m by (simp add: read_both_def finish_honest flip: b_def script_def)
  next
    case (Inr mo)
    show ?thesis
    proof (cases "pe_slaves E = [] \<or> (\<exists>e. a' = Inl e)")
      case True
      then show ?thesis using m sl Inr
        by (auto simp: read_both_def Let_def finish_honest split: prod.split simp flip: b_def script_def)
    next
      case False
      then obtain so where so: "a' = Inr so" by (cases a') auto
      let ?want = "answers_of b (fst mo)" and ?got = "answers_of b (fst so)"
      let ?xs = "zip stmts (zip ?want ?got)"
      have len: "length ?want = Suc (length stmts)" "length ?got = Suc (length stmts)"
        by (simp_all add: b_def answers_length)
      have "step_gives (compare_all E k ?xs s2) (\<lambda>_. True) (honest E all)"
        if same: "Normalise (?want ! length stmts) = Normalise (?got ! length stmts)"
      proof (rule outcome_mono [OF compare_all_shows])
        fix s' :: case_state
        assume s': "cs_hist s' = cs_hist s2 \<and> (\<exists>(stmt, want, got) \<in> set ?xs. Normalise want \<noteq> Normalise got \<and>
          \<not> samePermutation want got \<and> cr_Differing (cs_res s') = firstLine stmt)"
        then obtain i where i: "i < length stmts" "Normalise (?want ! i) \<noteq> Normalise (?got ! i)"
          "\<not> samePermutation (?want ! i) (?got ! i)" "cr_Differing (cs_res s') = firstLine (stmts ! i)"
          using len by (auto simp: set_zip)
        have "stmts ! i \<in> set all" "IsRead (stmts ! i)" using assms i(1) by auto
        then have "shown_difference E all (cs_res s') (cs_hist s')"
          unfolding shown_difference_def Let_def
          using i same s' h Inr so
          by (intro exI [of _ "cs_hist s"] exI [of _ "cs_prelude s"] exI [of _ stmts] exI [of _ mo] exI [of _ so] exI [of _ i])
            (simp flip: b_def script_def)
        then show "honest E all s'" by (simp add: honest_def)
      qed simp
      then show ?thesis using m sl Inr so False
        by (auto simp: read_both_def Let_def split: prod.split simp flip: b_def script_def)
    qed
  qed
qed

lemma segment_honest:
  assumes "set (sg_stmts g) \<subseteq> set all" and "segment_ok g"
  shows "step_gives (case_segment E a k g s) (\<lambda>_. True) (honest E all)"
proof -
  have w: "step_gives (write_segment E a stmts s) (\<lambda>_. True) (honest E all)" for stmts s
    by (auto simp: write_segment_def Let_def finish_honest split: prod.split sum.split)
  have r: "step_gives (wait_first E s) (\<lambda>_. True) (honest E all)" "step_gives (refresh_keys E s) (\<lambda>_. True) (honest E all)" for s
    by (auto simp: wait_first_def refresh_keys_def Let_def finish_honest split: prod.split sum.split option.split)
  have "step_gives (read_segment E k (sg_stmts g) s) (\<lambda>_. True) (honest E all)" if "sg_read g" for s
    unfolding read_segment_def
    by (rule outcome_then [where R = "\<lambda>_. True"], rule outcome_then [where R = "\<lambda>_. True"])
      (use assms that r read_both_honest in \<open>simp_all add: segment_ok_def\<close>)
  then show ?thesis using w by (simp add: case_segment_def Let_def finish_honest)
qed

lemma segments_honest:
  assumes "\<forall>g \<in> set gs. set (sg_stmts g) \<subseteq> set all \<and> segment_ok g"
  shows "step_gives (run_segments E a k gs s) (\<lambda>_. True) (honest E all)"
  using assms
proof (induction gs arbitrary: s)
  case (Cons g gs)
  show ?case unfolding run_segments.simps
    by (rule outcome_then [OF segment_honest]) (use Cons in simp_all)
qed simp

lemma verdict_honest: "step_gives (verdict E s) (\<lambda>_. False) (honest E all)"
  by (auto simp: verdict_def Let_def finish_honest wait_first_def then_on_def split: prod.split option.split)
    (simp_all add: finish_def honest_def)

lemma segments_of_case:
  "\<forall>g \<in> set (segments stmts). set (sg_stmts g) \<subseteq> set stmts \<and> segment_ok g"
proof
  fix g assume g: "g \<in> set (segments stmts)"
  have inv: "concat (map numbered_stmts (segments stmts)) = filter (\<lambda>(i, s). \<not> isDirective s) (enumerate 0 stmts)"
    "list_all segment_ok (segments stmts)"
    using segments_inv [of "[]" "[]" "enumerate 0 stmts"] by (simp_all add: segments_def)
  have ok: "segment_ok g" using inv(2) g by (simp add: list_all_iff)
  have "set (numbered_stmts g) \<subseteq> set (enumerate 0 stmts)"
    using arg_cong [OF inv(1), of set] g by auto
  then have "snd ` set (numbered_stmts g) \<subseteq> snd ` set (enumerate 0 stmts)" by (rule image_mono)
  moreover have "snd ` set (numbered_stmts g) = set (sg_stmts g)"
    using ok by (simp add: numbered_stmts_def segment_ok_def flip: set_map)
  moreover have "snd ` set (enumerate 0 stmts) = set stmts" by (simp flip: set_map)
  ultimately show "set (sg_stmts g) \<subseteq> set stmts \<and> segment_ok g" using ok by simp
qed

text \<open>
  C29: When a case is reported to differ, the last thing it did was to send one script to both nodes
  in sessions of the same user, and a read of the case was answered with different rows by them,
  not the same rows in another order; that read is the one the report names.
\<close>

theorem reported_difference_is_one:
  assumes "RunCase E name sql keepDir addKey = (r, h)" and "cr_Outcome r = Differ"
  shows "shown_difference E (repl_Statements sql) r h"
proof -
  let ?st = "repl_Statements sql"
  let ?x = "then_on (run_segments E addKey keepDir (segments ?st) (start_case name sql)) (verdict E)"
  have "step_gives ?x (\<lambda>_. False) (honest E ?st)"
    by (rule outcome_then [OF segments_honest [OF segments_of_case]]) (rule verdict_honest)
  then have "honest E ?st (state_after ?x)" by (cases ?x) (simp_all add: state_after_def)
  moreover have "r = cs_res (state_after ?x)" "h = cs_hist (state_after ?x)"
    using assms by (auto simp: RunCase_def Let_def finish_def state_after_def split: if_splits)
  ultimately show ?thesis using assms(2) by (simp add: honest_def)
qed

subsection \<open>Two runs of one case\<close>

definition demo_answer :: "string \<Rightarrow> node_answer" where
  "demo_answer v = Inr (csql_text [[]] [(''SELECT'', 1, [v]), (''SELECT'', 2, [''dba''])], [], 0)"

definition demo_pair :: "string \<Rightarrow> pair_env" where
  "demo_pair v = \<lparr>pe_db = ''db'', pe_cluster = ''c'', pe_slaves = [''s1''],
     pe_run = (\<lambda>h c. case c of ReadOnMaster t \<Rightarrow> demo_answer ''a'' | ReadOnSlave t \<Rightarrow> demo_answer v | _ \<Rightarrow> Inr ([], [], 0)),
     pe_wait = (\<lambda>h. (1, None)), pe_stopped = (\<lambda>h. False), pe_keep = (\<lambda>h a b c. None)\<rparr>"

lemma demo_text:
  "v \<in> {''a'', ''b'', ''dba''} \<Longrightarrow> silent v \<and> Normalise v = v \<and> split_on LF v = [v] \<and> trim_space v = v"
  by (auto simp: silent_def Normalise_def noise_def trim_space_trimmed graphic_trimmed graphic_def char_nat_def
      marker_line_def control trim_right_of_def sublist_Cons_right)

lemma demo_split:
  "splitResults (csql_text [[]] [(''SELECT'', 1, [v]), (''SELECT'', 2, [''dba''])]) = [1 \<mapsto> v, 2 \<mapsto> ''dba'']"
  if "v \<in> {''a'', ''b''}"
proof -
  have "silent []" by (simp add: silent_def marker_line_def trim_space_trimmed graphic_trimmed)
  moreover have "silent v" "silent ''dba''" using demo_text that by auto
  ultimately show ?thesis
    by (subst splitResults_csql)
      (auto simp: answer_ok_def in_int_def int_lo_def int_hi_def control)
qed

lemma demo_answers:
  assumes "v \<in> {''a'', ''b''}"
  shows "answers_of (newBatchWith [] [''select 1'', whoAmI])
    (csql_text [[]] [(''SELECT'', 1, [v]), (''SELECT'', 2, [''dba''])]) = [v, ''dba'']"
  using demo_split [OF assms]
  by (simp add: answers_of_def newBatchWith_is upt_rec start_line_def control whoAmI_def)

lemma demo_statements: "repl_Statements ''select 1'' = [''select 1'']"
  by (simp add: repl_Statements_def split_step_def new_splitter_def put_text_def flush_def trim_suffix_def
      blockDelta_def wordAt_def skipSpace_def word_eval NUL_def char_of_def bit_0 trim_space_trimmed
      graphic_trimmed graphic_def)

lemma demo_read: "IsRead ''select 1''" "\<not> isDirective ''select 1''"
  by (simp_all add: IsRead_def isDirective_def to_lower_def lower_char_def char_nat_def char_of_def bit_0
      trim_space_trimmed graphic_trimmed graphic_def sublist_Cons_right)

lemma demo_splittable: "Splittable ''select 1''"
  by (simp add: Splittable_def demo_statements Let_def to_upper_def upper_char_def char_nat_def char_of_def
      bit_0 sublist_Cons_right)

lemma case_run:
  "RunCase (demo_pair ''a'') ''c'' ''select 1'' False False = (r, h) \<Longrightarrow> cr_Outcome r = Same"
  "RunCase (demo_pair ''b'') ''c'' ''select 1'' False False = (r, h) \<Longrightarrow> cr_Outcome r = Differ"
proof -
  have seg: "segments [''select 1''] = [\<lparr>sg_read = True, sg_stmts = [''select 1''], sg_idx = [0]\<rparr>]"
    by (simp add: segments_def segment_step_def demo_read)
  have nodes: "ask (demo_pair v) (ReadOnMaster t) s = (demo_answer ''a'', s\<lparr>cs_hist := cs_hist s @ [Asked (ReadOnMaster t) (demo_answer ''a'')]\<rparr>)"
    "ask (demo_pair v) (ReadOnSlave t) s = (demo_answer v, s\<lparr>cs_hist := cs_hist s @ [Asked (ReadOnSlave t) (demo_answer v)]\<rparr>)"
    "ask (demo_pair v) (CatalogRead t) s = (Inr ([], [], 0), s\<lparr>cs_hist := cs_hist s @ [Asked (CatalogRead t) (Inr ([], [], 0))]\<rparr>)"
    "pe_stopped (demo_pair v) g = False" "pe_slaves (demo_pair v) = [''s1'']" for v t s g
    by (simp_all add: ask_def demo_pair_def Let_def)
  have keys: "refresh_keys (demo_pair v) s = On (s\<lparr>cs_withObject := [], cs_noKey := [], cs_stale := False,
      cs_hist := cs_hist s @ [Asked (CatalogRead (catalog_call (pe_db (demo_pair v)) noPrimaryKeyQuery)) (Inr ([], [], 0)),
        Asked (CatalogRead (catalog_call (pe_db (demo_pair v)) objectDomainQuery)) (Inr ([], [], 0))]\<rparr>)" for v s
    by (simp add: refresh_keys_def tablesWithoutPrimaryKey_def catalog_def nodes parseTableList_def noise_def names_def
        trim_space_trimmed graphic_trimmed)
  have texts: "Normalise ''a'' = ''a''" "Normalise ''b'' = ''b''" "Normalise ''dba'' = ''dba''"
    "split_on LF ''a'' = [''a'']" "split_on LF ''b'' = [''b'']"
    using demo_text [of "''a''"] demo_text [of "''b''"] demo_text [of "''dba''"] by simp_all
  have same: "\<exists>s'. compare_one (demo_pair v) False (''select 1'', ''a'', ''a'') s = On s' \<and> 0 < cr_Compared (cs_res s')"
    if "cs_noKey s = []" "cs_withObject s = []" for v s
    using that by (simp add: compare_one_def Let_def mentionsAny_def)
  have differ: "\<exists>s'. compare_one (demo_pair v) False (''select 1'', ''a'', ''b'') s = Ended s' \<and> cr_Outcome (cs_res s') = Differ"
    if "cs_noKey s = []" "cs_withObject s = []" for v s
    using that
    by (simp add: compare_one_def Let_def mentionsAny_def samePermutation_def sort_strings_def sort_by_def texts control)
  have rb: "(v = ''a'' \<longrightarrow> (\<exists>s'. read_both (demo_pair v) False [''select 1''] t = On s' \<and> 0 < cr_Compared (cs_res s'))) \<and>
      (v = ''b'' \<longrightarrow> (\<exists>s'. read_both (demo_pair v) False [''select 1''] t = Ended s' \<and> cr_Outcome (cs_res s') = Differ))"
    if v: "v \<in> {''a'', ''b''}" and t: "cs_prelude t = []" "cs_noKey t = []" "cs_withObject t = []" for v t
  proof -
    obtain h where "read_both (demo_pair v) False [''select 1''] t =
        compare_all (demo_pair v) False [(''select 1'', ''a'', v)] (t\<lparr>cs_hist := h\<rparr>)"
      using demo_answers [OF v] demo_answers [of "''a''"] t(1)
      by (simp add: read_both_def nodes demo_answer_def Let_def texts del: compare_all.simps)
    then show ?thesis
      using same [of "t\<lparr>cs_hist := h\<rparr>" v] differ [of "t\<lparr>cs_hist := h\<rparr>" v] t by auto
  qed
  have both: "cr_Outcome (fst (RunCase (demo_pair v) ''c'' ''select 1'' False False)) = (if v = ''a'' then Same else Differ)"
    if v: "v \<in> {''a'', ''b''}" for v
  proof -
    let ?s = "start_case ''c'' ''select 1''"
    let ?u = "?s\<lparr>cs_res := (cs_res ?s)\<lparr>cr_Statements := Suc (cr_Statements (cs_res ?s))\<rparr>\<rparr>"
    have sc: "\<not> cs_dirty ?s" "cs_stale ?s" "cs_prelude ?s = []" by (simp_all add: start_case_def)
    obtain t where u: "refresh_keys (demo_pair v) ?u = On t"
      and t: "cs_prelude t = []" "cs_noKey t = []" "cs_withObject t = []"
      using sc(3) by (simp add: keys)
    have r: "run_segments (demo_pair v) False False (segments [''select 1'']) ?s =
        then_on (read_both (demo_pair v) False [''select 1''] t) On"
      using u by (simp add: seg case_segment_def nodes Let_def read_segment_def sc then_on_def split: step_result.split)
    show ?thesis
      using rb [OF v t] v
      by (auto simp: RunCase_def demo_splittable demo_statements r then_on_def verdict_def Let_def finish_def
          state_after_def)
  qed
  show "RunCase (demo_pair ''a'') ''c'' ''select 1'' False False = (r, h) \<Longrightarrow> cr_Outcome r = Same"
    "RunCase (demo_pair ''b'') ''c'' ''select 1'' False False = (r, h) \<Longrightarrow> cr_Outcome r = Differ"
    using both [of "''a''"] both [of "''b''"] by auto
qed

theorem every_read_is_accounted_for_witness:
  "\<exists>r h. RunCase (demo_pair ''a'') ''c'' ''select 1'' False False = (r, h) \<and> cr_Compared r = 1 \<and> cr_Statements r = 1"
proof -
  obtain r h where r: "RunCase (demo_pair ''a'') ''c'' ''select 1'' False False = (r, h)"
    by (cases "RunCase (demo_pair ''a'') ''c'' ''select 1'' False False")
  have same: "cr_Outcome r = Same" by (rule case_run(1) [OF r])
  then have "cr_Statements r = 1 \<and> cr_Compared r + cr_Unreplicated r + cr_ObjectDomain r + cr_SessionDiffered r = 1 \<and>
      0 < cr_Compared r"
    using every_read_is_accounted_for [OF r] by (simp add: demo_statements demo_read)
  then show ?thesis using r by (intro exI [of _ r] exI [of _ h]) auto
qed

theorem reported_difference_is_one_witness:
  "\<exists>r h. RunCase (demo_pair ''b'') ''c'' ''select 1'' False False = (r, h) \<and>
     shown_difference (demo_pair ''b'') [''select 1''] r h"
proof -
  obtain r h where r: "RunCase (demo_pair ''b'') ''c'' ''select 1'' False False = (r, h)"
    by (cases "RunCase (demo_pair ''b'') ''c'' ''select 1'' False False")
  show ?thesis
    using reported_difference_is_one [OF r case_run(2) [OF r]] r by (auto simp: demo_statements)
qed

end
