(* ===== verification/Harepl_Compare_Claims.thy ===== *)
theory Harepl_Compare_Claims
  imports Harepl_Compare
begin

text \<open>
  The names that reach a table without a key, and when two answers are the same rows.
\<close>

lemma samePermutation_mset:
  "samePermutation a b \<longleftrightarrow> mset (split_on LF (Normalise a)) = mset (split_on LF (Normalise b))"
proof
  assume "samePermutation a b"
  then show "mset (split_on LF (Normalise a)) = mset (split_on LF (Normalise b))"
    unfolding samePermutation_def Let_def by (metis mset_sort_strings)
next
  assume m: "mset (split_on LF (Normalise a)) = mset (split_on LF (Normalise b))"
  then show "samePermutation a b"
    using sort_strings_determined [OF m] mset_eq_length [OF m] by (simp only: samePermutation_def Let_def)
qed

subsection \<open>One pass\<close>

definition row_name :: "string \<Rightarrow> string" where
  "row_name row = (case splitTwo row of None \<Rightarrow> [] | Some (name, def) \<Rightarrow> name)"

definition fires :: "reaching \<Rightarrow> string \<Rightarrow> bool" where
  "fires r row \<longleftrightarrow> (\<exists>name def. splitTwo row = Some (name, def) \<and> to_lower name \<notin> set (rc_seen r) \<and>
     mentionsAny def (rc_bare r))"

definition kept :: "reaching \<Rightarrow> reaching \<Rightarrow> bool" where
  "kept r r' \<longleftrightarrow> set (rc_seen r) \<subseteq> set (rc_seen r') \<and> set (rc_bare r) \<subseteq> set (rc_bare r') \<and>
     (to_lower ` set (rc_bare r) = set (rc_seen r) \<longrightarrow> to_lower ` set (rc_bare r') = set (rc_seen r')) \<and>
     (rc_grew r \<longrightarrow> rc_grew r') \<and> (\<not> rc_grew r' \<longrightarrow> r' = r)"

lemma kept_refl: "kept r r"
  by (simp add: kept_def)

lemma kept_trans: "kept r s \<Longrightarrow> kept s t \<Longrightarrow> kept r t"
  unfolding kept_def by (metis subset_trans)

lemma kept_add: "kept r (add_spelling n r)"
  by (auto simp: kept_def add_spelling_def)

lemma kept_fold: "(\<And>x r. kept r (f x r)) \<Longrightarrow> kept r (fold f xs r)"
  by (induction xs arbitrary: r) (auto intro: kept_refl kept_trans)

lemma spelled: "\<exists>ns. bothSpellings name = name # ns"
  by (auto simp: bothSpellings_def split: option.split)

lemma reach_row_fires:
  "kept r (reach_row row r)"
  "fires r row \<Longrightarrow> rc_grew (reach_row row r) \<and> to_lower (row_name row) \<in> set (rc_seen (reach_row row r))"
  "\<not> fires r row \<Longrightarrow> reach_row row r = r"
proof -
  show "kept r (reach_row row r)"
    by (auto simp: reach_row_def intro: kept_refl kept_fold kept_add split: option.split)
  assume "fires r row"
  then obtain name def where n: "splitTwo row = Some (name, def)" "to_lower name \<notin> set (rc_seen r)"
    "mentionsAny def (rc_bare r)" by (auto simp: fires_def)
  obtain ns where ns: "bothSpellings name = name # ns" using spelled by blast
  have "kept (add_spelling name r) (reach_row row r)"
    using n ns by (auto simp: reach_row_def intro: kept_fold kept_add)
  moreover have "rc_grew (add_spelling name r)" "to_lower name \<in> set (rc_seen (add_spelling name r))"
    using n(2) by (simp_all add: add_spelling_def)
  ultimately show "rc_grew (reach_row row r) \<and> to_lower (row_name row) \<in> set (rc_seen (reach_row row r))"
    using n(1) by (auto simp: kept_def row_name_def)
next
  assume "\<not> fires r row"
  then show "reach_row row r = r" by (auto simp: reach_row_def fires_def split: option.split)
qed

lemma pass_quiet:
  "\<not> rc_grew (fold reach_row rows r) \<Longrightarrow> fold reach_row rows r = r \<and> (\<forall>row \<in> set rows. \<not> fires r row)"
proof (induction rows arbitrary: r)
  case (Cons row rows)
  show ?case
  proof (cases "fires r row")
    case True
    have "kept (reach_row row r) (fold reach_row rows (reach_row row r))"
      by (intro kept_fold reach_row_fires(1))
    then show ?thesis using Cons.prems reach_row_fires(2) [OF True] by (auto simp: kept_def)
  next
    case False
    then show ?thesis using Cons reach_row_fires(3) [OF False] by simp
  qed
qed simp

lemma pass_grew:
  assumes "rc_grew (fold reach_row rows r)" "\<not> rc_grew r"
  shows "\<exists>row \<in> set rows. to_lower (row_name row) \<notin> set (rc_seen r) \<and>
    to_lower (row_name row) \<in> set (rc_seen (fold reach_row rows r))"
  using assms
proof (induction rows arbitrary: r)
  case (Cons row rows)
  show ?case
  proof (cases "fires r row")
    case True
    have "kept (reach_row row r) (fold reach_row rows (reach_row row r))"
      by (intro kept_fold reach_row_fires(1))
    then have "to_lower (row_name row) \<in> set (rc_seen (fold reach_row (row # rows) r))"
      using reach_row_fires(2) [OF True] by (auto simp: kept_def)
    moreover have "to_lower (row_name row) \<notin> set (rc_seen r)"
      using True by (auto simp: fires_def row_name_def)
    ultimately show ?thesis by (intro bexI [of _ row]) simp_all
  next
    case False
    then show ?thesis using Cons reach_row_fires(3) [OF False] by auto
  qed
qed simp

subsection \<open>Enough passes\<close>

definition unseen :: "string list \<Rightarrow> reaching \<Rightarrow> nat" where
  "unseen rows r = card {row \<in> set rows. to_lower (row_name row) \<notin> set (rc_seen r)}"

lemma passes_kept: "to_lower ` set (rc_bare r) = set (rc_seen r) \<Longrightarrow>
  set (rc_bare r) \<subseteq> set (rc_bare (reach_passes n rows r)) \<and>
  to_lower ` set (rc_bare (reach_passes n rows r)) = set (rc_seen (reach_passes n rows r))"
proof (induction n rows r rule: reach_passes.induct)
  case (2 n rows r)
  have k: "kept (r\<lparr>rc_grew := False\<rparr>) (fold reach_row rows (r\<lparr>rc_grew := False\<rparr>))"
    by (intro kept_fold reach_row_fires(1))
  then have "to_lower ` set (rc_bare (fold reach_row rows (r\<lparr>rc_grew := False\<rparr>))) =
      set (rc_seen (fold reach_row rows (r\<lparr>rc_grew := False\<rparr>)))" using 2(2) by (simp add: kept_def)
  moreover have "set (rc_bare r) \<subseteq> set (rc_bare (fold reach_row rows (r\<lparr>rc_grew := False\<rparr>)))"
    using k by (simp add: kept_def)
  ultimately show ?case using "2.IH" [OF refl] by (simp add: Let_def) (meson subset_trans)
qed simp

lemma passes_closed:
  "unseen rows r \<le> n \<Longrightarrow> \<forall>row \<in> set rows. \<not> fires (reach_passes (Suc n) rows r) row"
proof (induction n arbitrary: r)
  case (0 r)
  let ?r0 = "r\<lparr>rc_grew := False\<rparr>"
  have "\<not> rc_grew (fold reach_row rows ?r0)"
    using pass_grew [of rows ?r0] 0 by (auto simp: unseen_def)
  then show ?case using pass_quiet [of rows ?r0] by simp
next
  case (Suc n r)
  let ?r0 = "r\<lparr>rc_grew := False\<rparr>"
  let ?r1 = "fold reach_row rows ?r0"
  show ?case
  proof (cases "rc_grew ?r1")
    case False
    then show ?thesis using pass_quiet [of rows ?r0] by (simp add: Let_def)
  next
    case True
    obtain row where row: "row \<in> set rows" "to_lower (row_name row) \<notin> set (rc_seen r)"
      "to_lower (row_name row) \<in> set (rc_seen ?r1)" using pass_grew [OF True] by auto
    have "set (rc_seen r) \<subseteq> set (rc_seen ?r1)"
      using kept_fold [of reach_row ?r0 rows] reach_row_fires(1) by (simp add: kept_def)
    then have "{x \<in> set rows. to_lower (row_name x) \<notin> set (rc_seen ?r1)} \<subset>
        {x \<in> set rows. to_lower (row_name x) \<notin> set (rc_seen r)}" using row by blast
    then have "unseen rows ?r1 < unseen rows r" unfolding unseen_def by (intro psubset_card_mono) auto
    then have "unseen rows ?r1 \<le> n" using Suc.prems by simp
    from Suc.IH [OF this] show ?thesis using True by (simp only: reach_passes.simps(2) [of "Suc n"] Let_def if_True)
  qed
qed

text \<open>
  With fewer than ten views and synonyms, the names a read must not touch are closed: they
  hold every table without a key, and every view or synonym whose definition names one of them.
\<close>

theorem keyless_names_closed:
  assumes "length (views @ syns) \<le> 9"
  shows "set tables \<subseteq> set (keyless_names tables views syns) \<and>
    (\<forall>row \<in> set (views @ syns). \<forall>name def. splitTwo row = Some (name, def) \<and>
      mentionsAny def (keyless_names tables views syns) \<longrightarrow>
      to_lower name \<in> to_lower ` set (keyless_names tables views syns))"
proof -
  let ?r = "\<lparr>rc_seen = map to_lower tables, rc_bare = tables, rc_grew = False\<rparr>"
  have "card (set (views @ syns)) \<le> 9" using card_length [of "views @ syns"] assms by linarith
  moreover have "unseen (views @ syns) ?r \<le> card (set (views @ syns))"
    unfolding unseen_def by (intro card_mono) auto
  ultimately have "\<forall>row \<in> set (views @ syns). \<not> fires (reach_passes 10 (views @ syns) ?r) row"
    using passes_closed [of "views @ syns" ?r 9] by simp
  then show ?thesis
    using passes_kept [of ?r 10 "views @ syns"] by (auto simp: keyless_names_def fires_def)
qed

theorem keyless_names_closed_witness:
  "set [''t''] \<subseteq> set (keyless_names [''t''] [''w select * from v'', ''v select * from t''] [])"
  using keyless_names_closed [of "[''w select * from v'', ''v select * from t'']" "[]" "[''t'']"] by simp

end
