(* ===== verification/Harepl_Reset.thy ===== *)
theory Harepl_Reset
  imports Harepl_Case
begin

text \<open>
  Emptying the pair between two cases: \<open>reset.go\<close> of \<open>internal/runner/hareplsuite\<close>. The pair is an
  environment that answers from all that was asked before; a call that fails answers the error's
  text. What was asked and answered is the history.
\<close>

datatype reset_call = MasterCatalog string | MasterBatch string | SlaveCatalog nat string

datatype reset_event = Called reset_call "string + string" | Crossed "string option"

record reset_env =
  re_db :: string
  re_slaves :: "string list"
  re_run :: "reset_event list \<Rightarrow> reset_call \<Rightarrow> string + string"
  re_wait :: "reset_event list \<Rightarrow> string option"

definition call_pair :: "reset_env \<Rightarrow> reset_call \<Rightarrow> reset_event list \<Rightarrow> (string + string) \<times> reset_event list" where
  "call_pair E c h = (let a = re_run E h c in (a, h @ [Called c a]))"

definition cross_pair :: "reset_env \<Rightarrow> reset_event list \<Rightarrow> string option \<times> reset_event list" where
  "cross_pair E h = (let a = re_wait E h in (a, h @ [Crossed a]))"

subsection \<open>What is left\<close>

record leftover =
  lo_word :: string
  lo_name :: string

definition ownTrigger :: string where "ownTrigger = ''OWNTRIGGER''"

definition ownerOf :: "string \<Rightarrow> string option" where
  "ownerOf q =
     (if \<not> has_prefix q ''['' then None
      else case index_of q '']'' of
        None \<Rightarrow> None
      | Some e \<Rightarrow> if e \<le> 1 then None else Some (take (e - 1) (drop 1 q)))"

definition drop_statement :: "leftover \<Rightarrow> string" where
  "drop_statement l =
     (if lo_word l = ownTrigger then
        (case ownerOf (lo_name l) of
           None \<Rightarrow> ''DROP TRIGGER '' @ lo_name l
         | Some owner \<Rightarrow> ''call login('' @ [SQ] @ owner @ [SQ] @ '') on class db_user;'' @ [LF] @
             ''DROP TRIGGER '' @ lo_name l @ '';'' @ [LF] @
             ''call login('' @ [SQ] @ ''dba'' @ [SQ] @ '') on class db_user'')
      else ''DROP '' @ lo_word l @ '' '' @ lo_name l)"

definition leftover_String :: "leftover \<Rightarrow> string" where
  "leftover_String l =
     (if lo_word l = ownTrigger then ''user trigger '' @ lo_name l
      else to_lower (lo_word l) @ '' '' @ lo_name l)"

definition leftoverNames :: "leftover list \<Rightarrow> string list" where
  "leftoverNames left = map leftover_String left"

definition ResetNote :: "string list \<Rightarrow> string" where
  "ResetNote left = ''the database still holds '' @ join_with '', '' left @
     '' after a reset; every case after this one starts from a state this run did not choose''"

definition resetQuery :: string where
  "resetQuery =
     (let y = [SQ] @ ''NO'' @ [SQ]; brack = (\<lambda>s. [SQ] @ ''['' @ [SQ] @ '' || '' @ s @ '' || '' @ [SQ] @ '']'' @ [SQ]);
          both = (\<lambda>o' n. [SQ] @ ''['' @ [SQ] @ '' || '' @ o' @ '' || '' @ [SQ] @ ''].['' @ [SQ] @ '' || '' @ n @
            '' || '' @ [SQ] @ '']'' @ [SQ]); word = (\<lambda>w. [SQ] @ w @ [SQ])
      in ''SELECT w || '' @ [SQ] @ '' '' @ [SQ] @ '' || n FROM (SELECT 1 AS r, '' @ word ''VIEW'' @ '' AS w, '' @
         both ''owner_name'' ''class_name'' @ '' AS n FROM db_class WHERE is_system_class='' @ y @
         '' AND class_type='' @ word ''VCLASS'' @
         '' UNION ALL SELECT 2, '' @ word ''SYNONYM'' @ '', '' @ both ''synonym_owner_name'' ''synonym_name'' @
         '' FROM db_synonym UNION ALL SELECT 3, '' @ word ''TRIGGER'' @ '', '' @
         both ''owner_name'' ''trigger_name'' @ '' FROM db_trigger WHERE target_class_name IS NOT NULL '' @
         ''UNION ALL SELECT 3, '' @ word ''OWNTRIGGER'' @ '', '' @ both ''owner_name'' ''trigger_name'' @
         '' FROM db_trigger WHERE target_class_name IS NULL '' @
         ''UNION ALL SELECT 4, '' @ word ''SERIAL'' @ '', '' @ both ''owner'' ''name'' @
         '' FROM db_serial WHERE class_name IS NULL '' @
         ''UNION ALL SELECT 5, '' @ word ''TABLE'' @ '', '' @ both ''c.owner_name'' ''c.class_name'' @
         '' FROM db_class c WHERE c.is_system_class='' @ y @ '' AND c.class_type='' @ word ''CLASS'' @
         '' AND NOT EXISTS (SELECT 1 FROM db_partition pt '' @
         ''WHERE pt.partition_class_name = c.class_name AND pt.owner_name = c.owner_name) '' @
         ''UNION ALL SELECT 6, '' @ word ''USER'' @ '', '' @ brack ''name'' @
         '' FROM db_user WHERE name NOT IN ('' @ word ''DBA'' @ '', '' @ word ''PUBLIC'' @ '', '' @
         word ''INFORMATION_SCHEMA'' @ '')) t ORDER BY r, n'')"

text \<open>A row of the catalog's answer: the word its drop needs, and the name.\<close>

definition catalog_row :: "string \<Rightarrow> (string \<times> string) option" where
  "catalog_row row =
     (case cut_at (CHR '' '') (bare row) of (word, name, ok) \<Rightarrow> if \<not> ok \<or> name = [] then None else Some (word, name))"

definition leftovers_in :: "string \<Rightarrow> leftover list" where
  "leftovers_in out =
     List.map_filter (\<lambda>row. map_option (\<lambda>(w, n). \<lparr>lo_word = w, lo_name = n\<rparr>) (catalog_row row)) (parseTableList out)"

definition remaining_objects :: "reset_env \<Rightarrow> reset_event list \<Rightarrow> (string + leftover list) \<times> reset_event list" where
  "remaining_objects E h =
     (case call_pair E (MasterCatalog (catalog_call (re_db E) resetQuery)) h of
        (Inl t, h1) \<Rightarrow> (Inl t, h1)
      | (Inr out, h1) \<Rightarrow> (Inr (leftovers_in out), h1))"

subsection \<open>What a slave still holds\<close>

record stranded =
  sd_Node :: string
  sd_Word :: string
  sd_Name :: string
  sd_Repaired :: bool
  sd_Why :: string

definition stranded_key :: "stranded \<Rightarrow> string" where
  "stranded_key s = sd_Node s @ '' '' @ sd_Word s @ '' '' @ sd_Name s"

definition stranded_String :: "stranded \<Rightarrow> string" where
  "stranded_String s =
     (if sd_Word s = ownTrigger then ''user trigger'' else to_lower (sd_Word s)) @ '' '' @ sd_Name s @
     '' on '' @ sd_Node s @
     (if sd_Repaired s then '' (repaired)''
      else if sd_Why s \<noteq> [] then '' (not repaired: '' @ sd_Why s @ '')'' else [])"

definition markerPrefix :: string where "markerPrefix = ''tkrepl_''"

definition stranded_in :: "string \<Rightarrow> string \<Rightarrow> stranded list" where
  "stranded_in node out =
     List.map_filter (\<lambda>row. case catalog_row row of
         None \<Rightarrow> None
       | Some (w, n) \<Rightarrow>
           if contains (to_lower n) (''['' @ markerPrefix) then None
           else Some \<lparr>sd_Node = node, sd_Word = to_upper w, sd_Name = n, sd_Repaired = False, sd_Why = []\<rparr>)
       (parseTableList out)"

text \<open>
  The slaves are asked in order. A slave's channel is refused only for an index that is none of theirs,
  which the loop over them does not pass.
\<close>

fun slaves_from :: "reset_env \<Rightarrow> nat \<Rightarrow> string list \<Rightarrow> reset_event list \<Rightarrow> (string + stranded list) \<times> reset_event list" where
  "slaves_from E i [] h = (Inr [], h)"
| "slaves_from E i (node # nodes) h =
     (case call_pair E (SlaveCatalog i (catalog_call (re_db E) resetQuery)) h of
        (Inl t, h1) \<Rightarrow> (Inl (''asking '' @ node @ '' what it still holds: '' @ t), h1)
      | (Inr out, h1) \<Rightarrow>
          (case slaves_from E (i + 1) nodes h1 of
             (Inl t, h2) \<Rightarrow> (Inl t, h2)
           | (Inr others, h2) \<Rightarrow> (Inr (stranded_in node out @ others), h2)))"

definition slaveLeftovers :: "reset_env \<Rightarrow> reset_event list \<Rightarrow> (string + stranded list) \<times> reset_event list" where
  "slaveLeftovers E h = slaves_from E 0 (re_slaves E) h"

subsection \<open>Repairing\<close>

definition placeholderFor :: "string \<Rightarrow> string \<Rightarrow> string option" where
  "placeholderFor word name =
     (if word = ''TABLE'' then Some (''CREATE TABLE '' @ name @ ''('' @ KeyColumn @ '' INT)'')
      else if word = ''SERIAL'' then Some (''CREATE SERIAL '' @ name)
      else if word = ''USER'' then Some (''CREATE USER '' @ name)
      else None)"

definition is_open :: "stranded \<Rightarrow> bool" where
  "is_open s \<longleftrightarrow> \<not> sd_Repaired s \<and> sd_Why s = []"

definition markUnrepaired :: "string \<Rightarrow> stranded list \<Rightarrow> stranded list" where
  "markUnrepaired why ss = map (\<lambda>s. if is_open s then s\<lparr>sd_Why := why\<rparr> else s) ss"

definition give_up :: "stranded \<Rightarrow> stranded" where
  "give_up s =
     (if is_open s \<and> placeholderFor (sd_Word s) (sd_Name s) = None
      then s\<lparr>sd_Why := ''a '' @ to_lower (sd_Word s) @ '' needs a definition this runner will not invent''\<rparr> else s)"

definition repair_drops :: "stranded \<Rightarrow> string list" where
  "repair_drops s =
     (if \<not> is_open s then []
      else case placeholderFor (sd_Word s) (sd_Name s) of
        None \<Rightarrow> []
      | Some create \<Rightarrow> [create, ''DROP '' @ sd_Word s @ '' '' @ sd_Name s])"

definition settle_repair :: "string list \<Rightarrow> stranded \<Rightarrow> stranded" where
  "settle_repair still s = (if is_open s \<and> stranded_key s \<notin> set still then s\<lparr>sd_Repaired := True\<rparr> else s)"

definition slaveCatchUp_text :: string where "slaveCatchUp_text = ''30s''"

text \<open>The end of a pass: on with the next, out of the loop, or out of the function.\<close>

datatype pass_end = Onward "stranded list" | LeaveLoop "stranded list" | Return "stranded list"

definition repair_pass :: "reset_env \<Rightarrow> stranded list \<Rightarrow> reset_event list \<Rightarrow> pass_end \<times> reset_event list" where
  "repair_pass E ss h =
     (let drops = concat (map repair_drops ss); ss1 = map give_up ss in
      if drops = [] then (LeaveLoop ss1, h)
      else case call_pair E (MasterBatch (csql_call (re_db E) (bt_script (newBatch drops)))) h of
        (Inl t, h1) \<Rightarrow> (Return (markUnrepaired t ss1), h1)
      | (Inr _, h1) \<Rightarrow>
          (case cross_pair E h1 of
             (Some _, h2) \<Rightarrow>
               (Return (markUnrepaired (''the repair did not reach the slave within '' @ slaveCatchUp_text) ss1), h2)
           | (None, h2) \<Rightarrow>
               (case slaveLeftovers E h2 of
                  (Inl _, h3) \<Rightarrow> (Return ss1, h3)
                | (Inr after, h3) \<Rightarrow>
                    (let ss2 = map (settle_repair (map stranded_key after)) ss1
                     in (if ss2 = ss1 then LeaveLoop ss2 else Onward ss2, h3)))))"

definition unremoved :: string where "unremoved = ''the master's DROP did not remove it''"

fun repair_passes :: "nat \<Rightarrow> reset_env \<Rightarrow> stranded list \<Rightarrow> reset_event list \<Rightarrow> stranded list \<times> reset_event list" where
  "repair_passes 0 E ss h = (markUnrepaired unremoved ss, h)"
| "repair_passes (Suc n) E ss h =
     (case repair_pass E ss h of
        (Onward ss1, h1) \<Rightarrow> repair_passes n E ss1 h1
      | (LeaveLoop ss1, h1) \<Rightarrow> (markUnrepaired unremoved ss1, h1)
      | (Return ss1, h1) \<Rightarrow> (ss1, h1))"

definition repairSlaves :: "reset_env \<Rightarrow> stranded list \<Rightarrow> reset_event list \<Rightarrow> stranded list \<times> reset_event list" where
  "repairSlaves E ss h = repair_passes 5 E ss h"

definition strandedOnSlaves :: "reset_env \<Rightarrow> reset_event list \<Rightarrow> (string + stranded list) \<times> reset_event list" where
  "strandedOnSlaves E h =
     (case slaveLeftovers E h of
        (Inl t, h1) \<Rightarrow> (Inl t, h1)
      | (Inr ss, h1) \<Rightarrow>
          if ss = [] then (Inr [], h1)
          else (case cross_pair E h1 of
             (Some _, h2) \<Rightarrow>
               (Inr (map (\<lambda>s. s\<lparr>sd_Why := ''no marker crossed, so this may be lag rather than divergence''\<rparr>) ss), h2)
           | (None, h2) \<Rightarrow>
               (case slaveLeftovers E h2 of
                  (Inl t, h3) \<Rightarrow> (Inl t, h3)
                | (Inr ss1, h3) \<Rightarrow>
                    if ss1 = [] then (Inr [], h3)
                    else (case repairSlaves E ss1 h3 of (ss2, h4) \<Rightarrow> (Inr ss2, h4)))))"

subsection \<open>The reset\<close>

record reset_outcome =
  ro_Left :: "string list"
  ro_Stranded :: "stranded list"

definition master_clean :: "reset_env \<Rightarrow> reset_event list \<Rightarrow> (string + reset_outcome) \<times> reset_event list" where
  "master_clean E h =
     (case strandedOnSlaves E h of
        (Inl t, h1) \<Rightarrow> (Inl t, h1)
      | (Inr ss, h1) \<Rightarrow> (Inr \<lparr>ro_Left = [], ro_Stranded = ss\<rparr>, h1))"

fun reset_passes :: "nat \<Rightarrow> reset_env \<Rightarrow> reset_event list \<Rightarrow> (string + reset_outcome) \<times> reset_event list" where
  "reset_passes 0 E h =
     (case remaining_objects E h of
        (Inl t, h1) \<Rightarrow> (Inl t, h1)
      | (Inr left, h1) \<Rightarrow>
          if left = [] then master_clean E h1
          else (Inr \<lparr>ro_Left = leftoverNames left, ro_Stranded = []\<rparr>, h1))"
| "reset_passes (Suc n) E h =
     (case remaining_objects E h of
        (Inl t, h1) \<Rightarrow> (Inl t, h1)
      | (Inr left, h1) \<Rightarrow>
          if left = [] then master_clean E h1
          else (case call_pair E (MasterBatch (csql_call (re_db E) (bt_script (newBatch (map drop_statement left))))) h1 of
             (Inl t, h2) \<Rightarrow> (Inl t, h2)
           | (Inr _, h2) \<Rightarrow>
               (case remaining_objects E h2 of
                  (Inl t, h3) \<Rightarrow> (Inl t, h3)
                | (Inr after, h3) \<Rightarrow>
                    if length left \<le> length after \<and> after \<noteq> []
                    then (Inr \<lparr>ro_Left = leftoverNames after, ro_Stranded = []\<rparr>, h3)
                    else reset_passes n E h3)))"

definition Reset :: "reset_env \<Rightarrow> reset_event list \<Rightarrow> (string + reset_outcome) \<times> reset_event list" where
  "Reset E h = reset_passes 5 E h"

end
