(* ===== verification/Harepl_Reset_Claims.thy ===== *)
theory Harepl_Reset_Claims
  imports Harepl_Reset
begin

text \<open>
  What a reset reports: its answer about the master is that of its last catalog read, an object it
  calls repaired was read as gone after a drop, and it sends a bounded number of scripts.
\<close>

subsection \<open>Histories\<close>

fun is_batch :: "reset_event \<Rightarrow> bool" where
  "is_batch (Called (MasterBatch s) a) = True"
| "is_batch e = False"

fun catalog_answer :: "reset_event \<Rightarrow> (string + string) option" where
  "catalog_answer (Called (MasterCatalog q) a) = Some a"
| "catalog_answer e = None"

text \<open>The event is a call that failed, and the text is that call's error as the code passes it on.\<close>

definition fails_with :: "reset_env \<Rightarrow> string \<Rightarrow> reset_event \<Rightarrow> bool" where
  "fails_with E t e \<longleftrightarrow> (\<exists>c u. e = Called c (Inl u) \<and>
     t = (case c of SlaveCatalog k q \<Rightarrow> ''asking '' @ re_slaves E ! k @ '' what it still holds: '' @ u | _ \<Rightarrow> u))"

lemma fails_with_simps [simp]:
  "fails_with E t (Called (MasterCatalog q) (Inl u)) = (t = u)"
  "fails_with E t (Called (MasterBatch q) (Inl u)) = (t = u)"
  "fails_with E t (Called (SlaveCatalog k q) (Inl u)) =
     (t = ''asking '' @ re_slaves E ! k @ '' what it still holds: '' @ u)"
  by (auto simp: fails_with_def)

fun slave_failed :: "reset_event \<Rightarrow> bool" where
  "slave_failed (Called (SlaveCatalog k q) (Inl t)) = True"
| "slave_failed e = False"

definition last_catalog :: "reset_event list \<Rightarrow> (string + string) option" where
  "last_catalog h = (case List.map_filter catalog_answer (rev h) of [] \<Rightarrow> None | a # _ \<Rightarrow> Some a)"

definition gone :: "reset_env \<Rightarrow> reset_event list \<Rightarrow> stranded \<Rightarrow> bool" where
  "gone E es s \<longleftrightarrow> (\<exists>es1 es2 k q out. es = es1 @ Called (SlaveCatalog k q) (Inr out) # es2 \<and>
     list_ex is_batch es1 \<and> k < length (re_slaves E) \<and> re_slaves E ! k = sd_Node s \<and>
     stranded_key s \<notin> stranded_key ` set (stranded_in (sd_Node s) out))"

definition batches :: "reset_event list \<Rightarrow> nat" where
  "batches es = length (filter is_batch es)"

lemma batches_simps [simp]:
  "batches [] = 0" "batches (e # es) = (if is_batch e then 1 else 0) + batches es"
  "batches (es @ fs) = batches es + batches fs"
  by (simp_all add: batches_def)

lemma last_catalog_snoc [simp]:
  "last_catalog (h @ [e]) = (case catalog_answer e of None \<Rightarrow> last_catalog h | Some a \<Rightarrow> Some a)"
  by (simp add: last_catalog_def map_filter_simps split: option.split)

lemma last_catalog_quiet: "\<forall>e \<in> set es. catalog_answer e = None \<Longrightarrow> last_catalog (h @ es) = last_catalog h"
proof (induction es rule: rev_induct)
  case (snoc e es)
  then show ?case using last_catalog_snoc [of "h @ es" e] by simp
qed simp

lemma gone_append: "gone E es s \<Longrightarrow> gone E (xs @ es) s" "gone E es s \<Longrightarrow> gone E (es @ xs) s"
  unfolding gone_def
  by (metis append.assoc list_ex_append, metis append.assoc append_Cons)

lemma gone_same: "sd_Node s' = sd_Node s \<Longrightarrow> stranded_key s' = stranded_key s \<Longrightarrow> gone E es s' = gone E es s"
  by (simp add: gone_def)

subsection \<open>Reading the slaves\<close>

abbreviation slave_read :: "reset_env \<Rightarrow> nat \<times> string \<Rightarrow> reset_event" where
  "slave_read E x \<equiv> Called (SlaveCatalog (fst x) (catalog_call (re_db E) resetQuery)) (Inr (snd x))"

lemma slaves_from_is:
  assumes "slaves_from E i nodes h = (r, h')" "nodes = drop i (re_slaves E)"
  shows "\<exists>es. h' = h @ es \<and> batches es = 0 \<and> (\<forall>e \<in> set es. catalog_answer e = None) \<and>
    (case r of
       Inl t \<Rightarrow> es \<noteq> [] \<and> fails_with E t (last es) \<and> list_ex slave_failed es
     | Inr ss \<Rightarrow> \<exists>outs. length outs = length nodes \<and> es = map (slave_read E) (enumerate i outs) \<and>
         ss = concat (map (\<lambda>(node, out). stranded_in node out) (zip nodes outs)))"
  using assms
proof (induction nodes arbitrary: i h r h')
  case Nil
  then show ?case by (intro exI [of _ "[]"]) auto
next
  case (Cons node nodes)
  let ?c = "SlaveCatalog i (catalog_call (re_db E) resetQuery)"
  have at: "re_slaves E ! i = node" "nodes = drop (i + 1) (re_slaves E)"
    using Cons.prems(2) by (metis nth_via_drop, metis Suc_eq_plus1 drop_Suc list.sel(3) tl_drop)
  show ?case
  proof (cases "re_run E h ?c")
    case (Inl t)
    then show ?thesis using Cons.prems at
      by (intro exI [of _ "[Called ?c (Inl t)]"]) (auto simp: call_pair_def Let_def)
  next
    case (Inr out)
    let ?e = "Called ?c (Inr out)"
    obtain r1 h1 where rec: "slaves_from E (i + 1) nodes (h @ [?e]) = (r1, h1)"
      by (cases "slaves_from E (i + 1) nodes (h @ [?e])")
    obtain es where es: "h1 = (h @ [?e]) @ es" "batches es = 0" "\<forall>e \<in> set es. catalog_answer e = None"
      and c: "case r1 of
         Inl t \<Rightarrow> es \<noteq> [] \<and> fails_with E t (last es) \<and> list_ex slave_failed es
       | Inr ss \<Rightarrow> \<exists>outs. length outs = length nodes \<and> es = map (slave_read E) (enumerate (i + 1) outs) \<and>
           ss = concat (map (\<lambda>(node, out). stranded_in node out) (zip nodes outs))"
      using Cons.IH [OF rec at(2)] by blast
    have r: "h' = h @ ?e # es" "r = (case r1 of Inl t \<Rightarrow> Inl t | Inr ss \<Rightarrow> Inr (stranded_in node out @ ss))"
      using Cons.prems(1) Inr rec es(1) by (auto simp: call_pair_def Let_def split: sum.splits)
    show ?thesis
    proof (cases r1)
      case (Inl t)
      then show ?thesis using r es c by (intro exI [of _ "?e # es"]) auto
    next
      case r1: (Inr ss)
      then obtain outs where outs: "length outs = length nodes" "es = map (slave_read E) (enumerate (i + 1) outs)"
          "ss = concat (map (\<lambda>(node, out). stranded_in node out) (zip nodes outs))"
        using c by auto
      have "\<exists>outs'. length outs' = length (node # nodes) \<and> ?e # es = map (slave_read E) (enumerate i outs') \<and>
          stranded_in node out @ ss = concat (map (\<lambda>(node, out). stranded_in node out) (zip (node # nodes) outs'))"
        using outs by (intro exI [of _ "out # outs"]) simp
      then show ?thesis using r r1 es by (intro exI [of _ "?e # es"]) auto
    qed
  qed
qed

lemma slave_listed:
  assumes "length outs = length nodes" and "k < length nodes"
  shows "set (stranded_in (nodes ! k) (outs ! k)) \<subseteq>
    set (concat (map (\<lambda>(node, out). stranded_in node out) (zip nodes outs)))"
proof -
  have "(nodes ! k, outs ! k) \<in> set (zip nodes outs)" using assms by (auto simp: set_zip)
  then show ?thesis by auto
qed

lemma map_filter_member: "y \<in> set (List.map_filter f xs) \<longleftrightarrow> (\<exists>x \<in> set xs. f x = Some y)"
  by (induction xs) (auto simp: map_filter_simps split: option.splits)

lemma stranded_in_fresh:
  assumes "s \<in> set (stranded_in node out)"
  shows "sd_Node s = node \<and> is_open s"
proof -
  obtain row where row: "(case catalog_row row of
         None \<Rightarrow> None
       | Some (w, n) \<Rightarrow>
           if contains (to_lower n) (''['' @ markerPrefix) then None
           else Some \<lparr>sd_Node = node, sd_Word = to_upper w, sd_Name = n, sd_Repaired = False, sd_Why = []\<rparr>) = Some s"
    using assms unfolding stranded_in_def map_filter_member by blast
  then show ?thesis by (cases "catalog_row row") (auto simp: is_open_def split: if_splits)
qed

lemma slaveLeftovers_is:
  assumes "slaveLeftovers E h = (r, h')"
  shows "\<exists>es. h' = h @ es \<and> batches es = 0 \<and> (\<forall>e \<in> set es. catalog_answer e = None) \<and>
    (case r of
       Inl t \<Rightarrow> es \<noteq> [] \<and> fails_with E t (last es) \<and> list_ex slave_failed es
     | Inr ss \<Rightarrow> (\<forall>s \<in> set ss. sd_Node s \<in> set (re_slaves E) \<and> is_open s) \<and>
         (\<forall>s. sd_Node s \<in> set (re_slaves E) \<longrightarrow> stranded_key s \<notin> stranded_key ` set ss \<longrightarrow>
            (\<forall>es1. list_ex is_batch es1 \<longrightarrow> gone E (es1 @ es) s)))"
proof -
  obtain es where es: "h' = h @ es" "batches es = 0" "\<forall>e \<in> set es. catalog_answer e = None"
    and c: "case r of
         Inl t \<Rightarrow> es \<noteq> [] \<and> fails_with E t (last es) \<and> list_ex slave_failed es
       | Inr ss \<Rightarrow> \<exists>outs. length outs = length (re_slaves E) \<and> es = map (slave_read E) (enumerate 0 outs) \<and>
           ss = concat (map (\<lambda>(node, out). stranded_in node out) (zip (re_slaves E) outs))"
    using slaves_from_is [OF assms [unfolded slaveLeftovers_def]] by auto
  show ?thesis
  proof (cases r)
    case (Inl t)
    then show ?thesis using es c by auto
  next
    case (Inr ss)
    then obtain outs where outs: "length outs = length (re_slaves E)" "es = map (slave_read E) (enumerate 0 outs)"
        "ss = concat (map (\<lambda>(node, out). stranded_in node out) (zip (re_slaves E) outs))"
      using c by auto
    have "gone E (es1 @ es) s" if s: "sd_Node s \<in> set (re_slaves E)" "stranded_key s \<notin> stranded_key ` set ss"
      and b: "list_ex is_batch es1" for s es1
    proof -
      obtain k where k: "k < length (re_slaves E)" "re_slaves E ! k = sd_Node s"
        using s(1) by (auto simp: in_set_conv_nth)
      let ?ev = "slave_read E (k, outs ! k)"
      have "es ! k = ?ev" "k < length es" using k(1) outs(1,2) by (simp_all add: nth_enumerate_eq)
      then have "es1 @ es = (es1 @ take k es) @ ?ev # drop (Suc k) es"
        using id_take_nth_drop [of k es] by simp
      moreover have "set (stranded_in (sd_Node s) (outs ! k)) \<subseteq> set ss"
        unfolding outs(3) k(2) [symmetric] by (rule slave_listed [OF outs(1) k(1)])
      then have "stranded_key s \<notin> stranded_key ` set (stranded_in (sd_Node s) (outs ! k))" using s(2) by blast
      moreover have "list_ex is_batch (es1 @ take k es)" using b by simp
      ultimately show ?thesis unfolding gone_def using k by (metis fst_conv snd_conv)
    qed
    moreover have "\<forall>s \<in> set ss. sd_Node s \<in> set (re_slaves E) \<and> is_open s"
      using outs(3) stranded_in_fresh by (fastforce dest: set_zip_leftD)
    ultimately show ?thesis using es Inr by auto
  qed
qed

subsection \<open>Repairing\<close>

text \<open>An object is repaired, or has a reason, or neither, but never both.\<close>

definition sound :: "reset_env \<Rightarrow> reset_event list \<Rightarrow> stranded \<Rightarrow> bool" where
  "sound E es s \<longleftrightarrow> sd_Node s \<in> set (re_slaves E) \<and> \<not> (sd_Repaired s \<and> sd_Why s \<noteq> []) \<and>
     (sd_Repaired s \<longrightarrow> gone E es s)"

lemma sound_open: "is_open s \<Longrightarrow> sd_Node s \<in> set (re_slaves E) \<Longrightarrow> sound E es s"
  by (simp add: sound_def is_open_def)

lemma sound_append: "sound E es s \<Longrightarrow> sound E (es @ xs) s"
  by (auto simp: sound_def intro: gone_append(2))

lemma sound_mark:
  "\<forall>s \<in> set ss. sound E es s \<Longrightarrow> \<forall>s \<in> set (markUnrepaired why ss). sound E es s"
  by (auto simp: markUnrepaired_def sound_def is_open_def)

lemma mark_closes: "why \<noteq> [] \<Longrightarrow> s \<in> set (markUnrepaired why ss) \<Longrightarrow> \<not> is_open s"
  by (auto simp: markUnrepaired_def is_open_def split: if_splits)

lemma sound_give_up: "\<forall>s \<in> set ss. sound E es s \<Longrightarrow> \<forall>s \<in> set (map give_up ss). sound E es s"
  by (auto simp: give_up_def sound_def is_open_def)

lemma settled_sound:
  assumes "sound E es s" and "stranded_key s \<notin> set still \<Longrightarrow> sd_Node s \<in> set (re_slaves E) \<Longrightarrow> gone E es s"
  shows "sound E es (settle_repair still s)"
proof (cases "is_open s \<and> stranded_key s \<notin> set still")
  case True
  let ?t = "s\<lparr>sd_Repaired := True\<rparr>"
  have "sd_Node s \<in> set (re_slaves E)" using assms(1) by (simp add: sound_def)
  then have "gone E es s" using True by (intro assms(2)) auto
  moreover have "gone E es ?t = gone E es s" by (rule gone_same) (simp_all add: stranded_key_def)
  ultimately show ?thesis using True assms(1) by (simp add: settle_repair_def sound_def is_open_def)
next
  case False
  then have "settle_repair still s = s" unfolding settle_repair_def by (rule if_not_P)
  then show ?thesis using assms(1) by simp
qed

fun pass_objects :: "pass_end \<Rightarrow> stranded list" where
  "pass_objects (Onward ss) = ss"
| "pass_objects (LeaveLoop ss) = ss"
| "pass_objects (Return ss) = ss"

definition says_why :: "reset_env \<Rightarrow> bool" where
  "says_why E \<longleftrightarrow> (\<forall>h c t. re_run E h c = Inl t \<longrightarrow> t \<noteq> [])"

lemma repair_pass_is:
  assumes "repair_pass E ss h = (r, h')" and s: "\<forall>s \<in> set ss. sound E es s"
  shows "\<exists>fs. h' = h @ fs \<and> batches fs \<le> 1 \<and> (\<forall>e \<in> set fs. catalog_answer e = None) \<and>
    (\<forall>s \<in> set (pass_objects r). sound E (es @ fs) s) \<and>
    (\<forall>ss'. r = Return ss' \<longrightarrow> says_why E \<longrightarrow> list_ex slave_failed fs \<or> (\<forall>s \<in> set ss'. \<not> is_open s))"
proof -
  define ds where "ds = concat (map repair_drops ss)"
  define gs where "gs = map give_up ss"
  let ?c = "MasterBatch (csql_call (re_db E) (bt_script (newBatch ds)))"
  have g: "\<forall>s \<in> set gs. sound E es s" unfolding gs_def by (rule sound_give_up [OF s])
  note rp = assms(1) [unfolded repair_pass_def Let_def, folded ds_def gs_def]
  show ?thesis
  proof (cases "ds = []")
    case True
    then show ?thesis using rp g by (intro exI [of _ "[]"]) auto
  next
    case drops: False
    show ?thesis
    proof (cases "re_run E h ?c")
      case (Inl t)
      have "r = Return (markUnrepaired t gs)" "h' = h @ [Called ?c (Inl t)]"
        using rp drops Inl by (simp_all add: call_pair_def Let_def)
      moreover have "says_why E \<Longrightarrow> t \<noteq> []" using Inl by (auto simp: says_why_def)
      ultimately show ?thesis
        using sound_mark [OF g, of t] mark_closes [of t _ gs] sound_append
        by (intro exI [of _ "[Called ?c (Inl t)]"]) fastforce
    next
      case (Inr out)
      let ?h1 = "h @ [Called ?c (Inr out)]"
      show ?thesis
      proof (cases "re_wait E ?h1")
        case (Some e)
        let ?why = "''the repair did not reach the slave within '' @ slaveCatchUp_text"
        have "r = Return (markUnrepaired ?why gs)" "h' = ?h1 @ [Crossed (Some e)]"
          using rp drops Inr Some
          by (simp_all add: call_pair_def Let_def cross_pair_def del: append_assoc)
        moreover have "?why \<noteq> []" by simp
        ultimately show ?thesis
          using sound_mark [OF g, of ?why] mark_closes [of ?why _ gs] sound_append
          by (intro exI [of _ "[Called ?c (Inr out), Crossed (Some e)]"]) fastforce
      next
        case None
        let ?h2 = "?h1 @ [Crossed None]"
        obtain rr h3 where sl: "slaveLeftovers E ?h2 = (rr, h3)" by (cases "slaveLeftovers E ?h2")
        obtain xs where xs: "h3 = ?h2 @ xs" "batches xs = 0" "\<forall>e \<in> set xs. catalog_answer e = None"
          and c: "case rr of
             Inl t \<Rightarrow> xs \<noteq> [] \<and> fails_with E t (last xs) \<and> list_ex slave_failed xs
           | Inr ss \<Rightarrow> (\<forall>s \<in> set ss. sd_Node s \<in> set (re_slaves E) \<and> is_open s) \<and>
               (\<forall>s. sd_Node s \<in> set (re_slaves E) \<longrightarrow> stranded_key s \<notin> stranded_key ` set ss \<longrightarrow>
                  (\<forall>es1. list_ex is_batch es1 \<longrightarrow> gone E (es1 @ xs) s))"
          using slaveLeftovers_is [OF sl] by blast
        let ?fs = "[Called ?c (Inr out), Crossed None] @ xs"
        have base: "h3 = h @ ?fs" "batches ?fs \<le> 1" "\<forall>e \<in> set ?fs. catalog_answer e = None"
          using xs by auto
        show ?thesis
        proof (cases rr)
          case (Inl t)
          have "r = Return gs" "h' = h3"
            using rp drops Inr None sl Inl
            by (simp_all add: call_pair_def Let_def cross_pair_def del: append_assoc)
          moreover have "list_ex slave_failed ?fs" using c Inl by auto
          ultimately show ?thesis using base g sound_append by (intro exI [of _ ?fs]) auto
        next
          case rr: (Inr after)
          let ?ss2 = "map (settle_repair (map stranded_key after)) gs"
          have r: "h' = h3" "r = (if ?ss2 = gs then LeaveLoop ?ss2 else Onward ?ss2)"
            using rp drops Inr None sl rr
            by (auto simp add: call_pair_def Let_def cross_pair_def simp del: append_assoc)
          have "sound E (es @ ?fs) (settle_repair (map stranded_key after) s)" if "s \<in> set gs" for s
          proof (rule settled_sound)
            show "sound E (es @ ?fs) s" using g that sound_append by blast
            assume k: "stranded_key s \<notin> set (map stranded_key after)" "sd_Node s \<in> set (re_slaves E)"
            have b: "list_ex is_batch (es @ [Called ?c (Inr out), Crossed None])" by simp
            have "\<forall>es1. list_ex is_batch es1 \<longrightarrow> gone E (es1 @ xs) s" using c rr k by simp
            from this [rule_format, OF b]
            show "gone E (es @ ?fs) s" by simp
          qed
          then have "\<forall>s \<in> set ?ss2. sound E (es @ ?fs) s" by (simp only: set_map ball_simps) blast
          moreover have "pass_objects r = ?ss2" using r(2) by (cases "?ss2 = gs") simp_all
          ultimately have "\<forall>s \<in> set (pass_objects r). sound E (es @ ?fs) s" by (simp only:)
          moreover have "\<forall>ss'. r \<noteq> Return ss'" using r(2) by auto
          ultimately show ?thesis using base r(1) by (intro exI [of _ ?fs]) simp
        qed
      qed
    qed
  qed
qed

lemma repair_passes_is:
  assumes "repair_passes n E ss h = (ss', h')" and "\<forall>s \<in> set ss. sound E es s"
  shows "\<exists>fs. h' = h @ fs \<and> batches fs \<le> n \<and> (\<forall>e \<in> set fs. catalog_answer e = None) \<and>
    (\<forall>s \<in> set ss'. sound E (es @ fs) s) \<and>
    (says_why E \<longrightarrow> list_ex slave_failed fs \<or> (\<forall>s \<in> set ss'. \<not> is_open s))"
  using assms
proof (induction n arbitrary: ss h es)
  case 0
  then show ?case
    using sound_mark [OF "0.prems"(2), of unremoved] mark_closes [of unremoved _ ss]
    by (intro exI [of _ "[]"]) (auto simp: unremoved_def)
next
  case (Suc n)
  obtain r h1 where rp: "repair_pass E ss h = (r, h1)" by (cases "repair_pass E ss h")
  obtain fs where fs: "h1 = h @ fs" "batches fs \<le> 1" "\<forall>e \<in> set fs. catalog_answer e = None"
      "\<forall>s \<in> set (pass_objects r). sound E (es @ fs) s"
    and ret: "\<forall>ss'. r = Return ss' \<longrightarrow> says_why E \<longrightarrow> list_ex slave_failed fs \<or> (\<forall>s \<in> set ss'. \<not> is_open s)"
    using repair_pass_is [OF rp Suc.prems(2)] by blast
  show ?case
  proof (cases r)
    case (Onward ss1)
    then have "repair_passes n E ss1 h1 = (ss', h')" using Suc.prems(1) rp by simp
    from Suc.IH [OF this, of "es @ fs"] obtain gs where gs: "h' = h1 @ gs" "batches gs \<le> n"
        "\<forall>e \<in> set gs. catalog_answer e = None" "\<forall>s \<in> set ss'. sound E ((es @ fs) @ gs) s"
        "says_why E \<longrightarrow> list_ex slave_failed gs \<or> (\<forall>s \<in> set ss'. \<not> is_open s)"
      using fs(4) Onward by auto
    then show ?thesis using fs(1-3) by (intro exI [of _ "fs @ gs"]) auto
  next
    case (LeaveLoop ss1)
    then have "ss' = markUnrepaired unremoved ss1" "h' = h1" using Suc.prems(1) rp by simp_all
    then show ?thesis
      using fs sound_mark [of ss1 E "es @ fs" unremoved] mark_closes [of unremoved _ ss1] LeaveLoop
      by (intro exI [of _ fs]) (auto simp: unremoved_def)
  next
    case (Return ss1)
    then have "ss' = ss1" "h' = h1" using Suc.prems(1) rp by simp_all
    then show ?thesis using fs ret Return by (intro exI [of _ fs]) auto
  qed
qed

lemma stranded_is:
  assumes "strandedOnSlaves E h = (r, h')"
  shows "\<exists>fs. h' = h @ fs \<and> batches fs \<le> 5 \<and> (\<forall>e \<in> set fs. catalog_answer e = None) \<and>
    (case r of
       Inl t \<Rightarrow> fs \<noteq> [] \<and> fails_with E t (last fs)
     | Inr ss \<Rightarrow> (\<forall>s \<in> set ss. sound E fs s) \<and>
         (says_why E \<longrightarrow> list_ex slave_failed fs \<or> (\<forall>s \<in> set ss. \<not> is_open s)))"
proof -
  let ?lag = "''no marker crossed, so this may be lag rather than divergence''"
  obtain r1 h1 where s1: "slaveLeftovers E h = (r1, h1)" by (cases "slaveLeftovers E h")
  obtain xs where xs: "h1 = h @ xs" "batches xs = 0" "\<forall>e \<in> set xs. catalog_answer e = None"
    and c: "case r1 of Inl t \<Rightarrow> xs \<noteq> [] \<and> fails_with E t (last xs)
      | Inr ss \<Rightarrow> \<forall>s \<in> set ss. sd_Node s \<in> set (re_slaves E) \<and> is_open s"
    using slaveLeftovers_is [OF s1] by (cases r1) auto
  show ?thesis
  proof (cases r1)
    case (Inl t)
    then show ?thesis using assms s1 xs c by (intro exI [of _ xs]) (auto simp: strandedOnSlaves_def)
  next
    case r1: (Inr ss)
    show ?thesis
    proof (cases "ss = []")
      case True
      then show ?thesis using assms s1 xs r1 by (intro exI [of _ xs]) (auto simp: strandedOnSlaves_def)
    next
      case ss: False
      show ?thesis
      proof (cases "re_wait E h1")
        case (Some e)
        then show ?thesis using assms s1 xs c r1 ss
          by (intro exI [of _ "xs @ [Crossed (Some e)]"])
            (auto simp: strandedOnSlaves_def cross_pair_def Let_def sound_def is_open_def)
      next
        case None
        let ?h2 = "h1 @ [Crossed None]"
        obtain r3 h3 where s3: "slaveLeftovers E ?h2 = (r3, h3)" by (cases "slaveLeftovers E ?h2")
        obtain ys where ys: "h3 = ?h2 @ ys" "batches ys = 0" "\<forall>e \<in> set ys. catalog_answer e = None"
          and d: "case r3 of Inl t \<Rightarrow> ys \<noteq> [] \<and> fails_with E t (last ys)
            | Inr ss \<Rightarrow> \<forall>s \<in> set ss. sd_Node s \<in> set (re_slaves E) \<and> is_open s"
          using slaveLeftovers_is [OF s3] by (cases r3) auto
        let ?fs = "xs @ Crossed None # ys"
        have whole: "(case r3 of Inl t \<Rightarrow> (Inl t, h3)
            | Inr ss1 \<Rightarrow> if ss1 = [] then (Inr [], h3)
                else (case repairSlaves E ss1 h3 of (ss2, h4) \<Rightarrow> (Inr ss2, h4))) = (r, h')"
          using assms s1 r1 ss None s3 by (simp add: strandedOnSlaves_def cross_pair_def Let_def split: sum.splits)
        have base: "h3 = h @ ?fs" "batches ?fs = 0" "\<forall>e \<in> set ?fs. catalog_answer e = None"
          using xs ys by auto
        show ?thesis
        proof (cases "r3 = Inr [] \<or> (\<exists>t. r3 = Inl t)")
          case True
          then show ?thesis using whole base d by (intro exI [of _ ?fs]) auto
        next
          case False
          then obtain ss1 where r3: "r3 = Inr ss1" "ss1 \<noteq> []" by (cases r3) auto
          obtain ss2 h4 where rp: "repair_passes 5 E ss1 h3 = (ss2, h4)" by (cases "repair_passes 5 E ss1 h3")
          have "\<forall>s \<in> set ss1. sound E ?fs s" using d r3 sound_open by auto
          from repair_passes_is [OF rp this] obtain gs where gs: "h4 = h3 @ gs" "batches gs \<le> 5"
              "\<forall>e \<in> set gs. catalog_answer e = None" "\<forall>s \<in> set ss2. sound E (?fs @ gs) s"
              "says_why E \<longrightarrow> list_ex slave_failed gs \<or> (\<forall>s \<in> set ss2. \<not> is_open s)" by blast
          have "r = Inr ss2" "h' = h4" using whole r3 rp by (simp_all add: repairSlaves_def)
          then show ?thesis using base gs by (intro exI [of _ "?fs @ gs"]) auto
        qed
      qed
    qed
  qed
qed

subsection \<open>The reset\<close>

lemma master_clean_is:
  assumes "master_clean E h = (r, h')"
  shows "\<exists>fs. h' = h @ fs \<and> batches fs \<le> 5 \<and> (\<forall>e \<in> set fs. catalog_answer e = None) \<and>
    (case r of
       Inl t \<Rightarrow> fs \<noteq> [] \<and> fails_with E t (last fs)
     | Inr o' \<Rightarrow> ro_Left o' = [] \<and> (\<forall>s \<in> set (ro_Stranded o'). sound E fs s) \<and>
         (says_why E \<longrightarrow> list_ex slave_failed fs \<or> (\<forall>s \<in> set (ro_Stranded o'). \<not> is_open s)))"
proof -
  obtain r1 h1 where s: "strandedOnSlaves E h = (r1, h1)" by (cases "strandedOnSlaves E h")
  show ?thesis
    using stranded_is [OF s] assms s by (cases r1) (auto simp: master_clean_def)
qed

definition reported :: "reset_env \<Rightarrow> (string + reset_outcome) \<Rightarrow> reset_event list \<Rightarrow> bool" where
  "reported E r h =
     (case r of
        Inl t \<Rightarrow> h \<noteq> [] \<and> fails_with E t (last h)
      | Inr o' \<Rightarrow> (\<exists>out. last_catalog h = Some (Inr out) \<and> ro_Left o' = leftoverNames (leftovers_in out)))"

definition all_told :: "reset_env \<Rightarrow> (string + reset_outcome) \<Rightarrow> reset_event list \<Rightarrow> bool" where
  "all_told E r h =
     (case r of
        Inl t \<Rightarrow> True
      | Inr o' \<Rightarrow> (\<forall>s \<in> set (ro_Stranded o'). sound E h s) \<and>
         (says_why E \<longrightarrow> list_ex slave_failed h \<or> (\<forall>s \<in> set (ro_Stranded o'). \<not> is_open s)))"

lemma master_clean_reports:
  assumes "master_clean E h = (r, h')" and "last_catalog h = Some (Inr out)" and "leftovers_in out = []"
  shows "reported E r h' \<and> all_told E r h' \<and> batches h' \<le> batches h + 5"
proof -
  obtain fs where fs: "h' = h @ fs" "batches fs \<le> 5" "\<forall>e \<in> set fs. catalog_answer e = None"
    and c: "case r of
       Inl t \<Rightarrow> fs \<noteq> [] \<and> fails_with E t (last fs)
     | Inr o' \<Rightarrow> ro_Left o' = [] \<and> (\<forall>s \<in> set (ro_Stranded o'). sound E fs s) \<and>
         (says_why E \<longrightarrow> list_ex slave_failed fs \<or> (\<forall>s \<in> set (ro_Stranded o'). \<not> is_open s))"
    using master_clean_is [OF assms(1)] by blast
  have "sound E (h @ fs) s" if "sound E fs s" for s
    using that by (auto simp: sound_def intro: gone_append(1))
  then show ?thesis
    using fs c assms(2,3) last_catalog_quiet [OF fs(3), of h]
    by (cases r) (auto simp: reported_def all_told_def leftoverNames_def)
qed

lemma remaining_is:
  assumes "remaining_objects E h = (r, h1)"
  shows "\<exists>a. h1 = h @ [Called (MasterCatalog (catalog_call (re_db E) resetQuery)) a] \<and>
    (case a of Inl t \<Rightarrow> r = Inl t | Inr out \<Rightarrow> r = Inr (leftovers_in out))"
  using assms by (auto simp: remaining_objects_def call_pair_def Let_def split: sum.splits)

lemma left_reports:
  "last_catalog h = Some (Inr out) \<Longrightarrow>
   reported E (Inr \<lparr>ro_Left = leftoverNames (leftovers_in out), ro_Stranded = []\<rparr>) h \<and>
   all_told E (Inr \<lparr>ro_Left = leftoverNames (leftovers_in out), ro_Stranded = []\<rparr>) h"
  by (auto simp: reported_def all_told_def)

lemma reset_passes_is:
  "reset_passes n E h = (r, h') \<Longrightarrow> reported E r h' \<and> all_told E r h' \<and> batches h' \<le> batches h + n + 5"
proof (induction n arbitrary: h)
  case 0
  obtain r1 h1 where q: "remaining_objects E h = (r1, h1)" by (cases "remaining_objects E h")
  obtain a where a: "h1 = h @ [Called (MasterCatalog (catalog_call (re_db E) resetQuery)) a]"
      "case a of Inl t \<Rightarrow> r1 = Inl t | Inr out \<Rightarrow> r1 = Inr (leftovers_in out)"
    using remaining_is [OF q] by blast
  show ?case
  proof (cases a)
    case (Inl t)
    then show ?thesis using 0 q a by (auto simp: reported_def all_told_def)
  next
    case (Inr out)
    then show ?thesis using 0 q a master_clean_reports [of E h1 r h' out]
      by (cases "leftovers_in out = []") (auto simp: reported_def all_told_def)
  qed
next
  case (Suc n)
  obtain r1 h1 where q: "remaining_objects E h = (r1, h1)" by (cases "remaining_objects E h")
  obtain a where a: "h1 = h @ [Called (MasterCatalog (catalog_call (re_db E) resetQuery)) a]"
      "case a of Inl t \<Rightarrow> r1 = Inl t | Inr out \<Rightarrow> r1 = Inr (leftovers_in out)"
    using remaining_is [OF q] by blast
  show ?case
  proof (cases a)
    case (Inl t)
    then show ?thesis using Suc.prems q a by (auto simp: reported_def all_told_def)
  next
    case (Inr out)
    show ?thesis
    proof (cases "leftovers_in out = []")
      case True
      then show ?thesis using Suc.prems q a Inr master_clean_reports [of E h1 r h' out] by auto
    next
      case False
      let ?c = "MasterBatch (csql_call (re_db E) (bt_script (newBatch (map drop_statement (leftovers_in out)))))"
      show ?thesis
      proof (cases "re_run E h1 ?c")
        case (Inl t)
        then show ?thesis using Suc.prems q a Inr False
          by (auto simp: reported_def all_told_def call_pair_def Let_def)
      next
        case b: (Inr reply)
        let ?h2 = "h1 @ [Called ?c (Inr reply)]"
        obtain r3 h3 where q3: "remaining_objects E ?h2 = (r3, h3)" by (cases "remaining_objects E ?h2")
        obtain a3 where a3: "h3 = ?h2 @ [Called (MasterCatalog (catalog_call (re_db E) resetQuery)) a3]"
            "case a3 of Inl t \<Rightarrow> r3 = Inl t | Inr out \<Rightarrow> r3 = Inr (leftovers_in out)"
          using remaining_is [OF q3] by blast
        have w: "(case r3 of Inl t \<Rightarrow> (Inl t, h3)
            | Inr after \<Rightarrow> if length (leftovers_in out) \<le> length after \<and> after \<noteq> []
                then (Inr \<lparr>ro_Left = leftoverNames after, ro_Stranded = []\<rparr>, h3)
                else reset_passes n E h3) = (r, h')"
          using Suc.prems q a Inr False b q3 by (simp add: call_pair_def Let_def split: sum.splits)
        show ?thesis
        proof (cases a3)
          case (Inl t)
          then show ?thesis using w a3 a by (auto simp: reported_def all_told_def)
        next
          case out3: (Inr out3)
          show ?thesis
          proof (cases "length (leftovers_in out) \<le> length (leftovers_in out3) \<and> leftovers_in out3 \<noteq> []")
            case True
            then have e: "h' = h3" "r = Inr \<lparr>ro_Left = leftoverNames (leftovers_in out3), ro_Stranded = []\<rparr>"
              using w a3(2) out3 by auto
            have "last_catalog h3 = Some (Inr out3)" unfolding a3(1) last_catalog_snoc out3 by simp
            moreover have "batches h3 = batches h + 1" using a3(1) a(1) by simp
            ultimately show ?thesis unfolding e using left_reports by simp
          next
            case False
            then have "reset_passes n E h3 = (r, h')" using w a3 out3 by auto
            from Suc.IH [OF this] show ?thesis using a3 a by auto
          qed
        qed
      qed
    qed
  qed
qed

text \<open>
  C37: What a reset says about the master is what its last catalog read said: it reports the database
  clean only when that read listed nothing, names what is left exactly as that read did, and when it returns
  an error, its last call failed and the error is that call's, a slave's with the slave's name before it.
\<close>

theorem reset_reports_what_it_read:
  "reported E (fst (Reset E h)) (snd (Reset E h))"
  using reset_passes_is [of 5 E h] unfolding Reset_def by (metis prod.collapse)

text \<open>
  A reset sends at most ten scripts of drops to the master, however the pair answers.
\<close>

theorem reset_is_bounded: "batches (snd (Reset E h)) \<le> batches h + 10"
  using reset_passes_is [of 5 E h] unfolding Reset_def by (metis add.assoc numeral_Bit0 prod.collapse)

text \<open>
  C35: When a reset reports objects a slave held and the master did not, none is both repaired and given
  a reason, and one called repaired was missing from a reading of its slave made after a script of
  drops. If every reading of a slave succeeded, and errors have a text, each is one or the other.
\<close>

theorem repaired_was_read_gone:
  assumes "Reset E h = (Inr o', h')" and "s \<in> set (ro_Stranded o')"
  shows "\<not> (sd_Repaired s \<and> sd_Why s \<noteq> []) \<and> (sd_Repaired s \<longrightarrow> gone E h' s) \<and>
    (says_why E \<and> \<not> list_ex slave_failed h' \<longrightarrow> sd_Repaired s \<or> sd_Why s \<noteq> [])"
  using reset_passes_is [of 5 E h "Inr o'" h'] assms
  by (auto simp: Reset_def all_told_def sound_def is_open_def)

definition stray_pair :: reset_env where
  "stray_pair = \<lparr>re_db = ''d'', re_slaves = [''s1''],
     re_run = (\<lambda>h c. case c of SlaveCatalog k q \<Rightarrow> Inr (if list_ex is_batch h then [] else ''TABLE [DBA].[t]'') | _ \<Rightarrow> Inr []),
     re_wait = (\<lambda>h. None)\<rparr>"

lemma stray_rows:
  "parseTableList [] = []" "leftovers_in [] = []" "stranded_in ''s1'' [] = []"
  "stranded_in ''s1'' ''TABLE [DBA].[t]'' =
     [\<lparr>sd_Node = ''s1'', sd_Word = ''TABLE'', sd_Name = ''[DBA].[t]'', sd_Repaired = False, sd_Why = []\<rparr>]"
  by (simp_all add: parseTableList_def leftovers_in_def stranded_in_def noise_def catalog_row_def bare_def
      trim_space_trimmed graphic_trimmed graphic_def char_nat_def trim_of_def trim_left_of_def trim_right_of_def
      control markerPrefix_def to_lower_def lower_char_def to_upper_def upper_char_def sublist_Cons_right
      char_of_def bit_0 map_filter_simps SQ_def)

lemma stray_repaired:
  "\<exists>o' h'. Reset stray_pair [] = (Inr o', h') \<and> \<not> list_ex slave_failed h' \<and> ro_Left o' = [] \<and>
     ro_Stranded o' = [\<lparr>sd_Node = ''s1'', sd_Word = ''TABLE'', sd_Name = ''[DBA].[t]'', sd_Repaired = True, sd_Why = []\<rparr>]"
proof -
  have calls: "call_pair stray_pair (MasterCatalog q) h = (Inr [], h @ [Called (MasterCatalog q) (Inr [])])"
    "call_pair stray_pair (MasterBatch q) h = (Inr [], h @ [Called (MasterBatch q) (Inr [])])"
    "call_pair stray_pair (SlaveCatalog k q) h = (let a = Inr (if list_ex is_batch h then [] else ''TABLE [DBA].[t]'')
      in (a, h @ [Called (SlaveCatalog k q) a]))"
    "cross_pair stray_pair h = (None, h @ [Crossed None])" "re_slaves stray_pair = [''s1'']" for q h k
    by (simp_all add: call_pair_def cross_pair_def stray_pair_def Let_def)
  show ?thesis
    by (simp add: Reset_def numeral_eq_Suc remaining_objects_def calls stray_rows master_clean_def strandedOnSlaves_def
        slaveLeftovers_def Let_def repairSlaves_def repair_pass_def repair_drops_def is_open_def placeholderFor_def
        give_up_def settle_repair_def markUnrepaired_def)
qed

theorem repaired_was_read_gone_witness:
  "\<exists>o' h' s. Reset stray_pair [] = (Inr o', h') \<and> sd_Node s = ''s1'' \<and> sd_Repaired s \<and> gone stray_pair h' s"
proof -
  obtain o' h' where r: "Reset stray_pair [] = (Inr o', h')" "\<not> list_ex slave_failed h'"
      "ro_Stranded o' = [\<lparr>sd_Node = ''s1'', sd_Word = ''TABLE'', sd_Name = ''[DBA].[t]'', sd_Repaired = True, sd_Why = []\<rparr>]"
    using stray_repaired by blast
  let ?s = "\<lparr>sd_Node = ''s1'', sd_Word = ''TABLE'', sd_Name = ''[DBA].[t]'', sd_Repaired = True, sd_Why = []\<rparr>"
  have "gone stray_pair h' ?s" using repaired_was_read_gone [OF r(1), of ?s] r(3) by simp
  then show ?thesis using r(1) by (intro exI [of _ o'] exI [of _ h'] exI [of _ ?s]) simp
qed

end
