(* ===== verification/Harepl_Ledger.thy ===== *)
theory Harepl_Ledger
  imports Harepl_Compare Plan_Claims "HOL-Library.Signed_Division"
begin

text \<open>
  The verdicts of a run, written as they are reached and read back when it is resumed:
  \<open>ledger.go\<close> in \<open>internal/runner/hareplsuite\<close>. The file is its text, absent when the ledger has
  none; a map from cases to verdicts is an association list with each case once. No line is longer
  than the scanner's buffer of four megabytes. A duration is a count of nanoseconds in 64 bits.
\<close>

record ledger_entry =
  le_Case :: string
  le_Outcome :: string
  le_Detail :: string
  le_Took :: int

definition LedgerFile :: string where "LedgerFile = ''verdicts.tsv''"

text \<open>The outcomes a resumed run judges again.\<close>

definition undecided :: "string \<Rightarrow> bool" where
  "undecided outcome \<longleftrightarrow> outcome = ''wait_timeout'' \<or> outcome = ''case_failed''"

definition ledger_detail :: "string \<Rightarrow> string" where
  "ledger_detail d = replace_all (replace_all d [TAB] '' '') [LF] '' ''"

definition ledger_line :: "ledger_entry \<Rightarrow> string" where
  "ledger_line r =
     le_Case r @ [TAB] @ le_Outcome r @ [TAB] @ ledger_detail (le_Detail r) @ [TAB] @
     itoa (le_Took r sdiv 1000000) @ [LF]"

definition ledger_Write :: "ledger_entry \<Rightarrow> string option \<Rightarrow> string option" where
  "ledger_Write r t = map_option (\<lambda>t. t @ ledger_line r) t"

definition parseLedgerLine :: "string \<Rightarrow> ledger_entry option" where
  "parseLedgerLine line =
     (let f = split_on TAB line in
      if length f < 2 \<or> f ! 0 = [] \<or> f ! 1 = [] then None
      else Some \<lparr>le_Case = f ! 0, le_Outcome = f ! 1, le_Detail = (if 3 \<le> length f then f ! 2 else []),
             le_Took = (if 4 \<le> length f
               then (case atoi (f ! 3) of Some ms \<Rightarrow> signed_take_bit 63 (ms * 1000000) | None \<Rightarrow> 0)
               else 0)\<rparr>)"

definition judge_line :: "string \<Rightarrow> (string \<times> ledger_entry) list \<Rightarrow> (string \<times> ledger_entry) list" where
  "judge_line line m =
     (case parseLedgerLine line of
        None \<Rightarrow> m
      | Some r \<Rightarrow> if undecided (le_Outcome r) then AList.delete (le_Case r) m else AList.update (le_Case r) r m)"

definition Judged :: "string option \<Rightarrow> (string \<times> ledger_entry) list" where
  "Judged t = (case t of None \<Rightarrow> [] | Some t \<Rightarrow> fold judge_line (scan_lines t) [])"

subsection \<open>Round trip\<close>

definition kept_entry :: "ledger_entry \<Rightarrow> ledger_entry" where
  "kept_entry r = r\<lparr>le_Detail := ledger_detail (le_Detail r), le_Took := le_Took r div 1000000 * 1000000\<rparr>"

definition plain_entry :: "ledger_entry \<Rightarrow> bool" where
  "plain_entry r \<longleftrightarrow> le_Case r \<noteq> [] \<and> le_Outcome r \<noteq> [] \<and>
     set (le_Case r @ le_Outcome r) \<inter> {TAB, LF} = {} \<and> 0 \<le> le_Took r \<and> le_Took r \<le> int_hi"

lemma detail_clean: "TAB \<notin> set (ledger_detail d)" "LF \<notin> set (ledger_detail d)"
proof -
  have "TAB \<notin> set (replace_all d [TAB] '' '')" by (rule replace_all_char_away) (simp add: control)
  then show "TAB \<notin> set (ledger_detail d)" by (auto simp: ledger_detail_def replace_all_char control)
  show "LF \<notin> set (ledger_detail d)"
    unfolding ledger_detail_def by (rule replace_all_char_away) (simp add: control)
qed

lemma sdiv_div: "0 \<le> (n::int) \<Longrightarrow> n sdiv 1000000 = n div 1000000"
  by (cases "n = 0") (simp_all add: signed_divide_int_def)

lemma itoa_free: "LF \<notin> set (itoa n)" "TAB \<notin> set (itoa n)" "last (itoa n) \<noteq> CR"
proof -
  have no: "c \<notin> set (itoa n)" if "\<not> is_digit c" "c \<noteq> CHR ''-''" for c
    using itoa_chars [of c n] that by blast
  show "LF \<notin> set (itoa n)" "TAB \<notin> set (itoa n)" 
    using no [of LF] no [of TAB] by (simp_all add: control is_digit_def char_nat_def)
  have "CR \<notin> set (itoa n)" using no [of CR] by (simp add: control is_digit_def char_nat_def)
  then show "last (itoa n) \<noteq> CR" by (metis itoa_not_Nil last_in_set)
qed

definition ledger_text :: "ledger_entry \<Rightarrow> string" where
  "ledger_text r = join_with [TAB] [le_Case r, le_Outcome r, ledger_detail (le_Detail r), itoa (le_Took r sdiv 1000000)]"

lemma ledger_line_text: "ledger_line r = ledger_text r @ [LF]"
  by (simp add: ledger_line_def ledger_text_def)

lemma parse_text:
  assumes "plain_entry r"
  shows "parseLedgerLine (ledger_text r) = Some (kept_entry r)"
proof -
  let ?ms = "le_Took r div 1000000"
  have split: "split_on TAB (ledger_text r) =
      [le_Case r, le_Outcome r, ledger_detail (le_Detail r), itoa (le_Took r sdiv 1000000)]"
    unfolding ledger_text_def using assms itoa_free detail_clean
    by (intro split_join) (auto simp: plain_entry_def)
  have r: "0 \<le> le_Took r" "le_Took r \<le> 9223372036854775807" using assms by (simp_all add: plain_entry_def int_hi_def)
  then have "0 \<le> ?ms" "?ms \<le> 9223372036854775807"
    using zdiv_mono2 [of "le_Took r" 1 1000000] by simp_all
  then have "in_int ?ms" by (simp add: in_int_def int_lo_def int_hi_def)
  then have ms: "atoi (itoa ?ms) = Some ?ms" by (rule atoi_itoa)
  have "0 \<le> ?ms * 1000000 \<and> ?ms * 1000000 < 2 ^ 63" using r by simp
  then have "signed_take_bit 63 (?ms * 1000000) = ?ms * 1000000"
    by (simp add: signed_take_bit_int_eq_self)
  then show ?thesis
    using assms r(1) ms unfolding parseLedgerLine_def Let_def split
    by (simp add: kept_entry_def plain_entry_def sdiv_div)
qed

definition last_verdict :: "ledger_entry list \<Rightarrow> string \<Rightarrow> ledger_entry option" where
  "last_verdict rs c =
     (case find (\<lambda>r. le_Case r = c) (rev rs) of
        None \<Rightarrow> None
      | Some r \<Rightarrow> if undecided (le_Outcome r) then None else Some (kept_entry r))"

lemma find_append: "find P (xs @ ys) = (case find P xs of None \<Rightarrow> find P ys | Some x \<Rightarrow> Some x)"
  by (induction xs) simp_all

lemma find_key: "find (\<lambda>r. f r = c) xs = map_of (map (\<lambda>r. (f r, r)) xs) c"
  by (induction xs) simp_all

text \<open>Of lines about different cases the order does not matter.\<close>

lemma last_verdict_order:
  assumes "mset xs = mset ys" "distinct (map le_Case xs)"
  shows "last_verdict (old @ xs) c = last_verdict (old @ ys) c"
proof -
  have "mset (map le_Case xs) = mset (map le_Case ys)" using assms(1) by simp
  then have d: "distinct (map le_Case ys)" using assms(2) mset_eq_imp_distinct_iff by blast
  have "map_of (map (\<lambda>r. (le_Case r, r)) (rev xs)) = map_of (map (\<lambda>r. (le_Case r, r)) (rev ys))"
    using assms d mset_eq_setD [OF assms(1)]
    by (intro iffD2 [OF map_of_inject_set]) (simp_all add: comp_def distinct_rev flip: rev_map)
  then show ?thesis by (simp add: last_verdict_def find_append find_key)
qed

lemma judge_all:
  "\<forall>r \<in> set rs. plain_entry r \<Longrightarrow> map_of (fold judge_line (map ledger_text rs) []) c = last_verdict rs c"
proof (induction rs rule: rev_induct)
  case Nil
  then show ?case by (simp add: last_verdict_def)
next
  case (snoc r rs)
  have k: "le_Case (kept_entry r) = le_Case r" "le_Outcome (kept_entry r) = le_Outcome r"
    by (simp_all add: kept_entry_def)
  let ?m = "fold judge_line (map ledger_text rs) []"
  have "judge_line (ledger_text r) ?m =
      (if undecided (le_Outcome r) then AList.delete (le_Case r) ?m else AList.update (le_Case r) (kept_entry r) ?m)"
    using parse_text [of r] snoc.prems k by (simp add: judge_line_def)
  then show ?case
    using snoc by (auto simp: last_verdict_def delete_conv' update_conv')
qed

lemma judged_lines:
  assumes "\<forall>r \<in> set rs. plain_entry r"
  shows "Judged (fold ledger_Write rs (Some [])) = fold judge_line (map ledger_text rs) []"
proof -
  have w: "fold ledger_Write rs (Some t) = Some (t @ concat (map (\<lambda>l. l @ [LF]) (map ledger_text rs)))" for t
    by (induction rs arbitrary: t) (simp_all add: ledger_Write_def ledger_line_text)
  have "\<forall>l \<in> set (map ledger_text rs). LF \<notin> set l"
    using assms itoa_free detail_clean by (auto simp: ledger_text_def plain_entry_def control)
  then have "split_on LF (concat (map (\<lambda>l. l @ [LF]) (map ledger_text rs))) = map ledger_text rs @ [[]]"
    by (rule split_lines)
  moreover have "strip_cr (ledger_text r) = ledger_text r" for r
  proof -
    have "last (ledger_text r) \<noteq> CR" using itoa_free(3) by (simp add: ledger_text_def)
    then show ?thesis by (auto simp: strip_cr_def trim_suffix_def suffix_def)
  qed
  ultimately have "scan_lines (concat (map (\<lambda>l. l @ [LF]) (map ledger_text rs))) = map ledger_text rs"
    by (simp add: scan_lines_def comp_def)
  then show ?thesis by (simp add: Judged_def w)
qed

lemma ledger_after:
  assumes "\<forall>r \<in> set rs. plain_entry r"
  shows "map_of (Judged (fold ledger_Write rs (Some []))) c = last_verdict rs c"
  using judge_all [OF assms] by (simp add: judged_lines [OF assms])

text \<open>
  What a run writes to its ledger is what a resumed run reads: of each case the last verdict, in
  whatever order and however often it was judged, and nothing of a case whose last verdict was
  about the run rather than the case. A detail comes back with its tabs and line breaks as spaces,
  a duration in whole milliseconds.
\<close>

theorem ledger_reads_back:
  assumes "\<forall>r \<in> set rs. plain_entry r"
  shows "map_of (Judged (fold ledger_Write rs (Some []))) c = last_verdict rs c"
  using assms by (rule ledger_after)

definition two_verdicts :: "ledger_entry list" where
  "two_verdicts = [\<lparr>le_Case = ''a.sql'', le_Outcome = ''same'', le_Detail = [], le_Took = 1500000\<rparr>,
     \<lparr>le_Case = ''a.sql'', le_Outcome = ''case_failed'', le_Detail = ''x'', le_Took = 0\<rparr>]"

theorem ledger_reads_back_witness: "map_of (Judged (fold ledger_Write two_verdicts (Some []))) ''a.sql'' = None"
proof -
  have "\<forall>r \<in> set two_verdicts. plain_entry r" by (simp add: two_verdicts_def plain_entry_def control int_hi_def)
  from ledger_reads_back [OF this, of "''a.sql''"] show ?thesis
    by (simp add: two_verdicts_def last_verdict_def undecided_def)
qed

end
