(* ===== verification/Sandbox_Pair.thy ===== *)
theory Sandbox_Pair
  imports Topology
begin

text \<open>
  The pair a sandbox cluster describes: \<open>internal/sandbox/topology.go\<close>. The answer of the cluster's
  own program, already read out of its JSON envelope, is a parameter; its text goes through the
  configuration reader and the topology as the code sends it.
\<close>

definition Instance :: string where "Instance = ''instance1''"

record pair_rec =
  pr_Cluster :: string
  pr_Conf :: string
  pr_Instance :: instance_rec
  pr_Master :: string
  pr_Slaves :: "string list"
  pr_DB :: string

datatype describe_error = NoAnswer string | EmptyFragment string | BadConf conf_error | BadTopology string string
  | NoInstance string | ManyInstances string nat | NotAPair string string nat

definition slave_role :: "string \<Rightarrow> string option" where
  "slave_role k =
     (let prefix = ''env.'' @ Instance @ ''.'' in
      if \<not> has_prefix k prefix then None
      else case cut_at (CHR ''.'') (drop (length prefix) k) of (role, _, ok) \<Rightarrow>
        if ok \<and> has_prefix role ''slave'' then Some role else None)"

definition slaveRoles :: "config \<Rightarrow> string list" where
  "slaveRoles c = sort_strings (remdups (List.map_filter slave_role (Keys c)))"

definition role_value :: "instance_rec \<Rightarrow> string \<Rightarrow> string \<Rightarrow> string" where
  "role_value inst r k = (case Role inst r k of Some v \<Rightarrow> v | None \<Rightarrow> [])"

definition describe_pair ::
  "string option \<Rightarrow> string \<Rightarrow> string \<Rightarrow> string + string \<Rightarrow> describe_error + pair_rec" where
  "describe_pair home ctp cluster answer =
     (case answer of
        Inl e \<Rightarrow> Inl (NoAnswer e)
      | Inr fragment \<Rightarrow>
          if trim_space fragment = [] then Inl (EmptyFragment cluster)
          else (case parse home ctp fragment of
             Inl e \<Rightarrow> Inl (BadConf e)
           | Inr cfg \<Rightarrow>
               (case From cfg of
                  Inl e \<Rightarrow> Inl (BadTopology cluster e)
                | Inr [] \<Rightarrow> Inl (NoInstance cluster)
                | Inr (inst # rest) \<Rightarrow>
                    if rest \<noteq> [] then Inl (ManyInstances cluster (Suc (length rest)))
                    else (let master = trim_space (role_value inst ''master'' ''ssh.host'');
                              slaves = filter (\<lambda>h. h \<noteq> [])
                                (map (\<lambda>r. trim_space (role_value inst r ''ssh.host'')) (slaveRoles cfg))
                          in if master = [] \<or> slaves = [] then Inl (NotAPair cluster master (length slaves))
                             else Inr \<lparr>pr_Cluster = cluster, pr_Conf = fragment, pr_Instance = inst, pr_Master = master,
                               pr_Slaves = slaves, pr_DB = trim_space (role_value inst ''ha'' ''ha_db_list'')\<rparr>))))"

definition slaveName :: "pair_rec \<Rightarrow> int \<Rightarrow> string + string" where
  "slaveName p n =
     (if n < 0 \<or> int (length (pr_Slaves p)) \<le> n
      then Inl (''sandbox: cluster '' @ [CHR 0x22] @ pr_Cluster p @ [CHR 0x22] @ '' has '' @
             itoa (int (length (pr_Slaves p))) @ '' slave(s) and slave '' @ itoa n @ '' was asked for'')
      else Inr (pr_Slaves p ! nat n))"

subsection \<open>A pair is usable\<close>

lemma slave_role_digits: "slave_role k = Some r \<Longrightarrow> instance_digits k = Some ''1''"
proof -
  assume "slave_role k = Some r"
  then obtain rest where "k = ''env.instance1.'' @ rest"
    by (auto simp: slave_role_def Let_def Instance_def prefix_def split: if_splits)
  then show ?thesis
    by (simp add: instance_digits_def lead_digits_def after_digits_def is_digit_def char_nat_def)
qed

lemma slaveRoles_instance:
  assumes "slaveRoles c \<noteq> []" and "From c = Inr [inst]"
  shows "inst = instance_of c 1"
proof -
  obtain ids where ids: "instance_ids (Keys c) = Inr ids" "[inst] = map (instance_of c) (sort (remdups ids))"
    using assms(2) by (cases "instance_ids (Keys c)") (auto simp: From_def)
  have "set (slaveRoles c) \<noteq> {}" using assms(1) by simp
  then obtain k r where k: "k \<in> set (Keys c)" "slave_role k = Some r"
    by (auto simp: slaveRoles_def map_filter_def split: if_splits)
  have "atoi ''1'' = Some 1"
    by (simp add: atoi_def all_digits_def digits_val_def digit_val_def ranged_def in_int_def int_lo_def int_hi_def
        is_digit_def char_nat_def)
  then have "1 \<in> set ids"
    using instance_ids_set [OF ids(1)] k slave_role_digits [OF k(2)] by auto
  moreover have "length (sort (remdups ids)) = 1" using ids(2) by (metis length_Cons length_map list.size(3) One_nat_def)
  then obtain n where "sort (remdups ids) = [n]" by (metis length_Suc_conv length_0_conv One_nat_def)
  ultimately have "sort (remdups ids) = [1]" by (metis empty_set insertE list.simps(15) set_remdups set_sort singletonD)
  then show ?thesis using ids(2) by simp
qed

text \<open>
  C40: A described pair can be used: it is instance 1 of the fragment the cluster rendered, the only
  instance there, with a master and at least one slave, none of them unnamed, and every number
  below the count of its slaves names one.
\<close>

theorem described_pair_is_usable:
  assumes "describe_pair home ctp cluster answer = Inr p"
  shows "\<exists>cfg. answer = Inr (pr_Conf p) \<and> parse home ctp (pr_Conf p) = Inr cfg \<and>
    From cfg = Inr [pr_Instance p] \<and> pr_Instance p = instance_of cfg 1 \<and> pr_Master p \<noteq> [] \<and>
    pr_Slaves p \<noteq> [] \<and> [] \<notin> set (pr_Slaves p) \<and>
    (\<forall>n. (\<exists>s. slaveName p n = Inr s) \<longleftrightarrow> 0 \<le> n \<and> n < int (length (pr_Slaves p)))"
proof -
  obtain fragment cfg inst rest where d: "answer = Inr fragment" "parse home ctp fragment = Inr cfg"
      "From cfg = Inr (inst # rest)"
    using assms by (auto simp: describe_pair_def split: sum.splits if_splits list.splits)
  have r: "rest = []" using assms d by (auto simp: describe_pair_def split: if_splits)
  note p = assms [unfolded describe_pair_def d sum.case list.case r Let_def]
  have "slaveRoles cfg \<noteq> []" using p by (auto split: if_splits)
  then have "inst = instance_of cfg 1" using slaveRoles_instance d(3) r by blast
  then show ?thesis
    using p d r by (intro exI [of _ cfg]) (auto simp: slaveName_def split: if_splits)
qed

subsection \<open>A small fragment\<close>

definition small_fragment :: string where
  "small_fragment = ''env.instance1.master.ssh.host=a'' @ [LF] @ ''env.instance1.slave.ssh.host=b''"

definition small_config :: config where
  "small_config = settings.put_all
     [(''env.instance1.master.ssh.host'', ''a''), (''env.instance1.slave.ssh.host'', ''b'')] empty_config"

lemma small_parse: "parse None [] small_fragment = Inr small_config"
  by (simp add: small_fragment_def small_config_def parse_def scan_lines_def strip_cr_def control blanks_def trim_left_of_def trailingBackslashes_def
      splitEntry_def trimKey_def trim_value_def trim_right_of_def trim_of_def unescape_def substitute_def settings.put_all_def
      trim_suffix_def suffix_def Let_def)

lemma small_keys: "Keys small_config = [''env.instance1.master.ssh.host'', ''env.instance1.slave.ssh.host'']"
  by (simp add: small_config_def settings.put_all_def set_value_def empty_config_def Keys_def)

lemma small_from: "From small_config = Inr [instance_of small_config 1]"
  by (simp add: From_def small_keys instance_digits_def lead_digits_def after_digits_def is_digit_def char_nat_def
        atoi_def all_digits_def digits_val_def digit_val_def ranged_def in_int_def int_lo_def int_hi_def)

lemma small_roles: "slaveRoles small_config = [''slave'']"
  by (simp add: slaveRoles_def small_keys slave_role_def Instance_def Let_def sort_strings_def sort_by_def)

lemma small_value:
  "role_value (instance_of small_config 1) ''master'' ''ssh.host'' = ''a''"
  "role_value (instance_of small_config 1) ''slave'' ''ssh.host'' = ''b''"
  by (simp_all add: role_value_def Role_def roles_instance small_keys Roles_def merge_def map_add_def Prefixed_def dotted_def suffix_def
      small_config_def settings.put_all_def set_value_def empty_config_def itoa_def nat_digits.simps digit_char_def char_of_def bit_0)
lemma small_describes:
  "\<exists>p. describe_pair None [] ''c'' (Inr small_fragment) = Inr p \<and> pr_Slaves p = [''b'']"
proof -
  have "trim_space small_fragment \<noteq> []"
    by (simp add: small_fragment_def control trim_space_trimmed graphic_trimmed graphic_def char_nat_def)
  then show ?thesis
    by (simp add: describe_pair_def Let_def small_parse small_from small_roles small_value trim_space_trimmed graphic_trimmed
        graphic_def char_nat_def)
qed

theorem described_pair_is_usable_witness:
  "\<exists>p. describe_pair None [] ''c'' (Inr small_fragment) = Inr p \<and> pr_Master p \<noteq> [] \<and> (\<exists>s. slaveName p 0 = Inr s)"
proof -
  obtain p where p: "describe_pair None [] ''c'' (Inr small_fragment) = Inr p" "pr_Slaves p = [''b'']"
    using small_describes by blast
  show ?thesis using described_pair_is_usable [OF p(1)] p by auto
qed

end
