(* ===== verification/Harepl_Run.thy ===== *)
theory Harepl_Run
  imports Harepl_Reset Harepl_Ledger Sandbox_Pair
begin

text \<open>
  A whole run over several pairs: \<open>harepl.go\<close> in \<open>internal/runner/hareplsuite\<close>. The corpus is dealt to
  shards, each shard drives its own pair, and what they share is a record behind a lock. A shard is
  run by itself and leaves the list of its updates of the shared record, each of them one critical
  section or one write of the code; a run of all shards is any interleaving of those lists. What a
  reset and a case find on a pair comes from environments that may depend on all the shard did
  before. Paths are clean, the cases lie below the scenario, cluster names are ASCII.
\<close>

subsection \<open>Paths\<close>

definition file_dir :: "string \<Rightarrow> string" where
  "file_dir p = (case last_index_of p ''/'' of None \<Rightarrow> ''.'' | Some i \<Rightarrow> if i = 0 then ''/'' else take i p)"

definition file_base :: "string \<Rightarrow> string" where
  "file_base p = (case last_index_of p ''/'' of None \<Rightarrow> p | Some i \<Rightarrow> drop (i + 1) p)"

definition rel_path :: "string \<Rightarrow> string \<Rightarrow> string" where
  "rel_path scenario p = trim_prefix p (scenario @ ''/'')"

definition pad_right :: "nat \<Rightarrow> string \<Rightarrow> string" where
  "pad_right n s = s @ replicate (n - length s) (CHR '' '')"

definition pad_left :: "nat \<Rightarrow> string \<Rightarrow> string" where
  "pad_left n s = replicate (n - length s) (CHR '' '') @ s"

subsection \<open>The clusters and the wait of a run\<close>

definition clusterOf :: "string \<Rightarrow> string \<Rightarrow> string" where
  "clusterOf env cfg = (if trim_space env \<noteq> [] then trim_space env else trim_space cfg)"

fun distinct_names :: "string list \<Rightarrow> string list \<Rightarrow> string list" where
  "distinct_names seen [] = []"
| "distinct_names seen (n # ns) =
     (let n' = trim_space n in
      if n' \<noteq> [] \<and> n' \<notin> set seen then n' # distinct_names (n' # seen) ns else distinct_names seen ns)"

definition clustersOf :: "string \<Rightarrow> string \<Rightarrow> string list" where
  "clustersOf env cfg =
     distinct_names [] (split_on (CHR '','') (if trim_space env \<noteq> [] then trim_space env else cfg))"

definition WaitDefault :: int where "WaitDefault = 600 * 1000000000"

text \<open>A duration is 64 bits: a number of seconds that does not fit wraps.\<close>

definition resolveWait :: "config \<Rightarrow> int" where
  "resolveWait cfg =
     (let secs = Config_Int cfg ''ha_sync_detect_timeout_in_secs'' 0;
          ms = Config_Int cfg ''ha_sync_detect_timeout_in_ms'' 0 in
      if 0 < secs then signed_take_bit 63 (secs * 1000000000)
      else if 0 < ms then signed_take_bit 63 (ms * 1000000)
      else WaitDefault)"

subsection \<open>Dealing\<close>

text \<open>What a Go map from directories to their cases holds, and the directories in the order met.\<close>

definition dir_order :: "string list \<Rightarrow> string list" where
  "dir_order ps = rev (remdups (rev (map file_dir ps)))"

definition dir_cases :: "string list \<Rightarrow> string \<Rightarrow> string list" where
  "dir_cases ps d = filter (\<lambda>p. file_dir p = d) ps"

definition fewest :: "string list list \<Rightarrow> nat" where
  "fewest shards =
     fold (\<lambda>i at. if length (shards ! i) < length (shards ! at) then i else at) [0..<length shards] 0"

definition deal_to :: "nat \<Rightarrow> string list \<Rightarrow> string list list \<Rightarrow> string list list" where
  "deal_to i ps shards = shards[i := shards ! i @ ps]"

definition deal_dir :: "string list \<Rightarrow> string \<Rightarrow> string list list \<Rightarrow> string list list" where
  "deal_dir ps d shards = deal_to (fewest shards) (dir_cases ps d) shards"

definition deal :: "nat \<Rightarrow> string \<Rightarrow> string list \<Rightarrow> string list list" where
  "deal n resetEvery ps =
     (if n = 1 then [ps]
      else if resetEvery = ''case''
      then fold (\<lambda>(i, p). deal_to (i mod n) [p]) (enumerate 0 ps) (replicate n [])
      else fold (deal_dir ps)
        (sort_by (\<lambda>a b. length (dir_cases ps b) < length (dir_cases ps a)) (dir_order ps)) (replicate n []))"

subsection \<open>One shard\<close>

datatype shard_event = HasReset "string + reset_outcome" "reset_event list" | HasRun string case_result history
  | Recalled string | Unreadable string

record shard_env =
  se_pair :: "shard_event list \<Rightarrow> pair_env"
  se_reset :: "shard_event list \<Rightarrow> reset_env"
  se_cancelled :: "shard_event list \<Rightarrow> bool"
  se_took :: "shard_event list \<Rightarrow> int"

record run_cfg =
  rc_scenario :: string
  rc_file :: "string \<Rightarrow> string + string"
  rc_keepDir :: string
  rc_addKey :: bool
  rc_resetEvery :: string
  rc_done :: "(string \<times> ledger_entry) list"
  rc_prefix :: bool

text \<open>A result of a run, judged now or recalled from the ledger, and an update of the shared record.\<close>

datatype run_result = Fresh case_result int | Prior ledger_entry

datatype run_op = Append run_result | Recall ledger_entry | Leftover | Strand string stranded
  | Say string | LedgerLine ledger_entry | PageBegin string string | PageEnd string string bool

record shard_state =
  ss_lastDir :: string
  ss_lastCase :: string
  ss_hist :: "shard_event list"
  ss_ops :: "run_op list"

definition outcome_text :: "outcome_kind \<Rightarrow> string" where
  "outcome_text k = (case k of NoOutcome \<Rightarrow> [] | Same \<Rightarrow> ''same'' | Differ \<Rightarrow> ''differ'' | NoData \<Rightarrow> ''no_data''
     | CaseFailed \<Rightarrow> ''case_failed'' | WaitTimeout \<Rightarrow> ''wait_timeout'' | SessionDiffers \<Rightarrow> ''session_differs''
     | Skipped \<Rightarrow> ''skipped'' | Replicating \<Rightarrow> ''replicating'' | Unreplicatable \<Rightarrow> ''unreplicatable'')"

definition outcome_ok :: "outcome_kind \<Rightarrow> bool" where
  "outcome_ok k \<longleftrightarrow> k \<noteq> Differ \<and> k \<noteq> WaitTimeout \<and> k \<noteq> CaseFailed"

definition detailSuffix :: "case_result \<Rightarrow> string" where
  "detailSuffix r =
     (case cr_Outcome r of
        Differ \<Rightarrow> ''  <- '' @ cr_Differing r @ '' on '' @ cr_Node r
      | Unreplicatable \<Rightarrow> ''  <- '' @ join_with '', '' (cr_Tables r)
      | WaitTimeout \<Rightarrow> ''  <- '' @ cr_Detail r
      | CaseFailed \<Rightarrow> ''  <- '' @ cr_Detail r
      | SessionDiffers \<Rightarrow> ''  <- '' @ cr_Detail r
      | _ \<Rightarrow> [])"

definition said :: "run_cfg \<Rightarrow> string \<Rightarrow> string \<Rightarrow> run_op" where
  "said R cluster t = Say ((if rc_prefix R then ''['' @ cluster @ ''] '' else []) @ t)"

definition ledger_of :: "case_result \<Rightarrow> int \<Rightarrow> ledger_entry" where
  "ledger_of r took =
     \<lparr>le_Case = cr_Case r, le_Outcome = outcome_text (cr_Outcome r), le_Detail = cr_Detail r, le_Took = took\<rparr>"

definition shard_reset :: "run_cfg \<Rightarrow> shard_env \<Rightarrow> string \<Rightarrow> shard_state \<Rightarrow> shard_state" where
  "shard_reset R E cluster s =
     (case Reset (se_reset E (ss_hist s)) [] of (answer, h) \<Rightarrow>
        s\<lparr>ss_hist := ss_hist s @ [HasReset answer h],
          ss_ops := ss_ops s @
            (case answer of
               Inl t \<Rightarrow> [said R cluster (''  ! could not reset the database: '' @ t @ [LF])]
             | Inr out \<Rightarrow>
                 (if ro_Left out \<noteq> [] then [said R cluster (''  ! '' @ ResetNote (ro_Left out) @ [LF]), Leftover] else []) @
                 concat (map (\<lambda>d. [said R cluster (''  ! '' @ stranded_String d @ '', left by '' @ ss_lastCase s @ [LF]),
                   Strand (ss_lastCase s) d]) (ro_Stranded out)))\<rparr>)"

definition unread_result :: "string \<Rightarrow> string \<Rightarrow> case_result" where
  "unread_result path e = (blank_result path)\<lparr>cr_Outcome := CaseFailed, cr_Detail := e\<rparr>"

definition shard_run ::
  "run_cfg \<Rightarrow> shard_env \<Rightarrow> string \<Rightarrow> string \<Rightarrow> string \<Rightarrow> string \<Rightarrow> shard_state \<Rightarrow> shard_state" where
  "shard_run R E cluster path rel sql s =
     (case RunCase (se_pair E (ss_hist s)) rel sql (rc_keepDir R \<noteq> []) (rc_addKey R) of (res, h) \<Rightarrow>
       (let took = se_took E (ss_hist s) in
        s\<lparr>ss_lastCase := rel, ss_hist := ss_hist s @ [HasRun path res h],
          ss_ops := ss_ops s @
            [PageBegin cluster rel, PageEnd cluster rel (outcome_ok (cr_Outcome res)), Append (Fresh res took),
             LedgerLine (ledger_of res took),
             said R cluster (''  '' @ pad_right 15 (outcome_text (cr_Outcome res)) @ '' '' @ rel @ detailSuffix res @ [LF])]\<rparr>))"

definition shard_case :: "run_cfg \<Rightarrow> shard_env \<Rightarrow> string \<Rightarrow> string \<Rightarrow> shard_state \<Rightarrow> shard_state" where
  "shard_case R E cluster path s =
     (let dir = file_dir path; rel = rel_path (rc_scenario R) path in
      case map_of (rc_done R) rel of
        Some prior \<Rightarrow> s\<lparr>ss_lastDir := dir, ss_lastCase := rel, ss_hist := ss_hist s @ [Recalled path],
          ss_ops := ss_ops s @ [Recall prior]\<rparr>
      | None \<Rightarrow>
          (let s1 = (if rc_resetEvery R = ''case'' \<or> dir \<noteq> ss_lastDir s then shard_reset R E cluster s else s);
               s2 = s1\<lparr>ss_lastDir := dir\<rparr> in
           case rc_file R path of
             Inl e \<Rightarrow> s2\<lparr>ss_hist := ss_hist s2 @ [Unreadable path],
               ss_ops := ss_ops s2 @ [Append (Fresh (unread_result path e) 0)]\<rparr>
           | Inr sql \<Rightarrow> shard_run R E cluster path rel sql s2))"

fun shard_loop :: "run_cfg \<Rightarrow> shard_env \<Rightarrow> string \<Rightarrow> string list \<Rightarrow> shard_state \<Rightarrow> shard_state" where
  "shard_loop R E cluster [] s = s"
| "shard_loop R E cluster (path # ps) s =
     (if se_cancelled E (ss_hist s) then s else shard_loop R E cluster ps (shard_case R E cluster path s))"

definition shard_start :: shard_state where
  "shard_start = \<lparr>ss_lastDir = [], ss_lastCase = ''the state the run started from'', ss_hist = [], ss_ops = []\<rparr>"

definition shard :: "run_cfg \<Rightarrow> shard_env \<Rightarrow> string \<Rightarrow> string list \<Rightarrow> shard_state" where
  "shard R E cluster ps = shard_loop R E cluster ps shard_start"

subsection \<open>All shards\<close>

record run_state =
  rn_results :: "run_result list"
  rn_stranded :: "(string \<times> stranded) list"
  rn_resumed :: nat
  rn_leftovers :: nat
  rn_ledger :: "string option"
  rn_said :: "string list"

definition apply_op :: "run_op \<Rightarrow> run_state \<Rightarrow> run_state" where
  "apply_op x s =
     (case x of
        Append r \<Rightarrow> s\<lparr>rn_results := rn_results s @ [r]\<rparr>
      | Recall e \<Rightarrow> s\<lparr>rn_results := rn_results s @ [Prior e], rn_resumed := rn_resumed s + 1\<rparr>
      | Leftover \<Rightarrow> s\<lparr>rn_leftovers := rn_leftovers s + 1\<rparr>
      | Strand c d \<Rightarrow> s\<lparr>rn_stranded := rn_stranded s @ [(c, d)]\<rparr>
      | Say t \<Rightarrow> s\<lparr>rn_said := rn_said s @ [t]\<rparr>
      | LedgerLine e \<Rightarrow> s\<lparr>rn_ledger := ledger_Write e (rn_ledger s)\<rparr>
      | PageBegin _ _ \<Rightarrow> s
      | PageEnd _ _ _ \<Rightarrow> s)"

inductive interleaved :: "'a list list \<Rightarrow> 'a list \<Rightarrow> bool" where
  all_ended: "\<forall>l \<in> set ls. l = [] \<Longrightarrow> interleaved ls []"
| one_moves: "i < length ls \<Longrightarrow> ls ! i = x # xs \<Longrightarrow> interleaved (ls[i := xs]) ys \<Longrightarrow> interleaved ls (x # ys)"

definition run_start :: "string option \<Rightarrow> run_state" where
  "run_start t = \<lparr>rn_results = [], rn_stranded = [], rn_resumed = 0, rn_leftovers = 0, rn_ledger = t, rn_said = []\<rparr>"

subsection \<open>Reports\<close>

definition result_case :: "run_result \<Rightarrow> string" where
  "result_case r = (case r of Fresh c _ \<Rightarrow> cr_Case c | Prior e \<Rightarrow> le_Case e)"

definition result_outcome :: "run_result \<Rightarrow> string" where
  "result_outcome r = (case r of Fresh c _ \<Rightarrow> outcome_text (cr_Outcome c) | Prior e \<Rightarrow> le_Outcome e)"

definition shard_outcomes :: "string list" where
  "shard_outcomes = map outcome_text [Same, Differ, Replicating, Unreplicatable, NoData, Skipped, WaitTimeout, CaseFailed]"

definition shard_count :: "run_result list \<Rightarrow> string list \<Rightarrow> string \<Rightarrow> nat" where
  "shard_count rs ps k =
     length (filter (\<lambda>p. (case find (\<lambda>r. result_case r = file_base p) (rev rs) of
       None \<Rightarrow> [] | Some r \<Rightarrow> result_outcome r) = k) ps)"

definition reportShards :: "(string \<times> string list) list \<Rightarrow> run_result list \<Rightarrow> string list" where
  "reportShards shards rs =
     ([LF] @ ''  per pair:'' @ [LF]) #
     map (\<lambda>(cluster, ps). ''    '' @ pad_right 10 cluster @ '' '' @ pad_left 3 (itoa (int (length ps))) @ '' case(s)  '' @
       join_with '', '' (map (\<lambda>k. k @ '' '' @ itoa (int (shard_count rs ps k)))
         (filter (\<lambda>k. 0 < shard_count rs ps k) shard_outcomes)) @ [LF]) shards"

text \<open>The text of the two files written beside the differences, when there is anything to write.\<close>

definition keepStranded :: "(string \<times> stranded) list \<Rightarrow> string option" where
  "keepStranded ss =
     (if ss = [] then None
      else Some (join_with [TAB] [''case'', ''node'', ''kind'', ''name'', ''repaired'', ''why''] @ [LF] @
        concat (map (\<lambda>(c, d). join_with [TAB] [c, sd_Node d, to_lower (sd_Word d), sd_Name d,
          if sd_Repaired d then ''true'' else ''false'', sd_Why d] @ [LF]) ss)))"

definition keepEmptyAgreements :: "run_result list \<Rightarrow> string option" where
  "keepEmptyAgreements rs =
     (let t = concat (map (\<lambda>r. case r of Prior _ \<Rightarrow> []
        | Fresh c _ \<Rightarrow> concat (map (\<lambda>stmt. cr_Case c @ [TAB] @ stmt @ [LF]) (cr_Empty c))) rs)
      in if t = [] then None else Some t)"

definition reportStranded :: "(string \<times> stranded) list \<Rightarrow> string \<Rightarrow> string list" where
  "reportStranded ss keepDir =
     (if ss = [] then []
      else ([LF] @ ''  '' @ itoa (int (length ss)) @ '' object(s) were left on a slave by '' @
          itoa (int (length (remdups (map fst ss)))) @ '' case(s), '' @
          itoa (int (length (filter (sd_Repaired \<circ> snd) ss))) @ '' of them repaired'' @ [LF]) #
        map (\<lambda>(c, d). ''    '' @ pad_right 46 c @ '' '' @ stranded_String d @ [LF]) ss @
        (if keepDir \<noteq> [] then [''    written to '' @ keepDir @ ''/slave-stranded.tsv'' @ [LF]] else []))"

text \<open>What a process was given on its command line, before the path is made absolute.\<close>

definition conf_arg :: "string \<Rightarrow> string list \<Rightarrow> bool \<times> string \<Rightarrow> bool \<times> string" where
  "conf_arg a as r =
     (if a = ''ha_repl'' then (True, snd r)
      else if a = ''-c'' \<or> a = ''--config'' then (fst r, case as of [] \<Rightarrow> snd r | b # _ \<Rightarrow> b)
      else if has_prefix a ''-c='' then (fst r, trim_prefix a ''-c='')
      else if has_prefix a ''--config='' then (fst r, trim_prefix a ''--config='')
      else r)"

fun conf_args :: "string list \<Rightarrow> bool \<times> string \<Rightarrow> bool \<times> string" where
  "conf_args [] r = r"
| "conf_args (a # as) r = conf_args as (conf_arg a as r)"

definition confOf :: "string list \<Rightarrow> string option" where
  "confOf argv =
     (case argv of
        [] \<Rightarrow> None
      | prog # _ \<Rightarrow>
          if \<not> has_suffix prog ''testkit'' then None
          else (case conf_args argv (False, []) of (task, conf) \<Rightarrow> if task \<and> conf \<noteq> [] then Some conf else None))"

end
