(* ===== verification/Harepl_Deal_Claims.thy ===== *)
theory Harepl_Deal_Claims
  imports Harepl_Run
begin

text \<open>
  Dealing the corpus: nothing is lost, nothing is dealt twice, the contract of the reset is kept and
  the shards are even.
\<close>

lemma mset_deal_to: "i < length shards \<Longrightarrow> mset (concat (deal_to i ps shards)) = mset (concat shards) + mset ps"
proof (induction shards arbitrary: i)
  case (Cons s ss)
  then show ?case by (cases i) (auto simp: deal_to_def)
qed simp

lemma length_deal_to [simp]: "length (deal_to i ps shards) = length shards"
  by (simp add: deal_to_def)

lemma fewest_least:
  assumes "shards \<noteq> []"
  shows "fewest shards < length shards \<and> (\<forall>j < length shards. length (shards ! fewest shards) \<le> length (shards ! j))"
proof -
  have "fold (\<lambda>i at. if length (shards ! i) < length (shards ! at) then i else at) [0..<k] 0 < length shards \<and>
      (\<forall>j < k. length (shards ! fold (\<lambda>i at. if length (shards ! i) < length (shards ! at) then i else at) [0..<k] 0)
        \<le> length (shards ! j))" if "k \<le> length shards" for k
    using that
  proof (induction k)
    case 0
    then show ?case using assms by simp
  next
    case (Suc k)
    then show ?case by (auto simp: less_Suc_eq intro: less_imp_le less_le_trans)
  qed
  from this [of "length shards"] show ?thesis by (simp add: fewest_def)
qed

lemma length_deal_dirs [simp]: "length (fold (deal_dir ps) ds shards) = length shards"
  by (induction ds arbitrary: shards) (simp_all add: deal_dir_def)

lemma mset_deal_dirs:
  "shards \<noteq> [] \<Longrightarrow> mset (concat (fold (deal_dir ps) ds shards)) =
     mset (concat shards) + mset (concat (map (dir_cases ps) ds))"
proof (induction ds arbitrary: shards)
  case (Cons d ds)
  have "deal_dir ps d shards \<noteq> []" using Cons.prems by (metis deal_dir_def length_0_conv length_deal_to)
  then show ?case using Cons fewest_least [OF Cons.prems] by (simp add: deal_dir_def mset_deal_to)
qed simp

lemma dirs_cover:
  assumes "distinct ds" "set (map file_dir ps) \<subseteq> set ds"
  shows "mset (concat (map (dir_cases ps) ds)) = mset ps"
  using assms(2)
proof (induction ps)
  case Nil
  have "concat (map (dir_cases []) ds) = []" by (simp add: dir_cases_def)
  then show ?case by simp
next
  case (Cons p ps)
  have step: "mset (concat (map (dir_cases (p # ps)) es)) =
      (if file_dir p \<in> set es then {#p#} else {#}) + mset (concat (map (dir_cases ps) es))" if "distinct es" for es
    using that by (induction es) (auto simp: dir_cases_def)
  then show ?case using Cons assms(1) by simp
qed

lemma dir_order_props: "distinct (dir_order ps)" "set (dir_order ps) = set (map file_dir ps)"
  by (simp_all add: dir_order_def)

lemma round_robin:
  assumes "0 < n"
  shows "length (fold (\<lambda>(i, p). deal_to (i mod n) [p]) (enumerate k ps) shards) = length shards"
    and "length shards = n \<Longrightarrow>
      mset (concat (fold (\<lambda>(i, p). deal_to (i mod n) [p]) (enumerate k ps) shards)) = mset (concat shards) + mset ps"
  using assms by (induction ps arbitrary: k shards) (simp_all add: mset_deal_to)

definition whole_dirs :: "string list list \<Rightarrow> bool" where
  "whole_dirs shards \<longleftrightarrow> (\<forall>i < length shards. \<forall>j < length shards. i \<noteq> j \<longrightarrow>
     file_dir ` set (shards ! i) \<inter> file_dir ` set (shards ! j) = {})"

lemma nth_deal_to:
  "i < length shards \<Longrightarrow> deal_to at ps shards ! i = shards ! i @ (if i = at then ps else [])"
  by (simp add: deal_to_def nth_list_update)

lemma disjoint_grown:
  "A \<inter> B = {} \<Longrightarrow> A' \<subseteq> A \<union> X \<Longrightarrow> B' \<subseteq> B \<union> Y \<Longrightarrow> X \<inter> (B \<union> Y) = {} \<Longrightarrow> A \<inter> Y = {} \<Longrightarrow> A' \<inter> B' = {}"
  by blast

lemma whole_dirs_step:
  assumes "whole_dirs shards" "\<forall>i < length shards. d \<notin> file_dir ` set (shards ! i)"
  shows "whole_dirs (deal_dir ps d shards)"
proof -
  have new: "file_dir ` set (deal_dir ps d shards ! i) \<subseteq>
      file_dir ` set (shards ! i) \<union> (if i = fewest shards then {d} else {})" if "i < length shards" for i
    using that by (auto simp: deal_dir_def nth_deal_to dir_cases_def)
  show ?thesis unfolding whole_dirs_def
  proof (intro allI impI)
    fix i j assume "i < length (deal_dir ps d shards)" "j < length (deal_dir ps d shards)" "i \<noteq> j"
    then have ij: "i < length shards" "j < length shards" "i \<noteq> j" by (simp_all add: deal_dir_def)
    then have "file_dir ` set (shards ! i) \<inter> file_dir ` set (shards ! j) = {}"
      using assms(1) unfolding whole_dirs_def by blast
    then show "file_dir ` set (deal_dir ps d shards ! i) \<inter> file_dir ` set (deal_dir ps d shards ! j) = {}"
      using new [OF ij(1)] new [OF ij(2)] by (rule disjoint_grown) (use ij assms(2) in \<open>simp_all split: if_splits\<close>)
  qed
qed

lemma whole_dirs_fold:
  assumes "distinct ds" "whole_dirs shards" "\<forall>i < length shards. file_dir ` set (shards ! i) \<inter> set ds = {}"
  shows "whole_dirs (fold (deal_dir ps) ds shards)"
  using assms
proof (induction ds arbitrary: shards)
  case (Cons d ds)
  have "whole_dirs (deal_dir ps d shards)" using Cons.prems by (intro whole_dirs_step) auto
  moreover have "\<forall>i < length (deal_dir ps d shards). file_dir ` set (deal_dir ps d shards ! i) \<inter> set ds = {}"
    using Cons.prems by (fastforce simp: deal_dir_def nth_deal_to dir_cases_def split: if_splits)
  ultimately show ?case using Cons by simp
qed simp

text \<open>How uneven a deal can get.\<close>

definition within :: "nat \<Rightarrow> string list list \<Rightarrow> bool" where
  "within m shards \<longleftrightarrow> (\<forall>i < length shards. \<forall>j < length shards. length (shards ! i) \<le> length (shards ! j) + m)"

lemma within_fold:
  assumes "within m shards" "shards \<noteq> []" "\<forall>d \<in> set ds. length (dir_cases ps d) \<le> m"
  shows "within m (fold (deal_dir ps) ds shards)"
  using assms
proof (induction ds arbitrary: shards)
  case (Cons d ds)
  have "length (deal_dir ps d shards ! i) \<le> length (deal_dir ps d shards ! j) + m"
    if "i < length shards" "j < length shards" for i j
  proof -
    have "length (shards ! fewest shards) \<le> length (shards ! j)" "length (shards ! i) \<le> length (shards ! j) + m"
      "length (dir_cases ps d) \<le> m"
      using fewest_least [OF Cons.prems(2)] that Cons.prems by (simp_all add: within_def)
    then show ?thesis using that by (simp add: deal_dir_def nth_deal_to)
  qed
  then have "within m (deal_dir ps d shards)" by (simp add: within_def deal_dir_def)
  moreover have "deal_dir ps d shards \<noteq> []" using Cons.prems(2) by (metis deal_dir_def length_0_conv length_deal_to)
  ultimately show ?case using Cons by simp
qed simp

lemma round_robin_lengths:
  assumes "0 < n" "length shards = n" "\<forall>i < n. length (shards ! i) = k div n + (if i < k mod n then 1 else 0)"
  shows "within 1 (fold (\<lambda>(i, p). deal_to (i mod n) [p]) (enumerate k ps) shards)"
  using assms(2,3)
proof (induction ps arbitrary: k shards)
  case Nil
  then show ?case by (auto simp: within_def)
next
  case (Cons p ps)
  have "\<forall>i < n. length (deal_to (k mod n) [p] shards ! i) = Suc k div n + (if i < Suc k mod n then 1 else 0)"
    using Cons.prems assms(1) by (auto simp: nth_deal_to div_Suc mod_Suc)
  then show ?case using Cons by simp
qed

lemma deal_mset:
  assumes "0 < n"
  shows "mset (concat (deal n resetEvery ps)) = mset ps"
proof -
  let ?ds = "sort_by (\<lambda>a b. length (dir_cases ps b) < length (dir_cases ps a)) (dir_order ps)"
  have ds: "distinct ?ds" "set (map file_dir ps) \<subseteq> set ?ds" by (simp_all add: dir_order_props)
  have none: "replicate n [] \<noteq> []" "mset (concat (replicate n [])) = {#}" using assms by simp_all
  show ?thesis
    using assms mset_deal_dirs [OF none(1), of ps ?ds] dirs_cover [OF ds] none(2)
      round_robin(2) [OF assms, where k = 0 and ps = ps and shards = "replicate n []"]
    by (simp add: deal_def)
qed

text \<open>
  C18: Whatever the reset, the shards are dealt exactly the corpus, each case to one of them. Under a
  reset per directory no directory is on two shards, and no shard has more cases than another plus
  the largest directory; under a reset per case the shards differ by one case at most.
\<close>

theorem deal_keeps_the_contract:
  assumes "0 < n" and "\<forall>d. length (dir_cases ps d) \<le> m"
  shows "length (deal n resetEvery ps) = n \<and> mset (concat (deal n resetEvery ps)) = mset ps \<and>
    (if resetEvery = ''case'' then within 1 (deal n resetEvery ps)
     else whole_dirs (deal n resetEvery ps) \<and> within m (deal n resetEvery ps))"
proof -
  let ?ds = "sort_by (\<lambda>a b. length (dir_cases ps b) < length (dir_cases ps a)) (dir_order ps)"
  have none: "replicate n [] \<noteq> []" using assms(1) by simp
  show ?thesis
  proof (cases "n = 1")
    case True
    then show ?thesis by (simp add: deal_def within_def whole_dirs_def)
  next
    case False
    have "within 1 (fold (\<lambda>(i, p). deal_to (i mod n) [p]) (enumerate 0 ps) (replicate n []))"
      using assms(1) by (intro round_robin_lengths) simp_all
    moreover have "whole_dirs (fold (deal_dir ps) ?ds (replicate n []))"
      by (intro whole_dirs_fold) (simp_all add: whole_dirs_def dir_order_props)
    moreover have "within m (fold (deal_dir ps) ?ds (replicate n []))"
      using assms none by (intro within_fold) (simp_all add: within_def)
    moreover have "length (fold (\<lambda>(i, p). deal_to (i mod n) [p]) (enumerate 0 ps) (replicate n [])) = n"
      using round_robin(1) [OF assms(1), where k = 0 and ps = ps and shards = "replicate n []"] by simp
    ultimately show ?thesis using False deal_mset [OF assms(1), of resetEvery ps] by (simp add: deal_def)
  qed
qed

definition small_corpus :: "string list" where
  "small_corpus = [''a/1'', ''a/2'', ''a/3'', ''b/1'', ''b/2'', ''c/1'']"

theorem deal_keeps_the_contract_witness:
  "deal 2 ''dir'' small_corpus = [[''a/1'', ''a/2'', ''a/3''], [''b/1'', ''b/2'', ''c/1'']] \<and>
   whole_dirs (deal 2 ''dir'' small_corpus)"
proof -
  have dirs: "map file_dir small_corpus = [''a'', ''a'', ''a'', ''b'', ''b'', ''c'']"
    by (simp add: small_corpus_def file_dir_def last_index_of_def)
  have "\<forall>d. length (dir_cases small_corpus d) \<le> 6"
    using length_filter_le [of _ small_corpus] by (simp add: dir_cases_def small_corpus_def)
  then have "whole_dirs (deal 2 ''dir'' small_corpus)"
    using deal_keeps_the_contract [of 2 small_corpus 6 "''dir''"] by simp
  moreover have "deal 2 ''dir'' small_corpus = [[''a/1'', ''a/2'', ''a/3''], [''b/1'', ''b/2'', ''c/1'']]"
    using dirs by (simp add: deal_def dir_order_def dir_cases_def small_corpus_def sort_by_def deal_dir_def
        deal_to_def fewest_def numeral_2_eq_2 file_dir_def last_index_of_def)
  ultimately show ?thesis by simp
qed

end
