(* ===== verification/Harepl_Run_Claims.thy ===== *)
theory Harepl_Run_Claims
  imports Harepl_Deal_Claims Harepl_Case_Claims
begin

text \<open>
  What a run over several pairs guarantees whatever order its shards take turns in: every case dealt
  has one result, a case starts from a reset database, and the ledger says the same of every case.
\<close>

subsection \<open>A case's result bears its name and an outcome\<close>

definition named :: "string \<Rightarrow> case_state \<Rightarrow> bool" where
  "named n s \<longleftrightarrow> cr_Case (cs_res s) = n"

definition named_end :: "string \<Rightarrow> case_state \<Rightarrow> bool" where
  "named_end n s \<longleftrightarrow> cr_Case (cs_res s) = n \<and> cr_Outcome (cs_res s) \<noteq> NoOutcome"

lemma wait_named: "named n s \<Longrightarrow> step_gives (wait_first E s) (named n) (named_end n)"
  by (auto simp: wait_first_def named_def named_end_def Let_def split: prod.split option.split)

lemma refresh_named: "named n s \<Longrightarrow> step_gives (refresh_keys E s) (named n) (named_end n)"
  by (auto simp: refresh_keys_def named_def named_end_def split: prod.split sum.split
      dest!: keyless_tally catalog_tally)

lemma write_named: "named n s \<Longrightarrow> step_gives (write_segment E k stmts s) (named n) (named_end n)"
  by (auto simp: write_segment_def ask_def Let_def named_def named_end_def split: prod.split sum.split)

lemma compare_one_named: "named n s \<Longrightarrow> step_gives (compare_one E k x s) (named n) (named_end n)"
  by (auto simp: compare_one_def Let_def named_def named_end_def split: prod.split)

lemma compare_all_named: "named n s \<Longrightarrow> step_gives (compare_all E k xs s) (named n) (named_end n)"
proof (induction xs arbitrary: s)
  case (Cons x xs)
  show ?case unfolding compare_all_then
    by (rule outcome_then [OF compare_one_named [OF Cons.prems]]) (rule Cons.IH)
qed simp

lemma read_both_named:
  assumes "named n s"
  shows "step_gives (read_both E k stmts s) (named n) (named_end n)"
proof -
  have "step_gives (compare_all E k xs (s\<lparr>cs_hist := h\<rparr>)) (named n) (named_end n)" for xs h
    using assms by (intro compare_all_named) (simp add: named_def)
  then show ?thesis
    using assms by (auto simp: read_both_def ask_def Let_def named_def named_end_def split: prod.split sum.split)
qed

lemma read_named:
  assumes "named n s"
  shows "step_gives (read_segment E k stmts s) (named n) (named_end n)"
  unfolding read_segment_def
proof (rule outcome_then [OF outcome_then read_both_named])
  show "step_gives (if cs_dirty s then wait_first E s else On s) (named n) (named_end n)"
    using assms wait_named by simp
  show "step_gives (if cs_stale s1 then refresh_keys E s1 else On s1) (named n) (named_end n)" if "named n s1" for s1
    using that refresh_named by simp
qed

lemma segments_named: "named n s \<Longrightarrow> step_gives (run_segments E a k gs s) (named n) (named_end n)"
proof (induction gs arbitrary: s)
  case (Cons g gs)
  have "step_gives (case_segment E a k g s) (named n) (named_end n)"
    using Cons.prems read_named write_named by (simp add: case_segment_def Let_def named_def named_end_def)
  then show ?case unfolding run_segments.simps by (rule outcome_then) (rule Cons.IH)
qed simp

lemma verdict_named: "named n s \<Longrightarrow> step_gives (verdict E s) (\<lambda>_. False) (named_end n)"
  by (auto simp: verdict_def Let_def wait_first_def then_on_def named_def named_end_def finish_def
      split: prod.split option.split)

lemma case_named:
  assumes "RunCase E name sql keepDir addKey = (r, h)"
  shows "cr_Case r = name \<and> cr_Outcome r \<noteq> NoOutcome"
proof (cases "Splittable sql")
  case False
  then show ?thesis using assms by (auto simp: RunCase_def blank_result_def)
next
  case True
  define x where "x = (if repl_Statements sql = [] then finish NoData ''the case has no statement'' (start_case name sql)
    else then_on (run_segments E addKey keepDir (segments (repl_Statements sql)) (start_case name sql)) (verdict E))"
  have n: "named name (start_case name sql)" by (simp add: named_def start_case_def blank_result_def)
  then have "step_gives x (\<lambda>_. False) (named_end name)"
    unfolding x_def
    by (auto simp: named_def named_end_def intro: outcome_then [OF segments_named verdict_named])
  then have "named_end name (state_after x)" by (cases x) (simp_all add: state_after_def)
  moreover have "r = cs_res (state_after x)" using assms True by (simp add: RunCase_def Let_def x_def)
  ultimately show ?thesis by (simp add: named_end_def)
qed

subsection \<open>Interleavings\<close>

lemma interleaved_mset: "interleaved ls ys \<Longrightarrow> mset ys = mset (concat ls)"
proof (induction rule: interleaved.induct)
  case (all_ended ls)
  then have "concat ls = []" by simp
  then show ?case by simp
next
  case (one_moves i ls x xs ys)
  have "concat ls = concat (take i ls) @ (x # xs) @ concat (drop (Suc i) ls)"
    using one_moves.hyps by (metis concat.simps(2) concat_append id_take_nth_drop)
  moreover have "concat (ls[i := xs]) = concat (take i ls) @ xs @ concat (drop (Suc i) ls)"
    using one_moves.hyps(1) by (simp add: upd_conv_take_nth_drop)
  ultimately show ?case using one_moves.IH by simp
qed

lemma mset_map_filter: "mset (List.map_filter f xs) = image_mset (the \<circ> f) (filter_mset (\<lambda>x. f x \<noteq> None) (mset xs))"
  by (simp add: List.map_filter_def)

lemma map_filter_append [simp]: "List.map_filter f (xs @ ys) = List.map_filter f xs @ List.map_filter f ys"
  by (simp add: List.map_filter_def)

lemma map_filter_concat: "List.map_filter f (concat ls) = concat (map (List.map_filter f) ls)"
  by (induction ls) (simp_all add: List.map_filter_def)

lemma interleaved_filter:
  "interleaved ls ys \<Longrightarrow> mset (List.map_filter f ys) = mset (concat (map (List.map_filter f) ls))"
  by (simp add: mset_map_filter interleaved_mset flip: map_filter_concat)

text \<open>What an update adds to the results and to the ledger.\<close>

definition result_of :: "run_op \<Rightarrow> run_result option" where
  "result_of x = (case x of Append r \<Rightarrow> Some r | Recall e \<Rightarrow> Some (Prior e) | _ \<Rightarrow> None)"

definition line_of :: "run_op \<Rightarrow> ledger_entry option" where
  "line_of x = (case x of LedgerLine e \<Rightarrow> Some e | _ \<Rightarrow> None)"

lemma filter_simps [simp]:
  "List.map_filter f [] = []"
  "List.map_filter f (x # xs) = (case f x of None \<Rightarrow> List.map_filter f xs | Some y \<Rightarrow> y # List.map_filter f xs)"
  by (simp_all add: List.map_filter_def split: option.split)

lemma run_results: "rn_results (fold apply_op ys s) = rn_results s @ List.map_filter result_of ys"
  by (induction ys arbitrary: s) (simp_all add: apply_op_def result_of_def split: run_op.split)

lemma run_ledger: "rn_ledger (fold apply_op ys s) = fold ledger_Write (List.map_filter line_of ys) (rn_ledger s)"
  by (induction ys arbitrary: s) (simp_all add: apply_op_def line_of_def split: run_op.split)

subsection \<open>What one case adds\<close>

definition mute :: "run_op list \<Rightarrow> bool" where
  "mute xs \<longleftrightarrow> List.map_filter result_of xs = [] \<and> List.map_filter line_of xs = []"

lemma mute_simps [simp]:
  "mute []" "mute (x # xs) \<longleftrightarrow> result_of x = None \<and> line_of x = None \<and> mute xs"
  "mute (xs @ ys) \<longleftrightarrow> mute xs \<and> mute ys" "result_of (said R c t) = None" "line_of (said R c t) = None"
  "result_of Leftover = None" "line_of Leftover = None" "result_of (Strand n d) = None" "line_of (Strand n d) = None"
  by (auto simp: mute_def result_of_def line_of_def said_def split: option.split)

lemma mute_concat: "(\<And>x. x \<in> set xs \<Longrightarrow> mute (f x)) \<Longrightarrow> mute (concat (map f xs))"
  by (induction xs) simp_all

lemma reset_adds:
  obtains xs a h where "shard_reset R E cl s = s\<lparr>ss_hist := ss_hist s @ [HasReset a h], ss_ops := ss_ops s @ xs\<rparr>"
    and "mute xs"
proof -
  obtain a h where "Reset (se_reset E (ss_hist s)) [] = (a, h)" by (cases "Reset (se_reset E (ss_hist s)) []")
  then show thesis
    by (intro that [of "drop (length (ss_ops s)) (ss_ops (shard_reset R E cl s))" a h]) (auto simp: shard_reset_def intro!: mute_concat split: sum.split)
qed

definition results_in :: "shard_state \<Rightarrow> run_result list" where
  "results_in s = List.map_filter result_of (ss_ops s)"

definition lines_in :: "shard_state \<Rightarrow> ledger_entry list" where
  "lines_in s = List.map_filter line_of (ss_ops s)"

lemmas views = results_in_def lines_in_def

text \<open>The name under which the result of a path is kept, and the lines that a shard may write.\<close>

definition case_label :: "run_cfg \<Rightarrow> string \<Rightarrow> string" where
  "case_label R p =
     (case map_of (rc_done R) (rel_path (rc_scenario R) p) of
        Some prior \<Rightarrow> le_Case prior
      | None \<Rightarrow> (case rc_file R p of Inl _ \<Rightarrow> p | Inr _ \<Rightarrow> rel_path (rc_scenario R) p))"

definition fresh_line :: "run_cfg \<Rightarrow> shard_env \<Rightarrow> ledger_entry \<Rightarrow> bool" where
  "fresh_line R E e \<longleftrightarrow> le_Case e \<notin> dom (map_of (rc_done R)) \<and>
     le_Outcome e \<in> outcome_text ` (- {NoOutcome}) \<and> le_Took e \<in> range (se_took E)"

lemma reset_views:
  "results_in (shard_reset R E cl s) = results_in s" "lines_in (shard_reset R E cl s) = lines_in s"
  by (rule reset_adds [of R E cl s]; simp add: views mute_def)+

lemma run_views:
  obtains r e where "results_in (shard_run R E cl p rel sql s) = results_in s @ [r]" "result_case r = rel"
    "lines_in (shard_run R E cl p rel sql s) = lines_in s @ [e]" "le_Case e = rel"
    "le_Outcome e \<in> outcome_text ` (- {NoOutcome})" "le_Took e \<in> range (se_took E)"
proof -
  obtain c h where c: "RunCase (se_pair E (ss_hist s)) rel sql (rc_keepDir R \<noteq> []) (rc_addKey R) = (c, h)"
    by (cases "RunCase (se_pair E (ss_hist s)) rel sql (rc_keepDir R \<noteq> []) (rc_addKey R)")
  let ?t = "se_took E (ss_hist s)"
  show thesis
    using case_named [OF c]
    by (intro that [of "Fresh c ?t" "ledger_of c ?t"])
      (simp_all add: shard_run_def c views Let_def said_def result_of_def line_of_def result_case_def ledger_of_def)
qed

lemma case_views:
  obtains r es where "results_in (shard_case R E cl p s) = results_in s @ [r]" "result_case r = case_label R p"
    "lines_in (shard_case R E cl p s) = lines_in s @ es" "subseq (map le_Case es) [rel_path (rc_scenario R) p]"
    "\<forall>e \<in> set es. fresh_line R E e"
proof (cases "map_of (rc_done R) (rel_path (rc_scenario R) p)")
  case (Some prior)
  show thesis
    by (rule that [of "Prior prior" "[]"])
      (simp_all add: shard_case_def Some views result_of_def line_of_def result_case_def case_label_def)
next
  case None
  define u where "u = (if rc_resetEvery R = ''case'' \<or> file_dir p \<noteq> ss_lastDir s then shard_reset R E cl s else s)
    \<lparr>ss_lastDir := file_dir p\<rparr>"
  have u: "results_in u = results_in s" "lines_in u = lines_in s"
    using reset_views [of R E cl s] by (simp_all add: u_def views)
  show thesis
  proof (cases "rc_file R p")
    case (Inl e)
    show thesis
      by (rule that [of "Fresh (unread_result p e) 0" "[]"], insert u, unfold u_def)
        (simp_all add: shard_case_def None Inl views Let_def result_of_def line_of_def result_case_def case_label_def
          unread_result_def blank_result_def)
  next
    case (Inr sql)
    have "shard_case R E cl p s = shard_run R E cl p (rel_path (rc_scenario R) p) sql u"
      by (simp add: shard_case_def None Inr Let_def u_def)
    moreover obtain r e where "results_in (shard_run R E cl p (rel_path (rc_scenario R) p) sql u) = results_in u @ [r]"
      "result_case r = rel_path (rc_scenario R) p"
      "lines_in (shard_run R E cl p (rel_path (rc_scenario R) p) sql u) = lines_in u @ [e]"
      "le_Case e = rel_path (rc_scenario R) p" "le_Outcome e \<in> outcome_text ` (- {NoOutcome})" "le_Took e \<in> range (se_took E)"
      by (rule run_views)
    ultimately show thesis
      using None by (intro that [of r "[e]"]) (simp_all add: u case_label_def Inr fresh_line_def domIff)
  qed
qed

subsection \<open>What a shard adds\<close>

lemma loop_views:
  obtains rs es k where "results_in (shard_loop R E cl ps s) = results_in s @ rs" "map result_case rs = map (case_label R) (take k ps)"
    "(\<forall>h. \<not> se_cancelled E h) \<longrightarrow> length ps \<le> k"
    "lines_in (shard_loop R E cl ps s) = lines_in s @ es" "subseq (map le_Case es) (map (rel_path (rc_scenario R)) ps)"
    "\<forall>e \<in> set es. fresh_line R E e"
proof (induction ps arbitrary: s thesis)
  case Nil
  show ?case by (rule Nil [of "[]" 0 "[]"]) simp_all
next
  case (Cons p ps)
  show ?case
  proof (cases "se_cancelled E (ss_hist s)")
    case True
    show ?thesis by (rule Cons.prems [of "[]" 0 "[]"]) (use True in auto)
  next
    case False
    obtain r es1 where 1: "results_in (shard_case R E cl p s) = results_in s @ [r]" "result_case r = case_label R p"
      "lines_in (shard_case R E cl p s) = lines_in s @ es1" "subseq (map le_Case es1) [rel_path (rc_scenario R) p]"
      "\<forall>e \<in> set es1. fresh_line R E e"
      by (rule case_views)
    obtain rs es k where 2: "results_in (shard_loop R E cl ps (shard_case R E cl p s)) = results_in (shard_case R E cl p s) @ rs"
      "map result_case rs = map (case_label R) (take k ps)" "(\<forall>h. \<not> se_cancelled E h) \<longrightarrow> length ps \<le> k"
      "lines_in (shard_loop R E cl ps (shard_case R E cl p s)) = lines_in (shard_case R E cl p s) @ es"
      "subseq (map le_Case es) (map (rel_path (rc_scenario R)) ps)" "\<forall>e \<in> set es. fresh_line R E e"
      by (rule Cons.IH [where s = "shard_case R E cl p s"])
    have "subseq (map le_Case es1 @ map le_Case es) ([rel_path (rc_scenario R) p] @ map (rel_path (rc_scenario R)) ps)"
      using 1(4) 2(5) by (rule list_emb_append_mono)
    then show ?thesis
      using False 1 2 by (intro Cons.prems [of "r # rs" "Suc k" "es1 @ es"]) auto
  qed
qed

subsection \<open>All shards\<close>

type_synonym shard_spec = "string \<times> shard_env \<times> string list"

definition shard_ops :: "run_cfg \<Rightarrow> shard_spec \<Rightarrow> run_op list" where
  "shard_ops R x = (case x of (cl, E, ps) \<Rightarrow> ss_ops (shard R E cl ps))"

definition spec_cases :: "shard_spec \<Rightarrow> string list" where
  "spec_cases x = snd (snd x)"

definition uncancelled :: "shard_spec \<Rightarrow> bool" where
  "uncancelled x \<longleftrightarrow> (\<forall>h. \<not> se_cancelled (fst (snd x)) h)"

definition shard_lines :: "run_cfg \<Rightarrow> shard_spec \<Rightarrow> ledger_entry list" where
  "shard_lines R x = List.map_filter line_of (shard_ops R x)"

lemma shard_views:
  obtains rs k where "List.map_filter result_of (shard_ops R x) = rs" "map result_case rs = map (case_label R) (take k (spec_cases x))"
    "uncancelled x \<longrightarrow> length (spec_cases x) \<le> k"
    "subseq (map le_Case (shard_lines R x)) (map (rel_path (rc_scenario R)) (spec_cases x))"
    "\<forall>e \<in> set (shard_lines R x). fresh_line R (fst (snd x)) e"
proof -
  obtain cl E ps where x: "x = (cl, E, ps)" by (cases x)
  have none: "results_in shard_start = []" "lines_in shard_start = []" by (simp_all add: shard_start_def views)
  show thesis
    by (rule loop_views [of R E cl ps shard_start], rule that)
      (auto simp: x none shard_ops_def shard_lines_def shard_def spec_cases_def uncancelled_def simp flip: views)
qed

lemma shards_results:
  "mset (map result_case (concat (map (\<lambda>x. List.map_filter result_of (shard_ops R x)) shards))) \<subseteq>#
     mset (map (case_label R) (concat (map spec_cases shards)))"
  "\<forall>x \<in> set shards. uncancelled x \<Longrightarrow>
     mset (map result_case (concat (map (\<lambda>x. List.map_filter result_of (shard_ops R x)) shards))) =
     mset (map (case_label R) (concat (map spec_cases shards)))"
proof (induction shards)
  case (Cons x xs)
  case 1
  show ?case
  proof (rule shard_views [of R x])
    fix rs k assume rs: "List.map_filter result_of (shard_ops R x) = rs"
      "map result_case rs = map (case_label R) (take k (spec_cases x))"
    have "mset (map result_case rs) \<subseteq># mset (map (case_label R) (spec_cases x))"
      unfolding rs(2) by (metis append_take_drop_id map_append mset_append mset_subset_eq_add_left)
    then show ?thesis using rs(1) Cons.IH(1) by (simp add: subset_mset.add_mono)
  qed
  case 2
  show ?case
  proof (rule shard_views [of R x])
    fix rs k assume "List.map_filter result_of (shard_ops R x) = rs"
      "map result_case rs = map (case_label R) (take k (spec_cases x))" "uncancelled x \<longrightarrow> length (spec_cases x) \<le> k"
    then have "map result_case (List.map_filter result_of (shard_ops R x)) = map (case_label R) (spec_cases x)"
      using 2 by simp
    then show ?thesis using Cons.IH(2) 2 by (simp flip: mset_map)
  qed
qed simp_all

text \<open>
  C13: However the shards take turns, the run ends with at most one result for each case of the
  corpus and none for anything else; if the run was not interrupted, with exactly one for each.
\<close>

theorem every_dealt_case_has_one_result:
  assumes "0 < n" and "map spec_cases shards = deal n (rc_resetEvery R) cs"
    and "interleaved (map (shard_ops R) shards) order"
  shows "mset (map result_case (rn_results (fold apply_op order (run_start t)))) \<subseteq># mset (map (case_label R) cs) \<and>
    ((\<forall>x \<in> set shards. uncancelled x) \<longrightarrow>
     mset (map result_case (rn_results (fold apply_op order (run_start t)))) = mset (map (case_label R) cs))"
proof -
  have r: "mset (map result_case (rn_results (fold apply_op order (run_start t)))) =
      mset (map result_case (concat (map (\<lambda>x. List.map_filter result_of (shard_ops R x)) shards)))"
    using interleaved_filter [OF assms(3), of result_of] by (simp add: run_results run_start_def comp_def)
  have c: "mset (map (case_label R) (concat (map spec_cases shards))) = mset (map (case_label R) cs)"
    using deal_mset [OF assms(1)] by (simp add: assms(2))
  show ?thesis unfolding r using shards_results(1) [where R = R and shards = shards] shards_results(2) [where R = R and shards = shards] c by simp
qed

lemma subseq_keeps_distinct: "subseq xs ys \<Longrightarrow> distinct ys \<Longrightarrow> distinct xs"
  by (induction rule: list_emb.induct) (auto dest: subseq_set)

lemma lines_of_shards:
  "subseq (map le_Case (concat (map (shard_lines R) shards))) (map (rel_path (rc_scenario R)) (concat (map spec_cases shards)))"
proof (induction shards)
  case (Cons x xs)
  have "subseq (map le_Case (shard_lines R x)) (map (rel_path (rc_scenario R)) (spec_cases x))"
    by (rule shard_views [of R x])
  then show ?case using Cons by (simp add: list_emb_append_mono)
qed simp

definition plain_run :: "run_cfg \<Rightarrow> shard_spec list \<Rightarrow> bool" where
  "plain_run R shards \<longleftrightarrow>
     distinct (map (rel_path (rc_scenario R)) (concat (map spec_cases shards))) \<and>
     (\<forall>p \<in> set (concat (map spec_cases shards)). rel_path (rc_scenario R) p \<noteq> [] \<and>
        set (rel_path (rc_scenario R) p) \<inter> {TAB, LF} = {}) \<and>
     (\<forall>x \<in> set shards. \<forall>h. 0 \<le> se_took (fst (snd x)) h \<and> se_took (fst (snd x)) h \<le> int_hi)"

lemma outcome_plain: "k \<noteq> NoOutcome \<Longrightarrow> outcome_text k \<noteq> [] \<and> set (outcome_text k) \<inter> {TAB, LF} = {}"
  by (cases k) (simp_all add: outcome_text_def control)

lemma lines_plain:
  assumes "plain_run R shards" "x \<in> set shards" "e \<in> set (shard_lines R x)"
  shows "plain_entry e" "le_Case e \<notin> dom (map_of (rc_done R))"
proof -
  have f: "fresh_line R (fst (snd x)) e" and s: "subseq (map le_Case (shard_lines R x)) (map (rel_path (rc_scenario R)) (spec_cases x))"
    by (rule shard_views [of R x], use assms(3) in blast)+
  have "le_Case e \<in> set (map (rel_path (rc_scenario R)) (spec_cases x))"
    using subseq_set [OF s] assms(3) by auto
  then obtain p where "p \<in> set (spec_cases x)" "le_Case e = rel_path (rc_scenario R) p" by auto
  then have "le_Case e \<noteq> [] \<and> set (le_Case e) \<inter> {TAB, LF} = {}"
    using assms(1,2) unfolding plain_run_def by fastforce
  moreover have "0 \<le> le_Took e \<and> le_Took e \<le> int_hi" using f assms(1,2) by (auto simp: fresh_line_def plain_run_def)
  moreover obtain k where "k \<noteq> NoOutcome" "le_Outcome e = outcome_text k" using f by (auto simp: fresh_line_def)
  then have "le_Outcome e \<noteq> [] \<and> set (le_Outcome e) \<inter> {TAB, LF} = {}" using outcome_plain by simp
  ultimately show "plain_entry e" by (simp add: plain_entry_def)
  show "le_Case e \<notin> dom (map_of (rc_done R))" using f by (simp add: fresh_line_def)
qed

lemma ledger_of_run:
  assumes "plain_run R shards" "interleaved (map (shard_ops R) shards) order" "\<forall>e \<in> set old. plain_entry e"
  shows "map_of (Judged (rn_ledger (fold apply_op order (run_start (fold ledger_Write old (Some [])))))) c =
    last_verdict (old @ concat (map (shard_lines R) shards)) c"
proof -
  let ?new = "List.map_filter line_of order" and ?all = "concat (map (shard_lines R) shards)"
  have m: "mset ?new = mset ?all"
    using interleaved_filter [OF assms(2), of line_of] by (simp add: shard_lines_def [abs_def] comp_def)
  have "distinct (map le_Case ?all)"
    using lines_of_shards [of R shards] assms(1) subseq_keeps_distinct unfolding plain_run_def by blast
  then have same: "last_verdict (old @ ?new) c = last_verdict (old @ ?all) c"
    using last_verdict_order [of ?all ?new old c] m by simp
  have "\<forall>e \<in> set ?new. plain_entry e"
    using lines_plain(1) [OF assms(1)] mset_eq_setD [OF m] by auto
  then have "map_of (Judged (fold ledger_Write (old @ ?new) (Some []))) c = last_verdict (old @ ?new) c"
    using assms(3) by (intro ledger_after) auto
  then show ?thesis by (simp add: run_ledger run_start_def same)
qed

text \<open>
  C11: Whatever order the shards take turns in, a run leaves the same verdicts for the next one: the
  ledger reads as if the shards had written after each other.
\<close>

theorem ledger_keeps_no_order:
  assumes "plain_run R shards" "\<forall>e \<in> set old. plain_entry e"
    and "interleaved (map (shard_ops R) shards) order" "interleaved (map (shard_ops R) shards) order'"
  shows "map_of (Judged (rn_ledger (fold apply_op order (run_start (fold ledger_Write old (Some [])))))) =
    map_of (Judged (rn_ledger (fold apply_op order' (run_start (fold ledger_Write old (Some []))))))"
  using assms by (auto simp: ledger_of_run)

text \<open>
  A run that resumes leaves the verdicts it resumed alone: a case the ledger had decided has the
  same verdict in it afterwards, and is among the results as that verdict.
\<close>

theorem resumed_verdicts_stand:
  assumes "plain_run R shards" "\<forall>e \<in> set old. plain_entry e" "interleaved (map (shard_ops R) shards) order"
    and "rc_done R = Judged (fold ledger_Write old (Some []))" "map_of (rc_done R) c = Some v"
  shows "map_of (Judged (rn_ledger (fold apply_op order (run_start (fold ledger_Write old (Some [])))))) c = Some v"
proof -
  have "le_Case e \<noteq> c" if "e \<in> set (concat (map (shard_lines R) shards))" for e
    using lines_plain(2) [OF assms(1)] that assms(5) by (fastforce simp: domIff)
  then have "find (\<lambda>r. le_Case r = c) (rev (concat (map (shard_lines R) shards))) = None"
    by (subst find_None_iff) (metis set_rev)
  moreover have "last_verdict old c = Some v"
    using assms(4,5) ledger_after [OF assms(2)] by simp
  ultimately show ?thesis
    unfolding ledger_of_run [OF assms(1,3,2)] by (simp add: last_verdict_def find_append del: rev_concat)
qed

subsection \<open>Witnesses\<close>

lemma in_turn: "interleaved ls (concat ls)"
proof (induction "length (concat ls)" arbitrary: ls)
  case 0
  then have "\<forall>l \<in> set ls. l = []" "concat ls = []" by simp_all
  then show ?case by (metis interleaved.all_ended)
next
  case (Suc n)
  then obtain a x xs b where ls: "ls = replicate a [] @ (x # xs) # b"
  proof (induction ls arbitrary: thesis)
    case (Cons l ls)
    show ?case
    proof (cases l)
      case Nil
      then have "Suc n = length (concat ls)" using Cons.prems by simp
      then obtain a x xs b where "ls = replicate a [] @ (x # xs) # b" using Cons.IH Suc.hyps(1) by blast
      then show ?thesis using Nil by (intro Cons.prems(1) [of "Suc a"]) simp
    next
      case (Cons x xs)
      show ?thesis by (rule Cons.prems(1) [of 0 x xs ls]) (use Cons in simp)
    qed
  qed simp
  have c: "concat (replicate a [] @ (x # xs) # b) = x # concat (replicate a [] @ xs # b)" by simp
  have "interleaved (replicate a [] @ xs # b) (concat (replicate a [] @ xs # b))"
    using Suc.hyps(2) unfolding ls c by (intro Suc.hyps(1)) simp
  then show ?case unfolding ls c by (intro interleaved.one_moves [of a]) (simp_all add: nth_append list_update_append)
qed

lemma other_turn: "interleaved [a, b] (b @ a)"
proof (induction b)
  case Nil
  show ?case using in_turn [of "[a, []]"] by simp
next
  case (Cons x b)
  then show ?case using interleaved.one_moves [of 1 "[a, x # b]" x b "b @ a"] by simp
qed

definition demo_shard :: shard_env where
  "demo_shard = \<lparr>se_pair = (\<lambda>_. demo_pair ''a''),
     se_reset = (\<lambda>_. \<lparr>re_db = ''d'', re_slaves = [], re_run = (\<lambda>_ _. Inl ''x''), re_wait = (\<lambda>_. None)\<rparr>),
     se_cancelled = (\<lambda>_. False), se_took = (\<lambda>_. 0)\<rparr>"

definition demo_run :: run_cfg where
  "demo_run = \<lparr>rc_scenario = ''s'', rc_file = (\<lambda>_. Inr ''select 1''), rc_keepDir = ''k'', rc_addKey = False,
     rc_resetEvery = ''case'', rc_done = [(''b'', \<lparr>le_Case = ''b'', le_Outcome = ''same'', le_Detail = [], le_Took = 0\<rparr>)],
     rc_prefix = True\<rparr>"

definition demo_shards :: "shard_spec list" where
  "demo_shards = [(''p1'', demo_shard, [''s/a'']), (''p2'', demo_shard, [''s/b''])]"

definition demo_order :: "run_op list" where
  "demo_order = shard_ops demo_run (demo_shards ! 1) @ shard_ops demo_run (demo_shards ! 0)"

definition demo_old :: "ledger_entry list" where
  "demo_old = [\<lparr>le_Case = ''b'', le_Outcome = ''same'', le_Detail = [], le_Took = 0\<rparr>]"

lemma demo_paths: "rel_path ''s'' ''s/a'' = ''a''" "rel_path ''s'' ''s/b'' = ''b''"
  by (simp_all add: rel_path_def trim_prefix_def)

lemma demo_runs:
  "interleaved (map (shard_ops demo_run) demo_shards) demo_order"
  "interleaved (map (shard_ops demo_run) demo_shards) (concat (map (shard_ops demo_run) demo_shards))"
  "plain_run demo_run demo_shards" "\<forall>e \<in> set demo_old. plain_entry e"
proof -
  show "interleaved (map (shard_ops demo_run) demo_shards) demo_order"
    using other_turn by (simp add: demo_order_def demo_shards_def)
  show "interleaved (map (shard_ops demo_run) demo_shards) (concat (map (shard_ops demo_run) demo_shards))"
    by (rule in_turn)
  show "plain_run demo_run demo_shards" "\<forall>e \<in> set demo_old. plain_entry e"
    by (simp_all add: plain_run_def demo_shards_def demo_run_def demo_paths spec_cases_def demo_shard_def control
        int_hi_def demo_old_def plain_entry_def)
qed

theorem every_dealt_case_has_one_result_witness:
  "mset (map result_case (rn_results (fold apply_op demo_order (run_start None)))) = {#''a'', ''b''#}"
proof -
  have d: "map spec_cases demo_shards = deal 2 (rc_resetEvery demo_run) [''s/a'', ''s/b'']"
    by (simp add: demo_shards_def spec_cases_def deal_def demo_run_def deal_to_def numeral_2_eq_2)
  have u: "\<forall>x \<in> set demo_shards. uncancelled x"
    by (simp add: demo_shards_def uncancelled_def demo_shard_def)
  have "map (case_label demo_run) [''s/a'', ''s/b''] = [''a'', ''b'']"
    by (simp add: case_label_def demo_run_def demo_paths)
  then show ?thesis
    using every_dealt_case_has_one_result [OF _ d demo_runs(1), of None] u by simp
qed

theorem ledger_keeps_no_order_witness:
  "map_of (Judged (rn_ledger (fold apply_op demo_order (run_start (fold ledger_Write demo_old (Some [])))))) =
   map_of (Judged (rn_ledger (fold apply_op (concat (map (shard_ops demo_run) demo_shards))
     (run_start (fold ledger_Write demo_old (Some []))))))"
  by (rule ledger_keeps_no_order [OF demo_runs(3,4,1,2)])

theorem resumed_verdicts_stand_witness:
  "map_of (Judged (rn_ledger (fold apply_op demo_order (run_start (fold ledger_Write demo_old (Some [])))))) ''b'' =
   Some \<lparr>le_Case = ''b'', le_Outcome = ''same'', le_Detail = [], le_Took = 0\<rparr>"
proof -
  have k: "kept_entry (hd demo_old) = hd demo_old" 
    by (simp add: demo_old_def kept_entry_def ledger_detail_def replace_all.simps)
  have "Judged (fold ledger_Write demo_old (Some [])) = judge_line (ledger_text (hd demo_old)) []"
    unfolding judged_lines [OF demo_runs(4)] by (simp add: demo_old_def)
  also have "\<dots> = rc_done demo_run"
    using parse_text [of "hd demo_old"] demo_runs(4) unfolding k
    by (simp add: demo_old_def judge_line_def undecided_def demo_run_def)
  finally have d: "rc_done demo_run = Judged (fold ledger_Write demo_old (Some []))" by simp
  have "map_of (rc_done demo_run) ''b'' = Some \<lparr>le_Case = ''b'', le_Outcome = ''same'', le_Detail = [], le_Took = 0\<rparr>"
    by (simp add: demo_run_def)
  then show ?thesis by (rule resumed_verdicts_stand [OF demo_runs(3,4,1) d])
qed

end
