(* ===== verification/Harepl_Start_Claims.thy ===== *)
theory Harepl_Start_Claims
  imports Harepl_Run_Claims
begin

text \<open>
  The state a case starts from. Under a reset per case the database is reset right before every case;
  under a reset per directory, before the first case of every directory. A resumed run breaks the
  second: the cases it recalls move the boundary without a reset.
\<close>

text \<open>The cases run since the last reset, \<open>None\<close> before the first one.\<close>

definition since_step :: "shard_event \<Rightarrow> string list option \<Rightarrow> string list option" where
  "since_step x q = (case x of HasReset _ _ \<Rightarrow> Some [] | HasRun p _ _ \<Rightarrow> map_option (Cons p) q | _ \<Rightarrow> q)"

definition since_reset :: "shard_event list \<Rightarrow> string list option" where
  "since_reset h = fold since_step h None"

definition fresh_for :: "run_cfg \<Rightarrow> string \<Rightarrow> shard_event list \<Rightarrow> bool" where
  "fresh_for R p h \<longleftrightarrow> (case since_reset h of None \<Rightarrow> False
     | Some qs \<Rightarrow> \<forall>q \<in> set qs. rc_resetEvery R \<noteq> ''case'' \<and> file_dir q = file_dir p)"

definition starts_fresh :: "run_cfg \<Rightarrow> shard_event list \<Rightarrow> bool" where
  "starts_fresh R h \<longleftrightarrow> (\<forall>g p r x k. h = g @ HasRun p r x # k \<longrightarrow> fresh_for R p g)"

lemma since_snoc [simp]: "since_reset (h @ [x]) = since_step x (since_reset h)"
  by (simp add: since_reset_def)

lemma starts_snoc:
  "starts_fresh R (h @ [x]) \<longleftrightarrow> starts_fresh R h \<and> (case x of HasRun p _ _ \<Rightarrow> fresh_for R p h | _ \<Rightarrow> True)"
proof -
  have split: "h @ [x] = g @ y # k \<longleftrightarrow> (k = [] \<and> g = h \<and> y = x) \<or> (\<exists>k'. k = k' @ [x] \<and> h = g @ y # k')" for g y k
    by (cases k rule: rev_cases) auto
  show ?thesis unfolding starts_fresh_def split by (cases x) auto
qed

lemma file_dir_not_Nil [simp]: "file_dir p \<noteq> []"
proof (cases "last_index_of p ''/''")
  case (Some i)
  then show ?thesis by (cases p) (auto simp: file_dir_def last_index_of_def split: if_splits)
qed (simp add: file_dir_def)

text \<open>A shard that recalls nothing knows the directory of what ran last.\<close>

definition located :: "run_cfg \<Rightarrow> shard_state \<Rightarrow> bool" where
  "located R s \<longleftrightarrow> starts_fresh R (ss_hist s) \<and>
     (rc_resetEvery R \<noteq> ''case'' \<longrightarrow> (case since_reset (ss_hist s) of None \<Rightarrow> ss_lastDir s = []
       | Some qs \<Rightarrow> \<forall>q \<in> set qs. file_dir q = ss_lastDir s))"

lemma reset_placed:
  assumes "located R s"
  shows "starts_fresh R (ss_hist (shard_reset R E cl s))" "since_reset (ss_hist (shard_reset R E cl s)) = Some []"
    "ss_lastDir (shard_reset R E cl s) = ss_lastDir s"
  by (rule reset_adds [of R E cl s]; use assms in \<open>simp add: located_def starts_snoc since_step_def\<close>)+

lemma case_placed:
  assumes "located R s" "rc_resetEvery R = ''case'' \<or> rc_done R = []"
  shows "located R (shard_case R E cl p s)"
proof (cases "map_of (rc_done R) (rel_path (rc_scenario R) p)")
  case (Some prior)
  then show ?thesis
    using assms by (auto simp: shard_case_def located_def starts_snoc since_step_def)
next
  case None
  define u where "u = (if rc_resetEvery R = ''case'' \<or> file_dir p \<noteq> ss_lastDir s then shard_reset R E cl s else s)
    \<lparr>ss_lastDir := file_dir p\<rparr>"
  have u: "starts_fresh R (ss_hist u)" "fresh_for R p (ss_hist u)" "ss_lastDir u = file_dir p"
    using assms(1) reset_placed [OF assms(1), of E cl]
    by (auto simp: u_def fresh_for_def located_def split: option.splits)
  obtain qs where qs: "since_reset (ss_hist u) = Some qs" "rc_resetEvery R \<noteq> ''case'' \<Longrightarrow> \<forall>q \<in> set qs. file_dir q = file_dir p"
    using u(2) by (auto simp: fresh_for_def split: option.splits)
  show ?thesis
  proof (cases "rc_file R p")
    case (Inl e)
    then have "ss_hist (shard_case R E cl p s) = ss_hist u @ [Unreadable p]" "ss_lastDir (shard_case R E cl p s) = file_dir p"
      by (simp_all add: shard_case_def None Let_def u_def)
    then show ?thesis using u qs by (auto simp: located_def starts_snoc since_step_def)
  next
    case (Inr sql)
    have "shard_case R E cl p s = shard_run R E cl p (rel_path (rc_scenario R) p) sql u"
      by (simp add: shard_case_def None Inr Let_def u_def)
    moreover obtain r h where "RunCase (se_pair E (ss_hist u)) (rel_path (rc_scenario R) p) sql (rc_keepDir R \<noteq> []) (rc_addKey R) = (r, h)"
      by (cases "RunCase (se_pair E (ss_hist u)) (rel_path (rc_scenario R) p) sql (rc_keepDir R \<noteq> []) (rc_addKey R)")
    ultimately have "ss_hist (shard_case R E cl p s) = ss_hist u @ [HasRun p r h]"
      "ss_lastDir (shard_case R E cl p s) = file_dir p"
      using u(3) by (simp_all add: shard_run_def Let_def)
    then show ?thesis using u qs by (auto simp: located_def starts_snoc since_step_def)
  qed
qed

text \<open>
  C12: In a run that resets before every case, or that is not a resumed one, only cases of its own
  directory have run on its pair since the last reset before a case, and under a reset per case none
  at all.
\<close>

theorem cases_start_from_a_reset:
  assumes "rc_resetEvery R = ''case'' \<or> rc_done R = []"
  shows "starts_fresh R (ss_hist (shard R E cluster ps))"
proof -
  have "located R (shard_loop R E cluster ps s)" if "located R s" for s
    using that by (induction ps arbitrary: s) (simp_all add: case_placed [OF _ assms])
  moreover have "located R shard_start"
    by (simp add: located_def starts_fresh_def shard_start_def since_reset_def)
  ultimately show ?thesis by (simp add: shard_def located_def)
qed

theorem cases_start_from_a_reset_witness:
  "starts_fresh demo_run (ss_hist (shard demo_run demo_shard ''p1'' [''s/a'', ''s/b'']))"
  by (rule cases_start_from_a_reset) (simp add: demo_run_def)

text \<open>
  A directory whose first case is recalled is not reset: the case after it starts from what the
  directory before left behind.
\<close>

definition resumed_run :: run_cfg where
  "resumed_run = demo_run\<lparr>rc_resetEvery := ''dir'',
     rc_done := [(''b/1'', \<lparr>le_Case = ''b/1'', le_Outcome = ''same'', le_Detail = [], le_Took = 0\<rparr>)]\<rparr>"

lemma resumed_directory_is_not_reset:
  "\<not> starts_fresh resumed_run (ss_hist (shard resumed_run demo_shard ''p1'' [''s/a/1'', ''s/b/1'', ''s/b/2'']))"
proof -
  let ?h = "ss_hist (shard resumed_run demo_shard ''p1'' [''s/a/1'', ''s/b/1'', ''s/b/2''])"
  have paths: "file_dir ''s/a/1'' = ''s/a''" "file_dir ''s/b/1'' = ''s/b''" "file_dir ''s/b/2'' = ''s/b''"
    "rel_path ''s'' ''s/a/1'' = ''a/1''" "rel_path ''s'' ''s/b/1'' = ''b/1''" "rel_path ''s'' ''s/b/2'' = ''b/2''"
    by (simp_all add: file_dir_def last_index_of_def rel_path_def trim_prefix_def)
  have "\<exists>a x r y r' y'. ?h = [HasReset a x, HasRun ''s/a/1'' r y, Recalled ''s/b/1'', HasRun ''s/b/2'' r' y']"
    by (auto simp: shard_def shard_start_def shard_case_def resumed_run_def demo_run_def demo_shard_def paths
        shard_reset_def shard_run_def Let_def split: prod.split)
  then obtain a x r y r' y' where
    "?h = [HasReset a x, HasRun ''s/a/1'' r y, Recalled ''s/b/1''] @ HasRun ''s/b/2'' r' y' # []" by auto
  moreover have "\<not> fresh_for resumed_run ''s/b/2'' [HasReset a x, HasRun ''s/a/1'' r y, Recalled ''s/b/1'']"
    by (simp add: fresh_for_def since_reset_def since_step_def paths)
  ultimately show ?thesis unfolding starts_fresh_def by blast
qed

text \<open>
  The report by pair looks a case up by the last part of its path, where results carry the path
  below the scenario, and does not list the sessions that differed: a case in a directory below the
  scenario is in no count.
\<close>

lemma report_by_pair_misses:
  "reportShards [(''p1'', [''s/cases/a.sql''])] [Prior \<lparr>le_Case = ''cases/a.sql'', le_Outcome = ''differ'', le_Detail = [], le_Took = 0\<rparr>]
   = [[LF] @ ''  per pair:'' @ [LF], ''    p1           1 case(s)  '' @ [LF]]"
proof -
  have one: "itoa 1 = ''1''" by (simp add: itoa_def nat_digits.simps [of "Suc 0"] digit_char_def char_of_def bit_0)
  have "file_base ''s/cases/a.sql'' = ''a.sql''" by (simp add: file_base_def last_index_of_def)
  then show ?thesis
    by (simp add: reportShards_def shard_count_def shard_outcomes_def outcome_text_def result_case_def pad_right_def
        pad_left_def one numeral_eq_Suc)
qed

end
