(* ===== verification/Casecheck.thy ===== *)
theory Casecheck
  imports Decimal Ordering
begin

text \<open>
  The check for cases that cannot fail: \<open>casecheck.go\<close> and \<open>corpus.go\<close> in \<open>internal/casecheck\<close>. The
  regular expressions are written out as scans of the line. Sets are lists; a map from functions to
  the words of their bodies is an association list, and the order Go's \<open>range\<close> walks it in, which
  may differ at each pass, is a parameter. The directory entries come with what reading them gives.
\<close>

subsection \<open>Words of a line\<close>

definition letter :: "char \<Rightarrow> bool" where
  "letter c \<longleftrightarrow> (65 \<le> char_nat c \<and> char_nat c \<le> 90) \<or> (97 \<le> char_nat c \<and> char_nat c \<le> 122) \<or> c = CHR ''_''"

definition word_char :: "char \<Rightarrow> bool" where
  "word_char c \<longleftrightarrow> letter c \<or> is_digit c"

definition blank_char :: "char \<Rightarrow> bool" where
  "blank_char c \<longleftrightarrow> c = CHR '' '' \<or> c = CHR 0x09"

definition regex_space :: "char \<Rightarrow> bool" where
  "regex_space c \<longleftrightarrow> c \<in> {CHR '' '', CHR 0x09, CHR 0x0A, CHR 0x0C, CHR 0x0D}"

definition ident_at :: "string \<Rightarrow> string" where
  "ident_at s = (case s of [] \<Rightarrow> [] | c # _ \<Rightarrow> if letter c then takeWhile word_char s else [])"

function words_of :: "string \<Rightarrow> string list" where
  "words_of [] = []"
| "words_of (c # s) =
     (if letter c then takeWhile word_char (c # s) # words_of (dropWhile word_char s) else words_of s)"
  by pat_completeness auto
termination
  by (relation "measure length") (auto simp: less_Suc_eq_le length_dropWhile_le)

text \<open>A function's declaration at the start of a line.\<close>

definition declared :: "string \<Rightarrow> string option" where
  "declared line =
     (let after = drop 8 line; named = ident_at (dropWhile blank_char after);
          name = ident_at line; rest = dropWhile blank_char (drop (length name) line)
      in if has_prefix line ''function'' \<and> takeWhile blank_char after \<noteq> [] \<and> named \<noteq> [] then Some named
         else if name \<noteq> [] \<and> has_prefix rest ''()'' then Some name
         else None)"

definition command_keywords :: "string list" where
  "command_keywords = [''then'', ''else'', ''elif'', ''do'', ''fi'', ''done'']"

text \<open>The pieces of a line between the places where a command can begin.\<close>

function segments_of :: "string \<Rightarrow> string \<Rightarrow> string list" where
  "segments_of cur [] = [cur]"
| "segments_of cur (c # s) =
     (if c \<in> set '';&|`(){}'' then cur # segments_of [] s
      else if c = CHR ''$'' \<and> has_prefix s ''('' then cur # segments_of [] (tl s)
      else if word_char c then
        (let w = takeWhile word_char (c # s); rest = dropWhile word_char s in
         if w \<in> set command_keywords then cur # segments_of [] rest else segments_of (cur @ w) rest)
      else segments_of (cur @ [c]) s)"
  by pat_completeness auto
termination
  by (relation "measure (\<lambda>(cur, s). length s)") (auto simp: less_Suc_eq_le length_dropWhile_le)

definition command_word :: "string \<Rightarrow> string option" where
  "command_word piece =
     (let seg = trim_space piece;
          head = fst (cut_at (CHR 0x09) (fst (cut_at (CHR '' '') seg)))
      in if seg = [] then None
         else if set head \<inter> set (''=$./'' @ [CHR 0x22, CHR 0x27]) \<noteq> {} then None
         else if head \<noteq> [] \<and> ident_at head = head then Some head
         else None)"

definition commandWords :: "string \<Rightarrow> string list" where
  "commandWords code = List.map_filter command_word (segments_of [] code)"

definition strip :: "string \<Rightarrow> string" where
  "strip line = trim_space (case index_of line ''#'' of Some i \<Rightarrow> take i line | None \<Rightarrow> line)"

subsection \<open>The helper library\<close>

record helpers =
  h_all :: "string list"
  h_failing :: "string list"

record reading =
  rd_all :: "string list"
  rd_direct :: "string list"
  rd_calls :: "(string \<times> string list) list"

definition calls_of :: "(string \<times> string list) list \<Rightarrow> string \<Rightarrow> string list" where
  "calls_of calls f = (case map_of calls f of None \<Rightarrow> [] | Some ws \<Rightarrow> ws)"

definition read_line :: "string \<Rightarrow> string \<times> reading \<Rightarrow> string \<times> reading" where
  "read_line line x =
     (case x of (f, r) \<Rightarrow>
        case declared line of
          Some g \<Rightarrow> (g, r\<lparr>rd_all := g # rd_all r\<rparr>)
        | None \<Rightarrow>
            if f = [] then (f, r)
            else (f, r\<lparr>rd_direct := (if contains line ''write_nok'' \<or> contains line ''NOK''
                                     then f # rd_direct r else rd_direct r),
                       rd_calls := AList.update f (calls_of (rd_calls r) f @ words_of line) (rd_calls r)\<rparr>))"

definition read_file :: "string \<Rightarrow> reading \<Rightarrow> reading" where
  "read_file body r = snd (fold read_line (split_on (CHR 0x0A) body) ([], r))"

text \<open>An entry of the directory: its name, whether it is one itself, what reading it gives.\<close>

type_synonym dir_entry = "string \<times> bool \<times> (string + string)"

fun read_entries :: "dir_entry list \<Rightarrow> reading \<Rightarrow> string + reading" where
  "read_entries [] r = Inr r"
| "read_entries ((name, is_dir, body) # es) r =
     (if is_dir \<or> \<not> has_suffix name ''.sh'' then read_entries es r
      else case body of
        Inl err \<Rightarrow> Inl (''helper '' @ name @ '': '' @ err)
      | Inr t \<Rightarrow> read_entries es (read_file t r))"

definition fail_visit :: "(string \<times> string list) list \<Rightarrow> string \<Rightarrow> string list \<times> bool \<Rightarrow> string list \<times> bool" where
  "fail_visit calls f x =
     (case x of (fs, changed) \<Rightarrow>
        if f \<in> set fs then (fs, changed)
        else if list_ex (\<lambda>w. w \<noteq> f \<and> w \<in> set fs) (calls_of calls f) then (f # fs, True)
        else (fs, changed))"

definition fail_pass :: "(string \<times> string list) list \<Rightarrow> string list \<Rightarrow> string list \<Rightarrow> string list \<times> bool" where
  "fail_pass calls walk fs = fold (fail_visit calls) walk (fs, False)"

partial_function (option) fail_passes ::
  "(nat \<Rightarrow> string list) \<Rightarrow> (string \<times> string list) list \<Rightarrow> nat \<Rightarrow> string list \<Rightarrow> string list option" where
  "fail_passes walk calls n fs =
     (let x = fail_pass calls (walk n) fs in
      if snd x then fail_passes walk calls (n + 1) (fst x) else Some (fst x))"

definition ReadHelpers ::
  "(nat \<Rightarrow> string list \<Rightarrow> string list) \<Rightarrow> string \<Rightarrow> string + dir_entry list \<Rightarrow> (string + helpers) option" where
  "ReadHelpers order dir entries =
     (case entries of
        Inl err \<Rightarrow> Some (Inl (''helper library '' @ dir @ '': '' @ err))
      | Inr es \<Rightarrow>
          (case read_entries es \<lparr>rd_all = [], rd_direct = [], rd_calls = []\<rparr> of
             Inl err \<Rightarrow> Some (Inl err)
           | Inr r \<Rightarrow>
               map_option (\<lambda>fs. Inr \<lparr>h_all = ''write_nok'' # rd_all r, h_failing = fs\<rparr>)
                 (fail_passes (\<lambda>n. order n (map fst (rd_calls r))) (rd_calls r) 0 (''write_nok'' # rd_direct r))))"

subsection \<open>The distance between two words\<close>

definition min3 :: "nat \<Rightarrow> nat \<Rightarrow> nat \<Rightarrow> nat" where
  "min3 a b c = min a (min b c)"

definition damerau_cell :: "string \<Rightarrow> string \<Rightarrow> nat \<Rightarrow> nat list \<Rightarrow> nat list \<Rightarrow> nat list \<Rightarrow> nat \<Rightarrow> nat" where
  "damerau_cell a b i prev2 prev cur j =
     (let cost = (if a ! (i - 1) = b ! (j - 1) then 0 else 1);
          best = min3 (cur ! (j - 1) + 1) (prev ! j + 1) (prev ! (j - 1) + cost)
      in if 1 < i \<and> 1 < j \<and> a ! (i - 1) = b ! (j - 2) \<and> a ! (i - 2) = b ! (j - 1)
         then min best (prev2 ! (j - 2) + 1) else best)"

definition damerau_row :: "string \<Rightarrow> string \<Rightarrow> nat \<Rightarrow> nat list \<Rightarrow> nat list \<Rightarrow> nat list \<Rightarrow> nat list" where
  "damerau_row a b i prev2 prev cur =
     fold (\<lambda>j row. row[j := damerau_cell a b i prev2 prev row j]) [1..<Suc (length b)] (cur[0 := i])"

definition damerau_turn :: "string \<Rightarrow> string \<Rightarrow> nat \<Rightarrow> nat list \<times> nat list \<times> nat list \<Rightarrow> nat list \<times> nat list \<times> nat list" where
  "damerau_turn a b i x =
     (case x of (prev2, prev, cur) \<Rightarrow> let cur' = damerau_row a b i prev2 prev cur in (prev, cur', cur'))"

definition damerau :: "string \<Rightarrow> string \<Rightarrow> nat" where
  "damerau a b =
     (if a = b then 0
      else if 1 < \<bar>int (length a) - int (length b)\<bar> then 3
      else (let zeros = replicate (length b + 1) 0 in
        case fold (damerau_turn a b) [1..<Suc (length a)] (zeros, [0..<Suc (length b)], zeros) of
          (_, prev, _) \<Rightarrow> prev ! length b))"

subsection \<open>One case\<close>

datatype rule = CannotFail | MisspeltVerdict | SelfComparison

record finding =
  f_case :: string
  f_rule :: rule
  f_line :: nat
  f_detail :: string

definition quote :: "string \<Rightarrow> string" where
  "quote w = [CHR 0x22] @ w @ [CHR 0x22]"

definition verdictNames :: "helpers \<Rightarrow> string list" where
  "verdictNames h = sort_strings ([''write_ok'', ''write_nok''] @ remdups (h_failing h))"

definition misspelt :: "helpers \<Rightarrow> string \<Rightarrow> nat \<Rightarrow> string \<Rightarrow> string list \<Rightarrow> finding list" where
  "misspelt h path line code own =
     List.map_filter (\<lambda>w.
       if w \<in> set (h_all h) \<or> w \<in> set own \<or> length w < 5 then None
       else map_option (\<lambda>v. \<lparr>f_case = path, f_rule = MisspeltVerdict, f_line = line,
              f_detail = quote w @ '' is one typo from '' @ quote v @
                '' and is defined nowhere, so this line reports nothing''\<rparr>)
            (find (\<lambda>v. damerau w v = 1) (verdictNames h)))
       (commandWords code)"

definition compare_args :: "string \<Rightarrow> string \<Rightarrow> (string \<times> string) option" where
  "compare_args w rest =
     (let s1 = dropWhile blank_char rest; x = takeWhile (\<lambda>c. \<not> regex_space c) s1;
          r1 = dropWhile (\<lambda>c. \<not> regex_space c) s1;
          s2 = dropWhile blank_char r1; y = takeWhile (\<lambda>c. \<not> regex_space c) s2
      in if w \<in> {''compare_result_between_files'', ''compare_result''} \<and> takeWhile blank_char rest \<noteq> [] \<and>
            x \<noteq> [] \<and> takeWhile blank_char r1 \<noteq> [] \<and> y \<noteq> []
         then Some (x, y) else None)"

function find_compare :: "string \<Rightarrow> (string \<times> string \<times> string) option" where
  "find_compare [] = None"
| "find_compare (c # s) =
     (if word_char c then
        (let w = takeWhile word_char (c # s); rest = dropWhile word_char s in
         case compare_args w rest of Some (x, y) \<Rightarrow> Some (w, x, y) | None \<Rightarrow> find_compare rest)
      else find_compare s)"
  by pat_completeness auto
termination
  by (relation "measure length") (auto simp: less_Suc_eq_le length_dropWhile_le)

definition selfComparison :: "string \<Rightarrow> nat \<Rightarrow> string \<Rightarrow> finding list" where
  "selfComparison path line code =
     (case find_compare code of
        None \<Rightarrow> []
      | Some (w, x, y) \<Rightarrow>
          if x \<noteq> y then []
          else [\<lparr>f_case = path, f_rule = SelfComparison, f_line = line,
                 f_detail = w @ '' compares '' @ x @ '' against itself, which cannot differ''\<rparr>])"

definition code_can_fail :: "helpers \<Rightarrow> string list \<Rightarrow> string \<Rightarrow> bool" where
  "code_can_fail h own code =
     (contains code ''NOK'' \<or> list_ex (\<lambda>w. w \<in> set (h_failing h) \<or> w \<in> set own) (words_of code))"

definition check_line :: "helpers \<Rightarrow> string \<Rightarrow> string list \<Rightarrow> nat \<times> string \<Rightarrow> finding list" where
  "check_line h path own x =
     (case x of (i, line) \<Rightarrow>
        let code = strip line in
        if code = [] then [] else misspelt h path (i + 1) code own @ selfComparison path (i + 1) code)"

definition Check :: "helpers \<Rightarrow> string \<Rightarrow> string \<Rightarrow> finding list" where
  "Check h path body =
     (let lines = split_on (CHR 0x0A) body; own = List.map_filter declared lines;
          canFail = list_ex (\<lambda>line. strip line \<noteq> [] \<and> code_can_fail h own (strip line)) lines
      in concat (map (check_line h path own) (enumerate 0 lines)) @
         (if \<not> canFail
          then [\<lparr>f_case = path, f_rule = CannotFail, f_line = 0,
                 f_detail = ''no call reaches write_nok and the case prints no NOK line, so its result cannot contain one''\<rparr>]
          else []))"

definition Count :: "finding list \<Rightarrow> rule \<Rightarrow> nat" where
  "Count fs r = length (remdups (map f_case (filter (\<lambda>f. f_rule f = r) fs)))"

end
