(* ===== verification/Casecheck_Claims.thy ===== *)
theory Casecheck_Claims
  imports Casecheck
begin

text \<open>
  What the check for cases that cannot fail establishes: the distance it computes by rows is one
  exactly for one typing error, so a misspelt call is reported exactly then; and its passes over the
  helper library end with the helpers from which a failing one is reached.
\<close>

subsection \<open>The distance by rows is the distance\<close>

fun osa :: "string \<Rightarrow> string \<Rightarrow> nat \<Rightarrow> nat \<Rightarrow> nat" where
  "osa a b 0 j = j"
| "osa a b (Suc i) 0 = Suc i"
| "osa a b (Suc i) (Suc j) =
     (let best = min3 (osa a b (Suc i) j + 1) (osa a b i (Suc j) + 1)
                   (osa a b i j + (if a ! i = b ! j then 0 else 1))
      in if 0 < i \<and> 0 < j \<and> a ! i = b ! (j - 1) \<and> a ! (i - 1) = b ! j
         then min best (osa a b (i - 1) (j - 1) + 1) else best)"

definition osa_row :: "string \<Rightarrow> string \<Rightarrow> nat \<Rightarrow> nat list" where
  "osa_row a b i = map (osa a b i) [0..<Suc (length b)]"

lemma osa_row_nth: "j \<le> length b \<Longrightarrow> osa_row a b i ! j = osa a b i j"
  by (simp add: osa_row_def del: upt_Suc)

lemma osa_0 [simp]: "osa a b i 0 = i"
  by (cases i) simp_all

lemma cell_is:
  assumes "prev = osa_row a b i" and "0 < i \<Longrightarrow> prev2 = osa_row a b (i - 1)"
    and "cur ! j = osa a b (Suc i) j" and "j < length b"
  shows "damerau_cell a b (Suc i) prev2 prev cur (Suc j) = osa a b (Suc i) (Suc j)"
  using assms by (auto simp: damerau_cell_def Let_def osa_row_nth)

lemma row_is:
  assumes "prev = osa_row a b i" and "0 < i \<Longrightarrow> prev2 = osa_row a b (i - 1)"
    and "length cur = Suc (length b)"
  shows "damerau_row a b (Suc i) prev2 prev cur = osa_row a b (Suc i)"
proof -
  let ?f = "\<lambda>j row. row[j := damerau_cell a b (Suc i) prev2 prev row j]"
  have "length (fold ?f [1..<Suc n] (cur[0 := Suc i])) = Suc (length b) \<and>
      (\<forall>j \<le> n. fold ?f [1..<Suc n] (cur[0 := Suc i]) ! j = osa a b (Suc i) j)" if "n \<le> length b" for n
    using that
  proof (induction n)
    case 0
    then show ?case using assms(3) by simp
  next
    case (Suc n)
    define row where "row = fold ?f [1..<Suc n] (cur[0 := Suc i])"
    have row: "length row = Suc (length b)" "\<forall>j \<le> n. row ! j = osa a b (Suc i) j"
      using Suc unfolding row_def by simp_all
    have "fold ?f [1..<Suc (Suc n)] (cur[0 := Suc i]) = ?f (Suc n) row"
      by (simp add: row_def)
    moreover have "damerau_cell a b (Suc i) prev2 prev row (Suc n) = osa a b (Suc i) (Suc n)"
      using assms(1,2) row(2) Suc.prems by (intro cell_is) auto
    ultimately show ?case
      using row Suc.prems by (auto simp: nth_list_update le_Suc_eq)
  qed
  from this [of "length b"] show ?thesis
    unfolding damerau_row_def
    by (intro nth_equalityI) (auto simp: osa_row_def simp del: upt_Suc)
qed

lemma turns_are:
  assumes "length zeros = Suc (length b)"
  shows "case fold (damerau_turn a b) [1..<Suc n] (zeros, osa_row a b 0, zeros) of
    (prev2, prev, cur) \<Rightarrow> prev = osa_row a b n \<and> length cur = Suc (length b) \<and>
      (0 < n \<longrightarrow> prev2 = osa_row a b (n - 1))"
proof (induction n)
  case 0
  then show ?case using assms by simp
next
  case (Suc n)
  obtain p2 p c where f: "fold (damerau_turn a b) [1..<Suc n] (zeros, osa_row a b 0, zeros) = (p2, p, c)"
    by (metis prod_cases3)
  then have inv: "p = osa_row a b n" "length c = Suc (length b)" "0 < n \<longrightarrow> p2 = osa_row a b (n - 1)"
    using Suc by auto
  have "damerau_row a b (Suc n) p2 p c = osa_row a b (Suc n)"
    using inv by (intro row_is) auto
  then have "damerau_turn a b (Suc n) (p2, p, c) = (p, osa_row a b (Suc n), osa_row a b (Suc n))"
    by (simp add: damerau_turn_def Let_def)
  moreover have "fold (damerau_turn a b) [1..<Suc (Suc n)] (zeros, osa_row a b 0, zeros) =
      damerau_turn a b (Suc n) (p2, p, c)"
    using f by simp
  ultimately show ?case using inv(1) by (simp add: osa_row_def del: upt_Suc)
qed

lemma damerau_osa:
  "damerau a b = (if a = b then 0 else if 1 < \<bar>int (length a) - int (length b)\<bar> then 3
     else osa a b (length a) (length b))"
proof -
  have start: "[0..<Suc (length b)] = osa_row a b 0"
    unfolding osa_row_def by (intro nth_equalityI) (simp_all del: upt_Suc)
  show ?thesis
    using turns_are [of "replicate (length b + 1) 0" b a "length a"]
    unfolding damerau_def Let_def start
    by (auto simp: osa_row_nth split: prod.splits simp del: upt_Suc)
qed

subsection \<open>Distance one is one typing error\<close>

definition one_typo :: "string \<Rightarrow> string \<Rightarrow> bool" where
  "one_typo s t \<longleftrightarrow> (\<exists>p q x y.
     (s = p @ x # q \<and> t = p @ y # q \<and> x \<noteq> y) \<or>
     (s = p @ x # q \<and> t = p @ q) \<or> (s = p @ q \<and> t = p @ x # q) \<or>
     (s = p @ x # y # q \<and> t = p @ y # x # q \<and> x \<noteq> y))"

lemma one_typo_ne: "one_typo s t \<Longrightarrow> s \<noteq> t"
  by (auto simp: one_typo_def)

lemma one_typo_lengths: "one_typo s t \<Longrightarrow> \<bar>int (length s) - int (length t)\<bar> \<le> 1"
  by (auto simp: one_typo_def)

lemma one_typoI:
  "x \<noteq> y \<Longrightarrow> one_typo (p @ x # q) (p @ y # q)"
  "one_typo (p @ x # q) (p @ q)"
  "one_typo (p @ q) (p @ x # q)"
  "x \<noteq> y \<Longrightarrow> one_typo (p @ x # y # q) (p @ y # x # q)"
  unfolding one_typo_def by blast+

lemma one_typo_snocI: "one_typo s t \<Longrightarrow> one_typo (s @ [z]) (t @ [z])"
proof -
  assume "one_typo s t"
  then obtain p q x y where c: "(s = p @ x # q \<and> t = p @ y # q \<and> x \<noteq> y) \<or>
     (s = p @ x # q \<and> t = p @ q) \<or> (s = p @ q \<and> t = p @ x # q) \<or>
     (s = p @ x # y # q \<and> t = p @ y # x # q \<and> x \<noteq> y)"
    unfolding one_typo_def by blast
  then show ?thesis
    using one_typoI(1) [of x y p "q @ [z]"] one_typoI(2) [of p x "q @ [z]"] one_typoI(3) [of p "q @ [z]" x] one_typoI(4) [of x y p "q @ [z]"]
    by auto
qed

lemma one_typo_snocD:
  assumes "one_typo (s @ [u]) (t @ [v])"
  shows "(u = v \<and> one_typo s t) \<or> (u \<noteq> v \<and> s = t) \<or> s @ [u] = t \<or> s = t @ [v] \<or>
    (\<exists>p. s = p @ [v] \<and> t = p @ [u] \<and> u \<noteq> v)"
proof -
  obtain p q x y where c: "(s @ [u] = p @ x # q \<and> t @ [v] = p @ y # q \<and> x \<noteq> y) \<or>
     (s @ [u] = p @ x # q \<and> t @ [v] = p @ q) \<or> (s @ [u] = p @ q \<and> t @ [v] = p @ x # q) \<or>
     (s @ [u] = p @ x # y # q \<and> t @ [v] = p @ y # x # q \<and> x \<noteq> y)"
    using assms unfolding one_typo_def by blast
  show ?thesis
  proof (cases q rule: rev_cases)
    case Nil
    then have "(s = p \<and> u = x \<and> t = p \<and> v = y \<and> x \<noteq> y) \<or> (s = p \<and> t @ [v] = p) \<or>
        (s @ [u] = p \<and> t = p) \<or> (s = p @ [x] \<and> u = y \<and> t = p @ [y] \<and> v = x \<and> x \<noteq> y)"
      using c by (auto simp: append_eq_append_conv2 Cons_eq_append_conv)
    then show ?thesis by auto
  next
    case (snoc r z)
    then have "(s = p @ x # r \<and> u = z \<and> t = p @ y # r \<and> v = z \<and> x \<noteq> y) \<or>
        (s = p @ x # r \<and> u = z \<and> t = p @ r \<and> v = z) \<or> (s = p @ r \<and> u = z \<and> t = p @ x # r \<and> v = z) \<or>
        (s = p @ x # y # r \<and> u = z \<and> t = p @ y # x # r \<and> v = z \<and> x \<noteq> y)"
      using c by (auto simp flip: append_assoc append_Cons)
    then show ?thesis using one_typoI by auto
  qed
qed

lemma one_typo_snoc:
  "one_typo (s @ [u]) (t @ [v]) \<longleftrightarrow> s @ [u] \<noteq> t @ [v] \<and>
     ((u = v \<and> one_typo s t) \<or> (u \<noteq> v \<and> s = t) \<or> s @ [u] = t \<or> s = t @ [v] \<or>
      (\<exists>p. s = p @ [v] \<and> t = p @ [u] \<and> u \<noteq> v))"
proof
  assume "one_typo (s @ [u]) (t @ [v])"
  then show "s @ [u] \<noteq> t @ [v] \<and>
     ((u = v \<and> one_typo s t) \<or> (u \<noteq> v \<and> s = t) \<or> s @ [u] = t \<or> s = t @ [v] \<or>
      (\<exists>p. s = p @ [v] \<and> t = p @ [u] \<and> u \<noteq> v))"
    using one_typo_snocD one_typo_ne by blast
next
  assume "s @ [u] \<noteq> t @ [v] \<and>
     ((u = v \<and> one_typo s t) \<or> (u \<noteq> v \<and> s = t) \<or> s @ [u] = t \<or> s = t @ [v] \<or>
      (\<exists>p. s = p @ [v] \<and> t = p @ [u] \<and> u \<noteq> v))"
  then show "one_typo (s @ [u]) (t @ [v])"
    using one_typo_snocI [of s t u] one_typoI(1) [of u v s "[]"] one_typoI(3) [of "s @ [u]" "[]" v]
      one_typoI(2) [of "t @ [v]" u "[]"] one_typoI(4) [of v u _ "[]"]
    by auto
qed

lemma one_typo_Nil: "one_typo [] t \<longleftrightarrow> length t = 1" "one_typo s [] \<longleftrightarrow> length s = 1"
  by (auto simp: one_typo_def length_Suc_conv)

subsection \<open>Small distances\<close>

lemma osa_zero:
  "i \<le> length a \<Longrightarrow> j \<le> length b \<Longrightarrow> osa a b i j = 0 \<longleftrightarrow> take i a = take j b"
proof (induction a b i j rule: osa.induct)
  case (3 a b i j)
  then have "osa a b i j = 0 \<longleftrightarrow> take i a = take j b" by simp
  then show ?case using "3.prems" by (auto simp: Let_def min3_def take_Suc_conv_app_nth)
qed auto

lemma osa_one:
  "i \<le> length a \<Longrightarrow> j \<le> length b \<Longrightarrow> osa a b i j = 1 \<longleftrightarrow> one_typo (take i a) (take j b)"
proof (induction a b i j rule: osa.induct)
  case (1 a b j)
  then show ?case by (auto simp: one_typo_Nil)
next
  case (2 a b i)
  then show ?case by (auto simp: one_typo_Nil)
next
  case (3 a b i j)
  have z: "osa a b i j = 0 \<longleftrightarrow> take i a = take j b" "osa a b (Suc i) j = 0 \<longleftrightarrow> take (Suc i) a = take j b"
      "osa a b i (Suc j) = 0 \<longleftrightarrow> take i a = take (Suc j) b"
      "osa a b (i - 1) (j - 1) = 0 \<longleftrightarrow> take (i - 1) a = take (j - 1) b"
      "osa a b (Suc i) (Suc j) = 0 \<longleftrightarrow> take (Suc i) a = take (Suc j) b"
    using "3.prems" by (simp_all add: osa_zero del: osa.simps)
  have ih: "osa a b i j = 1 \<longleftrightarrow> one_typo (take i a) (take j b)"
    using "3.prems" by (intro "3.IH"(3)) simp_all
  have s: "take (Suc i) a = take i a @ [a ! i]" "take (Suc j) b = take j b @ [b ! j]"
    using "3.prems" by (simp_all add: take_Suc_conv_app_nth)
  have swap: "(\<exists>p. take i a = p @ [b ! j] \<and> take j b = p @ [a ! i] \<and> a ! i \<noteq> b ! j) \<longleftrightarrow>
      0 < i \<and> 0 < j \<and> a ! i = b ! (j - 1) \<and> a ! (i - 1) = b ! j \<and>
      take (i - 1) a = take (j - 1) b \<and> a ! i \<noteq> b ! j"
    using "3.prems" by (cases i; cases j) (auto simp: take_Suc_conv_app_nth)
  have same: "take i a = take j b" if "0 < i" "0 < j" "take (i - 1) a = take (j - 1) b" "a ! (i - 1) = b ! (j - 1)"
    using that "3.prems" by (cases i; cases j) (auto simp: take_Suc_conv_app_nth)
  have "osa a b (Suc i) (Suc j) = 1 \<longleftrightarrow> osa a b (Suc i) (Suc j) \<noteq> 0 \<and>
      (osa a b (Suc i) j = 0 \<or> osa a b i (Suc j) = 0 \<or> (a ! i = b ! j \<and> osa a b i j = 1) \<or>
       (a ! i \<noteq> b ! j \<and> osa a b i j = 0) \<or>
       (0 < i \<and> 0 < j \<and> a ! i = b ! (j - 1) \<and> a ! (i - 1) = b ! j \<and> osa a b (i - 1) (j - 1) = 0))"
    unfolding osa.simps(3) [of a b i j] Let_def min3_def by (auto simp: min_def split: if_splits)
  also have "\<dots> \<longleftrightarrow> one_typo (take (Suc i) a) (take (Suc j) b)"
    unfolding z ih unfolding s one_typo_snoc swap using same by auto
  finally show ?case .
qed

lemma damerau_one: "damerau a b = 1 \<longleftrightarrow> one_typo a b"
  using osa_one [of "length a" a "length b" b] one_typo_ne [of a b] one_typo_lengths [of a b]
  by (auto simp: damerau_osa)


subsection \<open>What is reported\<close>

definition suspect :: "helpers \<Rightarrow> string list \<Rightarrow> string \<Rightarrow> bool" where
  "suspect h own w \<longleftrightarrow> w \<notin> set (h_all h) \<and> w \<notin> set own \<and> 5 \<le> length w \<and>
     (\<exists>v. v \<in> {''write_ok'', ''write_nok''} \<union> set (h_failing h) \<and> one_typo w v)"

lemma map_filter_Nil: "List.map_filter f xs = [] \<longleftrightarrow> (\<forall>x \<in> set xs. f x = None)"
  by (induction xs) (auto simp: map_filter_simps split: option.splits)

lemma misspelt_some: "misspelt h path n code own \<noteq> [] \<longleftrightarrow> (\<exists>w \<in> set (commandWords code). suspect h own w)"
proof -
  have names: "set (verdictNames h) = {''write_ok'', ''write_nok''} \<union> set (h_failing h)"
    by (auto simp: verdictNames_def)
  have found: "find (\<lambda>v. damerau w v = 1) (verdictNames h) = None \<longleftrightarrow>
      \<not> (\<exists>v. v \<in> {''write_ok'', ''write_nok''} \<union> set (h_failing h) \<and> one_typo w v)" for w
    unfolding find_None_all names damerau_one by blast
  have "(if w \<in> set (h_all h) \<or> w \<in> set own \<or> length w < 5 then None
       else map_option g (find (\<lambda>v. damerau w v = 1) (verdictNames h))) = None \<longleftrightarrow> \<not> suspect h own w" for w and g :: "string \<Rightarrow> finding"
    using found [of w] by (simp add: suspect_def not_less)
  then show ?thesis unfolding misspelt_def map_filter_Nil by (simp only: not_not bex_simps ball_simps)
qed

lemma misspelt_at: "f \<in> set (misspelt h path n code own) \<Longrightarrow> f_rule f = MisspeltVerdict \<and> f_line f = n"
  by (auto simp: misspelt_def map_filter_def split: if_splits)

lemma self_rule: "f \<in> set (selfComparison path n code) \<Longrightarrow> f_rule f = SelfComparison"
  by (auto simp: selfComparison_def split: option.splits if_splits)

lemma no_command: "commandWords [] = []"
  by (simp add: commandWords_def map_filter_simps command_word_def Let_def trim_space_trimmed graphic_trimmed)

text \<open>
  A line of a case is reported for a misspelt verdict call exactly when a command on it, of five
  bytes or more and defined neither by the library nor by the case, differs from the name of a
  verdict helper by one typing error: a byte too many, a byte missing, a wrong byte, or two
  neighbours swapped.
\<close>

theorem typo_is_reported:
  "(\<exists>f \<in> set (Check h path body). f_rule f = MisspeltVerdict \<and> f_line f = Suc i) \<longleftrightarrow>
   i < length (split_on (CHR 0x0A) body) \<and>
   (\<exists>w \<in> set (commandWords (strip (split_on (CHR 0x0A) body ! i))).
      suspect h (List.map_filter declared (split_on (CHR 0x0A) body)) w)"
proof -
  let ?ls = "split_on (CHR 0x0A) body" and ?own = "List.map_filter declared (split_on (CHR 0x0A) body)"
  let ?m = "\<lambda>k. misspelt h path (Suc k) (strip (?ls ! k)) ?own"
  have "(\<exists>f \<in> set (Check h path body). f_rule f = MisspeltVerdict \<and> f_line f = Suc i) \<longleftrightarrow>
      (\<exists>k < length ?ls. strip (?ls ! k) \<noteq> [] \<and>
        (\<exists>f \<in> set (?m k). f_rule f = MisspeltVerdict \<and> f_line f = Suc i))"
    unfolding Check_def Let_def check_line_def
    by (fastforce simp: in_set_enumerate_eq dest: self_rule split: if_splits)
  also have "\<dots> \<longleftrightarrow> (\<exists>k < length ?ls. strip (?ls ! k) \<noteq> [] \<and> k = i \<and> ?m k \<noteq> [])"
    using misspelt_at by (metis Suc_inject last_in_set list.set_intros(1) empty_iff list.set(1))
  also have "\<dots> \<longleftrightarrow> i < length ?ls \<and> (\<exists>w \<in> set (commandWords (strip (?ls ! i))). suspect h ?own w)"
    unfolding misspelt_some by (auto simp: no_command)
  finally show ?thesis .
qed

subsection \<open>The helpers that can fail\<close>

definition mentions :: "(string \<times> string list) list \<Rightarrow> (string \<times> string) set" where
  "mentions calls = {(f, w). w \<in> set (calls_of calls f)}"

definition reaching_failure :: "(string \<times> string list) list \<Rightarrow> string list \<Rightarrow> string set" where
  "reaching_failure calls direct = {f. \<exists>d \<in> set direct. (f, d) \<in> (mentions calls)\<^sup>*}"

definition triggers :: "(string \<times> string list) list \<Rightarrow> string list \<Rightarrow> string \<Rightarrow> bool" where
  "triggers calls fs f \<longleftrightarrow> f \<notin> set fs \<and> (\<exists>w \<in> set (calls_of calls f). w \<in> set fs)"

lemma fail_visit_is:
  "fail_visit calls f (fs, c) = (if triggers calls fs f then (f # fs, True) else (fs, c))"
  by (auto simp: fail_visit_def triggers_def list_ex_iff)

lemma fail_fold:
  assumes "fold (fail_visit calls) walk (fs, c) = (fs', c')"
  shows "set fs \<subseteq> set fs' \<and> set fs' \<subseteq> reaching_failure calls fs \<and>
    (\<not> c' \<longrightarrow> \<not> c \<and> fs' = fs \<and> (\<forall>f \<in> set walk. \<not> triggers calls fs f)) \<and>
    (c' \<longrightarrow> c \<or> (\<exists>f \<in> set walk. f \<notin> set fs \<and> f \<in> set fs'))"
  using assms
proof (induction walk arbitrary: fs c)
  case Nil
  then show ?case by (auto simp: reaching_failure_def)
next
  case (Cons f walk)
  show ?case
  proof (cases "triggers calls fs f")
    case True
    then have r: "fold (fail_visit calls) walk (f # fs, True) = (fs', c')"
      using Cons.prems by (simp add: fail_visit_is)
    note ih = Cons.IH [OF r]
    obtain w where w: "(f, w) \<in> mentions calls" "w \<in> set fs" "f \<notin> set fs"
      using True by (auto simp: triggers_def mentions_def)
    have "reaching_failure calls (f # fs) \<subseteq> reaching_failure calls fs"
      using w by (auto simp: reaching_failure_def intro: rtrancl_into_rtrancl)
    then show ?thesis using ih w by auto
  next
    case False
    then have "fold (fail_visit calls) walk (fs, c) = (fs', c')"
      using Cons.prems by (simp add: fail_visit_is)
    from Cons.IH [OF this] show ?thesis using False by auto
  qed
qed

lemma closed_reaches:
  assumes "\<forall>f. \<not> triggers calls fs f"
  shows "reaching_failure calls fs \<subseteq> set fs"
proof -
  have "f \<in> set fs" if "(f, d) \<in> (mentions calls)\<^sup>*" "d \<in> set fs" for f d
    using that assms
    by (induction rule: converse_rtrancl_induct) (auto simp: triggers_def mentions_def)
  then show ?thesis by (auto simp: reaching_failure_def)
qed

lemma triggers_key: "triggers calls fs f \<Longrightarrow> f \<in> set (map fst calls)"
  unfolding triggers_def calls_of_def
  by (cases "map_of calls f") (auto dest!: map_of_SomeD simp: image_iff intro!: bexI)

lemma reaching_trans:
  "set fs' \<subseteq> reaching_failure calls fs \<Longrightarrow> reaching_failure calls fs' \<subseteq> reaching_failure calls fs"
  unfolding reaching_failure_def by (blast intro: rtrancl_trans)

lemma reaching_mono: "set fs \<subseteq> set fs' \<Longrightarrow> reaching_failure calls fs \<subseteq> reaching_failure calls fs'"
  unfolding reaching_failure_def by blast

lemma passes_end:
  assumes walks: "\<And>n. set (walk n) = set (map fst calls)"
  shows "\<exists>fs'. fail_passes walk calls n fs = Some fs' \<and> set fs' = reaching_failure calls fs"
proof (induction "card (set (map fst calls) - set fs)" arbitrary: n fs rule: less_induct)
  case less
  obtain fs1 c where p: "fail_pass calls (walk n) fs = (fs1, c)" by (cases "fail_pass calls (walk n) fs")
  have pass: "set fs \<subseteq> set fs1" "set fs1 \<subseteq> reaching_failure calls fs"
      "\<not> c \<Longrightarrow> fs1 = fs \<and> (\<forall>f \<in> set (map fst calls). \<not> triggers calls fs f)"
      "c \<Longrightarrow> \<exists>f \<in> set (map fst calls). f \<notin> set fs \<and> f \<in> set fs1"
    using fail_fold [OF p [unfolded fail_pass_def]] walks [of n] by simp_all
  show ?case
  proof (cases c)
    case True
    then have "set (map fst calls) - set fs1 \<subset> set (map fst calls) - set fs" using pass by blast
    then have "card (set (map fst calls) - set fs1) < card (set (map fst calls) - set fs)"
      by (intro psubset_card_mono) auto
    from less [OF this, of "n + 1"] show ?thesis
      using True p equalityI [OF reaching_trans [OF pass(2)] reaching_mono [OF pass(1), of calls]]
      by (subst fail_passes.simps) auto
  next
    case False
    then have "set fs \<subseteq> reaching_failure calls fs" using pass(1,2) by blast
    moreover have "\<forall>f. \<not> triggers calls fs f" using pass(3) [OF False] triggers_key by blast
    ultimately have "set fs = reaching_failure calls fs" using closed_reaches by blast
    then show ?thesis using False p pass(3) by (subst fail_passes.simps) simp
  qed
qed

text \<open>
  Reading the helper library always ends, in whatever orders Go walks the map of bodies, and the
  helpers it calls failing are exactly those from which a word that writes NOK is reached through
  the words of the bodies.
\<close>

theorem failing_is_reachability:
  assumes "\<And>n ks. set (order n ks) = set ks"
    and "read_entries es \<lparr>rd_all = [], rd_direct = [], rd_calls = []\<rparr> = Inr r"
  shows "\<exists>h. ReadHelpers order dir (Inr es) = Some (Inr h) \<and>
    set (h_failing h) = reaching_failure (rd_calls r) (''write_nok'' # rd_direct r)"
  using passes_end [of "\<lambda>n. order n (map fst (rd_calls r))" "rd_calls r" 0 "''write_nok'' # rd_direct r"] assms
  by (auto simp: ReadHelpers_def)

definition small_library :: "dir_entry list" where
  "small_library = [(''a.sh'', False, Inr (join_with [CHR 0x0A] [''f()'', ''write_nok'', ''g() {'', ''f''])), (''b'', True, Inl [])]"

lemma small_library_read:
  "read_entries small_library \<lparr>rd_all = [], rd_direct = [], rd_calls = []\<rparr> =
     Inr \<lparr>rd_all = [''g'', ''f''], rd_direct = [''f''], rd_calls = [(''f'', [''write_nok'']), (''g'', [''f''])]\<rparr>"
  by (simp add: small_library_def read_file_def read_line_def declared_def ident_at_def Let_def letter_def
      word_char_def is_digit_def blank_char_def char_nat_def calls_of_def sublist_Cons_right suffix_def)

theorem failing_is_reachability_witness:
  "\<exists>h. ReadHelpers (\<lambda>n ks. ks) ''d'' (Inr small_library) = Some (Inr h) \<and> ''g'' \<in> set (h_failing h)"
proof -
  have "(''g'', ''f'') \<in> mentions [(''f'', [''write_nok'']), (''g'', [''f''])]"
    by (simp add: mentions_def calls_of_def)
  then have "''g'' \<in> reaching_failure [(''f'', [''write_nok'']), (''g'', [''f''])] [''write_nok'', ''f'']"
    by (auto simp: reaching_failure_def)
  then show ?thesis
    using failing_is_reachability [of "\<lambda>n ks. ks", OF refl small_library_read, of "''d''"] by auto
qed

end
