(* ===== verification/Sandbox_Wait.thy ===== *)
theory Sandbox_Wait
  imports Harepl_Statement
begin

text \<open>
  Waiting for replication and comparing nodes: \<open>internal/sandbox/replication.go\<close>. Times are
  nanoseconds. The pair and the clock are an environment: what the n-th probe answered and how long it
  took, whether the n-th pause was cut short by a cancelled run and how much longer than asked for
  it took. The loop is a partial function: not returning is the value None.
\<close>

definition millisecond :: int where "millisecond = 1000000"
definition one_second :: int where "one_second = 1000 * millisecond"
definition ProbeTimeout :: int where "ProbeTimeout = 30 * one_second"

datatype wait_error = WaitFailed string | NotReplicated string

text \<open>A command's standard output, standard error and exit status.\<close>

type_synonym command_result = "string \<times> string \<times> int"

record wait_env =
  we_cluster :: string
  we_db :: string
  we_slaves :: "string list"
  we_stamp :: string
  we_limit :: int
  we_limit_text :: string
  we_create :: "string + command_result"
  we_probe :: "nat \<Rightarrow> int \<times> (string + string)"
  we_pause :: "nat \<Rightarrow> (int \<times> string) + int"

definition wait_tail :: "string \<Rightarrow> string" where
  "wait_tail s =
     (let lines = split_on LF (trim_right_of [LF] s) in
      join_with [LF] (if 6 < length lines then drop (length lines - 6) lines else lines))"

definition wait_marker :: "wait_env \<Rightarrow> string" where
  "wait_marker E = ''tkrepl_'' @ we_stamp E"

definition csql_command :: "wait_env \<Rightarrow> string \<Rightarrow> string" where
  "csql_command E sql = ''csql -u dba -c '' @ [DQ] @ sql @ [DQ] @ '' '' @ we_db E"

definition create_marker :: "wait_env \<Rightarrow> string" where
  "create_marker E = csql_command E (''CREATE TABLE '' @ wait_marker E @ ''(i INT PRIMARY KEY); INSERT INTO '' @
     wait_marker E @ '' VALUES(1);'')"

definition drop_marker :: "wait_env \<Rightarrow> string" where
  "drop_marker E = csql_command E (''DROP TABLE '' @ wait_marker E @ '';'')"

definition read_marker :: "wait_env \<Rightarrow> string" where
  "read_marker E = csql_command E (''SELECT i FROM '' @ wait_marker E @ '';'') @ '' 2>&1''"

definition arrived :: "string \<Rightarrow> bool" where
  "arrived out \<longleftrightarrow> contains out ''1 rows selected'' \<or> contains out ''1 row selected''"

text \<open>
  The end of a wait: the time of the return, the error, and what each probe asked read: its slave and
  the answer, in order.
\<close>

record wait_state =
  ws_now :: int
  ws_wait :: int
  ws_probes :: "(nat \<times> (string + string)) list"

partial_function (option) wait_loop ::
  "wait_env \<Rightarrow> int \<Rightarrow> nat \<Rightarrow> string \<Rightarrow> wait_state \<Rightarrow> (wait_error option \<times> wait_state) option" where
  "wait_loop E deadline i name s =
     (let n = length (ws_probes s); (t, a) = we_probe E n;
          s1 = s\<lparr>ws_now := ws_now s + t, ws_probes := ws_probes s @ [(i, a)]\<rparr>
      in case a of
        Inl e \<Rightarrow> Some (Some (WaitFailed e), s1)
      | Inr out \<Rightarrow>
          if arrived out then Some (None, s1)
          else if deadline < ws_now s1
          then Some (Some (NotReplicated (''sandbox: '' @ name @ '' did not see the master's marker within '' @
                 we_limit_text E @ ''; last read:'' @ [LF] @ wait_tail out)), s1)
          else (case we_pause E n of
            Inl (d, e) \<Rightarrow> Some (Some (WaitFailed e), s1\<lparr>ws_now := ws_now s1 + d\<rparr>)
          | Inr d \<Rightarrow> wait_loop E deadline i name
              (s1\<lparr>ws_now := ws_now s1 + ws_wait s1 + d,
                  ws_wait := (if ws_wait s1 < one_second then ws_wait s1 + 50 * millisecond else ws_wait s1)\<rparr>)))"

fun wait_slaves :: "wait_env \<Rightarrow> int \<Rightarrow> nat \<Rightarrow> string list \<Rightarrow> wait_state \<Rightarrow> (wait_error option \<times> wait_state) option" where
  "wait_slaves E deadline i [] s = Some (None, s)"
| "wait_slaves E deadline i (name # names) s =
     (case wait_loop E deadline i name s of
        None \<Rightarrow> None
      | Some (Some e, s1) \<Rightarrow> Some (Some e, s1)
      | Some (None, s1) \<Rightarrow> wait_slaves E deadline (i + 1) names s1)"

text \<open>What was sent to the master, the elapsed time, the error, the probes.\<close>

record wait_outcome =
  wo_sent :: "string list"
  wo_took :: int
  wo_error :: "wait_error option"
  wo_probes :: "(nat \<times> (string + string)) list"

definition WaitForReplication :: "wait_env \<Rightarrow> wait_outcome option" where
  "WaitForReplication E =
     (if we_db E = []
      then Some \<lparr>wo_sent = [], wo_took = 0, wo_error = Some (WaitFailed (''sandbox: cluster '' @ [DQ] @ we_cluster E @ [DQ] @
             '' named no database, so there is nothing to replicate'')), wo_probes = []\<rparr>
      else (case we_create E of
          Inl e \<Rightarrow> Some \<lparr>wo_sent = [create_marker E], wo_took = 0, wo_error = Some (WaitFailed
              (''sandbox: the master would not take the marker: '' @ e @ '': '' @ wait_tail [])), wo_probes = []\<rparr>
        | Inr (out, err, code) \<Rightarrow>
            if code \<noteq> 0
            then Some \<lparr>wo_sent = [create_marker E], wo_took = 0, wo_error = Some (WaitFailed
              (''sandbox: the master would not take the marker: <nil>: '' @ wait_tail (out @ err))), wo_probes = []\<rparr>
            else map_option (\<lambda>(e, s). \<lparr>wo_sent = [create_marker E, drop_marker E], wo_took = ws_now s,
                     wo_error = e, wo_probes = ws_probes s\<rparr>)
                   (wait_slaves E (we_limit E) 0 (we_slaves E)
                      \<lparr>ws_now = 0, ws_wait = 50 * millisecond, ws_probes = []\<rparr>)))"

subsection \<open>The same answer on every node\<close>

text \<open>\<open>\(.* sec\)\<close>\<close>

definition secTiming :: "string \<Rightarrow> bool" where
  "secTiming line = (case index_of line ''('' of None \<Rightarrow> False | Some i \<Rightarrow> contains (drop (i + 1) line) '' sec)'')"

definition varying :: "string \<Rightarrow> bool" where
  "varying line \<longleftrightarrow> contains line ''SQL statement execution time'' \<or> secTiming line \<or> contains line ''Committed.'' \<or>
     (has_prefix (trim_space line) ''Time:'' \<and> contains line ''NOTIFICATION'') \<or>
     (has_prefix (trim_space line) (''Program '' @ [SQ] @ ''csql'' @ [SQ]) \<and> contains line ''connected to'')"

definition normalise :: "string \<Rightarrow> string" where
  "normalise s =
     trim_space (join_with [LF] (filter (\<lambda>l. \<not> varying l) (map (trim_right_of [CHR '' '', TAB]) (split_on LF s))))"

fun first_differing :: "string \<Rightarrow> (nat \<Rightarrow> string + string) \<Rightarrow> nat \<Rightarrow> string list \<Rightarrow> string + string" where
  "first_differing want ask i [] = Inr []"
| "first_differing want ask i (name # names) =
     (case ask i of
        Inl e \<Rightarrow> Inl e
      | Inr got \<Rightarrow> if normalise got \<noteq> normalise want then Inr name else first_differing want ask (i + 1) names)"

definition SameOnBothNodes :: "string + string \<Rightarrow> (nat \<Rightarrow> string + string) \<Rightarrow> string list \<Rightarrow> string + string" where
  "SameOnBothNodes master ask slaves =
     (case master of Inl e \<Rightarrow> Inl e | Inr want \<Rightarrow> first_differing want ask 0 slaves)"

subsection \<open>The wait ends\<close>

definition steady :: "wait_env \<Rightarrow> int \<Rightarrow> int \<Rightarrow> bool" where
  "steady E slow late \<longleftrightarrow> 0 \<le> slow \<and> 0 \<le> late \<and> (\<forall>n. 0 \<le> fst (we_probe E n) \<and> fst (we_probe E n) \<le> slow) \<and>
     (\<forall>n. case we_pause E n of Inl (d, e) \<Rightarrow> 0 \<le> d \<and> d \<le> one_second + late | Inr d \<Rightarrow> 0 \<le> d \<and> d \<le> late)"

text \<open>The pause between two probes is between fifty milliseconds and a second.\<close>

definition pausing :: "wait_state \<Rightarrow> bool" where
  "pausing s \<longleftrightarrow> 0 < ws_wait s \<and> ws_wait s \<le> one_second \<and> 50 * millisecond dvd ws_wait s"

lemma pausing_next:
  "0 < w \<Longrightarrow> w \<le> one_second \<Longrightarrow> 50 * millisecond dvd w \<Longrightarrow> w < one_second \<Longrightarrow> w + 50 * millisecond \<le> one_second"
proof -
  assume w: "w < one_second" "50 * millisecond dvd w"
  then obtain k where "w = 50 * millisecond * k" by (auto elim: dvdE)
  then show ?thesis using w(1) by (simp add: one_second_def millisecond_def)
qed

definition shown :: "wait_state \<Rightarrow> nat \<Rightarrow> bool" where
  "shown s i \<longleftrightarrow> (\<exists>out. ws_probes s \<noteq> [] \<and> last (ws_probes s) = (i, Inr out) \<and> arrived out)"

lemma wait_loop_ends:
  assumes "steady E slow late" and "pausing s" and "b \<le> ws_now s" and "ws_now s \<le> max b (deadline + one_second + late)"
  shows "\<exists>e s'. wait_loop E deadline i name s = Some (e, s') \<and> pausing s' \<and> b \<le> ws_now s' \<and>
    ws_now s' \<le> max b (deadline + one_second + late) + slow \<and>
    (e = None \<longrightarrow> shown s' i) \<and> (\<exists>ps. ws_probes s' = ws_probes s @ ps)"
  using assms(2-)
proof (induction "nat (deadline + one_second + late + 1 - ws_now s)" arbitrary: s rule: less_induct)
  case less
  let ?n = "length (ws_probes s)"
  obtain t a where p: "we_probe E ?n = (t, a)" by (cases "we_probe E ?n")
  have t: "0 \<le> t" "t \<le> slow" using assms(1) p by (auto simp: steady_def dest: spec [of _ ?n])
  let ?s1 = "s\<lparr>ws_now := ws_now s + t, ws_probes := ws_probes s @ [(i, a)]\<rparr>"
  note step = wait_loop.simps [of E deadline i name s, unfolded Let_def p prod.case]
  have here: "pausing ?s1" "b \<le> ws_now ?s1" "ws_now ?s1 \<le> max b (deadline + one_second + late) + slow"
      "\<exists>ps. ws_probes ?s1 = ws_probes s @ ps"
    using less.prems t by (auto simp: pausing_def)
  show ?case
  proof (cases a)
    case (Inl e)
    then show ?thesis using step here by auto
  next
    case (Inr out)
    show ?thesis
    proof (cases "arrived out \<or> deadline < ws_now ?s1")
      case True
      then show ?thesis using step here Inr by (auto simp: shown_def)
    next
      case False
      show ?thesis
      proof (cases "we_pause E ?n")
        case pause: (Inl x)
        obtain d e where x: "x = (d, e)" by (cases x)
        have "0 \<le> d" "d \<le> one_second + late" "0 \<le> slow"
          using assms(1) pause x by (auto simp: steady_def dest: spec [of _ ?n])
        then show ?thesis using step here Inr False pause x by (auto simp: pausing_def)
      next
        case pause: (Inr d)
        have d: "0 \<le> d" "d \<le> late" using assms(1) pause by (auto simp: steady_def dest: spec [of _ ?n])
        let ?w = "if ws_wait s < one_second then ws_wait s + 50 * millisecond else ws_wait s"
        let ?s2 = "?s1\<lparr>ws_now := ws_now ?s1 + ws_wait ?s1 + d, ws_wait := ?w\<rparr>"
        have w: "0 < ws_wait s" "ws_wait s \<le> one_second" "50 * millisecond dvd ws_wait s"
          using less.prems(1) by (simp_all add: pausing_def)
        have rec: "wait_loop E deadline i name s = wait_loop E deadline i name ?s2"
          using step Inr False pause by simp
        have "nat (deadline + one_second + late + 1 - ws_now ?s2) < nat (deadline + one_second + late + 1 - ws_now s)"
          using t d w False by simp
        moreover have "pausing ?s2" using w pausing_next by (auto simp: pausing_def millisecond_def)
        moreover have "b \<le> ws_now ?s2" using less.prems(2) t d w by simp
        moreover have "ws_now ?s2 \<le> max b (deadline + one_second + late)"
          by (rule max.coboundedI2) (use False d w(2) in simp)
        ultimately obtain e s' where "wait_loop E deadline i name ?s2 = Some (e, s')" "pausing s'" "b \<le> ws_now s'"
            "ws_now s' \<le> max b (deadline + one_second + late) + slow" "e = None \<longrightarrow> shown s' i"
            "\<exists>ps. ws_probes s' = ws_probes ?s2 @ ps"
          using less.hyps by blast
        then show ?thesis unfolding rec by auto
      qed
    qed
  qed
qed

lemma wait_slaves_ends:
  assumes "steady E slow late" and "pausing s" and "0 \<le> ws_now s" and "0 \<le> deadline"
    and "ws_now s \<le> deadline + one_second + late + int i * slow"
  shows "\<exists>e s'. wait_slaves E deadline i slaves s = Some (e, s') \<and>
    ws_now s' \<le> deadline + one_second + late + int (i + length slaves) * slow \<and>
    (\<exists>ps. ws_probes s' = ws_probes s @ ps) \<and>
    (e = None \<longrightarrow> (\<forall>k < length slaves. \<exists>out. (i + k, Inr out) \<in> set (ws_probes s') \<and> arrived out))"
  using assms(2-)
proof (induction slaves arbitrary: i s)
  case Nil
  then show ?case by simp
next
  case (Cons name rest)
  have slow: "0 \<le> slow" "0 \<le> late" using assms(1) by (simp_all add: steady_def)
  let ?b = "deadline + one_second + late + int i * slow"
  have "0 \<le> int i * slow" using slow by simp
  moreover have "0 \<le> one_second" by (simp add: one_second_def millisecond_def)
  ultimately have b: "max (ws_now s) (deadline + one_second + late) \<le> ?b" using Cons.prems slow by simp
  obtain e s1 where l: "wait_loop E deadline i name s = Some (e, s1)" "pausing s1" "ws_now s \<le> ws_now s1"
      "ws_now s1 \<le> max (ws_now s) (deadline + one_second + late) + slow" "e = None \<longrightarrow> shown s1 i"
      "\<exists>ps. ws_probes s1 = ws_probes s @ ps"
    using wait_loop_ends [OF assms(1) Cons.prems(1), of "ws_now s" deadline i name] by auto
  have now: "ws_now s1 \<le> deadline + one_second + late + int (i + 1) * slow" "0 \<le> ws_now s1"
    using l(3,4) b Cons.prems(2) by (simp_all add: distrib_right) linarith+
  show ?case
  proof (cases e)
    case (Some err)
    have "int (i + 1) * slow \<le> int (i + length (name # rest)) * slow"
      using slow by (intro mult_right_mono) auto
    then have "ws_now s1 \<le> deadline + one_second + late + int (i + length (name # rest)) * slow" using now(1) by linarith
    then show ?thesis using l Some by auto
  next
    case None
    obtain e2 s2 where r: "wait_slaves E deadline (i + 1) rest s1 = Some (e2, s2)"
        "ws_now s2 \<le> deadline + one_second + late + int (i + 1 + length rest) * slow"
        "\<exists>ps. ws_probes s2 = ws_probes s1 @ ps"
        "e2 = None \<longrightarrow> (\<forall>k < length rest. \<exists>out. (i + 1 + k, Inr out) \<in> set (ws_probes s2) \<and> arrived out)"
      using Cons.IH [OF l(2) now(2) Cons.prems(3) now(1)] by blast
    obtain out where out: "ws_probes s1 \<noteq> []" "last (ws_probes s1) = (i, Inr out)" "arrived out"
      using l(5) None by (auto simp: shown_def)
    then have "(i, Inr out) \<in> set (ws_probes s1)" by (metis last_in_set)
    then have first: "(i, Inr out) \<in> set (ws_probes s2)" using r(3) by auto
    have "\<exists>out. (i + k, Inr out) \<in> set (ws_probes s2) \<and> arrived out" if "e2 = None" "k < Suc (length rest)" for k
      using that first out(3) r(4) by (cases k) auto
    moreover have "\<exists>ps. ws_probes s2 = ws_probes s @ ps" using r(3) l(6) by auto
    ultimately show ?thesis using l(1) None r(1,2) by (simp add: algebra_simps)
  qed
qed

text \<open>
  C36: A wait for replication returns, within its limit, a second, the lateness of a timer and one
  probe of each slave, if every probe and timer keeps its own bound; a marker that was made is
  dropped, and the wait succeeds only after a probe of every slave read the marker there.
\<close>

theorem wait_ends_and_is_true:
  assumes "steady E slow late" and "0 \<le> we_limit E"
  shows "\<exists>w. WaitForReplication E = Some w \<and>
    wo_took w \<le> we_limit E + one_second + late + int (length (we_slaves E)) * slow \<and>
    (wo_probes w \<noteq> [] \<longrightarrow> last (wo_sent w) = drop_marker E) \<and>
    (wo_error w = None \<longrightarrow>
       (\<forall>k < length (we_slaves E). \<exists>out. (k, Inr out) \<in> set (wo_probes w) \<and> arrived out))"
proof -
  let ?s = "\<lparr>ws_now = 0, ws_wait = 50 * millisecond, ws_probes = []\<rparr>"
  have pos: "0 \<le> one_second" "0 \<le> late" "0 \<le> slow"
    using assms(1) by (simp_all add: steady_def one_second_def millisecond_def)
  have "pausing ?s" by (simp add: pausing_def one_second_def millisecond_def)
  then obtain e s where w: "wait_slaves E (we_limit E) 0 (we_slaves E) ?s = Some (e, s)"
      "ws_now s \<le> we_limit E + one_second + late + int (length (we_slaves E)) * slow"
      "e = None \<longrightarrow> (\<forall>k < length (we_slaves E). \<exists>out. (k, Inr out) \<in> set (ws_probes s) \<and> arrived out)"
    using wait_slaves_ends [OF assms(1), of ?s "we_limit E" 0 "we_slaves E"] assms(2) pos by auto
  have "0 \<le> int (length (we_slaves E)) * slow" using pos by simp
  then have quick: "0 \<le> we_limit E + one_second + late + int (length (we_slaves E)) * slow"
    using assms(2) pos by linarith
  show ?thesis
  proof (cases "we_db E = [] \<or> (\<forall>out err. we_create E \<noteq> Inr (out, err, 0))")
    case True
    then show ?thesis using quick by (auto simp: WaitForReplication_def split: sum.split prod.split)
  next
    case False
    then obtain out err where "we_db E \<noteq> []" "we_create E = Inr (out, err, 0)" by auto
    then show ?thesis using w by (simp add: WaitForReplication_def)
  qed
qed

definition calm_pair :: wait_env where
  "calm_pair = \<lparr>we_cluster = ''c'', we_db = ''d'', we_slaves = [''s1''], we_stamp = ''1'', we_limit = one_second,
     we_limit_text = ''1s'', we_create = Inr ([], [], 0),
     we_probe = (\<lambda>n. (millisecond, Inr (if n = 0 then [] else ''1 row selected''))), we_pause = (\<lambda>n. Inr 0)\<rparr>"

theorem wait_ends_and_is_true_witness:
  "\<exists>w. WaitForReplication calm_pair = Some w \<and> wo_took w \<le> 2 * one_second + 30 * millisecond"
proof -
  have "steady calm_pair (30 * millisecond) 0" by (simp add: steady_def calm_pair_def millisecond_def)
  from wait_ends_and_is_true [OF this] show ?thesis
    by (auto simp: calm_pair_def one_second_def millisecond_def)
qed

end
