(* ===== verification/Exec_Shell.thy ===== *)
theory Exec_Shell
  imports Conf
begin

text \<open>
  Commands and paths handed to a shell: \<open>path.go\<close>, \<open>exec.go\<close> and the frame of \<open>ssh.go\<close> in
  \<open>internal/exec\<close>. A channel is a parameter: a function from the state of the machine it reaches and a
  script to what the script left, or the reason it could not be run. \<open>filepath.Clean\<close> and \<open>IsAbs\<close> are the
  standard library's, for a Unix path.
\<close>

subsection \<open>Clean paths\<close>

text \<open>The parts a clean path has: a dot is dropped, and two dots undo the part before them.\<close>

definition clean_part :: "bool \<Rightarrow> string \<Rightarrow> string list \<Rightarrow> string list" where
  "clean_part rooted s out =
     (if s = [] \<or> s = ''.'' then out
      else if s = ''..'' then
        (if out \<noteq> [] \<and> last out \<noteq> ''..'' then butlast out
         else if rooted then out
         else out @ [s])
      else out @ [s])"

definition path_abs :: "string \<Rightarrow> bool" where
  "path_abs p \<longleftrightarrow> has_prefix p ''/''"

definition path_parts :: "string \<Rightarrow> string list" where
  "path_parts p = fold (clean_part (path_abs p)) (split_on (CHR ''/'') p) []"

definition path_clean :: "string \<Rightarrow> string" where
  "path_clean p =
     (if path_abs p then ''/'' @ join_with ''/'' (path_parts p)
      else if path_parts p = [] then ''.''
      else join_with ''/'' (path_parts p))"

definition path_join :: "string list \<Rightarrow> string" where
  "path_join ps =
     (let ps = filter (\<lambda>p. p \<noteq> []) ps in if ps = [] then [] else path_clean (join_with ''/'' ps))"

definition after_last :: "char \<Rightarrow> string \<Rightarrow> string" where
  "after_last c s = last (split_on c s)"

definition path_base :: "string \<Rightarrow> string" where
  "path_base p =
     (if p = [] then ''.''
      else (let q = trim_right_of ''/'' p in if q = [] then ''/'' else after_last (CHR ''/'') q))"

definition path_dir :: "string \<Rightarrow> string" where
  "path_dir p = path_clean (take (length p - length (after_last (CHR ''/'') p)) p)"

definition path_ext :: "string \<Rightarrow> string" where
  "path_ext p =
     (let b = after_last (CHR ''/'') p in
      if CHR ''.'' \<in> set b then CHR ''.'' # after_last (CHR ''.'') b else [])"

subsection \<open>Paths in a script\<close>

definition SQUOTE :: char where "SQUOTE = CHR 0x27"

definition Quote :: "string \<Rightarrow> string" where
  "Quote s = SQUOTE # replace_all s [SQUOTE] [SQUOTE, BS, SQUOTE, SQUOTE] @ [SQUOTE]"

datatype unsafe = EmptyPath | NotAbsolute | TooShallow string | ShellSyntax char string

definition shell_syntax :: string where
  "shell_syntax = [CHR '' '', TAB, LF, SQUOTE, CHR 0x22, CHR 0x60] @ ''$&;|<>()*?[]{}'' @ [BS] @ ''!#~''"

definition SafeToEmpty :: "string \<Rightarrow> unsafe option" where
  "SafeToEmpty dir =
     (let d = trim_space dir; clean = path_clean d in
      if d = [] then Some EmptyPath
      else if \<not> path_abs d then Some NotAbsolute
      else if length (split_on (CHR ''/'') (trim_of ''/'' clean)) < 2 then Some (TooShallow clean)
      else (case find (\<lambda>c. c \<in> set shell_syntax) clean of
          Some c \<Rightarrow> Some (ShellSyntax c clean)
        | None \<Rightarrow> None))"

subsection \<open>What a command left\<close>

record sh_result =
  sh_out :: string
  sh_err :: string
  sh_exit :: int

datatype cmd_error = CouldNotRun string | Exited int string

definition Failure :: "sh_result \<Rightarrow> cmd_error option" where
  "Failure r =
     (if sh_exit r = 0 then None
      else (let ls = split_on LF (trim_space (sh_err r));
                why1 = (if hd ls = [] then []
                  else trim_space (hd ls) @ (if 1 < length ls then '' ... '' @ trim_space (last ls) else []));
                why2 = (if why1 = [] then trim_space (after_last LF (trim_space (sh_out r))) else why1)
            in Some (Exited (sh_exit r) why2)))"

definition error_text :: "cmd_error \<Rightarrow> string" where
  "error_text e = (case e of CouldNotRun m \<Rightarrow> m
     | Exited n why \<Rightarrow> if why = [] then ''exit '' @ itoa n else ''exit '' @ itoa n @ '': '' @ why)"

text \<open>What \<open>Run\<close> returns: the error, or what the command left.\<close>

type_synonym sh_answer = "cmd_error + sh_result"

definition Check_run :: "sh_answer \<Rightarrow> sh_answer" where
  "Check_run rr = (case rr of Inl e \<Rightarrow> Inl e
     | Inr r \<Rightarrow> (case Failure r of None \<Rightarrow> Inr r | Some e \<Rightarrow> Inl e))"

type_synonym 'm sh_channel = "string \<Rightarrow> 'm \<Rightarrow> sh_answer \<times> 'm"

subsection \<open>The frame of a remote script\<close>

definition startFlagLiteral :: string where "startFlagLiteral = ''ALL_STARTED''"
definition compFlagLiteral :: string where "compFlagLiteral = ''ALL_COMPLETED''"
definition startFlagEcho :: string where "startFlagEcho = ''echo ALL_${NOTEXIST}STARTED''"
definition compFlagEcho :: string where "compFlagEcho = ''echo ALL_${NOTEXIST}COMPLETED''"

definition Profile :: string where
  "Profile = ''pri_ctp_home=$CTP_HOME; if  [ -f ~/.bash_profile ]; then . ~/.bash_profile; fi; '' @
     ''if [ '' @ [CHR 0x22] @ ''$pri_ctp_home'' @ [CHR 0x22] @ '' != '' @ [CHR 0x22, CHR 0x22] @
     '' ];then export CTP_HOME=${pri_ctp_home}; fi; ''"

definition framed_script :: "string \<Rightarrow> string" where
  "framed_script script = join_with [LF] [Profile, startFlagEcho, script, compFlagEcho]"

definition between :: "string \<Rightarrow> string" where
  "between raw =
     (let a = (case index_of raw startFlagLiteral of None \<Rightarrow> raw
           | Some i \<Rightarrow> trim_prefix (drop (i + length startFlagLiteral) raw) [LF])
      in (case index_of a compFlagLiteral of None \<Rightarrow> a | Some i \<Rightarrow> take i a))"

end
