(* ===== verification/Shell_Discover.thy ===== *)
theory Shell_Discover
  imports Exec_Shell Ordering
begin

text \<open>
  Which cases a shell run has: \<open>discover.go\<close> in \<open>internal/runner/shellsuite\<close>, and the name a case's
  patch has, \<open>patch.go\<close> in \<open>internal/patch\<close>. An index of a loop over a slice is a \<open>nat\<close>, the set of
  dropped indices a set.
\<close>

subsection \<open>A case and its parts\<close>

definition IsCase :: "string \<Rightarrow> bool" where
  "IsCase p =
     (let parts = split_on (CHR ''/'') p; n = length parts in
      if n < 3 then False else parts ! (n - 3) @ ''.sh'' = parts ! (n - 1))"

record shell_case =
  sc_Path :: string
  sc_Dir :: string
  sc_Script :: string
  sc_Result :: string

text \<open>The last part that is \<open>cases\<close>, from the end.\<close>

fun last_at :: "string \<Rightarrow> string list \<Rightarrow> nat option" where
  "last_at x [] = None"
| "last_at x (s # ss) =
     (case last_at x ss of Some i \<Rightarrow> Some (Suc i) | None \<Rightarrow> if s = x then Some 0 else None)"

definition Split_case :: "string \<Rightarrow> shell_case option" where
  "Split_case p =
     (let parts = split_on (CHR ''/'') p in
      case last_at ''cases'' parts of None \<Rightarrow> None
      | Some i \<Rightarrow>
          if i = length parts - 1 then None
          else (let script = join_with ''/'' (drop (i + 1) parts) in
            Some \<lparr>sc_Path = p, sc_Dir = join_with ''/'' (take (i + 1) parts), sc_Script = script,
                  sc_Result = trim_suffix script ''.sh'' @ ''.result''\<rparr>))"

definition findAll :: "string \<Rightarrow> string" where
  "findAll dir = ''find '' @ dir @ '' -name '' @ [CHR 0x22] @ ''*.sh'' @ [CHR 0x22] @ '' -type f -print''"

text \<open>What \<open>find\<close> answered, and whether part of the tree could not be read.\<close>

definition Discover :: "sh_answer \<Rightarrow> cmd_error + string list \<times> bool" where
  "Discover rr = (case rr of Inl e \<Rightarrow> Inl e
     | Inr r \<Rightarrow>
        (case (if sh_exit r \<noteq> 0 \<and> sh_exit r \<noteq> 1 then Failure r else None) of
           Some e \<Rightarrow> Inl e
         | None \<Rightarrow>
             Inr (sort_strings (filter (\<lambda>l. l \<noteq> [] \<and> IsCase l) (map trim_space (split_on LF (sh_out r)))),
                  sh_exit r = 1)))"

subsection \<open>Cases that are left out\<close>

definition drop_trailing :: "string list \<Rightarrow> string list" where
  "drop_trailing fs = rev (dropWhile (\<lambda>f. f = []) (rev fs))"

definition skipped_line :: "string \<Rightarrow> string \<Rightarrow> string list" where
  "skipped_line key line =
     (case drop_trailing (split_on (CHR '':'') line) of
        [f, t] \<Rightarrow>
          if has_prefix (replace_all (replace_all t [TAB] '' '') '' '' []) key then [trim_space f] else []
      | _ \<Rightarrow> [])"

definition ParseSkipped :: "string \<Rightarrow> string \<Rightarrow> string list" where
  "ParseSkipped grepOutput key =
     (if key = [] then []
      else concat (map (skipped_line key) (split_on LF (replace_all grepOutput [CR] [LF]))))"

definition ExcludeFiles :: "string \<Rightarrow> string list" where
  "ExcludeFiles spec = filter (\<lambda>f. f \<noteq> []) (map trim_space (split_on (CHR '','') spec))"

definition excluded_line :: "string \<Rightarrow> string list" where
  "excluded_line raw =
     (let line = trim_space raw in
      if line = [] \<or> has_prefix line ''#'' \<or> has_prefix line ''--'' then []
      else [if has_suffix line ''/'' then line else line @ ''/''])"

definition ParseExcluded :: "string \<Rightarrow> string list" where
  "ParseExcluded t = concat (map excluded_line (split_on LF t))"

definition path_matches :: "string \<Rightarrow> string \<Rightarrow> bool" where
  "path_matches pat c = contains (c @ ''/'') pat"

definition exclude_at :: "string list \<Rightarrow> string \<Rightarrow> nat \<Rightarrow> nat set \<times> string list \<Rightarrow> nat set \<times> string list" where
  "exclude_at cases pat j s =
     (case s of (dropped, removed) \<Rightarrow>
        if j \<in> dropped then s
        else if path_matches pat (cases ! j) then (insert j dropped, removed @ [cases ! j])
        else s)"

definition exclude_pat :: "string list \<Rightarrow> string \<Rightarrow> nat set \<times> string list \<Rightarrow> nat set \<times> string list" where
  "exclude_pat cases pat s = fold (exclude_at cases pat) (rev [0..<length cases]) s"

definition kept_of :: "string list \<Rightarrow> nat set \<Rightarrow> string list" where
  "kept_of cases dropped = map (\<lambda>i. cases ! i) (filter (\<lambda>i. i \<notin> dropped) [0..<length cases])"

definition Exclude :: "string list \<Rightarrow> string list \<Rightarrow> string list \<times> string list" where
  "Exclude cases patterns =
     (case fold (exclude_pat cases) patterns ({}, []) of (dropped, removed) \<Rightarrow> (kept_of cases dropped, removed))"

definition Remove_cases :: "string list \<Rightarrow> string list \<Rightarrow> string list \<times> string list" where
  "Remove_cases cases unwanted =
     (filter (\<lambda>c. c \<notin> set unwanted) cases, filter (\<lambda>c. c \<in> set unwanted) cases)"

definition include_at :: "string list \<Rightarrow> string \<Rightarrow> nat \<Rightarrow> nat set \<Rightarrow> nat set" where
  "include_at cases pat j keep = (if j \<notin> keep \<and> path_matches pat (cases ! j) then insert j keep else keep)"

definition Include_cases :: "string list \<Rightarrow> string list \<Rightarrow> string list \<times> string list" where
  "Include_cases cases patterns =
     (if patterns = [] then (cases, [])
      else (let keep = fold (\<lambda>pat. fold (include_at cases pat) [0..<length cases]) patterns {} in
        (map (\<lambda>i. cases ! i) (filter (\<lambda>i. i \<in> keep) [0..<length cases]),
         map (\<lambda>i. cases ! i) (filter (\<lambda>i. i \<notin> keep) [0..<length cases]))))"

subsection \<open>Compatibility patches\<close>

text \<open>\<open>filepath.Rel\<close> for clean absolute paths: the part below the root, or none.\<close>

fun common_drop :: "string list \<Rightarrow> string list \<Rightarrow> string list \<times> string list" where
  "common_drop (a # as) (b # bs) = (if a = b then common_drop as bs else (a # as, b # bs))"
| "common_drop as bs = (as, bs)"

definition path_rel :: "string \<Rightarrow> string \<Rightarrow> string option" where
  "path_rel base targ =
     (if path_abs base \<noteq> path_abs targ then None
      else (case common_drop (path_parts base) (path_parts targ) of (up, down) \<Rightarrow>
        if ''..'' \<in> set up then None
        else if up = [] \<and> down = [] then Some ''.''
        else Some (join_with ''/'' (map (\<lambda>_. ''..'') up @ down))))"

definition drop_repeat :: "string list \<Rightarrow> string list" where
  "drop_repeat kept =
     (let n = length kept in if 1 < n \<and> kept ! (n - 1) = kept ! (n - 2) then take (n - 1) kept else kept)"

definition patch_name :: "string \<Rightarrow> string \<Rightarrow> string \<Rightarrow> string" where
  "patch_name root script ext =
     (case path_rel root script of None \<Rightarrow> []
      | Some rel \<Rightarrow>
          if has_prefix rel ''..'' then []
          else join_with ''~''
            (drop_repeat (filter (\<lambda>s. s \<noteq> ''cases'') (split_on (CHR ''/'') (trim_suffix rel ext)))))"

record patch_set =
  ps_dir :: string
  ps_byCase :: "(string \<times> string) list"
  ps_orphans :: "string list"
  ps_applied :: "(string \<times> string) list"

text \<open>The patches wanted, by name: of two cases with one name the later one has it.\<close>

definition wanted :: "string \<Rightarrow> string \<Rightarrow> string list \<Rightarrow> (string \<times> string) list" where
  "wanted root ext cases =
     fold (\<lambda>c w. let n = patch_name root c ext in if n \<noteq> [] then AList.update n c w else w) cases []"

definition load_entry :: "(string \<times> string) list \<Rightarrow> string \<times> bool \<Rightarrow> patch_set \<Rightarrow> patch_set" where
  "load_entry want e p =
     (case e of (name, isDir) \<Rightarrow>
        if isDir \<or> \<not> has_suffix name ''.patch'' then p
        else (let n = trim_suffix name ''.patch'' in
          case map_of want n of
            Some c \<Rightarrow> p\<lparr>ps_byCase := AList.update c (ps_dir p @ ''/'' @ name) (ps_byCase p)\<rparr>
          | None \<Rightarrow> p\<lparr>ps_orphans := ps_orphans p @ [n]\<rparr>))"

definition patch_Load :: "string \<Rightarrow> string \<Rightarrow> string \<Rightarrow> string list \<Rightarrow> (string \<times> bool) list option \<Rightarrow> string + patch_set option" where
  "patch_Load dir0 root ext cases entries =
     (let dir = trim_space dir0 in
      if dir = [] then Inr None
      else (case entries of None \<Rightarrow> Inl dir
        | Some es \<Rightarrow>
            (let p = fold (load_entry (wanted root ext cases)) es
               \<lparr>ps_dir = dir, ps_byCase = [], ps_orphans = [], ps_applied = []\<rparr>
             in Inr (Some (p\<lparr>ps_orphans := sort_strings (ps_orphans p)\<rparr>)))))"

definition patch_For :: "patch_set option \<Rightarrow> string \<Rightarrow> string" where
  "patch_For p script = (case p of None \<Rightarrow> []
     | Some p \<Rightarrow> (case map_of (ps_byCase p) script of None \<Rightarrow> [] | Some f \<Rightarrow> f))"

definition patch_Applied :: "string \<Rightarrow> string \<Rightarrow> patch_set option \<Rightarrow> patch_set option" where
  "patch_Applied script f p = map_option (\<lambda>p. p\<lparr>ps_applied := AList.update script f (ps_applied p)\<rparr>) p"

definition patch_Unapplied :: "patch_set option \<Rightarrow> string list" where
  "patch_Unapplied p = (case p of None \<Rightarrow> []
     | Some p \<Rightarrow> sort_strings (filter (\<lambda>c. map_of (ps_applied p) c = None) (map fst (ps_byCase p))))"

definition patch_Describe :: "patch_set option \<Rightarrow> string list" where
  "patch_Describe p = (case p of None \<Rightarrow> []
     | Some p \<Rightarrow>
        if ps_byCase p = [] \<and> ps_orphans p = [] then []
        else (''[INFO] '' @ itoa (int (length (ps_byCase p))) @
            '' case(s) will run against a compatibility patch from '' @ ps_dir p @ ''. '' @
            ''Their verdicts are about the patched case, not the corpus.'') #
          map (\<lambda>c. ''[INFO]   '' @ c) (sort_strings (map fst (ps_byCase p))) @
          map (\<lambda>n. ''[WARN]   '' @ n @ '': a patch with no case in this corpus'') (ps_orphans p))"

definition patch_Report :: "patch_set option \<Rightarrow> string option" where
  "patch_Report p = (case p of None \<Rightarrow> None
     | Some p \<Rightarrow>
        if ps_applied p = [] then None
        else Some (''# Cases this run did not execute as the corpus has them.'' @ [LF] @
          ''# Their verdicts are about the patched case. See the README in cubrid-testkit-patches.'' @ [LF] @
          concat (map (\<lambda>c. c @ [TAB] @ (case map_of (ps_applied p) c of None \<Rightarrow> [] | Some f \<Rightarrow> f) @ [LF])
            (sort_strings (map fst (ps_applied p))))))"

definition patch_cmd :: "string \<Rightarrow> string \<Rightarrow> string \<Rightarrow> string" where
  "patch_cmd flags d f =
     ''patch -p0 --batch '' @ flags @ '' --dry-run -d '' @ Quote d @ '' -i '' @ Quote f @ '' >/dev/null 2>&1 && '' @
     ''patch -p0 --batch '' @ flags @ '' -d '' @ Quote d @ '' -i '' @ Quote f"

definition ApplyScript :: "string \<Rightarrow> string \<Rightarrow> string" where
  "ApplyScript = patch_cmd ''--forward''"

definition RevertScript :: "string \<Rightarrow> string \<Rightarrow> string" where
  "RevertScript = patch_cmd ''--reverse --forward''"

end
