(* ===== verification/Exec_Claims.thy ===== *)
theory Exec_Claims
  imports Exec_Shell Conf_Claims
begin

text \<open>
  What a shell makes of the paths and scripts the runner hands to it. The reader below is how a
  POSIX shell splits a line into words, for the part of the language the runner writes: single
  quotes, the backslash, blanks; any other character with a meaning makes the line something else
  than a list of words.
\<close>

subsection \<open>Words of a line\<close>

definition word_so_far :: "string option \<Rightarrow> string" where
  "word_so_far w = (case w of None \<Rightarrow> [] | Some w \<Rightarrow> w)"

fun sh_scan :: "bool \<Rightarrow> string option \<Rightarrow> string \<Rightarrow> string list option" where
  "sh_scan quoted w [] =
     (if quoted then None else Some (case w of None \<Rightarrow> [] | Some w \<Rightarrow> [w]))"
| "sh_scan quoted w (c # s) =
     (if quoted then
        (if c = SQUOTE then sh_scan False w s else sh_scan True (Some (word_so_far w @ [c])) s)
      else if c = SQUOTE then sh_scan True (Some (word_so_far w)) s
      else if c = BS then
        (case s of [] \<Rightarrow> None | d # t \<Rightarrow> sh_scan False (Some (word_so_far w @ [d])) t)
      else if c = CHR '' '' then
        map_option (\<lambda>ws. (case w of None \<Rightarrow> ws | Some w \<Rightarrow> w # ws)) (sh_scan False None s)
      else if c \<in> set shell_syntax then None
      else sh_scan False (Some (word_so_far w @ [c])) s)"

definition sh_words :: "string \<Rightarrow> string list option" where
  "sh_words s = sh_scan False None s"

lemma quote_chars [simp]: "SQUOTE \<noteq> BS" "BS \<noteq> SQUOTE" "SQUOTE \<noteq> CHR '' ''" "BS \<noteq> CHR '' ''" "CHR '' '' \<noteq> SQUOTE" "CHR '' '' \<noteq> BS"
  by (simp_all add: SQUOTE_def BS_def)

lemma scan_inside:
  "sh_scan True (Some w) (replace_all s [SQUOTE] [SQUOTE, BS, SQUOTE, SQUOTE] @ SQUOTE # t) = sh_scan False (Some (w @ s)) t"
proof (induction s arbitrary: w)
  case Nil
  show ?case by simp
next
  case (Cons c s)
  then show ?case by (cases "c = SQUOTE") (simp_all add: replace_all.simps(2) word_so_far_def)
qed

lemma scan_quoted: "sh_scan False None (Quote s @ t) = sh_scan False (Some s) t"
  using scan_inside [of "[]" s t] by (simp add: Quote_def word_so_far_def)

text \<open>
  C33: Any list of texts, each quoted and with one space between, is read by a shell as exactly those
  words: no character of a case's path or of a patch file's name can end the word it stands in.
\<close>

theorem quoted_words_survive:
  "sh_words (join_with '' '' (map Quote ss)) = Some ss"
proof (induction ss rule: induct_list012)
  case (2 s)
  show ?case using scan_quoted [of s "[]"] by (simp add: sh_words_def)
next
  case (3 s t ss)
  then show ?case using scan_quoted [of s] by (simp add: sh_words_def)
qed (simp add: sh_words_def)

subsection \<open>A directory that may be emptied\<close>

lemma clean_part_kept:
  assumes "\<forall>x \<in> set out. x \<notin> {[], ''.''} \<and> CHR ''/'' \<notin> set x \<and> (rooted \<longrightarrow> x \<noteq> ''..'')" "CHR ''/'' \<notin> set s"
  shows "\<forall>x \<in> set (clean_part rooted s out). x \<notin> {[], ''.''} \<and> CHR ''/'' \<notin> set x \<and> (rooted \<longrightarrow> x \<noteq> ''..'')"
  using assms by (auto simp: clean_part_def dest: in_set_butlastD)

lemma fold_clean_kept:
  "\<forall>x \<in> set out. x \<notin> {[], ''.''} \<and> CHR ''/'' \<notin> set x \<and> (rooted \<longrightarrow> x \<noteq> ''..'') \<Longrightarrow>
   \<forall>s \<in> set ss. CHR ''/'' \<notin> set s \<Longrightarrow>
   \<forall>x \<in> set (fold (clean_part rooted) ss out). x \<notin> {[], ''.''} \<and> CHR ''/'' \<notin> set x \<and> (rooted \<longrightarrow> x \<noteq> ''..'')"
proof (induction ss arbitrary: out)
  case (Cons s ss)
  from Cons.prems(2) have "CHR ''/'' \<notin> set s" "\<forall>s \<in> set ss. CHR ''/'' \<notin> set s" by simp_all
  with Cons.IH [OF clean_part_kept [OF Cons.prems(1)]] show ?case by simp
qed simp

lemma path_parts_clean:
  assumes "x \<in> set (path_parts p)"
  shows "x \<noteq> []" "x \<noteq> ''.''" "CHR ''/'' \<notin> set x" "path_abs p \<Longrightarrow> x \<noteq> ''..''"
  using fold_clean_kept [of "[]" "path_abs p" "split_on (CHR ''/'') p"] split_on_free assms
  by (fastforce simp: path_parts_def)+

lemma trim_of_ends:
  "s \<noteq> [] \<Longrightarrow> hd s \<notin> set cs \<Longrightarrow> last s \<notin> set cs \<Longrightarrow> trim_right_of cs s = s \<and> trim_left_of cs s = s"
proof -
  assume "s \<noteq> []" "hd s \<notin> set cs" "last s \<notin> set cs"
  then have "dropWhile (\<lambda>c. c \<in> set cs) s = s" "dropWhile (\<lambda>c. c \<in> set cs) (rev s) = rev s"
    by (simp_all add: dropWhile_eq_self_iff hd_rev)
  then show ?thesis by (simp add: trim_right_of_def trim_left_of_def)
qed

lemma join_ends:
  "ss \<noteq> [] \<Longrightarrow> \<forall>s \<in> set ss. s \<noteq> [] \<Longrightarrow>
   join_with t ss \<noteq> [] \<and> hd (join_with t ss) = hd (hd ss) \<and> last (join_with t ss) = last (last ss)"
  by (induction ss rule: induct_list012) auto

lemma scan_plain:
  "set s \<inter> set shell_syntax = {} \<Longrightarrow> sh_scan False (Some w) s = Some [w @ s]"
proof (induction s arbitrary: w)
  case (Cons c s)
  then have "c \<noteq> SQUOTE" "c \<noteq> BS" "c \<noteq> CHR '' ''" "c \<notin> set shell_syntax" by (auto simp: shell_syntax_def)
  with Cons show ?case by (simp add: word_so_far_def)
qed simp

lemma words_plain: "s \<noteq> [] \<Longrightarrow> set s \<inter> set shell_syntax = {} \<Longrightarrow> sh_words s = Some [s]"
proof (cases s)
  case (Cons c t)
  moreover assume "set s \<inter> set shell_syntax = {}"
  ultimately have "c \<noteq> SQUOTE" "c \<noteq> BS" "c \<noteq> CHR '' ''" "c \<notin> set shell_syntax" "set t \<inter> set shell_syntax = {}"
    by (auto simp: shell_syntax_def)
  then show ?thesis using Cons scan_plain [of t "[c]"] by (simp add: sh_words_def word_so_far_def)
qed simp

text \<open>
  A directory that may be emptied is, once clean, an absolute path of at least two names, none of
  them a dot or two dots, and a shell reads it as one word.
\<close>

theorem emptied_directory_is_deep:
  assumes "SafeToEmpty dir = None" and "p = path_clean (trim_space dir)"
  shows "\<exists>parts. p = ''/'' @ join_with ''/'' parts \<and> 2 \<le> length parts \<and>
    (\<forall>x \<in> set parts. x \<notin> {[], ''.'', ''..''} \<and> CHR ''/'' \<notin> set x) \<and> sh_words p = Some [p]"
proof -
  let ?d = "trim_space dir"
  have ok: "path_abs ?d" "2 \<le> length (split_on (CHR ''/'') (trim_of ''/'' p))"
    "find (\<lambda>c. c \<in> set shell_syntax) p = None"
    using assms by (auto simp: SafeToEmpty_def Let_def split: if_splits option.splits)
  let ?parts = "path_parts ?d"
  have p: "p = ''/'' @ join_with ''/'' ?parts" using ok(1) assms(2) by (simp add: path_clean_def)
  have parts: "\<forall>x \<in> set ?parts. x \<notin> {[], ''.'', ''..''} \<and> CHR ''/'' \<notin> set x"
    using path_parts_clean [of _ ?d] ok(1) by blast
  have "2 \<le> length ?parts"
  proof (cases "?parts = []")
    case True
    then show ?thesis using ok(2) p by (simp add: trim_of_def trim_left_of_def trim_right_of_def)
  next
    case False
    let ?j = "join_with ''/'' ?parts"
    have e: "?j \<noteq> []" "hd ?j = hd (hd ?parts)" "last ?j = last (last ?parts)"
      using join_ends [OF False, of "''/''"] parts by blast+
    have "hd ?parts \<in> set ?parts" "last ?parts \<in> set ?parts" using False by simp_all
    with parts have "hd (hd ?parts) \<noteq> CHR ''/''" "last (last ?parts) \<noteq> CHR ''/''"
      by (metis hd_in_set last_in_set singletonI insertCI)+
    with e have "trim_of ''/'' p = ?j"
      using trim_of_ends [of ?j "''/''"] by (simp add: p trim_of_def trim_left_of_def)
    moreover have "split_on (CHR ''/'') ?j = ?parts" using False parts by (simp add: split_join)
    ultimately show ?thesis using ok(2) by simp
  qed
  moreover have "sh_words p = Some [p]"
    using ok(3) p by (intro words_plain) (simp, simp only: find_None_all, blast)
  ultimately show ?thesis using p parts by blast
qed

lemma home_graphic: "trim_space ''/home/ctp'' = ''/home/ctp''"
  by (rule trim_space_trimmed) (simp add: graphic_trimmed graphic_def char_nat_def)

theorem emptied_directory_is_deep_witness:
  "\<exists>parts. ''/home/ctp'' = ''/'' @ join_with ''/'' parts \<and> 2 \<le> length parts \<and>
    (\<forall>x \<in> set parts. x \<notin> {[], ''.'', ''..''} \<and> CHR ''/'' \<notin> set x) \<and> sh_words ''/home/ctp'' = Some [''/home/ctp'']"
  by (rule emptied_directory_is_deep [of "''/home/ctp''"])
    (simp_all add: SafeToEmpty_def home_graphic path_clean_def path_parts_def clean_part_def path_abs_def
      trim_of_def trim_left_of_def trim_right_of_def shell_syntax_def control SQUOTE_def)

text \<open>What is checked is the clean path, and what a caller hands to a shell is the one it was given.\<close>

lemma raw_path_is_not_checked:
  "SafeToEmpty ''/a;b/../home/ctp'' = None" "sh_words ''/a;b/../home/ctp'' = None"
proof -
  have "trim_space ''/a;b/../home/ctp'' = ''/a;b/../home/ctp''"
    by (rule trim_space_trimmed) (simp add: graphic_trimmed graphic_def char_nat_def)
  then show "SafeToEmpty ''/a;b/../home/ctp'' = None"
    by (simp add: SafeToEmpty_def path_clean_def path_parts_def clean_part_def path_abs_def
      trim_of_def trim_left_of_def trim_right_of_def shell_syntax_def control SQUOTE_def)
  show "sh_words ''/a;b/../home/ctp'' = None"
    by (simp add: sh_words_def shell_syntax_def control SQUOTE_def)
qed

subsection \<open>The frame of a remote script\<close>

text \<open>The words of a frame cannot overlap with themselves.\<close>

definition apart :: "string \<Rightarrow> bool" where
  "apart p \<longleftrightarrow> p \<noteq> [] \<and> list_all (\<lambda>us. us = [] \<or> \<not> prefix us p) (suffixes (tl p))"

lemma apart_suffix: "apart p \<Longrightarrow> p = v @ us \<Longrightarrow> v \<noteq> [] \<Longrightarrow> us \<noteq> [] \<Longrightarrow> \<not> prefix us p"
  by (cases v) (auto simp: apart_def list_all_iff set_suffixes_eq suffix_def)

lemma index_first:
  assumes "apart p" "\<not> sublist p a"
  shows "index_of (a @ p @ b) p = Some (length a)"
  using assms(2)
proof (induction a)
  case Nil
  then show ?case using assms(1) by (cases p) (simp_all add: apart_def)
next
  case (Cons y a)
  have "\<not> prefix p ((y # a) @ p @ b)"
  proof
    assume "prefix p ((y # a) @ p @ b)"
    then consider "prefix p (y # a)" | us where "p = (y # a) @ us" "prefix us (p @ b)"
      using prefix_append [of p "y # a" "p @ b"] by blast
    then show False
    proof cases
      case 1
      then show False using Cons.prems by (meson prefix_imp_sublist)
    next
      case 2
      then have "us \<noteq> []" using Cons.prems by auto
      moreover have "prefix us p"
        using 2 by (metis prefix_append append_eq_append_conv2 length_append le_add2 prefix_length_prefix prefixI)
      ultimately show False using apart_suffix [OF assms(1) 2(1)] by simp
    qed
  qed
  moreover have "\<not> sublist p a" using Cons.prems by (simp add: sublist_Cons_right)
  ultimately show ?case using Cons.IH by simp
qed

lemma flags_apart: "apart startFlagLiteral" "apart compFlagLiteral"
  by (simp_all add: apart_def startFlagLiteral_def compFlagLiteral_def)

lemma sublist_around:
  "c \<notin> set p \<Longrightarrow> p \<noteq> [] \<Longrightarrow> sublist p (a @ c # b) \<longleftrightarrow> sublist p a \<or> sublist p b"
proof (induction a)
  case Nil
  then show ?case by (cases p) (auto simp: sublist_Cons_right)
next
  case (Cons x a)
  have "prefix p (x # a @ c # b) \<longleftrightarrow> prefix p (x # a)"
    using Cons.prems prefix_append [of p "x # a" "c # b"] by (auto simp: prefix_Cons)
  with Cons show ?case by (simp add: sublist_Cons_right)
qed

lemmas flag_defs = startFlagLiteral_def compFlagLiteral_def startFlagEcho_def compFlagEcho_def

lemma LF_flags: "LF \<notin> set startFlagLiteral" "LF \<notin> set compFlagLiteral"
  by (simp_all add: flag_defs LF_def)

text \<open>The text of a framed script does not hold the words of the frame, unless the script does.\<close>

lemma framed_has_no_flag:
  "sublist startFlagLiteral (framed_script s) \<longleftrightarrow> sublist startFlagLiteral s"
  "sublist compFlagLiteral (framed_script s) \<longleftrightarrow> sublist compFlagLiteral s"
proof -
  have p: "\<not> sublist startFlagLiteral Profile" "\<not> sublist compFlagLiteral Profile"
    "\<not> sublist startFlagLiteral startFlagEcho" "\<not> sublist compFlagLiteral startFlagEcho"
    "\<not> sublist startFlagLiteral compFlagEcho" "\<not> sublist compFlagLiteral compFlagEcho"
    by (simp_all add: flag_defs Profile_def sublist_Cons_right)
  have f: "framed_script s = Profile @ LF # startFlagEcho @ LF # s @ LF # compFlagEcho"
    by (simp add: framed_script_def)
  have n: "startFlagLiteral \<noteq> []" "compFlagLiteral \<noteq> []" by (simp_all add: flag_defs)
  show "sublist startFlagLiteral (framed_script s) \<longleftrightarrow> sublist startFlagLiteral s"
    using p by (simp only: f sublist_around [OF LF_flags(1) n(1)]) simp
  show "sublist compFlagLiteral (framed_script s) \<longleftrightarrow> sublist compFlagLiteral s"
    using p by (simp only: f sublist_around [OF LF_flags(2) n(2)]) simp
qed

text \<open>
  What a remote script printed comes back as it was, whatever a login banner or a shell that echoes
  its input put in front of it, the text of the framed script included, and whatever comes after.
\<close>

theorem frame_keeps_the_output:
  assumes "\<not> contains noise startFlagLiteral" "\<not> contains out compFlagLiteral"
  shows "between (noise @ startFlagLiteral @ [LF] @ out @ compFlagLiteral @ rest) = out"
  using index_first [OF flags_apart(1) assms(1), of "LF # out @ compFlagLiteral @ rest"]
    index_first [OF flags_apart(2) assms(2), of rest]
  by (simp add: between_def trim_prefix_def)

theorem frame_keeps_the_output_witness: "between (''Welcome'' @ startFlagLiteral @ [LF] @ ''ok'' @ compFlagLiteral @ [LF]) = ''ok''"
  by (rule frame_keeps_the_output) (simp_all add: flag_defs sublist_Cons_right)

lemma echoed_script_is_no_frame:
  assumes "\<not> contains script startFlagLiteral" "\<not> contains banner startFlagLiteral"
  shows "\<not> contains (banner @ [LF] @ framed_script script @ [LF]) startFlagLiteral"
proof -
  have "startFlagLiteral \<noteq> []" by (simp add: flag_defs)
  note around = sublist_around [OF LF_flags(1) this]
  have "sublist startFlagLiteral (framed_script script @ LF # []) \<longleftrightarrow> sublist startFlagLiteral script \<or> sublist startFlagLiteral []"
    by (simp only: around framed_has_no_flag)
  moreover have "\<not> sublist startFlagLiteral []" by (simp add: flag_defs)
  ultimately show ?thesis
    using assms around [of banner "framed_script script @ [LF]"] by simp
qed

end
