(* ===== verification/Shell_Discover_Claims.thy ===== *)
theory Shell_Discover_Claims
  imports Shell_Discover Exec_Claims
begin

text \<open>
  Choosing the cases of a shell run: what an exclusion takes out and an inclusion keeps, what the
  parts of a discovered case are, and which patch file belongs to which case.
\<close>

subsection \<open>Exclusion and inclusion\<close>

definition any_match :: "string list \<Rightarrow> string \<Rightarrow> bool" where
  "any_match pats c \<longleftrightarrow> (\<exists>p \<in> set pats. path_matches p c)"

text \<open>What was taken out, in the order it was taken, is a list of distinct indices.\<close>

definition taken_as :: "string list \<Rightarrow> nat list \<Rightarrow> nat set \<times> string list \<Rightarrow> bool" where
  "taken_as cases js s \<longleftrightarrow> distinct js \<and> set js = fst s \<and> fst s \<subseteq> {..<length cases} \<and> snd s = map (\<lambda>j. cases ! j) js"

lemma exclude_at_taken:
  assumes "taken_as cases js s" "j < length cases"
  shows "\<exists>js'. taken_as cases js' (exclude_at cases pat j s)"
proof (cases "j \<in> fst s \<or> \<not> path_matches pat (cases ! j)")
  case True
  then have "exclude_at cases pat j s = s" by (auto simp: exclude_at_def split: prod.splits)
  then show ?thesis using assms(1) by auto
next
  case False
  then have "exclude_at cases pat j s = (insert j (fst s), snd s @ [cases ! j])"
    by (auto simp: exclude_at_def split: prod.splits)
  moreover have "taken_as cases (js @ [j]) (insert j (fst s), snd s @ [cases ! j])"
    using assms False by (auto simp: taken_as_def)
  ultimately show ?thesis by auto
qed

lemma exclude_all_taken:
  "taken_as cases js s \<Longrightarrow> \<forall>j \<in> set ks. j < length cases \<Longrightarrow> \<exists>js'. taken_as cases js' (fold (exclude_at cases pat) ks s)"
proof (induction ks arbitrary: js s)
  case (Cons k ks)
  then obtain js' where "taken_as cases js' (exclude_at cases pat k s)" using exclude_at_taken by fastforce
  with Cons show ?case by simp
qed auto

lemma exclude_pats_taken:
  "taken_as cases js s \<Longrightarrow> \<exists>js'. taken_as cases js' (fold (exclude_pat cases) pats s)"
proof (induction pats arbitrary: js s)
  case (Cons p pats)
  then obtain js' where "taken_as cases js' (exclude_pat cases p s)"
    using exclude_all_taken [of cases js s "rev [0..<length cases]" p] by (auto simp: exclude_pat_def)
  with Cons.IH show ?case by simp
qed auto

lemma exclude_dropped:
  "fst (fold (exclude_at cases pat) ks s) = fst s \<union> {j \<in> set ks. path_matches pat (cases ! j)}"
proof (induction ks arbitrary: s)
  case (Cons k ks)
  have "fst (exclude_at cases pat k s) = fst s \<union> (if path_matches pat (cases ! k) then {k} else {})"
    by (auto simp: exclude_at_def split: prod.splits)
  with Cons show ?case by auto
qed simp

lemma exclude_pats_dropped:
  "fst (fold (exclude_pat cases) pats s) = fst s \<union> {j. j < length cases \<and> any_match pats (cases ! j)}"
proof (induction pats arbitrary: s)
  case (Cons p pats)
  then show ?case by (auto simp: exclude_pat_def exclude_dropped any_match_def)
qed (simp add: any_match_def)

lemma filter_indices:
  assumes "\<forall>i < length xs. Q i = P (xs ! i)"
  shows "map (\<lambda>i. xs ! i) (filter Q [0..<length xs]) = filter P xs"
proof -
  have "filter P xs = filter P (map (\<lambda>i. xs ! i) [0..<length xs])" by (simp add: map_nth)
  also have "\<dots> = map (\<lambda>i. xs ! i) (filter (\<lambda>i. P (xs ! i)) [0..<length xs])" by (simp add: filter_map o_def)
  also have "filter (\<lambda>i. P (xs ! i)) [0..<length xs] = filter Q [0..<length xs]"
    using assms by (intro filter_cong) auto
  finally show ?thesis by simp
qed

lemma exclude_exact:
  "fst (Exclude cases pats) = filter (\<lambda>c. \<not> any_match pats c) cases \<and>
   mset (snd (Exclude cases pats)) = mset (filter (any_match pats) cases)"
proof -
  let ?s = "fold (exclude_pat cases) pats ({}, [])"
  have d: "fst ?s = {j. j < length cases \<and> any_match pats (cases ! j)}" by (simp add: exclude_pats_dropped)
  obtain js where js: "taken_as cases js ?s"
    using exclude_pats_taken [of cases "[]" "({}, [])" pats] by (auto simp: taken_as_def)
  let ?is = "filter (\<lambda>i. any_match pats (cases ! i)) [0..<length cases]"
  have "set js = set ?is" using js d by (auto simp: taken_as_def)
  then have "mset js = mset ?is" using js by (metis taken_as_def distinct_filter distinct_upt set_eq_iff_mset_eq_distinct)
  then have "mset (map (\<lambda>j. cases ! j) js) = mset (map (\<lambda>j. cases ! j) ?is)" by (metis mset_map)
  then have "mset (snd ?s) = mset (filter (any_match pats) cases)"
    using js filter_indices [of cases _ "any_match pats"] by (simp add: taken_as_def)
  moreover have "kept_of cases (fst ?s) = filter (\<lambda>c. \<not> any_match pats c) cases"
    unfolding kept_of_def d by (rule filter_indices) simp
  ultimately show ?thesis by (cases ?s) (simp add: Exclude_def)
qed

text \<open>
  An exclusion leaves exactly the cases no pattern matches, in their order, and reports every other
  one exactly once.
\<close>

theorem exclusion_is_exact:
  "case Exclude cases pats of (kept, removed) \<Rightarrow>
     kept = filter (\<lambda>c. \<not> any_match pats c) cases \<and>
     mset removed = mset (filter (any_match pats) cases)"
  using exclude_exact [of cases pats] by (cases "Exclude cases pats") simp

lemma include_keep:
  "fold (include_at cases pat) ks s = s \<union> {j \<in> set ks. path_matches pat (cases ! j)}"
  by (induction ks arbitrary: s) (auto simp: include_at_def)

lemma include_pats_keep:
  "fold (\<lambda>pat. fold (include_at cases pat) [0..<length cases]) pats s =
     s \<union> {j. j < length cases \<and> any_match pats (cases ! j)}"
  by (induction pats arbitrary: s) (auto simp: include_keep any_match_def)

text \<open>
  A list of failures kept for a second run selects exactly what the same list, as an exclusion,
  would have left out; and nothing is lost between what is kept and what is dropped.
\<close>

theorem inclusion_mirrors_exclusion:
  assumes "pats \<noteq> []"
  shows "fst (Include_cases cases pats) = filter (any_match pats) cases \<and>
    snd (Include_cases cases pats) = fst (Exclude cases pats)"
proof -
  let ?keep = "{j. j < length cases \<and> any_match pats (cases ! j)}"
  have "map (\<lambda>i. cases ! i) (filter (\<lambda>i. i \<in> ?keep) [0..<length cases]) = filter (any_match pats) cases"
    by (rule filter_indices) simp
  moreover have "fst (Exclude cases pats) = map (\<lambda>i. cases ! i) (filter (\<lambda>i. i \<notin> ?keep) [0..<length cases])"
    using exclude_pats_dropped [of cases pats "({}, [])"]
    by (cases "fold (exclude_pat cases) pats ({}, [])") (simp add: Exclude_def kept_of_def)
  ultimately show ?thesis using assms by (simp add: Include_cases_def include_pats_keep Let_def)
qed

theorem inclusion_mirrors_exclusion_witness:
  "fst (Include_cases [''a/b/cases/b.sh'', ''a/bc/cases/bc.sh''] [''a/b/'']) = [''a/b/cases/b.sh''] \<and>
   snd (Include_cases [''a/b/cases/b.sh'', ''a/bc/cases/bc.sh''] [''a/b/'']) = [''a/bc/cases/bc.sh'']"
  using inclusion_mirrors_exclusion [of "[''a/b/'']" "[''a/b/cases/b.sh'', ''a/bc/cases/bc.sh'']"]
  by (simp add: exclude_exact any_match_def path_matches_def sublist_Cons_right)

lemma entry_matches:
  "path_matches (q @ ''/'') c \<longleftrightarrow>
     (\<exists>i < length (split_on (CHR ''/'') c). has_suffix (join_with ''/'' (take (Suc i) (split_on (CHR ''/'') c))) q)"
proof -
  have "path_matches (q @ ''/'') c \<longleftrightarrow> (\<exists>a b. c @ ''/'' = (a @ q) @ CHR ''/'' # b)"
    by (simp add: path_matches_def sublist_def)
  also have "\<dots> \<longleftrightarrow> (\<exists>a. \<exists>i < length (split_on (CHR ''/'') c). a @ q = join_with ''/'' (take (Suc i) (split_on (CHR ''/'') c)))"
    by (simp only: before_separator)
  also have "\<dots> \<longleftrightarrow> (\<exists>i < length (split_on (CHR ''/'') c). has_suffix (join_with ''/'' (take (Suc i) (split_on (CHR ''/'') c))) q)"
    unfolding suffix_def by metis
  finally show ?thesis .
qed

text \<open>
  An entry of an exclusion file matches a case exactly if it ends where a segment of the case's path
  ends. A directory's name therefore never takes a longer name that begins with it.
\<close>

theorem exclusion_ends_with_a_segment:
  assumes "pat \<in> set (ParseExcluded t)"
  shows "path_matches pat c \<longleftrightarrow>
    (\<exists>i < length (split_on (CHR ''/'') c).
       has_suffix (join_with ''/'' (take (Suc i) (split_on (CHR ''/'') c))) (butlast pat))"
proof -
  have "\<exists>q. pat = q @ ''/''"
    using assms by (auto simp: ParseExcluded_def excluded_line_def Let_def suffix_def split: if_splits)
  then obtain q where "pat = q @ ''/''" by blast
  then show ?thesis using entry_matches [of q c] by simp
qed

lemma excluded_plain:
  "graphic x \<Longrightarrow> graphic (last (x # s)) \<Longrightarrow> x \<noteq> CHR ''#'' \<Longrightarrow> \<not> has_prefix (x # s) ''--'' \<Longrightarrow> LF \<notin> set (x # s) \<Longrightarrow>
   \<not> has_suffix (x # s) ''/'' \<Longrightarrow> ParseExcluded (x # s) = [x # s @ ''/'']"
  by (auto simp add: ParseExcluded_def split_on_absent excluded_line_def trim_space_trimmed graphic_trimmed Let_def)

theorem exclusion_ends_with_a_segment_witness:
  "\<not> path_matches ''a/b/'' ''x/a/bc/cases/bc.sh''"
  by (subst exclusion_ends_with_a_segment [of _ "''a/b''"])
    (simp_all add: excluded_plain graphic_def char_nat_def LF_def suffix_def Ex_less_Suc2)

subsection \<open>The parts of a case\<close>

lemma last_at_append: "x \<notin> set b \<Longrightarrow> last_at x (a @ x # b) = Some (length a)"
proof (induction a)
  case Nil
  have "x \<notin> set b \<Longrightarrow> last_at x b = None" for b by (induction b) auto
  then show ?case using Nil by simp
qed simp

text \<open>
  A case in the corpus's own form is taken for a case, runs in its \<open>cases\<close> directory, and its
  verdict is read from the file that the shell library writes, which is named after the directory.
\<close>

theorem discovered_case_splits:
  assumes "CHR ''/'' \<notin> set name"
  shows "IsCase (root @ ''/'' @ name @ ''/cases/'' @ name @ ''.sh'') \<and>
    Split_case (root @ ''/'' @ name @ ''/cases/'' @ name @ ''.sh'') =
      Some \<lparr>sc_Path = root @ ''/'' @ name @ ''/cases/'' @ name @ ''.sh'', sc_Dir = root @ ''/'' @ name @ ''/cases'',
            sc_Script = name @ ''.sh'', sc_Result = name @ ''.result''\<rparr>"
proof -
  let ?p = "root @ ''/'' @ name @ ''/cases/'' @ name @ ''.sh''"
  let ?r = "split_on (CHR ''/'') root"
  have "split_on (CHR ''/'') ?p = ?r @ split_on (CHR ''/'') (name @ CHR ''/'' # ''cases'' @ CHR ''/'' # name @ ''.sh'')"
    using split_on_cut [of "CHR ''/''" root] by simp
  also have "\<dots> = ?r @ [name, ''cases'', name @ ''.sh'']"
    using assms by (simp add: split_on_append split_on_absent)
  finally have parts: "split_on (CHR ''/'') ?p = ?r @ [name, ''cases'', name @ ''.sh'']" .
  have "name @ ''.sh'' \<noteq> ''cases''"
  proof
    assume "name @ ''.sh'' = ''cases''"
    then have "last (name @ ''.sh'') = last ''cases''" by simp
    then show False by simp
  qed
  then have "last_at ''cases'' ((?r @ [name]) @ ''cases'' # [name @ ''.sh'']) = Some (length (?r @ [name]))"
    by (intro last_at_append) simp
  then have at: "last_at ''cases'' (?r @ [name, ''cases'', name @ ''.sh'']) = Some (Suc (length ?r))" by simp
  have "join_with ''/'' (?r @ [name, ''cases'']) = root @ ''/'' @ name @ ''/cases''"
  proof -
    have "join_with ''/'' (xs @ [y, z]) = join_with ''/'' xs @ ''/'' @ y @ ''/'' @ z" if "xs \<noteq> []" for xs y z
      using that by (induction xs rule: induct_list012) simp_all
    then show ?thesis by (simp add: join_split)
  qed
  moreover have "IsCase ?p" unfolding IsCase_def parts by (simp add: nth_append)
  moreover have "trim_suffix (name @ ''.sh'') ''.sh'' = name" by (rule trim_suffix_append)
  ultimately show ?thesis unfolding Split_case_def parts by (simp add: at Let_def)
qed

theorem discovered_case_splits_witness:
  "IsCase ''s/join/cases/join.sh'' \<and>
   Split_case ''s/join/cases/join.sh'' = Some \<lparr>sc_Path = ''s/join/cases/join.sh'', sc_Dir = ''s/join/cases'',
     sc_Script = ''join.sh'', sc_Result = ''join.result''\<rparr>"
  using discovered_case_splits [of "''join''" "''s''"] by simp

text \<open>Discovery's rule does not ask for the \<open>cases\<close> directory that \<open>Split\<close> needs.\<close>

lemma discovered_case_without_parts: "IsCase ''s/join/x/join.sh''" "Split_case ''s/join/x/join.sh'' = None"
  by (simp_all add: IsCase_def Split_case_def)

subsection \<open>Patches\<close>

lemma wanted_sound:
  "\<forall>(n, c) \<in> set w. c \<in> A \<and> patch_name root c ext = n \<and> n \<noteq> [] \<Longrightarrow> set cases \<subseteq> A \<Longrightarrow> distinct (map fst w) \<Longrightarrow>
   w' = fold (\<lambda>c w. let n = patch_name root c ext in if n \<noteq> [] then AList.update n c w else w) cases w \<Longrightarrow>
   (\<forall>(n, c) \<in> set w'. c \<in> A \<and> patch_name root c ext = n \<and> n \<noteq> []) \<and> distinct (map fst w')"
proof (induction cases arbitrary: w)
  case (Cons c cases)
  let ?n = "patch_name root c ext"
  define v where "v = (if ?n \<noteq> [] then AList.update ?n c w else w)"
  have d: "distinct (map fst v)" using Cons.prems(3) by (simp add: v_def distinct_update)
  have "(m, e) \<in> set v \<Longrightarrow> e \<in> A \<and> patch_name root e ext = m \<and> m \<noteq> []" for m e
  proof -
    assume "(m, e) \<in> set v"
    then have "map_of v m = Some e" using d by simp
    then have "(?n \<noteq> [] \<and> m = ?n \<and> e = c) \<or> map_of w m = Some e"
      by (auto simp: v_def update_conv' split: if_splits)
    then show ?thesis using Cons.prems(1,2) by (auto dest: map_of_SomeD)
  qed
  then have "\<forall>(n, c) \<in> set v. c \<in> A \<and> patch_name root c ext = n \<and> n \<noteq> []" by blast
  from Cons.IH [OF this _ d] show ?case using Cons.prems(2,4) by (simp add: v_def Let_def)
qed auto

lemma wanted_name: "map_of (wanted root ext cases) n = Some c \<Longrightarrow> c \<in> set cases \<and> patch_name root c ext = n \<and> n \<noteq> []"
  using wanted_sound [of "[]" "set cases" root ext cases "wanted root ext cases"]
  by (force simp: wanted_def dest: map_of_SomeD)

text \<open>Each entry read either serves the case that has its name, or is an orphan; nothing else is kept.\<close>

definition indexed :: "(string \<times> string) list \<Rightarrow> string \<Rightarrow> (string \<times> bool) list \<Rightarrow> patch_set \<Rightarrow> bool" where
  "indexed want dir es p \<longleftrightarrow> ps_dir p = dir \<and> ps_applied p = [] \<and>
     (\<forall>c f. map_of (ps_byCase p) c = Some f \<longrightarrow>
        (\<exists>n. map_of want n = Some c \<and> (n @ ''.patch'', False) \<in> set es \<and> f = dir @ ''/'' @ n @ ''.patch'')) \<and>
     (\<forall>n. (n @ ''.patch'', False) \<in> set es \<longrightarrow>
        (case map_of want n of None \<Rightarrow> n \<in> set (ps_orphans p)
         | Some c \<Rightarrow> map_of (ps_byCase p) c = Some (dir @ ''/'' @ n @ ''.patch''))) \<and>
     (\<forall>n \<in> set (ps_orphans p). map_of want n = None)"

definition own_names :: "(string \<times> string) list \<Rightarrow> bool" where
  "own_names want \<longleftrightarrow> (\<forall>n m c. map_of want n = Some c \<longrightarrow> map_of want m = Some c \<longrightarrow> n = m)"

lemma load_entry_indexed:
  assumes "indexed want dir es p" "own_names want"
  shows "indexed want dir (es @ [e]) (load_entry want e p)"
proof (cases "snd e \<or> \<not> has_suffix (fst e) ''.patch''")
  case True
  then have m: "((n @ ''.patch'', False) \<in> set (es @ [e])) = ((n @ ''.patch'', False) \<in> set es)" for n
    by (cases e) (auto simp: suffix_def)
  have l: "load_entry want e p = p" using True by (cases e) (auto simp: load_entry_def)
  show ?thesis using assms(1) unfolding indexed_def m l .
next
  case False
  then obtain n where e: "e = (n @ ''.patch'', False)" by (cases e) (auto simp: suffix_def)
  have t: "trim_suffix (n @ ''.patch'') ''.patch'' = n" by (rule trim_suffix_append)
  have new: "((m @ ''.patch'', False) \<in> set (es @ [e])) = (m = n \<or> (m @ ''.patch'', False) \<in> set es)" for m
    by (auto simp: e)
  show ?thesis
  proof (cases "map_of want n")
    case None
    then have l: "load_entry want e p = p\<lparr>ps_orphans := ps_orphans p @ [n]\<rparr>"
      using t by (simp add: load_entry_def e suffix_def)
    show ?thesis using assms(1) None unfolding indexed_def l new by (auto split: option.splits)
  next
    case (Some c)
    then have l: "load_entry want e p = p\<lparr>ps_byCase := AList.update c (ps_dir p @ ''/'' @ n @ ''.patch'') (ps_byCase p)\<rparr>"
      using t by (simp add: load_entry_def e suffix_def)
    have one: "m \<noteq> n \<Longrightarrow> map_of want m \<noteq> Some c" for m using Some assms(2) by (auto simp: own_names_def)
    note old = assms(1) [unfolded indexed_def]
    show ?thesis
      unfolding indexed_def l new
    proof (intro conjI allI impI)
      fix d f
      assume f: "map_of (ps_byCase (p\<lparr>ps_byCase := AList.update c (ps_dir p @ ''/'' @ n @ ''.patch'') (ps_byCase p)\<rparr>)) d = Some f"
      show "\<exists>m. map_of want m = Some d \<and> (m = n \<or> (m @ ''.patch'', False) \<in> set es) \<and> f = dir @ ''/'' @ m @ ''.patch''"
      proof (cases "d = c")
        case True
        then show ?thesis using f Some old by (auto simp: update_conv')
      next
        case False
        then have "map_of (ps_byCase p) d = Some f" using f by (simp add: update_conv')
        then show ?thesis using old by blast
      qed
    next
      fix m assume m: "m = n \<or> (m @ ''.patch'', False) \<in> set es"
      show "case map_of want m of None \<Rightarrow> m \<in> set (ps_orphans (p\<lparr>ps_byCase := AList.update c (ps_dir p @ ''/'' @ n @ ''.patch'') (ps_byCase p)\<rparr>))
        | Some d \<Rightarrow> map_of (ps_byCase (p\<lparr>ps_byCase := AList.update c (ps_dir p @ ''/'' @ n @ ''.patch'') (ps_byCase p)\<rparr>)) d =
            Some (dir @ ''/'' @ m @ ''.patch'')"
      proof (cases "m = n")
        case True
        then show ?thesis using Some old by (simp add: update_conv')
      next
        case False
        then have "case map_of want m of None \<Rightarrow> m \<in> set (ps_orphans p)
            | Some d \<Rightarrow> map_of (ps_byCase p) d = Some (dir @ ''/'' @ m @ ''.patch'')" using m old by blast
        then show ?thesis using one [OF False] by (auto simp: update_conv' split: option.splits)
      qed
    qed (use old in simp_all)
  qed
qed

lemma load_all_indexed:
  "indexed want dir es p \<Longrightarrow> own_names want \<Longrightarrow> indexed want dir (es @ fs) (fold (load_entry want) fs p)"
proof (induction fs arbitrary: es p)
  case (Cons f fs)
  from Cons.IH [OF load_entry_indexed [OF Cons.prems, of f] Cons.prems(2)] show ?case by simp
qed simp

text \<open>
  A case runs against a patch only if the directory holds a patch file named after that very case;
  and every patch file is either the patch of one of the cases, or reported as one without a case.
\<close>

theorem patches_find_their_cases:
  assumes "patch_Load dir root ext cases (Some es) = Inr (Some p)"
  shows "(patch_For (Some p) c \<noteq> [] \<longrightarrow>
      c \<in> set cases \<and> (patch_name root c ext @ ''.patch'', False) \<in> set es \<and>
      patch_For (Some p) c = ps_dir p @ ''/'' @ patch_name root c ext @ ''.patch'') \<and>
    ((n @ ''.patch'', False) \<in> set es \<longrightarrow>
      (n \<in> set (ps_orphans p)) \<noteq>
      (\<exists>d \<in> set cases. patch_name root d ext = n \<and> patch_For (Some p) d = ps_dir p @ ''/'' @ n @ ''.patch''))"
proof -
  let ?w = "wanted root ext cases"
  let ?p0 = "\<lparr>ps_dir = trim_space dir, ps_byCase = [], ps_orphans = [], ps_applied = []\<rparr>"
  let ?q = "fold (load_entry ?w) es ?p0"
  have p: "p = ?q\<lparr>ps_orphans := sort_strings (ps_orphans ?q)\<rparr>"
    using assms by (auto simp: patch_Load_def Let_def split: if_splits)
  have own: "own_names ?w" unfolding own_names_def by (metis wanted_name)
  have "indexed ?w (trim_space dir) [] ?p0" by (simp add: indexed_def)
  from load_all_indexed [OF this own] have q: "indexed ?w (trim_space dir) es ?q" by simp
  have same: "ps_dir p = trim_space dir" "ps_byCase p = ps_byCase ?q" "set (ps_orphans p) = set (ps_orphans ?q)"
    using q by (simp_all add: p indexed_def)
  have first: "map_of (ps_byCase p) c = Some f \<Longrightarrow>
      c \<in> set cases \<and> (patch_name root c ext @ ''.patch'', False) \<in> set es \<and>
      f = ps_dir p @ ''/'' @ patch_name root c ext @ ''.patch''" for f
    using q wanted_name [of root ext cases] unfolding same indexed_def by blast
  moreover have "(n \<in> set (ps_orphans p)) \<noteq>
      (\<exists>d \<in> set cases. patch_name root d ext = n \<and> patch_For (Some p) d = ps_dir p @ ''/'' @ n @ ''.patch'')"
    if n: "(n @ ''.patch'', False) \<in> set es"
  proof (cases "map_of ?w n")
    case None
    have "\<not> (\<exists>d \<in> set cases. patch_name root d ext = n \<and> patch_For (Some p) d = ps_dir p @ ''/'' @ n @ ''.patch'')"
    proof (rule notI, elim bexE conjE)
      fix d assume d: "d \<in> set cases" "patch_name root d ext = n" "patch_For (Some p) d = ps_dir p @ ''/'' @ n @ ''.patch''"
      then obtain f where "map_of (ps_byCase ?q) d = Some f" by (auto simp: patch_For_def same split: option.splits)
      then obtain m where "map_of ?w m = Some d" using q unfolding indexed_def by blast
      then show False using wanted_name [of root ext cases m d] d(2) None by auto
    qed
    then show ?thesis using q n None unfolding same indexed_def by auto
  next
    case (Some d)
    then have "map_of (ps_byCase p) d = Some (ps_dir p @ ''/'' @ n @ ''.patch'')"
      using q n unfolding same indexed_def by fastforce
    moreover have "n \<notin> set (ps_orphans p)" using q Some unfolding same indexed_def by fastforce
    ultimately show ?thesis using wanted_name [OF Some] by (auto simp: patch_For_def)
  qed
  ultimately show ?thesis by (auto simp: patch_For_def split: option.splits)
qed

lemmas path_eval = patch_name_def path_rel_def path_parts_def clean_part_def path_abs_def drop_repeat_def
  trim_suffix_def suffix_def

definition some_patches :: patch_set where
  "some_patches = \<lparr>ps_dir = ''p'', ps_byCase = [(''/s/x/cases/y.sql'', ''p/x~y.patch'')], ps_orphans = [''z''], ps_applied = []\<rparr>"

lemma some_load:
  "patch_Load ''p'' ''/s'' ''.sql'' [''/s/x/cases/y.sql''] (Some [(''x~y.patch'', False), (''z.patch'', False)]) =
   Inr (Some some_patches)"
proof -
  have t: "trim_space ''p'' = ''p''" by (rule trim_space_trimmed) (simp add: graphic_trimmed graphic_def char_nat_def)
  have w: "wanted ''/s'' ''.sql'' [''/s/x/cases/y.sql''] = [(''x~y'', ''/s/x/cases/y.sql'')]"
    by (simp add: wanted_def path_eval)
  show ?thesis
    by (simp add: patch_Load_def t w load_entry_def trim_suffix_def suffix_def some_patches_def sort_strings_def
        sort_by_def)
qed

theorem patches_find_their_cases_witness:
  "(''z'' \<in> set (ps_orphans some_patches)) \<noteq>
   (\<exists>d \<in> {''/s/x/cases/y.sql''}. patch_name ''/s'' d ''.sql'' = ''z'' \<and>
      patch_For (Some some_patches) d = ps_dir some_patches @ ''/'' @ ''z'' @ ''.patch'')"
  using patches_find_their_cases [OF some_load, of "''/s/x/cases/y.sql''" "''z''"] by simp

text \<open>Two cases of a corpus may have one patch name. The later one has the patch, and the other runs without.\<close>

lemma patch_names_collide:
  "patch_name ''/s'' ''/s/x/cases/y.sql'' ''.sql'' = patch_name ''/s'' ''/s/x/y/cases/y.sql'' ''.sql''"
  "patch_name ''/s'' ''/s/n/cases/n.sh'' ''.sh'' = patch_name ''/s'' ''/s/cases/n/cases/n.sh'' ''.sh''"
  "IsCase ''/s/n/cases/n.sh''" "IsCase ''/s/cases/n/cases/n.sh''"
  by (simp_all add: path_eval IsCase_def)

end
