(* ===== verification/Coredump.thy ===== *)
theory Coredump
  imports Exec_Shell
begin

text \<open>
  What a dead server left: \<open>coredump.go\<close> and \<open>crash.go\<close> in \<open>internal/coredump\<close>. The program asks
  \<open>find\<close>, \<open>grep\<close>, \<open>head\<close>, \<open>file\<close> and \<open>gdb\<close> through a channel and reads their text. What has been seen
  before is a list of paths, the counts of fatal lines an association list.
\<close>

subsection \<open>Reports of the crash handler\<close>

record crash =
  cr_Path :: string
  cr_Program :: string
  cr_Where :: string

definition crash_String :: "crash \<Rightarrow> string" where
  "crash_String c = path_base (cr_Path c) @
     (if cr_Program c = [] then []
      else '' ('' @ cr_Program c @ (if cr_Where c = [] then [] else '', '' @ cr_Where c) @ '')'')"

definition handlers :: "string list" where
  "handlers = [''er_dump_call_stack'', ''er_print_crash_callstack'', ''crash_handler'', ''__restore_rt'',
     ''print_output::~print_output'', ''??'']"

definition frameOf :: "string \<Rightarrow> string option" where
  "frameOf line =
     (case index_of line '': '' of None \<Rightarrow> None
      | Some i \<Rightarrow>
          (let rest = drop (i + 2) line in
           case last_index_of rest '' at '' of None \<Rightarrow> None
           | Some a \<Rightarrow>
               (let fn0 = take a rest; place = drop (a + 4) rest;
                    fn1 = (case index_of fn0 ''('' of None \<Rightarrow> fn0 | Some k \<Rightarrow> if 0 < k then take k fn0 else fn0);
                    fn = trim_space fn1
                in if list_ex (\<lambda>h. has_prefix fn h) handlers then None
                   else if fn = [] then None
                   else Some (fn @ '' at '' @ path_base (trim_space place)))))"

definition head_line :: "string \<Rightarrow> string \<times> string \<Rightarrow> string \<times> string" where
  "head_line raw pw =
     (let line = trim_space raw in
      case pw of (program, place) \<Rightarrow>
        if has_prefix line ''process info :'' then (trim_space (trim_prefix line ''process info :''), place)
        else if place = [] \<and> has_prefix line ''['' then
          (case frameOf line of Some w \<Rightarrow> (program, w) | None \<Rightarrow> pw)
        else pw)"

definition readHead :: "string \<Rightarrow> string \<times> string" where
  "readHead t = fold head_line (split_on LF t) ([], [])"

text \<open>The new reports, what has been seen afterwards, and the machine after the commands.\<close>

definition crash_line :: "'m sh_channel \<Rightarrow> string \<Rightarrow> crash list \<times> string list \<times> 'm \<Rightarrow> crash list \<times> string list \<times> 'm" where
  "crash_line ch raw s =
     (case s of (found, seen, m) \<Rightarrow>
        (let path = trim_space raw in
         if path = [] \<or> path \<in> set seen then s
         else (case ch (''head -40 '' @ Quote path) m of
             (Inl _, m') \<Rightarrow> (found @ [\<lparr>cr_Path = path, cr_Program = [], cr_Where = []\<rparr>], path # seen, m')
           | (Inr r, m') \<Rightarrow> (found @ [\<lparr>cr_Path = path, cr_Program = fst (readHead (sh_out r)), cr_Where = snd (readHead (sh_out r))\<rparr>],
               path # seen, m'))))"

definition Crashes :: "'m sh_channel \<Rightarrow> string \<Rightarrow> string list \<Rightarrow> 'm \<Rightarrow> crash list \<times> string list \<times> 'm" where
  "Crashes ch cubridDir seen m =
     (if trim_space cubridDir = [] then ([], seen, m)
      else (case ch (''find '' @ Quote (path_join [cubridDir, ''log'', ''coredump'']) @
                '' -type f -name '' @ Quote ''*.coredump'' @ '' 2>/dev/null | sort'') m of
          (Inl _, m') \<Rightarrow> ([], seen, m')
        | (Inr r, m') \<Rightarrow> fold (crash_line ch) (split_on LF (trim_space (sh_out r))) ([], seen, m')))"

definition keep_name :: "string \<Rightarrow> string \<Rightarrow> string \<Rightarrow> string" where
  "keep_name dir caseName path =
     path_join [dir, trim_suffix (path_base caseName) (path_ext caseName) @ ''.'' @ path_base path]"

datatype keep_error = ReadingFailed string cmd_error | ReadingEmpty string

text \<open>What is written where.\<close>

definition Keep_report :: "'m sh_channel \<Rightarrow> crash \<Rightarrow> string \<Rightarrow> string \<Rightarrow> 'm \<Rightarrow> (keep_error + string \<times> string) \<times> 'm" where
  "Keep_report ch c dir caseName m =
     (case ch (''cat '' @ Quote (cr_Path c)) m of
        (Inl e, m') \<Rightarrow> (Inl (ReadingFailed (cr_Path c) e), m')
      | (Inr r, m') \<Rightarrow>
          (if trim_space (sh_out r) = [] then Inl (ReadingEmpty (cr_Path c))
           else Inr (keep_name dir caseName (cr_Path c), sh_out r), m'))"

definition core_line :: "string \<Rightarrow> string list \<times> string list \<Rightarrow> string list \<times> string list" where
  "core_line raw s =
     (case s of (found, seen) \<Rightarrow>
        (let path = trim_space raw in
         if path = [] \<or> path \<in> set seen \<or> path_base path = ''core.log'' then s
         else (found @ [path], path # seen)))"

definition Cores :: "'m sh_channel \<Rightarrow> string list \<Rightarrow> string list \<Rightarrow> 'm \<Rightarrow> string list \<times> string list \<times> 'm" where
  "Cores ch seen dirs m =
     (let quoted = map Quote (filter (\<lambda>d. trim_space d \<noteq> []) dirs) in
      if quoted = [] then ([], seen, m)
      else (case ch (''find '' @ join_with '' '' quoted @ '' -name '' @ Quote ''core.*'' @ '' -type f 2>/dev/null | sort'') m of
          (Inl _, m') \<Rightarrow> ([], seen, m')
        | (Inr r, m') \<Rightarrow>
            (case fold core_line (split_on LF (trim_space (sh_out r))) ([], seen) of (found, seen') \<Rightarrow> (found, seen', m'))))"

definition count_of :: "(string \<times> int) list \<Rightarrow> string \<Rightarrow> int" where
  "count_of counts p = (case map_of counts p of None \<Rightarrow> 0 | Some n \<Rightarrow> n)"

definition fatal_line :: "string \<Rightarrow> string list \<times> (string \<times> int) list \<Rightarrow> string list \<times> (string \<times> int) list" where
  "fatal_line raw s =
     (case s of (found, counts) \<Rightarrow>
       (case cut_at (CHR '':'') (trim_space raw) of (path, n, ok) \<Rightarrow>
          if \<not> ok then s
          else (case atoi (trim_space n) of None \<Rightarrow> s
            | Some now \<Rightarrow>
                if now \<le> count_of counts path then s
                else (found @ [path_base path @ '' ('' @ itoa (now - count_of counts path) @ '' line(s))''],
                      AList.update path now counts))))"

definition Fatals :: "'m sh_channel \<Rightarrow> string \<Rightarrow> (string \<times> int) list \<Rightarrow> 'm \<Rightarrow> string list \<times> (string \<times> int) list \<times> 'm" where
  "Fatals ch cubridDir counts m =
     (if trim_space cubridDir = [] then ([], counts, m)
      else (case ch (''grep -rc '' @ Quote ''FATAL ERROR'' @ '' '' @ Quote (path_join [cubridDir, ''log'']) @ '' 2>/dev/null'') m of
          (Inl _, m') \<Rightarrow> ([], counts, m')
        | (Inr r, m') \<Rightarrow>
            (case fold fatal_line (split_on LF (trim_space (sh_out r))) ([], counts) of (found, counts') \<Rightarrow> (found, counts', m'))))"

subsection \<open>Reading gdb\<close>

record stack =
  st_Core :: string
  st_Process :: string
  st_Summary :: string
  st_Detail :: string

definition mapName :: "string \<Rightarrow> string" where
  "mapName cmdline =
     (if contains cmdline ''cub_cas'' then ''cub_cas''
      else if contains cmdline ''cub_server'' then ''cub_server''
      else if contains cmdline ''cubrid '' then
        (if list_ex (contains cmdline) ['' service'', '' server'', '' broker'', '' manager'', '' heartbeat'', '' hb'']
         then ''cubrid'' else ''cub_admin'')
      else if contains cmdline ''csql'' then ''csql''
      else trim_space (hd (split_on (CHR '' '') cmdline)))"

definition quoted_name :: "string \<Rightarrow> string \<Rightarrow> string \<Rightarrow> string" where
  "quoted_name desc op cl =
     (case index_of desc op of None \<Rightarrow> []
      | Some i \<Rightarrow>
          (let rest = drop (i + length op) desc in
           mapName (case index_of rest cl of None \<Rightarrow> rest | Some k \<Rightarrow> take k rest)))"

definition nameFromFile :: "string \<Rightarrow> string" where
  "nameFromFile desc = quoted_name desc (''from '' @ [SQUOTE]) [SQUOTE]"

definition nameFromGdb :: "string \<Rightarrow> string" where
  "nameFromGdb desc = quoted_name desc (''by '' @ [CHR 0x60]) [SQUOTE]"

definition betweenPrompts :: "string \<Rightarrow> string" where
  "betweenPrompts t =
     (case last_index_of t ''(gdb)'' of None \<Rightarrow> []
      | Some z \<Rightarrow>
          (case last_index_of (take z t) ''(gdb)'' of None \<Rightarrow> []
           | Some a \<Rightarrow> trim_space (drop (a + 5) (take z t))))"

record frame =
  fr_function :: string
  fr_file :: string

definition frame_word :: "string list \<Rightarrow> string" where
  "frame_word ws =
     (case dropWhile (\<lambda>w. w \<noteq> ''at'' \<and> w \<noteq> ''from'') ws of _ # f # _ \<Rightarrow> f | _ \<Rightarrow> [])"

text \<open>The function is the first word after the number, or the third one when the first is an address.\<close>

definition parseFrame :: "string \<Rightarrow> frame option" where
  "parseFrame t =
     (let words = go_fields (map (\<lambda>c. if c \<in> {TAB, LF, CR} then CHR '' '' else c) t) in
      if length words < 2 then None
      else if has_prefix (words ! 1) ''0x'' \<and> length words < 4 then None
      else (let fn = (if has_prefix (words ! 1) ''0x'' then words ! 3 else words ! 1);
                place = frame_word words;
                place' = (case last_index_of place ''src/'' of None \<Rightarrow> place | Some i \<Rightarrow> drop i place)
            in Some \<lparr>fr_function = fn, fr_file = place'\<rparr>))"

definition frame_mark :: "nat \<Rightarrow> string" where
  "frame_mark n = CHR ''#'' # nat_digits n"

text \<open>The frames of what is left of a backtrace, from number \<open>n\<close> on.\<close>

function frames_from :: "nat \<Rightarrow> string \<Rightarrow> frame list" where
  "frames_from n rest =
     (case index_of rest (frame_mark n) of None \<Rightarrow> []
      | Some i \<Rightarrow>
          (let s = drop i rest;
               e = (case index_of s (frame_mark (Suc n)) of None \<Rightarrow> length s | Some j \<Rightarrow> j)
           in (case parseFrame (take e s) of None \<Rightarrow> [] | Some f \<Rightarrow> [f]) @ frames_from (Suc n) (drop e s)))"
  by pat_completeness auto
termination
proof (relation "measure (\<lambda>(n, s). length s)")
  fix n rest i s e
  assume i: "index_of rest (frame_mark n) = Some i"
    and se: "s = drop i rest" "e = (case index_of s (frame_mark (Suc n)) of None \<Rightarrow> length s | Some j \<Rightarrow> j)"
  obtain a b where r: "rest = a @ frame_mark n @ b" "length a = i" using index_of_Some [OF i] by blast
  then have s: "s = CHR ''#'' # nat_digits n @ b" using se(1) by (simp add: frame_mark_def)
  have "e \<noteq> 0"
  proof
    assume "e = 0"
    moreover have "length s \<noteq> 0" using s by simp
    ultimately have "index_of s (frame_mark (Suc n)) = Some 0" using se(2) by (cases "index_of s (frame_mark (Suc n))") simp_all
    then obtain u v where "s = u @ frame_mark (Suc n) @ v" "length u = 0" using index_of_Some by blast
    then have "prefix (frame_mark (Suc n)) s" by simp
    then show False using successor_digits [of n b] by (simp add: s frame_mark_def)
  qed
  moreover have "length s \<le> length rest" using se(1) by simp
  moreover have "0 < length s" by (simp only: s) simp
  ultimately show "((Suc n, drop e s), n, rest) \<in> measure (\<lambda>(n, s). length s)" by (simp del: length_greater_0_conv)
qed simp

declare frames_from.simps [simp del]

definition frames :: "string \<Rightarrow> frame list" where
  "frames detail = frames_from 0 detail"

definition excluded_frames :: "string list" where
  "excluded_frames = [''er_log'', ''er_set_internal'', ''abort_handler'', ''er_set'']"

definition summarize :: "string \<Rightarrow> string" where
  "summarize detail =
     (case find (\<lambda>f. has_prefix (fr_file f) ''src/'' \<and> fr_function f \<notin> set excluded_frames) (frames detail) of
        None \<Rightarrow> []
      | Some f \<Rightarrow> ''Core dumped in '' @ fr_function f @ '' at '' @ fr_file f)"

datatype analyze_error = GdbFailed cmd_error | NoProgram string | NoStack string

definition process_of :: "'m sh_channel \<Rightarrow> string \<Rightarrow> 'm \<Rightarrow> (analyze_error + string) \<times> 'm" where
  "process_of ch core m =
     (case ch (''file '' @ Quote core) m of (rr, m1) \<Rightarrow>
       (let name = (case rr of Inl _ \<Rightarrow> [] | Inr r \<Rightarrow> nameFromFile (sh_out r)) in
        if name \<noteq> [] then (Inr name, m1)
        else (case ch (''gdb '' @ Quote core @ '' -ex '' @ Quote ''quit'' @ '' 2>/dev/null | grep '' @
                Quote ''Core was generated by'') m1 of
            (Inl e, m2) \<Rightarrow> (Inl (GdbFailed e), m2)
          | (Inr r, m2) \<Rightarrow>
              (let name = nameFromGdb (sh_out r) in
               if name \<noteq> [] then (Inr name, m2) else (Inl (NoProgram core), m2)))))"

definition Analyze :: "'m sh_channel \<Rightarrow> string \<Rightarrow> 'm \<Rightarrow> (analyze_error + stack) \<times> 'm" where
  "Analyze ch core m =
     (case process_of ch core m of
        (Inl e, m1) \<Rightarrow> (Inl e, m1)
      | (Inr name, m1) \<Rightarrow>
          (case ch (''gdb '' @ [CHR 0x60] @ ''which '' @ name @ [CHR 0x60] @ '' '' @ Quote core @
                '' <<'' @ Quote ''EOF'' @ [LF] @ ''bt full'' @ [LF] @ ''EOF'') m1 of
            (Inl e, m2) \<Rightarrow> (Inl (GdbFailed e), m2)
          | (Inr r, m2) \<Rightarrow>
              (let d = betweenPrompts (sh_out r) in
               if d = [] then (Inl (NoStack core), m2)
               else (Inr \<lparr>st_Core = core, st_Process = name, st_Summary = summarize d, st_Detail = d\<rparr>, m2))))"

definition stack_head :: "stack \<Rightarrow> string" where
  "stack_head s = after_last (CHR ''/'') (st_Core s) @ '' ['' @ st_Process s @ ''] '' @ st_Summary s @ [LF]"

definition stack_body :: "stack \<Rightarrow> string" where
  "stack_body s =
     [LF] @ replicate 18 (CHR ''='') @ after_last (CHR ''/'') (st_Core s) @ replicate 18 (CHR ''='') @ [LF] @ st_Detail s"

definition stack_Report :: "string \<Rightarrow> stack list \<Rightarrow> string" where
  "stack_Report coreDir stacks =
     (if stacks = [] then [] else ''SUMMARY:'' @ [LF] @ ''CORE_DIR:'' @ coreDir @ [LF]) @
     concat (map stack_head stacks) @ concat (map stack_body stacks)"

definition KeepStack :: "'m sh_channel \<Rightarrow> string \<Rightarrow> string \<Rightarrow> string \<Rightarrow> 'm \<Rightarrow> (analyze_error + string \<times> string) \<times> 'm" where
  "KeepStack ch core dir caseName m =
     (case Analyze ch core m of
        (Inl e, m') \<Rightarrow> (Inl e, m')
      | (Inr s, m') \<Rightarrow> (Inr (keep_name dir caseName core @ ''.stack'', stack_Report (path_dir core) [s]), m'))"

end
