(* ===== verification/Coredump_Claims.thy ===== *)
theory Coredump_Claims
  imports Coredump
begin

text \<open>
  What the readings of a dead server amount to: a backtrace is read back frame by frame, its summary
  names the innermost frame of the database's own source, and what a machine keeps is counted against
  one case only.
\<close>

subsection \<open>A backtrace\<close>

definition bt_words :: "nat \<Rightarrow> string \<times> string \<Rightarrow> string list" where
  "bt_words n f = [frame_mark n, ''0x7f'', ''in'', fst f, ''()'', ''at'', snd f]"

definition bt_frame :: "nat \<Rightarrow> string \<times> string \<Rightarrow> string" where
  "bt_frame n f = join_with '' '' (bt_words n f) @ [LF]"

fun bt_text :: "nat \<Rightarrow> (string \<times> string) list \<Rightarrow> string" where
  "bt_text n [] = []"
| "bt_text n (f # fs) = bt_frame n f @ bt_text (Suc n) fs"

definition src_part :: "string \<Rightarrow> string" where
  "src_part p = (case last_index_of p ''src/'' of None \<Rightarrow> p | Some i \<Rightarrow> drop i p)"

definition plain_frame :: "string \<times> string \<Rightarrow> bool" where
  "plain_frame f \<longleftrightarrow> (\<forall>w \<in> {fst f, snd f}. w \<noteq> [] \<and> (\<forall>c \<in> set w. graphic c \<and> c \<noteq> CHR ''#'')) \<and> fst f \<notin> {''at'', ''from''}"

lemma digits_graphic: "is_digit c \<Longrightarrow> graphic c \<and> c \<noteq> CHR ''#''"
  by (auto simp: is_digit_def graphic_def char_nat_def)

lemma mark_words:
  "plain_frame f \<Longrightarrow> \<forall>w \<in> set (bt_words n f). w \<noteq> [] \<and> (\<forall>c \<in> set w. graphic c)"
  using nat_digits_set digits_graphic
  by (auto simp: plain_frame_def bt_words_def frame_mark_def graphic_def char_nat_def)

lemma graphic_kept: "graphic c \<Longrightarrow> (if c \<in> {TAB, LF, CR} then CHR '' '' else c) = c"
  by (auto simp: graphic_def char_nat_def control)

lemma map_graphic:
  "\<forall>w \<in> set ws. \<forall>c \<in> set w. graphic c \<Longrightarrow>
   map (\<lambda>c. if c \<in> {TAB, LF, CR} then CHR '' '' else c) (join_with '' '' ws) = join_with '' '' ws"
proof (induction ws rule: induct_list012)
  case (2 w)
  then show ?case by (simp add: map_idI graphic_kept del: insert_iff)
next
  case (3 v w ws)
  then have "map (\<lambda>c. if c \<in> {TAB, LF, CR} then CHR '' '' else c) v = v"
    by (simp add: map_idI graphic_kept del: insert_iff)
  with 3 show ?case by (simp del: insert_iff)
qed simp

lemma parse_bt_frame:
  assumes "plain_frame f"
  shows "parseFrame (bt_frame n f) = Some \<lparr>fr_function = fst f, fr_file = src_part (snd f)\<rparr>"
proof -
  let ?w = "bt_words n f"
  have "map (\<lambda>c. if c \<in> {TAB, LF, CR} then CHR '' '' else c) (bt_frame n f) = join_with '' '' ?w @ '' ''"
    using map_graphic [of ?w] mark_words [OF assms] by (simp add: bt_frame_def del: insert_iff) (simp add: control)
  moreover have "go_fields (join_with '' '' ?w @ '' '') = ?w"
    using go_fields_join [OF mark_words [OF assms], of "'' ''" n] by (simp add: go_fields_blank go_fields_Nil)
  moreover have "frame_mark n \<noteq> ''at''" "frame_mark n \<noteq> ''from''" by (simp_all add: frame_mark_def)
  ultimately show ?thesis
    using assms by (simp add: parseFrame_def bt_words_def frame_word_def plain_frame_def src_part_def Let_def)
qed

lemma index_of_skip: "p \<noteq> [] \<Longrightarrow> hd p \<notin> set x \<Longrightarrow> index_of (x @ t) p = map_option (\<lambda>i. length x + i) (index_of t p)"
  by (cases "index_of t p"; induction x) (auto simp: neq_Nil_conv)

lemma bt_next_mark:
  assumes "plain_frame f"
  shows "index_of (bt_frame n f @ t) (frame_mark (Suc n)) = map_option (\<lambda>i. length (bt_frame n f) + i) (index_of t (frame_mark (Suc n)))"
proof -
  obtain y where y: "bt_frame n f = CHR ''#'' # nat_digits n @ y" "CHR ''#'' \<notin> set y"
    using assms by (auto simp: bt_frame_def bt_words_def frame_mark_def plain_frame_def LF_def)
  have "\<not> prefix (frame_mark (Suc n)) (bt_frame n f @ t)"
    using successor_digits [of n "y @ t"] by (simp add: y frame_mark_def)
  moreover have "CHR ''#'' \<notin> set (nat_digits n @ y)" using y(2) nat_digits_set digits_graphic by fastforce
  then have "index_of ((nat_digits n @ y) @ t) (frame_mark (Suc n)) =
      map_option (\<lambda>i. length (nat_digits n @ y) + i) (index_of t (frame_mark (Suc n)))"
    by (intro index_of_skip) (simp_all add: frame_mark_def)
  ultimately show ?thesis by (simp add: y option.map_comp o_def)
qed

lemma frames_read_back:
  "\<forall>f \<in> set fs. plain_frame f \<Longrightarrow>
   frames_from n (bt_text n fs) = map (\<lambda>f. \<lparr>fr_function = fst f, fr_file = src_part (snd f)\<rparr>) fs"
proof (induction fs arbitrary: n)
  case Nil
  show ?case by (subst frames_from.simps) (simp add: frame_mark_def)
next
  case (Cons f fs)
  let ?t = "bt_text (Suc n) fs" and ?b = "bt_frame n f"
  have "prefix (frame_mark n) (?b @ ?t)" by (simp add: bt_frame_def bt_words_def)
  moreover have "?b @ ?t \<noteq> []" by (simp add: bt_frame_def)
  ultimately have first: "index_of (?b @ ?t) (frame_mark n) = Some 0" by (cases "?b @ ?t") simp_all
  have after: "(case index_of (?b @ ?t) (frame_mark (Suc n)) of None \<Rightarrow> length (?b @ ?t) | Some j \<Rightarrow> j) = length ?b"
  proof (cases fs)
    case Nil
    then show ?thesis using bt_next_mark [of f n "[]"] Cons.prems by (simp add: frame_mark_def)
  next
    case (Cons g gs)
    have "prefix (frame_mark (Suc n)) ?t" using Cons by (simp add: bt_frame_def bt_words_def)
    moreover have "?t \<noteq> []" using Cons by (simp add: bt_frame_def)
    ultimately have "index_of ?t (frame_mark (Suc n)) = Some 0" by (cases ?t) simp_all
    then show ?thesis using bt_next_mark [of f n ?t] \<open>\<forall>f \<in> set (f # fs). plain_frame f\<close> by simp
  qed
  show ?case
    using Cons parse_bt_frame [of f n]
    by (subst frames_from.simps) (simp add: first after del: append_is_Nil_conv)
qed

text \<open>
  A backtrace as \<open>gdb\<close> prints it is read back frame by frame, so the summary names the innermost
  frame of the database's own source that is not part of the error machinery.
\<close>

theorem summary_is_innermost:
  assumes "\<forall>f \<in> set (fs @ (fn, place) # gs). plain_frame f"
    and "\<forall>(g, p) \<in> set fs. \<not> has_prefix (src_part p) ''src/'' \<or> g \<in> set excluded_frames"
    and "has_prefix (src_part place) ''src/''" "fn \<notin> set excluded_frames"
  shows "summarize (bt_text 0 (fs @ (fn, place) # gs)) = ''Core dumped in '' @ fn @ '' at '' @ src_part place"
proof -
  let ?P = "\<lambda>f. has_prefix (fr_file f) ''src/'' \<and> fr_function f \<notin> set excluded_frames"
  let ?m = "\<lambda>f. \<lparr>fr_function = fst f, fr_file = src_part (snd f)\<rparr>"
  have "find ?P (map ?m fs @ ?m (fn, place) # map ?m gs) = Some (?m (fn, place))"
    using assms(2-4) by (induction fs) auto
  then show ?thesis using frames_read_back [OF assms(1), of 0] by (simp add: summarize_def frames_def)
qed

lemma src_part_simple: "last_index_of p ''src/'' = Some 0 \<Longrightarrow> src_part p = p"
  by (simp add: src_part_def)

theorem summary_is_innermost_witness:
  "summarize (bt_text 0 ([(''abort'', ''libc.so''), (''er_set'', ''src/er.c'')] @ (''f'', ''src/q.c'') # [])) =
     ''Core dumped in f at src/q.c''"
proof -
  have p: "src_part ''src/q.c'' = ''src/q.c''" "src_part ''libc.so'' = ''libc.so''"
    by (simp_all add: src_part_def last_index_of_def)
  show ?thesis
    using summary_is_innermost [of "[(''abort'', ''libc.so''), (''er_set'', ''src/er.c'')]" "''f''" "''src/q.c''" "[]"]
    by (simp add: p plain_frame_def graphic_def char_nat_def excluded_frames_def)
qed

subsection \<open>What is counted once\<close>

lemma core_fold:
  assumes "distinct found" "set found \<inter> old = {}" "set seen = old \<union> set found"
    "fold core_line ls (found, seen) = (found', seen')"
  shows "distinct found' \<and> set found' \<inter> old = {} \<and> set seen' = old \<union> set found'"
  using assms
proof (induction ls arbitrary: found seen)
  case (Cons l ls)
  let ?p = "trim_space l"
  show ?case
  proof (cases "?p = [] \<or> ?p \<in> set seen \<or> path_base ?p = ''core.log''")
    case True
    then have "core_line l (found, seen) = (found, seen)" by (auto simp: core_line_def Let_def)
    then show ?thesis using Cons by simp
  next
    case False
    then have "core_line l (found, seen) = (found @ [?p], ?p # seen)" by (simp add: core_line_def Let_def)
    then show ?thesis using Cons.IH [of "found @ [?p]" "?p # seen"] Cons.prems False by auto
  qed
qed auto

lemma Cores_once:
  assumes "Cores ch seen dirs m = (found, seen', m')"
  shows "distinct found \<and> set found \<inter> set seen = {} \<and> set seen' = set seen \<union> set found"
proof (cases "found = [] \<and> seen' = seen")
  case True
  then show ?thesis by simp
next
  case False
  with assms obtain ls where "fold core_line ls ([], seen) = (found, seen')"
    unfolding Cores_def Let_def by (auto split: if_splits prod.split_asm sum.split_asm)
  then show ?thesis using core_fold [of "[]" "set seen" seen ls found seen'] by simp
qed

lemma crash_fold:
  assumes "distinct (map cr_Path found)" "set (map cr_Path found) \<inter> old = {}" "set seen = old \<union> set (map cr_Path found)"
    "fold (crash_line ch) ls (found, seen, m) = (found', seen', m')"
  shows "distinct (map cr_Path found') \<and> set (map cr_Path found') \<inter> old = {} \<and> set seen' = old \<union> set (map cr_Path found')"
  using assms
proof (induction ls arbitrary: found seen m)
  case (Cons l ls)
  let ?p = "trim_space l"
  show ?case
  proof (cases "?p = [] \<or> ?p \<in> set seen")
    case True
    then have "crash_line ch l (found, seen, m) = (found, seen, m)" by (auto simp: crash_line_def)
    then show ?thesis using Cons by simp
  next
    case False
    have "\<exists>c u. crash_line ch l (found, seen, m) = (found @ [c], ?p # seen, u) \<and> cr_Path c = ?p"
      using False by (cases "ch (''head -40 '' @ Quote ?p) m"; cases "fst (ch (''head -40 '' @ Quote ?p) m)")
        (simp_all add: crash_line_def Let_def)
    then obtain c u where "crash_line ch l (found, seen, m) = (found @ [c], ?p # seen, u)" "cr_Path c = ?p" by blast
    then show ?thesis using Cons.IH [of "found @ [c]" "?p # seen" u] Cons.prems False by auto
  qed
qed auto

lemma Crashes_once:
  assumes "Crashes ch dir seen m = (found, seen', m')"
  shows "distinct (map cr_Path found) \<and> set (map cr_Path found) \<inter> set seen = {} \<and>
    set seen' = set seen \<union> set (map cr_Path found)"
proof (cases "found = [] \<and> seen' = seen")
  case True
  then show ?thesis by simp
next
  case False
  with assms obtain ls u where "fold (crash_line ch) ls ([], seen, u) = (found, seen', m')"
    unfolding Crashes_def by (auto split: if_splits prod.split_asm sum.split_asm)
  then show ?thesis using crash_fold [of "[]" "set seen" seen ch ls u found seen' m'] by simp
qed

text \<open>What is found after each case of one worker: the machine is as the case left it.\<close>

fun cores_of_cases :: "'m sh_channel \<Rightarrow> (string list \<times> 'm) list \<Rightarrow> string list \<Rightarrow> string list list" where
  "cores_of_cases ch [] seen = []"
| "cores_of_cases ch ((dirs, m) # xs) seen =
     (case Cores ch seen dirs m of (found, seen', _) \<Rightarrow> found # cores_of_cases ch xs seen')"

fun crashes_of_cases :: "'m sh_channel \<Rightarrow> (string \<times> 'm) list \<Rightarrow> string list \<Rightarrow> crash list list" where
  "crashes_of_cases ch [] seen = []"
| "crashes_of_cases ch ((dir, m) # xs) seen =
     (case Crashes ch dir seen m of (found, seen', _) \<Rightarrow> found # crashes_of_cases ch xs seen')"

lemma cores_apart:
  "distinct (concat (cores_of_cases ch xs seen)) \<and> set (concat (cores_of_cases ch xs seen)) \<inter> set seen = {}"
proof (induction ch xs seen rule: cores_of_cases.induct)
  case (2 ch dirs m xs seen)
  obtain found seen' m' where c: "Cores ch seen dirs m = (found, seen', m')" by (cases "Cores ch seen dirs m")
  then show ?case using 2 [OF c [symmetric] refl] Cores_once [OF c] by auto
qed simp

lemma crashes_apart:
  "distinct (map cr_Path (concat (crashes_of_cases ch xs seen))) \<and>
   set (map cr_Path (concat (crashes_of_cases ch xs seen))) \<inter> set seen = {}"
proof (induction ch xs seen rule: crashes_of_cases.induct)
  case (2 ch dir m xs seen)
  obtain found seen' m' where c: "Crashes ch dir seen m = (found, seen', m')" by (cases "Crashes ch dir seen m")
  let ?rest = "set (map cr_Path (concat (crashes_of_cases ch xs seen')))"
  have "distinct (map cr_Path (concat (crashes_of_cases ch xs seen')))" "?rest \<inter> set seen' = {}"
    using 2 [OF c [symmetric] refl] by simp_all
  with Crashes_once [OF c] show ?case by (auto simp: c)
qed simp

text \<open>
  Nothing is swept between the cases of one worker, and yet each core file and each report of the
  crash handler fails one case only, whatever the machine holds when it is read.
\<close>

theorem evidence_counts_once:
  "distinct (concat (cores_of_cases ch xs [])) \<and>
   distinct (map cr_Path (concat (crashes_of_cases ch ys [])))"
  using cores_apart crashes_apart by blast

end
