(* ===== verification/Shell_Case.thy ===== *)
theory Shell_Case
  imports Shell_Discover
begin

text \<open>
  What a shell case is run with and how its result is read: \<open>case.go\<close>, \<open>prologue.go\<close>, the sweep and the
  reset of \<open>deploy.go\<close> and the pruning of \<open>registry.go\<close> in \<open>internal/runner/shellsuite\<close>. A script is its text.
\<close>

definition quot :: char where "quot = CHR 0x22"
definition tick_char :: char where "tick_char = CHR 0x60"

record case_options =
  co_Bits :: string
  co_BigSpaceDir :: string
  co_Charset :: string
  co_IgnoreCores :: string
  co_SSHHost :: string
  co_SSHPort :: string
  co_SSHUser :: string
  co_BuildID :: string

definition script_lines :: "string list \<Rightarrow> string" where
  "script_lines = join_with [LF]"

definition sshInfo :: "case_options \<Rightarrow> string list" where
  "sshInfo o' =
     (let host = (if co_SSHHost o' = [] then tick_char # ''hostname -i'' @ [tick_char] else co_SSHHost o');
          user = (if co_SSHUser o' = [] then tick_char # ''echo $USER'' @ [tick_char] else co_SSHUser o')
      in [''export TEST_SSH_HOST='' @ host, ''export TEST_SSH_PORT='' @ co_SSHPort o',
          ''export TEST_SSH_USER='' @ user, ''export TEST_BUIILD_ID='' @ co_BuildID o'])"

definition jdk_lines :: "case_options \<Rightarrow> string list" where
  "jdk_lines o' =
     (if co_Bits o' = [] then []
      else (let bits = to_upper (trim_space (co_Bits o')) in
        [''if [ '' @ [quot] @ ''$JAVA_HOME_'' @ bits @ [quot] @ '' ]; then'',
         ''        export JAVA_HOME=$JAVA_HOME_'' @ bits, ''fi'']))"

definition ignore_lines :: "case_options \<Rightarrow> string list" where
  "ignore_lines o' =
     (if trim_space (co_IgnoreCores o') = [] then []
      else [''export EXCLUDED_CORES_BY_ASSERT_LINE='' @ [quot] @ co_IgnoreCores o' @ [quot]])"

definition space_lines :: "case_options \<Rightarrow> string list" where
  "space_lines o' =
     [''export TEST_BIG_SPACE=$(echo $TEST_BIG_SPACE)'',
      ''export TEST_BIG_SPACE='' @ [tick_char] @ ''if [ '' @ [quot] @ ''$TEST_BIG_SPACE'' @ [quot] @ '' = '' @ [SQUOTE, SQUOTE] @
        '' ]; then echo '' @ co_BigSpaceDir o' @ '' ; else echo $TEST_BIG_SPACE; fi'' @ [tick_char],
      ''if [ '' @ [quot] @ ''$TEST_BIG_SPACE'' @ [quot] @ '' != '' @ [SQUOTE, SQUOTE] @
        '' ]; then mkdir -p $TEST_BIG_SPACE; rm -rf $TEST_BIG_SPACE/*; fi'']"

definition RunScript :: "shell_case \<Rightarrow> case_options \<Rightarrow> string" where
  "RunScript c o' = script_lines
     ([''cd '' @ sc_Dir c, ''ulimit -c unlimited''] @ jdk_lines o' @ space_lines o' @
      (if trim_space (co_Charset o') = [] then [] else [''export CUBRID_CHARSET='' @ co_Charset o']) @
      ignore_lines o' @
      [''echo > '' @ sc_Result c] @ sshInfo o' @ [''sh '' @ sc_Script c @ '' 2>&1''])"

definition FinalCheckScript :: "shell_case \<Rightarrow> case_options \<Rightarrow> string" where
  "FinalCheckScript c o' = script_lines
     ([''source /dev/stdin <<EOF'',
       tick_char # ''grep -E '' @ [quot] @ ''SKIP_CHECK_FATAL_ERROR'' @ [quot] @ '' '' @ sc_Path c @ '' '' @ [tick_char],
       ''EOF''] @ ignore_lines o' @ sshInfo o' @
      [''source $init_path/shell_utils.sh && do_check_more_errors '' @ [quot] @ sc_Dir c @ [quot]])"

definition CollectScript :: "shell_case \<Rightarrow> string" where
  "CollectScript c = script_lines [''cd '', ''cd '' @ sc_Dir c, ''cat '' @ sc_Result c]"

subsection \<open>The result of a case\<close>

definition collectAttempts :: nat where "collectAttempts = 6"

definition resultItem :: "string \<Rightarrow> string \<Rightarrow> string" where
  "resultItem flag message = (if flag = [] then message else '' : '' @ flag @ '' '' @ message)"

definition blankResultItems :: "shell_case \<Rightarrow> string \<Rightarrow> string list" where
  "blankResultItems c now =
     [resultItem ''NOK'' (''blank result - '' @ now @ '' - '' @ sc_Dir c @ [BS] @ sc_Result c),
      resultItem ''NOK'' ''blank result'']"

record case_verdict =
  vd_Items :: "string list"
  vd_Success :: bool
  vd_HasCore :: bool

definition verdict_line :: "string \<Rightarrow> case_verdict \<Rightarrow> case_verdict" where
  "verdict_line item v =
     (let v1 = (if contains item ''NOK'' then v\<lparr>vd_Success := False\<rparr> else v) in
      if contains item ''NOK found core file'' \<or> contains item ''NOK found fatal error''
      then v1\<lparr>vd_HasCore := True\<rparr> else v1)"

definition verdictOf :: "string list \<Rightarrow> case_verdict" where
  "verdictOf items = fold verdict_line items \<lparr>vd_Items = items, vd_Success = True, vd_HasCore = False\<rparr>"

definition consoleBanner :: string where
  "consoleBanner = replicate 29 (CHR ''='') @ '' CONSOLE OUTPUT '' @ replicate 29 (CHR ''='')"

definition shell_resultText :: "case_verdict \<Rightarrow> string \<Rightarrow> string" where
  "shell_resultText v console =
     (let t = join_with [LF] (vd_Items v) in
      if vd_Success v then t
      else (if t \<noteq> [] then t @ [LF] else t) @ consoleBanner @ [LF] @ console)"

subsection \<open>The environment a script runs in\<close>

definition prologue :: string where
  "prologue = script_lines
     [''if [ '' @ [quot] @ ''${CTP_HOME}'' @ [quot] @ '' == '' @ [quot, quot] @ '' ]; then'',
      ''  if which ctp.sh >/dev/null 2>&1 ; then'',
      ''    CTP_HOME=$(dirname $(readlink -f '' @ [tick_char] @ ''which ctp.sh'' @ [tick_char] @ ''))/..'',
      ''  elif [ ! '' @ [quot] @ ''${init_path}'' @ [quot] @ '' == '' @ [quot, quot] @ '' ]; then'',
      ''    CTP_HOME=${init_path}/../..'',
      ''  fi'', ''fi'',
      ''ulimit -c unlimited'',
      ''if [ '' @ [quot] @ ''${CTP_HOME}'' @ [quot] @ '' != '' @ [quot, quot] @ '' ]; then '',
      ''  export CTP_HOME=$(cd ${CTP_HOME}; pwd)'',
      ''  export PATH=${CTP_HOME}/bin:${CTP_HOME}/common/script:$PATH'',
      ''fi'', ''cd'', ''export init_path=${CTP_HOME}/shell/init_path'', []]"

definition withPrologue :: "string \<Rightarrow> string" where
  "withPrologue script = prologue @ trim_prefix script [LF]"

definition probeIn :: "'m sh_channel \<Rightarrow> string \<Rightarrow> 'm \<Rightarrow> sh_answer \<times> 'm" where
  "probeIn ch script m = ch (withPrologue script) m"

definition runIn :: "'m sh_channel \<Rightarrow> string \<Rightarrow> 'm \<Rightarrow> sh_answer \<times> 'm" where
  "runIn ch script m = (case probeIn ch script m of (r, m') \<Rightarrow> (Check_run r, m'))"

subsection \<open>Sweep and reset\<close>

definition psAll :: "bool \<Rightarrow> string" where
  "psAll boxed = (if boxed then ''ps -e -o pid,comm'' else ''ps -u $USER -o pid,comm'')"

definition psAllCmd :: "bool \<Rightarrow> string" where
  "psAllCmd boxed = (if boxed then ''ps -e -o pid,command'' else ''ps -u $USER -o pid,command'')"

definition first_column :: string where
  "first_column = '' | awk '' @ [SQUOTE] @ ''{print $1}'' @ [SQUOTE]"

definition psPIDs :: "string \<Rightarrow> bool \<Rightarrow> string" where
  "psPIDs name boxed = psAll boxed @ '' | grep -v grep | grep '' @ name @ first_column"

definition psPIDsInsensitive :: "string \<Rightarrow> bool \<Rightarrow> string" where
  "psPIDsInsensitive name boxed = psAll boxed @ '' | grep -v grep | grep -i '' @ name @ first_column"

definition bothKill :: "string \<Rightarrow> string" where
  "bothKill q = q @ '' | xargs -i kill -9 {} '' @ [LF] @ ''kill -9 '' @ [tick_char] @ q @ [tick_char]"

definition killPatterns :: "string list" where
  "killPatterns = [''cub_admin'', ''cub_master'', ''cub_auto'', ''cub_broker'', ''cub_server'', ''cub'', ''broker'',
     ''cm_admin'', ''csql'', ''loadjava'', ''make_locale'', ''migrate'', ''shard'']"

definition jvm_lines :: "bool \<Rightarrow> string list" where
  "jvm_lines boxed =
     [''ctp_java_pid_list='' @ [tick_char] @ psAllCmd boxed @ ''| grep -v grep | grep -E '' @ [SQUOTE] @
        ''com.navercorp.cubridqa|service.Server'' @ [SQUOTE] @ first_column @ [tick_char],
      ''all_java_pid_list='' @ [tick_char] @ psAll boxed @ ''| grep -v grep | grep -i java'' @ first_column @ [tick_char],
      ''final_list='' @ [quot, quot],
      ''for x in ${all_java_pid_list};do isExistPid='' @ [tick_char] @ ''echo ${ctp_java_pid_list}|grep -w $x|wc -l'' @
        [tick_char] @ '';if [ $isExistPid -eq 0];then final_list='' @ [quot] @ ''${final_list} $x'' @ [quot] @ '' ;fi;done'',
      bothKill ''echo ${final_list}'']"

definition KillScript :: "bool \<Rightarrow> bool \<Rightarrow> string" where
  "KillScript here boxed = script_lines
     ([''cubrid service stop''] @ map (\<lambda>p. bothKill (psPIDs p boxed)) killPatterns @
      [if boxed then ''ipcs -m | awk '' @ [SQUOTE] @ ''NR>3 {print $2}'' @ [SQUOTE] @ '' | xargs -i ipcrm -m {}''
       else ''ipcs | grep $USER | awk '' @ [SQUOTE] @ ''{print $2}'' @ [SQUOTE] @ ''  | xargs -i ipcrm -m {}''] @
      jvm_lines boxed @
      map (\<lambda>p. bothKill (psPIDsInsensitive p boxed)) [''sleep'', ''expect'', ''dos2unix''] @
      (if here then []
       else [bothKill ((if boxed then ''ps -e -o pid,cmd'' else ''ps -u $USER -o pid,cmd'') @
               ''| grep -v grep | grep -i '' @ [SQUOTE, BS] @ ''.sh'' @ [SQUOTE] @ first_column)]) @
      [if boxed then ''ps -e -f'' else ''ps -u $USER -f'', ''ps -ef | grep cub '', ''netstat -n -e -p -a'', ''ipcs''])"

definition RestoreScript :: string where
  "RestoreScript = script_lines
     [''if [ -z '' @ [quot] @ ''${CUBRID:-}'' @ [quot] @ '' ] || [ ! -d '' @ [quot] @ ''${CUBRID}/conf'' @ [quot] @
        '' ] || [ ! -x '' @ [quot] @ ''${CUBRID}/bin/cub_server'' @ [quot] @ '' ]; then'' @ [LF] @
        ''  echo '' @ [quot] @ ''[ERROR] the reset refuses to run: CUBRID is '' @ [BS, quot] @ ''${CUBRID:-}'' @ [BS, quot] @
        '', which is not a CUBRID installation'' @ [quot] @ '' >&2'' @ [LF] @ ''  exit 1'' @ [LF] @ ''fi'',
      ''rm -rf ${CUBRID}/conf/*'',
      ''cp -rf ~/.CUBRID_SHELL_FM/conf/* ${CUBRID}/conf/'',
      ''rm -rf ${CUBRID}/databases/*'',
      ''cp -rf ~/.CUBRID_SHELL_FM/databases/* ${CUBRID}/databases/'',
      ''rm -rf ${CUBRID}/lib/libcubrid_??_??.so'',
      ''rm -rf ${CUBRID}/lib/libcubrid_all_locales.so'',
      ''rm -rf ${CUBRID}/var/* >/dev/null 2>&1'',
      ''find '' @ [quot] @ ''${CUBRID}/log'' @ [quot] @ '' -mindepth 1 -type f -print | xargs -i rm -rf {} '',
      ''find '' @ [quot] @ ''${CUBRID}/'' @ [quot] @ '' -mindepth 1 -name '' @ [quot] @ ''core.[0-9][0-9]*'' @ [quot] @
        '' | xargs -i rm -rf {} '',
      ''find '' @ [quot] @ ''${CUBRID}/'' @ [quot] @ '' -mindepth 1 -name '' @ [quot] @ ''core'' @ [quot] @
        '' | xargs -i rm -rf {} '']"

definition PruneRegistryScript :: "string \<Rightarrow> string" where
  "PruneRegistryScript dir =
     ''f='' @ [quot] @ ''${CUBRID_DATABASES:-}/databases.txt'' @ [quot] @ ''; [ -n '' @ [quot] @ ''${CUBRID_DATABASES:-}'' @ [quot] @
     '' ] && [ -f '' @ [quot] @ ''$f'' @ [quot] @ '' ] || exit 0'' @ [LF] @
     ''awk -v d='' @ Quote dir @ '' '' @ [SQUOTE, LF] @
     ''  /^[[:space:]]*#/ { print; next }'' @ [LF] @
     ''  NF < 2          { print; next }'' @ [LF] @
     ''  $2 == d || index($2, d '' @ [quot] @ ''/'' @ [quot] @ '') == 1 { next }'' @ [LF] @
     ''  { print }'' @ [LF, SQUOTE] @ '' '' @ [quot] @ ''$f'' @ [quot] @ '' > '' @ [quot] @ ''$f.tkprune'' @ [quot] @
     '' && mv '' @ [quot] @ ''$f.tkprune'' @ [quot] @ '' '' @ [quot] @ ''$f'' @ [quot]"

end
