(* ===== verification/Case_Logs.thy ===== *)
theory Case_Logs
  imports Shell_Case
begin

text \<open>
  Keeping what a case wrote: \<open>caselogs.go\<close> in \<open>internal/runner/shellsuite\<close>. \<open>%q\<close> is \<open>strconv.Quote\<close> for
  printable ASCII. A size is a number of bytes; sizes stay far below 64 bits.
\<close>

record case_logs =
  cl_dir :: string
  cl_scenario :: string
  cl_all :: bool
  cl_budget :: int
  cl_spent :: int
  cl_stopped :: bool
  cl_kept :: int

datatype logs_error = BadMode string | NoResultDir

definition NewCaseLogs :: "string \<Rightarrow> string \<Rightarrow> string \<Rightarrow> int \<Rightarrow> logs_error + case_logs option" where
  "NewCaseLogs resultDir scenario mode budgetMB =
     (if mode = [] \<or> mode = ''off'' then Inr None
      else if mode \<noteq> ''fail'' \<and> mode \<noteq> ''all'' then Inl (BadMode mode)
      else if resultDir = [] then Inl NoResultDir
      else Inr (Some \<lparr>cl_dir = path_join [path_dir resultDir, ''case-logs''], cl_scenario = scenario,
             cl_all = (mode = ''all''), cl_budget = budgetMB, cl_spent = 0, cl_stopped = False, cl_kept = 0\<rparr>))"

definition logs_wants :: "bool \<Rightarrow> case_logs option \<Rightarrow> bool" where
  "logs_wants ok l = (case l of None \<Rightarrow> False | Some l \<Rightarrow> \<not> ok \<or> cl_all l)"

definition logs_done :: "case_logs option \<Rightarrow> bool" where
  "logs_done l = (case l of None \<Rightarrow> False | Some l \<Rightarrow> cl_stopped l)"

definition logs_spend :: "int \<Rightarrow> case_logs \<Rightarrow> bool \<times> case_logs" where
  "logs_spend n l =
     (let l1 = l\<lparr>cl_spent := cl_spent l + n, cl_kept := cl_kept l + 1\<rparr> in
      if 0 < cl_budget l1 \<and> cl_budget l1 * 2 ^ 20 \<le> cl_spent l1 \<and> \<not> cl_stopped l1
      then (True, l1\<lparr>cl_stopped := True\<rparr>) else (False, l1))"

definition logs_Summary :: "case_logs option \<Rightarrow> string" where
  "logs_Summary l = (case l of None \<Rightarrow> []
     | Some l \<Rightarrow>
        if cl_kept l = 0 then []
        else ''[INFO] case logs: '' @ itoa (cl_kept l) @ '' kept, '' @ itoa (cl_spent l div 2 ^ 20) @ '' MB, under '' @ cl_dir l @
          (if cl_stopped l then '' (stopped at the '' @ itoa (cl_budget l) @ '' MB budget)'' else []))"

definition destOf :: "string \<Rightarrow> string \<Rightarrow> string \<Rightarrow> int \<Rightarrow> string" where
  "destOf root scenario casePath attempt =
     (let rel0 = (if scenario = [] then casePath
            else (case path_rel scenario casePath of None \<Rightarrow> casePath
              | Some r \<Rightarrow> if has_prefix r ''..'' then casePath else r));
          rel1 = trim_prefix rel0 ''/'';
          fname = after_last (CHR ''/'') rel1;
          dir = take (length rel1 - length fname) rel1;
          rel = (if path_base (path_dir dir) \<noteq> [] \<and> has_suffix fname ''.sh'' then path_clean dir else rel1);
          d = path_join [root, rel]
      in if 1 < attempt then path_join [d, ''try'' @ itoa attempt] else d)"

definition go_quote :: "string \<Rightarrow> string" where
  "go_quote s = quot # concat (map (\<lambda>c. if c = quot \<or> c = BS then [BS, c] else [c]) s) @ [quot]"

definition capture_failed :: string where "capture_failed = ''testkit-capture-failed:''"

definition CaptureScript :: "string \<Rightarrow> string \<Rightarrow> bool \<Rightarrow> string" where
  "CaptureScript dest caseDir failed =
     (let d = go_quote dest;
          quiet = '' 2>/dev/null'' @ [LF];
          cannot = (\<lambda>p. '' || { echo '' @ [quot] @ capture_failed @ '' mkdir '' @ p @ [quot] @ ''; exit 0; }'' @ [LF])
      in ''mkdir -p '' @ d @ ''/server'' @ cannot dest @
         ''cp -p ${CUBRID}/log/server/* '' @ d @ ''/server/'' @ quiet @
         ''cp -p ${CUBRID}/log/*.err '' @ d @ ''/'' @ quiet @
         ''cp -p ${CUBRID}/log/cubrid_utility.log '' @ d @ ''/'' @ quiet @
         ''cp -rp ${CUBRID}/log/pl '' @ d @ ''/'' @ quiet @
         (if caseDir = [] then []
          else ''mkdir -p '' @ d @ ''/case'' @ cannot (dest @ ''/case'') @
            ''find '' @ go_quote caseDir @ '' -maxdepth 1 -type f '' @ [BS] @ ''( '' @
            join_with '' -o '' (map (\<lambda>p. ''-name '' @ [SQUOTE] @ p @ [SQUOTE]) [''*.log'', ''*.err'', ''*.out'', ''*.result'', ''*.diff'', ''core*'']) @
            '' -prune '' @ [BS] @ '') -size -8M -exec cp -p {} '' @ d @ ''/case/ '' @ [BS] @ '';'' @ quiet) @
         (if failed then ''cp -rp ${CUBRID}/log/broker '' @ d @ ''/'' @ quiet @
            ''cp -p ${CUBRID}/conf/cubrid.conf '' @ d @ ''/'' @ quiet else []) @
         ''du -sk '' @ d @ '' 2>/dev/null | cut -f1'' @ [LF])"

text \<open>\<open>Sscanf\<close> with \<open>%d\<close>: a text without a number leaves nought.\<close>

definition scan_number :: "string \<Rightarrow> int" where
  "scan_number s =
     (let t = trim_left_of [CHR '' '', TAB] s in
      if has_prefix t ''-'' then - int (digits_val (lead_digits (tl t)))
      else if has_prefix t ''+'' then int (digits_val (lead_digits (tl t)))
      else int (digits_val (lead_digits t)))"

definition last_line :: "string \<Rightarrow> string" where
  "last_line s = (if LF \<in> set (trim_right_of [LF] s)
     then drop (length (trim_right_of [LF] s) - length (after_last LF (trim_right_of [LF] s))) s else s)"

definition Capture :: "'m sh_channel \<Rightarrow> string \<Rightarrow> string \<Rightarrow> int \<Rightarrow> bool \<Rightarrow> case_logs option \<Rightarrow> 'm \<Rightarrow>
    string \<times> case_logs option \<times> 'm" where
  "Capture ch casePath caseDir attempt ok l m =
     (case l of None \<Rightarrow> ([], None, m)
      | Some cl \<Rightarrow>
          if \<not> logs_wants ok l \<or> logs_done l then ([], l, m)
          else (case runIn ch (CaptureScript (destOf (cl_dir cl) (cl_scenario cl) casePath attempt) caseDir (\<not> ok)) m of
              (Inl e, m') \<Rightarrow> (''[WARN] case logs: '' @ casePath @ '': '' @ error_text e, l, m')
            | (Inr r, m') \<Rightarrow>
                (let out = trim_space (sh_out r) in
                 case index_of out capture_failed of
                   Some i \<Rightarrow> (''[WARN] case logs: '' @ casePath @ '': '' @ hd (split_on LF (drop i out)), l, m')
                 | None \<Rightarrow>
                    (case logs_spend (scan_number (last_line out) * 2 ^ 10) cl of
                       (True, cl') \<Rightarrow> (''[WARN] case logs: the '' @ itoa (cl_budget cl') @
                           '' MB budget is gone; nothing more will be kept.'', Some cl', m')
                     | (False, cl') \<Rightarrow> ([], Some cl', m')))))"

end
