(* ===== verification/Result_Sink.thy ===== *)
theory Result_Sink
  imports Conf
begin

text \<open>
  The files of a run: \<open>sink.go\<close> in \<open>internal/result\<close>, with what \<open>lock.go\<close> says of the holder of a
  result tree and the name \<open>backup.go\<close> gives an archive. The run directory is an association list
  from file names to contents; the four caches of open files are one list of names, since the names
  of different kinds differ. An operation is one step: each holds the sink's lock, or writes one
  line. Failures of the file system are not modelled.
\<close>

definition RetryFlag :: string where "RetryFlag = ''TRY->''"

record sink =
  sk_files :: "(string \<times> string) list"
  sk_open :: "string list"
  sk_append :: bool
  sk_stdout :: "string list"

definition sink_Open :: "(string \<times> string) list \<Rightarrow> bool \<Rightarrow> sink" where
  "sink_Open present continueMode =
     \<lparr>sk_files = present, sk_open = [], sk_append = continueMode, sk_stdout = []\<rparr>"

definition content :: "sink \<Rightarrow> string \<Rightarrow> string" where
  "content s n = (case map_of (sk_files s) n of Some t \<Rightarrow> t | None \<Rightarrow> [])"

text \<open>Opening a file the first time creates it, and empties it unless it is opened to append.\<close>

definition sink_file :: "string \<Rightarrow> bool \<Rightarrow> sink \<Rightarrow> sink" where
  "sink_file n appendMode s =
     (if n \<in> set (sk_open s) then s
      else s\<lparr>sk_open := n # sk_open s,
             sk_files := AList.update n (if appendMode then content s n else []) (sk_files s)\<rparr>)"

definition append_text :: "string \<Rightarrow> string \<Rightarrow> sink \<Rightarrow> sink" where
  "append_text n t s = s\<lparr>sk_files := AList.update n (content s n @ t) (sk_files s)\<rparr>"

definition printed :: "string \<Rightarrow> sink \<Rightarrow> sink" where
  "printed t s = s\<lparr>sk_stdout := sk_stdout s @ [t]\<rparr>"

definition worker_file :: "string \<Rightarrow> string" where "worker_file env = ''test_'' @ env @ ''.log''"
definition monitor_file :: "string \<Rightarrow> string" where "monitor_file env = ''monitor_'' @ env @ ''.log''"
definition check_file :: "string \<Rightarrow> string" where "check_file env = ''check_'' @ env @ ''.log''"
definition fin_file :: "string \<Rightarrow> string" where "fin_file env = ''dispatch_tc_FIN_'' @ env @ ''.txt''"
definition all_file :: string where "all_file = ''dispatch_tc_ALL.txt''"
definition snapshot_file :: string where "snapshot_file = ''main_snapshot.properties''"

definition in_lines :: "string list \<Rightarrow> string" where
  "in_lines ls = concat (map (\<lambda>l. l @ [LF]) ls)"

definition EnvStart :: "string \<Rightarrow> sink \<Rightarrow> sink" where
  "EnvStart env = printed (''[ENV START] '' @ env @ [LF])"

definition EnvStop :: "string \<Rightarrow> sink \<Rightarrow> sink" where
  "EnvStop env = printed (''[ENV STOP] '' @ env @ [LF])"

definition TestCase :: "string \<Rightarrow> string \<Rightarrow> bool \<Rightarrow> int \<Rightarrow> int \<Rightarrow> sink \<Rightarrow> sink" where
  "TestCase name env ok maxRetryCount retryCount =
     printed (''[TESTCASE] '' @ name @ '' EnvId='' @ env @
       (if ok then '' [OK]''
        else if maxRetryCount \<noteq> 0 then '' [NOK], '' @ RetryFlag @ itoa retryCount
        else '' [NOK]'') @ [LF])"

definition Core :: "string \<Rightarrow> sink \<Rightarrow> sink" where
  "Core path = printed (''CORE_FILE:'' @ path @ [LF])"

definition WorkerLines :: "string \<Rightarrow> string list \<Rightarrow> sink \<Rightarrow> sink" where
  "WorkerLines env ls s = append_text (worker_file env) (in_lines ls) (sink_file (worker_file env) True s)"

definition Worker :: "string \<Rightarrow> string \<Rightarrow> sink \<Rightarrow> sink" where
  "Worker env l = WorkerLines env [l]"

definition Check_log :: "string \<Rightarrow> string \<Rightarrow> sink \<Rightarrow> sink" where
  "Check_log env t s = append_text (check_file env) t (sink_file (check_file env) (sk_append s) s)"

definition Monitor :: "string \<Rightarrow> string \<Rightarrow> sink \<Rightarrow> sink" where
  "Monitor env l s =
     (let s1 = sink_file (monitor_file env) (sk_append s) s in
      if l = [] then s1 else append_text (monitor_file env) (l @ [LF]) s1)"

definition Finish_case :: "string \<Rightarrow> string \<Rightarrow> sink \<Rightarrow> sink" where
  "Finish_case env name s = append_text (fin_file env) (name @ [LF]) (sink_file (fin_file env) (sk_append s) s)"

definition overwrite :: "string \<Rightarrow> string \<Rightarrow> sink \<Rightarrow> sink" where
  "overwrite n t s = s\<lparr>sk_files := AList.update n t (sk_files s)\<rparr>"

definition All_cases :: "string list \<Rightarrow> sink \<Rightarrow> sink" where
  "All_cases names = overwrite all_file (in_lines names)"

definition property_line :: "string \<Rightarrow> string \<Rightarrow> string" where
  "property_line k v = k @ ''='' @ v"

definition Snapshot :: "config \<Rightarrow> (string \<times> string) list \<Rightarrow> sink \<Rightarrow> sink" where
  "Snapshot cfg resolved =
     overwrite snapshot_file (in_lines
       (map (\<lambda>k. property_line k (case Get cfg k of Some v \<Rightarrow> v | None \<Rightarrow> [])) (Keys cfg) @
        map (\<lambda>k. property_line k (case map_of resolved k of Some v \<Rightarrow> v | None \<Rightarrow> []))
          (sort_strings (map fst resolved))))"

definition sink_Close :: "sink \<Rightarrow> sink" where
  "sink_Close s = s\<lparr>sk_open := []\<rparr>"

definition readLines :: "string option \<Rightarrow> string list" where
  "readLines t = (case t of None \<Rightarrow> [] | Some t \<Rightarrow> filter (\<lambda>l. l \<noteq> []) (map trim_space (split_on LF t)))"

definition fin_name :: "string \<Rightarrow> bool" where
  "fin_name n \<longleftrightarrow> has_prefix n ''dispatch_tc_FIN'' \<and> has_suffix n ''.txt''"

definition finished_in :: "sink \<Rightarrow> string list" where
  "finished_in s = concat (map (\<lambda>(n, t). if fin_name n then readLines (Some t) else []) (sk_files s))"

definition Remaining :: "sink \<Rightarrow> string list" where
  "Remaining s = filter (\<lambda>c. c \<notin> set (finished_in s)) (readLines (map_of (sk_files s) all_file))"

text \<open>The unit test task has lines of its own.\<close>

definition Step_line :: "string \<Rightarrow> sink \<Rightarrow> sink" where
  "Step_line name = printed (''=> '' @ name @ '' Step: '' @ [LF])"

definition UnitCaseStart :: "int \<Rightarrow> string \<Rightarrow> sink \<Rightarrow> sink" where
  "UnitCaseStart i name = printed (''[TESTCASE-'' @ itoa i @ ''] '' @ name)"

definition UnitCaseVerdict :: "bool \<Rightarrow> sink \<Rightarrow> sink" where
  "UnitCaseVerdict ok = printed ((if ok then '' [SUCC]'' else '' [FAIL]'') @ [LF])"

text \<open>What else is written to the sink in a run: no case is entered as finished.\<close>

definition other_output :: "(sink \<Rightarrow> sink) \<Rightarrow> bool" where
  "other_output f \<longleftrightarrow> (\<exists>e ls t c r. f \<in> {EnvStart e, EnvStop e, Core t, WorkerLines e ls, Check_log e t, Monitor e t, Snapshot c r})"

subsection \<open>The lock's note and the archive's name\<close>

definition holder_note :: "int \<Rightarrow> string \<Rightarrow> string \<Rightarrow> string" where
  "holder_note pid started resultDir =
     ''pid '' @ itoa pid @ [LF] @ ''started '' @ started @ [LF] @ ''result '' @ resultDir @ [LF]"

definition holder_line :: "string \<Rightarrow> string \<times> string \<Rightarrow> string \<times> string" where
  "holder_line line ps =
     (case (cut_at (CHR '' '') (trim_space line), ps) of ((k, v, ok), (pid, started)) \<Rightarrow>
        if \<not> ok then ps
        else if k = ''pid'' then (v, started)
        else if k = ''started'' then (pid, v)
        else ps)"

text \<open>Whether a process can be seen is a parameter.\<close>

definition describeHolder :: "(int \<Rightarrow> bool) \<Rightarrow> string \<Rightarrow> string" where
  "describeHolder alive t =
     (case fold holder_line (split_on LF (take 512 t)) ([], []) of (pid, started) \<Rightarrow>
        if pid = [] then ''held by another process''
        else (let gone = (case atoi pid of None \<Rightarrow> []
            | Some n \<Rightarrow> if alive n then [] else '' (that pid is not visible from here; it may be in a namespace)'')
          in if started \<noteq> [] then ''held by pid '' @ pid @ '', started '' @ started @ gone
             else ''held by pid '' @ pid @ gone))"

record moment =
  mo_year :: int
  mo_month :: int
  mo_day :: int
  mo_hour :: int
  mo_minute :: int
  mo_second :: int

definition backupName :: "string \<Rightarrow> string \<Rightarrow> string \<Rightarrow> int \<Rightarrow> moment \<Rightarrow> string" where
  "backupName module buildID bits taskID at =
     module @ ''_result_'' @ buildID @ ''_'' @ bits @ ''_'' @ itoa taskID @ ''_'' @
     itoa (mo_year at) @ ''.'' @ itoa (mo_month at) @ ''.'' @ itoa (mo_day at) @ ''_'' @
     itoa (mo_hour at mod 12) @ ''.'' @ itoa (mo_minute at) @ ''.'' @ itoa (mo_second at) @ ''.tar.gz''"

end
