(* ===== verification/Shell_Corpus.thy ===== *)
theory Shell_Corpus
  imports Shell_Discover
begin

text \<open>
  The scenario tree of a run, \<open>corpus.go\<close> in \<open>internal/runner/shellsuite\<close>: the repository's tree
  underneath, the run's writes on top, and each directory's writes dropped when the last of its cases
  is done. A tree is its entries by name, a file its allocated bytes; sizes of the memory file system
  are read from the machine, a parameter.
\<close>

subsection \<open>What was added to a tree\<close>

datatype ftree = File int | Dir "(string \<times> ftree) list"

fun treeBytes :: "ftree \<Rightarrow> int" where
  "treeBytes (File b) = b"
| "treeBytes (Dir []) = 0"
| "treeBytes (Dir ((n, t) # es)) = treeBytes t + treeBytes (Dir es)"

text \<open>
  An entry the pristine tree does not have is removed; of one both have, the directories are gone
  through and everything else is left alone.
\<close>

fun dropAdditions :: "(string \<times> ftree) list \<Rightarrow> (string \<times> ftree) list \<Rightarrow> (string \<times> ftree) list" where
  "dropAdditions [] pristine = []"
| "dropAdditions ((n, t) # es) pristine =
     (case map_of pristine n of
        None \<Rightarrow> dropAdditions es pristine
      | Some q \<Rightarrow>
          (n, case t of Dir l \<Rightarrow> (case q of Dir p \<Rightarrow> Dir (dropAdditions l p) | File _ \<Rightarrow> t) | File _ \<Rightarrow> t) #
          dropAdditions es pristine)"

fun addedBytes :: "(string \<times> ftree) list \<Rightarrow> (string \<times> ftree) list \<Rightarrow> int" where
  "addedBytes [] pristine = 0"
| "addedBytes ((n, t) # es) pristine =
     (case map_of pristine n of
        None \<Rightarrow> treeBytes t
      | Some q \<Rightarrow> (case t of Dir l \<Rightarrow> (case q of Dir p \<Rightarrow> addedBytes l p | File _ \<Rightarrow> 0) | File _ \<Rightarrow> 0)) +
     addedBytes es pristine"

text \<open>With lanes: the names to remove, read from the upper layer, each a path below the directory.\<close>

fun collectAdditions :: "(string \<times> ftree) list \<Rightarrow> (string \<times> ftree) list \<Rightarrow> string list list" where
  "collectAdditions [] pristine = []"
| "collectAdditions ((n, t) # es) pristine =
     (case map_of pristine n of
        None \<Rightarrow> [[n]]
      | Some q \<Rightarrow>
          (case t of Dir l \<Rightarrow> (case q of Dir p \<Rightarrow> map ((#) n) (collectAdditions l p) | File _ \<Rightarrow> []) | File _ \<Rightarrow> [])) @
     collectAdditions es pristine"

definition rm_script :: "string \<Rightarrow> string list list \<Rightarrow> string" where
  "rm_script live gone = ''rm -rf -- '' @ join_with '' '' (map (\<lambda>p. Quote (join_with ''/'' (live # p))) gone)"

definition added_mb :: "int \<Rightarrow> int" where "added_mb b = b div 1048576"

definition relOf :: "string \<Rightarrow> string \<Rightarrow> string option" where
  "relOf root dir =
     (case path_rel root dir of None \<Rightarrow> None
      | Some rel \<Rightarrow> if rel = ''..'' \<or> has_prefix rel ''../'' then None else Some rel)"

definition pristineOf :: "string \<Rightarrow> string \<Rightarrow> string \<Rightarrow> string" where
  "pristineOf root pristine dir = (case relOf root dir of None \<Rightarrow> [] | Some rel \<Rightarrow> path_join [pristine, rel])"

subsection \<open>The corpus of a run\<close>

record slot_store =
  st_upperRoot :: string
  st_onRAM :: bool

text \<open>What the machine answers: what the memory file system holds, and what a directory holds there.\<close>

record 'm corpus_env =
  ce_used :: "'m \<Rightarrow> int"
  ce_added :: "string \<Rightarrow> 'm \<Rightarrow> int"
  ce_own :: "string \<Rightarrow> string \<Rightarrow> 'm \<Rightarrow> int"
  ce_drop :: "string \<Rightarrow> 'm \<Rightarrow> 'm"
  ce_dropInSlot :: "string \<Rightarrow> string \<Rightarrow> 'm \<Rightarrow> 'm"

record corpus =
  co_root :: string
  co_ram :: string
  co_pristine :: string
  co_shared :: bool
  co_disk :: string
  co_slots :: "(string \<times> slot_store) list"
  co_pending :: "(string \<times> int) list"
  co_freed :: int
  co_held :: "(string \<times> int) list"
  co_peak :: int
  co_mb :: int

definition NewCorpus :: "string \<Rightarrow> string \<Rightarrow> int \<Rightarrow> bool \<Rightarrow> corpus" where
  "NewCorpus root ram mb lanes =
     \<lparr>co_root = root, co_ram = ram, co_pristine = (if lanes then root else path_join [ram, ''lower'']),
      co_shared = (\<not> lanes),
      co_disk = (if lanes then path_join [path_dir (trim_right_of ''/'' root), ''.testkit-slow-lane''] else []),
      co_slots = [], co_pending = [], co_freed = 0, co_held = [], co_peak = 0, co_mb = mb\<rparr>"

text \<open>The commands that mount it, in order; each is run only if those before it succeeded.\<close>

definition mount_scripts :: "corpus \<Rightarrow> string list" where
  "mount_scripts c =
     [''mount -t tmpfs -o size='' @ itoa (co_mb c) @ ''m corpus '' @ co_ram c] @
     (if co_shared c
      then [''mkdir -p '' @ co_ram c @ ''/up '' @ co_ram c @ ''/work '' @ co_pristine c @ '' && mount --bind '' @ co_root c @ '' '' @
              co_pristine c @ '' && mount -o remount,bind,ro '' @ co_pristine c,
            ''mount -t overlay overlay -o lowerdir='' @ co_pristine c @ '',upperdir='' @ co_ram c @ ''/up,workdir='' @ co_ram c @
              ''/work '' @ co_root c]
      else [])"

definition corpus_Slot :: "string \<Rightarrow> bool \<Rightarrow> corpus \<Rightarrow> (string + string) \<times> corpus" where
  "corpus_Slot slot onRAM c =
     (if co_shared c then (Inl ''this corpus is mounted once for every slot; it has no per-slot upper'', c)
      else (let root = path_join [if onRAM then co_ram c else co_disk c, slot]
            in (Inr root, c\<lparr>co_slots := AList.update slot \<lparr>st_upperRoot = root, st_onRAM = onRAM\<rparr> (co_slots c)\<rparr>)))"

definition plan_case :: "string \<Rightarrow> corpus \<Rightarrow> corpus" where
  "plan_case p c =
     (case Split_case p of None \<Rightarrow> c
      | Some s \<Rightarrow> c\<lparr>co_pending := AList.update (sc_Dir s)
            ((case map_of (co_pending c) (sc_Dir s) of None \<Rightarrow> 0 | Some n \<Rightarrow> n) + 1) (co_pending c)\<rparr>)"

definition corpus_Plan :: "string list \<Rightarrow> corpus \<Rightarrow> corpus" where
  "corpus_Plan cases c = fold plan_case cases c"

definition held_at_least :: "string \<Rightarrow> int \<Rightarrow> corpus \<Rightarrow> corpus" where
  "held_at_least dir mb c =
     (if (case map_of (co_held c) dir of None \<Rightarrow> 0 | Some n \<Rightarrow> n) < mb
      then c\<lparr>co_held := AList.update dir mb (co_held c)\<rparr> else c)"

definition peak_at :: "int \<Rightarrow> corpus \<Rightarrow> corpus" where
  "peak_at used c = (if co_peak c < used then c\<lparr>co_peak := used\<rparr> else c)"

definition gave_back :: "int \<Rightarrow> int \<Rightarrow> corpus \<Rightarrow> corpus" where
  "gave_back before after c = (if 0 < before - after then c\<lparr>co_freed := co_freed c + (before - after)\<rparr> else c)"

definition Retire :: "'m corpus_env \<Rightarrow> string \<Rightarrow> string \<Rightarrow> corpus option \<Rightarrow> 'm \<Rightarrow> bool \<times> corpus option \<times> 'm" where
  "Retire ce slot dir c0 m =
     (case c0 of None \<Rightarrow> (False, None, m)
      | Some c \<Rightarrow>
        (case map_of (co_pending c) dir of
           None \<Rightarrow> (False, Some c, m)
         | Some n \<Rightarrow>
            if 1 < n then (False, Some (c\<lparr>co_pending := AList.update dir (n - 1) (co_pending c)\<rparr>), m)
            else (let c1 = c\<lparr>co_pending := AList.delete dir (co_pending c)\<rparr> in
              if \<not> co_shared c1 then
                (case map_of (co_slots c1) slot of
                   None \<Rightarrow> (False, Some c1, m)
                 | Some st \<Rightarrow>
                    (let before = ce_used ce m; c2 = peak_at before c1; own = ce_own ce (st_upperRoot st) dir m;
                         m' = ce_dropInSlot ce (st_upperRoot st) dir m
                     in (True, Some (if st_onRAM st then held_at_least dir own (gave_back before (ce_used ce m') c2) else c2), m')))
              else
                (let before = ce_used ce m; c2 = peak_at before c1; own = ce_added ce dir m; m' = ce_drop ce dir m
                 in (True, Some (held_at_least dir own (gave_back before (ce_used ce m') c2)), m')))))"

text \<open>One sample of the watcher: the peak, and what the directories still in use hold.\<close>

definition liveMB :: "'m corpus_env \<Rightarrow> string \<Rightarrow> 'm \<Rightarrow> corpus \<Rightarrow> int" where
  "liveMB ce dir m c =
     (if co_shared c then ce_added ce dir m
      else fold (\<lambda>st best. let mb = ce_own ce (st_upperRoot st) dir m in if best < mb then mb else best)
        (filter st_onRAM (map snd (co_slots c))) 0)"

definition sample :: "'m corpus_env \<Rightarrow> 'm \<Rightarrow> corpus \<Rightarrow> corpus" where
  "sample ce m c =
     (let c1 = peak_at (ce_used ce m) c
      in fold (\<lambda>dir c. let mb = liveMB ce dir m c1 in if 0 < mb then held_at_least dir mb c else c) (map fst (co_pending c1)) c1)"

definition corpus_Usage :: "'m corpus_env \<Rightarrow> 'm \<Rightarrow> corpus option \<Rightarrow> int \<times> int" where
  "corpus_Usage ce m c = (case c of None \<Rightarrow> (0, 0) | Some c \<Rightarrow> if co_mb c \<le> 0 then (0, 0) else (ce_used ce m, co_mb c))"

text \<open>What is said at the end, and the commands that take the mounts down.\<close>

definition close_line :: "int \<Rightarrow> corpus \<Rightarrow> string" where
  "close_line used c0 =
     (let c = peak_at used c0 in
      if co_mb c * 90 \<le> co_peak c * 100
      then ''[ERROR] the corpus used '' @ itoa (co_peak c) @ '' MB of its '' @ itoa (co_mb c) @ '' MB ceiling. '' @
           ''Cases that ran out of space fail without saying so; raise scenario_ram_mb '' @
           ''or lower log_volume_size, and treat this run'' @ [SQUOTE] @ ''s verdicts as unusable.'' @ [LF]
      else ''[INFO] the corpus held at most '' @ itoa (co_peak c) @ '' MB of the '' @ itoa (co_mb c) @ '' MB it was allowed, '' @
           ''and '' @ itoa (co_freed c) @ '' MB were reclaimed as directories finished'' @ [LF])"

definition close_scripts :: "corpus \<Rightarrow> string list" where
  "close_scripts c =
     (if co_shared c then [''umount '' @ co_root c, ''umount '' @ co_pristine c] else []) @ [''umount '' @ co_ram c]"

end
