(* ===== verification/Shell_Worker.thy ===== *)
theory Shell_Worker
  imports Case_Logs Coredump Result_Sink Dispatch_Queue Shell_Corpus
begin

text \<open>
  A worker of the shell task: \<open>worker.go\<close> in \<open>internal/runner/shellsuite\<close>. The worker's state holds the
  machine it drives, the queue, the corpus and the files of the run, so that a ticket is worked on as one
  function (\<open>Shell_Crew\<close> has the workers of a run, which share them); what the commands do to the machine, whether the case's context ended during a pause
  and whether the monitor called the case late are parameters of the environment; durations are nanoseconds. What goes to the page and to the feedback is a list of events.
\<close>

record 'm worker_env =
  we_EnvID :: string
  we_SlotID :: string
  we_ch :: "'m sh_channel"
  we_describe :: string
  we_options :: case_options
  we_MaxRetry :: int
  we_here :: bool
  we_boxed :: bool
  we_checkDisk :: bool
  we_reserve :: string
  we_cubrid :: string
  we_dir :: string
  we_pause :: "'m \<Rightarrow> bool \<times> 'm"
  we_now :: "'m \<Rightarrow> string"
  we_took :: "'m \<Rightarrow> 'm \<Rightarrow> int"
  we_late :: "'m \<Rightarrow> 'm \<Rightarrow> bool"
  we_corpus :: "'m corpus_env"

datatype page_note = Begin string | Live string string | End string bool | PatchedWith string string
  | RefusedPatch string string

record stop_event =
  ev_Case :: string
  ev_EnvID :: string
  ev_Success :: bool
  ev_Elapsed :: int
  ev_ResultText :: string
  ev_LastPass :: string
  ev_TimedOut :: bool
  ev_HasCore :: bool
  ev_RetryCount :: int

datatype report_note = CaseStart string string | CaseStopRetry stop_event | CaseStop stop_event

record ('m, 'e) worker =
  wk_m :: 'm
  wk_buf :: "string list"
  wk_buffering :: bool
  wk_timeout :: bool
  wk_seen :: "string list"
  wk_sink :: sink
  wk_queue :: "'e queue"
  wk_corpus :: "corpus option"
  wk_patches :: "patch_set option"
  wk_logs :: "case_logs option"
  wk_page :: "page_note list"
  wk_report :: "report_note list"
  wk_plan :: "(string \<times> int) list"
  wk_meter :: "(string \<times> string \<times> int \<times> bool) list"

definition wlog :: "'m worker_env \<Rightarrow> string \<Rightarrow> ('m, 'e) worker \<Rightarrow> ('m, 'e) worker" where
  "wlog we l w =
     (if wk_buffering w then w\<lparr>wk_buf := wk_buf w @ [l]\<rparr>
      else w\<lparr>wk_sink := Worker (we_EnvID we) l (wk_sink w)\<rparr>)"

definition whold :: "('m, 'e) worker \<Rightarrow> ('m, 'e) worker" where
  "whold w = w\<lparr>wk_buffering := True, wk_buf := []\<rparr>"

definition wflush :: "'m worker_env \<Rightarrow> ('m, 'e) worker \<Rightarrow> ('m, 'e) worker" where
  "wflush we w =
     (let w1 = w\<lparr>wk_buf := [], wk_buffering := False\<rparr> in
      if wk_buf w = [] then w1
      else w1\<lparr>wk_sink := WorkerLines (we_EnvID we) (wk_buf w) (wk_sink w)\<rparr>)"

definition on_page :: "page_note \<Rightarrow> ('m, 'e) worker \<Rightarrow> ('m, 'e) worker" where
  "on_page n w = w\<lparr>wk_page := wk_page w @ [n]\<rparr>"

definition to_feedback :: "report_note \<Rightarrow> ('m, 'e) worker \<Rightarrow> ('m, 'e) worker" where
  "to_feedback n w = w\<lparr>wk_report := wk_report w @ [n]\<rparr>"

definition envIdentify :: "'m worker_env \<Rightarrow> string" where
  "envIdentify we = ''EnvId='' @ we_EnvID we @ ''['' @ we_describe we @ '']''"

text \<open>A script sent to the machine, with its exit status an answer or a failure.\<close>

definition probe :: "'m worker_env \<Rightarrow> string \<Rightarrow> ('m, 'e) worker \<Rightarrow> sh_answer \<times> ('m, 'e) worker" where
  "probe we script w = (case probeIn (we_ch we) script (wk_m w) of (r, m) \<Rightarrow> (r, w\<lparr>wk_m := m\<rparr>))"

definition run_checked :: "'m worker_env \<Rightarrow> string \<Rightarrow> ('m, 'e) worker \<Rightarrow> sh_answer \<times> ('m, 'e) worker" where
  "run_checked we script w = (case runIn (we_ch we) script (wk_m w) of (r, m) \<Rightarrow> (r, w\<lparr>wk_m := m\<rparr>))"

definition quietly :: "'m worker_env \<Rightarrow> string \<Rightarrow> string \<Rightarrow> string \<Rightarrow> ('m, 'e) worker \<Rightarrow> ('m, 'e) worker" where
  "quietly we script label onError w =
     (case probe we script w of
        (Inl e, w1) \<Rightarrow> wlog we (''[ERROR] '' @ onError @ '' ('' @ error_text e @ '')'') w1
      | (Inr r, w1) \<Rightarrow>
          if sh_exit r \<noteq> 0 then
            (let why0 = trim_space (sh_err r); why = (if why0 = [] then trim_space (sh_out r) else why0) in
             wlog we (''[ERROR] '' @ onError @ '' (exit '' @ itoa (sh_exit r) @ ''): '' @ why) w1)
          else wlog we (''[INFO] '' @ label @ '' '' @ sh_out r) w1)"

definition disk_script :: "string \<Rightarrow> string" where
  "disk_script reserve = script_lines
     [''source ${init_path}/../../common/script/util_common.sh'',
      ''check_disk_space '' @ [tick_char] @ ''df -P $HOME | grep -v Filesystem | awk '' @ [SQUOTE] @ ''{print $1}'' @ [SQUOTE, tick_char] @
        '' '' @ reserve @ '' '' @ [quot, quot] @ '' '' @ [quot, quot]]"

definition diskSpace :: "'m worker_env \<Rightarrow> ('m, 'e) worker \<Rightarrow> ('m, 'e) worker" where
  "diskSpace we w =
     (case run_checked we (disk_script (we_reserve we)) w of
        (Inl e, w1) \<Rightarrow> wlog we (error_text e) (wlog we (''[FAIL] Check disk space FAIL on '' @ we_describe we) w1)
      | (Inr r, w1) \<Rightarrow> wlog we (''[INFO] Check disk space PASS on '' @ we_describe we @ ''(elapse: '' @
          itoa (we_took we (wk_m w) (wk_m w1) div 1000000000) @ '' seconds)'') w1)"

subsection \<open>Reading the verdict\<close>

text \<open>The result file, read again after a pause while it is empty; at most \<open>k\<close> readings more.\<close>

fun read_result :: "'m worker_env \<Rightarrow> shell_case \<Rightarrow> nat \<Rightarrow> ('m, 'e) worker \<Rightarrow> (cmd_error + string) \<times> ('m, 'e) worker" where
  "read_result we c k w =
     (case probe we (CollectScript c) w of
        (Inl e, w1) \<Rightarrow> (Inl e, w1)
      | (Inr r, w1) \<Rightarrow>
          if trim_space (sh_out r) \<noteq> [] then (Inr (sh_out r), w1)
          else (case k of 0 \<Rightarrow> (Inr (sh_out r), w1)
            | Suc k' \<Rightarrow>
                (case we_pause we (wk_m w1) of
                   (True, m) \<Rightarrow> (Inl (CouldNotRun ''context canceled''), w1\<lparr>wk_m := m\<rparr>)
                 | (False, m) \<Rightarrow> read_result we c k' (w1\<lparr>wk_m := m\<rparr>))))"

declare read_result.simps [simp del]

definition collect_result :: "'m worker_env \<Rightarrow> shell_case \<Rightarrow> ('m, 'e) worker \<Rightarrow> (cmd_error + string list) \<times> ('m, 'e) worker" where
  "collect_result we c w =
     (case read_result we c (collectAttempts - 1) w of
        (Inl e, w1) \<Rightarrow> (Inl e, w1)
      | (Inr t, w1) \<Rightarrow>
          (Inr (if trim_space t = [] then blankResultItems c (we_now we (wk_m w1))
                else filter (\<lambda>l. trim_space l \<noteq> []) (split_on LF t)), w1))"

subsection \<open>One attempt\<close>

definition nok :: "string \<Rightarrow> string" where "nok = resultItem ''NOK''"

text \<open>The case itself, once the machine is ready: its items and its console.\<close>

definition run_script :: "'m worker_env \<Rightarrow> shell_case \<Rightarrow> ('m, 'e) worker \<Rightarrow> (string list \<times> string) \<times> ('m, 'e) worker" where
  "run_script we c w =
     (case probe we (RunScript c (we_options we)) w of
        (Inl e, w1) \<Rightarrow> (([nok (''Runtime error ('' @ error_text e @ '')'')], []), w1)
      | (Inr r, w1) \<Rightarrow>
          (let console = sh_out r; w2 = wlog we console w1 in
           case run_checked we (FinalCheckScript c (we_options we)) w2 of
             (chk, w3) \<Rightarrow>
               (let items = (case chk of Inr _ \<Rightarrow> [] | Inl e \<Rightarrow>
                      [nok (''Runtime error. Fail to check more errors on '' @ we_describe we @ '': '' @ error_text e)])
                in case collect_result we c w3 of
                     (Inl e, w4) \<Rightarrow> ((items @ [nok (''Runtime error ('' @ error_text e @ '')'')], console), w4)
                   | (Inr ls, w4) \<Rightarrow> ((items @ ls, console), w4))))"

definition revert :: "'m worker_env \<Rightarrow> shell_case \<Rightarrow> string \<Rightarrow> ('m, 'e) worker \<Rightarrow> ('m, 'e) worker" where
  "revert we c pf w =
     (case probe we (RevertScript (sc_Dir c) pf) w of (rr, w1) \<Rightarrow>
        (let why = (case rr of Inl e \<Rightarrow> error_text e | Inr r \<Rightarrow> if sh_exit r \<noteq> 0 then trim_space (sh_out r) else [])
         in if why = [] then w1
            else wlog we (''[ERROR] the compatibility patch '' @ pf @ '' could not be reverted, so '' @ sc_Dir c @
              '' is left patched: '' @ why) w1))"

definition no_patch_reason :: "string \<Rightarrow> sh_answer \<Rightarrow> string option" where
  "no_patch_reason pf rr =
     (case rr of
        Inl e \<Rightarrow> Some (''the compatibility patch '' @ pf @ '' could not be run: '' @ error_text e)
      | Inr r \<Rightarrow>
          if sh_exit r = 127 then Some (''the compatibility patch '' @ pf @ '' could not be applied: '' @
            ''patch(1) is not on this machine'' @ [SQUOTE] @ ''s PATH'')
          else if sh_exit r \<noteq> 0 then Some (''the compatibility patch '' @ pf @ '' does not apply to this case any more, '' @
            ''which usually means the case changed upstream: '' @ trim_space (sh_out r))
          else None)"

definition made_ready :: "'m worker_env \<Rightarrow> ('m, 'e) worker \<Rightarrow> ('m, 'e) worker" where
  "made_ready we w =
     (let w1 = quietly we (KillScript (we_here we) (we_boxed we)) ''CLEAN PROCESSES:'' ''Fail to reset processes'' w;
          w2 = quietly we RestoreScript ''Reset CUBRID:'' ''Fail to reset CUBRID'' w1
      in if we_checkDisk we then diskSpace we w2 else w2)"

definition patched_as :: "shell_case \<Rightarrow> string \<Rightarrow> 'm worker_env \<Rightarrow> ('m, 'e) worker \<Rightarrow> ('m, 'e) worker" where
  "patched_as c pf we w =
     (let w1 = on_page (PatchedWith (sc_Path c) pf) (wlog we (''[PATCH] applied '' @ pf) w)
      in w1\<lparr>wk_patches := patch_Applied (sc_Path c) pf (wk_patches w1)\<rparr>)"

definition runOne :: "'m worker_env \<Rightarrow> shell_case \<Rightarrow> ('m, 'e) worker \<Rightarrow> (string list \<times> string) \<times> ('m, 'e) worker" where
  "runOne we c w =
     (let w3 = made_ready we w; pf = patch_For (wk_patches w3) (sc_Path c) in
      if pf = [] then run_script we c w3
      else (case probe we (ApplyScript (sc_Dir c) pf) w3 of (rr, w4) \<Rightarrow>
        (case no_patch_reason pf rr of
           Some why \<Rightarrow> (([nok why], []), on_page (RefusedPatch (sc_Path c) pf) w4)
         | None \<Rightarrow> (case run_script we c (patched_as c pf we w4) of (res, w7) \<Rightarrow> (res, revert we c pf w7)))))"

subsection \<open>A ticket\<close>

definition retire_case :: "'m worker_env \<Rightarrow> string \<Rightarrow> ('m, 'e) worker \<Rightarrow> ('m, 'e) worker" where
  "retire_case we p w =
     (case Split_case p of None \<Rightarrow> w
      | Some c \<Rightarrow>
          (case Retire (we_corpus we) (we_SlotID we) (sc_Dir c) (wk_corpus w) (wk_m w) of (reclaimed, k, m) \<Rightarrow>
             (let w1 = w\<lparr>wk_corpus := k, wk_m := m\<rparr> in
              if \<not> reclaimed then w1
              else (case run_checked we (PruneRegistryScript (sc_Dir c)) w1 of
                  (Inr _, u) \<Rightarrow> u
                | (Inl e, u) \<Rightarrow> wlog we (''[ERROR] cannot prune the database registry for '' @ sc_Dir c @ '': '' @ error_text e) u))))"

text \<open>
  The end of a ticket in its three parts, which other workers' steps may come between: the queue is told, and a
  ticket it takes back is over; the case's directory is retired; the case is recorded.
\<close>

definition complete_ticket ::
  "'m worker_env \<Rightarrow> ticket \<Rightarrow> case_verdict \<Rightarrow> string \<Rightarrow> int \<Rightarrow> ('m, 'e) worker \<Rightarrow> stop_event option \<times> ('m, 'e) worker" where
  "complete_ticket we t v console elapsed w1 =
     (case Complete t (vd_Success v) (vd_HasCore v) (wk_queue w1) of (q, retrying) \<Rightarrow>
       (let w2 = w1\<lparr>wk_queue := q,
              wk_meter := wk_meter w1 @ [(t_case t, t_case t, elapsed, vd_Success v \<and> t_retry t = 0)]\<rparr>;
            ev = \<lparr>ev_Case = t_case t, ev_EnvID = envIdentify we, ev_Success = vd_Success v, ev_Elapsed = elapsed,
                  ev_ResultText = shell_resultText v console, ev_LastPass = [], ev_TimedOut = wk_timeout w2,
                  ev_HasCore = vd_HasCore v, ev_RetryCount = t_retry t\<rparr>
        in if retrying then (None, wflush we (wlog we [] (to_feedback (CaseStopRetry ev) w2)))
           else (Some ev, w2)))"

definition retire_ticket :: "'m worker_env \<Rightarrow> ticket \<Rightarrow> ('m, 'e) worker \<Rightarrow> ('m, 'e) worker" where
  "retire_ticket we t w = retire_case we (t_case t) (on_page (Live (t_case t) []) w)"

definition record_ticket :: "'m worker_env \<Rightarrow> ticket \<Rightarrow> stop_event \<Rightarrow> ('m, 'e) worker \<Rightarrow> ('m, 'e) worker" where
  "record_ticket we t ev w4 =
     (let w5 = w4\<lparr>wk_plan := wk_plan w4 @ [(t_case t, ev_Elapsed ev)]\<rparr>;
          w6 = to_feedback (CaseStop (ev\<lparr>ev_LastPass := ev_ResultText ev\<rparr>)) (on_page (End (t_case t) (ev_Success ev)) w5);
          w7 = w6\<lparr>wk_sink := Finish_case (we_EnvID we) (t_case t)
                 (TestCase (t_case t) (we_EnvID we) (ev_Success ev) (we_MaxRetry we) (t_retry t) (wk_sink w6))\<rparr>
      in wflush we (wlog we [] w7))"

definition finish_ticket :: "'m worker_env \<Rightarrow> ticket \<Rightarrow> case_verdict \<Rightarrow> string \<Rightarrow> int \<Rightarrow> ('m, 'e) worker \<Rightarrow> ('m, 'e) worker" where
  "finish_ticket we t v console elapsed w =
     (case complete_ticket we t v console elapsed (fold (wlog we) (vd_Items v) w) of
        (None, w2) \<Rightarrow> w2
      | (Some ev, w2) \<Rightarrow> record_ticket we t ev (retire_ticket we t w2))"

text \<open>A crash report fails the case, and its copy is kept beside the results.\<close>

definition count_crash :: "'m worker_env \<Rightarrow> string \<Rightarrow> crash \<Rightarrow> case_verdict \<times> ('m, 'e) worker \<Rightarrow> case_verdict \<times> ('m, 'e) worker" where
  "count_crash we case' cr s =
     (case s of (v, w) \<Rightarrow>
        (case Keep_report (we_ch we) cr (path_join [we_dir we, ''crash'']) case' (wk_m w) of
           (r, m) \<Rightarrow>
             (v\<lparr>vd_Success := False, vd_HasCore := True, vd_Items := vd_Items v @ [nok (''found crash report '' @ crash_String cr)]\<rparr>,
              (let w1 = w\<lparr>wk_m := m\<rparr> in
               case r of Inr _ \<Rightarrow> w1
               | Inl (ReadingFailed p e) \<Rightarrow> wlog we (''[ERROR] reading '' @ p @ '': '' @ error_text e) w1
               | Inl (ReadingEmpty p) \<Rightarrow> wlog we (''[ERROR] reading '' @ p @ '': it is empty'') w1))))"

definition late_verdict :: "bool \<Rightarrow> case_verdict \<Rightarrow> case_verdict" where
  "late_verdict late v =
     (if late then v\<lparr>vd_Success := False, vd_Items := vd_Items v @ [nok ''timeout'']\<rparr> else v)"

text \<open>The attempt and everything that decides its verdict.\<close>

definition judged :: "'m worker_env \<Rightarrow> string \<Rightarrow> shell_case \<Rightarrow> ('m, 'e) worker \<Rightarrow> (case_verdict \<times> string \<times> int) \<times> ('m, 'e) worker" where
  "judged we case' c w =
     (let m0 = wk_m w; w1 = w\<lparr>wk_timeout := False\<rparr> in
      case runOne we c w1 of ((items, console), w2) \<Rightarrow>
        (let elapsed = we_took we m0 (wk_m w2); late = we_late we m0 (wk_m w2);
             w3 = w2\<lparr>wk_timeout := late\<rparr>; v = late_verdict late (verdictOf items)
         in case Crashes (we_ch we) (we_cubrid we) (wk_seen w3) (wk_m w3) of (crs, seen, m) \<Rightarrow>
              (case fold (count_crash we case') crs (v, w3\<lparr>wk_seen := seen, wk_m := m\<rparr>) of (v', w4) \<Rightarrow>
                 ((v', console, elapsed), w4))))"

definition ticket_opened :: "'m worker_env \<Rightarrow> string \<Rightarrow> shell_case \<Rightarrow> ('m, 'e) worker \<Rightarrow> ('m, 'e) worker" where
  "ticket_opened we p c w =
     (let w1 = on_page (Begin p) (to_feedback (CaseStart p (envIdentify we)) w);
          w2 = on_page (Live p (path_join [sc_Dir c, sc_Result c])) w1
      in wlog we (''[TESTCASE] '' @ p) (whold w2))"

text \<open>A ticket's attempt and verdict, up to the end of the ticket.\<close>

definition attempt_ticket ::
  "'m worker_env \<Rightarrow> ticket \<Rightarrow> ('m, 'e) worker \<Rightarrow> (case_verdict \<times> string \<times> int) \<times> ('m, 'e) worker" where
  "attempt_ticket we t w =
     (case Split_case (t_case t) of
        None \<Rightarrow> ((\<lparr>vd_Items = [nok (''no cases/ segment in '' @ go_quote (t_case t))], vd_Success = False,
                  vd_HasCore = False\<rparr>, [], 0), w)
      | Some c \<Rightarrow>
          (case judged we (t_case t) c (ticket_opened we (t_case t) c w) of ((v, console, elapsed), w4) \<Rightarrow>
             (case Capture (we_ch we) (t_case t) (sc_Dir c) (t_retry t + 1) (vd_Success v) (wk_logs w4) (wk_m w4) of
                (note', l, m) \<Rightarrow>
                  (let w5 = w4\<lparr>wk_logs := l, wk_m := m\<rparr>
                   in ((v, console, elapsed), if note' = [] then w5 else wlog we note' w5)))))"

definition work_on :: "'m worker_env \<Rightarrow> ticket \<Rightarrow> ('m, 'e) worker \<Rightarrow> ('m, 'e) worker" where
  "work_on we t w =
     (case attempt_ticket we t w of ((v, console, elapsed), w') \<Rightarrow> finish_ticket we t v console elapsed w')"

end
