(* ===== verification/Journal.thy ===== *)
theory Journal
  imports Prelude
begin

text \<open>
  What a run that may be interrupted relies on: a journal to which each finished piece of work is
  added as it is finished, and which says afterwards exactly what was added. The list of finished
  cases in a result directory and the ledger of the replication suite provide it; what is left to do
  is what the journal does not hold.
\<close>

locale journal =
  fixes sound :: "'j \<Rightarrow> bool"
    and note_one :: "'e \<Rightarrow> 'j \<Rightarrow> 'j"
    and fits :: "'e \<Rightarrow> bool"
    and ends :: "'e \<Rightarrow> 'k set"
    and holds :: "'j \<Rightarrow> 'k set"
  assumes keeps: "sound j \<Longrightarrow> fits e \<Longrightarrow> sound (note_one e j)"
    and adds: "sound j \<Longrightarrow> fits e \<Longrightarrow> holds (note_one e j) = holds j \<union> ends e"
begin

lemma note_all:
  "sound j \<Longrightarrow> \<forall>e \<in> set es. fits e \<Longrightarrow>
     sound (fold note_one es j) \<and> holds (fold note_one es j) = holds j \<union> \<Union> (ends ` set es)"
proof (induction es arbitrary: j)
  case (Cons e es)
  then show ?case using keeps [of j e] adds [of j e] by (simp add: Un_assoc)
qed simp

text \<open>What is left of some work.\<close>

definition left_of :: "'k list \<Rightarrow> 'j \<Rightarrow> 'k list" where
  "left_of ks j = filter (\<lambda>k. k \<notin> holds j) ks"

lemma left_after:
  assumes "sound j" "\<forall>e \<in> set es. fits e"
  shows "left_of ks (fold note_one es j) = filter (\<lambda>k. k \<notin> \<Union> (ends ` set es)) (left_of ks j)"
  using note_all [OF assms] by (auto simp: left_of_def intro: filter_cong)

end

lemma mset_filter_away:
  assumes "mset ks = a + mset ds" "distinct ks"
  shows "mset (filter (\<lambda>k. k \<notin> set ds) ks) = a"
proof -
  have "count (filter_mset (\<lambda>k. k \<notin> set ds) (mset ks)) x = count a x" for x
  proof -
    have one: "count a x + count (mset ds) x \<le> 1"
      using assms by (metis count_union distinct_count_atmost_1 le_refl zero_le count_mset_0_iff linear)
    show ?thesis
    proof (cases "x \<in> set ds")
      case True
      then have "1 \<le> count (mset ds) x" by (simp add: Suc_le_eq)
      then have "count a x = 0" using one by linarith
      then show ?thesis using True by simp
    next
      case False
      then have "count (mset ds) x = 0" by simp
      then show ?thesis using assms(1) False by (simp add: count_filter_mset)
    qed
  qed
  then show ?thesis by (metis mset_filter multiset_eqI)
qed

text \<open>What the seats of a crew hold together, when one of them changes.\<close>

lemma sum_update: "i < length xs \<Longrightarrow> sum_list (xs[i := y]) + xs ! i = sum_list xs + (y :: 'k multiset)"
proof (induction xs arbitrary: i)
  case (Cons x xs)
  then show ?case by (cases i) (simp_all add: ac_simps)
qed simp

end
