(* ===== verification/Result_Sink_Claims.thy ===== *)
theory Result_Sink_Claims
  imports Result_Sink Journal Conf_Claims
begin

text \<open>
  An interrupted run and the run that continues it: the files of finished cases are a journal, and
  what is left is exactly what has no verdict.
\<close>

subsection \<open>Reading back lines\<close>

definition whole_lines :: "string \<Rightarrow> bool" where
  "whole_lines t \<longleftrightarrow> t = [] \<or> last t = LF"

definition plain_case :: "string \<Rightarrow> bool" where
  "plain_case c \<longleftrightarrow> c \<noteq> [] \<and> trimmed c \<and> LF \<notin> set c"

lemma trim_Nil: "trim_space [] = []"
  by (rule trim_space_trimmed) (simp add: graphic_trimmed)

lemma split_end: "split_on c (a @ [c]) = split_on c a @ [[]]"
  using split_on_cut [of c a "[]"] by simp

lemma readLines_snoc:
  assumes "whole_lines t" "plain_case c"
  shows "readLines (Some (t @ c @ [LF])) = readLines (Some t) @ [c]"
proof -
  have c: "split_on LF (c @ [LF]) = [c, []]" "trim_space c = c" "c \<noteq> []"
    using assms(2) by (simp_all add: plain_case_def split_on_append trim_space_trimmed)
  show ?thesis
  proof (cases "t = []")
    case True
    then show ?thesis using c by (simp add: readLines_def trim_Nil)
  next
    case False
    then obtain a where t: "t = a @ [LF]" using assms(1) by (metis whole_lines_def append_butlast_last_id)
    have "split_on LF (t @ c @ [LF]) = split_on LF a @ [c, []]"
      using split_on_cut [of LF a "c @ [LF]"] c(1) by (simp add: t)
    then show ?thesis using c by (simp add: readLines_def t split_end trim_Nil)
  qed
qed

lemma readLines_lines:
  "\<forall>c \<in> set cs. plain_case c \<Longrightarrow> readLines (Some (in_lines cs)) = cs \<and> whole_lines (in_lines cs)"
proof (induction cs rule: rev_induct)
  case Nil
  show ?case by (simp add: readLines_def in_lines_def whole_lines_def trim_Nil)
next
  case (snoc c cs)
  have "in_lines (cs @ [c]) = in_lines cs @ c @ [LF]" by (simp add: in_lines_def)
  then show ?case using snoc readLines_snoc [of "in_lines cs" c] by (simp add: whole_lines_def)
qed

subsection \<open>The finished cases as a journal\<close>

definition fins :: "sink \<Rightarrow> string \<Rightarrow> string option" where
  "fins s n = (if fin_name n then map_of (sk_files s) n else None)"

definition finished_set :: "sink \<Rightarrow> string set" where
  "finished_set s = (\<Union>n. set (readLines (fins s n)))"

lemma finished_set_in: "distinct (map fst (sk_files s)) \<Longrightarrow> finished_set s = set (finished_in s)"
proof -
  assume d: "distinct (map fst (sk_files s))"
  have "c \<in> set (readLines (fins s n)) \<longleftrightarrow> fin_name n \<and> (\<exists>t. (n, t) \<in> set (sk_files s) \<and> c \<in> set (readLines (Some t)))" for c n
    unfolding fins_def map_of_eq_Some_iff [OF d, symmetric]
    by (cases "map_of (sk_files s) n") (simp_all add: readLines_def del: map_of_eq_Some_iff)
  then have "finished_set s = {c. \<exists>n t. (n, t) \<in> set (sk_files s) \<and> fin_name n \<and> c \<in> set (readLines (Some t))}"
    unfolding finished_set_def by blast
  also have "\<dots> = set (finished_in s)" by (force simp: finished_in_def split: if_splits)
  finally show ?thesis .
qed

definition sink_sound :: "sink \<Rightarrow> bool" where
  "sink_sound s \<longleftrightarrow> distinct (map fst (sk_files s)) \<and>
     (\<forall>n t. fins s n = Some t \<longrightarrow> whole_lines t \<and> (sk_append s \<or> n \<in> set (sk_open s)))"

lemma fin_names [simp]:
  "fin_name (fin_file env)" "\<not> fin_name (worker_file env)" "\<not> fin_name (monitor_file env)"
  "\<not> fin_name (check_file env)" "\<not> fin_name all_file" "\<not> fin_name snapshot_file"
  by (simp_all add: fin_name_def fin_file_def worker_file_def monitor_file_def check_file_def all_file_def
      snapshot_file_def suffix_def)

lemma fins_simps [simp]:
  "fins (s\<lparr>sk_files := AList.update n t (sk_files s)\<rparr>) = (if fin_name n then (fins s)(n \<mapsto> t) else fins s)"
  "fins (s\<lparr>sk_open := ns, sk_files := AList.update n t (sk_files s)\<rparr>) = (if fin_name n then (fins s)(n \<mapsto> t) else fins s)"
  "fins (s\<lparr>sk_stdout := x\<rparr>) = fins s" "fins (s\<lparr>sk_open := ns\<rparr>) = fins s"
  by (auto simp: fins_def update_conv' fun_eq_iff)

text \<open>Writing any other file leaves the finished cases alone.\<close>

definition same_fins :: "sink \<Rightarrow> sink \<Rightarrow> bool" where
  "same_fins s s' \<longleftrightarrow> sink_sound s' \<and> fins s' = fins s \<and> sk_append s' = sk_append s"

lemma other_writes:
  assumes "sink_sound s" "\<not> fin_name n"
  shows "same_fins s (append_text n t s)" "same_fins s (overwrite n t s)" "same_fins s (sink_file n a s)"
  using assms
  by (auto simp: same_fins_def sink_sound_def append_text_def overwrite_def sink_file_def printed_def distinct_update)

lemma printed_same: "sink_sound s \<Longrightarrow> same_fins s (printed t s)"
  by (simp add: same_fins_def sink_sound_def printed_def)

lemma same_fins_then: "same_fins s u \<Longrightarrow> (sink_sound u \<Longrightarrow> same_fins u v) \<Longrightarrow> same_fins s v"
  by (simp add: same_fins_def)

text \<open>One operation of a run.\<close>

datatype sink_op = DoEnvStart string | DoEnvStop string | DoCase string string bool int int | DoCore string
  | DoWorker string "string list" | DoCheck string string | DoMonitor string string
  | DoSnapshot config "(string \<times> string) list" | DoFinish string string

fun do_op :: "sink_op \<Rightarrow> sink \<Rightarrow> sink" where
  "do_op (DoEnvStart e) = EnvStart e"
| "do_op (DoEnvStop e) = EnvStop e"
| "do_op (DoCase n e ok m r) = TestCase n e ok m r"
| "do_op (DoCore p) = Core p"
| "do_op (DoWorker e ls) = WorkerLines e ls"
| "do_op (DoCheck e t) = Check_log e t"
| "do_op (DoMonitor e l) = Monitor e l"
| "do_op (DoSnapshot c r) = Snapshot c r"
| "do_op (DoFinish e n) = Finish_case e n"

definition op_finishes :: "sink_op \<Rightarrow> string set" where
  "op_finishes x = (case x of DoFinish e n \<Rightarrow> {n} | _ \<Rightarrow> {})"

definition op_plain :: "sink_op \<Rightarrow> bool" where
  "op_plain x \<longleftrightarrow> (\<forall>n \<in> op_finishes x. plain_case n)"

lemma opened_writes:
  assumes "sink_sound s" "\<not> fin_name n"
  shows "same_fins s (append_text n t (sink_file n a s))"
  using other_writes(3) [OF assms] by (rule same_fins_then) (rule other_writes(1) [OF _ assms(2)])

lemma other_ops:
  assumes "sink_sound s" "op_finishes x = {}"
  shows "same_fins s (do_op x s)"
proof (cases x)
  case (DoMonitor e l)
  then show ?thesis
    using opened_writes [OF assms(1), of "monitor_file e"] other_writes(3) [OF assms(1), of "monitor_file e"]
    by (simp add: Monitor_def Let_def)
next
  case (DoFinish e n)
  then show ?thesis using assms(2) by (simp add: op_finishes_def)
qed (simp_all add: EnvStart_def EnvStop_def TestCase_def Core_def WorkerLines_def Check_log_def Snapshot_def
    other_writes(2) [OF assms(1)] printed_same [OF assms(1)] opened_writes [OF assms(1)])

lemma readLines_Nil [simp]: "readLines None = []" "readLines (Some []) = []"
  by (simp_all add: readLines_def trim_Nil)

lemma ended_Nil [simp]: "whole_lines []"
  by (simp add: whole_lines_def)

lemma fins_content: "fins s (fin_file e) = map_of (sk_files s) (fin_file e)"
  by (simp add: fins_def)

lemma Union_at: "x \<in> (\<Union>n. F n) \<longleftrightarrow> x \<in> F k \<or> (\<exists>m. m \<noteq> k \<and> x \<in> F m)"
  by auto

lemma finish_adds:
  assumes "sink_sound s" "plain_case c"
  shows "sink_sound (Finish_case env c s) \<and> finished_set (Finish_case env c s) = insert c (finished_set s) \<and>
    sk_append (Finish_case env c s) = sk_append s"
proof -
  let ?n = "fin_file env"
  define old where "old = content s ?n"
  have old: "whole_lines old" "readLines (fins s ?n) = readLines (Some old)"
  proof -
    have "fins s ?n = Some t \<Longrightarrow> whole_lines t" for t using assms(1) unfolding sink_sound_def by blast
    then show "whole_lines old" "readLines (fins s ?n) = readLines (Some old)"
      by (simp_all add: old_def content_def fins_content split: option.split)
  qed
  define u where "u = sink_file ?n (sk_append s) s"
  have cu: "content u ?n = old"
  proof (cases "?n \<in> set (sk_open s) \<or> sk_append s")
    case True
    then show ?thesis by (auto simp: u_def sink_file_def content_def old_def update_conv')
  next
    case False
    then have "fins s ?n = None" using assms(1) unfolding sink_sound_def by (metis not_Some_eq)
    then have "old = []" by (simp add: old_def content_def fins_content)
    then show ?thesis using False by (simp add: u_def sink_file_def content_def update_conv')
  qed
  have u: "\<forall>m. m \<noteq> ?n \<longrightarrow> fins u m = fins s m" "distinct (map fst (sk_files u))" "sk_append u = sk_append s"
    "set (sk_open u) = insert ?n (set (sk_open s))"
    using assms(1) by (auto simp: u_def sink_file_def sink_sound_def distinct_update)
  let ?v = "append_text ?n (c @ [LF]) u"
  have f: "fins ?v = (fins u)(?n \<mapsto> old @ c @ [LF])" by (simp add: append_text_def cu)
  have new: "readLines (fins ?v ?n) = readLines (fins s ?n) @ [c]"
    using readLines_snoc [OF old(1) assms(2)] old(2) by (simp add: f)
  have rest: "m \<noteq> ?n \<Longrightarrow> fins ?v m = fins s m" for m using f u(1) by simp
  have "x \<in> finished_set ?v \<longleftrightarrow> x \<in> insert c (finished_set s)" for x
  proof -
    have "x \<in> finished_set ?v \<longleftrightarrow> x \<in> set (readLines (fins ?v ?n)) \<or> (\<exists>m. m \<noteq> ?n \<and> x \<in> set (readLines (fins ?v m)))"
      unfolding finished_set_def by (rule Union_at)
    also have "\<dots> \<longleftrightarrow> x = c \<or> x \<in> set (readLines (fins s ?n)) \<or> (\<exists>m. m \<noteq> ?n \<and> x \<in> set (readLines (fins s m)))"
      by (simp add: new rest cong: conj_cong)
    also have "\<dots> \<longleftrightarrow> x = c \<or> x \<in> finished_set s"
      using Union_at [of x "\<lambda>n. set (readLines (fins s n))" ?n] by (simp add: finished_set_def)
    finally show ?thesis by simp
  qed
  moreover have "sink_sound ?v"
    unfolding sink_sound_def
  proof (intro conjI allI impI)
    show "distinct (map fst (sk_files ?v))" using u(2) by (simp add: append_text_def distinct_update)
    fix m t assume m: "fins ?v m = Some t"
    show "whole_lines t"
    proof (cases "m = ?n")
      case True
      then show ?thesis using m f by (auto simp: whole_lines_def)
    next
      case False
      then have "fins s m = Some t" using m rest by simp
      then show ?thesis using assms(1) unfolding sink_sound_def by blast
    qed
    show "sk_append ?v \<or> m \<in> set (sk_open ?v)"
    proof (cases "m = ?n")
      case True
      then show ?thesis using u(4) by (simp add: append_text_def)
    next
      case False
      then have "fins s m = Some t" using m rest by simp
      then have "sk_append s \<or> m \<in> set (sk_open s)" using assms(1) unfolding sink_sound_def by blast
      then show ?thesis using u(3,4) by (auto simp: append_text_def)
    qed
  qed
  moreover have "sk_append ?v = sk_append s" using u(3) by (simp add: append_text_def)
  ultimately show ?thesis by (auto simp: Finish_case_def u_def)
qed

lemma op_effect:
  assumes "sink_sound s" "op_plain x"
  shows "sink_sound (do_op x s) \<and> finished_set (do_op x s) = finished_set s \<union> op_finishes x"
proof (cases "op_finishes x = {}")
  case True
  then show ?thesis using other_ops [OF assms(1) True] by (simp add: same_fins_def finished_set_def)
next
  case False
  then obtain e n where "x = DoFinish e n" by (cases x) (simp_all add: op_finishes_def)
  then show ?thesis using finish_adds [OF assms(1), of n e] assms(2) by (simp add: op_plain_def op_finishes_def)
qed

interpretation finished: journal sink_sound do_op op_plain op_finishes finished_set
  by unfold_locales (simp_all add: op_effect)

subsection \<open>The list of all cases\<close>

lemma all_file_apart [simp]:
  "all_file \<noteq> worker_file e" "all_file \<noteq> monitor_file e" "all_file \<noteq> check_file e"
  "all_file \<noteq> fin_file e" "all_file \<noteq> snapshot_file"
  by (simp_all add: fin_file_def worker_file_def monitor_file_def check_file_def all_file_def snapshot_file_def)

lemma all_file_kept: "map_of (sk_files (do_op x s)) all_file = map_of (sk_files s) all_file"
  by (cases x)
    (simp_all add: EnvStart_def EnvStop_def TestCase_def Core_def printed_def WorkerLines_def Check_log_def
      Monitor_def Snapshot_def Finish_case_def append_text_def overwrite_def sink_file_def update_conv' Let_def)

lemma all_file_kept_all: "map_of (sk_files (fold do_op xs s)) all_file = map_of (sk_files s) all_file"
  by (induction xs arbitrary: s) (simp_all add: all_file_kept)

text \<open>A run that starts afresh, and one that continues the run whose files it finds.\<close>

definition fresh_run :: "(string \<times> string) list \<Rightarrow> string list \<Rightarrow> sink_op list \<Rightarrow> sink" where
  "fresh_run files cs xs = fold do_op xs (All_cases cs (sink_Open files False))"

definition continued :: "sink_op list \<Rightarrow> sink \<Rightarrow> sink" where
  "continued xs s = fold do_op xs (sink_Open (sk_files s) True)"

definition no_journal :: "(string \<times> string) list \<Rightarrow> bool" where
  "no_journal files \<longleftrightarrow> distinct (map fst files) \<and> (\<forall>n \<in> set (map fst files). \<not> fin_name n)"

definition all_finishes :: "sink_op list \<Rightarrow> string set" where
  "all_finishes xs = \<Union> (op_finishes ` set xs)"

lemma all_finishes_simps [simp]:
  "all_finishes [] = {}" "all_finishes (x # xs) = op_finishes x \<union> all_finishes xs"
  "all_finishes (xs @ ys) = all_finishes xs \<union> all_finishes ys"
  by (auto simp: all_finishes_def)

lemma all_finishes_concat: "all_finishes (concat yss) = (\<Union>ys \<in> set yss. all_finishes ys)"
  by (induction yss) simp_all

lemma op_finishes_mem: "(c \<in> op_finishes x) = (\<exists>e. x = DoFinish e c)"
  by (cases x) (auto simp: op_finishes_def)

lemma all_finishes_mem: "(c \<in> all_finishes ys) = (\<exists>e. DoFinish e c \<in> set ys)"
  by (induction ys) (auto simp: op_finishes_mem)

lemma no_fins: "no_journal files \<Longrightarrow> fins (sink_Open files a) = (\<lambda>_. None)"
  by (fastforce simp: no_journal_def fins_def sink_Open_def fun_eq_iff map_of_eq_None_iff)

lemma fresh_start:
  assumes "no_journal files"
  shows "sink_sound (All_cases cs (sink_Open files False))"
    "finished_set (All_cases cs (sink_Open files False)) = {}"
proof -
  let ?s = "sink_Open files False"
  have s: "sink_sound ?s"
    using assms by (simp add: sink_sound_def no_fins) (simp add: no_journal_def sink_Open_def)
  have "same_fins ?s (All_cases cs ?s)" using other_writes(2) [OF s] by (simp add: All_cases_def)
  then show "sink_sound (All_cases cs ?s)" "finished_set (All_cases cs ?s) = {}"
    using assms by (simp_all add: same_fins_def finished_set_def no_fins)
qed

lemma fresh_run_sound:
  assumes "no_journal files" "\<forall>x \<in> set xs. op_plain x"
  shows "sink_sound (fresh_run files cs xs)" "finished_set (fresh_run files cs xs) = all_finishes xs"
  using finished.note_all [OF fresh_start(1) [OF assms(1)] assms(2)] fresh_start(2) [OF assms(1)]
  by (simp_all add: fresh_run_def all_finishes_def)

lemma continued_sound:
  assumes "sink_sound s" "\<forall>x \<in> set xs. op_plain x"
  shows "sink_sound (continued xs s)" "finished_set (continued xs s) = finished_set s \<union> all_finishes xs"
proof -
  let ?o = "sink_Open (sk_files s) True"
  have f: "fins ?o = fins s" by (simp add: fins_def sink_Open_def fun_eq_iff)
  have "sink_sound ?o" using assms(1) by (simp add: sink_sound_def f) (simp add: sink_Open_def)
  from finished.note_all [OF this assms(2)] show "sink_sound (continued xs s)"
    "finished_set (continued xs s) = finished_set s \<union> all_finishes xs"
    by (simp_all add: continued_def all_finishes_def finished_set_def f)
qed

lemma continued_all: "map_of (sk_files (continued xs s)) all_file = map_of (sk_files s) all_file"
  by (simp add: continued_def all_file_kept_all) (simp add: sink_Open_def)

lemma continued_runs:
  assumes "sink_sound s" "\<forall>xs \<in> set xss. \<forall>x \<in> set xs. op_plain x"
  shows "sink_sound (fold continued xss s) \<and>
    finished_set (fold continued xss s) = finished_set s \<union> all_finishes (concat xss) \<and>
    map_of (sk_files (fold continued xss s)) all_file = map_of (sk_files s) all_file"
  using assms
proof (induction xss arbitrary: s)
  case (Cons xs xss)
  then have "sink_sound (continued xs s)" "finished_set (continued xs s) = finished_set s \<union> all_finishes xs"
    using continued_sound by simp_all
  with Cons show ?case by (simp add: continued_all Un_assoc)
qed simp

lemma remaining_left:
  assumes "no_journal files" "\<forall>c \<in> set cs. plain_case c" "\<forall>xs \<in> set (xs # xss). \<forall>x \<in> set xs. op_plain x"
  shows "Remaining (fold continued xss (fresh_run files cs xs)) =
    filter (\<lambda>c. c \<notin> all_finishes (xs @ concat xss)) cs"
proof -
  let ?f = "fresh_run files cs xs" and ?s = "fold continued xss (fresh_run files cs xs)"
  have f: "sink_sound ?f" "finished_set ?f = all_finishes xs"
    using fresh_run_sound [OF assms(1)] assms(3) by simp_all
  have s: "sink_sound ?s" "finished_set ?s = all_finishes (xs @ concat xss)"
    "map_of (sk_files ?s) all_file = map_of (sk_files ?f) all_file"
    using continued_runs [OF f(1), of xss] assms(3) f(2) by simp_all
  have "map_of (sk_files ?f) all_file = Some (in_lines cs)"
    by (simp add: fresh_run_def all_file_kept_all) (simp add: All_cases_def overwrite_def update_conv')
  then have "readLines (map_of (sk_files ?s) all_file) = cs" using s(3) readLines_lines [OF assms(2)] by simp
  moreover have "set (finished_in ?s) = all_finishes (xs @ concat xss)"
    using finished_set_in s(1,2) by (simp add: sink_sound_def)
  ultimately show ?thesis by (simp add: Remaining_def)
qed

subsection \<open>What a running run has entered\<close>

definition same_entries :: "sink \<Rightarrow> sink \<Rightarrow> bool" where
  "same_entries a b \<longleftrightarrow> (sink_sound a \<longrightarrow> sink_sound b \<and> finished_set b = finished_set a) \<and>
     map_of (sk_files b) all_file = map_of (sk_files a) all_file"

lemma op_entries: "op_finishes x = {} \<Longrightarrow> same_entries a (do_op x a)"
  using op_effect [of a x] by (simp add: same_entries_def all_file_kept op_plain_def)

lemma output_entries: "other_output f \<Longrightarrow> same_entries a (f a)"
proof -
  assume "other_output f"
  then obtain e ls t c r where "f \<in> {EnvStart e, EnvStop e, Core t, WorkerLines e ls, Check_log e t, Monitor e t, Snapshot c r}"
    unfolding other_output_def by blast
  then obtain x where "f = do_op x" "op_finishes x = {}"
    using that [of "DoEnvStart e"] that [of "DoEnvStop e"] that [of "DoCore t"] that [of "DoWorker e ls"] that [of "DoCheck e t"]
      that [of "DoMonitor e t"] that [of "DoSnapshot c r"]
    by (auto simp: op_finishes_def)
  then show "same_entries a (f a)" by (simp add: op_entries)
qed

lemma sink_reopened:
  assumes "sink_sound a"
  shows "sink_sound (sink_Open (sk_files a) True) \<and> finished_set (sink_Open (sk_files a) True) = finished_set a"
proof -
  have f: "fins (sink_Open (sk_files a) True) = fins a" by (simp add: fins_def sink_Open_def fun_eq_iff)
  have "sink_sound (sink_Open (sk_files a) True)" using assms by (simp add: sink_sound_def f) (simp add: sink_Open_def)
  then show ?thesis by (simp add: finished_set_def f)
qed

text \<open>The list of finished cases, by what a run found in it and what it has entered.\<close>

definition has_entered :: "sink \<Rightarrow> string list \<Rightarrow> sink \<Rightarrow> bool" where
  "has_entered files F a \<longleftrightarrow> sink_sound a \<and> finished_set a = finished_set files \<union> set F \<and>
     map_of (sk_files a) all_file = map_of (sk_files files) all_file"

lemma entered_nothing: "sink_sound files \<Longrightarrow> has_entered files [] files"
  by (simp add: has_entered_def)

lemma entered_same: "has_entered files F a \<Longrightarrow> same_entries a b \<Longrightarrow> has_entered files F b"
  by (simp add: has_entered_def same_entries_def)

lemma entered_one: "has_entered files F a \<Longrightarrow> plain_case c \<Longrightarrow> has_entered files (c # F) (Finish_case env c a)"
  using finish_adds [of a c env] all_file_kept [of "DoFinish env c" a] by (simp add: has_entered_def)

lemma entered_left:
  assumes "has_entered files F a" "sink_sound files"
  shows "sink_sound (sink_Open (sk_files a) True)" "Remaining (sink_Open (sk_files a) True) = filter (\<lambda>c. c \<notin> set F) (Remaining files)"
proof -
  let ?f = "sink_Open (sk_files a) True"
  have a: "sink_sound ?f" "finished_set ?f = finished_set files \<union> set F" "map_of (sk_files ?f) all_file = map_of (sk_files files) all_file"
    using assms(1) sink_reopened [of a] by (simp_all add: has_entered_def) (simp add: sink_Open_def)
  then have "set (finished_in ?f) = set (finished_in files) \<union> set F"
    using finished_set_in [of ?f] finished_set_in [of files] assms(2) by (simp add: sink_sound_def)
  then show "sink_sound ?f" "Remaining ?f = filter (\<lambda>c. c \<notin> set F) (Remaining files)"
    using a(1,3) by (simp_all add: Remaining_def conj_commute)
qed

lemma fresh_lists:
  assumes "no_journal present" "\<forall>c \<in> set cs. plain_case c"
  shows "sink_sound (All_cases cs (sink_Open present False)) \<and> Remaining (All_cases cs (sink_Open present False)) = cs"
  using fresh_start(1) [OF assms(1)] remaining_left [OF assms, of "[]" "[]"] by (simp add: fresh_run_def)

text \<open>
  C17: If the first run finds no list of finished cases in its directory, then what is left after any number
  of interrupted runs, each continuing the one before, is the list of the first run without the cases
  one of them finished, in the order of that list. Whatever else the runs wrote changes nothing.
\<close>

theorem remaining_is_what_never_finished:
  assumes "no_journal files" "\<forall>c \<in> set cs. plain_case c" "\<forall>ys \<in> set (xs # xss). \<forall>x \<in> set ys. op_plain x"
  shows "Remaining (fold continued xss (fresh_run files cs xs)) =
    filter (\<lambda>c. \<forall>ys \<in> set (xs # xss). \<forall>e. DoFinish e c \<notin> set ys) cs"
proof -
  have "(c \<in> all_finishes (xs @ concat xss)) = (\<exists>ys \<in> set (xs # xss). \<exists>e. DoFinish e c \<in> set ys)" for c
    by (simp add: all_finishes_concat all_finishes_mem)
  then show ?thesis using remaining_left [OF assms] by simp
qed

lemma plain_graphic: "\<forall>x \<in> set c. graphic x \<Longrightarrow> c \<noteq> [] \<Longrightarrow> plain_case c"
  by (auto simp: plain_case_def graphic_trimmed graphic_def control char_nat_def)

lemma plain_names: "plain_case ''a''" "plain_case ''b''" "plain_case ''c''"
  by (simp_all add: plain_graphic graphic_def char_nat_def)

theorem remaining_is_what_never_finished_witness:
  "Remaining (fold continued [[DoFinish ''local'' ''c'']]
     (fresh_run [(''main.log'', [])] [''a'', ''b'', ''c'']
        [DoCase ''b'' ''local'' False 1 0, DoFinish ''local'' ''a''])) = [''b'']"
  by (subst remaining_is_what_never_finished)
    (auto simp: no_journal_def fin_name_def plain_names op_plain_def op_finishes_def)

subsection \<open>A journal of another run\<close>

text \<open>
  A run that starts afresh empties a list of finished cases when it finishes its first case there, not
  when it starts. A list an earlier run left is therefore still read if this run stops before, or
  if it was left by an environment this run does not have.
\<close>

lemma stale_journal_hides_a_case:
  "Remaining (All_cases [''a'', ''b''] (sink_Open [(fin_file ''local'', ''a'' @ [LF])] False)) = [''b'']"
proof -
  have "readLines (Some (in_lines [''a'', ''b''])) = [''a'', ''b'']" "readLines (Some (in_lines [''a''])) = [''a'']"
    using readLines_lines [of "[''a'', ''b'']"] readLines_lines [of "[''a'']"] plain_names by simp_all
  then show ?thesis
    by (simp add: Remaining_def finished_in_def All_cases_def overwrite_def sink_Open_def update_conv' in_lines_def
        all_file_apart [symmetric])
qed

end
