(* ===== verification/Shell_Worker_Claims.thy ===== *)
theory Shell_Worker_Claims
  imports Shell_Worker Result_Sink_Claims Exec_Claims
begin

text \<open>
  What a shell worker promises: it leaves one block of log lines per attempt and one verdict per
  case, a passed case has evidence for it, and a patched case is put back.
\<close>

text \<open>The three ways an attempt goes: without a patch, with one that is refused, with one that is applied.\<close>

lemma runOne_cases:
  assumes "runOne we c w = (r, w')"
  obtains
    (plain) "patch_For (wk_patches (made_ready we w)) (sc_Path c) = []"
      "run_script we c (made_ready we w) = (r, w')"
  | (refused) pf rr u why where "pf = patch_For (wk_patches (made_ready we w)) (sc_Path c)" "pf \<noteq> []"
      "probe we (ApplyScript (sc_Dir c) pf) (made_ready we w) = (rr, u)" "no_patch_reason pf rr = Some why"
      "r = ([nok why], [])" "w' = on_page (RefusedPatch (sc_Path c) pf) u"
  | (patched) pf rr u v where "pf = patch_For (wk_patches (made_ready we w)) (sc_Path c)" "pf \<noteq> []"
      "probe we (ApplyScript (sc_Dir c) pf) (made_ready we w) = (rr, u)" "no_patch_reason pf rr = None"
      "run_script we c (patched_as c pf we u) = (r, v)" "w' = revert we c pf v"
proof -
  define pf where "pf = patch_For (wk_patches (made_ready we w)) (sc_Path c)"
  obtain rr u where p: "probe we (ApplyScript (sc_Dir c) pf) (made_ready we w) = (rr, u)"
    by (cases "probe we (ApplyScript (sc_Dir c) pf) (made_ready we w)")
  obtain r2 v where s: "run_script we c (patched_as c pf we u) = (r2, v)"
    by (cases "run_script we c (patched_as c pf we u)")
  have one: "runOne we c w = (if pf = [] then run_script we c (made_ready we w)
      else (case no_patch_reason pf rr of Some why \<Rightarrow> (([nok why], []), on_page (RefusedPatch (sc_Path c) pf) u)
        | None \<Rightarrow> (r2, revert we c pf v)))"
    by (simp add: runOne_def Let_def pf_def [symmetric] p s split: option.split)
  show thesis
  proof (cases "pf = []")
    case True
    then show thesis using plain one assms by (simp add: pf_def)
  next
    case pf: False
    show thesis
    proof (cases "no_patch_reason pf rr")
      case None
      then show thesis using patched [OF pf_def pf p None, of v] one assms pf s by simp
    next
      case (Some why)
      then show thesis using refused [OF pf_def pf p Some] one assms pf by simp
    qed
  qed
qed

subsection \<open>What the steps of an attempt leave alone\<close>

text \<open>
  The steps of an attempt only send scripts, log lines, tell the page and mark a patch as applied. A
  relation on workers that allows those relates the worker before and after an attempt.
\<close>

locale step_frame =
  fixes R :: "('m, 'e) worker \<Rightarrow> ('m, 'e) worker \<Rightarrow> bool"
  assumes same: "R w w"
    and joined: "R u v \<Longrightarrow> R v w \<Longrightarrow> R u w"
    and machine: "R w (w\<lparr>wk_m := m\<rparr>)"
    and logged: "R w (wlog we t w)"
    and paged: "R w (on_page n w)"
begin

lemma probed: "probe we s w = (r, u) \<Longrightarrow> R w u"
  using machine by (auto simp: probe_def split: prod.splits)

lemma checked: "run_checked we s w = (r, u) \<Longrightarrow> R w u"
  using machine by (auto simp: run_checked_def split: prod.splits)

lemma quieted: "R w (quietly we s l e w)"
proof -
  obtain rr u where p: "probe we s w = (rr, u)" by (cases "probe we s w")
  show ?thesis
    by (cases rr) (auto simp: quietly_def p Let_def intro: joined [OF probed [OF p]] logged)
qed

lemma spaced: "R w (diskSpace we w)"
proof -
  obtain rr u where p: "run_checked we (disk_script (we_reserve we)) w = (rr, u)"
    by (cases "run_checked we (disk_script (we_reserve we)) w")
  show ?thesis
    by (cases rr) (auto simp: diskSpace_def p intro: joined [OF checked [OF p]] joined [OF logged] logged)
qed

lemma read_through: "R w (snd (read_result we c k w))"
proof (induction k arbitrary: w)
  case 0
  obtain rr u where p: "probe we (CollectScript c) w = (rr, u)" by (cases "probe we (CollectScript c) w")
  then show ?case using probed [OF p] by (subst read_result.simps) (cases rr; simp add: p)
next
  case (Suc k)
  obtain rr u where p: "probe we (CollectScript c) w = (rr, u)" by (cases "probe we (CollectScript c) w")
  obtain b m where q: "we_pause we (wk_m u) = (b, m)" by (cases "we_pause we (wk_m u)")
  have v: "R w (u\<lparr>wk_m := m\<rparr>)" using probed [OF p] machine by (rule joined)
  show ?case
    using probed [OF p] v joined [OF v Suc.IH]
    by (subst read_result.simps) (cases rr; cases b; simp add: p q)
qed

lemma collected: "collect_result we c w = (r, u) \<Longrightarrow> R w u"
proof -
  obtain rr v where p: "read_result we c (collectAttempts - 1) w = (rr, v)"
    by (cases "read_result we c (collectAttempts - 1) w")
  then have "R w v" using read_through [of w we c "collectAttempts - 1"] by simp
  then show "collect_result we c w = (r, u) \<Longrightarrow> R w u" by (cases rr) (auto simp add: collect_result_def p simp del: One_nat_def)
qed

lemma scripted: "run_script we c w = (r, u) \<Longrightarrow> R w u"
proof -
  obtain rr v where p: "probe we (RunScript c (we_options we)) w = (rr, v)"
    by (cases "probe we (RunScript c (we_options we)) w")
  show "run_script we c w = (r, u) \<Longrightarrow> R w u"
  proof (cases rr)
    case (Inl e)
    moreover assume "run_script we c w = (r, u)"
    ultimately show ?thesis using probed [OF p] by (simp add: run_script_def p)
  next
    case (Inr res)
    let ?v = "wlog we (sh_out res) v"
    obtain chk x where c: "run_checked we (FinalCheckScript c (we_options we)) ?v = (chk, x)"
      by (cases "run_checked we (FinalCheckScript c (we_options we)) ?v")
    obtain col y where l: "collect_result we c x = (col, y)" by (cases "collect_result we c x")
    have "R w y" using probed [OF p] logged checked [OF c] collected [OF l] by (blast intro: joined)
    moreover assume "run_script we c w = (r, u)"
    ultimately show ?thesis by (cases col) (simp_all add: run_script_def p Inr c l Let_def)
  qed
qed

lemma reverted: "R w (revert we c pf w)"
proof -
  obtain rr u where p: "probe we (RevertScript (sc_Dir c) pf) w = (rr, u)"
    by (cases "probe we (RevertScript (sc_Dir c) pf) w")
  then show ?thesis using probed [OF p] by (auto simp: revert_def p Let_def intro: joined logged)
qed

lemma readied: "R w (made_ready we w)"
  unfolding made_ready_def Let_def using joined [OF quieted joined [OF quieted spaced]] joined [OF quieted quieted] by simp

end

locale attempt_frame = step_frame +
  assumes patched_too: "R w (w\<lparr>wk_patches := p\<rparr>)"
begin

lemma marked: "R w (patched_as c pf we w)"
  unfolding patched_as_def Let_def by (rule joined [OF joined [OF logged paged] patched_too])

lemma attempted: "runOne we c w = (r, u) \<Longrightarrow> R w u"
proof (erule runOne_cases)
  assume "run_script we c (made_ready we w) = (r, u)"
  then show ?thesis using readied by (blast intro: joined scripted)
next
  fix pf rr x why
  assume "probe we (ApplyScript (sc_Dir c) pf) (made_ready we w) = (rr, x)" "u = on_page (RefusedPatch (sc_Path c) pf) x"
  then show ?thesis using readied paged by (blast intro: joined probed)
next
  fix pf rr x v
  assume p: "probe we (ApplyScript (sc_Dir c) pf) (made_ready we w) = (rr, x)"
    and s: "run_script we c (patched_as c pf we x) = (r, v)" and u: "u = revert we c pf v"
  have "R w x" by (rule joined [OF readied probed [OF p]])
  then have "R w v" using joined [OF marked scripted [OF s]] by (rule joined)
  then show ?thesis unfolding u using reverted by (rule joined)
qed

end

text \<open>All of a ticket's attempt: it also notes the time, the crash reports seen and the logs that are kept.\<close>

locale judging_frame = attempt_frame +
  assumes timed: "R w (w\<lparr>wk_timeout := b\<rparr>)"
    and noted: "R w (w\<lparr>wk_seen := s, wk_m := m\<rparr>)"
    and kept: "R w (w\<lparr>wk_logs := l, wk_m := m\<rparr>)"
begin

lemma folded: "(\<And>x v. R v (f x v)) \<Longrightarrow> R w (fold f xs w)"
  by (induction xs arbitrary: w) (auto intro: same joined)

lemma counted: "R w (snd (count_crash we c cr (v, w)))"
proof -
  obtain r m where k: "Keep_report (we_ch we) cr (path_join [we_dir we, ''crash'']) c (wk_m w) = (r, m)"
    by (cases "Keep_report (we_ch we) cr (path_join [we_dir we, ''crash'']) c (wk_m w)")
  have "R w (w\<lparr>wk_m := m\<rparr>)" "R w (wlog we t (w\<lparr>wk_m := m\<rparr>))" for t
    by (rule machine, rule joined [OF machine logged])
  then show ?thesis by (auto simp: count_crash_def k Let_def split: sum.split keep_error.split)
qed

lemma all_crashes: "R w (snd (fold (count_crash we c) crs (v, w)))"
proof (induction crs arbitrary: v w)
  case (Cons cr crs)
  obtain v' w' where c: "count_crash we c cr (v, w) = (v', w')" by (cases "count_crash we c cr (v, w)")
  then have "R w w'" using counted [of w we c cr v] by simp
  then show ?case using joined Cons.IH [of w' v'] c by (metis fold_simps(2))
qed (simp add: same)

lemma judging: "R w (snd (judged we c' c w))"
proof -
  let ?w1 = "w\<lparr>wk_timeout := False\<rparr>"
  obtain items console w2 where one: "runOne we c ?w1 = ((items, console), w2)" by (metis surj_pair)
  have w2: "R w w2" by (rule joined [OF timed attempted [OF one]])
  define late where "late = we_late we (wk_m w) (wk_m w2)"
  obtain crs seen m where cr: "Crashes (we_ch we) (we_cubrid we) (wk_seen (w2\<lparr>wk_timeout := late\<rparr>)) (wk_m (w2\<lparr>wk_timeout := late\<rparr>)) = (crs, seen, m)"
    by (metis surj_pair)
  let ?w3 = "w2\<lparr>wk_timeout := late\<rparr>\<lparr>wk_seen := seen, wk_m := m\<rparr>"
  have "R w ?w3" by (rule joined [OF w2 joined [OF timed noted]])
  then have "R w (snd (fold (count_crash we c') crs (late_verdict late (verdictOf items), ?w3)))"
    using joined all_crashes by blast
  then show ?thesis using cr
    by (cases "fold (count_crash we c') crs (late_verdict late (verdictOf items), ?w3)")
      (simp add: judged_def Let_def one late_def [symmetric])
qed

lemma attempt_good:
  assumes "Split_case (t_case t) = Some c" "attempt_ticket we t w = (r, u)"
  shows "R (ticket_opened we (t_case t) c w) u"
proof -
  define w3 where "w3 = ticket_opened we (t_case t) c w"
  obtain v console elapsed w4 where j: "judged we (t_case t) c w3 = ((v, console, elapsed), w4)" by (metis surj_pair)
  have w4: "R w3 w4" using judging [of w3 we "t_case t" c] j by simp
  obtain note' l m where k: "Capture (we_ch we) (t_case t) (sc_Dir c) (t_retry t + 1) (vd_Success v) (wk_logs w4) (wk_m w4) = (note', l, m)"
    by (metis surj_pair)
  have "u = (if note' = [] then w4\<lparr>wk_logs := l, wk_m := m\<rparr> else wlog we note' (w4\<lparr>wk_logs := l, wk_m := m\<rparr>))"
    using assms by (simp add: attempt_ticket_def w3_def [symmetric] j k Let_def)
  then have "R w4 u" using joined [OF kept logged] kept by simp
  then show ?thesis using joined [OF w4] by (simp add: w3_def)
qed

end

subsection \<open>An attempt touches neither the queue nor the results\<close>

definition held_back :: "('m, 'e) worker \<Rightarrow> ('m, 'e) worker \<Rightarrow> bool" where
  "held_back w w' \<longleftrightarrow> (wk_buffering w \<longrightarrow>
     wk_buffering w' \<and> wk_sink w' = wk_sink w \<and> wk_queue w' = wk_queue w)"

lemma held_back_trans: "held_back u v \<Longrightarrow> held_back v w \<Longrightarrow> held_back u w"
  by (simp add: held_back_def)

interpretation lines: judging_frame held_back
  by unfold_locales (simp_all add: held_back_def on_page_def wlog_def)

definition same_seen :: "('m, 'e) worker \<Rightarrow> ('m, 'e) worker \<Rightarrow> bool" where
  "same_seen w w' \<longleftrightarrow> wk_seen w' = wk_seen w"

interpretation seen: attempt_frame same_seen
  by unfold_locales (simp_all add: same_seen_def on_page_def wlog_def)

definition same_patches :: "('m, 'e) worker \<Rightarrow> ('m, 'e) worker \<Rightarrow> bool" where
  "same_patches w w' \<longleftrightarrow> wk_patches w' = wk_patches w"

interpretation patches: step_frame same_patches
  by unfold_locales (simp_all add: same_patches_def on_page_def wlog_def)

subsection \<open>What a ticket leaves in the queue and in the results\<close>

definition is_log :: "sink_op \<Rightarrow> bool" where
  "is_log x \<longleftrightarrow> (\<exists>e ls. x = DoWorker e ls)"

lemma is_log_simps [simp]:
  "is_log (DoWorker e ls)" "\<not> is_log (DoCase c e b i j)" "\<not> is_log (DoFinish e c)"
  by (simp_all add: is_log_def)

definition verdict_ops :: "'m worker_env \<Rightarrow> ticket \<Rightarrow> bool \<Rightarrow> bool \<Rightarrow> sink_op list" where
  "verdict_ops we t success retrying =
     (if retrying then []
      else [DoCase (t_case t) (we_EnvID we) success (we_MaxRetry we) (t_retry t), DoFinish (we_EnvID we) (t_case t)])"

text \<open>Retiring a case tells the corpus, and otherwise only sends a script and logs.\<close>

context step_frame
begin

lemma retiring:
  assumes "Split_case p = Some c" "Retire (we_corpus we) (we_SlotID we) (sc_Dir c) (wk_corpus w) (wk_m w) = (r, k, m)"
  shows "R (w\<lparr>wk_corpus := k, wk_m := m\<rparr>) (retire_case we p w)"
proof -
  obtain rr u where p: "run_checked we (PruneRegistryScript (sc_Dir c)) (w\<lparr>wk_corpus := k, wk_m := m\<rparr>) = (rr, u)"
    by (cases "run_checked we (PruneRegistryScript (sc_Dir c)) (w\<lparr>wk_corpus := k, wk_m := m\<rparr>)")
  then show ?thesis using same checked [OF p] joined [OF checked [OF p] logged]
    by (cases rr) (simp_all add: retire_case_def assms Let_def)
qed

end

lemma held_retired: "held_back w (retire_case we p w)"
proof (cases "Split_case p")
  case (Some c)
  obtain r k m where r: "Retire (we_corpus we) (we_SlotID we) (sc_Dir c) (wk_corpus w) (wk_m w) = (r, k, m)"
    by (metis surj_pair)
  have "held_back w (w\<lparr>wk_corpus := k, wk_m := m\<rparr>)" by (simp add: held_back_def)
  then show ?thesis using lines.retiring [OF Some r] by (rule held_back_trans)
qed (simp add: retire_case_def lines.same)

text \<open>How a ticket's completion goes, by what the queue answers.\<close>

lemma completion:
  assumes "Complete t (vd_Success v) (vd_HasCore v) (wk_queue w) = (q, retrying)"
    "complete_ticket we t v console elapsed w = (x, w2)"
  obtains
    (again) ev m where "retrying" "x = None"
      "w2 = wflush we (wlog we [] (to_feedback (CaseStopRetry ev) (w\<lparr>wk_queue := q, wk_meter := m\<rparr>)))"
  | (over) ev m where "\<not> retrying" "x = Some ev" "ev_Success ev = vd_Success v" "w2 = w\<lparr>wk_queue := q, wk_meter := m\<rparr>"
proof (cases retrying)
  case True
  then show thesis using assms by (intro again) (auto simp: complete_ticket_def Let_def)
next
  case False
  then show thesis using assms by (intro over) (auto simp: complete_ticket_def Let_def)
qed

lemma finish_buffered:
  assumes b: "wk_buffering w" and q: "Complete t (vd_Success v) (vd_HasCore v) (wk_queue w) = (q, retrying)"
    and w'_def: "w' = finish_ticket we t v console elapsed w"
  shows "wk_queue w' = q \<and> \<not> wk_buffering w' \<and> wk_buf w' = [] \<and>
    (\<exists>ls. wk_sink w' = fold do_op (verdict_ops we t (vd_Success v) retrying @ [DoWorker (we_EnvID we) ls]) (wk_sink w))"
proof -
  define w1 where "w1 = fold (wlog we) (vd_Items v) w"
  have "held_back w w1" unfolding w1_def by (rule lines.folded) (rule lines.logged)
  then have w1: "wk_buffering w1" "wk_sink w1 = wk_sink w" "wk_queue w1 = wk_queue w" using b by (simp_all add: held_back_def)
  have c: "Complete t (vd_Success v) (vd_HasCore v) (wk_queue w1) = (q, retrying)" using q w1 by simp
  obtain x w2 where x: "complete_ticket we t v console elapsed w1 = (x, w2)" by (cases "complete_ticket we t v console elapsed w1")
  from c x show ?thesis
  proof (cases rule: completion)
    case (again ev m)
    then show ?thesis using w1 by (auto simp: w'_def finish_ticket_def w1_def [symmetric] x
        verdict_ops_def wflush_def wlog_def to_feedback_def)
  next
    case (over ev m)
    then have w2: "wk_buffering w2" "wk_sink w2 = wk_sink w" "wk_queue w2 = q" using w1 by simp_all
    define w4 where "w4 = retire_ticket we t w2"
    have "held_back (on_page (Live (t_case t) []) w2) w4" unfolding w4_def retire_ticket_def by (rule held_retired)
    then have w4: "wk_buffering w4" "wk_sink w4 = wk_sink w" "wk_queue w4 = q"
      using w2 by (simp_all add: held_back_def on_page_def)
    have "w' = record_ticket we t ev w4" by (simp add: w'_def finish_ticket_def w1_def [symmetric] x over(2) w4_def)
    then show ?thesis using w4 over
      by (auto simp: record_ticket_def verdict_ops_def wflush_def wlog_def to_feedback_def on_page_def Let_def)
  qed
qed

lemma finish_unbuffered:
  assumes b: "\<not> wk_buffering w" "wk_buf w = []" and v: "vd_Items v = [item]" "Split_case (t_case t) = None"
    and q: "Complete t (vd_Success v) (vd_HasCore v) (wk_queue w) = (q, retrying)"
    and w'_def: "w' = finish_ticket we t v console elapsed w"
  shows "wk_queue w' = q \<and> \<not> wk_buffering w' \<and> wk_buf w' = [] \<and>
    wk_sink w' = fold do_op (DoWorker (we_EnvID we) [item] # verdict_ops we t (vd_Success v) retrying @
      [DoWorker (we_EnvID we) [[]]]) (wk_sink w)"
  unfolding w'_def finish_ticket_def complete_ticket_def retire_ticket_def record_ticket_def Let_def
  using assms(1-5)
  by (auto simp: verdict_ops_def wflush_def wlog_def to_feedback_def on_page_def Worker_def Let_def retire_case_def)

lemma work_on_bad:
  "Split_case (t_case t) = None \<Longrightarrow> work_on we t w =
     finish_ticket we t \<lparr>vd_Items = [nok (''no cases/ segment in '' @ go_quote (t_case t))], vd_Success = False,
       vd_HasCore = False\<rparr> [] 0 w"
  by (simp add: work_on_def attempt_ticket_def)

text \<open>A ticket of a case whose parts are known ends in \<open>finish_ticket\<close>, with the lines of the attempt held back.\<close>

lemma work_on_good:
  assumes "Split_case (t_case t) = Some c" "\<not> wk_buffering w"
  obtains v console elapsed u where "work_on we t w = finish_ticket we t v console elapsed u"
    "wk_buffering u" "wk_sink u = wk_sink w" "wk_queue u = wk_queue w"
proof -
  obtain v console elapsed u where a: "attempt_ticket we t w = ((v, console, elapsed), u)" by (metis surj_pair)
  have "held_back (ticket_opened we (t_case t) c w) u" by (rule lines.attempt_good [OF assms(1) a])
  then have "wk_buffering u" "wk_sink u = wk_sink w" "wk_queue u = wk_queue w"
    by (simp_all add: held_back_def ticket_opened_def wlog_def whold_def on_page_def to_feedback_def)
  moreover have "work_on we t w = finish_ticket we t v console elapsed u" by (simp add: work_on_def a)
  ultimately show thesis using that by blast
qed

text \<open>
  C5: Working on a ticket ends with one completion of the queue. The case gets its verdict line and its
  entry in the list of finished cases, in that order, exactly if the queue does not take it back; a
  case that is to be retried leaves neither. The rest is log lines, and the lines of an attempt are
  one block.
\<close>

theorem ticket_is_recorded_once:
  assumes "\<not> wk_buffering w" "wk_buf w = []"
  shows "\<exists>xs success hasCore retrying.
    Complete t success hasCore (wk_queue w) = (wk_queue (work_on we t w), retrying) \<and>
    wk_sink (work_on we t w) = fold do_op xs (wk_sink w) \<and>
    filter (\<lambda>x. \<not> is_log x) xs =
      (if retrying then []
       else [DoCase (t_case t) (we_EnvID we) success (we_MaxRetry we) (t_retry t), DoFinish (we_EnvID we) (t_case t)]) \<and>
    (Split_case (t_case t) \<noteq> None \<longrightarrow> length (filter is_log xs) = 1) \<and>
    \<not> wk_buffering (work_on we t w) \<and> wk_buf (work_on we t w) = []"
proof (cases "Split_case (t_case t)")
  case None
  let ?v = "\<lparr>vd_Items = [nok (''no cases/ segment in '' @ go_quote (t_case t))], vd_Success = False, vd_HasCore = False\<rparr>"
  obtain q retrying where q: "Complete t False False (wk_queue w) = (q, retrying)"
    by (cases "Complete t False False (wk_queue w)")
  from finish_unbuffered [OF assms, of ?v _ t q retrying "work_on we t w" we "[]" 0] None q work_on_bad [OF None, of we w]
  have "wk_queue (work_on we t w) = q" "\<not> wk_buffering (work_on we t w)" "wk_buf (work_on we t w) = []"
    "wk_sink (work_on we t w) = fold do_op (DoWorker (we_EnvID we) [nok (''no cases/ segment in '' @ go_quote (t_case t))] #
       verdict_ops we t False retrying @ [DoWorker (we_EnvID we) [[]]]) (wk_sink w)"
    by simp_all
  with None q show ?thesis
    by (intro exI [of _ "DoWorker (we_EnvID we) [nok (''no cases/ segment in '' @ go_quote (t_case t))] #
       verdict_ops we t False retrying @ [DoWorker (we_EnvID we) [[]]]"] exI [of _ False] exI [of _ retrying])
      (simp add: verdict_ops_def)
next
  case (Some c)
  from work_on_good [OF Some assms(1), of we] obtain v console elapsed u where
    u: "work_on we t w = finish_ticket we t v console elapsed u" "wk_buffering u" "wk_sink u = wk_sink w" "wk_queue u = wk_queue w" .
  obtain q retrying where q: "Complete t (vd_Success v) (vd_HasCore v) (wk_queue u) = (q, retrying)"
    by (cases "Complete t (vd_Success v) (vd_HasCore v) (wk_queue u)")
  from finish_buffered [OF u(2) q u(1)] obtain ls where f: "wk_queue (work_on we t w) = q"
    "\<not> wk_buffering (work_on we t w)" "wk_buf (work_on we t w) = []"
    "wk_sink (work_on we t w) = fold do_op (verdict_ops we t (vd_Success v) retrying @ [DoWorker (we_EnvID we) ls]) (wk_sink u)"
    by blast
  then show ?thesis using q u(3,4)
    by (intro exI [of _ "verdict_ops we t (vd_Success v) retrying @ [DoWorker (we_EnvID we) ls]"] exI [of _ "vd_Success v"]
        exI [of _ "vd_HasCore v"] exI [of _ retrying])
      (simp add: verdict_ops_def)
qed

subsection \<open>A passed case has evidence\<close>

lemma verdict_fold:
  "vd_Items (fold verdict_line ls v) = vd_Items v \<and>
   (vd_Success (fold verdict_line ls v) \<longleftrightarrow> vd_Success v \<and> (\<forall>l \<in> set ls. \<not> contains l ''NOK''))"
  by (induction ls arbitrary: v) (auto simp: verdict_line_def Let_def)

lemma verdictOf_items [simp]: "vd_Items (verdictOf ls) = ls"
  by (simp add: verdictOf_def verdict_fold)

lemma verdictOf_success: "vd_Success (verdictOf ls) \<longleftrightarrow> (\<forall>l \<in> set ls. \<not> contains l ''NOK'')"
  by (simp add: verdictOf_def verdict_fold)

lemma nok_marks: "contains (nok x) ''NOK''" "contains (resultItem ''NOK'' x) ''NOK''"
  by (simp_all add: nok_def resultItem_def sublist_Cons_right)

lemma counted_failed: "\<not> vd_Success v \<Longrightarrow> \<not> vd_Success (fst (fold (count_crash we p) crs (v, w)))"
proof (induction crs arbitrary: v w)
  case (Cons cr crs)
  obtain v' w' where c: "count_crash we p cr (v, w) = (v', w')" by (cases "count_crash we p cr (v, w)")
  then have "\<not> vd_Success v'" by (auto simp: count_crash_def split: prod.splits)
  then show ?case using Cons.IH [of v' w'] c by simp
qed simp

lemma counted_success:
  assumes "fold (count_crash we p) crs (v, w) = (v', w')" "vd_Success v'"
  shows "crs = [] \<and> v' = v \<and> w' = w"
proof (cases crs)
  case (Cons cr rest)
  obtain u x where c: "count_crash we p cr (v, w) = (u, x)" by (cases "count_crash we p cr (v, w)")
  then have "\<not> vd_Success u" by (auto simp: count_crash_def split: prod.splits)
  then show ?thesis using counted_failed [of u we p rest x] assms Cons c by simp
qed (use assms in simp)

lemma script_success:
  assumes "run_script we c w = ((items, console), w')" "\<forall>l \<in> set items. \<not> contains l ''NOK''"
  shows "\<exists>r u chk w3 t. probe we (RunScript c (we_options we)) w = (Inr r, u) \<and>
    run_checked we (FinalCheckScript c (we_options we)) (wlog we (sh_out r) u) = (Inr chk, w3) \<and>
    read_result we c (collectAttempts - 1) w3 = (Inr t, w') \<and> trim_space t \<noteq> [] \<and>
    items = filter (\<lambda>l. trim_space l \<noteq> []) (split_on LF t)"
proof -
  obtain rr u where p: "probe we (RunScript c (we_options we)) w = (rr, u)"
    by (cases "probe we (RunScript c (we_options we)) w")
  obtain r where r: "rr = Inr r" using assms nok_marks by (cases rr) (auto simp: run_script_def p)
  let ?u = "wlog we (sh_out r) u"
  obtain chk w3 where k: "run_checked we (FinalCheckScript c (we_options we)) ?u = (chk, w3)"
    by (cases "run_checked we (FinalCheckScript c (we_options we)) ?u")
  obtain col w4 where col: "collect_result we c w3 = (col, w4)" by (cases "collect_result we c w3")
  obtain b where chk: "chk = Inr b"
    using assms nok_marks by (cases chk; cases col) (auto simp: run_script_def p r k col Let_def)
  obtain ls where ls: "col = Inr ls" using assms nok_marks by (cases col) (auto simp: run_script_def p r k chk col Let_def)
  have it: "items = ls" "w4 = w'" using assms(1) by (auto simp: run_script_def p r k chk col ls Let_def)
  obtain rd v where rd: "read_result we c (collectAttempts - 1) w3 = (rd, v)"
    by (cases "read_result we c (collectAttempts - 1) w3")
  obtain t where t: "rd = Inr t" using col ls by (cases rd) (auto simp: collect_result_def rd simp del: One_nat_def)
  have l: "ls = (if trim_space t = [] then blankResultItems c (we_now we (wk_m v))
      else filter (\<lambda>l. trim_space l \<noteq> []) (split_on LF t))" "v = w4"
    using col ls by (auto simp: collect_result_def rd t simp del: One_nat_def)
  have "trim_space t \<noteq> []"
  proof
    assume "trim_space t = []"
    then show False using l(1) it assms(2) nok_marks by (auto simp: blankResultItems_def)
  qed
  then show ?thesis using p r k chk rd t l it by auto
qed

text \<open>
  C6: A case that passes ran: its script and the check after it could be run and the check found nothing
  wrong with itself, a result that is not blank was read within the readings allowed, no line of it has
  the word \<open>NOK\<close>, the monitor did not call the case late, and the machine holds no crash report that was
  not counted before. If the case has a patch, it was applied.
\<close>

theorem passed_case_has_evidence:
  fixes w w' :: "('m, 'e) worker"
  assumes "judged we p c w = ((v, console, elapsed), w')" "vd_Success v"
  shows "\<exists>(w1 :: ('m, 'e) worker) r u chk w3 t w4.
    probe we (RunScript c (we_options we)) w1 = (Inr r, u) \<and>
    run_checked we (FinalCheckScript c (we_options we)) (wlog we (sh_out r) u) = (Inr chk, w3) \<and>
    read_result we c (collectAttempts - 1) w3 = (Inr t, w4) \<and> trim_space t \<noteq> [] \<and>
    vd_Items v = filter (\<lambda>l. trim_space l \<noteq> []) (split_on LF t) \<and> (\<forall>l \<in> set (vd_Items v). \<not> contains l ''NOK'') \<and>
    \<not> wk_timeout w' \<and> (\<exists>m. Crashes (we_ch we) (we_cubrid we) (wk_seen w) m = ([], wk_seen w', wk_m w')) \<and>
    (let pf = patch_For (wk_patches w) (sc_Path c) in pf = [] \<or>
       (\<exists>w0 res x. probe we (ApplyScript (sc_Dir c) pf) w0 = (Inr res, x) \<and> sh_exit res = 0 \<and> w1 = patched_as c pf we x))"
proof -
  let ?w0 = "w\<lparr>wk_timeout := False\<rparr>"
  obtain items con w2 where o: "runOne we c ?w0 = ((items, con), w2)" by (metis surj_pair)
  define late where "late = we_late we (wk_m w) (wk_m w2)"
  obtain crs sn m where cr: "Crashes (we_ch we) (we_cubrid we) (wk_seen w2) (wk_m w2) = (crs, sn, m)" by (metis surj_pair)
  let ?w3 = "w2\<lparr>wk_timeout := late, wk_seen := sn, wk_m := m\<rparr>"
  obtain v' w4 where f: "fold (count_crash we p) crs (late_verdict late (verdictOf items), ?w3) = (v', w4)"
    by (metis surj_pair)
  have j: "v' = v" "w4 = w'" using assms(1) by (simp_all add: judged_def Let_def o late_def [symmetric] cr f)
  have no: "crs = []" "v = late_verdict late (verdictOf items)" "w' = ?w3" using counted_success [OF f] j assms(2) by simp_all
  then have late: "\<not> late" "v = verdictOf items" using assms(2) by (auto simp: late_verdict_def)
  then have it: "vd_Items v = items" "\<forall>l \<in> set items. \<not> contains l ''NOK''" using assms(2) by (simp_all add: verdictOf_success)
  have seen: "wk_seen w2 = wk_seen w" using seen.attempted [OF o] by (simp add: same_seen_def)
  have pat: "wk_patches (made_ready we ?w0) = wk_patches w"
    using patches.readied [of ?w0 we] by (simp add: same_patches_def)
  let ?pf = "patch_For (wk_patches w) (sc_Path c)"
  obtain w1 w5 :: "('m, 'e) worker" where s: "run_script we c w1 = ((items, con), w5)"
    "?pf = [] \<or> (\<exists>w0 res x. probe we (ApplyScript (sc_Dir c) ?pf) w0 = (Inr res, x) \<and> sh_exit res = 0 \<and> w1 = patched_as c ?pf we x)"
    using o
  proof (cases rule: runOne_cases)
    case plain
    then show ?thesis using that [of "made_ready we ?w0" w2] pat by simp
  next
    case (refused pf rr u why)
    then show ?thesis using it(2) nok_marks(1) [of why] by simp
  next
    case (patched pf rr u v)
    then have "pf = ?pf" using pat by simp
    moreover obtain res where "rr = Inr res" "sh_exit res = 0"
      using patched(4) by (auto simp: no_patch_reason_def split: sum.splits if_splits)
    ultimately show ?thesis using that [of "patched_as c pf we u" v] patched by blast
  qed
  from script_success [OF s(1) it(2)] obtain r u chk w6 t where
    x: "probe we (RunScript c (we_options we)) w1 = (Inr r, u)"
    "run_checked we (FinalCheckScript c (we_options we)) (wlog we (sh_out r) u) = (Inr chk, w6)"
    "read_result we c (collectAttempts - 1) w6 = (Inr t, w5)" "trim_space t \<noteq> []"
    "items = filter (\<lambda>l. trim_space l \<noteq> []) (split_on LF t)" by blast
  show ?thesis
    unfolding Let_def
    by (rule exI [of _ w1], rule exI [of _ r], rule exI [of _ u], rule exI [of _ chk], rule exI [of _ w6], rule exI [of _ t],
        rule exI [of _ w5]) (use x it late no seen cr s(2) in auto)
qed

definition demo_channel :: "unit sh_channel" where
  "demo_channel script m = (Inr \<lparr>sh_out = ''x : OK'', sh_err = [], sh_exit = 0\<rparr>, m)"

definition idle_env :: "unit corpus_env" where
  "idle_env = \<lparr>ce_used = \<lambda>_. 0, ce_added = \<lambda>_ _. 0, ce_own = \<lambda>_ _ _. 0, ce_drop = \<lambda>_ m. m, ce_dropInSlot = \<lambda>_ _ m. m\<rparr>"

definition demo_env :: "unit worker_env" where
  "demo_env = \<lparr>we_EnvID = ''local'', we_SlotID = ''s'', we_ch = demo_channel, we_describe = ''local'',
     we_options = \<lparr>co_Bits = [], co_BigSpaceDir = [], co_Charset = [], co_IgnoreCores = [], co_SSHHost = [],
       co_SSHPort = [], co_SSHUser = [], co_BuildID = []\<rparr>,
     we_MaxRetry = 1, we_here = True, we_boxed = False, we_checkDisk = False, we_reserve = [], we_cubrid = [], we_dir = ''d'',
     we_pause = (\<lambda>m. (False, m)), we_now = (\<lambda>_. []), we_took = (\<lambda>_ _. 1), we_late = (\<lambda>_ _. False),
     we_corpus = idle_env\<rparr>"

definition demo_worker :: "(unit, unit) worker" where
  "demo_worker = \<lparr>wk_m = (), wk_buf = [], wk_buffering = False, wk_timeout = False, wk_seen = [],
     wk_sink = sink_Open [] False, wk_queue = New [''s/j/cases/j.sh''] 1, wk_corpus = None, wk_patches = None, wk_logs = None,
     wk_page = [], wk_report = [], wk_plan = [], wk_meter = []\<rparr>"

definition demo_case :: shell_case where
  "demo_case = \<lparr>sc_Path = ''s/j/cases/j.sh'', sc_Dir = ''s/j/cases'', sc_Script = ''j.sh'', sc_Result = ''j.result''\<rparr>"

theorem ticket_is_recorded_once_witness:
  "\<exists>xs success hasCore retrying.
    Complete \<lparr>t_case = ''s/j/cases/j.sh'', t_retry = 0\<rparr> success hasCore (wk_queue demo_worker) =
      (wk_queue (work_on demo_env \<lparr>t_case = ''s/j/cases/j.sh'', t_retry = 0\<rparr> demo_worker), retrying) \<and>
    filter (\<lambda>x. \<not> is_log x) xs =
      (if retrying then [] else [DoCase ''s/j/cases/j.sh'' ''local'' success 1 0, DoFinish ''local'' ''s/j/cases/j.sh''])"
proof -
  have "\<not> wk_buffering demo_worker" "wk_buf demo_worker = []" by (simp_all add: demo_worker_def)
  from ticket_is_recorded_once [OF this, of "\<lparr>t_case = ''s/j/cases/j.sh'', t_retry = 0\<rparr>" demo_env]
  obtain xs success hasCore retrying where
    x: "Complete \<lparr>t_case = ''s/j/cases/j.sh'', t_retry = 0\<rparr> success hasCore (wk_queue demo_worker) =
      (wk_queue (work_on demo_env \<lparr>t_case = ''s/j/cases/j.sh'', t_retry = 0\<rparr> demo_worker), retrying)"
    and f: "filter (\<lambda>x. \<not> is_log x) xs =
      (if retrying then []
       else [DoCase (t_case \<lparr>t_case = ''s/j/cases/j.sh'', t_retry = 0\<rparr>) (we_EnvID demo_env) success (we_MaxRetry demo_env)
               (t_retry \<lparr>t_case = ''s/j/cases/j.sh'', t_retry = 0\<rparr>),
             DoFinish (we_EnvID demo_env) (t_case \<lparr>t_case = ''s/j/cases/j.sh'', t_retry = 0\<rparr>)])"
    by blast
  have "we_EnvID demo_env = ''local''" "we_MaxRetry demo_env = 1" by (simp_all add: demo_env_def)
  with f have "filter (\<lambda>x. \<not> is_log x) xs =
      (if retrying then [] else [DoCase ''s/j/cases/j.sh'' ''local'' success 1 0, DoFinish ''local'' ''s/j/cases/j.sh''])"
    by (simp only: ticket.select_convs)
  with x show ?thesis by blast
qed

lemma demo_trim: "trim_space ''x : OK'' = ''x : OK''"
  by (rule trim_space_trimmed) (simp add: graphic_trimmed graphic_def char_nat_def)

lemma demo_probe: "we_ch demo_env = demo_channel" "we_checkDisk demo_env = False" "we_cubrid demo_env = []"
  "we_late demo_env a b = False"
  by (simp_all add: demo_env_def)

lemma demo_attempt: "probe demo_env script w = (Inr \<lparr>sh_out = ''x : OK'', sh_err = [], sh_exit = 0\<rparr>, w\<lparr>wk_m := ()\<rparr>)"
  "run_checked demo_env script w = (Inr \<lparr>sh_out = ''x : OK'', sh_err = [], sh_exit = 0\<rparr>, w\<lparr>wk_m := ()\<rparr>)"
  by (simp_all add: probe_def run_checked_def runIn_def probeIn_def demo_probe demo_channel_def Check_run_def Failure_def)

lemma demo_passes: "vd_Success (fst (fst (judged demo_env ''p'' demo_case demo_worker)))"
proof -
  have r: "runOne demo_env demo_case w = ((items, con), w') \<Longrightarrow> wk_patches w = None \<Longrightarrow> items = [''x : OK'']" for items con w' and w :: "(unit, unit) worker"
  proof (erule runOne_cases)
    assume "run_script demo_env demo_case (made_ready demo_env w) = ((items, con), w')"
    then show ?thesis
      by (auto simp: run_script_def demo_attempt collect_result_def read_result.simps Let_def demo_trim control)
  qed (use patches.readied [of w demo_env] in \<open>simp_all add: same_patches_def patch_For_def\<close>)
  obtain items con w2 where o: "runOne demo_env demo_case (demo_worker\<lparr>wk_timeout := False\<rparr>) = ((items, con), w2)"
    by (metis surj_pair)
  have "trim_space [] = []" by (rule trim_space_trimmed) (simp add: graphic_trimmed)
  moreover have "wk_patches (demo_worker\<lparr>wk_timeout := False\<rparr>) = None" by (simp add: demo_worker_def)
  ultimately show ?thesis
    using r [OF o] by (simp add: judged_def Let_def o demo_probe Crashes_def late_verdict_def verdictOf_success
      sublist_Cons_right)
qed

theorem passed_case_has_evidence_witness:
  "\<exists>(w1 :: (unit, unit) worker) r u. probe demo_env (RunScript demo_case (we_options demo_env)) w1 = (Inr r, u) \<and>
     \<not> wk_timeout (snd (judged demo_env ''p'' demo_case demo_worker))"
proof -
  let ?J = "judged demo_env ''p'' demo_case demo_worker"
  have j: "?J = ((fst (fst ?J), fst (snd (fst ?J)), snd (snd (fst ?J))), snd ?J)" by simp
  from passed_case_has_evidence [OF j demo_passes] show ?thesis by blast
qed

subsection \<open>A malformed case and the time of the one before\<close>

lemma bad_path_keeps_old_timeout:
  assumes "Split_case (t_case t) = None" "Complete t False False (wk_queue w) = (q, False)"
  shows "\<exists>ev. wk_report (work_on we t w) = wk_report w @ [CaseStop ev] \<and> ev_TimedOut ev = wk_timeout w"
  unfolding work_on_bad [OF assms(1)] finish_ticket_def complete_ticket_def retire_ticket_def record_ticket_def Let_def
  using assms by (auto simp: wlog_def wflush_def to_feedback_def on_page_def retire_case_def Let_def)

end
