(* ===== verification/Shell_Crew.thy ===== *)
theory Shell_Crew
  imports Shell_Worker Dispatch_Run
begin

text \<open>
  The workers of a shell run: \<open>test\<close> in \<open>internal/runner/shellsuite/shell.go\<close> starts one \<open>Worker.Run\<close>
  per slot over one queue, one sink, one corpus and one report. What the workers share is the
  worker state of \<open>Shell_Worker\<close>; the lines a worker holds back, its timeout and the crash reports it has
  seen are its own, on its desk, together with how far its ticket is. A step is a claim, a ticket's attempt, or
  one part of a ticket's end, by any worker; the sink's other writers and the corpus's watcher step between them.
  What the machine answers in a step is arbitrary, since other workers' commands run at the same time.
\<close>

datatype todo = Free | Claimed ticket | Judged ticket case_verdict string int
  | Settling ticket stop_event | Recording ticket stop_event | Left

record desk =
  de_todo :: todo
  de_buf :: "string list"
  de_buffering :: bool
  de_timeout :: bool
  de_seen :: "string list"

record ('m, 'e) shell_run =
  sr_all :: "('m, 'e) worker"
  sr_desks :: "desk list"
  sr_started :: "ticket list"
  sr_decided :: "string list"

definition free_desk :: desk where
  "free_desk = \<lparr>de_todo = Free, de_buf = [], de_buffering = False, de_timeout = False, de_seen = []\<rparr>"

definition run_begins :: "nat \<Rightarrow> ('m, 'e) worker \<Rightarrow> ('m, 'e) shell_run" where
  "run_begins n w = \<lparr>sr_all = w, sr_desks = replicate n free_desk, sr_started = [], sr_decided = []\<rparr>"

text \<open>A worker as \<open>Shell_Worker\<close> has it, and what remains of it when it gets up.\<close>

definition at_desk :: "('m, 'e) shell_run \<Rightarrow> nat \<Rightarrow> ('m, 'e) worker" where
  "at_desk s i = (let d = sr_desks s ! i in
     (sr_all s)\<lparr>wk_buf := de_buf d, wk_buffering := de_buffering d, wk_timeout := de_timeout d, wk_seen := de_seen d\<rparr>)"

definition up_from :: "nat \<Rightarrow> todo \<Rightarrow> ('m, 'e) worker \<Rightarrow> ('m, 'e) shell_run \<Rightarrow> ('m, 'e) shell_run" where
  "up_from i td w s = s\<lparr>sr_all := w, sr_desks := (sr_desks s)[i := \<lparr>de_todo = td, de_buf = wk_buf w,
     de_buffering = wk_buffering w, de_timeout = wk_timeout w, de_seen = wk_seen w\<rparr>]\<rparr>"

definition does :: "nat \<Rightarrow> todo \<Rightarrow> ('m, 'e) shell_run \<Rightarrow> bool" where
  "does i td s \<longleftrightarrow> i < length (sr_desks s) \<and> de_todo (sr_desks s ! i) = td"

definition with_queue :: "'e queue \<Rightarrow> ('m, 'e) worker \<Rightarrow> ('m, 'e) worker" where
  "with_queue q w = w\<lparr>wk_queue := q\<rparr>"

text \<open>The same worker, whatever its machine answers.\<close>

definition same_worker :: "'m worker_env \<Rightarrow> 'm worker_env \<Rightarrow> bool" where
  "same_worker we we' \<longleftrightarrow> we_EnvID we' = we_EnvID we \<and> we_SlotID we' = we_SlotID we \<and> we_MaxRetry we' = we_MaxRetry we"

inductive crew_step :: "(nat \<Rightarrow> 'm worker_env) \<Rightarrow> (nat \<Rightarrow> lane) \<Rightarrow> ('m, 'e) shell_run \<Rightarrow> ('m, 'e) shell_run \<Rightarrow> bool"
  for wes ln where
  crew_claim: "does i Free s \<Longrightarrow> claimOnce e (we_SlotID (wes i)) (ln i) (wk_queue (sr_all s)) = (q', Got t) \<Longrightarrow>
     crew_step wes ln s ((up_from i (Claimed t) (with_queue q' (at_desk s i)) s)\<lparr>sr_started := sr_started s @ [t]\<rparr>)"
| crew_wait: "does i Free s \<Longrightarrow> claimOnce e (we_SlotID (wes i)) (ln i) (wk_queue (sr_all s)) = (q', Again) \<Longrightarrow>
     crew_step wes ln s (up_from i Free (with_queue q' (at_desk s i)) s)"
| crew_leave: "does i Free s \<Longrightarrow> claimOnce e (we_SlotID (wes i)) (ln i) (wk_queue (sr_all s)) = (q', Over) \<Longrightarrow>
     crew_step wes ln s (up_from i Left (with_queue q' (at_desk s i)) s)"
| crew_attempt: "does i (Claimed t) s \<Longrightarrow> same_worker (wes i) we \<Longrightarrow>
     attempt_ticket we t (at_desk s i) = ((v, console, elapsed), w) \<Longrightarrow>
     crew_step wes ln s (up_from i (Judged t v console elapsed) w s)"
| crew_retry: "does i (Judged t v console elapsed) s \<Longrightarrow> same_worker (wes i) we \<Longrightarrow>
     complete_ticket we t v console elapsed (fold (wlog we) (vd_Items v) (at_desk s i)) = (None, w) \<Longrightarrow>
     crew_step wes ln s (up_from i Free w s)"
| crew_verdict: "does i (Judged t v console elapsed) s \<Longrightarrow> same_worker (wes i) we \<Longrightarrow>
     complete_ticket we t v console elapsed (fold (wlog we) (vd_Items v) (at_desk s i)) = (Some ev, w) \<Longrightarrow>
     crew_step wes ln s ((up_from i (Settling t ev) w s)\<lparr>sr_decided := sr_decided s @ [t_case t]\<rparr>)"
| crew_retire: "does i (Settling t ev) s \<Longrightarrow> same_worker (wes i) we \<Longrightarrow>
     crew_step wes ln s (up_from i (Recording t ev) (retire_ticket we t (at_desk s i)) s)"
| crew_record: "does i (Recording t ev) s \<Longrightarrow> same_worker (wes i) we \<Longrightarrow>
     crew_step wes ln s (up_from i Free (record_ticket we t ev (at_desk s i)) s)"
| crew_halt: "crew_step wes ln s (s\<lparr>sr_all := with_queue (Stop (wk_queue (sr_all s))) (sr_all s)\<rparr>)"
| crew_output: "other_output f \<Longrightarrow> crew_step wes ln s (s\<lparr>sr_all := (sr_all s)\<lparr>wk_sink := f (wk_sink (sr_all s))\<rparr>\<rparr>)"
| crew_watch: "crew_step wes ln s (s\<lparr>sr_all := (sr_all s)\<lparr>wk_corpus := map_option (sample (ce :: 'm corpus_env) m) (wk_corpus (sr_all s))\<rparr>\<rparr>)"

inductive crew_reaches :: "(nat \<Rightarrow> 'm worker_env) \<Rightarrow> (nat \<Rightarrow> lane) \<Rightarrow> ('m, 'e) shell_run \<Rightarrow> ('m, 'e) shell_run \<Rightarrow> bool"
  for wes ln s0 where
  crew_here: "crew_reaches wes ln s0 s0"
| crew_more: "crew_reaches wes ln s0 s \<Longrightarrow> crew_step wes ln s t \<Longrightarrow> crew_reaches wes ln s0 t"

text \<open>
  A run's tests: the queue has been made, the files hold the list of the cases, and the corpus was told them; what
  else the workers share is as it may be.
\<close>

definition tests_reach ::
  "(nat \<Rightarrow> 'm worker_env) \<Rightarrow> (nat \<Rightarrow> lane) \<Rightarrow> nat \<Rightarrow> 'e queue \<Rightarrow> sink \<Rightarrow> corpus option \<Rightarrow> ('m, 'e) shell_run \<Rightarrow> bool" where
  "tests_reach wes ln n q files k s \<longleftrightarrow>
     (\<exists>w. crew_reaches wes ln (run_begins n (w\<lparr>wk_queue := q, wk_sink := files, wk_corpus := k\<rparr>)) s)"

text \<open>
  The cases a run is given and the files it starts with: a fresh run writes the list of its cases; one that
  continues another takes what that one's files say is left (\<open>caseList\<close>). The queue has them in the plan's order.
\<close>

inductive run_given :: "(nat \<Rightarrow> 'm worker_env) \<Rightarrow> (nat \<Rightarrow> lane) \<Rightarrow> 'e policy option \<Rightarrow> 'e policy option \<Rightarrow> (string \<times> string) list \<Rightarrow>
    string list \<Rightarrow> string list \<Rightarrow> sink \<Rightarrow> bool"
  for wes ln h sf present all_cases where
  fresh_list: "run_given wes ln h sf present all_cases all_cases (All_cases all_cases (sink_Open present False))"
| taken_up: "run_given wes ln h sf present all_cases cs files \<Longrightarrow> mset qs = mset cs \<Longrightarrow>
     tests_reach wes ln n (Policy h sf (New qs m)) files k s \<Longrightarrow>
     files' = sink_Open (sk_files (wk_sink (sr_all s))) True \<Longrightarrow>
     run_given wes ln h sf present all_cases (Remaining files') files'"

end
