(* ===== verification/Shell_Corpus_Claims.thy ===== *)
theory Shell_Corpus_Claims
  imports Shell_Corpus
begin

text \<open>What a reclaim takes from a tree, and when a directory is reclaimed.\<close>

subsection \<open>What is taken and what is left\<close>

fun find_in :: "(string \<times> ftree) list \<Rightarrow> string list \<Rightarrow> ftree option" where
  "find_in es [] = None"
| "find_in es [n] = map_of es n"
| "find_in es (n # p) = (case map_of es n of Some (Dir l) \<Rightarrow> find_in l p | _ \<Rightarrow> None)"

text \<open>No two entries of a directory have one name.\<close>

fun tidy_corpus :: "(string \<times> ftree) list \<Rightarrow> bool" where
  "tidy_corpus [] = True"
| "tidy_corpus ((n, t) # es) \<longleftrightarrow> n \<notin> fst ` set es \<and> (case t of Dir l \<Rightarrow> tidy_corpus l | File _ \<Rightarrow> True) \<and> tidy_corpus es"

lemma find_step: "p \<noteq> [] \<Longrightarrow> find_in es (n # p) = (case map_of es n of Some (Dir l) \<Rightarrow> find_in l p | _ \<Rightarrow> None)"
  by (cases p) (auto split: option.splits ftree.splits)

lemma find_dropped:
  "map_of (dropAdditions es pr) n =
     (case map_of es n of None \<Rightarrow> None
      | Some t \<Rightarrow> (case map_of pr n of None \<Rightarrow> None
         | Some q \<Rightarrow> Some (case t of Dir l \<Rightarrow> (case q of Dir p \<Rightarrow> Dir (dropAdditions l p) | File _ \<Rightarrow> t) | File _ \<Rightarrow> t)))"
  by (induction es) (auto split: option.splits ftree.splits)

lemma tidy_at: "tidy_corpus es \<Longrightarrow> map_of es n = Some (Dir l) \<Longrightarrow> tidy_corpus l"
  by (induction es) (auto split: if_splits)

lemma gathered:
  "tidy_corpus es \<Longrightarrow> q \<in> set (collectAdditions es pr) \<longleftrightarrow>
     (case q of [] \<Rightarrow> False
      | n # q' \<Rightarrow> (case map_of es n of None \<Rightarrow> False
         | Some t \<Rightarrow> (case map_of pr n of None \<Rightarrow> q' = []
            | Some (File _) \<Rightarrow> False
            | Some (Dir p) \<Rightarrow> (case t of Dir l \<Rightarrow> q' \<in> set (collectAdditions l p) | File _ \<Rightarrow> False))))"
proof (induction es)
  case Nil
  show ?case by (cases q) simp_all
next
  case (Cons e es)
  obtain n t where e: "e = (n, t)" by (cases e)
  have new: "map_of es n = None" using Cons.prems e by (simp add: map_of_eq_None_iff)
  show ?case
  proof (cases q)
    case Nil
    then show ?thesis using Cons e by (auto split: option.splits ftree.splits)
  next
    case q: (Cons m q')
    show ?thesis
    proof (cases "m = n")
      case True
      then show ?thesis using Cons e new q by (auto split: option.splits ftree.splits)
    next
      case False
      then show ?thesis using Cons e q by (auto split: option.splits ftree.splits)
    qed
  qed
qed

lemma Cons_prefix: "prefix q (n # p) \<longleftrightarrow> q = [] \<or> (\<exists>q'. q = n # q' \<and> prefix q' p)"
  by (cases q) auto

lemma nil_not_collected: "tidy_corpus es \<Longrightarrow> [] \<notin> set (collectAdditions es pr)"
  by (simp add: gathered)

lemma files_left:
  "tidy_corpus es \<Longrightarrow> find_in (dropAdditions es pr) p = Some (File b) \<longleftrightarrow>
     find_in es p = Some (File b) \<and> (\<forall>q \<in> set (collectAdditions es pr). \<not> prefix q p)"
proof (induction p arbitrary: es pr)
  case (Cons n p)
  have c: "(\<forall>q \<in> set (collectAdditions es pr). \<not> prefix q (n # p)) \<longleftrightarrow>
      (\<forall>q'. prefix q' p \<longrightarrow> n # q' \<notin> set (collectAdditions es pr))"
    using nil_not_collected [OF Cons.prems] by (auto simp: Cons_prefix)
  show ?case
  proof (cases "map_of es n")
    case None
    then show ?thesis by (cases "p = []") (simp_all add: find_step find_dropped)
  next
    case (Some t)
    show ?thesis
    proof (cases "map_of pr n")
      case None
      then have "n # [] \<in> set (collectAdditions es pr)" using Some by (simp add: gathered [OF Cons.prems])
      then show ?thesis using None Some c by (cases "p = []") (auto simp: find_step find_dropped)
    next
      case pr: (Some u)
      show ?thesis
      proof (cases "\<exists>l r. t = Dir l \<and> u = Dir r")
        case True
        then obtain l r where lr: "t = Dir l" "u = Dir r" by blast
        have "tidy_corpus l" using tidy_at [OF Cons.prems] Some lr by simp
        then have "\<forall>q'. n # q' \<in> set (collectAdditions es pr) \<longleftrightarrow> q' \<in> set (collectAdditions l r)"
          using Some pr lr by (simp add: gathered [OF Cons.prems])
        then show ?thesis
          using Some pr lr c Cons.IH [OF \<open>tidy_corpus l\<close>, of r]
          by (cases "p = []") (auto simp: find_step find_dropped)
      next
        case False
        then have "\<forall>q'. n # q' \<notin> set (collectAdditions es pr)"
          using Some pr by (auto simp: gathered [OF Cons.prems] split: ftree.splits)
        then show ?thesis using False Some pr c
          by (cases "p = []"; cases t; cases u) (simp_all add: find_step find_dropped)
      qed
    qed
  qed
qed simp

lemma collected_is_new:
  "tidy_corpus es \<Longrightarrow> q \<in> set (collectAdditions es pr) \<Longrightarrow> find_in pr q = None \<and> find_in es q \<noteq> None"
proof (induction q arbitrary: es pr)
  case (Cons n q)
  from Cons.prems(2) obtain t where t: "map_of es n = Some t"
    "case map_of pr n of None \<Rightarrow> q = [] | Some (File _) \<Rightarrow> False
      | Some (Dir p) \<Rightarrow> (case t of Dir l \<Rightarrow> q \<in> set (collectAdditions l p) | File _ \<Rightarrow> False)"
    by (simp add: gathered [OF Cons.prems(1)] split: option.splits)
  show ?case
  proof (cases "map_of pr n")
    case None
    then show ?thesis using t by simp
  next
    case (Some u)
    then obtain l p where lp: "t = Dir l" "u = Dir p" "q \<in> set (collectAdditions l p)" using t(2) by (auto split: ftree.splits)
    have "tidy_corpus l" using tidy_at [OF Cons.prems(1)] t(1) lp by simp
    then have "find_in p q = None \<and> find_in l q \<noteq> None" "q \<noteq> []" using Cons.IH lp(3) nil_not_collected by blast+
    then show ?thesis using t(1) Some lp by (simp add: find_step)
  qed
qed (simp add: nil_not_collected)

lemma bytes_balance: "treeBytes (Dir es) = addedBytes es pr + treeBytes (Dir (dropAdditions es pr))"
  by (induction es pr rule: addedBytes.induct) (auto split: option.splits ftree.splits)

lemma nothing_left: "addedBytes (dropAdditions es pr) pr = 0 \<and> collectAdditions (dropAdditions es pr) pr = []"
  by (induction es pr rule: addedBytes.induct) (auto split: option.splits ftree.splits)

text \<open>
  C20: A reclaim takes exactly what the repository does not have: a file stays if and only if no name the
  lanes would remove is on its way, each such name is one the tree has and the repository has not, so
  no file of the repository is touched; the bytes recorded for the directory are the bytes it gives
  back, and a second reclaim finds nothing.
\<close>

theorem reclaim_takes_the_additions:
  assumes "tidy_corpus live"
  shows "(find_in (dropAdditions live pristine) p = Some (File b) \<longleftrightarrow>
      find_in live p = Some (File b) \<and> (\<forall>q \<in> set (collectAdditions live pristine). \<not> prefix q p)) \<and>
    (\<forall>q \<in> set (collectAdditions live pristine). find_in pristine q = None \<and> find_in live q \<noteq> None) \<and>
    treeBytes (Dir live) = addedBytes live pristine + treeBytes (Dir (dropAdditions live pristine)) \<and>
    addedBytes (dropAdditions live pristine) pristine = 0"
  using files_left [OF assms] collected_is_new [OF assms] bytes_balance nothing_left by blast

theorem reclaim_takes_the_additions_witness:
  "let live = [(''a.sh'', File 512), (''db'', Dir [(''vol'', File 4096)])]; pristine = [(''a.sh'', File 512)] in
   find_in (dropAdditions live pristine) [''a.sh''] = Some (File 512) \<and>
   treeBytes (Dir live) = 4096 + treeBytes (Dir (dropAdditions live pristine))"
  using reclaim_takes_the_additions [of "[(''a.sh'', File 512), (''db'', Dir [(''vol'', File 4096)])]" "[(''a.sh'', File 512)]" "[''a.sh'']" 512]
  by simp

subsection \<open>When a directory is reclaimed\<close>

definition case_dir :: "string \<Rightarrow> string option" where
  "case_dir p = map_option sc_Dir (Split_case p)"

definition cases_in :: "string \<Rightarrow> string list \<Rightarrow> int" where
  "cases_in d cs = int (length (filter (\<lambda>p. case_dir p = Some d) cs))"

lemma cases_in_simps [simp]:
  "cases_in d [] = 0" "cases_in d (p # cs) = (if case_dir p = Some d then 1 else 0) + cases_in d cs"
  "cases_in d (cs @ ds) = cases_in d cs + cases_in d ds"
  by (simp_all add: cases_in_def)

lemma cases_in_nonneg: "0 \<le> cases_in d cs" by (simp add: cases_in_def)

text \<open>What is still pending of each directory once some of the planned cases have retired.\<close>

definition pending_is :: "string list \<Rightarrow> string list \<Rightarrow> corpus \<Rightarrow> bool" where
  "pending_is cs ds c \<longleftrightarrow>
     (\<forall>d. map_of (co_pending c) d =
        (let k = cases_in d cs - cases_in d ds in if 0 < k then Some k else None))"

lemma planned: "pending_is as [] c \<Longrightarrow> pending_is (as @ cs) [] (corpus_Plan cs c)"
proof (induction cs arbitrary: as c)
  case (Cons p cs)
  have "cases_in d as + 1 \<noteq> 0" for d using cases_in_nonneg [of d as] by simp
  then have "pending_is (as @ [p]) [] (plan_case p c)"
    using Cons.prems cases_in_nonneg [of _ as]
    by (auto simp: pending_is_def plan_case_def case_dir_def Let_def update_conv order_less_le split: option.splits)
  from Cons.IH [OF this] show ?case by (simp add: corpus_Plan_def)
qed (simp add: corpus_Plan_def)

lemma same_pending [simp]:
  "co_pending (peak_at u c) = co_pending c" "co_pending (gave_back b a c) = co_pending c" "co_pending (held_at_least d mb c) = co_pending c"
  "co_shared (peak_at u c) = co_shared c" "co_shared (gave_back b a c) = co_shared c" "co_shared (held_at_least d mb c) = co_shared c"
  "co_slots (peak_at u c) = co_slots c" "co_slots (gave_back b a c) = co_slots c" "co_slots (held_at_least d mb c) = co_slots c"
  by (simp_all add: peak_at_def gave_back_def held_at_least_def)

definition reachable_slot :: "corpus \<Rightarrow> string \<Rightarrow> bool" where
  "reachable_slot c slot \<longleftrightarrow> co_shared c \<or> map_of (co_slots c) slot \<noteq> None"

lemma Retire_one:
  assumes "Retire ce slot d (Some c) m = (r, Some c', m')"
  shows "r \<longleftrightarrow> (case map_of (co_pending c) d of None \<Rightarrow> False | Some n \<Rightarrow> n \<le> 1 \<and> reachable_slot c slot)"
    "map_of (co_pending c') e =
       (if e = d then (case map_of (co_pending c) d of None \<Rightarrow> None | Some n \<Rightarrow> if 1 < n then Some (n - 1) else None)
        else map_of (co_pending c) e)"
    "co_shared c' = co_shared c" "co_slots c' = co_slots c"
  using assms
  by (auto simp: Retire_def reachable_slot_def Let_def update_conv delete_conv split: option.splits if_splits)

lemma Retire_some: "\<exists>c' m'. Retire ce slot d (Some c) m = (fst (Retire ce slot d (Some c) m), Some c', m')"
  by (auto simp: Retire_def Let_def split: option.splits)

text \<open>The cases that are done, each told to the corpus by the slot it ran on.\<close>

definition retire_done :: "'m corpus_env \<Rightarrow> string \<times> string \<Rightarrow> bool \<times> corpus option \<times> 'm \<Rightarrow> bool \<times> corpus option \<times> 'm" where
  "retire_done ce x s =
     (case x of (slot, p) \<Rightarrow> case s of (_, c, m) \<Rightarrow>
        (case Split_case p of None \<Rightarrow> (False, c, m) | Some k \<Rightarrow> Retire ce slot (sc_Dir k) c m))"

lemma pending_one:
  assumes "pending_is cs ds c" "retire_done ce (slot, p) (r0, Some c, m) = (r, Some c', m')"
  shows "pending_is cs (ds @ [p]) c'" "co_shared c' = co_shared c" "co_slots c' = co_slots c"
    "r \<longleftrightarrow> (\<exists>d. case_dir p = Some d \<and> reachable_slot c slot \<and> cases_in d ds < cases_in d cs \<and> cases_in d cs \<le> cases_in d (ds @ [p]))"
proof -
  show "co_shared c' = co_shared c" "co_slots c' = co_slots c"
    using assms(2) Retire_one(3,4) [of ce slot _ c m r c' m'] by (auto simp: retire_done_def split: option.splits)
  have p: "map_of (co_pending c) d = (if cases_in d ds < cases_in d cs then Some (cases_in d cs - cases_in d ds) else None)" for d
    using assms(1) by (simp add: pending_is_def Let_def)
  show "pending_is cs (ds @ [p]) c'"
    using assms Retire_one(2) [of ce slot _ c m r c' m'] p
    by (auto simp: pending_is_def retire_done_def case_dir_def Let_def split: option.splits)
  show "r \<longleftrightarrow> (\<exists>d. case_dir p = Some d \<and> reachable_slot c slot \<and> cases_in d ds < cases_in d cs \<and> cases_in d cs \<le> cases_in d (ds @ [p]))"
  proof (cases "Split_case p")
    case None
    then show ?thesis using assms(2) by (simp add: retire_done_def case_dir_def)
  next
    case (Some k)
    then have "Retire ce slot (sc_Dir k) (Some c) m = (r, Some c', m')" using assms(2) by (simp add: retire_done_def)
    from Retire_one(1) [OF this] show ?thesis using Some p [of "sc_Dir k"] by (auto simp: case_dir_def split: if_splits)
  qed
qed

lemma retire_done_some: "\<exists>c' m'. retire_done ce x (r0, Some c, m) = (fst (retire_done ce x (r0, Some c, m)), Some c', m')"
  using Retire_some [of ce] by (auto simp: retire_done_def split: option.splits prod.splits)

lemma pending_all:
  "pending_is cs es c \<Longrightarrow> \<exists>r c' m'. fold (retire_done ce) xs (r0, Some c, m) = (r, Some c', m') \<and>
     pending_is cs (es @ map snd xs) c' \<and> co_shared c' = co_shared c \<and> co_slots c' = co_slots c"
proof (induction xs arbitrary: es r0 c m)
  case (Cons x xs)
  obtain slot p where x: "x = (slot, p)" by (cases x)
  obtain r c' m' where s: "retire_done ce x (r0, Some c, m) = (r, Some c', m')" using retire_done_some [of ce x r0 c m] by blast
  have c': "pending_is cs (es @ [p]) c'" "co_shared c' = co_shared c" "co_slots c' = co_slots c"
    using pending_one [OF Cons.prems s [unfolded x]] by blast+
  show ?case using Cons.IH [OF c'(1), of r m'] s x c'(2,3) by simp
qed simp

lemma cases_in_mset: "mset xs \<subseteq># mset ys \<Longrightarrow> cases_in d xs \<le> cases_in d ys"
  by (metis cases_in_def multiset_filter_mono mset_filter of_nat_le_iff size_mset size_mset_mono)

lemma all_counted:
  assumes "mset xs \<subseteq># mset ys" "cases_in d ys \<le> cases_in d xs" "x \<in> set ys" "case_dir x = Some d"
  shows "x \<in> set xs"
proof -
  let ?f = "\<lambda>zs. filter (\<lambda>p. case_dir p = Some d) zs"
  have "mset (?f xs) \<subseteq># mset (?f ys)" using assms(1) by (simp add: multiset_filter_mono)
  moreover have "size (mset (?f ys)) \<le> size (mset (?f xs))" using assms(2) by (simp only: size_mset cases_in_def of_nat_le_iff)
  ultimately have "mset (?f xs) = mset (?f ys)" by (metis mset_subset_size not_le subset_mset.le_imp_less_or_eq)
  then have "set (?f xs) = set (?f ys)" by (metis set_mset_mset)
  then show ?thesis using assms(3,4) by auto
qed

lemma fresh_pending: "co_pending c = [] \<Longrightarrow> pending_is cs [] (corpus_Plan cs c)"
  using planned [of "[]" c cs] by (simp add: pending_is_def)

lemma plan_frame: "co_shared (corpus_Plan cs c) = co_shared c \<and> co_slots (corpus_Plan cs c) = co_slots c"
  unfolding corpus_Plan_def by (induction cs arbitrary: c) (simp_all add: plan_case_def split: option.split)

lemma elsewhere:
  assumes "distinct cs" "mset cs = A + mset D" "x \<in> set cs \<Longrightarrow> x \<in> set D"
  shows "x \<notin># A"
proof
  assume A: "x \<in># A"
  then have "x \<in># mset cs" using assms(2) by simp
  then have "x \<in># mset D" using assms(3) by simp
  with A have "Suc 0 \<le> count A x" "Suc 0 \<le> count (mset D) x" by (simp_all only: count_greater_eq_one_iff [symmetric] One_nat_def)
  then have "2 \<le> count (mset cs) x" using assms(2) by (simp only: count_union)
  moreover have "count (mset cs) x \<le> 1" using assms(1) by (simp add: distinct_count_atmost_1)
  ultimately show False by simp
qed

lemma cases_in_subset:
  assumes "distinct cs" "\<forall>x \<in> set cs. case_dir x = Some d \<longrightarrow> x \<in> set ys"
  shows "cases_in d cs \<le> cases_in d ys"
proof -
  let ?f = "filter (\<lambda>p. case_dir p = Some d)"
  have "length (?f cs) = card (set (?f cs))" using distinct_card [OF distinct_filter [OF assms(1)]] by simp
  also have "\<dots> \<le> card (set (?f ys))" using assms(2) by (intro card_mono) auto
  also have "\<dots> \<le> length (?f ys)" by (rule card_length)
  finally show ?thesis by (simp add: cases_in_def)
qed

end
