(* ===== verification/Shell_Crew_Claims.thy ===== *)
theory Shell_Crew_Claims
  imports Shell_Crew Shell_Worker_Claims Shell_Corpus_Claims Dispatch_Claims
begin

text \<open>
  The workers of a shell run together: their steps are steps of the queue's run, the list of finished
  cases holds what the queue has a verdict for but for the tickets that are just ending, and a directory is
  dropped when all its cases have their verdict.
\<close>

subsection \<open>The run of the queue\<close>

fun phase_of :: "todo \<Rightarrow> phase" where
  "phase_of (Claimed t) = Working t"
| "phase_of (Judged t v console elapsed) = Working t"
| "phase_of Left = Gone"
| "phase_of td = Asking"

definition queue_run :: "('m, 'e) shell_run \<Rightarrow> 'e sys" where
  "queue_run s = \<lparr>sq = wk_queue (sr_all s), crew = map (\<lambda>d. phase_of (de_todo d)) (sr_desks s),
     started = sr_started s, decided = sr_decided s\<rparr>"

lemma queue_run_fields [simp]:
  "sq (queue_run s) = wk_queue (sr_all s)" "crew (queue_run s) = map (\<lambda>d. phase_of (de_todo d)) (sr_desks s)"
  "started (queue_run s) = sr_started s" "decided (queue_run s) = sr_decided s"
  by (simp_all add: queue_run_def)

text \<open>Log lines, and nothing else of what the workers share that counts.\<close>

definition logs_on :: "sink \<Rightarrow> sink \<Rightarrow> bool" where
  "logs_on a b \<longleftrightarrow> (\<exists>xs. b = fold do_op xs a \<and> list_all is_log xs)"

lemma logs_same: "logs_on a a"
  by (auto simp: logs_on_def intro: exI [of _ "[]"])

lemma logs_then: "logs_on a b \<Longrightarrow> logs_on b c \<Longrightarrow> logs_on a c"
  unfolding logs_on_def by (metis fold_append comp_apply list_all_append)

lemma logs_lines: "logs_on a (WorkerLines e ls a)" "logs_on a (Worker e l a)"
  by (auto simp: logs_on_def Worker_def intro!: exI [of _ "[DoWorker e _]"])

definition only_logs :: "('m, 'e) worker \<Rightarrow> ('m, 'e) worker \<Rightarrow> bool" where
  "only_logs w w' \<longleftrightarrow> wk_queue w' = wk_queue w \<and> wk_corpus w' = wk_corpus w \<and> logs_on (wk_sink w) (wk_sink w')"

interpretation logs: judging_frame only_logs
  by unfold_locales (auto simp: only_logs_def on_page_def wlog_def logs_same logs_lines intro: logs_then)

lemma only_logs_opened: "only_logs w (ticket_opened we p c w)"
  by (simp add: ticket_opened_def only_logs_def wlog_def whold_def on_page_def to_feedback_def logs_same)

lemma flush_logs: "only_logs w (wflush we w)"
  by (simp add: wflush_def only_logs_def logs_same logs_lines Let_def)

lemma ended_logs: "only_logs w (wflush we (wlog we [] w))"
  by (rule logs.joined [OF logs.logged flush_logs])

lemma ended_sink: "wk_sink w = a \<Longrightarrow> logs_on a (wk_sink (wflush we (wlog we [] w)))"
  using ended_logs [of w we] by (simp add: only_logs_def)

lemma attempt_effect: "attempt_ticket we t w = (r, u) \<Longrightarrow> only_logs w u"
  using logs.attempt_good [of t _ we w r u] logs.joined [OF only_logs_opened]
  by (cases "Split_case (t_case t)") (auto simp: attempt_ticket_def logs.same)

lemma complete_effect:
  assumes "complete_ticket we t v console elapsed (fold (wlog we) (vd_Items v) w) = (x, u)"
  shows "Complete t (vd_Success v) (vd_HasCore v) (wk_queue w) = (wk_queue u, x = None)" "wk_corpus u = wk_corpus w"
    "logs_on (wk_sink w) (wk_sink u)"
proof -
  define w1 where "w1 = fold (wlog we) (vd_Items v) w"
  have w1: "only_logs w w1" unfolding w1_def by (rule logs.folded) (rule logs.logged)
  obtain q retrying where q: "Complete t (vd_Success v) (vd_HasCore v) (wk_queue w1) = (q, retrying)" by (metis surj_pair)
  have "wk_queue u = q \<and> (x = None) = retrying \<and> wk_corpus u = wk_corpus w1 \<and> logs_on (wk_sink w1) (wk_sink u)"
    using q assms [folded w1_def]
  proof (cases rule: completion)
    case (again ev m)
    have "only_logs (to_feedback (CaseStopRetry ev) (w1\<lparr>wk_queue := q, wk_meter := m\<rparr>)) u"
      unfolding again(3) by (rule logs.joined [OF logs.logged flush_logs])
    then show ?thesis using again by (simp add: only_logs_def to_feedback_def)
  qed (simp add: logs_same)
  with w1 q show "Complete t (vd_Success v) (vd_HasCore v) (wk_queue w) = (wk_queue u, x = None)" "wk_corpus u = wk_corpus w"
    "logs_on (wk_sink w) (wk_sink u)" by (auto simp: only_logs_def intro: logs_then)
qed

lemma retire_effect:
  assumes "retire_done (we_corpus we) (we_SlotID we, t_case t) (False, wk_corpus w, wk_m w) = (r, k, m)"
  shows "wk_queue (retire_ticket we t w) = wk_queue w" "wk_corpus (retire_ticket we t w) = k"
    "logs_on (wk_sink w) (wk_sink (retire_ticket we t w))"
proof -
  let ?w = "on_page (Live (t_case t) []) w"
  have "only_logs (?w\<lparr>wk_corpus := k, wk_m := m\<rparr>) (retire_case we (t_case t) ?w)" if "Split_case (t_case t) = Some c" for c
    using assms that by (intro logs.retiring [OF that, where r = r]) (simp add: retire_done_def on_page_def)
  then show "wk_queue (retire_ticket we t w) = wk_queue w" "wk_corpus (retire_ticket we t w) = k"
    "logs_on (wk_sink w) (wk_sink (retire_ticket we t w))"
    using assms by (cases "Split_case (t_case t)";
      simp add: retire_ticket_def retire_case_def only_logs_def on_page_def logs_same retire_done_def)+
qed

lemma record_effect:
  "wk_queue (record_ticket we t ev w) = wk_queue w" "wk_corpus (record_ticket we t ev w) = wk_corpus w"
  "logs_on (Finish_case (we_EnvID we) (t_case t)
     (TestCase (t_case t) (we_EnvID we) (ev_Success ev) (we_MaxRetry we) (t_retry t) (wk_sink w))) (wk_sink (record_ticket we t ev w))"
  by (simp_all add: record_ticket_def ended_logs [unfolded only_logs_def] to_feedback_def on_page_def Let_def)
    (rule ended_sink; simp)

lemma desk_fields [simp]:
  "wk_queue (at_desk s i) = wk_queue (sr_all s)" "wk_corpus (at_desk s i) = wk_corpus (sr_all s)"
  "wk_sink (at_desk s i) = wk_sink (sr_all s)" "wk_m (at_desk s i) = wk_m (sr_all s)"
  by (simp_all add: at_desk_def Let_def)

lemma up_fields [simp]:
  "sr_all (up_from i td w s) = w" "sr_started (up_from i td w s) = sr_started s" "sr_decided (up_from i td w s) = sr_decided s"
  "map (\<lambda>d. f (de_todo d)) (sr_desks (up_from i td w s)) = (map (\<lambda>d. f (de_todo d)) (sr_desks s))[i := f td]"
  "length (sr_desks (up_from i td w s)) = length (sr_desks s)"
  by (simp_all add: up_from_def map_update)

lemma with_queue_fields [simp]:
  "wk_queue (with_queue q w) = q" "wk_corpus (with_queue q w) = wk_corpus w" "wk_sink (with_queue q w) = wk_sink w"
  by (simp_all add: with_queue_def)

lemma does_phase: "does i td s \<Longrightarrow> i < length (crew (queue_run s)) \<and> crew (queue_run s) ! i = phase_of td"
  by (auto simp: does_def)

lemma stays_at: "does i td s \<Longrightarrow> (crew (queue_run s))[i := phase_of td] = crew (queue_run s)"
  using does_phase [of i td s] by (metis list_update_id)

text \<open>A step of a worker is a step of the queue's run, or nothing to the queue.\<close>

lemma crew_step_queue:
  assumes "crew_step wes ln s s'"
  shows "queue_run s' = queue_run s \<or> run_step (\<lambda>i. we_SlotID (wes i)) ln (queue_run s) (queue_run s')"
  using assms
proof (cases rule: crew_step.cases)
  case (crew_claim i e q' t)
  then have "run_step (\<lambda>i. we_SlotID (wes i)) ln (queue_run s) ((queue_run s)\<lparr>sq := q', crew := (crew (queue_run s))[i := Working t],
      started := started (queue_run s) @ [t]\<rparr>)"
    using does_phase [OF crew_claim(2)] by (intro run_step.claim) simp_all
  then show ?thesis by (simp add: queue_run_def crew_claim(1))
next
  case (crew_wait i e q')
  then have "run_step (\<lambda>i. we_SlotID (wes i)) ln (queue_run s) ((queue_run s)\<lparr>sq := q'\<rparr>)"
    using does_phase [OF crew_wait(2)] by (intro run_step.wait) simp_all
  then show ?thesis using stays_at [OF crew_wait(2)] by (simp add: queue_run_def crew_wait(1))
next
  case (crew_leave i e q')
  then have "run_step (\<lambda>i. we_SlotID (wes i)) ln (queue_run s) ((queue_run s)\<lparr>sq := q', crew := (crew (queue_run s))[i := Gone]\<rparr>)"
    using does_phase [OF crew_leave(2)] by (intro run_step.leave) simp_all
  then show ?thesis by (simp add: queue_run_def crew_leave(1))
next
  case (crew_attempt i t we v console elapsed w)
  then show ?thesis using attempt_effect [OF crew_attempt(4)] stays_at [OF crew_attempt(2)]
    by (simp add: queue_run_def only_logs_def)
next
  case (crew_retry i t v console elapsed we w)
  then have "run_step (\<lambda>i. we_SlotID (wes i)) ln (queue_run s) ((queue_run s)\<lparr>sq := wk_queue w, crew := (crew (queue_run s))[i := Asking]\<rparr>)"
    using does_phase [OF crew_retry(2)] complete_effect(1) [OF crew_retry(4)] by (intro run_step.retry) simp_all
  then show ?thesis by (simp add: queue_run_def crew_retry(1))
next
  case (crew_verdict i t v console elapsed we ev w)
  then have "run_step (\<lambda>i. we_SlotID (wes i)) ln (queue_run s) ((queue_run s)\<lparr>sq := wk_queue w, crew := (crew (queue_run s))[i := Asking],
      decided := decided (queue_run s) @ [t_case t]\<rparr>)"
    using does_phase [OF crew_verdict(2)] complete_effect(1) [OF crew_verdict(4)] by (intro run_step.verdict) simp_all
  then show ?thesis by (simp add: queue_run_def crew_verdict(1))
next
  case (crew_retire i t ev we)
  obtain r k m where "retire_done (we_corpus we) (we_SlotID we, t_case t) (False, wk_corpus (at_desk s i), wk_m (at_desk s i)) = (r, k, m)"
    by (metis surj_pair)
  from retire_effect(1) [OF this] show ?thesis using stays_at [OF crew_retire(2)] by (simp add: queue_run_def crew_retire(1))
next
  case (crew_record i t ev we)
  then show ?thesis using stays_at [OF crew_record(2)] by (simp add: queue_run_def record_effect)
next
  case crew_halt
  have "run_step (\<lambda>i. we_SlotID (wes i)) ln (queue_run s) ((queue_run s)\<lparr>sq := Stop (sq (queue_run s))\<rparr>)" by (rule run_step.halt)
  then show ?thesis by (simp add: queue_run_def crew_halt)
next
  case (crew_output f)
  then show ?thesis by (simp add: queue_run_def)
next
  case (crew_watch ce m)
  then show ?thesis by (simp add: queue_run_def)
qed

lemma crew_queue:
  "crew_reaches wes ln s0 s \<Longrightarrow> reaches (\<lambda>i. we_SlotID (wes i)) ln (queue_run s0) (queue_run s)"
proof (induction rule: crew_reaches.induct)
  case (crew_more s t)
  then show ?case using crew_step_queue [OF crew_more(2)] by (auto intro: reaches.more)
qed (rule reaches.here)

lemma begins_fresh: "queue_run (run_begins n (w\<lparr>wk_queue := q, wk_sink := files, wk_corpus := k\<rparr>)) = fresh q n"
  by (simp add: queue_run_def run_begins_def fresh_def free_desk_def)

lemma tests_queue:
  "tests_reach wes ln n (Policy h sf (New qs m)) files k s \<Longrightarrow> shared_run (\<lambda>i. we_SlotID (wes i)) ln qs m h sf n (queue_run s)"
  unfolding tests_reach_def shared_run_def using crew_queue begins_fresh by metis

subsection \<open>What the files and the corpus were told\<close>

text \<open>The tickets that have their verdict and are not told to the corpus, or not entered in the files.\<close>

fun untold :: "todo \<Rightarrow> string multiset" where
  "untold (Settling t ev) = {# t_case t #}"
| "untold td = {#}"

fun unwritten :: "todo \<Rightarrow> string multiset" where
  "unwritten (Settling t ev) = {# t_case t #}"
| "unwritten (Recording t ev) = {# t_case t #}"
| "unwritten td = {#}"

definition on_desks :: "(todo \<Rightarrow> string multiset) \<Rightarrow> ('m, 'e) shell_run \<Rightarrow> string multiset" where
  "on_desks g s = sum_list (map (\<lambda>d. g (de_todo d)) (sr_desks s))"

lemma desks_update: "does i td s \<Longrightarrow> on_desks g (up_from i td' w s) + g td = on_desks g s + g td'"
  using sum_update [of i "map (\<lambda>d. g (de_todo d)) (sr_desks s)" "g td'"] by (simp add: does_def on_desks_def)

lemma desks_same [simp]:
  "on_desks g (s\<lparr>sr_all := w\<rparr>) = on_desks g s" "on_desks g (s\<lparr>sr_started := x\<rparr>) = on_desks g s"
  "on_desks g (s\<lparr>sr_decided := y\<rparr>) = on_desks g s"
  by (simp_all add: on_desks_def)

text \<open>Every verdict is entered in the files, or its ticket is just ending.\<close>

definition entered :: "sink \<Rightarrow> ('m, 'e) shell_run \<Rightarrow> bool" where
  "entered files s \<longleftrightarrow> (\<exists>F. has_entered files F (wk_sink (sr_all s)) \<and> mset (sr_decided s) = mset F + on_desks unwritten s)"

lemma log_plain: "is_log x \<Longrightarrow> op_plain x \<and> op_finishes x = {}"
  by (auto simp: is_log_def op_plain_def op_finishes_def)

lemma logs_entries: "logs_on a b \<Longrightarrow> same_entries a b"
proof -
  have "list_all is_log xs \<Longrightarrow> same_entries a (fold do_op xs a)" for xs
  proof (induction xs arbitrary: a)
    case (Cons x xs)
    then show ?case using op_entries [of x a] log_plain [of x] by (auto simp: same_entries_def)
  qed (simp add: same_entries_def)
  then show "logs_on a b \<Longrightarrow> same_entries a b" by (auto simp: logs_on_def)
qed

lemma record_entries:
  assumes "has_entered files F (wk_sink w)" "plain_case (t_case t)"
  shows "has_entered files (t_case t # F) (wk_sink (record_ticket we t ev w))"
proof -
  define a where "a = TestCase (t_case t) (we_EnvID we) (ev_Success ev) (we_MaxRetry we) (t_retry t) (wk_sink w)"
  have "same_entries (wk_sink w) a"
    using op_entries [of "DoCase (t_case t) (we_EnvID we) (ev_Success ev) (we_MaxRetry we) (t_retry t)"]
    by (simp add: a_def op_finishes_def)
  then have "has_entered files (t_case t # F) (Finish_case (we_EnvID we) (t_case t) a)"
    using entered_one [OF entered_same [OF assms(1)] assms(2)] by blast
  then show ?thesis by (rule entered_same) (rule logs_entries [OF record_effect(3) [of we t ev w, folded a_def]])
qed

lemma entered_step:
  assumes "crew_step wes ln s s'" "entered files s" "\<forall>c \<in> set (sr_decided s). plain_case c"
  shows "entered files s'"
proof -
  obtain F where F: "has_entered files F (wk_sink (sr_all s))" "mset (sr_decided s) = mset F + on_desks unwritten s"
    using assms(2) by (auto simp: entered_def)
  have same: "entered files s'" if "same_entries (wk_sink (sr_all s)) (wk_sink (sr_all s'))" "mset (sr_decided s') + on_desks unwritten s = mset (sr_decided s) + on_desks unwritten s'"
    using F(2) that entered_same [OF F(1)] unfolding entered_def by (intro exI [of _ F]) auto
  from assms(1) show ?thesis
  proof (cases rule: crew_step.cases)
    case (crew_claim i e q' t)
    then show ?thesis using desks_update [OF crew_claim(2), of unwritten] by (intro same) (simp_all add: same_entries_def)
  next
    case (crew_wait i e q')
    then show ?thesis using desks_update [OF crew_wait(2), of unwritten] by (intro same) (simp_all add: same_entries_def)
  next
    case (crew_leave i e q')
    then show ?thesis using desks_update [OF crew_leave(2), of unwritten] by (intro same) (simp_all add: same_entries_def)
  next
    case (crew_attempt i t we v console elapsed w)
    then show ?thesis using attempt_effect [OF crew_attempt(4)] desks_update [OF crew_attempt(2), of unwritten]
      by (intro same) (simp_all add: only_logs_def logs_entries)
  next
    case (crew_retry i t v console elapsed we w)
    then show ?thesis using complete_effect(3) [OF crew_retry(4)] desks_update [OF crew_retry(2), of unwritten]
      by (intro same) (simp_all add: logs_entries)
  next
    case (crew_verdict i t v console elapsed we ev w)
    then show ?thesis using complete_effect(3) [OF crew_verdict(4)] desks_update [OF crew_verdict(2), of unwritten]
      by (intro same) (simp_all add: logs_entries)
  next
    case (crew_retire i t ev we)
    obtain r k m where "retire_done (we_corpus we) (we_SlotID we, t_case t) (False, wk_corpus (at_desk s i), wk_m (at_desk s i)) = (r, k, m)"
      by (metis surj_pair)
    from retire_effect(3) [OF this] show ?thesis using desks_update [OF crew_retire(2), of unwritten "Recording t ev"]
      by (intro same) (simp_all add: crew_retire(1) logs_entries)
  next
    case (crew_record i t ev we)
    have d: "on_desks unwritten s = add_mset (t_case t) (on_desks unwritten s')"
      using desks_update [OF crew_record(2), of unwritten] by (simp add: crew_record(1))
    then have "plain_case (t_case t)" using F(2) assms(3) by (metis mset_add set_mset_mset union_iff union_single_eq_member)
    then show ?thesis
      using record_entries [of files F "at_desk s i" t we ev] F d
      unfolding entered_def by (intro exI [of _ "t_case t # F"]) (simp add: crew_record(1))
  next
    case crew_halt
    then show ?thesis by (intro same) (simp_all add: same_entries_def)
  next
    case (crew_output f)
    then show ?thesis by (intro same) (simp_all add: output_entries)
  next
    case (crew_watch ce m)
    then show ?thesis by (intro same) (simp_all add: same_entries_def)
  qed
qed

text \<open>The cases the corpus was told of.\<close>

definition corpus_told :: "string list \<Rightarrow> ('m, 'e) shell_run \<Rightarrow> bool" where
  "corpus_told cs s \<longleftrightarrow> (\<exists>T c. wk_corpus (sr_all s) = Some c \<and> co_shared c \<and> pending_is cs T c \<and>
     mset (sr_decided s) = mset T + on_desks untold s)"

lemma sample_pending: "co_pending (sample ce m c) = co_pending c \<and> co_shared (sample ce m c) = co_shared c"
proof -
  have "co_pending (fold (\<lambda>dir c. let mb = g dir in if 0 < mb then held_at_least dir mb c else c) ds c) = co_pending c \<and>
     co_shared (fold (\<lambda>dir c. let mb = g dir in if 0 < mb then held_at_least dir mb c else c) ds c) = co_shared c" for g ds c
    by (induction ds arbitrary: c) (simp_all add: Let_def)
  then show ?thesis by (simp add: sample_def Let_def)
qed

lemma corpus_told_step:
  assumes "crew_step wes ln s s'" "corpus_told cs s"
  shows "corpus_told cs s'"
proof -
  obtain T c where T: "wk_corpus (sr_all s) = Some c" "co_shared c" "pending_is cs T c" "mset (sr_decided s) = mset T + on_desks untold s"
    using assms(2) by (auto simp: corpus_told_def)
  have same: "corpus_told cs s'" if "wk_corpus (sr_all s') = wk_corpus (sr_all s)" "mset (sr_decided s') + on_desks untold s = mset (sr_decided s) + on_desks untold s'"
    using T that unfolding corpus_told_def by (intro exI [of _ T] exI [of _ c]) auto
  from assms(1) show ?thesis
  proof (cases rule: crew_step.cases)
    case (crew_claim i e q' t)
    then show ?thesis using desks_update [OF crew_claim(2), of untold] by (intro same) simp_all
  next
    case (crew_wait i e q')
    then show ?thesis using desks_update [OF crew_wait(2), of untold] by (intro same) simp_all
  next
    case (crew_leave i e q')
    then show ?thesis using desks_update [OF crew_leave(2), of untold] by (intro same) simp_all
  next
    case (crew_attempt i t we v console elapsed w)
    then show ?thesis using attempt_effect [OF crew_attempt(4)] desks_update [OF crew_attempt(2), of untold]
      by (intro same) (simp_all add: only_logs_def)
  next
    case (crew_retry i t v console elapsed we w)
    then show ?thesis using complete_effect(2) [OF crew_retry(4)] desks_update [OF crew_retry(2), of untold]
      by (intro same) simp_all
  next
    case (crew_verdict i t v console elapsed we ev w)
    then show ?thesis using complete_effect(2) [OF crew_verdict(4)] desks_update [OF crew_verdict(2), of untold]
      by (intro same) simp_all
  next
    case (crew_retire i t ev we)
    obtain r k m where r: "retire_done (we_corpus we) (we_SlotID we, t_case t) (False, Some c, wk_m (sr_all s)) = (r, Some k, m)"
      using retire_done_some [of "we_corpus we" "(we_SlotID we, t_case t)" False c "wk_m (sr_all s)"] by blast
    have k: "wk_corpus (sr_all s') = Some k" using retire_effect(2) [of we t "at_desk s i" r "Some k" m] r T(1) by (simp add: crew_retire(1))
    have "on_desks untold s = add_mset (t_case t) (on_desks untold s')"
      using desks_update [OF crew_retire(2), of untold] by (simp add: crew_retire(1))
    then show ?thesis using k T(2,4) pending_one(1,2) [OF T(3) r] unfolding corpus_told_def
      by (intro exI [of _ "T @ [t_case t]"] exI [of _ k]) (simp add: crew_retire(1))
  next
    case (crew_record i t ev we)
    then show ?thesis using desks_update [OF crew_record(2), of untold] by (intro same) (simp_all add: record_effect)
  next
    case crew_halt
    then show ?thesis by (intro same) simp_all
  next
    case (crew_output f)
    then show ?thesis by (intro same) simp_all
  next
    case (crew_watch ce m)
    then show ?thesis using T sample_pending [of ce m c] unfolding corpus_told_def
      by (intro exI [of _ T] exI [of _ "sample ce m c"]) (simp add: pending_is_def)
  qed
qed

text \<open>The cases a worker has on its desk, before and after their verdict.\<close>

fun in_hand :: "todo \<Rightarrow> string multiset" where
  "in_hand (Claimed t) = {# t_case t #}"
| "in_hand (Judged t v console elapsed) = {# t_case t #}"
| "in_hand td = {#}"

definition on_the_desks :: "('m, 'e) shell_run \<Rightarrow> string multiset" where
  "on_the_desks s = on_desks in_hand s + on_desks unwritten s"

lemma flying_in_hand: "image_mset t_case (flying (crew (queue_run s))) = on_desks in_hand s"
proof -
  have "image_mset t_case (flying (map (\<lambda>d. phase_of (de_todo d)) ds)) = sum_list (map (\<lambda>d. in_hand (de_todo d)) ds)" for ds
  proof (induction ds)
    case (Cons d ds)
    have "image_mset t_case (tick (phase_of (de_todo d))) = in_hand (de_todo d)" by (cases "de_todo d") simp_all
    then show ?case using Cons by (simp add: flying_def)
  qed (simp add: flying_def)
  then show ?thesis by (simp add: on_desks_def)
qed

lemma tests_account:
  assumes "tests_reach wes ln n (Policy h sf (New qs m)) files k s" "distinct cs" "mset qs = mset cs"
  shows "mset cs = mset (waiting (wk_queue (sr_all s))) + mset (retry_queue (wk_queue (sr_all s))) + on_desks in_hand s + mset (sr_decided s)"
proof -
  have "distinct qs" using assms(2,3) mset_eq_imp_distinct_iff by blast
  from shared_run_inv [OF tests_queue [OF assms(1)] this]
  show ?thesis using assms(3) by (simp add: run_inv_def account_def places_def flying_in_hand [symmetric])
qed

lemma begins_bare: "on_desks untold (run_begins n w) = {#}" "on_desks unwritten (run_begins n w) = {#}"
  "sr_decided (run_begins n w) = []" "sr_all (run_begins n w) = w"
  by (induction n) (simp_all add: on_desks_def run_begins_def free_desk_def)

lemma tests_entered:
  assumes "tests_reach wes ln n (Policy h sf (New qs m)) files k s" "distinct cs" "mset qs = mset cs"
    and "\<forall>c \<in> set cs. plain_case c" "sink_sound files"
  shows "entered files s"
proof -
  obtain w where w: "crew_reaches wes ln (run_begins n (w\<lparr>wk_queue := Policy h sf (New qs m), wk_sink := files, wk_corpus := k\<rparr>)) s"
    using assms(1) by (auto simp: tests_reach_def)
  have dec: "\<forall>c \<in> set (sr_decided t). plain_case c"
    if "crew_reaches wes ln (run_begins n (w\<lparr>wk_queue := Policy h sf (New qs m), wk_sink := files, wk_corpus := k\<rparr>)) t" for t
  proof -
    have "tests_reach wes ln n (Policy h sf (New qs m)) files k t" using that by (auto simp: tests_reach_def)
    from tests_account [OF this assms(2,3)] have "set (sr_decided t) \<subseteq> set cs" by (metis mset_subset_eq_add_right set_mset_mono set_mset_mset)
    then show ?thesis using assms(4) by blast
  qed
  from w show ?thesis
  proof (induction rule: crew_reaches.induct)
    case crew_here
    then show ?case using entered_nothing [OF assms(5)] by (auto simp: entered_def begins_bare intro!: exI [of _ "[]"])
  next
    case (crew_more s t)
    then show ?case using entered_step dec by blast
  qed
qed

lemma tests_told:
  assumes "tests_reach wes ln n q files (Some (corpus_Plan cs c0)) s" "co_pending c0 = []" "co_shared c0"
  shows "corpus_told cs s"
proof -
  obtain w where w: "crew_reaches wes ln (run_begins n (w\<lparr>wk_queue := q, wk_sink := files, wk_corpus := Some (corpus_Plan cs c0)\<rparr>)) s"
    using assms(1) by (auto simp: tests_reach_def)
  then show ?thesis
  proof (induction rule: crew_reaches.induct)
    case crew_here
    then show ?case using fresh_pending [OF assms(2)] plan_frame [of cs c0] assms(3)
      by (auto simp: corpus_told_def begins_bare intro!: exI [of _ "[]"])
  next
    case (crew_more s t)
    then show ?case using corpus_told_step by blast
  qed
qed

subsection \<open>A run and the one that continues it\<close>

lemma left_over:
  assumes "tests_reach wes ln n (Policy h sf (New qs m)) files k s" "distinct cs" "mset qs = mset cs"
    and "\<forall>c \<in> set cs. plain_case c" "sink_sound files" "Remaining files = cs"
    and "files' = sink_Open (sk_files (wk_sink (sr_all s))) True"
  obtains F where "sink_sound files'" "Remaining files' = filter (\<lambda>c. c \<notin> set F) cs" "mset (sr_decided s) = mset F + on_desks unwritten s"
  using tests_entered [OF assms(1-5)] entered_left assms(5-7) that unfolding entered_def by blast

lemma given_lists:
  assumes "run_given wes ln h sf present all_cases cs files" "no_journal present" "distinct all_cases" "\<forall>c \<in> set all_cases. plain_case c"
  shows "sink_sound files \<and> Remaining files = cs \<and> distinct cs \<and> (\<forall>c \<in> set cs. plain_case c)"
  using assms(1)
proof (induction rule: run_given.induct)
  case fresh_list
  then show ?case using fresh_lists [OF assms(2,4)] assms(3,4) by simp
next
  case (taken_up cs files qs n m k s files')
  then obtain F where "sink_sound files'" "Remaining files' = filter (\<lambda>c. c \<notin> set F) cs"
    using left_over [OF taken_up(3) _ taken_up(2) _ _ _ taken_up(4)] by blast
  then show ?case using taken_up.IH by simp
qed

subsection \<open>A ticket on its way\<close>

lemma at_up [simp]: "i < length (sr_desks s) \<Longrightarrow> at_desk (up_from i td w s) i = w"
  by (simp add: at_desk_def up_from_def)

lemma does_up [simp]: "does i td s \<Longrightarrow> does i td' (up_from i td' w s)"
  by (simp add: does_def up_from_def)

lemma does_more [simp]: "does i td (s\<lparr>sr_started := x\<rparr>) = does i td s" "does i td (s\<lparr>sr_decided := y\<rparr>) = does i td s"
  "at_desk (s\<lparr>sr_started := x\<rparr>) i = at_desk s i" "at_desk (s\<lparr>sr_decided := y\<rparr>) i = at_desk s i"
  by (simp_all add: does_def at_desk_def)

lemma does_seat: "does i td s \<Longrightarrow> i < length (sr_desks s)"
  by (simp add: does_def)

text \<open>A worker nobody comes between does what \<open>work_on\<close> does.\<close>

lemma crew_works:
  assumes "crew_reaches wes ln s0 s" "does i (Claimed t) s" "same_worker (wes i) we"
  shows "\<exists>s'. crew_reaches wes ln s0 s' \<and> sr_all s' = work_on we t (at_desk s i) \<and> does i Free s'"
proof -
  obtain v console elapsed w where a: "attempt_ticket we t (at_desk s i) = ((v, console, elapsed), w)" by (metis surj_pair)
  define s1 where "s1 = up_from i (Judged t v console elapsed) w s"
  have s1: "crew_reaches wes ln s0 s1" "does i (Judged t v console elapsed) s1" "at_desk s1 i = w"
    using crew_more [OF assms(1) crew_attempt [where wes = wes and ln = ln, OF assms(2,3) a]] assms(2) does_seat [OF assms(2)] by (simp_all add: s1_def)
  obtain x w2 where c: "complete_ticket we t v console elapsed (fold (wlog we) (vd_Items v) (at_desk s1 i)) = (x, w2)" by (metis surj_pair)
  then have f: "work_on we t (at_desk s i) = (case x of None \<Rightarrow> w2 | Some ev \<Rightarrow> record_ticket we t ev (retire_ticket we t w2))"
    by (simp add: work_on_def a finish_ticket_def s1(3))
  show ?thesis
  proof (cases x)
    case None
    then show ?thesis using crew_more [OF s1(1) crew_retry [where wes = wes and ln = ln, OF s1(2) assms(3) c [unfolded None]]] does_up [OF s1(2)] f by auto
  next
    case (Some ev)
    define s2 where "s2 = (up_from i (Settling t ev) w2 s1)\<lparr>sr_decided := sr_decided s1 @ [t_case t]\<rparr>"
    have s2: "crew_reaches wes ln s0 s2" "does i (Settling t ev) s2" "at_desk s2 i = w2"
      using crew_more [OF s1(1) crew_verdict [where wes = wes and ln = ln, OF s1(2) assms(3) c [unfolded Some]]] s1(2) does_seat [OF s1(2)] by (simp_all add: s2_def)
    define s3 where "s3 = up_from i (Recording t ev) (retire_ticket we t (at_desk s2 i)) s2"
    have s3: "crew_reaches wes ln s0 s3" "does i (Recording t ev) s3" "at_desk s3 i = retire_ticket we t w2"
      using crew_more [OF s2(1) crew_retire [where wes = wes and ln = ln, OF s2(2) assms(3)]] s2 does_seat [OF s2(2)] by (simp_all add: s3_def)
    show ?thesis using crew_more [OF s3(1) crew_record [where wes = wes and ln = ln, OF s3(2) assms(3)]] does_up [OF s3(2)] f s3(3) Some by auto
  qed
qed

lemma same_self: "same_worker we we"
  by (simp add: same_worker_def)

text \<open>A ticket up to its verdict, when the queue takes no ticket back.\<close>

lemma to_the_verdict:
  assumes "crew_reaches wes ln s0 s" "does i Free s" "claimOnce e (we_SlotID (wes i)) (ln i) (wk_queue (sr_all s)) = (q', Got t)"
    and "\<And>a b. Complete t a b q' = (q2, False)"
  shows "\<exists>s' ev. crew_reaches wes ln s0 s' \<and> does i (Settling t ev) s' \<and> wk_queue (sr_all s') = q2 \<and> sr_decided s' = sr_decided s @ [t_case t] \<and>
    length (sr_desks s') = length (sr_desks s)"
proof -
  define s1 where "s1 = (up_from i (Claimed t) (with_queue q' (at_desk s i)) s)\<lparr>sr_started := sr_started s @ [t]\<rparr>"
  have s1: "crew_reaches wes ln s0 s1" "does i (Claimed t) s1" "wk_queue (sr_all s1) = q'" "sr_decided s1 = sr_decided s"
    "length (sr_desks s1) = length (sr_desks s)"
    using crew_more [OF assms(1) crew_claim [where wes = wes and ln = ln, OF assms(2,3)]] assms(2) by (simp_all add: s1_def)
  obtain v console elapsed w where a: "attempt_ticket (wes i) t (at_desk s1 i) = ((v, console, elapsed), w)" by (metis surj_pair)
  define s2 where "s2 = up_from i (Judged t v console elapsed) w s1"
  have s2: "crew_reaches wes ln s0 s2" "does i (Judged t v console elapsed) s2" "wk_queue (at_desk s2 i) = q'" "sr_decided s2 = sr_decided s"
    "length (sr_desks s2) = length (sr_desks s)"
    using crew_more [OF s1(1) crew_attempt [where wes = wes and ln = ln, OF s1(2) same_self a]] s1 attempt_effect [OF a] by (simp_all add: s2_def only_logs_def)
  obtain x w2 where c: "complete_ticket (wes i) t v console elapsed (fold (wlog (wes i)) (vd_Items v) (at_desk s2 i)) = (x, w2)" by (metis surj_pair)
  have "wk_queue w2 = q2" "x \<noteq> None" using complete_effect(1) [OF c] assms(4) s2(3) by auto
  then obtain ev where ev: "x = Some ev" by blast
  show ?thesis
    using crew_more [OF s2(1) crew_verdict [where wes = wes and ln = ln, OF s2(2) same_self c [unfolded ev]]] s2 \<open>wk_queue w2 = q2\<close>
    by (intro exI [of _ "(up_from i (Settling t ev) w2 s2)\<lparr>sr_decided := sr_decided s2 @ [t_case t]\<rparr>"] exI [of _ ev]) simp
qed

lemma to_the_files:
  assumes "crew_reaches wes ln s0 s" "does i (Settling t ev) s"
  shows "\<exists>s'. crew_reaches wes ln s0 s' \<and> does i Free s' \<and> wk_queue (sr_all s') = wk_queue (sr_all s) \<and> length (sr_desks s') = length (sr_desks s)"
proof -
  define s1 where "s1 = up_from i (Recording t ev) (retire_ticket (wes i) t (at_desk s i)) s"
  obtain r k m where r: "retire_done (we_corpus (wes i)) (we_SlotID (wes i), t_case t) (False, wk_corpus (at_desk s i), wk_m (at_desk s i)) = (r, k, m)"
    by (metis surj_pair)
  have s1: "crew_reaches wes ln s0 s1" "does i (Recording t ev) s1" "wk_queue (sr_all s1) = wk_queue (sr_all s)" "length (sr_desks s1) = length (sr_desks s)"
    using crew_more [OF assms(1) crew_retire [where wes = wes and ln = ln, OF assms(2) same_self]] assms(2) retire_effect(1) [OF r] by (simp_all add: s1_def)
  show ?thesis
    using crew_more [OF s1(1) crew_record [where wes = wes and ln = ln, OF s1(2) same_self]] s1
    by (intro exI [of _ "up_from i Free (record_ticket (wes i) t ev (at_desk s1 i)) s1"]) (simp add: record_effect)
qed

text \<open>
  C3: However many runs were interrupted before, each taking up what the one before left, what the next run is
  given is what the queue of the interrupted run still had: the cases not handed out, those up for a
  retry, and those on a worker's desk when the run stopped, each once. A case leaves a worker's desk when the
  queue takes it back for a retry or when its verdict is in the list of finished cases. The runs have no lanes, and
  the first of them finds no list of finished cases.
\<close>

theorem continuing_takes_up_the_queue:
  assumes "run_given wes ln h sf present all_cases cs files" "mset qs = mset cs"
    and "tests_reach wes ln n (Policy h sf (New qs m)) files k s"
    and "no_journal present" "distinct all_cases" "\<forall>c \<in> set all_cases. plain_case c"
  shows "mset (Remaining (sink_Open (sk_files (wk_sink (sr_all s))) True)) =
    mset (waiting (wk_queue (sr_all s))) + mset (retry_queue (wk_queue (sr_all s))) + on_the_desks s"
proof -
  note given = given_lists [OF assms(1,4,5,6)]
  obtain F where F: "Remaining (sink_Open (sk_files (wk_sink (sr_all s))) True) = filter (\<lambda>c. c \<notin> set F) cs"
    "mset (sr_decided s) = mset F + on_desks unwritten s"
    using left_over [OF assms(3) _ assms(2)] given by blast
  have "mset cs = (mset (waiting (wk_queue (sr_all s))) + mset (retry_queue (wk_queue (sr_all s))) + on_the_desks s) + mset F"
    using tests_account [OF assms(3) _ assms(2)] given F(2) by (simp add: on_the_desks_def ac_simps)
  from mset_filter_away [OF this] given F(1) show ?thesis by simp
qed

lemma tests_begin: "tests_reach wes ln n q files k (run_begins n (w\<lparr>wk_queue := q, wk_sink := files, wk_corpus := k\<rparr>))"
  unfolding tests_reach_def by (rule exI, rule crew_here)

lemma one_desk: "on_the_desks s = {#}" if "does 0 Free s" "length (sr_desks s) = 1"
  using that by (cases "sr_desks s") (auto simp: does_def on_the_desks_def on_desks_def)

theorem continuing_takes_up_the_queue_witness:
  "\<exists>s :: (unit, unit) shell_run.
    tests_reach (\<lambda>_. demo_env) (\<lambda>_. LaneAny) 1 (Policy None None (New [''a'', ''b''] 0)) (All_cases [''a'', ''b''] (sink_Open [] False)) None s \<and>
    mset (Remaining (sink_Open (sk_files (wk_sink (sr_all s))) True)) = {# ''b'' #}"
proof -
  define t where "t = \<lparr>t_case = ''a'', t_retry = 0\<rparr>"
  define q0 :: "unit queue" where "q0 = Policy None None (New [''a'', ''b''] 0)"
  define s0 where "s0 = run_begins 1 (demo_worker\<lparr>wk_queue := q0, wk_sink := All_cases [''a'', ''b''] (sink_Open [] False), wk_corpus := None\<rparr>)"
  have s0: "does 0 Free s0" "wk_queue (sr_all s0) = q0" "length (sr_desks s0) = 1"
    by (simp_all add: s0_def run_begins_def does_def free_desk_def)
  obtain q1 where q1: "claimOnce () (we_SlotID demo_env) LaneAny q0 = (q1, Got t)" "waiting q1 = [''b'']" "retry_queue q1 = []" "max_retry q1 = 0"
    by (simp add: q0_def t_def queue_eval waiting_def)
  obtain q2 where q2: "Complete t a b q1 = (q2, False)" "waiting q2 = [''b'']" "retry_queue q2 = []" for a b
    using q1(2-) by (force simp: Complete_def Let_def t_def waiting_def stop_def split: if_splits)
  obtain s1 ev where s1: "crew_reaches (\<lambda>_. demo_env) (\<lambda>_. LaneAny) s0 s1" "does 0 (Settling t ev) s1" "wk_queue (sr_all s1) = q2" "length (sr_desks s1) = 1"
    using to_the_verdict [OF crew_here s0(1), where ln = "\<lambda>_. LaneAny" and wes = "\<lambda>_. demo_env" and e = "()"] q1(1) q2(1) s0 by metis
  obtain s where s: "crew_reaches (\<lambda>_. demo_env) (\<lambda>_. LaneAny) s0 s" "does 0 Free s" "wk_queue (sr_all s) = q2" "length (sr_desks s) = 1"
    using to_the_files [OF s1(1,2)] s1(3,4) by metis
  have r: "tests_reach (\<lambda>_. demo_env) (\<lambda>_. LaneAny) 1 q0 (All_cases [''a'', ''b''] (sink_Open [] False)) None s"
    using s(1) unfolding tests_reach_def s0_def by blast
  have "mset (Remaining (sink_Open (sk_files (wk_sink (sr_all s))) True)) = mset (waiting q2) + mset (retry_queue q2) + on_the_desks s"
    using continuing_takes_up_the_queue [OF fresh_list _ r [unfolded q0_def]] s(3) plain_names by (simp add: no_journal_def)
  then show ?thesis using r q2(2,3) one_desk [OF s(2,4)] by (auto simp: q0_def)
qed

subsection \<open>When a directory is dropped\<close>

text \<open>
  C14: In a run without lanes over one corpus that was told the run's cases, when a worker comes to retire a case, the case's directory
  is dropped exactly if every case of it has its verdict and no other worker is still to retire one of them. So
  none of its cases is waiting, up for a retry or being run when its writes go, and the last of them takes them.
\<close>

theorem directory_is_dropped_when_done:
  assumes "tests_reach wes ln n (Policy h sf (New qs m)) files (Some (corpus_Plan cs (NewCorpus root ram mb False))) s"
    and "distinct cs" "mset qs = mset cs"
    and "does i (Settling t ev) s" "Split_case (t_case t) = Some c" "same_worker (wes i) we"
  shows "(fst (Retire (we_corpus we) (we_SlotID we) (sc_Dir c) (wk_corpus (sr_all s)) (wk_m (sr_all s))) \<longleftrightarrow>
      (\<forall>x \<in> set cs. case_dir x = Some (sc_Dir c) \<longrightarrow> x \<in> set (sr_decided s) \<and> (x \<noteq> t_case t \<longrightarrow> x \<notin># on_desks untold s))) \<and>
    (fst (Retire (we_corpus we) (we_SlotID we) (sc_Dir c) (wk_corpus (sr_all s)) (wk_m (sr_all s))) \<longrightarrow>
      (\<forall>x. case_dir x = Some (sc_Dir c) \<longrightarrow>
        x \<notin># mset (waiting (wk_queue (sr_all s))) + mset (retry_queue (wk_queue (sr_all s))) + on_desks in_hand s))"
proof -
  let ?p = "t_case t" and ?d = "sc_Dir c"
  let ?r = "fst (Retire (we_corpus we) (we_SlotID we) ?d (wk_corpus (sr_all s)) (wk_m (sr_all s)))"
  have parts: "mset cs = mset (waiting (wk_queue (sr_all s))) + mset (retry_queue (wk_queue (sr_all s))) + on_desks in_hand s + mset (sr_decided s)"
    by (rule tests_account [OF assms(1-3)])
  then have sub: "mset (sr_decided s) \<subseteq># mset cs" by simp
  obtain T k where T: "wk_corpus (sr_all s) = Some k" "co_shared k" "pending_is cs T k" "mset (sr_decided s) = mset T + on_desks untold s"
    using tests_told [OF assms(1)] by (auto simp: corpus_told_def NewCorpus_def)
  have p: "case_dir ?p = Some ?d" using assms(5) by (simp add: case_dir_def)
  have un: "?p \<in># on_desks untold s"
    using desks_update [OF assms(4), of untold Free "sr_all s"] by (metis union_commute untold.simps(1,2) add.right_neutral multi_member_last add_mset_add_single union_iff)
  have sub': "mset (T @ [?p]) \<subseteq># mset (sr_decided s)" using un T(4) by (simp add: mset_subset_eq_add_right subset_mset.add_left_mono)
  have "retire_done (we_corpus we) (we_SlotID we, ?p) (False, Some k, wk_m (sr_all s)) = Retire (we_corpus we) (we_SlotID we) ?d (Some k) (wk_m (sr_all s))"
    using assms(5) by (simp add: retire_done_def)
  then have r: "?r \<longleftrightarrow> cases_in ?d T < cases_in ?d cs \<and> cases_in ?d cs \<le> cases_in ?d (T @ [?p])"
    using pending_one(4) [OF T(3), of "we_corpus we" "we_SlotID we" ?p False "wk_m (sr_all s)"] Retire_some [of "we_corpus we" "we_SlotID we" ?d k "wk_m (sr_all s)"] T(1,2) p
    by (auto simp: reachable_slot_def)
  have once: "cases_in ?d (T @ [?p]) \<le> cases_in ?d cs" by (rule cases_in_mset [OF subset_mset.order_trans [OF sub' sub]])
  have iff: "?r \<longleftrightarrow> (\<forall>x \<in> set cs. case_dir x = Some ?d \<longrightarrow> x \<in> set (T @ [?p]))"
  proof
    assume ?r
    then show "\<forall>x \<in> set cs. case_dir x = Some ?d \<longrightarrow> x \<in> set (T @ [?p])"
      using r all_counted [OF subset_mset.order_trans [OF sub' sub]] by blast
  next
    assume "\<forall>x \<in> set cs. case_dir x = Some ?d \<longrightarrow> x \<in> set (T @ [?p])"
    from cases_in_subset [OF assms(2) this] show ?r using r once p by simp
  qed
  have split: "x \<in> set (T @ [?p]) \<longleftrightarrow> x \<in> set (sr_decided s) \<and> (x \<noteq> ?p \<longrightarrow> x \<notin># on_desks untold s)" for x
  proof -
    obtain U Z where U: "mset U = on_desks untold s" and Z: "mset Z = mset cs - mset (sr_decided s)" by (metis ex_mset)
    have "mset cs = mset (sr_decided s) + mset Z" unfolding Z using subset_mset.add_diff_inverse [OF sub] by simp
    then have all: "mset cs = mset (T @ U @ Z)" by (simp add: T(4) U)
    then have "distinct (T @ U @ Z)" using mset_eq_imp_distinct_iff [OF all] assms(2) by simp
    moreover have "set (sr_decided s) = set T \<union> set U" using T(4) U by (metis set_mset_mset set_mset_union)
    moreover have "?p \<in> set U" "x \<in># on_desks untold s \<longleftrightarrow> x \<in> set U" using un U by (metis set_mset_mset)+
    ultimately show ?thesis by auto
  qed
  show ?thesis
  proof (intro conjI impI allI)
    show "?r \<longleftrightarrow> (\<forall>x \<in> set cs. case_dir x = Some ?d \<longrightarrow> x \<in> set (sr_decided s) \<and> (x \<noteq> ?p \<longrightarrow> x \<notin># on_desks untold s))"
      unfolding iff split ..
  next
    fix x
    assume "?r" "case_dir x = Some ?d"
    then have "x \<in> set cs \<Longrightarrow> x \<in> set (sr_decided s)" using iff split by blast
    then show "x \<notin># mset (waiting (wk_queue (sr_all s))) + mset (retry_queue (wk_queue (sr_all s))) + on_desks in_hand s"
      using elsewhere [OF assms(2) parts] by simp
  qed
qed

theorem directory_is_dropped_when_done_witness:
  "\<exists>(s :: (unit, unit) shell_run) t ev.
    tests_reach (\<lambda>_. demo_env) (\<lambda>_. LaneAny) 1 (Policy None None (New [''s/j/cases/j.sh''] 0)) (sink_Open [] False)
      (Some (corpus_Plan [''s/j/cases/j.sh''] (NewCorpus ''/c'' ''/r'' 1 False))) s \<and>
    does 0 (Settling t ev) s \<and> fst (Retire idle_env ''s'' ''s/j/cases'' (wk_corpus (sr_all s)) (wk_m (sr_all s)))"
proof -
  define t where "t = \<lparr>t_case = ''s/j/cases/j.sh'', t_retry = 0\<rparr>"
  define q0 :: "unit queue" where "q0 = Policy None None (New [''s/j/cases/j.sh''] 0)"
  define k where "k = corpus_Plan [''s/j/cases/j.sh''] (NewCorpus ''/c'' ''/r'' 1 False)"
  define s0 where "s0 = run_begins 1 (demo_worker\<lparr>wk_queue := q0, wk_sink := sink_Open [] False, wk_corpus := Some k\<rparr>)"
  have s0: "does 0 Free s0" "wk_queue (sr_all s0) = q0" "sr_decided s0 = []"
    by (simp_all add: s0_def run_begins_def does_def free_desk_def)
  obtain q1 where q1: "claimOnce () (we_SlotID demo_env) LaneAny q0 = (q1, Got t)" "max_retry q1 = 0"
    by (simp add: q0_def t_def queue_eval)
  obtain q2 where q2: "Complete t a b q1 = (q2, False)" for a b
    using q1(2) by (force simp: Complete_def Let_def t_def stop_def split: if_splits)
  obtain s ev where s: "crew_reaches (\<lambda>_. demo_env) (\<lambda>_. LaneAny) s0 s" "does 0 (Settling t ev) s" "sr_decided s = [''s/j/cases/j.sh'']"
    using to_the_verdict [OF crew_here s0(1), where ln = "\<lambda>_. LaneAny" and wes = "\<lambda>_. demo_env" and e = "()"] q1(1) q2 s0 by (metis append_Nil t_def ticket.select_convs(1))
  have r: "tests_reach (\<lambda>_. demo_env) (\<lambda>_. LaneAny) 1 q0 (sink_Open [] False) (Some k) s"
    using s(1) unfolding tests_reach_def s0_def by blast
  have c: "Split_case (t_case t) = Some demo_case" "sc_Dir demo_case = ''s/j/cases''"
    by (simp_all add: t_def demo_case_def Split_case_def trim_suffix_def suffix_def Let_def)
  have "fst (Retire (we_corpus demo_env) (we_SlotID demo_env) (sc_Dir demo_case) (wk_corpus (sr_all s)) (wk_m (sr_all s)))"
    using directory_is_dropped_when_done [OF r [unfolded q0_def k_def] _ _ s(2) c(1) same_self] s(3) by (simp add: t_def)
  then have "fst (Retire idle_env ''s'' ''s/j/cases'' (wk_corpus (sr_all s)) (wk_m (sr_all s)))"
    by (simp add: c(2) demo_env_def)
  with r s(2) show ?thesis by (auto simp: q0_def k_def)
qed

end
