(* ===== verification/Shell_Monitor.thy ===== *)
theory Shell_Monitor
  imports Shell_Case
begin

text \<open>
  The watch over a case that takes too long: \<open>monitor.go\<close> in \<open>internal/runner/shellsuite\<close>, and the
  fields of the worker it shares with it in \<open>worker.go\<close>. Monitor and worker are two threads that meet
  in the worker's lock; each step here is what one thread does while it holds the lock, or one command
  it runs, and the steps interleave freely. Times are nanoseconds, a context is its number.
\<close>

subsection \<open>What the worker and its monitor share\<close>

record watched =
  wd_current :: "int option"
  wd_timedIn :: string
  wd_timeout :: bool
  wd_abort :: "nat option"
  wd_resolved :: "int option"

definition beginCase :: "int \<Rightarrow> string \<Rightarrow> nat \<Rightarrow> watched \<Rightarrow> watched" where
  "beginCase at name k w =
     w\<lparr>wd_current := Some at, wd_timedIn := name, wd_timeout := False, wd_abort := Some k, wd_resolved := None\<rparr>"

definition endCase :: "watched \<Rightarrow> watched" where
  "endCase w = w\<lparr>wd_current := None, wd_abort := None, wd_resolved := None\<rparr>"

definition markTimedOut :: "int \<Rightarrow> watched \<Rightarrow> bool \<times> watched" where
  "markTimedOut now w =
     (let first = (\<not> wd_timeout w); w1 = w\<lparr>wd_timeout := True\<rparr>
      in (first, if first then w1\<lparr>wd_resolved := Some now\<rparr> else w1))"

definition runningSince :: "watched \<Rightarrow> int option \<times> string" where
  "runningSince w = (wd_current w, wd_timedIn w)"

definition resolvedAt :: "watched \<Rightarrow> int option \<times> nat option" where
  "resolvedAt w = (wd_resolved w, wd_abort w)"

subsection \<open>A pass of the monitor\<close>

record monitor_conf =
  mo_Timeout :: int
  mo_EscalateAfter :: int

definition go_second :: int where "go_second = 1000000000"

definition EscalateAfter :: int where "EscalateAfter = 2 * 60 * go_second"

definition grace_of :: "monitor_conf \<Rightarrow> int" where
  "grace_of mo = (if mo_EscalateAfter mo = 0 then EscalateAfter else mo_EscalateAfter mo)"

definition resolve_action :: "monitor_conf \<Rightarrow> int \<Rightarrow> sh_answer \<Rightarrow> string" where
  "resolve_action mo elapsed rr =
     ''[RESOLVE] '' @ itoa (mo_Timeout mo div go_second) @ '' + timeout (actual: '' @ itoa (elapsed div go_second) @ '' seconds)'' @
     [LF] @ ''CLEAN PROCESSES: '' @ [LF] @
     (case rr of Inl e \<Rightarrow> ''fail to reset processes: '' @ error_text e | Inr r \<Rightarrow> sh_out r)"

definition abandon_action :: "int \<Rightarrow> int \<Rightarrow> string" where
  "abandon_action waited elapsed =
     ''[ABANDON] the case did not end '' @ itoa (waited div go_second) @ '' seconds after it was resolved (actual: '' @
     itoa (elapsed div go_second) @ '' seconds); its process group was killed''"

text \<open>
  Where the monitor stands between two steps: nothing under way; a case read as late; that case
  marked, for the first time or not; its processes swept and the case to be ended if its grace is
  over; and the two values read for that, after the lock is given back.
\<close>

datatype mon_pass = Waiting | Due string int | Flagged bool string int | Escalating string int
  | Holding string int int nat

datatype case_phase = Between | InCase nat | Ended nat

datatype watch_event = Began nat string | ReadDue nat | Marked "nat option" bool | Swept "nat option"
  | Monitored string string | Aborted nat | Judged nat bool

record watch_state =
  ws_now :: int
  ws_w :: watched
  ws_pass :: mon_pass
  ws_phase :: case_phase
  ws_next :: nat
  ws_log :: "(int \<times> watch_event) list"

definition logs :: "watch_event list \<Rightarrow> watch_state \<Rightarrow> watch_state" where
  "logs es s = s\<lparr>ws_log := ws_log s @ map (\<lambda>e. (ws_now s, e)) es\<rparr>"

definition monitor_move :: "monitor_conf \<Rightarrow> sh_answer \<Rightarrow> watch_state \<Rightarrow> watch_state" where
  "monitor_move mo rr s =
     (case ws_pass s of
        Waiting \<Rightarrow>
          (case runningSince (ws_w s) of
             (None, _) \<Rightarrow> s
           | (Some since, name) \<Rightarrow>
               (let elapsed = ws_now s - since in
                if elapsed < mo_Timeout mo then s
                else logs (case wd_abort (ws_w s) of None \<Rightarrow> [] | Some k \<Rightarrow> [ReadDue k]) (s\<lparr>ws_pass := Due name elapsed\<rparr>)))
      | Due name elapsed \<Rightarrow>
          (case markTimedOut (ws_now s) (ws_w s) of (first, w) \<Rightarrow>
             logs [Marked (wd_abort w) first] (s\<lparr>ws_w := w, ws_pass := Flagged first name elapsed\<rparr>))
      | Flagged first name elapsed \<Rightarrow>
          logs [Swept (wd_abort (ws_w s)), Monitored name (resolve_action mo elapsed rr)]
            (s\<lparr>ws_pass := (if first then Waiting else Escalating name elapsed)\<rparr>)
      | Escalating name elapsed \<Rightarrow>
          s\<lparr>ws_pass := (if grace_of mo < 0 then Waiting
             else (case resolvedAt (ws_w s) of (Some r, Some k) \<Rightarrow> Holding name elapsed r k | _ \<Rightarrow> Waiting))\<rparr>
      | Holding name elapsed r k \<Rightarrow>
          (let waited = ws_now s - r; s1 = s\<lparr>ws_pass := Waiting\<rparr> in
           if waited < grace_of mo then s1
           else logs [Aborted k, Monitored name (abandon_action waited elapsed)] s1))"

subsection \<open>The worker's part\<close>

definition begin_case :: "string \<Rightarrow> watch_state \<Rightarrow> watch_state" where
  "begin_case name s =
     logs [Began (ws_next s) name]
       (s\<lparr>ws_w := beginCase (ws_now s) name (ws_next s) (ws_w s), ws_phase := InCase (ws_next s), ws_next := Suc (ws_next s)\<rparr>)"

definition end_case :: "nat \<Rightarrow> watch_state \<Rightarrow> watch_state" where
  "end_case k s = s\<lparr>ws_w := endCase (ws_w s), ws_phase := Ended k\<rparr>"

definition judge_case :: "nat \<Rightarrow> watch_state \<Rightarrow> watch_state" where
  "judge_case k s = logs [Judged k (wd_timeout (ws_w s))] (s\<lparr>ws_phase := Between\<rparr>)"

inductive watch_step :: "monitor_conf \<Rightarrow> watch_state \<Rightarrow> watch_state \<Rightarrow> bool" for mo where
  time_passes: "0 \<le> d \<Longrightarrow> watch_step mo s (s\<lparr>ws_now := ws_now s + d\<rparr>)"
| case_begins: "ws_phase s = Between \<Longrightarrow> watch_step mo s (begin_case name s)"
| case_ends: "ws_phase s = InCase k \<Longrightarrow> watch_step mo s (end_case k s)"
| case_judged: "ws_phase s = Ended k \<Longrightarrow> watch_step mo s (judge_case k s)"
| monitor_moves: "0 < mo_Timeout mo \<Longrightarrow> watch_step mo s (monitor_move mo rr s)"

definition quiet_watch :: "int \<Rightarrow> watch_state" where
  "quiet_watch t =
     \<lparr>ws_now = t, ws_w = \<lparr>wd_current = None, wd_timedIn = [], wd_timeout = False, wd_abort = None, wd_resolved = None\<rparr>,
      ws_pass = Waiting, ws_phase = Between, ws_next = 0, ws_log = []\<rparr>"

inductive watch_reach :: "monitor_conf \<Rightarrow> int \<Rightarrow> watch_state \<Rightarrow> bool" for mo t where
  watch_start: "watch_reach mo t (quiet_watch t)"
| watch_next: "watch_reach mo t s \<Longrightarrow> watch_step mo s s' \<Longrightarrow> watch_reach mo t s'"

inductive_cases watch_stepE: "watch_step mo s s'"

text \<open>One whole pass while nothing else moves, at a given time; and a sequence of polls.\<close>

definition poll :: "monitor_conf \<Rightarrow> sh_answer \<Rightarrow> int \<Rightarrow> watch_state \<Rightarrow> watch_state" where
  "poll mo rr t s =
     (let s0 = s\<lparr>ws_now := t\<rparr>; s1 = monitor_move mo rr s0 in
      if ws_pass s1 = Waiting then s1
      else (let s3 = monitor_move mo rr (monitor_move mo rr s1) in
        if ws_pass s3 = Waiting then s3
        else (let s4 = monitor_move mo rr s3 in if ws_pass s4 = Waiting then s4 else monitor_move mo rr s4)))"

end
