(* ===== verification/Shell_Monitor_Claims.thy ===== *)
theory Shell_Monitor_Claims
  imports Shell_Monitor
begin

text \<open>
  What the monitor may do to a case, whatever the interleaving with the worker, and that it does end
  a case nobody else ends.
\<close>

abbreviation logged :: "int \<Rightarrow> watch_event \<Rightarrow> watch_state \<Rightarrow> bool" where
  "logged t e s \<equiv> (t, e) \<in> set (ws_log s)"

lemma logs_fields [simp]:
  "ws_now (logs es s) = ws_now s" "ws_w (logs es s) = ws_w s" "ws_pass (logs es s) = ws_pass s"
  "ws_phase (logs es s) = ws_phase s" "ws_next (logs es s) = ws_next s"
  "set (ws_log (logs es s)) = set (ws_log s) \<union> {(ws_now s, e) | e. e \<in> set es}"
  by (auto simp: logs_def)

lemmas watch_fields = beginCase_def endCase_def markTimedOut_def Let_def begin_case_def end_case_def judge_case_def

subsection \<open>The invariant\<close>

text \<open>The shared fields agree with where the worker's thread is.\<close>

definition in_pass :: "watch_state \<Rightarrow> bool" where
  "in_pass s \<longleftrightarrow>
     (case ws_phase s of
        InCase k \<Rightarrow> wd_abort (ws_w s) = Some k \<and> k < ws_next s \<and> (wd_timeout (ws_w s) \<longleftrightarrow> wd_resolved (ws_w s) \<noteq> None) \<and>
          (\<exists>t n. wd_current (ws_w s) = Some t \<and> t \<le> ws_now s \<and> logged t (Began k n) s)
      | Ended k \<Rightarrow> wd_abort (ws_w s) = None \<and> wd_current (ws_w s) = None \<and> k < ws_next s
      | Between \<Rightarrow> wd_abort (ws_w s) = None \<and> wd_current (ws_w s) = None)"

text \<open>The record: nothing is in it of a case to come, and each case begins once.\<close>

definition recorded :: "watch_state \<Rightarrow> bool" where
  "recorded s \<longleftrightarrow>
     (\<forall>t e. logged t e s \<longrightarrow> t \<le> ws_now s) \<and>
     (\<forall>t k n. logged t (Began k n) s \<longrightarrow> k < ws_next s) \<and>
     (\<forall>t k b. logged t (Marked (Some k) b) s \<longrightarrow> k < ws_next s) \<and>
     (\<forall>t k b. logged t (Judged k b) s \<longrightarrow> k < ws_next s \<and> ws_phase s \<noteq> InCase k \<and> ws_phase s \<noteq> Ended k) \<and>
     (\<forall>t u k m n. logged t (Began k n) s \<longrightarrow> logged u (Began k m) s \<longrightarrow> t = u)"

text \<open>A mark stays with its case until the case is judged.\<close>

definition marks_stay :: "watch_state \<Rightarrow> bool" where
  "marks_stay s \<longleftrightarrow>
     (\<forall>t k b. logged t (Marked (Some k) b) s \<longrightarrow>
        (ws_phase s = InCase k \<or> ws_phase s = Ended k \<longrightarrow> wd_timeout (ws_w s)) \<and>
        (\<forall>u late. logged u (Judged k late) s \<longrightarrow> late))"

text \<open>What the monitor holds about the case it may end.\<close>

definition warned :: "int \<Rightarrow> nat \<Rightarrow> watch_state \<Rightarrow> bool" where
  "warned r k s \<longleftrightarrow>
     (\<exists>t n u. logged t (Began k n) s \<and> logged r (Marked (Some k) True) s \<and> logged u (Marked (Some k) False) s \<and>
        t \<le> r \<and> r \<le> u)"

definition grounded :: "watch_state \<Rightarrow> bool" where
  "grounded s \<longleftrightarrow>
     (\<forall>r k. wd_resolved (ws_w s) = Some r \<longrightarrow> wd_abort (ws_w s) = Some k \<longrightarrow>
        (\<exists>t n. logged t (Began k n) s \<and> t \<le> r \<and> r \<le> ws_now s \<and> logged r (Marked (Some k) True) s) \<and>
        (\<forall>n e. ws_pass s = Flagged False n e \<or> ws_pass s = Escalating n e \<longrightarrow> warned r k s)) \<and>
     (\<forall>n e r k. ws_pass s = Holding n e r k \<longrightarrow> warned r k s)"

definition abandoned_late :: "monitor_conf \<Rightarrow> watch_state \<Rightarrow> bool" where
  "abandoned_late mo s \<longleftrightarrow>
     (\<forall>a k. logged a (Aborted k) s \<longrightarrow> (\<exists>r. warned r k s \<and> r + grace_of mo \<le> a))"

lemma warned_grows: "warned r k s \<Longrightarrow> set (ws_log s) \<subseteq> set (ws_log s') \<Longrightarrow> warned r k s'"
  unfolding warned_def by blast

lemma step_grows: "watch_step mo s s' \<Longrightarrow> set (ws_log s) \<subseteq> set (ws_log s') \<and> ws_now s \<le> ws_now s'"
  by (induction rule: watch_step.induct)
    (auto simp: watch_fields monitor_move_def split: mon_pass.splits option.splits prod.splits)

lemma in_step_next: "watch_step mo s s' \<Longrightarrow> in_pass s \<Longrightarrow> in_pass s'"
proof (induction rule: watch_step.induct)
  case (monitor_moves s rr)
  then show ?case
    by (auto simp: in_pass_def monitor_move_def watch_fields runningSince_def
      split: mon_pass.splits case_phase.splits option.splits prod.splits if_splits)
qed (auto simp: in_pass_def watch_fields split: case_phase.splits)

text \<open>What one move of the monitor adds to the record, pass by pass.\<close>

lemma move_log:
  "ws_log (monitor_move mo rr s) = ws_log s @ map (\<lambda>e. (ws_now s, e))
     (case ws_pass s of
        Waiting \<Rightarrow> (case (wd_current (ws_w s), wd_abort (ws_w s)) of
            (Some since, Some k) \<Rightarrow> if ws_now s - since < mo_Timeout mo then [] else [ReadDue k] | _ \<Rightarrow> [])
      | Due _ _ \<Rightarrow> [Marked (wd_abort (ws_w s)) (\<not> wd_timeout (ws_w s))]
      | Flagged _ n el \<Rightarrow> [Swept (wd_abort (ws_w s)), Monitored n (resolve_action mo el rr)]
      | Escalating _ _ \<Rightarrow> []
      | Holding n el r k \<Rightarrow> if ws_now s - r < grace_of mo then [] else [Aborted k, Monitored n (abandon_action (ws_now s - r) el)])"
  by (simp add: monitor_move_def logs_def watch_fields runningSince_def split: mon_pass.splits option.splits)

lemma move_worker:
  "ws_now (monitor_move mo rr s) = ws_now s" "ws_phase (monitor_move mo rr s) = ws_phase s"
  "ws_next (monitor_move mo rr s) = ws_next s" "wd_current (ws_w (monitor_move mo rr s)) = wd_current (ws_w s)"
  "wd_abort (ws_w (monitor_move mo rr s)) = wd_abort (ws_w s)"
  "wd_timeout (ws_w s) \<Longrightarrow> wd_timeout (ws_w (monitor_move mo rr s)) \<and> wd_resolved (ws_w (monitor_move mo rr s)) = wd_resolved (ws_w s)"
  by (simp_all add: monitor_move_def watch_fields runningSince_def split: mon_pass.splits option.splits)

lemma move_logged:
  assumes "logged t e (monitor_move mo rr s)"
  shows "logged t e s \<or> t = ws_now s \<and>
    ((\<exists>k. e = ReadDue k) \<or>
     (\<exists>n el. ws_pass s = Due n el \<and> e = Marked (wd_abort (ws_w s)) (\<not> wd_timeout (ws_w s))) \<or>
     (\<exists>f n el. ws_pass s = Flagged f n el \<and> e = Swept (wd_abort (ws_w s))) \<or>
     (\<exists>n a. e = Monitored n a) \<or>
     (\<exists>n el r k. ws_pass s = Holding n el r k \<and> r + grace_of mo \<le> ws_now s \<and> e = Aborted k))"
  using assms by (auto simp: move_log split: mon_pass.splits option.splits if_splits)

lemma recordedD:
  assumes "recorded s"
  shows "logged t e s \<Longrightarrow> t \<le> ws_now s" "logged t (Began k n) s \<Longrightarrow> k < ws_next s"
    "logged t (Marked (Some k) b) s \<Longrightarrow> k < ws_next s" "logged t (Judged k b) s \<Longrightarrow> k < ws_next s"
    "logged t (Judged k b) s \<Longrightarrow> ws_phase s \<noteq> InCase k" "logged t (Judged k b) s \<Longrightarrow> ws_phase s \<noteq> Ended k"
    "logged t (Began k n) s \<Longrightarrow> logged u (Began k m) s \<Longrightarrow> t = u"
  using assms unfolding recorded_def by blast+

lemma recordedI:
  assumes "\<And>t e. logged t e s \<Longrightarrow> t \<le> ws_now s" "\<And>t k n. logged t (Began k n) s \<Longrightarrow> k < ws_next s"
    "\<And>t k b. logged t (Marked (Some k) b) s \<Longrightarrow> k < ws_next s"
    "\<And>t k b. logged t (Judged k b) s \<Longrightarrow> k < ws_next s \<and> ws_phase s \<noteq> InCase k \<and> ws_phase s \<noteq> Ended k"
    "\<And>t u k m n. logged t (Began k n) s \<Longrightarrow> logged u (Began k m) s \<Longrightarrow> t = u"
  shows "recorded s"
  using assms unfolding recorded_def by blast

lemma flight_is_known: "in_pass s \<Longrightarrow> wd_abort (ws_w s) = Some k \<Longrightarrow> ws_phase s = InCase k \<and> k < ws_next s"
  by (auto simp: in_pass_def split: case_phase.splits)

lemma recorded_move:
  assumes "in_pass s" "recorded s" shows "recorded (monitor_move mo rr s)"
proof -
  have same: "logged t (Began k n) (monitor_move mo rr s) \<longleftrightarrow> logged t (Began k n) s"
    "logged t (Judged k b) (monitor_move mo rr s) \<longleftrightarrow> logged t (Judged k b) s" for t k n b
    by (auto simp: move_log split: mon_pass.splits option.splits)
  show ?thesis
  proof (rule recordedI, unfold move_worker same)
    show "t \<le> ws_now s" if "logged t e (monitor_move mo rr s)" for t e
      using move_logged [OF that] recordedD(1) [OF assms(2)] by auto
    show "k < ws_next s" if "logged t (Marked (Some k) b) (monitor_move mo rr s)" for t k b
      using move_logged [OF that] recordedD(3) [OF assms(2), of t k b] flight_is_known [OF assms(1), of k] by auto
    show "k < ws_next s" if "logged t (Began k n) s" for t k n using that by (rule recordedD(2) [OF assms(2)])
    show "k < ws_next s \<and> ws_phase s \<noteq> InCase k \<and> ws_phase s \<noteq> Ended k" if "logged t (Judged k b) s" for t k b
      using recordedD(4-6) [OF assms(2) that] by simp
    show "t = u" if "logged t (Began k n) s" "logged u (Began k m) s" for t u k m n
      using that by (rule recordedD(7) [OF assms(2)])
  qed
qed

lemma recorded_same:
  assumes "recorded s" "ws_log s' = ws_log s" "ws_now s \<le> ws_now s'" "ws_next s' = ws_next s"
    and "\<And>k. ws_phase s' = InCase k \<or> ws_phase s' = Ended k \<Longrightarrow> ws_phase s = InCase k \<or> ws_phase s = Ended k"
  shows "recorded s'"
proof (rule recordedI, unfold assms(2,4))
  show "t \<le> ws_now s'" if "logged t e s" for t e using recordedD(1) [OF assms(1) that] assms(3) by simp
  show "k < ws_next s" if "logged t (Began k n) s" for t k n using that by (rule recordedD(2) [OF assms(1)])
  show "k < ws_next s" if "logged t (Marked (Some k) b) s" for t k b using that by (rule recordedD(3) [OF assms(1)])
  show "k < ws_next s \<and> ws_phase s' \<noteq> InCase k \<and> ws_phase s' \<noteq> Ended k" if "logged t (Judged k b) s" for t k b
    using recordedD(4-6) [OF assms(1) that] assms(5) by blast
  show "t = u" if "logged t (Began k n) s" "logged u (Began k m) s" for t u k m n
    using that by (rule recordedD(7) [OF assms(1)])
qed

lemma recorded_next: "watch_step mo s s' \<Longrightarrow> in_pass s \<Longrightarrow> recorded s \<Longrightarrow> recorded s'"
proof (induction rule: watch_step.induct)
  case (time_passes d s)
  then show ?case by (intro recorded_same [OF time_passes(3)]) auto
next
  case (case_begins s n)
  note d = recordedD [OF case_begins(3)]
  show ?case
  proof (rule recordedI)
    show "t = u" if "logged t (Began k i) (begin_case n s)" "logged u (Began k m) (begin_case n s)" for t u k m i
      using that d(2) [of t k i] d(2) [of u k m] d(7) [of t k i u m] by (auto simp: begin_case_def)
    show "k < ws_next (begin_case n s)" if "logged t (Began k i) (begin_case n s)" for t k i
      using that d(2) [of t k i] by (auto simp: begin_case_def)
    show "k < ws_next (begin_case n s)" if "logged t (Marked (Some k) b) (begin_case n s)" for t k b
      using that d(3) [of t k b] by (auto simp: begin_case_def)
    show "k < ws_next (begin_case n s) \<and> ws_phase (begin_case n s) \<noteq> InCase k \<and> ws_phase (begin_case n s) \<noteq> Ended k"
      if "logged t (Judged k b) (begin_case n s)" for t k b
      using that d(4) [of t k b] by (auto simp: begin_case_def)
    show "t \<le> ws_now (begin_case n s)" if "logged t e (begin_case n s)" for t e
      using that d(1) [of t e] by (auto simp: begin_case_def)
  qed
next
  case (case_ends s j)
  then show ?case by (intro recorded_same [OF case_ends(3)]) (auto simp: end_case_def)
next
  case (case_judged s j)
  note d = recordedD [OF case_judged(3)]
  have j: "j < ws_next s" using case_judged(1,2) by (simp add: in_pass_def)
  show ?case
  proof (rule recordedI)
    show "k < ws_next (judge_case j s) \<and> ws_phase (judge_case j s) \<noteq> InCase k \<and> ws_phase (judge_case j s) \<noteq> Ended k"
      if "logged t (Judged k b) (judge_case j s)" for t k b
      using that d(4) [of t k b] j by (auto simp: judge_case_def)
    show "t \<le> ws_now (judge_case j s)" if "logged t e (judge_case j s)" for t e
      using that d(1) [of t e] by (auto simp: judge_case_def)
    show "k < ws_next (judge_case j s)" if "logged t (Began k i) (judge_case j s)" for t k i
      using that d(2) [of t k i] by (auto simp: judge_case_def)
    show "k < ws_next (judge_case j s)" if "logged t (Marked (Some k) b) (judge_case j s)" for t k b
      using that d(3) [of t k b] by (auto simp: judge_case_def)
    show "t = u" if "logged t (Began k i) (judge_case j s)" "logged u (Began k m) (judge_case j s)" for t u k m i
      using that d(7) [of t k i u m] by (auto simp: judge_case_def)
  qed
qed (rule recorded_move)

lemma marks_stay_next:
  assumes "watch_step mo s s'" "in_pass s" "recorded s" "marks_stay s"
  shows "marks_stay s'"
  using assms(1)
proof cases
  case (time_passes d)
  then show ?thesis using assms(4) unfolding marks_stay_def by simp blast
next
  case (case_begins n)
  have "k < ws_next s" if "logged t (Marked (Some k) b) s" for t k b using that by (rule recordedD(3) [OF assms(3)])
  then show ?thesis using assms(4) case_begins by (fastforce simp: marks_stay_def begin_case_def)
next
  case (case_ends k)
  then show ?thesis using assms(4) by (auto simp: marks_stay_def end_case_def endCase_def)
next
  case (case_judged k)
  then show ?thesis using assms(4) by (auto simp: marks_stay_def judge_case_def)
next
  case (monitor_moves rr)
  let ?s = "monitor_move mo rr s"
  have judged: "logged u (Judged k l) ?s \<longleftrightarrow> logged u (Judged k l) s" for u k l
    by (auto simp: move_log split: mon_pass.splits option.splits)
  have "(ws_phase ?s = InCase k \<or> ws_phase ?s = Ended k \<longrightarrow> wd_timeout (ws_w ?s)) \<and> (\<forall>u late. logged u (Judged k late) ?s \<longrightarrow> late)"
    if m: "logged t (Marked (Some k) b) ?s" for t k b
  proof (cases "logged t (Marked (Some k) b) s")
    case True
    then show ?thesis using assms(4) unfolding marks_stay_def judged by (metis move_worker(2,6))
  next
    case False
    with move_logged [OF m] obtain n el where d: "ws_pass s = Due n el" "wd_abort (ws_w s) = Some k" by auto
    then have "ws_phase s = InCase k" using flight_is_known [OF assms(2)] by blast
    then have "\<not> logged u (Judged k l) s" for u l using recordedD(5) [OF assms(3)] by blast
    moreover have "wd_timeout (ws_w ?s)" using d by (simp add: monitor_move_def watch_fields)
    ultimately show ?thesis unfolding judged by blast
  qed
  then show ?thesis using monitor_moves(1) unfolding marks_stay_def by blast
qed

lemma grounded_next:
  assumes "watch_step mo s s'" "in_pass s" "grounded s"
  shows "grounded s'"
  using assms(1)
proof cases
  case (time_passes d)
  then show ?thesis using assms(3) unfolding grounded_def warned_def by simp (meson order_trans add_increasing2)
next
  case (case_begins n)
  then have "wd_resolved (ws_w s') = None" "ws_pass s' = ws_pass s" by (simp_all add: begin_case_def beginCase_def)
  moreover have "warned r k s \<Longrightarrow> warned r k s'" for r k using step_grows [OF assms(1)] warned_grows by blast
  ultimately show ?thesis using assms(3) unfolding grounded_def by simp
next
  case (case_ends k)
  then show ?thesis using assms(3) by (simp add: grounded_def end_case_def endCase_def warned_def)
next
  case (case_judged k)
  then have "ws_w s' = ws_w s" "ws_pass s' = ws_pass s" "ws_now s' = ws_now s" by (simp_all add: judge_case_def)
  moreover have "warned r k s \<Longrightarrow> warned r k s'" "logged t e s \<Longrightarrow> logged t e s'" for r k t e
    using step_grows [OF assms(1)] warned_grows by blast+
  ultimately show ?thesis using assms(3) unfolding grounded_def by simp blast
next
  case (monitor_moves rr)
  have grow: "warned r k s \<Longrightarrow> warned r k s'" "logged t e s \<Longrightarrow> logged t e s'" for r k t e
    using step_grows [OF assms(1)] warned_grows by blast+
  have g: "wd_resolved (ws_w s) = Some r \<Longrightarrow> wd_abort (ws_w s) = Some k \<Longrightarrow>
      (\<exists>t n. logged t (Began k n) s \<and> t \<le> r \<and> r \<le> ws_now s \<and> logged r (Marked (Some k) True) s)"
    "wd_resolved (ws_w s) = Some r \<Longrightarrow> wd_abort (ws_w s) = Some k \<Longrightarrow>
      ws_pass s = Flagged False n e \<or> ws_pass s = Escalating n e \<Longrightarrow> warned r k s"
    "ws_pass s = Holding n e r k \<Longrightarrow> warned r k s" for r k n e
    using assms(3) unfolding grounded_def by blast+
  show ?thesis
  proof (cases "ws_pass s")
    case (Due n el)
    have s': "ws_now s' = ws_now s" "wd_abort (ws_w s') = wd_abort (ws_w s)" "ws_pass s' = Flagged (\<not> wd_timeout (ws_w s)) n el"
      "wd_resolved (ws_w s') = (if wd_timeout (ws_w s) then wd_resolved (ws_w s) else Some (ws_now s))"
      "logged (ws_now s) (Marked (wd_abort (ws_w s)) (\<not> wd_timeout (ws_w s))) s'"
      using Due monitor_moves(1) by (simp_all add: monitor_move_def watch_fields)
    show ?thesis
    proof (cases "wd_timeout (ws_w s)")
      case True
      have "warned r k s'" if "wd_resolved (ws_w s) = Some r" "wd_abort (ws_w s) = Some k" for r k
        using g(1) [OF that] s'(5) that(2) True grow(2) unfolding warned_def by fastforce
      then show ?thesis using g(1) s' True grow(2) unfolding grounded_def by simp blast
    next
      case False
      have "\<exists>t m. logged t (Began k m) s' \<and> t \<le> ws_now s" if "wd_abort (ws_w s) = Some k" for k
        using flight_is_known [OF assms(2) that] assms(2) grow(2) by (auto simp: in_pass_def)
      then show ?thesis using s' False unfolding grounded_def by auto
    qed
  next
    case Waiting
    then show ?thesis using monitor_moves(1) g grow(2) move_worker
      unfolding grounded_def by (auto simp: monitor_move_def runningSince_def Let_def split: option.splits if_splits)
  next
    case (Flagged f n el)
    then show ?thesis using monitor_moves(1) g grow unfolding grounded_def by (auto simp: monitor_move_def)
  next
    case (Escalating n el)
    then show ?thesis using monitor_moves(1) g grow unfolding grounded_def
      by (auto simp: monitor_move_def resolvedAt_def split: option.splits)
  next
    case (Holding n el r k)
    then show ?thesis using monitor_moves(1) g grow unfolding grounded_def by (auto simp: monitor_move_def Let_def)
  qed
qed

lemma abandoned_next:
  assumes "watch_step mo s s'" "grounded s" "abandoned_late mo s"
  shows "abandoned_late mo s'"
proof -
  have grow: "warned r k s \<Longrightarrow> warned r k s'" for r k using step_grows [OF assms(1)] warned_grows by blast
  from assms(1) have "logged a (Aborted k) s \<or> (\<exists>n el r. a = ws_now s \<and> ws_pass s = Holding n el r k \<and> r + grace_of mo \<le> ws_now s)"
    if "logged a (Aborted k) s'" for a k
  proof cases
    case (monitor_moves rr)
    then show ?thesis using move_logged [of a "Aborted k" mo rr s] that by blast
  qed (use that in \<open>auto simp: watch_fields\<close>)
  note cases = this
  show ?thesis unfolding abandoned_late_def
  proof (intro allI impI)
    fix a k
    assume "logged a (Aborted k) s'"
    from cases [OF this] show "\<exists>r. warned r k s' \<and> r + grace_of mo \<le> a"
    proof
      assume "logged a (Aborted k) s"
      then obtain r where "warned r k s" "r + grace_of mo \<le> a" using assms(3) unfolding abandoned_late_def by blast
      then show ?thesis using grow by blast
    next
      assume "\<exists>n el r. a = ws_now s \<and> ws_pass s = Holding n el r k \<and> r + grace_of mo \<le> ws_now s"
      then obtain n el r where h: "a = ws_now s" "ws_pass s = Holding n el r k" "r + grace_of mo \<le> a" by blast
      then have "warned r k s" using assms(2) unfolding grounded_def by blast
      then show ?thesis using h(3) grow by blast
    qed
  qed
qed

subsection \<open>A case that is ended was late and was warned\<close>

lemma watch_reach_inv:
  "watch_reach mo t s \<Longrightarrow> in_pass s \<and> recorded s \<and> marks_stay s \<and> grounded s \<and> abandoned_late mo s"
proof (induction rule: watch_reach.induct)
  case watch_start
  show ?case by (simp add: quiet_watch_def in_pass_def recorded_def marks_stay_def grounded_def abandoned_late_def)
next
  case (watch_next s s')
  then show ?case using in_step_next recorded_next marks_stay_next grounded_next abandoned_next by blast
qed

text \<open>
  C9: The monitor ends a case only after it marked that very case late, at least the grace period
  before, and found it still running in a later pass; and however the threads interleave, a case the
  monitor has ended is judged late, so what it wrote by then is not its verdict.
\<close>

theorem ended_case_was_warned:
  assumes "watch_reach mo t s" "logged a (Aborted k) s"
  shows "(\<exists>b r u n. logged b (Began k n) s \<and> logged r (Marked (Some k) True) s \<and> logged u (Marked (Some k) False) s \<and>
      b \<le> r \<and> r \<le> u \<and> r + grace_of mo \<le> a) \<and>
    (\<forall>v late. logged v (Judged k late) s \<longrightarrow> late)"
proof -
  obtain r where w: "warned r k s" "r + grace_of mo \<le> a"
    using watch_reach_inv [OF assms(1)] assms(2) unfolding abandoned_late_def by blast
  then have "logged r (Marked (Some k) True) s" unfolding warned_def by blast
  then have "\<forall>v late. logged v (Judged k late) s \<longrightarrow> late"
    using watch_reach_inv [OF assms(1)] unfolding marks_stay_def by blast
  with w show ?thesis unfolding warned_def by blast
qed

subsection \<open>Who is struck\<close>

text \<open>
  A mark or a sweep hits a case at its time, unless the case began after the monitor had read
  another one as late.
\<close>

definition fair_hit :: "monitor_conf \<Rightarrow> int \<Rightarrow> nat \<Rightarrow> watch_state \<Rightarrow> bool" where
  "fair_hit mo u k s \<longleftrightarrow>
     (\<exists>t n. logged t (Began k n) s \<and>
        (t + mo_Timeout mo \<le> u \<or> (\<exists>j v. j \<noteq> k \<and> logged v (ReadDue j) s \<and> v \<le> t)))"

definition hits_fair :: "monitor_conf \<Rightarrow> watch_state \<Rightarrow> bool" where
  "hits_fair mo s \<longleftrightarrow>
     (\<forall>u k. logged u (Swept (Some k)) s \<or> (\<exists>b. logged u (Marked (Some k) b) s) \<longrightarrow> fair_hit mo u k s) \<and>
     (\<forall>f n el. ws_pass s = Due n el \<or> ws_pass s = Flagged f n el \<longrightarrow>
        (\<exists>j v. j < ws_next s \<and> logged v (ReadDue j) s \<and> v \<le> ws_now s) \<and>
        (\<forall>k. ws_phase s = InCase k \<longrightarrow> fair_hit mo (ws_now s) k s))"

lemma fair_hit_grows: "fair_hit mo u k s \<Longrightarrow> u \<le> u' \<Longrightarrow> set (ws_log s) \<subseteq> set (ws_log s') \<Longrightarrow> fair_hit mo u' k s'"
  unfolding fair_hit_def by (meson order_trans subsetD)

lemma hits_fairD:
  assumes "hits_fair mo s"
  shows "logged u (Swept (Some k)) s \<Longrightarrow> fair_hit mo u k s" "logged u (Marked (Some k) b) s \<Longrightarrow> fair_hit mo u k s"
    "ws_pass s = Due n el \<or> ws_pass s = Flagged f n el \<Longrightarrow> \<exists>j v. j < ws_next s \<and> logged v (ReadDue j) s \<and> v \<le> ws_now s"
    "ws_pass s = Due n el \<or> ws_pass s = Flagged f n el \<Longrightarrow> ws_phase s = InCase k \<Longrightarrow> fair_hit mo (ws_now s) k s"
  using assms unfolding hits_fair_def by blast+

lemma hits_fairI:
  assumes "\<And>u k. logged u (Swept (Some k)) s \<Longrightarrow> fair_hit mo u k s"
    "\<And>u k b. logged u (Marked (Some k) b) s \<Longrightarrow> fair_hit mo u k s"
    "\<And>f n el. ws_pass s = Due n el \<or> ws_pass s = Flagged f n el \<Longrightarrow>
       (\<exists>j v. j < ws_next s \<and> logged v (ReadDue j) s \<and> v \<le> ws_now s) \<and>
       (\<forall>k. ws_phase s = InCase k \<longrightarrow> fair_hit mo (ws_now s) k s)"
  shows "hits_fair mo s"
  using assms unfolding hits_fair_def by blast

text \<open>A step that adds no mark and no sweep keeps the hits fair if it keeps what is under way fair.\<close>

lemma hits_kept:
  assumes "watch_step mo s s'" "hits_fair mo s"
    and "\<And>u k b. logged u (Swept (Some k)) s' \<Longrightarrow> logged u (Swept (Some k)) s"
    and "\<And>u k b. logged u (Marked (Some k) b) s' \<Longrightarrow> logged u (Marked (Some k) b) s"
    and "ws_pass s' = ws_pass s \<or> (\<forall>f n el. ws_pass s' \<noteq> Due n el \<and> ws_pass s' \<noteq> Flagged f n el)"
    and "ws_next s \<le> ws_next s'" "\<And>k. ws_phase s' = InCase k \<Longrightarrow> ws_phase s = InCase k"
  shows "hits_fair mo s'"
proof (rule hits_fairI)
  note g = step_grows [OF assms(1)]
  show "fair_hit mo u k s'" if "logged u (Swept (Some k)) s'" for u k
    using hits_fairD(1) [OF assms(2) assms(3) [OF that]] g by (blast intro: fair_hit_grows)
  show "fair_hit mo u k s'" if "logged u (Marked (Some k) b) s'" for u k b
    using hits_fairD(2) [OF assms(2) assms(4) [OF that]] g by (blast intro: fair_hit_grows)
  fix f n el
  assume "ws_pass s' = Due n el \<or> ws_pass s' = Flagged f n el"
  then have p: "ws_pass s = Due n el \<or> ws_pass s = Flagged f n el" using assms(5) by auto
  then obtain j v where "j < ws_next s" "logged v (ReadDue j) s" "v \<le> ws_now s" using hits_fairD(3) [OF assms(2)] by blast
  then have "j < ws_next s'" "logged v (ReadDue j) s'" "v \<le> ws_now s'" using g assms(6) by (auto intro: order_trans)
  moreover have "fair_hit mo (ws_now s') k s'" if "ws_phase s' = InCase k" for k
    using hits_fairD(4) [OF assms(2) p assms(7) [OF that]] g by (blast intro: fair_hit_grows)
  ultimately show "(\<exists>j v. j < ws_next s' \<and> logged v (ReadDue j) s' \<and> v \<le> ws_now s') \<and>
      (\<forall>k. ws_phase s' = InCase k \<longrightarrow> fair_hit mo (ws_now s') k s')" by blast
qed

lemma hits_fair_next:
  assumes "watch_step mo s s'" "in_pass s" "hits_fair mo s"
  shows "hits_fair mo s'"
  using assms(1)
proof cases
  case (time_passes d)
  then show ?thesis by (intro hits_kept [OF assms(1,3)]) auto
next
  case (case_ends k)
  then show ?thesis by (intro hits_kept [OF assms(1,3)]) (auto simp: end_case_def)
next
  case (case_judged k)
  then show ?thesis by (intro hits_kept [OF assms(1,3)]) (auto simp: judge_case_def)
next
  case (case_begins n)
  note g = step_grows [OF assms(1)]
  show ?thesis
  proof (rule hits_fairI)
    show "fair_hit mo u k s'" if "logged u (Swept (Some k)) s'" for u k
      using hits_fairD(1) [OF assms(3), of u k] that case_begins(1) g by (auto simp: begin_case_def intro: fair_hit_grows)
    show "fair_hit mo u k s'" if "logged u (Marked (Some k) b) s'" for u k b
      using hits_fairD(2) [OF assms(3), of u k b] that case_begins(1) g by (auto simp: begin_case_def intro: fair_hit_grows)
    fix f m el
    assume "ws_pass s' = Due m el \<or> ws_pass s' = Flagged f m el"
    then have "ws_pass s = Due m el \<or> ws_pass s = Flagged f m el" using case_begins(1) by (simp add: begin_case_def)
    then obtain j v where "j < ws_next s" "logged v (ReadDue j) s" "v \<le> ws_now s" using hits_fairD(3) [OF assms(3)] by blast
    then have old: "j < ws_next s'" "j \<noteq> ws_next s" "logged v (ReadDue j) s'" "v \<le> ws_now s'"
      using case_begins(1) g by (auto simp: begin_case_def)
    moreover have "ws_phase s' = InCase (ws_next s)" "logged (ws_now s') (Began (ws_next s) n) s'"
      using case_begins(1) by (simp_all add: begin_case_def)
    moreover from this old have "fair_hit mo (ws_now s') (ws_next s) s'" unfolding fair_hit_def by blast
    ultimately show "(\<exists>j v. j < ws_next s' \<and> logged v (ReadDue j) s' \<and> v \<le> ws_now s') \<and>
        (\<forall>k. ws_phase s' = InCase k \<longrightarrow> fair_hit mo (ws_now s') k s')"
      by auto
  qed
next
  case (monitor_moves rr)
  note g = step_grows [OF assms(1)]
  have up: "fair_hit mo u k s \<Longrightarrow> fair_hit mo u k s'" for u k using g by (blast intro: fair_hit_grows)
  have new: "ws_pass s = Due n el \<or> ws_pass s = Flagged f n el \<Longrightarrow> wd_abort (ws_w s) = Some k \<Longrightarrow> fair_hit mo (ws_now s) k s" for n el f k
    using hits_fairD(4) [OF assms(3)] flight_is_known [OF assms(2)] by blast
  show ?thesis
  proof (rule hits_fairI)
    show "fair_hit mo u k s'" if "logged u (Swept (Some k)) s'" for u k
      using move_logged [of u "Swept (Some k)" mo rr s] that monitor_moves(1) hits_fairD(1) [OF assms(3), of u k] new up by auto
    show "fair_hit mo u k s'" if "logged u (Marked (Some k) b) s'" for u k b
      using move_logged [of u "Marked (Some k) b" mo rr s] that monitor_moves(1) hits_fairD(2) [OF assms(3), of u k b] new up by auto
    fix f n el
    assume p: "ws_pass s' = Due n el \<or> ws_pass s' = Flagged f n el"
    show "(\<exists>j v. j < ws_next s' \<and> logged v (ReadDue j) s' \<and> v \<le> ws_now s') \<and>
        (\<forall>k. ws_phase s' = InCase k \<longrightarrow> fair_hit mo (ws_now s') k s')"
    proof (cases "ws_pass s = Waiting")
      case True
      then obtain since k where c: "wd_current (ws_w s) = Some since" "\<not> ws_now s - since < mo_Timeout mo"
        using p monitor_moves(1) by (auto simp: monitor_move_def runningSince_def Let_def split: option.splits if_splits)
      then obtain k m where k: "ws_phase s = InCase k" "k < ws_next s" "wd_abort (ws_w s) = Some k" "logged since (Began k m) s"
        using assms(2) by (auto simp: in_pass_def split: case_phase.splits)
      then have "logged (ws_now s) (ReadDue k) s'" using True c monitor_moves(1) by (simp add: move_log)
      moreover have "fair_hit mo (ws_now s) k s" using k(4) c(2) by (force simp: fair_hit_def)
      ultimately show ?thesis using k up monitor_moves(1) by (auto simp: move_worker)
    next
      case False
      then obtain f' n' el' where "ws_pass s = Due n' el' \<or> ws_pass s = Flagged f' n' el'"
        using p monitor_moves(1) by (auto simp: monitor_move_def watch_fields resolvedAt_def split: mon_pass.splits option.splits if_splits)
      then show ?thesis using hits_fairD(3,4) [OF assms(3)] up monitor_moves(1) g by (simp add: move_worker) blast
    qed
  qed
qed

text \<open>
  The monitor marks or sweeps a case only if it has had its full time, with one exception: a case
  that began after the monitor had read an earlier one as late, before it acted on it.
\<close>

theorem struck_case_had_its_time:
  assumes "watch_reach mo t s" "logged u (Swept (Some k)) s \<or> logged u (Marked (Some k) b) s"
  shows "\<exists>v n. logged v (Began k n) s \<and>
    (v + mo_Timeout mo \<le> u \<or> (\<exists>j r. j \<noteq> k \<and> logged r (ReadDue j) s \<and> r \<le> v))"
proof -
  have "in_pass s \<and> hits_fair mo s" using assms(1)
  proof (induction rule: watch_reach.induct)
    case watch_start
    show ?case by (simp add: quiet_watch_def in_pass_def hits_fair_def)
  next
    case (watch_next s s')
    then show ?case using in_step_next hits_fair_next by blast
  qed
  then show ?thesis using assms(2) hits_fairD(1,2) unfolding fair_hit_def by blast
qed

subsection \<open>A case that nobody else ends\<close>

definition stuck_case :: "nat \<Rightarrow> int \<Rightarrow> int option \<Rightarrow> watch_state \<Rightarrow> bool" where
  "stuck_case k t0 ro s \<longleftrightarrow>
     ws_pass s = Waiting \<and> wd_current (ws_w s) = Some t0 \<and> wd_abort (ws_w s) = Some k \<and>
     wd_resolved (ws_w s) = ro \<and> (wd_timeout (ws_w s) \<longleftrightarrow> ro \<noteq> None)"

lemmas poll_defs = poll_def monitor_move_def stuck_case_def watch_fields runningSince_def resolvedAt_def logs_def

lemma poll_young: "stuck_case k t0 None s \<Longrightarrow> t - t0 < mo_Timeout mo \<Longrightarrow> stuck_case k t0 None (poll mo rr t s)"
  by (simp add: poll_defs)

lemma poll_first: "stuck_case k t0 None s \<Longrightarrow> \<not> t - t0 < mo_Timeout mo \<Longrightarrow> stuck_case k t0 (Some t) (poll mo rr t s)"
  by (simp add: poll_defs)

lemma poll_patient:
  "stuck_case k t0 (Some r) s \<Longrightarrow> \<not> t - t0 < mo_Timeout mo \<Longrightarrow> t - r < grace_of mo \<Longrightarrow> stuck_case k t0 (Some r) (poll mo rr t s)"
  by (simp add: poll_defs)

lemma poll_ends:
  "stuck_case k t0 (Some r) s \<Longrightarrow> \<not> t - t0 < mo_Timeout mo \<Longrightarrow> \<not> t - r < grace_of mo \<Longrightarrow> 0 < grace_of mo \<Longrightarrow>
   logged t (Aborted k) (poll mo rr t s)"
  by (simp add: poll_defs)

lemma poll_keeps:
  assumes "P (s\<lparr>ws_now := t\<rparr>)" "\<And>u. P u \<Longrightarrow> P (monitor_move mo rr u)"
  shows "P (poll mo rr t s)"
  using assms by (simp add: poll_def Let_def)

lemma poll_grows: "set (ws_log s) \<subseteq> set (ws_log (poll mo rr t s))"
  by (rule poll_keeps) (auto simp: move_log)

lemma polls_grow: "set (ws_log s) \<subseteq> set (ws_log (fold (\<lambda>t. poll mo (rr t) t) ts s))"
  by (induction ts arbitrary: s) (use poll_grows in force)+

lemma stuck_warned_ends:
  assumes "0 < grace_of mo"
  shows "stuck_case k t0 (Some r) s \<Longrightarrow> sorted_wrt (<) ts \<Longrightarrow> \<forall>t \<in> set ts. t0 + mo_Timeout mo \<le> t \<Longrightarrow> b \<in> set ts \<Longrightarrow>
    r + grace_of mo \<le> b \<Longrightarrow> \<exists>e \<le> b. logged e (Aborted k) (fold (\<lambda>t. poll mo (rr t) t) ts s)"
proof (induction ts arbitrary: s)
  case (Cons t ts)
  show ?case
  proof (cases "t - r < grace_of mo")
    case True
    then have "b \<in> set ts" "stuck_case k t0 (Some r) (poll mo (rr t) t s)"
      using Cons.prems poll_patient [OF Cons.prems(1) _ True] by auto
    then show ?thesis using Cons by simp
  next
    case False
    have "t \<le> b" using Cons.prems(2,4) by auto
    moreover have "logged t (Aborted k) (poll mo (rr t) t s)"
      using poll_ends [OF Cons.prems(1) _ False assms] Cons.prems(3) by simp
    ultimately show ?thesis using polls_grow [of "poll mo (rr t) t s" mo rr ts] by auto
  qed
qed simp

lemma stuck_ends:
  assumes "0 < grace_of mo"
  shows "stuck_case k t0 None s \<Longrightarrow> sorted_wrt (<) ts \<Longrightarrow> a \<in> set ts \<Longrightarrow> b \<in> set ts \<Longrightarrow> t0 + mo_Timeout mo \<le> a \<Longrightarrow>
    a + grace_of mo \<le> b \<Longrightarrow> \<exists>e \<le> b. logged e (Aborted k) (fold (\<lambda>t. poll mo (rr t) t) ts s)"
proof (induction ts arbitrary: s)
  case (Cons t ts)
  show ?case
  proof (cases "t - t0 < mo_Timeout mo")
    case True
    then have "a \<in> set ts" "b \<in> set ts" using Cons.prems assms by auto
    then show ?thesis using Cons poll_young [OF Cons.prems(1) True] by simp
  next
    case False
    have "t \<le> a" using Cons.prems(2,3) by auto
    then have "b \<in> set ts" using Cons.prems(4,6) assms by auto
    moreover have "\<forall>u \<in> set ts. t0 + mo_Timeout mo \<le> u" using Cons.prems(2) False by auto
    ultimately show ?thesis
      using stuck_warned_ends [OF assms poll_first [OF Cons.prems(1) False], of ts b] Cons.prems(2,6) \<open>t \<le> a\<close> by simp
  qed
qed simp

text \<open>
  C24: A case that never ends by itself is ended by the monitor: if it is looked at with gaps of at most
  \<open>p\<close>, then within its timeout, the grace period and two gaps.
\<close>

theorem stuck_case_is_ended:
  assumes "ws_pass s = Waiting" "sorted_wrt (<) ts" "0 \<le> mo_EscalateAfter mo" "0 \<le> p"
    and "e = ws_now s + mo_Timeout mo + grace_of mo + 2 * p"
    and "\<forall>x. ws_now s \<le> x \<longrightarrow> x + p \<le> e \<longrightarrow> (\<exists>t \<in> set ts. x \<le> t \<and> t \<le> x + p)" "0 < mo_Timeout mo"
  shows "\<exists>a \<le> e. logged a (Aborted (ws_next s)) (fold (\<lambda>t. poll mo (rr t) t) ts (begin_case n s))"
proof -
  have g: "0 < grace_of mo" using assms(3) by (simp add: grace_of_def EscalateAfter_def go_second_def)
  have "\<exists>a \<in> set ts. ws_now s + mo_Timeout mo \<le> a \<and> a \<le> ws_now s + mo_Timeout mo + p"
    using assms(6) [rule_format, of "ws_now s + mo_Timeout mo"] assms(4,5,7) g by simp
  then obtain a where a: "a \<in> set ts" "ws_now s + mo_Timeout mo \<le> a" "a \<le> ws_now s + mo_Timeout mo + p" by blast
  then have "\<exists>b \<in> set ts. a + grace_of mo \<le> b \<and> b \<le> a + grace_of mo + p"
    using assms(5,7) g by (intro assms(6) [rule_format]) simp_all
  then obtain b where b: "b \<in> set ts" "a + grace_of mo \<le> b" "b \<le> a + grace_of mo + p" by blast
  have "stuck_case (ws_next s) (ws_now s) None (begin_case n s)"
    using assms(1) by (simp add: stuck_case_def begin_case_def beginCase_def)
  from stuck_ends [OF g this assms(2) a(1) b(1) a(2) b(2), of rr] obtain z
    where "z \<le> b" "logged z (Aborted (ws_next s)) (fold (\<lambda>t. poll mo (rr t) t) ts (begin_case n s))" by blast
  moreover have "b \<le> e" using a(3) b(3) assms(5) by simp
  ultimately show ?thesis by (meson order_trans)
qed

subsection \<open>Small runs\<close>

lemma poll_reach:
  assumes "watch_reach mo t0 s" "0 < mo_Timeout mo" "ws_now s \<le> t"
  shows "watch_reach mo t0 (poll mo rr t s)"
proof (rule poll_keeps)
  have "watch_step mo s (s\<lparr>ws_now := ws_now s + (t - ws_now s)\<rparr>)" using assms(3) by (intro time_passes) simp
  then show "watch_reach mo t0 (s\<lparr>ws_now := t\<rparr>)" using watch_next [OF assms(1)] by simp
  show "watch_reach mo t0 (monitor_move mo rr u)" if "watch_reach mo t0 u" for u
    using watch_next [OF that monitor_moves [OF assms(2)]] .
qed

definition small_watch :: monitor_conf where "small_watch = \<lparr>mo_Timeout = 5, mo_EscalateAfter = 3\<rparr>"
definition small_answer :: sh_answer where "small_answer = Inr \<lparr>sh_out = [], sh_err = [], sh_exit = 0\<rparr>"
definition small_state :: watch_state where "small_state = begin_case ''a'' (quiet_watch 0)"

lemmas small_run = small_watch_def small_state_def quiet_watch_def poll_defs grace_of_def

lemma small_reach: "watch_reach small_watch 0 small_state"
  unfolding small_state_def by (rule watch_next [OF watch_start case_begins]) (simp add: quiet_watch_def)

lemma small_abandoned:
  "watch_reach small_watch 0 (poll small_watch small_answer 9 (poll small_watch small_answer 6 small_state))"
  "logged 9 (Aborted 0) (poll small_watch small_answer 9 (poll small_watch small_answer 6 small_state))"
proof -
  show "logged 9 (Aborted 0) (poll small_watch small_answer 9 (poll small_watch small_answer 6 small_state))"
    by (simp add: small_run)
  have "ws_now small_state = 0" by (simp add: small_run)
  then have r: "watch_reach small_watch 0 (poll small_watch small_answer 6 small_state)"
    by (intro poll_reach small_reach) (simp_all add: small_watch_def)
  show "watch_reach small_watch 0 (poll small_watch small_answer 9 (poll small_watch small_answer 6 small_state))"
    by (rule poll_reach [OF r]) (simp_all add: small_run)
qed

theorem ended_case_was_warned_witness:
  "\<exists>b r u n. let s = poll small_watch small_answer 9 (poll small_watch small_answer 6 small_state) in
     logged b (Began 0 n) s \<and> logged r (Marked (Some 0) True) s \<and> logged u (Marked (Some 0) False) s \<and> b \<le> r \<and> r \<le> u \<and> r + 3 \<le> 9"
  using ended_case_was_warned [OF small_abandoned] by (simp add: Let_def grace_of_def small_watch_def)

theorem stuck_case_is_ended_witness:
  "\<exists>a \<le> 14. logged a (Aborted 0) (fold (\<lambda>t. poll small_watch small_answer t) [3, 6, 9, 12] (begin_case ''a'' (quiet_watch 0)))"
proof -
  have "\<exists>a \<le> (14 :: int). logged a (Aborted (ws_next (quiet_watch 0)))
      (fold (\<lambda>t. poll small_watch small_answer t) [3, 6, 9, 12] (begin_case ''a'' (quiet_watch 0)))"
    by (rule stuck_case_is_ended [where p = 3]) (auto simp: quiet_watch_def small_watch_def grace_of_def)
  then show ?thesis by (simp add: quiet_watch_def)
qed

subsection \<open>A case struck before its time\<close>

text \<open>
  The pass is not one step: the case it read as late may end, and the next one begin, before the mark
  is set. The mark, and then the sweep, hit the case that has just begun, and it is judged late.
\<close>

definition between_mark :: watch_state where
  "between_mark = begin_case ''b'' (judge_case 0 (end_case 0 (monitor_move small_watch small_answer (small_state\<lparr>ws_now := ws_now small_state + 5\<rparr>))))"

definition struck :: watch_state where
  "struck = judge_case 1 (end_case 1 (monitor_move small_watch small_answer (monitor_move small_watch small_answer between_mark)))"

lemma fresh_case_is_struck:
  "watch_reach small_watch 0 struck" "logged 5 (Began 1 ''b'') struck" "logged 5 (Swept (Some 1)) struck" "logged 5 (Judged 1 True) struck"
proof -
  have T: "0 < mo_Timeout small_watch" by (simp add: small_watch_def)
  have "watch_reach small_watch 0 (monitor_move small_watch small_answer (small_state\<lparr>ws_now := ws_now small_state + 5\<rparr>))"
    by (intro watch_next [OF watch_next [OF small_reach time_passes] monitor_moves [OF T]]) simp
  then have "watch_reach small_watch 0 between_mark"
    unfolding between_mark_def
    by (intro watch_next [OF watch_next [OF watch_next [OF _ case_ends] case_judged] case_begins]) (simp_all add: small_run)
  then show "watch_reach small_watch 0 struck"
    unfolding struck_def
    by (intro watch_next [OF watch_next [OF watch_next [OF watch_next [OF _ monitor_moves [OF T]] monitor_moves [OF T]] case_ends] case_judged])
      (simp_all add: between_mark_def small_run)
  show "logged 5 (Began 1 ''b'') struck" "logged 5 (Swept (Some 1)) struck" "logged 5 (Judged 1 True) struck"
    by (simp_all add: struck_def between_mark_def small_run)
qed

theorem struck_case_had_its_time_witness:
  "\<exists>v n. logged v (Began 1 n) struck \<and> (v + 5 \<le> 5 \<or> (\<exists>j r. j \<noteq> 1 \<and> logged r (ReadDue j) struck \<and> r \<le> v))"
  using struck_case_had_its_time [OF fresh_case_is_struck(1) disjI1 [OF fresh_case_is_struck(3)]] by (simp add: small_watch_def)

end
