(* ===== verification/Isolation.thy ===== *)
theory Isolation
  imports Shell_Worker Topology
begin

text \<open>
  The isolation suite around its controller, \<open>internal/runner/isolationsuite\<close>: the scripts it sends and
  what it reads of their output (\<open>script.go\<close>), its cases and exclusions (\<open>cases.go\<close>), the verdict
  (\<open>verdict.go\<close>) and the worker (\<open>worker.go\<close>). As for the shell worker, the worker's state holds the
  machine, the queue and the files of the run; \<open>Isolation_Crew\<close> has the workers of a run, which share them.
\<close>

subsection \<open>Scripts\<close>

definition general :: string where
  "general = script_lines
     [''if [ '' @ [quot] @ ''${CTP_HOME}'' @ [quot] @ '' == '' @ [quot, quot] @ '' ]; then'',
      ''  if which ctp.sh >/dev/null 2>&1 ; then'',
      ''    CTP_HOME=$(dirname $(readlink -f '' @ [tick_char] @ ''which ctp.sh'' @ [tick_char] @ ''))/..'',
      ''  elif [ ! '' @ [quot] @ ''${init_path}'' @ [quot] @ '' == '' @ [quot, quot] @ '' ]; then'',
      ''    CTP_HOME=${init_path}/../..'',
      ''  fi'', ''fi'',
      ''ulimit -c unlimited'',
      ''if [ '' @ [quot] @ ''${CTP_HOME}'' @ [quot] @ '' != '' @ [quot, quot] @ '' ]; then'',
      ''  export CTP_HOME=$(cd ${CTP_HOME}; pwd)'',
      ''  export PATH=${CTP_HOME}/bin:${CTP_HOME}/common/script:$PATH'',
      ''fi'', ''cd'', []]"

definition isolationInit :: string where
  "isolationInit = script_lines [''export ctlpath=${CTP_HOME}/isolation/ctltool'', ''export PATH=${ctlpath}:$PATH'', []]"

definition shellInit :: string where
  "shellInit = script_lines [''export init_path=${CTP_HOME}/shell/init_path'', []]"

definition assemble :: "string \<Rightarrow> string list \<Rightarrow> string" where
  "assemble before commands = before @ concat (map (\<lambda>c. c @ [LF]) commands)"

definition isolationScript :: "string list \<Rightarrow> string" where
  "isolationScript = assemble (general @ isolationInit)"

definition generalScript :: "string list \<Rightarrow> string" where
  "generalScript = assemble general"

definition shellScript :: "string list \<Rightarrow> string" where
  "shellScript = assemble (general @ shellInit)"

definition startMock :: string where "startMock = ''ALL_${NOTEXIST}STARTED''"
definition compMock :: string where "compMock = ''ALL_${NOTEXIST}COMPLETED''"

definition mock_script :: "string \<Rightarrow> string" where
  "mock_script script = Profile @ [LF] @ ''echo '' @ startMock @ [LF] @ script @ ''echo '' @ compMock @ [LF]"

definition mock_run :: "'m sh_channel \<Rightarrow> string \<Rightarrow> 'm \<Rightarrow> sh_answer \<times> 'm" where
  "mock_run ch script = ch (mock_script script)"

definition java_space :: "char \<Rightarrow> bool" where "java_space c \<longleftrightarrow> char_nat c \<le> 32"

definition java_trim :: "string \<Rightarrow> string" where
  "java_trim s = rev (dropWhile java_space (rev (dropWhile java_space s)))"

definition mock_output :: "string \<Rightarrow> string" where
  "mock_output s0 =
     (let s1 = (case index_of s0 startFlagLiteral of None \<Rightarrow> s0 | Some p \<Rightarrow> drop (p + length startFlagLiteral) s0);
          s2 = (case index_of s1 compFlagLiteral of None \<Rightarrow> s1 | Some p \<Rightarrow> take p s1)
      in java_trim s2)"

record iso_options =
  io_retries :: int
  io_timeout :: string
  io_client :: string
  io_backupCore :: bool

definition clientFor :: "string \<Rightarrow> string" where
  "clientFor testdb =
     (let v = to_lower (trim_space testdb) in
      if v = [] \<or> v = ''cubrid'' then ''qacsql'' else if v = ''mysql'' then ''qamysql'' else ''null'')"

definition optionsOf :: "config \<Rightarrow> iso_options" where
  "optionsOf cfg =
     (let v = GetOr cfg ''testcase_retry_num'' ''0'' in
      \<lparr>io_retries = (if v = [] then 0 else (case atoi (trim_space v) of None \<Rightarrow> 0 | Some n \<Rightarrow> if 0 < n then n else 0)),
       io_timeout = GetOr cfg ''testcase_timeout_in_secs'' (itoa (2 ^ 31 - 1)),
       io_client = clientFor (GetOr cfg ''cubrid_testdb_name'' []),
       io_backupCore = Bool cfg ''backup_core_file_yn'' False\<rparr>)"

definition runoneScript :: "string \<Rightarrow> iso_options \<Rightarrow> string" where
  "runoneScript tc opts =
     (let path0 = trim_space tc; path = (if has_prefix path0 ''/'' then path0 else ''$HOME/'' @ path0);
          core = (if io_backupCore opts then [] else '' -n '')
      in isolationScript [[], ''ulimit -c unlimited'', ''export TEST_ID=0'', ''cd $ctlpath'',
           ''sh runone.sh '' @ core @ '' -r '' @ itoa (io_retries opts + 1) @ '' '' @ path @ '' '' @ io_timeout opts @ '' '' @
             io_client opts @ '' 2>&1''])"

definition diffScript :: "string \<Rightarrow> string" where
  "diffScript tc0 =
     (let tc = replace_all tc0 [BS] ''/'';
          dn = (case last_index_of tc ''/'' of None \<Rightarrow> (''.'', tc) | Some p \<Rightarrow> (take p tc, drop (p + 1) tc));
          dir = fst dn; name = replace_all (snd dn) ''.ctl'' [];
          answer = dir @ ''/answer/'' @ name @ ''.answer''; result = dir @ ''/result/'' @ name @ ''.log''
      in isolationScript [''cd '', ''touch '' @ result, ''mkdir -p '' @ dir @ ''/result/'',
           ''diff -a -y -W 185 '' @ answer @ '' '' @ result])"

definition kill_query :: "string \<Rightarrow> string" where
  "kill_query name = ''ps -u $USER -f| grep -v grep | grep '' @ name @ '' | awk '' @ [SQUOTE] @ ''{print $2}'' @ [SQUOTE]"

definition iso_killScript :: string where
  "iso_killScript = ''cubrid service stop'' @ [LF] @
     concat (map (\<lambda>n. kill_query n @ '' | xargs -i kill -9 {} '' @ [LF] @
         ''kill -9 '' @ [tick_char] @ kill_query n @ [tick_char] @ [LF, LF])
       [''cub_admin'', ''cub_master'', ''cub_server''])"

definition installScript :: "string \<Rightarrow> string" where
  "installScript buildID =
     (case atoi (hd (split_on (CHR ''.'') buildID)) of
        None \<Rightarrow> isolationScript []
      | Some major \<Rightarrow>
          if major < 10 then isolationScript []
          else isolationScript [''echo inquire_on_exit=3 >> $CUBRID/conf/cubrid.conf''])"

subsection \<open>Cases\<close>

definition dirNotFound :: string where "dirNotFound = ''DIR_NOT_FOUND''"

datatype scenario_error = ScenarioRun cmd_error | NoScenario

text \<open>The scenario as the runs name it, from what the two scripts printed.\<close>

definition relative_scenario :: "string \<Rightarrow> string \<Rightarrow> string \<Rightarrow> scenario_error + string" where
  "relative_scenario root home dir =
     (if contains dir dirNotFound then Inl NoScenario
      else if has_prefix dir home then
        Inr (if length home < length dir then drop (length home + 1) dir else ''.'')
      else Inr (trim_space root))"

definition resolveScenario :: "'m sh_channel \<Rightarrow> string \<Rightarrow> 'm \<Rightarrow> (scenario_error + string) \<times> 'm" where
  "resolveScenario ch root m =
     (case mock_run ch (isolationScript [''echo $(cd $HOME; pwd)'']) m of
        (Inl e, m1) \<Rightarrow> (Inl (ScenarioRun e), m1)
      | (Inr r, m1) \<Rightarrow>
         (case mock_run ch (isolationScript [''if [ ! -d '' @ root @ '' ]; then echo '' @ dirNotFound @ ''; fi'',
              ''echo $(cd '' @ root @ ''; pwd)'']) m1 of
            (Inl e, m2) \<Rightarrow> (Inl (ScenarioRun e), m2)
          | (Inr r2, m2) \<Rightarrow> (relative_scenario root (mock_output (sh_out r)) (mock_output (sh_out r2)), m2)))"

definition iso_discover :: "'m sh_channel \<Rightarrow> string \<Rightarrow> 'm \<Rightarrow> (cmd_error + string list) \<times> 'm" where
  "iso_discover ch root m =
     (case mock_run ch (isolationScript [''cd '', ''find '' @ root @ '' -name '' @ [quot] @ ''*.ctl'' @ [quot] @ '' -type f -print'']) m of
        (Inl e, m1) \<Rightarrow> (Inl e, m1)
      | (Inr r, m1) \<Rightarrow>
          (Inr (sort_strings (filter (\<lambda>l. l \<noteq> []) (map trim_space (split_on LF (mock_output (sh_out r)))))), m1))"

definition exclusionEntries :: "string \<Rightarrow> string list" where
  "exclusionEntries txt =
     filter (\<lambda>line. let s = trim_space line in \<not> (s = [] \<or> has_prefix s ''#'' \<or> has_prefix s ''--'')) (split_on LF txt)"

datatype exclusion_error = ExclusionRun cmd_error | Unreadable

definition exclusions :: "'m sh_channel \<Rightarrow> string \<Rightarrow> 'm \<Rightarrow> (exclusion_error + string list) \<times> 'm" where
  "exclusions ch name0 m =
     (let name = trim_space name0 in
      case mock_run ch (isolationScript [''cd > /dev/null 2>&1'', ''if [ -r '' @ name @ '' ]; then echo readable; fi'']) m of
        (Inl e, m1) \<Rightarrow> (Inl (ExclusionRun e), m1)
      | (Inr r, m1) \<Rightarrow>
          if mock_output (sh_out r) \<noteq> ''readable'' then (Inl Unreadable, m1)
          else (case mock_run ch (isolationScript [''cd > /dev/null 2>&1'', ''cat '' @ name]) m1 of
              (Inl e, m2) \<Rightarrow> (Inl (ExclusionRun e), m2)
            | (Inr r2, m2) \<Rightarrow> (Inr (exclusionEntries (mock_output (sh_out r2))), m2)))"

text \<open>The first case an entry is part of.\<close>

fun take_first :: "string \<Rightarrow> string list \<Rightarrow> string option \<times> string list" where
  "take_first e [] = (None, [])"
| "take_first e (c # cs) =
     (if contains c e then (Some c, cs) else (case take_first e cs of (x, ds) \<Rightarrow> (x, c # ds)))"

definition exclude_entry :: "string \<Rightarrow> string list \<times> string list \<Rightarrow> string list \<times> string list" where
  "exclude_entry e s =
     (case s of (kept, skipped) \<Rightarrow>
        (case take_first e kept of (None, _) \<Rightarrow> s | (Some c, kept') \<Rightarrow> (kept', skipped @ [c])))"

definition iso_exclude :: "string list \<Rightarrow> string list \<Rightarrow> string list \<times> string list" where
  "iso_exclude found entries = fold exclude_entry entries (found, [])"

subsection \<open>The verdict\<close>

record iso_verdict =
  iv_ok :: bool
  iv_hasCore :: bool
  iv_items :: "string list"

definition okMarker :: string where "okMarker = ''flag: OK''"
definition nokMarker :: string where "nokMarker = ''flag: NOK''"
definition coreMarker :: string where "coreMarker = ''found core file''"
definition fatalMarker :: string where "fatalMarker = ''found fatal error''"

definition iso_item :: "string \<Rightarrow> string \<Rightarrow> string" where
  "iso_item flag msg = '' : '' @ flag @ '' '' @ msg"

definition item_line :: "string \<Rightarrow> string" where
  "item_line line = trim_space (replace_all (trim_space line) [SQUOTE] [])"

definition note_once :: "string \<Rightarrow> string list \<Rightarrow> string list" where
  "note_once l out = (if l \<in> set out then out else out @ [l])"

text \<open>
  From each occurrence to the end of its line; the search goes on at the line's end. A word that is empty
  or begins with a line end would never get past it; the suite has two words, neither such.
\<close>

function items_from :: "string \<Rightarrow> string \<Rightarrow> string list \<Rightarrow> string list" where
  "items_from src word out =
     (case index_of src word of None \<Rightarrow> out
      | Some i \<Rightarrow>
          (let at = drop i src in
           case index_of at [LF] of
             None \<Rightarrow> note_once (item_line at) out
           | Some e \<Rightarrow>
               if word = [] \<or> e = 0 then note_once (item_line (take e at)) out
               else items_from (drop e at) word (note_once (item_line (take e at)) out)))"
  by pat_completeness auto
termination by (relation "measure (\<lambda>(src, _, _). length src)") (auto dest!: index_of_Some)

declare items_from.simps [simp del]

definition extractItems :: "string \<Rightarrow> string \<Rightarrow> string list" where
  "extractItems src word = items_from src word []"

definition last_at_least :: "nat option \<Rightarrow> int" where
  "last_at_least p = (case p of None \<Rightarrow> - 1 | Some i \<Rightarrow> int i)"

definition judge :: "string \<Rightarrow> iso_verdict" where
  "judge out =
     (let lastNOK = last_at_least (last_index_of out nokMarker); lastOK = last_at_least (last_index_of out okMarker);
          ok0 = (\<not> lastOK < lastNOK);
          errs = extractItems out coreMarker @ extractItems out fatalMarker;
          v = (if errs = [] then \<lparr>iv_ok = ok0, iv_hasCore = False, iv_items = []\<rparr>
               else \<lparr>iv_ok = False, iv_hasCore = True, iv_items = map (iso_item ''NOK'') errs\<rparr>)
      in if iv_ok v \<and> lastOK = - 1
         then v\<lparr>iv_ok := False, iv_items := iv_items v @ [iso_item ''NOK'' ''Not found OK word.'']\<rparr> else v)"

definition diffBanner :: string where
  "diffBanner = replicate 67 (CHR ''='') @ '' D I F F '' @ replicate 67 (CHR ''='')"

definition iso_resultText :: "iso_verdict \<Rightarrow> string \<Rightarrow> string" where
  "iso_resultText v d =
     concat (map (\<lambda>i. i @ [LF]) (iv_items v)) @ (if iv_ok v then [] else diffBanner @ [LF] @ d @ [LF])"

definition crlf :: "string \<Rightarrow> string" where
  "crlf d = (if contains d [CR, LF] then d else replace_all d [LF] [CR, LF])"

definition firstAttempt :: "string \<Rightarrow> bool" where
  "firstAttempt out \<longleftrightarrow> length (filter (\<lambda>l. has_prefix l ''+ elapse='') (tl (split_on LF out))) = 1"

subsection \<open>The worker\<close>

record 'm iso_env =
  ie_slot :: string
  ie_envID :: string
  ie_ch :: "'m sh_channel"
  ie_opts :: iso_options
  ie_cubrid :: string
  ie_ctltool :: string
  ie_home :: string
  ie_dir :: string
  ie_took :: "'m \<Rightarrow> 'm \<Rightarrow> int"

record ('m, 'e) iso_worker =
  iw_m :: 'm
  iw_queue :: "'e queue"
  iw_sink :: sink
  iw_crashes :: "string list"
  iw_cores :: "string list"
  iw_fatals :: "(string \<times> int) list"
  iw_page :: "page_note list"
  iw_report :: "report_note list"
  iw_meter :: "(string \<times> string \<times> int \<times> bool) list"

definition iso_identify :: "'m iso_env \<Rightarrow> string" where
  "iso_identify ie = ''EnvId='' @ ie_envID ie @ ''[local]''"

definition liveResult :: "string \<Rightarrow> string \<Rightarrow> string" where
  "liveResult home tc =
     (let p0 = trim_space tc; p = (if path_abs p0 then p0 else path_join [home, p0]);
          name = after_last (CHR ''/'') p
      in path_join [take (length p - length name) p, ''result'', replace_all name ''.ctl'' [] @ ''.result''])"

definition failed_with :: "string \<Rightarrow> iso_verdict \<Rightarrow> iso_verdict" where
  "failed_with why v = v\<lparr>iv_ok := False, iv_hasCore := True, iv_items := iv_items v @ [iso_item ''NOK'' why]\<rparr>"

text \<open>What a server that died left: reports, cores and fatal lines, in this order.\<close>

definition checkTheWreckage :: "'m iso_env \<Rightarrow> string \<Rightarrow> iso_verdict \<Rightarrow> ('m, 'e) iso_worker \<Rightarrow> iso_verdict \<times> ('m, 'e) iso_worker" where
  "checkTheWreckage ie tc v w =
     (let dir = path_join [ie_dir ie, ''crash''] in
      case Crashes (ie_ch ie) (ie_cubrid ie) (iw_crashes w) (iw_m w) of (crs, seen1, m1) \<Rightarrow>
        (let v1 = fold (\<lambda>c. failed_with (''found crash report '' @ crash_String c)) crs v;
             m2 = fold (\<lambda>c m. snd (Keep_report (ie_ch ie) c dir tc m)) crs m1
         in case Cores (ie_ch ie) (iw_cores w) [ie_cubrid ie, ie_ctltool ie, path_dir tc] m2 of (cores, seen2, m3) \<Rightarrow>
           (let v2 = fold (\<lambda>c. failed_with (''found core file '' @ c)) cores v1;
                m4 = fold (\<lambda>c m. snd (KeepStack (ie_ch ie) c dir tc m)) cores m3
            in case Fatals (ie_ch ie) (ie_cubrid ie) (iw_fatals w) m4 of (fatals, seen3, m5) \<Rightarrow>
              (fold (\<lambda>f. failed_with (''found fatal error in '' @ f)) fatals v2,
               w\<lparr>iw_m := m5, iw_crashes := seen1, iw_cores := seen2, iw_fatals := seen3\<rparr>))))"

definition diff_of :: "'m iso_env \<Rightarrow> string \<Rightarrow> 'm \<Rightarrow> string \<times> 'm" where
  "diff_of ie tc m =
     (case mock_run (ie_ch ie) (diffScript tc) m of
        (Inl e, m1) \<Rightarrow> (crlf (''DIFF ERROR: '' @ error_text e), m1)
      | (Inr r, m1) \<Rightarrow> (crlf (mock_output (sh_out r)), m1))"

text \<open>What the attempt said: its output, if there is one, the verdict read from it, and whether it was the first.\<close>

definition attempt :: "'m iso_env \<Rightarrow> string \<Rightarrow> 'm \<Rightarrow> (string list \<times> iso_verdict \<times> bool) \<times> 'm" where
  "attempt ie tc m =
     (case mock_run (ie_ch ie) (runoneScript tc (ie_opts ie)) m of
        (Inl e, m1) \<Rightarrow>
          (([], \<lparr>iv_ok = False, iv_hasCore = False, iv_items = [iso_item ''NOK'' (''Runtime error ('' @ error_text e @ '')'')]\<rparr>, False), m1)
      | (Inr r, m1) \<Rightarrow> (let out = mock_output (sh_out r) in (([out], judge out, firstAttempt out), m1)))"

text \<open>
  A ticket in its three parts, which other workers' steps may come between: the case is judged and its verdict
  reported; it is entered in the files of the run; the queue is told.
\<close>

definition iso_judged :: "'m iso_env \<Rightarrow> ticket \<Rightarrow> ('m, 'e) iso_worker \<Rightarrow> (iso_verdict \<times> string list) \<times> ('m, 'e) iso_worker" where
  "iso_judged ie t w0 =
     (let tc = t_case t;
          w1 = w0\<lparr>iw_report := iw_report w0 @ [CaseStart tc (iso_identify ie)],
                 iw_page := iw_page w0 @ [Begin tc, Live tc (liveResult (ie_home ie) tc)]\<rparr>
      in case attempt ie tc (iw_m w1) of ((outs, v0, first), m1) \<Rightarrow>
        (case checkTheWreckage ie tc v0 (w1\<lparr>iw_m := m1\<rparr>) of (v, w2) \<Rightarrow>
          (let elapsed = ie_took ie (iw_m w0) (iw_m w2);
               w3 = w2\<lparr>iw_meter := iw_meter w2 @ [(tc, tc, elapsed, iv_ok v \<and> first)]\<rparr>;
               lines = [''[TESTCASE] '' @ tc] @ outs @ iv_items v
           in case (if iv_ok v then ([], iw_m w3) else diff_of ie tc (iw_m w3)) of (d, m4) \<Rightarrow>
             (let ev = \<lparr>ev_Case = tc, ev_EnvID = iso_identify ie, ev_Success = iv_ok v, ev_Elapsed = elapsed,
                    ev_ResultText = iso_resultText v d, ev_LastPass = [], ev_TimedOut = False,
                    ev_HasCore = iv_hasCore v, ev_RetryCount = 0\<rparr>
              in ((v, lines), w3\<lparr>iw_m := m4, iw_page := iw_page w3 @ [Live tc [], End tc (iv_ok v)],
                     iw_report := iw_report w3 @ [CaseStop ev]\<rparr>)))))"

definition iso_entered :: "'m iso_env \<Rightarrow> ticket \<Rightarrow> iso_verdict \<Rightarrow> string list \<Rightarrow> ('m, 'e) iso_worker \<Rightarrow> ('m, 'e) iso_worker" where
  "iso_entered ie t v lines w =
     w\<lparr>iw_sink := Finish_case (ie_envID ie) (t_case t)
         (WorkerLines (ie_envID ie) (lines @ [[]]) (TestCase (t_case t) (ie_envID ie) (iv_ok v) 0 0 (iw_sink w)))\<rparr>"

definition iso_completed :: "ticket \<Rightarrow> iso_verdict \<Rightarrow> ('m, 'e) iso_worker \<Rightarrow> ('m, 'e) iso_worker" where
  "iso_completed t v w = w\<lparr>iw_queue := fst (Complete t (iv_ok v) (iv_hasCore v) (iw_queue w))\<rparr>"

definition iso_one :: "'m iso_env \<Rightarrow> ticket \<Rightarrow> ('m, 'e) iso_worker \<Rightarrow> ('m, 'e) iso_worker" where
  "iso_one ie t w =
     (case iso_judged ie t w of ((v, lines), w1) \<Rightarrow> iso_completed t v (iso_entered ie t v lines w1))"

text \<open>The end of a worker: the service is stopped, and what that said goes to its log.\<close>

definition stopService :: "'m iso_env \<Rightarrow> ('m, 'e) iso_worker \<Rightarrow> ('m, 'e) iso_worker" where
  "stopService ie w =
     (case mock_run (ie_ch ie) (isolationScript [''cubrid service stop'']) (iw_m w) of (rr, m) \<Rightarrow>
        w\<lparr>iw_m := m,
          iw_sink := WorkerLines (ie_envID ie)
            [''Stop service for '' @ iso_identify ie @ '']'',
             (case rr of Inl e \<Rightarrow> ''[ERROR] '' @ error_text e | Inr r \<Rightarrow> mock_output (sh_out r))] (iw_sink w)\<rparr>)"

definition iso_leaves :: "'m iso_env \<Rightarrow> ('m, 'e) iso_worker \<Rightarrow> ('m, 'e) iso_worker" where
  "iso_leaves ie w = (let w1 = stopService ie w in w1\<lparr>iw_sink := EnvStop (ie_envID ie) (iw_sink w1)\<rparr>)"

subsection \<open>Patches and deployment\<close>

definition caseDirOf :: "string \<Rightarrow> string" where "caseDirOf = path_dir"

datatype patch_error = DoesNotApply string string cmd_error string

text \<open>Patches are applied case by case; the first that does not apply stops the run.\<close>

fun applyPatches :: "'m sh_channel \<Rightarrow> string list \<Rightarrow> patch_set option \<Rightarrow> 'm \<Rightarrow> patch_error option \<times> patch_set option \<times> 'm" where
  "applyPatches ch [] p m = (None, p, m)"
| "applyPatches ch (c # cs) p m =
     (let pf = patch_For p c in
      if pf = [] then applyPatches ch cs p m
      else (case ch (ApplyScript (caseDirOf c) pf) m of (rr, m1) \<Rightarrow>
        (case Check_run rr of
           Inl e \<Rightarrow> (Some (DoesNotApply pf c e (trim_space (case rr of Inl _ \<Rightarrow> [] | Inr r \<Rightarrow> sh_out r))), p, m1)
         | Inr _ \<Rightarrow> applyPatches ch cs (patch_Applied c pf p) m1)))"

fun putPatchesBack :: "'m sh_channel \<Rightarrow> string list \<Rightarrow> patch_set option \<Rightarrow> 'm \<Rightarrow> string list \<times> 'm" where
  "putPatchesBack ch [] p m = ([], m)"
| "putPatchesBack ch (c # cs) p m =
     (let pf = patch_For p c in
      if pf = [] then putPatchesBack ch cs p m
      else (case ch (RevertScript (caseDirOf c) pf) m of (rr, m1) \<Rightarrow>
        (case putPatchesBack ch cs p m1 of (warns, m2) \<Rightarrow>
          ((case Check_run rr of Inl e \<Rightarrow> c # warns | Inr _ \<Rightarrow> warns), m2))))"

end
