(* ===== verification/Feedback.thy ===== *)
theory Feedback
  imports Isolation
begin

text \<open>
  The report of a run, \<open>internal/feedback\<close>: the log with a line per event (\<open>file.go\<close>), the five
  counters that a continued run picks up, and the JUnit document (\<open>junit.go\<close>). The files of the run
  directory are part of the state. The clock, the host's name and the outcome of writing the counters
  are given with each call; \<open>fe_secs\<close> prints a duration in seconds.
\<close>

record fb_stats =
  fs_Total :: int
  fs_Executed :: int
  fs_Success :: int
  fs_Fail :: int
  fs_Skip :: int

datatype skip_type = SkipTypeNo | SkipTypeByMacro | SkipTypeByTemp | SkipTypeOther int

record fb_event = stop_event +
  ev_SkipType :: skip_type

record fb_env =
  fe_now :: string
  fe_since :: int
  fe_host :: string
  fe_secs :: "int \<Rightarrow> string"
  fe_fails :: "string option option"

record fb_disk =
  fd_log :: "string option"
  fd_status :: "string option"
  fd_task :: "string option"
  fd_xml :: "string option"

subsection \<open>The JUnit document\<close>

record junit =
  ju_text :: string
  ju_category :: string
  ju_suiteOpen :: bool
  ju_closed :: bool

definition orNull :: "string \<Rightarrow> string" where
  "orNull s = (if s = [] then ''null'' else s)"

definition millis :: "int \<Rightarrow> string" where
  "millis d = itoa (if d < 0 then - (- d div 1000000) else d div 1000000)"

definition attr_char :: "char \<Rightarrow> string" where
  "attr_char c =
     (if c = CHR ''&'' then ''&amp;'' else if c = CHR ''<'' then ''&lt;'' else if c = CHR ''>'' then ''&gt;''
      else if c = quot then ''&quot;'' else if c = LF then ''&#10;'' else if c = CR then ''&#13;''
      else if c = CHR 0x09 then ''&#9;'' else [c])"

definition attr :: "string \<Rightarrow> string" where
  "attr v = [quot] @ concat (map attr_char v) @ [quot]"

definition cdata_end :: string where "cdata_end = '']]>''"
definition cdata_begin :: string where "cdata_begin = ''<![CDATA[''"

definition cdataSafe :: "string \<Rightarrow> string" where
  "cdataSafe s = replace_all s cdata_end ('']]'' @ cdata_end @ cdata_begin @ ''>'')"

definition relativeToCategory :: "string \<Rightarrow> string \<Rightarrow> string \<times> bool" where
  "relativeToCategory testCase category =
     (if testCase = [] \<or> category = [] then (testCase, False)
      else (case index_of testCase (''/'' @ category @ ''/'') of
          Some i \<Rightarrow> (drop (i + 1) testCase, True)
        | None \<Rightarrow> if has_prefix testCase (category @ ''/'') then (testCase, True) else (testCase, False)))"

definition caseURL :: "string \<Rightarrow> string \<Rightarrow> string" where
  "caseURL testCase category =
     (case relativeToCategory testCase category of (rel, ok) \<Rightarrow>
        if ok then ''https://github.com/CUBRID/cubrid-testcases-private-ex/blob/develop/'' @ rel else testCase)"

definition caseRelative :: "string \<Rightarrow> string \<Rightarrow> string" where
  "caseRelative testCase category = (case relativeToCategory testCase category of (rel, ok) \<Rightarrow> if ok then rel else testCase)"

definition junit_printed :: "string \<Rightarrow> junit \<Rightarrow> junit" where
  "junit_printed s j = j\<lparr>ju_text := ju_text j @ s\<rparr>"

definition new_junit :: "string \<Rightarrow> junit" where
  "new_junit category =
     \<lparr>ju_text = ''<?xml version='' @ [quot] @ ''1.0'' @ [quot] @ '' encoding='' @ [quot] @ ''UTF-8'' @ [quot] @ ''?>'' @ [LF] @
        ''<testsuites>'' @ [LF],
      ju_category = category, ju_suiteOpen = False, ju_closed = False\<rparr>"

definition suiteStart :: "fb_env \<Rightarrow> int \<Rightarrow> int \<Rightarrow> junit \<Rightarrow> junit" where
  "suiteStart fe tests skipped j =
     (if ju_suiteOpen j then j
      else junit_printed (''  <testsuite name='' @ attr (ju_category j) @ '' tests='' @ attr (itoa tests) @
          '' skipped='' @ attr (itoa skipped) @ '' timestamp='' @ attr (fe_now fe) @ ''>'' @ [LF])
        (j\<lparr>ju_suiteOpen := True\<rparr>))"

definition cdata_part :: "fb_env \<Rightarrow> string \<Rightarrow> string \<Rightarrow> string" where
  "cdata_part fe envID details =
     cdata_begin @ [LF] @ ''EnvIdentify: '' @ envID @ [LF] @ ''Hostname: '' @ orNull (fe_host fe) @ [LF] @
     cdataSafe details @ [LF] @ cdata_end"

definition case_element :: "fb_env \<Rightarrow> string \<Rightarrow> string \<Rightarrow> string \<Rightarrow> int \<Rightarrow> string \<Rightarrow> string \<Rightarrow> string \<Rightarrow> string" where
  "case_element fe category name envID elapsed outcome message details =
     ''    <testcase classname='' @ attr (caseURL name category) @ '' name='' @ attr (caseRelative name category) @
     '' file='' @ attr name @ '' time='' @ attr (fe_secs fe elapsed) @
     (if outcome = [] then ''/>'' @ [LF]
      else ''>'' @ [LF] @ ''      <'' @ outcome @ '' message='' @ attr message @
        (if outcome = ''failure'' then '' type='' @ attr ''TestFailure''
         else if outcome = ''error'' then '' type='' @ attr ''UnknownStatus'' else []) @
        (if trim_space details = [] then ''/>'' @ [LF] @ ''    </testcase>'' @ [LF]
         else ''>'' @ cdata_part fe envID details @ ''</'' @ outcome @ ''>'' @ [LF] @ ''    </testcase>'' @ [LF]))"

definition junit_testCase :: "fb_env \<Rightarrow> string \<Rightarrow> string \<Rightarrow> int \<Rightarrow> string \<Rightarrow> string \<Rightarrow> string \<Rightarrow> junit \<Rightarrow> junit" where
  "junit_testCase fe name envID elapsed outcome message details j =
     junit_printed (case_element fe (ju_category j) name envID elapsed outcome message details) (suiteStart fe 0 0 j)"

definition junit_close :: "junit \<Rightarrow> junit" where
  "junit_close j =
     (if ju_closed j then j
      else junit_printed ((if ju_suiteOpen j then ''  </testsuite>'' @ [LF] else []) @ ''</testsuites>'' @ [LF])
        (j\<lparr>ju_closed := True\<rparr>))"

subsection \<open>The counters\<close>

definition statusKeys :: "string list" where
  "statusKeys = [''total_case_count'', ''total_executed_case_count'', ''total_success_case_count'',
     ''total_fail_case_count'', ''total_skip_case_count'']"

definition stat_values :: "fb_stats \<Rightarrow> int list" where
  "stat_values s = [fs_Total s, fs_Executed s, fs_Success s, fs_Fail s, fs_Skip s]"

definition stats_text :: "fb_stats \<Rightarrow> string" where
  "stats_text s = concat (map (\<lambda>(k, n). k @ ''='' @ itoa n @ [LF]) (zip statusKeys (stat_values s)))"

definition put_stat :: "string \<Rightarrow> int \<Rightarrow> fb_stats \<Rightarrow> fb_stats" where
  "put_stat key n s =
     (if key = ''total_case_count'' then s\<lparr>fs_Total := n\<rparr>
      else if key = ''total_executed_case_count'' then s\<lparr>fs_Executed := n\<rparr>
      else if key = ''total_success_case_count'' then s\<lparr>fs_Success := n\<rparr>
      else if key = ''total_fail_case_count'' then s\<lparr>fs_Fail := n\<rparr>
      else if key = ''total_skip_case_count'' then s\<lparr>fs_Skip := n\<rparr> else s)"

definition read_stat :: "string \<Rightarrow> fb_stats \<Rightarrow> fb_stats" where
  "read_stat line0 s =
     (let line = trim_space line0 in
      if line = [] \<or> has_prefix line ''#'' \<or> has_prefix line ''!'' then s
      else (case cut_at (CHR ''='') line of (key, val, ok) \<Rightarrow>
        if \<not> ok then s
        else (case atoi (trim_space val) of None \<Rightarrow> s
          | Some n \<Rightarrow> if trim_space key \<in> set statusKeys then put_stat (trim_space key) n s else s)))"

definition readStats :: "string option \<Rightarrow> fb_stats \<Rightarrow> fb_stats" where
  "readStats body s = (case body of None \<Rightarrow> s | Some t \<Rightarrow> fold read_stat (split_on LF t) s)"

subsection \<open>The report\<close>

text \<open>
  \<open>ff_Out\<close> is what went to standard output, absent where there is none, and \<open>ff_disk\<close> the directory of
  the run. \<open>ff_open\<close> says whether the log is open; a report without a directory has none.
\<close>

record feedback_file =
  ff_Category :: string
  ff_Out :: "string option"
  ff_MsgID :: string
  ff_dir :: string
  ff_continued :: bool
  ff_isolation :: bool
  ff_open :: bool
  ff_xml :: "junit option"
  ff_started :: bool
  ff_stats :: fb_stats
  ff_disk :: fb_disk

definition statusFile :: string where "statusFile = ''test_status.data''"

definition no_stats :: fb_stats where
  "no_stats = \<lparr>fs_Total = 0, fs_Executed = 0, fs_Success = 0, fs_Fail = 0, fs_Skip = 0\<rparr>"

definition no_disk :: fb_disk where
  "no_disk = \<lparr>fd_log = None, fd_status = None, fd_task = None, fd_xml = None\<rparr>"

definition new_file :: "string \<Rightarrow> string option \<Rightarrow> string \<Rightarrow> string \<Rightarrow> bool \<Rightarrow> bool \<Rightarrow> fb_disk \<Rightarrow> feedback_file" where
  "new_file category out msgID dir continueMode isolation disk =
     \<lparr>ff_Category = category, ff_Out = out, ff_MsgID = msgID, ff_dir = dir, ff_continued = continueMode,
      ff_isolation = isolation, ff_open = False, ff_xml = None, ff_started = False, ff_stats = no_stats, ff_disk = disk\<rparr>"

definition fb_Console :: "string \<Rightarrow> string option \<Rightarrow> feedback_file" where
  "fb_Console category out = new_file category out [] [] False False no_disk"

text \<open>What the file system refuses: the log, reading the counters, the document.\<close>

datatype fb_refusal = NoLog | NoStatus | NoReport

definition openLog :: "fb_refusal set \<Rightarrow> feedback_file \<Rightarrow> fb_refusal + feedback_file" where
  "openLog refused f =
     (if NoLog \<in> refused then Inl NoLog
      else (let old = (case fd_log (ff_disk f) of None \<Rightarrow> [] | Some t \<Rightarrow> t);
                f1 = f\<lparr>ff_open := True, ff_disk := (ff_disk f)\<lparr>fd_log := Some (if ff_continued f then old else [])\<rparr>\<rparr>
            in if \<not> ff_continued f then Inr f1
               else if fd_status (ff_disk f) \<noteq> None \<and> NoStatus \<in> refused then Inl NoStatus
               else Inr (f1\<lparr>ff_stats := readStats (fd_status (ff_disk f)) (ff_stats f)\<rparr>)))"

definition fb_Open :: "fb_refusal set \<Rightarrow> string \<Rightarrow> string \<Rightarrow> string option \<Rightarrow> bool \<Rightarrow> string \<Rightarrow> fb_disk \<Rightarrow> fb_refusal + feedback_file" where
  "fb_Open refused dir category out continueMode msgID disk =
     (case openLog refused (new_file category out msgID dir continueMode False disk) of
        Inl e \<Rightarrow> Inl e
      | Inr f \<Rightarrow> if NoReport \<in> refused then Inl NoReport
          else Inr (f\<lparr>ff_xml := Some (new_junit category), ff_disk := (ff_disk f)\<lparr>fd_xml := Some []\<rparr>\<rparr>))"

definition OpenIsolation :: "fb_refusal set \<Rightarrow> string \<Rightarrow> string \<Rightarrow> string option \<Rightarrow> bool \<Rightarrow> fb_disk \<Rightarrow> fb_refusal + feedback_file" where
  "OpenIsolation refused dir category out continueMode disk =
     openLog refused (new_file category out [] dir continueMode True disk)"

definition fb_println :: "string list \<Rightarrow> feedback_file \<Rightarrow> feedback_file" where
  "fb_println ls f =
     (if \<not> ff_open f then f
      else f\<lparr>ff_disk := (ff_disk f)\<lparr>fd_log := map_option (\<lambda>t. t @ concat (map (\<lambda>l. l @ [LF]) ls)) (fd_log (ff_disk f))\<rparr>\<rparr>)"

definition fb_out :: "string \<Rightarrow> feedback_file \<Rightarrow> feedback_file" where
  "fb_out line f = f\<lparr>ff_Out := map_option (\<lambda>t. t @ line @ [LF]) (ff_Out f)\<rparr>"

definition fb_emit :: "string \<Rightarrow> feedback_file \<Rightarrow> feedback_file" where
  "fb_emit line f = fb_out line (fb_println [line] f)"

definition on_xml :: "(junit \<Rightarrow> junit) \<Rightarrow> feedback_file \<Rightarrow> feedback_file" where
  "on_xml g f = f\<lparr>ff_xml := map_option g (ff_xml f)\<rparr>"

definition writeTaskID :: "int \<Rightarrow> feedback_file \<Rightarrow> feedback_file" where
  "writeTaskID n f =
     (if ff_dir f = [] then f else f\<lparr>ff_disk := (ff_disk f)\<lparr>fd_task := Some (itoa n @ [LF])\<rparr>\<rparr>)"

text \<open>A refused write of the counters leaves what it leaves.\<close>

definition fb_update :: "fb_env \<Rightarrow> feedback_file \<Rightarrow> feedback_file" where
  "fb_update fe f0 =
     (let ex = fs_Success (ff_stats f0) + fs_Fail (ff_stats f0);
          f = f0\<lparr>ff_stats := (ff_stats f0)\<lparr>fs_Executed := ex, fs_Total := ex + fs_Skip (ff_stats f0)\<rparr>\<rparr>
      in if ff_dir f = [] then f
         else (case fe_fails fe of
             None \<Rightarrow> f\<lparr>ff_disk := (ff_disk f)\<lparr>fd_status := Some (stats_text (ff_stats f))\<rparr>\<rparr>
           | Some left \<Rightarrow>
               fb_emit (''[ERROR]: Update test status into '' @ path_join [ff_dir f, statusFile] @ '' fail!'')
                 (f\<lparr>ff_disk := (ff_disk f)\<lparr>fd_status := left\<rparr>\<rparr>)))"

subsection \<open>The events\<close>

definition fb_TaskStart :: "fb_env \<Rightarrow> feedback_file \<Rightarrow> feedback_file" where
  "fb_TaskStart fe f0 =
     (let f = f0\<lparr>ff_started := True\<rparr>; now = ''[TASK START] Current Time is '' @ fe_now fe in
      if ff_isolation f then fb_println [now] f
      else fb_println [now @ '', start MSG Id is '' @ orNull (ff_MsgID f)]
             (fb_println [''[Task Id] is 0''] (writeTaskID 0 f)))"

definition fb_TaskContinue :: "fb_env \<Rightarrow> feedback_file \<Rightarrow> feedback_file" where
  "fb_TaskContinue fe f0 =
     (let f = f0\<lparr>ff_started := True\<rparr> in
      fb_println [''[TASK CONTINUE] Current Time is '' @ fe_now fe]
        (if ff_isolation f then f else fb_println [''[Task Id] is 0''] f))"

definition fb_TotalTestCase :: "fb_env \<Rightarrow> int \<Rightarrow> int \<Rightarrow> int \<Rightarrow> feedback_file \<Rightarrow> feedback_file" where
  "fb_TotalTestCase fe tests macroSkipped tempSkipped f0 =
     (if ff_continued f0 then f0
      else (let f = f0\<lparr>ff_stats := (ff_stats f0)\<lparr>fs_Total := tests, fs_Skip := macroSkipped + tempSkipped\<rparr>\<rparr>;
                f1 = (if ff_isolation f
                      then fb_out (''The category:'' @ ff_Category f) (fb_println [''Test Category:'' @ ff_Category f] f)
                      else fb_emit (''Test Category:'' @ ff_Category f) f);
                f2 = fb_emit (''The Number of Test Cases: '' @ itoa tests @ '' (macro skipped: '' @ itoa macroSkipped @
                       '', bug skipped: '' @ itoa tempSkipped @ '')'') f1
            in fb_update fe (on_xml (suiteStart fe (fs_Total (ff_stats f2)) (fs_Skip (ff_stats f2))) f2)))"

definition stop_head :: "bool \<Rightarrow> fb_event \<Rightarrow> string" where
  "stop_head isolated ev =
     (case ev_SkipType ev of
        SkipTypeNo \<Rightarrow>
          if ev_Success ev then (if isolated then ''[OK]'' else ''[OK]: '')
          else if isolated then ''[NOK]'' else ''[NOK]: '' @ RetryFlag @ '' = '' @ itoa (ev_RetryCount ev)
      | SkipTypeByMacro \<Rightarrow> ''[SKIP_BY_MACRO]'' | SkipTypeByTemp \<Rightarrow> ''[SKIP_BY_BUG]'' | SkipTypeOther n \<Rightarrow> ''[UNKNOWN]'')"

definition count_stop :: "fb_event \<Rightarrow> fb_stats \<Rightarrow> fb_stats" where
  "count_stop ev s =
     (if ev_SkipType ev \<noteq> SkipTypeNo then s
      else if ev_Success ev then s\<lparr>fs_Success := fs_Success s + 1\<rparr> else s\<lparr>fs_Fail := fs_Fail s + 1\<rparr>)"

definition stop_element :: "fb_env \<Rightarrow> fb_event \<Rightarrow> junit \<Rightarrow> junit" where
  "stop_element fe ev =
     (case ev_SkipType ev of
        SkipTypeNo \<Rightarrow>
          if ev_Success ev then junit_testCase fe (ev_Case ev) (ev_EnvID ev) (ev_Elapsed ev) [] [] []
          else junit_testCase fe (ev_Case ev) (ev_EnvID ev) (ev_Elapsed ev) ''failure'' ''Test failed'' (ev_ResultText ev)
      | SkipTypeByMacro \<Rightarrow> junit_testCase fe (ev_Case ev) (ev_EnvID ev) 0 ''skipped'' ''Skipped by macro'' []
      | SkipTypeByTemp \<Rightarrow> junit_testCase fe (ev_Case ev) (ev_EnvID ev) 0 ''skipped'' ''Skipped by bug'' []
      | SkipTypeOther n \<Rightarrow> junit_testCase fe (ev_Case ev) (ev_EnvID ev) (ev_Elapsed ev) ''error'' ''Unknown test status'' [])"

definition stop_line :: "string \<Rightarrow> fb_event \<Rightarrow> string" where
  "stop_line head ev = head @ '' '' @ ev_Case ev @ '' '' @ millis (ev_Elapsed ev) @ '' '' @ ev_EnvID ev"

definition fb_CaseStop :: "fb_env \<Rightarrow> fb_event \<Rightarrow> feedback_file \<Rightarrow> feedback_file" where
  "fb_CaseStop fe ev f0 =
     (let f = on_xml (stop_element fe ev) (f0\<lparr>ff_stats := count_stop ev (ff_stats f0)\<rparr>) in
      fb_update fe (fb_println [stop_line (stop_head (ff_isolation f) ev) ev, ev_ResultText ev, []] f))"

definition fb_CaseStopRetry :: "fb_event \<Rightarrow> feedback_file \<Rightarrow> feedback_file" where
  "fb_CaseStopRetry ev f =
     fb_println [stop_line (if ev_Success ev then ''[OK]: '' else ''[NOK]: '') ev, ev_ResultText ev,
       '' ('' @ RetryFlag @ '' = '' @ itoa (ev_RetryCount ev) @ '')''] f"

definition fb_CaseMonitor :: "string \<Rightarrow> string \<Rightarrow> string \<Rightarrow> feedback_file \<Rightarrow> feedback_file" where
  "fb_CaseMonitor name action envID f = fb_println [action @ '' '' @ name @ '' '' @ envID] f"

definition fb_TaskStop :: "fb_env \<Rightarrow> feedback_file \<Rightarrow> feedback_file" where
  "fb_TaskStop fe f =
     (let s = ff_stats f;
          f1 = fold fb_emit [''============= PRINT SUMMARY =================='', ''Test Category:'' @ ff_Category f,
            ''Total Case:'' @ itoa (fs_Total s), ''Total Execution Case:'' @ itoa (fs_Executed s),
            ''Total Success Case:'' @ itoa (fs_Success s), ''Total Fail Case:'' @ itoa (fs_Fail s),
            ''Total Skip Case:'' @ itoa (fs_Skip s)] f
      in fb_println [''[TEST STOP] Current Time is '' @ fe_now fe,
           ''Elapse Time:'' @ millis (if ff_started f then fe_since fe else 0)] (fb_out [] f1))"

definition fb_Close :: "feedback_file \<Rightarrow> feedback_file" where
  "fb_Close f =
     (let d = (case ff_xml f of None \<Rightarrow> ff_disk f
               | Some j \<Rightarrow> if ju_closed j then ff_disk f else (ff_disk f)\<lparr>fd_xml := Some (ju_text (junit_close j))\<rparr>)
      in f\<lparr>ff_xml := None, ff_open := False, ff_disk := d\<rparr>)"

datatype fb_call = TaskStart | TaskContinue | TotalTestCase int int int | Starting string string | Stopping fb_event
  | Retrying fb_event | Monitoring string string string | EnvStopping string | TaskStop

fun fb_report :: "fb_env \<times> fb_call \<Rightarrow> feedback_file \<Rightarrow> feedback_file" where
  "fb_report (fe, TaskStart) f = fb_TaskStart fe f"
| "fb_report (fe, TaskContinue) f = fb_TaskContinue fe f"
| "fb_report (fe, TotalTestCase n ms ts) f = fb_TotalTestCase fe n ms ts f"
| "fb_report (fe, Starting name envID) f = f"
| "fb_report (fe, Stopping ev) f = fb_CaseStop fe ev f"
| "fb_report (fe, Retrying ev) f = fb_CaseStopRetry ev f"
| "fb_report (fe, Monitoring name action envID) f = fb_CaseMonitor name action envID f"
| "fb_report (fe, EnvStopping envID) f = f"
| "fb_report (fe, TaskStop) f = fb_TaskStop fe f"

text \<open>What the workers tell the report; a worker's own events have no case that was skipped.\<close>

definition with_no_skip :: "stop_event \<Rightarrow> fb_event" where
  "with_no_skip ev = stop_event.extend ev (fb_event.fields SkipTypeNo)"

definition note_call :: "report_note \<Rightarrow> fb_call" where
  "note_call n =
     (case n of CaseStart name envID \<Rightarrow> Starting name envID
      | CaseStopRetry ev \<Rightarrow> Retrying (with_no_skip ev)
      | CaseStop ev \<Rightarrow> Stopping (with_no_skip ev))"

lemma nothing_refused: "\<exists>f. fb_Open {} dir cat out again msg disk = Inr f"
  by (simp add: fb_Open_def openLog_def Let_def)

text \<open>Small inputs for the examples.\<close>

definition small_fe :: fb_env where
  "small_fe = \<lparr>fe_now = [], fe_since = 0, fe_host = [], fe_secs = \<lambda>d. ''0'', fe_fails = None\<rparr>"

definition small_stop :: "string \<Rightarrow> bool \<Rightarrow> fb_event" where
  "small_stop name ok = \<lparr>ev_Case = name, ev_EnvID = ''local'', ev_Success = ok, ev_Elapsed = 0, ev_ResultText = [],
     ev_LastPass = [], ev_TimedOut = False, ev_HasCore = False, ev_RetryCount = 0, ev_SkipType = SkipTypeNo\<rparr>"

end
