(* ===== verification/Isolation_Claims.thy ===== *)
theory Isolation_Claims
  imports Isolation Result_Sink_Claims
begin

text \<open>The isolation verdict as a property of the text, and what a run of the suite leaves at any moment.\<close>

subsection \<open>The verdict\<close>

lemma last_index_Some:
  assumes "last_index_of s p = Some i"
  shows "\<exists>a b. s = a @ p @ b \<and> length a = i" "s = c @ p @ d \<Longrightarrow> length c \<le> i"
proof -
  obtain j where j: "index_of (rev s) (rev p) = Some j" "i = length s - length p - j"
    using assms by (auto simp: last_index_of_def)
  obtain x y where xy: "rev s = x @ rev p @ y" "length x = j" using index_of_Some [OF j(1)] by blast
  have "rev (rev s) = rev y @ p @ rev x" by (simp add: xy(1))
  then have s: "s = rev y @ p @ rev x" by simp
  then have i: "length (rev y) = i" "length s = i + length p + j" using j(2) xy(2) by simp_all
  then show "\<exists>a b. s = a @ p @ b \<and> length a = i" using s by blast
  show "length c \<le> i" if "s = c @ p @ d"
  proof (rule ccontr)
    assume "\<not> length c \<le> i"
    then have "length d < j" using i(2) that by simp
    moreover have "rev s = rev d @ rev p @ rev c" using that by simp
    then have "prefix (rev p) (drop (length d) (rev s))" by simp
    ultimately show False using index_of_first [OF j(1)] by blast
  qed
qed

lemma last_index_None: "last_index_of s p = None \<longleftrightarrow> \<not> contains s p"
  by (simp add: last_index_of_def index_of_None sublist_rev)

lemma items_keep: "out \<noteq> [] \<Longrightarrow> items_from src word out \<noteq> []"
proof (induction src word out rule: items_from.induct)
  case (1 src word out)
  show ?case
    by (subst items_from.simps) (use 1 in \<open>auto simp: Let_def note_once_def split: option.splits\<close>)
qed

lemma items_any: "extractItems src word = [] \<longleftrightarrow> \<not> contains src word"
proof -
  have "note_once l [] \<noteq> []" for l by (simp add: note_once_def)
  then show ?thesis unfolding extractItems_def index_of_None [symmetric]
    by (subst items_from.simps) (auto simp: Let_def items_keep split: option.splits)
qed

text \<open>The two flags cannot overlap.\<close>

lemma flags_do_not_overlap:
  assumes "okMarker @ b = c @ nokMarker @ d"
  shows "length okMarker \<le> length c"
proof (rule ccontr)
  assume "\<not> length okMarker \<le> length c"
  then have "length c < 8" by (simp add: okMarker_def)
  then have "length c = 0 \<or> length c = 1 \<or> length c = 2 \<or> length c = 3 \<or> length c = 4 \<or> length c = 5 \<or>
    length c = 6 \<or> length c = 7" by linarith
  moreover have "drop (length c) (okMarker @ b) = nokMarker @ d" using assms by simp
  ultimately show False by (auto simp: okMarker_def nokMarker_def)
qed

text \<open>
  C15: An isolation case passes exactly if a flag that says OK is in its output with no flag that says NOK
  after it, and the output speaks of no core file and no fatal error anywhere.
\<close>

theorem verdict_is_the_last_flag:
  "iv_ok (judge out) \<longleftrightarrow>
     (\<exists>a b. out = a @ okMarker @ b \<and> \<not> contains b nokMarker) \<and>
     \<not> contains out coreMarker \<and> \<not> contains out fatalMarker"
proof (cases "contains out coreMarker \<or> contains out fatalMarker")
  case True
  then have "extractItems out coreMarker @ extractItems out fatalMarker \<noteq> []" by (simp add: items_any)
  then show ?thesis using True by (auto simp: judge_def Let_def)
next
  case False
  then have e: "extractItems out coreMarker = []" "extractItems out fatalMarker = []" by (simp_all add: items_any)
  show ?thesis
  proof (cases "last_index_of out okMarker")
    case None
    then have "\<not> contains out okMarker" by (simp add: last_index_None)
    then have "\<nexists>a b. out = a @ okMarker @ b" unfolding sublist_def by blast
    moreover have "\<not> iv_ok (judge out)" using None e by (simp add: judge_def Let_def last_at_least_def)
    ultimately show ?thesis by blast
  next
    case (Some i)
    obtain a b where ab: "out = a @ okMarker @ b" "length a = i" using last_index_Some(1) [OF Some] by blast
    have j: "iv_ok (judge out) \<longleftrightarrow> \<not> int i < last_at_least (last_index_of out nokMarker)"
      using Some e by (simp add: judge_def Let_def last_at_least_def [of "Some i"])
    show ?thesis
    proof
      assume ok: "iv_ok (judge out)"
      have "\<not> contains b nokMarker"
      proof
        assume "contains b nokMarker"
        then obtain c d where "b = c @ nokMarker @ d" by (auto simp: sublist_def)
        then have o: "out = (a @ okMarker @ c) @ nokMarker @ d" using ab(1) by simp
        then have "contains out nokMarker" unfolding sublist_def by blast
        then obtain k where k: "last_index_of out nokMarker = Some k" using last_index_None [of out nokMarker] by blast
        have "length (a @ okMarker @ c) \<le> k" using last_index_Some(2) [OF k o] .
        then show False using ok j k ab(2) by (simp add: last_at_least_def okMarker_def)
      qed
      then show "(\<exists>a b. out = a @ okMarker @ b \<and> \<not> contains b nokMarker) \<and>
          \<not> contains out coreMarker \<and> \<not> contains out fatalMarker" using ab(1) False by blast
    next
      assume "(\<exists>a b. out = a @ okMarker @ b \<and> \<not> contains b nokMarker) \<and>
          \<not> contains out coreMarker \<and> \<not> contains out fatalMarker"
      then obtain x y where xy: "out = x @ okMarker @ y" "\<not> contains y nokMarker" by blast
      show "iv_ok (judge out)"
      proof (cases "last_index_of out nokMarker")
        case None
        then show ?thesis using j by (simp add: last_at_least_def)
      next
        case k: (Some k)
        obtain c d where cd: "out = c @ nokMarker @ d" "length c = k" using last_index_Some(1) [OF k] by blast
        have "length x \<le> i" using last_index_Some(2) [OF Some xy(1)] .
        moreover have "k \<le> length x"
        proof (rule ccontr)
          assume "\<not> k \<le> length x"
          then obtain u where u: "c = x @ u" using xy(1) cd by (metis append_eq_append_conv_if append_take_drop_id nat_le_linear)
          then have "okMarker @ y = u @ nokMarker @ d" using xy(1) cd(1) by simp
          moreover from flags_do_not_overlap [OF this] obtain v where "u = okMarker @ v"
            using calculation by (metis append_eq_append_conv_if append_take_drop_id)
          ultimately have "y = v @ nokMarker @ d" by simp
          then show False using xy(2) by (auto simp: sublist_def)
        qed
        ultimately show ?thesis using j k by (simp add: last_at_least_def)
      qed
    qed
  qed
qed

subsection \<open>What a run leaves\<close>

lemma wreckage_frame:
  "iw_queue (snd (checkTheWreckage ie tc v w)) = iw_queue w" "iw_sink (snd (checkTheWreckage ie tc v w)) = iw_sink w"
  "iw_report (snd (checkTheWreckage ie tc v w)) = iw_report w"
  by (simp_all add: checkTheWreckage_def Let_def split: prod.split)

text \<open>Judging a case reports its verdict, and writes nothing and tells the queue nothing.\<close>

lemma judged_effect:
  assumes "iso_judged ie t w = ((v, lines), u)"
  shows "iw_queue u = iw_queue w" "iw_sink u = iw_sink w"
    "\<exists>ev. iw_report u = iw_report w @ [CaseStart (t_case t) (iso_identify ie), CaseStop ev] \<and> ev_Case ev = t_case t \<and> ev_Success ev = iv_ok v"
proof -
  let ?w1 = "w\<lparr>iw_report := iw_report w @ [CaseStart (t_case t) (iso_identify ie)],
       iw_page := iw_page w @ [Begin (t_case t), Live (t_case t) (liveResult (ie_home ie) (t_case t))]\<rparr>"
  obtain outs v0 first m1 where a: "attempt ie (t_case t) (iw_m w) = ((outs, v0, first), m1)" by (metis surj_pair)
  obtain v' w2 where c: "checkTheWreckage ie (t_case t) v0 (?w1\<lparr>iw_m := m1\<rparr>) = (v', w2)" by (metis surj_pair)
  have f: "iw_queue w2 = iw_queue w" "iw_sink w2 = iw_sink w" "iw_report w2 = iw_report w @ [CaseStart (t_case t) (iso_identify ie)]"
    using wreckage_frame [of ie "t_case t" v0 "?w1\<lparr>iw_m := m1\<rparr>"] c by simp_all
  obtain d m4 where d: "(if iv_ok v' then ([], iw_m w2) else diff_of ie (t_case t) (iw_m w2)) = (d, m4)" by (metis surj_pair)
  show "iw_queue u = iw_queue w" "iw_sink u = iw_sink w"
    "\<exists>ev. iw_report u = iw_report w @ [CaseStart (t_case t) (iso_identify ie), CaseStop ev] \<and> ev_Case ev = t_case t \<and> ev_Success ev = iv_ok v"
    using assms d f by (auto simp: iso_judged_def Let_def a c split: if_splits)
qed

lemma stopService_frame:
  "iw_queue (stopService ie w) = iw_queue w" "iw_report (stopService ie w) = iw_report w"
  "\<exists>ls. iw_sink (stopService ie w) = do_op (DoWorker (ie_envID ie) ls) (iw_sink w)"
  by (cases "mock_run (ie_ch ie) (isolationScript [''cubrid service stop'']) (iw_m w)"; auto simp: stopService_def)+

definition verdict_of_case :: "report_note \<Rightarrow> string list" where
  "verdict_of_case x = (case x of CaseStop ev \<Rightarrow> [ev_Case ev] | _ \<Rightarrow> [])"

definition judged_cases :: "report_note list \<Rightarrow> string list" where
  "judged_cases rs = concat (map verdict_of_case rs)"

lemma judged_cases_simps [simp]:
  "judged_cases [] = []" "judged_cases (rs @ rs') = judged_cases rs @ judged_cases rs'"
  "judged_cases (CaseStart c e # rs) = judged_cases rs" "judged_cases (CaseStop ev # rs) = ev_Case ev # judged_cases rs"
  by (simp_all add: judged_cases_def verdict_of_case_def)

definition quiet_channel :: "unit sh_channel" where
  "quiet_channel script m = (Inr \<lparr>sh_out = [], sh_err = [], sh_exit = 0\<rparr>, m)"

definition small_iso :: "unit iso_env" where
  "small_iso = \<lparr>ie_slot = ''s0'', ie_envID = ''local'', ie_ch = quiet_channel,
     ie_opts = \<lparr>io_retries = 0, io_timeout = ''60'', io_client = ''qacsql'', io_backupCore = False\<rparr>,
     ie_cubrid = [], ie_ctltool = [], ie_home = ''/home/ctp'', ie_dir = ''/r'', ie_took = \<lambda>_ _. 0\<rparr>"

definition small_iso_worker :: "(unit, unit) iso_worker" where
  "small_iso_worker = \<lparr>iw_m = (), iw_queue = New [''a'', ''b''] 0, iw_sink = sink_Open [] False,
     iw_crashes = [], iw_cores = [], iw_fatals = [], iw_page = [], iw_report = [], iw_meter = []\<rparr>"

subsection \<open>The exclusion list\<close>

lemma take_first_spec:
  "take_first e cs = (x, ds) \<Longrightarrow>
     (case x of None \<Rightarrow> (\<forall>c \<in> set cs. \<not> contains c e) \<and> ds = cs
      | Some c \<Rightarrow> \<exists>as bs. cs = as @ c # bs \<and> ds = as @ bs \<and> contains c e \<and> (\<forall>a \<in> set as. \<not> contains a e))"
proof (induction cs arbitrary: x ds)
  case (Cons c cs)
  show ?case
  proof (cases "contains c e")
    case True
    then have "x = Some c" "ds = cs" using Cons.prems by simp_all
    then show ?thesis using True by (auto intro: exI [of _ "[]"])
  next
    case False
    obtain y es where r: "take_first e cs = (y, es)" by (cases "take_first e cs")
    then have xy: "x = y" "ds = c # es" using Cons.prems False by simp_all
    show ?thesis
    proof (cases y)
      case None
      then show ?thesis using Cons.IH [OF r] xy False by simp
    next
      case (Some d)
      then obtain as bs where "cs = as @ d # bs" "es = as @ bs" "contains d e" "\<forall>a \<in> set as. \<not> contains a e"
        using Cons.IH [OF r] by auto
      then show ?thesis using Some xy False by (simp, intro exI [of _ "c # as"] exI [of _ bs]) simp
    qed
  qed
qed simp

text \<open>
  The isolation suite's exclusion list takes out at most one case for each entry, the first that
  contains it, and the others stay in their order: kept and skipped make up the cases found, every
  skipped case contains an entry, and there are no more of them than entries.
\<close>

theorem exclusion_takes_one_each:
  assumes "iso_exclude found entries = (kept, skipped)"
  shows "mset kept + mset skipped = mset found \<and> subseq kept found \<and> length skipped \<le> length entries \<and>
    (\<forall>c \<in> set skipped. \<exists>e \<in> set entries. contains c e) \<and>
    (length skipped < length entries \<longrightarrow> (\<exists>e \<in> set entries. \<forall>c \<in> set kept. \<not> contains c e))"
proof -
  let ?ok = "\<lambda>es k s f s0. mset k + mset s = mset f + mset s0 \<and> subseq k f \<and> length s \<le> length s0 + length es \<and>
      (\<forall>c \<in> set s. c \<in> set s0 \<or> (\<exists>e \<in> set es. contains c e)) \<and>
      (length s < length s0 + length es \<longrightarrow> (\<exists>e \<in> set es. \<forall>c \<in> set k. \<not> contains c e))"
  have "fold exclude_entry es (f, s0) = (k, s) \<Longrightarrow> ?ok es k s f s0" for es f s0 k s
  proof (induction es arbitrary: f s0)
    case (Cons e es)
    obtain x ds where r: "take_first e f = (x, ds)" by (cases "take_first e f")
    show ?case
    proof (cases x)
      case None
      then have n: "\<forall>c \<in> set f. \<not> contains c e" "ds = f" using take_first_spec [OF r] by simp_all
      have "exclude_entry e (f, s0) = (f, s0)" by (simp add: exclude_entry_def None r)
      then have "fold exclude_entry es (f, s0) = (k, s)" using Cons.prems by simp
      note ih = Cons.IH [OF this]
      have "subseq k f" using ih by blast
      then have "set k \<subseteq> set f" by (rule subseq_set)
      then have "\<forall>c \<in> set k. \<not> contains c e" using n(1) by blast
      then show ?thesis using ih by auto
    next
      case (Some d)
      obtain as bs where ab: "f = as @ d # bs" "ds = as @ bs" "contains d e" using take_first_spec [OF r] Some by auto
      have "exclude_entry e (f, s0) = (ds, s0 @ [d])" by (simp add: exclude_entry_def Some r)
      then have "fold exclude_entry es (ds, s0 @ [d]) = (k, s)" using Cons.prems by simp
      note ih = Cons.IH [OF this]
      moreover have "subseq ds f" unfolding ab(1,2) by (intro list_emb_append_mono subseq_order.refl list_emb_Cons)
      moreover have "mset ds + {#d#} = mset f" using ab by simp
      ultimately show ?thesis using ab(3) by (auto simp: ac_simps intro: subseq_order.trans)
    qed
  qed simp
  from this [of entries found "[]" kept skipped] assms show ?thesis by (simp add: iso_exclude_def)
qed

theorem exclusion_takes_one_each_witness:
  "length (snd (iso_exclude [''s/dir/a.ctl'', ''s/dir/b.ctl''] [''dir'']) ) \<le> 1"
  using exclusion_takes_one_each [OF surjective_pairing, of "[''s/dir/a.ctl'', ''s/dir/b.ctl'']" "[''dir'']"] by simp

subsection \<open>A scenario beside the home directory\<close>

text \<open>
  The home directory is compared as a text: a directory whose name merely goes on where the home
  directory's ends is named relative to it, with its first letter gone.
\<close>

lemma sibling_of_home: "relative_scenario ''/home/cubrid/iso'' ''/home/cub'' ''/home/cubrid/iso'' = Inr ''id/iso''"
  by (simp add: relative_scenario_def dirNotFound_def sublist_Cons_right)

text \<open>
  A case of a scenario below the home directory has a relative path, and so has the directory whose
  cores are looked for; \<open>find\<close> is sent as it is, without the change to the home directory every script
  of the suite begins with.
\<close>

lemma cores_are_sought_elsewhere: "\<not> path_abs (path_dir ''iso/dir/a.ctl'')"
  by (simp add: path_dir_def path_clean_def path_parts_def path_abs_def after_last_def clean_part_def)

end
