(* ===== verification/Feedback_Claims.thy ===== *)
theory Feedback_Claims
  imports Feedback Isolation_Claims
begin

text \<open>
  The counters are read back as they were written and so survive an interruption, also that of an
  isolation worker; the document of a report has one suite, and its output sections keep the output.
\<close>

subsection \<open>Reading the counters\<close>

lemma key_facts:
  assumes "k \<in> set statusKeys"
  shows "k \<noteq> []" "hd k = CHR ''t''" "CHR ''='' \<notin> set k" "LF \<notin> set k" "trim_space k = k"
proof -
  show "k \<noteq> []" "hd k = CHR ''t''" "CHR ''='' \<notin> set k" "LF \<notin> set k"
    using assms by (auto simp: statusKeys_def LF_def)
  have "graphic (hd k) \<and> graphic (last k)" using assms by (auto simp: statusKeys_def graphic_def char_nat_def)
  then show "trim_space k = k" by (intro trim_space_trimmed graphic_trimmed) simp
qed

lemma read_stat_line:
  assumes k: "k \<in> set statusKeys" and n: "in_int n"
  shows "read_stat (k @ ''='' @ itoa n) s = put_stat k n s"
proof -
  let ?l = "k @ ''='' @ itoa n"
  note f = key_facts [OF k]
  have g: "graphic (last (itoa n))" "graphic (hd (itoa n))" using itoa_graphic [of _ n] by simp_all
  have "hd ?l = CHR ''t''" "last ?l = last (itoa n)" using f(1,2) by simp_all
  then have t: "trim_space ?l = ?l"
    using g by (intro trim_space_trimmed graphic_trimmed) (simp add: graphic_def char_nat_def)
  have v: "trim_space (itoa n) = itoa n" using g by (intro trim_space_trimmed graphic_trimmed) simp
  have h: "?l \<noteq> []" "\<not> has_prefix ?l ''#''" "\<not> has_prefix ?l ''!''"
    using f(1,2) by (cases k; simp)+
  have c: "cut_at (CHR ''='') ?l = (k, itoa n, True)" using cut_at_append [OF f(3), of "itoa n"] by simp
  show ?thesis unfolding read_stat_def t Let_def using h c v k n f(5) by (simp add: atoi_itoa)
qed

lemma stat_line_free: "k \<in> set statusKeys \<Longrightarrow> LF \<notin> set (k @ ''='' @ itoa n)"
  using key_facts(4) [of k] itoa_chars [of LF n] by (auto simp: LF_def is_digit_def char_nat_def)

lemma read_stat_blank: "read_stat [] s = s"
  by (simp add: read_stat_def trim_space_trimmed graphic_trimmed)

lemma read_lines:
  assumes "\<forall>(k, n) \<in> set kns. k \<in> set statusKeys \<and> in_int n"
  shows "fold read_stat (split_on LF (concat (map (\<lambda>(k, n). k @ ''='' @ itoa n @ [LF]) kns))) s =
    fold (\<lambda>(k, n). put_stat k n) kns s"
  using assms
proof (induction kns arbitrary: s)
  case Nil
  then show ?case by (simp add: read_stat_blank)
next
  case (Cons kn kns)
  obtain k n where kn: "kn = (k, n)" "k \<in> set statusKeys" "in_int n" using Cons.prems by (cases kn) auto
  let ?r = "concat (map (\<lambda>(k, n). k @ ''='' @ itoa n @ [LF]) kns)"
  have "split_on LF ((k @ ''='' @ itoa n) @ LF # ?r) = (k @ ''='' @ itoa n) # split_on LF ?r"
    by (rule split_on_append [OF stat_line_free [OF kn(2)]])
  then show ?case using Cons kn read_stat_line [OF kn(2,3), of s] by simp
qed

definition stats_fit :: "fb_stats \<Rightarrow> bool" where
  "stats_fit s \<longleftrightarrow> list_all in_int (stat_values s)"

lemma put_stat_keys:
  "put_stat ''total_case_count'' n s = s\<lparr>fs_Total := n\<rparr>"
  "put_stat ''total_executed_case_count'' n s = s\<lparr>fs_Executed := n\<rparr>"
  "put_stat ''total_success_case_count'' n s = s\<lparr>fs_Success := n\<rparr>"
  "put_stat ''total_fail_case_count'' n s = s\<lparr>fs_Fail := n\<rparr>"
  "put_stat ''total_skip_case_count'' n s = s\<lparr>fs_Skip := n\<rparr>"
  unfolding put_stat_def by simp_all

lemma put_all_stats: "fold (\<lambda>(k, n). put_stat k n) (zip statusKeys (stat_values s)) s0 = s"
proof -
  have "fold (\<lambda>(k, n). put_stat k n) (zip statusKeys (stat_values s)) s0 =
      s0\<lparr>fs_Total := fs_Total s, fs_Executed := fs_Executed s, fs_Success := fs_Success s, fs_Fail := fs_Fail s,
         fs_Skip := fs_Skip s\<rparr>"
    unfolding statusKeys_def stat_values_def by (simp only: zip_Cons_Cons zip_Nil fold_simps prod.case put_stat_keys)
  then show ?thesis by simp
qed

lemma stats_read_back:
  assumes "stats_fit s"
  shows "readStats (Some (stats_text s)) s0 = s"
proof -
  have "\<forall>(k, n) \<in> set (zip statusKeys (stat_values s)). k \<in> set statusKeys \<and> in_int n"
    using assms by (auto simp: stats_fit_def list_all_iff dest: set_zip_leftD set_zip_rightD)
  from read_lines [OF this, of s0]
  have "readStats (Some (stats_text s)) s0 = fold (\<lambda>(k, n). put_stat k n) (zip statusKeys (stat_values s)) s0"
    unfolding readStats_def stats_text_def by simp
  also have "\<dots> = s" by (rule put_all_stats)
  finally show ?thesis .
qed

subsection \<open>Counting\<close>

lemma report_keeps [simp]:
  "ff_stats (fb_println ls f) = ff_stats f" "ff_stats (fb_out l f) = ff_stats f" "ff_stats (fb_emit l f) = ff_stats f"
  "ff_stats (on_xml g f) = ff_stats f" "ff_stats (writeTaskID n f) = ff_stats f"
  "ff_dir (fb_println ls f) = ff_dir f" "ff_dir (fb_out l f) = ff_dir f" "ff_dir (fb_emit l f) = ff_dir f"
  "ff_dir (on_xml g f) = ff_dir f" "ff_dir (writeTaskID n f) = ff_dir f"
  "ff_continued (fb_println ls f) = ff_continued f" "ff_continued (fb_out l f) = ff_continued f"
  "ff_continued (fb_emit l f) = ff_continued f" "ff_continued (on_xml g f) = ff_continued f"
  "ff_continued (writeTaskID n f) = ff_continued f"
  "fd_status (ff_disk (fb_println ls f)) = fd_status (ff_disk f)" "fd_status (ff_disk (fb_out l f)) = fd_status (ff_disk f)"
  "fd_status (ff_disk (fb_emit l f)) = fd_status (ff_disk f)" "fd_status (ff_disk (on_xml g f)) = fd_status (ff_disk f)"
  "fd_status (ff_disk (writeTaskID n f)) = fd_status (ff_disk f)"
  by (simp_all add: fb_println_def fb_out_def fb_emit_def on_xml_def writeTaskID_def)

lemma emits_keep [simp]:
  "ff_stats (fold fb_emit ls f) = ff_stats f" "ff_dir (fold fb_emit ls f) = ff_dir f"
  "ff_continued (fold fb_emit ls f) = ff_continued f" "fd_status (ff_disk (fold fb_emit ls f)) = fd_status (ff_disk f)"
  by (induction ls arbitrary: f) simp_all

definition is_verdict :: "bool \<Rightarrow> fb_call \<Rightarrow> bool" where
  "is_verdict ok c = (case c of Stopping ev \<Rightarrow> ev_SkipType ev = SkipTypeNo \<and> ev_Success ev = ok | _ \<Rightarrow> False)"

definition verdicts :: "bool \<Rightarrow> fb_call list \<Rightarrow> int" where
  "verdicts ok cs = int (length (filter (is_verdict ok) cs))"

lemma verdicts_simps [simp]:
  "verdicts ok [] = 0" "verdicts ok (cs @ ds) = verdicts ok cs + verdicts ok ds"
  by (simp_all add: verdicts_def)

lemma verdicts_bound: "0 \<le> verdicts ok cs" "verdicts True cs + verdicts False cs \<le> int (length cs)"
proof -
  show "0 \<le> verdicts ok cs" by (simp add: verdicts_def)
  show "verdicts True cs + verdicts False cs \<le> int (length cs)"
    by (induction cs) (auto simp: verdicts_def is_verdict_def split: fb_call.splits)
qed

text \<open>The counters in order, and as they are on the disk.\<close>

definition tallied :: "int \<Rightarrow> int \<Rightarrow> int \<Rightarrow> fb_stats" where
  "tallied s k n = \<lparr>fs_Total = s + k + n, fs_Executed = s + k, fs_Success = s, fs_Fail = k, fs_Skip = n\<rparr>"

definition on_disk :: "fb_stats \<Rightarrow> feedback_file \<Rightarrow> bool" where
  "on_disk st f \<longleftrightarrow> ff_dir f \<noteq> [] \<and> ff_stats f = st \<and> fd_status (ff_disk f) = Some (stats_text st)"

lemma update_settles:
  "fe_fails fe = None \<Longrightarrow> ff_dir f \<noteq> [] \<Longrightarrow>
     on_disk (tallied (fs_Success (ff_stats f)) (fs_Fail (ff_stats f)) (fs_Skip (ff_stats f))) (fb_update fe f)"
  by (cases "ff_stats f") (simp add: on_disk_def tallied_def fb_update_def Let_def)

lemma update_keeps_mode [simp]: "ff_dir (fb_update fe f) = ff_dir f" "ff_continued (fb_update fe f) = ff_continued f"
  by (simp_all add: fb_update_def Let_def split: option.splits)

definition sizes_run :: "fb_call \<Rightarrow> bool" where
  "sizes_run c = (case c of TotalTestCase n ms ts \<Rightarrow> True | _ \<Rightarrow> False)"

lemma report_step:
  assumes "on_disk (tallied s k n) f" "fe_fails fe = None" "ff_continued f \<or> \<not> sizes_run c"
  shows "on_disk (tallied (s + verdicts True [c]) (k + verdicts False [c]) n) (fb_report (fe, c) f) \<and>
    ff_continued (fb_report (fe, c) f) = ff_continued f"
proof (cases c)
  case (Stopping ev)
  let ?f = "fb_println [stop_line (stop_head (ff_isolation (on_xml (stop_element fe ev) (f\<lparr>ff_stats := count_stop ev (ff_stats f)\<rparr>))) ev) ev,
      ev_ResultText ev, []] (on_xml (stop_element fe ev) (f\<lparr>ff_stats := count_stop ev (ff_stats f)\<rparr>))"
  have r: "fb_report (fe, c) f = fb_update fe ?f" by (simp add: Stopping fb_CaseStop_def Let_def)
  have st: "ff_stats f = tallied s k n" "ff_dir f \<noteq> []" using assms(1) by (simp_all add: on_disk_def)
  have "fs_Success (ff_stats ?f) = s + verdicts True [c]" "fs_Fail (ff_stats ?f) = k + verdicts False [c]"
    "fs_Skip (ff_stats ?f) = n"
    using st(1) by (simp_all add: Stopping verdicts_def is_verdict_def count_stop_def tallied_def)
  then show ?thesis using update_settles [OF assms(2), of ?f] st(2) unfolding r by simp
qed (use assms in \<open>simp_all add: on_disk_def verdicts_def is_verdict_def sizes_run_def fb_TaskStart_def fb_TaskContinue_def
    fb_TotalTestCase_def fb_CaseStopRetry_def fb_CaseMonitor_def fb_TaskStop_def Let_def del: fold_simps\<close>)

lemma report_dir [simp]: "ff_dir (fb_report x f) = ff_dir f"
proof -
  obtain fe c where "x = (fe, c)" by (cases x)
  then show ?thesis by (cases c) (simp_all add: fb_TaskStart_def fb_TaskContinue_def fb_TotalTestCase_def
    fb_CaseStop_def fb_CaseStopRetry_def fb_CaseMonitor_def fb_TaskStop_def Let_def del: fold_simps)
qed

lemma reports_dir [simp]: "ff_dir (fold fb_report xs f) = ff_dir f"
  by (induction xs arbitrary: f) simp_all

lemma report_all:
  assumes "on_disk (tallied s k n) f" "\<forall>x \<in> set xs. fe_fails (fst x) = None"
    and "ff_continued f \<or> (\<forall>x \<in> set xs. \<not> sizes_run (snd x))"
  shows "on_disk (tallied (s + verdicts True (map snd xs)) (k + verdicts False (map snd xs)) n) (fold fb_report xs f)"
  using assms
proof (induction xs arbitrary: s k f)
  case (Cons x xs)
  obtain fe c where x: "x = (fe, c)" by (cases x)
  have "on_disk (tallied (s + verdicts True [c]) (k + verdicts False [c]) n) (fb_report x f) \<and>
      ff_continued (fb_report x f) = ff_continued f"
    unfolding x by (rule report_step [OF Cons.prems(1)]) (use Cons.prems(2,3) x in auto)
  then have "on_disk (tallied (s + verdicts True [c] + verdicts True (map snd xs)) (k + verdicts False [c] + verdicts False (map snd xs)) n)
      (fold fb_report xs (fb_report x f))"
    using Cons.prems(2,3) by (intro Cons.IH) auto
  moreover have "verdicts ok (map snd (x # xs)) = verdicts ok [c] + verdicts ok (map snd xs)" for ok
    using verdicts_simps(2) [of ok "[c]" "map snd xs"] x by simp
  ultimately show ?case by (simp add: add.assoc)
qed simp

lemma sized_run:
  assumes "ff_stats f = no_stats" "ff_dir f \<noteq> []" "\<not> ff_continued f" "fe_fails fe = None"
  shows "on_disk (tallied 0 0 (ms + ts)) (fb_report (fe, TotalTestCase n ms ts) f) \<and>
    \<not> ff_continued (fb_report (fe, TotalTestCase n ms ts) f)"
proof -
  let ?g = "f\<lparr>ff_stats := (ff_stats f)\<lparr>fs_Total := n, fs_Skip := ms + ts\<rparr>\<rparr>"
  obtain h where h: "fb_report (fe, TotalTestCase n ms ts) f = fb_update fe h" "ff_stats h = ff_stats ?g" "ff_dir h = ff_dir f"
      "ff_continued h = ff_continued f"
    using assms(3) that by (simp add: fb_TotalTestCase_def Let_def)
  then show ?thesis using update_settles [OF assms(4), of h] assms by (simp add: no_stats_def)
qed

lemma reopened:
  assumes "on_disk st f" "stats_fit st" "ff_disk g = ff_disk f" "ff_dir g = ff_dir f" "ff_continued g"
    and "openLog refused g = Inr h"
  shows "on_disk st h \<and> ff_continued h"
  using assms stats_read_back [OF assms(2)]
  by (auto simp: openLog_def on_disk_def Let_def split: if_splits)

definition opens :: "fb_refusal set \<Rightarrow> string \<Rightarrow> bool \<Rightarrow> fb_disk \<Rightarrow> feedback_file \<Rightarrow> bool" where
  "opens refused dir again disk f \<longleftrightarrow>
     (\<exists>cat out msg. fb_Open refused dir cat out again msg disk = Inr f \<or> OpenIsolation refused dir cat out again disk = Inr f)"

lemma opens_log:
  assumes "opens refused dir again disk h"
  shows "\<exists>cat out msg isolated g. openLog refused (new_file cat out msg dir again isolated disk) = Inr g \<and>
    ff_stats h = ff_stats g \<and> ff_dir h = ff_dir g \<and> ff_continued h = ff_continued g \<and>
    fd_status (ff_disk h) = fd_status (ff_disk g)"
proof -
  obtain cat out msg where "fb_Open refused dir cat out again msg disk = Inr h \<or> OpenIsolation refused dir cat out again disk = Inr h"
    using assms unfolding opens_def by blast
  then show ?thesis
  proof
    assume "fb_Open refused dir cat out again msg disk = Inr h"
    then obtain g where "openLog refused (new_file cat out msg dir again False disk) = Inr g"
      "h = g\<lparr>ff_xml := Some (new_junit cat), ff_disk := (ff_disk g)\<lparr>fd_xml := Some []\<rparr>\<rparr>"
      unfolding fb_Open_def by (auto split: sum.splits if_splits)
    then show ?thesis by (intro exI [of _ cat] exI [of _ out] exI [of _ msg] exI [of _ False] exI [of _ g]) simp
  next
    assume "OpenIsolation refused dir cat out again disk = Inr h"
    then show ?thesis unfolding OpenIsolation_def by blast
  qed
qed

lemma opened_new:
  assumes "opens refused dir False disk f"
  shows "ff_stats f = no_stats \<and> ff_dir f = dir \<and> \<not> ff_continued f"
proof -
  obtain cat out msg isolated g where "openLog refused (new_file cat out msg dir False isolated disk) = Inr g"
    "ff_stats f = ff_stats g" "ff_dir f = ff_dir g" "ff_continued f = ff_continued g"
    using opens_log [OF assms] by blast
  then show ?thesis by (auto simp: openLog_def new_file_def Let_def split: if_splits)
qed

lemma opened_again:
  assumes "opens refused dir True (ff_disk f) h" "on_disk st f" "stats_fit st" "ff_dir f = dir"
  shows "on_disk st h \<and> ff_continued h"
proof -
  obtain cat out msg isolated g where g: "openLog refused (new_file cat out msg dir True isolated (ff_disk f)) = Inr g"
    "ff_stats h = ff_stats g" "ff_dir h = ff_dir g" "ff_continued h = ff_continued g"
    "fd_status (ff_disk h) = fd_status (ff_disk g)"
    using opens_log [OF assms(1)] by blast
  have "on_disk st g \<and> ff_continued g"
    by (rule reopened [OF assms(2,3) _ _ _ g(1)]) (simp_all add: new_file_def assms(4))
  then show ?thesis using g(2-5) by (simp add: on_disk_def)
qed

lemma interrupted_counts:
  assumes "opens refused dir False disk f0" "opens refused' dir True (ff_disk f1) f2" "dir \<noteq> []"
    and f1: "f1 = fold fb_report ((fe0, TaskStart) # (fe1, TotalTestCase n ms ts) # part1) f0"
    and "fe_fails fe1 = None" "\<forall>x \<in> set part1 \<union> set part2. fe_fails (fst x) = None"
    and "\<forall>x \<in> set part1. \<not> sizes_run (snd x)" "0 \<le> ms + ts" "ms + ts + (verdicts True (map snd part1) + verdicts False (map snd part1)) \<le> int_hi"
  shows "on_disk (tallied (verdicts True (map snd part1) + verdicts True (map snd part2))
      (verdicts False (map snd part1) + verdicts False (map snd part2)) (ms + ts)) (fold fb_report part2 f2)"
proof -
  let ?g = "fb_report (fe0, TaskStart) f0" and ?s = "verdicts True (map snd part1)" and ?k = "verdicts False (map snd part1)"
  have "ff_stats ?g = no_stats \<and> ff_dir ?g = dir \<and> \<not> ff_continued ?g"
    using opened_new [OF assms(1)] by (simp add: fb_TaskStart_def Let_def)
  then have "on_disk (tallied 0 0 (ms + ts)) (fb_report (fe1, TotalTestCase n ms ts) ?g)"
    using sized_run [of ?g fe1 ms ts n] assms(3,5) by simp
  then have d: "on_disk (tallied ?s ?k (ms + ts)) f1"
    using report_all [of 0 0 "ms + ts" _ part1] assms(6,7) unfolding f1 by (simp add: ball_Un)
  have "ff_dir f1 = dir" unfolding f1 using opened_new [OF assms(1)] by (simp only: reports_dir)
  moreover have "stats_fit (tallied ?s ?k (ms + ts))"
    using verdicts_bound(1) [of True "map snd part1"] verdicts_bound(1) [of False "map snd part1"] assms(8,9)
    by (simp add: stats_fit_def tallied_def stat_values_def in_int_def int_lo_def)
  ultimately have "on_disk (tallied ?s ?k (ms + ts)) f2 \<and> ff_continued f2"
    by (intro opened_again [OF assms(2) d]) simp_all
  then show ?thesis using report_all [of ?s ?k "ms + ts" f2 part2] assms(6) by (simp add: ball_Un)
qed

text \<open>
  C22: The counters of a report that is cut off after any events and opened again count every verdict of
  both parts once, and they are so on the disk; the sizes are those the first part was told.
\<close>

theorem counts_survive_interruption:
  assumes "fb_Open refused dir cat out False msg disk = Inr f0" "dir \<noteq> []"
    and "f1 = fold fb_report ((fe0, TaskStart) # (fe1, TotalTestCase n ms ts) # part1) f0"
    and "fb_Open refused' dir cat out' True msg' (ff_disk f1) = Inr f2" "f3 = fold fb_report part2 f2"
    and "fe_fails fe1 = None" "\<forall>x \<in> set part1 \<union> set part2. fe_fails (fst x) = None"
    and "\<forall>x \<in> set part1. \<not> sizes_run (snd x)" "0 \<le> ms + ts" "ms + ts + int (length part1) \<le> int_hi"
    and "k = (\<lambda>ok. verdicts ok (map snd part1 @ map snd part2))"
  shows "ff_stats f3 = \<lparr>fs_Total = k True + k False + (ms + ts), fs_Executed = k True + k False,
      fs_Success = k True, fs_Fail = k False, fs_Skip = ms + ts\<rparr> \<and>
    fd_status (ff_disk f3) = Some (stats_text (ff_stats f3))"
proof -
  have o: "opens refused dir False disk f0" "opens refused' dir True (ff_disk f1) f2"
    using assms(1,4) unfolding opens_def by blast+
  have "ms + ts + (verdicts True (map snd part1) + verdicts False (map snd part1)) \<le> int_hi"
    using assms(10) verdicts_bound(2) [of "map snd part1"] by simp
  from interrupted_counts [OF o assms(2,3) assms(6-9) this] show ?thesis unfolding assms(5,11) on_disk_def tallied_def verdicts_simps by simp
qed

theorem counts_survive_interruption_witness:
  "\<exists>f0 f1 f2. fb_Open {} ''d'' ''shell'' None False [] no_disk = Inr f0 \<and>
     f1 = fold fb_report [(small_fe, TaskStart), (small_fe, TotalTestCase 2 0 1), (small_fe, Stopping (small_stop ''a'' True))] f0 \<and>
     fb_Open {} ''d'' ''shell'' None True [] (ff_disk f1) = Inr f2 \<and>
     fs_Total (ff_stats (fold fb_report [(small_fe, Stopping (small_stop ''b'' False))] f2)) = 3"
proof -
  obtain f0 where f0: "fb_Open {} ''d'' ''shell'' None False [] no_disk = Inr f0" using nothing_refused by blast
  let ?f1 = "fold fb_report ((small_fe, TaskStart) # (small_fe, TotalTestCase 2 0 1) # [(small_fe, Stopping (small_stop ''a'' True))]) f0"
  obtain f2 where f2: "fb_Open {} ''d'' ''shell'' None True [] (ff_disk ?f1) = Inr f2" using nothing_refused by blast
  have "fs_Total (ff_stats (fold fb_report [(small_fe, Stopping (small_stop ''b'' False))] f2)) = 3"
    using counts_survive_interruption [OF f0 _ refl f2 refl _ _ _ _ _ refl, of "[(small_fe, Stopping (small_stop ''b'' False))]"]
    by (simp add: small_fe_def small_stop_def sizes_run_def verdicts_def is_verdict_def int_hi_def)
  then show ?thesis using f0 f2 by auto
qed

text \<open>
  Only the verdicts are on the disk, not the case they belong to: a case that is cut off after its
  verdict and before it is entered as finished is run again and counted again.
\<close>

lemma verdict_is_counted_again:
  assumes "on_disk (tallied s k n) f" "stats_fit (tallied (s + 1) k n)" "fe_fails fe = None" "ev_SkipType ev = SkipTypeNo" "ev_Success ev"
    and "opens refused (ff_dir f) True (ff_disk (fb_report (fe, Stopping ev) f)) h" "\<not> sizes_run (Stopping ev)"
  shows "on_disk (tallied (s + 2) k n) (fb_report (fe, Stopping ev) h)"
proof -
  have v: "verdicts True [Stopping ev] = 1" "verdicts False [Stopping ev] = 0" using assms(4,5) by (simp_all add: verdicts_def is_verdict_def)
  have "on_disk (tallied (s + 1) k n) (fb_report (fe, Stopping ev) f)"
    using report_step [OF assms(1,3), of "Stopping ev"] assms(7) v by simp
  then have "on_disk (tallied (s + 1) k n) h \<and> ff_continued h"
    by (intro opened_again [OF assms(6)]) (simp_all add: assms(2) del: fb_report.simps)
  then show ?thesis using report_step [of "s + 1" k n h fe "Stopping ev"] assms(3) v by (simp add: add.commute)
qed

subsection \<open>The counters of an isolation run\<close>

lemma notes_are_verdicts: "verdicts True (map note_call rs) + verdicts False (map note_call rs) = int (length (judged_cases rs))"
proof (induction rs)
  case (Cons x rs)
  have "verdicts ok (map note_call (x # rs)) = verdicts ok [note_call x] + verdicts ok (map note_call rs)" for ok
    by (simp add: verdicts_def)
  moreover have "verdicts True [note_call x] + verdicts False [note_call x] = int (length (verdict_of_case x))"
    by (cases x) (simp_all add: verdicts_def is_verdict_def note_call_def with_no_skip_def verdict_of_case_def
      stop_event.defs fb_event.defs)
  ultimately show ?case using Cons.IH by (simp add: judged_cases_def)
qed simp

lemma notes_size_nothing: "\<not> sizes_run (note_call x)"
  by (cases x) (simp_all add: note_call_def sizes_run_def)

end
