(* ===== verification/Feedback_Report_Claims.thy ===== *)
theory Feedback_Report_Claims
  imports Feedback
begin

text \<open>
  The document of a report: its sections of output hold what the case printed, and the
  elements of the verdicts stand in one suite, in their order, also in a continued run.
\<close>

subsection \<open>Sections of output\<close>

lemma safe_Nil: "cdataSafe [] = []"
  by (simp add: cdataSafe_def cdata_end_def)

lemma safe_Cons: "\<not> prefix cdata_end (c # e) \<Longrightarrow> cdataSafe (c # e) = c # cdataSafe e"
proof -
  have "cdata_end \<noteq> []" by (simp add: cdata_end_def)
  then show "\<not> prefix cdata_end (c # e) \<Longrightarrow> cdataSafe (c # e) = c # cdataSafe e"
    by (simp add: cdataSafe_def replace_all.simps(2))
qed

lemma safe_end: "cdataSafe (cdata_end @ e) = '']]'' @ cdata_end @ cdata_begin @ ''>'' @ cdataSafe e"
  by (simp add: cdataSafe_def replace_all.simps(2) cdata_end_def)

lemma end_cases:
  obtains e where "d = cdata_end @ e" | "d = []" | c e where "d = c # e" "\<not> prefix cdata_end d"
  by (cases d; cases "prefix cdata_end d") (auto simp: prefix_def)

text \<open>A text in which no end of a section occurs, however much of an end follows it.\<close>

lemma ends_once:
  "\<not> contains x cdata_end \<Longrightarrow> index_of (x @ cdata_end) cdata_end = Some (length x)"
proof (induction x)
  case Nil
  show ?case by (simp add: cdata_end_def)
next
  case (Cons c x)
  have no: "\<not> prefix cdata_end (c # x @ cdata_end)"
  proof
    assume p: "prefix cdata_end (c # x @ cdata_end)"
    consider "x = []" | d where "x = [d]" | d e y where "x = d # e # y" by (metis neq_Nil_conv)
    then show False
    proof cases
      case 1
      then show False using p by (simp add: cdata_end_def)
    next
      case 2
      then show False using p by (simp add: cdata_end_def)
    next
      case (3 d e y)
      then have "prefix cdata_end (c # x)" using p by (auto simp: cdata_end_def)
      then show False using Cons.prems prefix_imp_sublist by blast
    qed
  qed
  have "\<not> contains x cdata_end" using Cons.prems by (simp add: sublist_Cons_right)
  then show ?case using Cons.IH no by simp
qed

text \<open>An output as the contents of sections that follow each other.\<close>

definition in_sections :: "string list \<Rightarrow> string" where
  "in_sections xs = concat (map (\<lambda>x. cdata_begin @ x @ cdata_end) xs)"

lemma safe_pieces:
  "\<exists>x xs. cdata_begin @ cdataSafe d @ LF # cdata_end = in_sections (x # xs) \<and> concat (x # xs) = d @ [LF] \<and>
    (\<forall>y \<in> set (x # xs). \<not> contains y cdata_end)"
proof (induction d rule: length_induct)
  case (1 d)
  show ?case
  proof (rule end_cases [of d])
    fix e assume d: "d = cdata_end @ e"
    then obtain x xs where x: "cdata_begin @ cdataSafe e @ LF # cdata_end = in_sections (x # xs)" "concat (x # xs) = e @ [LF]"
      "\<forall>y \<in> set (x # xs). \<not> contains y cdata_end"
      using "1.IH" by (metis length_append less_add_same_cancel2 cdata_end_def length_greater_0_conv list.distinct(1))
    then have "cdataSafe e @ LF # cdata_end = x @ cdata_end @ in_sections xs" by (simp add: in_sections_def)
    then have "cdata_begin @ cdataSafe d @ LF # cdata_end = in_sections ('']]'' # (CHR ''>'' # x) # xs)"
      unfolding d safe_end by (simp add: in_sections_def)
    moreover have "concat ('']]'' # (CHR ''>'' # x) # xs) = d @ [LF]" using x(2) by (simp add: d cdata_end_def)
    moreover have "\<forall>y \<in> set ('']]'' # (CHR ''>'' # x) # xs). \<not> contains y cdata_end"
      using x(3) by (simp add: sublist_Cons_right cdata_end_def)
    ultimately show ?thesis by blast
  next
    assume "d = []"
    then show ?thesis
      by (intro exI [of _ "[LF]"] exI [of _ "[]"]) (simp add: safe_Nil in_sections_def sublist_Cons_right cdata_end_def LF_def)
  next
    fix c e assume d: "d = c # e" "\<not> prefix cdata_end d"
    then obtain x xs where x: "cdata_begin @ cdataSafe e @ LF # cdata_end = in_sections (x # xs)" "concat (x # xs) = e @ [LF]"
      "\<forall>y \<in> set (x # xs). \<not> contains y cdata_end"
      using "1.IH" by auto
    then have "cdataSafe e @ LF # cdata_end = x @ cdata_end @ in_sections xs" by (simp add: in_sections_def)
    then have "cdata_begin @ cdataSafe d @ LF # cdata_end = in_sections ((c # x) # xs)"
      using d by (simp add: safe_Cons in_sections_def)
    moreover have "concat ((c # x) # xs) = d @ [LF]" using x(2) d(1) by simp
    moreover have "\<not> prefix cdata_end (c # x)"
    proof
      assume "prefix cdata_end (c # x)"
      then have "prefix cdata_end (c # x @ concat xs)" by (metis append_Cons prefix_prefix)
      then have "prefix cdata_end (d @ [LF])" using x(2) d(1) by simp
      then show False using d(2) by (auto simp: cdata_end_def LF_def prefix_snoc)
    qed
    ultimately show ?thesis using x(3)
      by (intro exI [of _ "c # x"] exI [of _ xs]) (simp add: sublist_Cons_right)
  qed
qed

lemma plain_char: "c \<noteq> CHR '']'' \<Longrightarrow> contains (c # s) cdata_end \<longleftrightarrow> contains s cdata_end"
  by (simp add: sublist_Cons_right cdata_end_def)

lemma plain_joined: "\<not> contains a cdata_end \<Longrightarrow> \<not> contains b cdata_end \<Longrightarrow> \<not> contains (a @ LF # b) cdata_end"
proof (induction a)
  case Nil
  then show ?case by (simp add: plain_char LF_def)
next
  case (Cons c a)
  then have "\<not> prefix cdata_end (c # a)" "\<not> contains (a @ LF # b) cdata_end" by (auto simp: sublist_Cons_right)
  moreover have "\<not> prefix cdata_end (c # a @ LF # b)"
    using calculation(1) by (cases a rule: list.exhaust; cases "tl a") (auto simp: cdata_end_def LF_def)
  ultimately show ?case by (simp add: sublist_Cons_right)
qed

text \<open>
  C27: What the document has for a failed case is one section of character data after another, each
  ended by the first end of a section in it, and their contents put together are the environment, the
  host and the output of the case, byte for byte: an end of a section in the output ends none. The
  names of the environment and of the host hold no such end.
\<close>

theorem report_keeps_the_output:
  assumes "\<not> contains envID cdata_end" "\<not> contains (orNull (fe_host fe)) cdata_end"
  shows "\<exists>xs. cdata_part fe envID details = concat (map (\<lambda>x. cdata_begin @ x @ cdata_end) xs) \<and>
    (\<forall>x \<in> set xs. index_of (x @ cdata_end) cdata_end = Some (length x)) \<and>
    concat xs = [LF] @ ''EnvIdentify: '' @ envID @ [LF] @ ''Hostname: '' @ orNull (fe_host fe) @ [LF] @ details @ [LF]"
proof -
  define h where "h = [LF] @ ''EnvIdentify: '' @ envID @ [LF] @ ''Hostname: '' @ orNull (fe_host fe)"
  have "\<not> contains (LF # ''EnvIdentify: '' @ envID) cdata_end" "\<not> contains (''Hostname: '' @ orNull (fe_host fe)) cdata_end"
    using assms by (simp_all add: plain_char LF_def)
  from plain_joined [OF this] have h: "\<not> contains h cdata_end" by (simp add: h_def)
  obtain x xs where x: "cdata_begin @ cdataSafe details @ LF # cdata_end = in_sections (x # xs)" "concat (x # xs) = details @ [LF]"
    "\<forall>y \<in> set (x # xs). \<not> contains y cdata_end"
    using safe_pieces by blast
  have "cdata_part fe envID details = in_sections ((h @ LF # x) # xs)"
    using x(1) by (simp add: cdata_part_def in_sections_def h_def)
  moreover have "concat ((h @ LF # x) # xs) = h @ [LF] @ details @ [LF]" using x(2) by simp
  moreover have "\<forall>y \<in> set ((h @ LF # x) # xs). index_of (y @ cdata_end) cdata_end = Some (length y)"
    using x(3) plain_joined [OF h] ends_once by (metis set_ConsD list.set_intros)
  ultimately show ?thesis unfolding in_sections_def h_def by (intro exI [of _ "(h @ LF # x) # xs"]) (simp add: h_def)
qed

theorem report_keeps_the_output_witness:
  "\<exists>xs. cdata_part small_fe ''local'' ''a]]>b'' = concat (map (\<lambda>x. cdata_begin @ x @ cdata_end) xs) \<and>
    concat xs = [LF] @ ''EnvIdentify: '' @ ''local'' @ [LF] @ ''Hostname: '' @ ''null'' @ [LF] @ ''a]]>b'' @ [LF]"
proof -
  have n: "orNull (fe_host small_fe) = ''null''" by (simp add: orNull_def small_fe_def)
  have "\<not> contains ''local'' cdata_end" "\<not> contains (orNull (fe_host small_fe)) cdata_end"
    unfolding n by (simp_all add: cdata_end_def sublist_Cons_right)
  from report_keeps_the_output [OF this, of "''a]]>b''"] show ?thesis unfolding n by blast
qed

subsection \<open>The document\<close>

definition suite_line :: "string \<Rightarrow> string \<Rightarrow> bool" where
  "suite_line cat l \<longleftrightarrow> (\<exists>tests skipped now. l = ''  <testsuite name='' @ attr cat @ '' tests='' @ attr (itoa tests) @
     '' skipped='' @ attr (itoa skipped) @ '' timestamp='' @ attr now @ ''>'' @ [LF])"

definition verdict_element :: "string \<Rightarrow> fb_env \<times> fb_call \<Rightarrow> string" where
  "verdict_element cat x =
     (case snd x of
        Stopping ev \<Rightarrow>
          (case ev_SkipType ev of
             SkipTypeNo \<Rightarrow> if ev_Success ev then case_element (fst x) cat (ev_Case ev) (ev_EnvID ev) (ev_Elapsed ev) [] [] []
               else case_element (fst x) cat (ev_Case ev) (ev_EnvID ev) (ev_Elapsed ev) ''failure'' ''Test failed'' (ev_ResultText ev)
           | SkipTypeByMacro \<Rightarrow> case_element (fst x) cat (ev_Case ev) (ev_EnvID ev) 0 ''skipped'' ''Skipped by macro'' []
           | SkipTypeByTemp \<Rightarrow> case_element (fst x) cat (ev_Case ev) (ev_EnvID ev) 0 ''skipped'' ''Skipped by bug'' []
           | SkipTypeOther n \<Rightarrow> case_element (fst x) cat (ev_Case ev) (ev_EnvID ev) (ev_Elapsed ev) ''error'' ''Unknown test status'' [])
      | _ \<Rightarrow> [])"

text \<open>A document so far: its head, and after it nothing, or one suite's line and some elements.\<close>

definition grown :: "string \<Rightarrow> string \<Rightarrow> junit \<Rightarrow> bool" where
  "grown cat els j \<longleftrightarrow> ju_category j = cat \<and> \<not> ju_closed j \<and>
     (if ju_suiteOpen j then (\<exists>l. suite_line cat l \<and> ju_text j = ju_text (new_junit cat) @ l @ els)
      else els = [] \<and> ju_text j = ju_text (new_junit cat))"

lemma grown_new: "grown cat [] (new_junit cat)"
  by (simp add: grown_def new_junit_def)

lemma grown_suite: "grown cat els j \<Longrightarrow> grown cat els (suiteStart fe a b j) \<and> ju_suiteOpen (suiteStart fe a b j)"
  unfolding grown_def suiteStart_def junit_printed_def suite_line_def by (cases "ju_suiteOpen j") auto

lemma grown_case:
  assumes "grown cat els j"
  shows "grown cat (els @ case_element fe cat name e d out msg details) (junit_testCase fe name e d out msg details j)"
proof -
  have "ju_category j = cat" using assms by (simp add: grown_def)
  then show ?thesis using grown_suite [OF assms, of fe 0 0] unfolding grown_def junit_testCase_def junit_printed_def by auto
qed

lemma grown_stop: "grown cat els j \<Longrightarrow> grown cat (els @ verdict_element cat (fe, Stopping ev)) (stop_element fe ev j)"
  by (cases "ev_SkipType ev") (simp_all add: verdict_element_def stop_element_def grown_case)

lemma xml_keeps [simp]:
  "ff_xml (fb_println ls f) = ff_xml f" "ff_xml (fb_out l f) = ff_xml f" "ff_xml (fb_emit l f) = ff_xml f"
  "ff_xml (writeTaskID n f) = ff_xml f" "ff_xml (fb_update fe f) = ff_xml f" "ff_xml (on_xml g f) = map_option g (ff_xml f)"
  by (simp_all add: fb_println_def fb_out_def fb_emit_def on_xml_def writeTaskID_def fb_update_def Let_def split: option.splits)

lemma xml_emits [simp]: "ff_xml (fold fb_emit ls f) = ff_xml f"
  by (induction ls arbitrary: f) simp_all

lemma grown_report:
  assumes "ff_xml f = Some j" "grown cat els j"
  shows "\<exists>j'. ff_xml (fb_report x f) = Some j' \<and> grown cat (els @ verdict_element cat x) j'"
proof -
  obtain fe c where x: "x = (fe, c)" by (cases x)
  show ?thesis
  proof (cases c)
    case (Stopping ev)
    then show ?thesis using assms(1) grown_stop [OF assms(2), of fe ev] by (simp add: x fb_CaseStop_def Let_def)
  next
    case (TotalTestCase n ms ts)
    have v: "verdict_element cat x = []" by (simp add: x TotalTestCase verdict_element_def)
    have "\<exists>a b. ff_xml (fb_report x f) = Some (if ff_continued f then j else suiteStart fe a b j)"
      using assms(1) by (simp add: x TotalTestCase fb_TotalTestCase_def Let_def) blast
    then obtain a b where "ff_xml (fb_report x f) = Some (if ff_continued f then j else suiteStart fe a b j)" by blast
    then show ?thesis using assms(2) grown_suite [OF assms(2), of fe a b] by (simp add: v)
  qed (use assms in \<open>simp_all add: x verdict_element_def fb_TaskStart_def fb_TaskContinue_def fb_CaseStopRetry_def
    fb_CaseMonitor_def fb_TaskStop_def Let_def del: fold_simps\<close>)
qed

lemma grown_reports:
  "ff_xml f = Some j \<Longrightarrow> grown cat els j \<Longrightarrow>
     \<exists>j'. ff_xml (fold fb_report xs f) = Some j' \<and> grown cat (els @ concat (map (verdict_element cat) xs)) j'"
proof (induction xs arbitrary: f j els)
  case (Cons x xs)
  obtain j' where "ff_xml (fb_report x f) = Some j'" "grown cat (els @ verdict_element cat x) j'"
    using grown_report [OF Cons.prems] by blast
  from Cons.IH [OF this] show ?case by simp
qed simp

text \<open>
  C34: Whatever is reported, and whether the run is a continued one or not, the document holds at most one
  suite, opened before the first verdict and closed once, and in it the elements of the verdicts in their order.
\<close>

theorem document_has_one_suite:
  assumes "fb_Open refused dir cat out again msg disk = Inr f0"
  shows "\<exists>suite. fd_xml (ff_disk (fb_Close (fold fb_report xs f0))) = Some (ju_text (new_junit cat) @ suite @ ''</testsuites>'' @ [LF]) \<and>
    (suite = [] \<and> concat (map (verdict_element cat) xs) = [] \<or>
     (\<exists>l. suite_line cat l \<and> suite = l @ concat (map (verdict_element cat) xs) @ ''  </testsuite>'' @ [LF]))"
proof -
  have "ff_xml f0 = Some (new_junit cat)"
    using assms by (auto simp: fb_Open_def split: sum.splits if_splits)
  from grown_reports [OF this grown_new, of xs] obtain j where
    j: "ff_xml (fold fb_report xs f0) = Some j" "grown cat (concat (map (verdict_element cat) xs)) j" by auto
  show ?thesis
  proof (cases "ju_suiteOpen j")
    case True
    then obtain l where "suite_line cat l" "ju_text j = ju_text (new_junit cat) @ l @ concat (map (verdict_element cat) xs)"
      using j(2) by (auto simp: grown_def)
    then show ?thesis using j True
      by (intro exI [of _ "l @ concat (map (verdict_element cat) xs) @ ''  </testsuite>'' @ [LF]"])
        (auto simp: fb_Close_def junit_close_def junit_printed_def grown_def)
  next
    case False
    then show ?thesis using j by (simp add: fb_Close_def junit_close_def junit_printed_def grown_def)
  qed
qed

theorem document_has_one_suite_witness:
  "\<exists>f0 suite l. fb_Open {} ''d'' ''shell'' None True [] no_disk = Inr f0 \<and> suite_line ''shell'' l \<and>
     fd_xml (ff_disk (fb_Close (fold fb_report [(small_fe, Stopping (small_stop ''a'' False))] f0))) = Some (ju_text (new_junit ''shell'') @ suite @ ''</testsuites>'' @ [LF]) \<and>
     suite = l @ verdict_element ''shell'' (small_fe, Stopping (small_stop ''a'' False)) @ ''  </testsuite>'' @ [LF]"
proof -
  obtain f0 where f0: "fb_Open {} ''d'' ''shell'' None True [] no_disk = Inr f0" using nothing_refused by blast
  have "verdict_element ''shell'' (small_fe, Stopping (small_stop ''a'' False)) \<noteq> []"
    by (simp add: verdict_element_def case_element_def small_stop_def)
  then show ?thesis
    using document_has_one_suite [OF f0, of "[(small_fe, Stopping (small_stop ''a'' False))]"] f0 by auto
qed

text \<open>
  The end of a section is not the one thing a section cannot hold: a document has no control characters
  but tabs and line ends, and a case's output may have any.
\<close>

lemma escape_stays: "CHR 0x1B \<in> set (cdataSafe (a @ [CHR 0x1B] @ b))"
proof (induction a rule: length_induct)
  case (1 a)
  have e: "\<not> prefix cdata_end ([CHR 0x1B] @ b)" by (simp add: cdata_end_def)
  show ?case
  proof (cases a)
    case Nil
    then show ?thesis using e by (simp add: safe_Cons)
  next
    case (Cons c a')
    show ?thesis
    proof (cases "prefix cdata_end (a @ [CHR 0x1B] @ b)")
      case True
      then obtain a3 where "a = cdata_end @ a3"
        using Cons by (cases a'; cases "tl a'") (auto simp: cdata_end_def)
      then show ?thesis using "1.IH" by (simp add: safe_end) (simp add: cdata_end_def)
    next
      case False
      then show ?thesis using "1.IH" Cons by (simp add: safe_Cons)
    qed
  qed
qed

end
