(* ===== verification/Isolation_Crew.thy ===== *)
theory Isolation_Crew
  imports Isolation Dispatch_Run Feedback
begin

text \<open>
  A run of the isolation suite: \<open>isolation.go\<close> in \<open>internal/runner/isolationsuite\<close> starts a worker per slot over
  one queue, one sink and one report. What a worker has seen of crashes, cores and fatal lines is its own, on its
  desk, with how far its ticket is; the rest is shared. A step is a claim or a part of a ticket by any worker, or
  another writer's output; what the machine answers in a step is arbitrary, since the other slots run at the same time.
\<close>

datatype iso_todo = IsoFree | IsoClaimed ticket | IsoJudged ticket iso_verdict "string list" | IsoEntered ticket iso_verdict | IsoLeft

record iso_desk =
  id_todo :: iso_todo
  id_crashes :: "string list"
  id_cores :: "string list"
  id_fatals :: "(string \<times> int) list"

record ('m, 'e) iso_crew =
  ir_all :: "('m, 'e) iso_worker"
  ir_desks :: "iso_desk list"
  ir_started :: "ticket list"
  ir_decided :: "string list"

definition iso_begins :: "nat \<Rightarrow> ('m, 'e) iso_worker \<Rightarrow> ('m, 'e) iso_crew" where
  "iso_begins n w = \<lparr>ir_all = w,
     ir_desks = replicate n \<lparr>id_todo = IsoFree, id_crashes = [], id_cores = [], id_fatals = []\<rparr>,
     ir_started = [], ir_decided = []\<rparr>"

definition iso_at :: "('m, 'e) iso_crew \<Rightarrow> nat \<Rightarrow> ('m, 'e) iso_worker" where
  "iso_at s i = (let d = ir_desks s ! i in
     (ir_all s)\<lparr>iw_crashes := id_crashes d, iw_cores := id_cores d, iw_fatals := id_fatals d\<rparr>)"

definition iso_up :: "nat \<Rightarrow> iso_todo \<Rightarrow> ('m, 'e) iso_worker \<Rightarrow> ('m, 'e) iso_crew \<Rightarrow> ('m, 'e) iso_crew" where
  "iso_up i td w s = s\<lparr>ir_all := w, ir_desks := (ir_desks s)[i := \<lparr>id_todo = td, id_crashes = iw_crashes w,
     id_cores = iw_cores w, id_fatals = iw_fatals w\<rparr>]\<rparr>"

definition iso_does :: "nat \<Rightarrow> iso_todo \<Rightarrow> ('m, 'e) iso_crew \<Rightarrow> bool" where
  "iso_does i td s \<longleftrightarrow> i < length (ir_desks s) \<and> id_todo (ir_desks s ! i) = td"

definition same_slot :: "'m iso_env \<Rightarrow> 'm iso_env \<Rightarrow> bool" where
  "same_slot ie ie' \<longleftrightarrow> ie_slot ie' = ie_slot ie \<and> ie_envID ie' = ie_envID ie"

inductive iso_step :: "(nat \<Rightarrow> 'm iso_env) \<Rightarrow> ('m, 'e) iso_crew \<Rightarrow> ('m, 'e) iso_crew \<Rightarrow> bool" for ies where
  iso_claim: "iso_does i IsoFree s \<Longrightarrow> claimOnce e (ie_slot (ies i)) LaneAny (iw_queue (ir_all s)) = (q', Got t) \<Longrightarrow>
     iso_step ies s ((iso_up i (IsoClaimed t) ((iso_at s i)\<lparr>iw_queue := q'\<rparr>) s)\<lparr>ir_started := ir_started s @ [t]\<rparr>)"
| iso_wait: "iso_does i IsoFree s \<Longrightarrow> claimOnce e (ie_slot (ies i)) LaneAny (iw_queue (ir_all s)) = (q', Again) \<Longrightarrow>
     iso_step ies s (iso_up i IsoFree ((iso_at s i)\<lparr>iw_queue := q'\<rparr>) s)"
| iso_leave: "iso_does i IsoFree s \<Longrightarrow> claimOnce e (ie_slot (ies i)) LaneAny (iw_queue (ir_all s)) = (q', Over) \<Longrightarrow> same_slot (ies i) ie \<Longrightarrow>
     iso_step ies s (iso_up i IsoLeft (iso_leaves ie ((iso_at s i)\<lparr>iw_queue := q'\<rparr>)) s)"
| iso_judge: "iso_does i (IsoClaimed t) s \<Longrightarrow> same_slot (ies i) ie \<Longrightarrow> iso_judged ie t (iso_at s i) = ((v, lines), w) \<Longrightarrow>
     iso_step ies s (iso_up i (IsoJudged t v lines) w s)"
| iso_enter: "iso_does i (IsoJudged t v lines) s \<Longrightarrow> same_slot (ies i) ie \<Longrightarrow>
     iso_step ies s (iso_up i (IsoEntered t v) (iso_entered ie t v lines (iso_at s i)) s)"
| iso_complete: "iso_does i (IsoEntered t v) s \<Longrightarrow>
     iso_step ies s ((iso_up i IsoFree (iso_completed t v (iso_at s i)) s)\<lparr>ir_decided := ir_decided s @ [t_case t]\<rparr>)"
| iso_output: "other_output f \<Longrightarrow> iso_step ies s (s\<lparr>ir_all := (ir_all s)\<lparr>iw_sink := f (iw_sink (ir_all s))\<rparr>\<rparr>)"

inductive iso_reaches :: "(nat \<Rightarrow> 'm iso_env) \<Rightarrow> ('m, 'e) iso_crew \<Rightarrow> ('m, 'e) iso_crew \<Rightarrow> bool" for ies s0 where
  iso_here: "iso_reaches ies s0 s0"
| iso_more: "iso_reaches ies s0 s \<Longrightarrow> iso_step ies s t \<Longrightarrow> iso_reaches ies s0 t"

text \<open>A run's tests, of the cases it was given, with the files as they are then; nothing has been said of a case yet.\<close>

definition iso_tests :: "(nat \<Rightarrow> 'm iso_env) \<Rightarrow> nat \<Rightarrow> string list \<Rightarrow> sink \<Rightarrow> ('m, 'e) iso_crew \<Rightarrow> bool" where
  "iso_tests ies n cs files s \<longleftrightarrow>
     (\<exists>w. iso_reaches ies (iso_begins n (w\<lparr>iw_queue := New cs 0, iw_sink := files, iw_report := []\<rparr>)) s)"

subsection \<open>What the report is told\<close>

definition skip_stop :: "string \<Rightarrow> fb_event" where
  "skip_stop c = \<lparr>ev_Case = c, ev_EnvID = [], ev_Success = False, ev_Elapsed = - 1000000, ev_ResultText = [],
     ev_LastPass = [], ev_TimedOut = False, ev_HasCore = False, ev_RetryCount = 0, ev_SkipType = SkipTypeByTemp\<rparr>"

text \<open>The calls of a fresh run and of a continued one, with what the workers have reported so far.\<close>

definition fresh_calls :: "string list \<Rightarrow> string list \<Rightarrow> report_note list \<Rightarrow> fb_call list" where
  "fresh_calls cs skipped notes =
     [TaskStart, TotalTestCase (int (length cs)) 0 (int (length skipped))] @ map (\<lambda>c. Stopping (skip_stop c)) skipped @ map note_call notes"

definition again_calls :: "string list \<Rightarrow> report_note list \<Rightarrow> fb_call list" where
  "again_calls cs notes = [TaskContinue, TotalTestCase (int (length cs)) 0 0] @ map note_call notes"

text \<open>Calls, each at a time of its own.\<close>

definition timed :: "(nat \<Rightarrow> fb_env) \<Rightarrow> fb_call list \<Rightarrow> (fb_env \<times> fb_call) list" where
  "timed at calls = map (\<lambda>(i, c). (at i, c)) (enumerate 0 calls)"

end
