(* ===== verification/Isolation_Crew_Claims.thy ===== *)
theory Isolation_Crew_Claims
  imports Isolation_Crew Feedback_Claims Dispatch_Claims
begin

text \<open>
  The workers of an isolation run together: their steps are steps of the queue's run, what they have reported,
  entered and completed differs by the tickets on their desks, and so the counters of a run that was cut off
  and continued say how often each case was judged.
\<close>

subsection \<open>The run of the queue\<close>

fun iso_phase :: "iso_todo \<Rightarrow> phase" where
  "iso_phase IsoFree = Asking"
| "iso_phase IsoLeft = Gone"
| "iso_phase (IsoClaimed t) = Working t"
| "iso_phase (IsoJudged t v lines) = Working t"
| "iso_phase (IsoEntered t v) = Working t"

definition iso_queue :: "('m, 'e) iso_crew \<Rightarrow> 'e sys" where
  "iso_queue s = \<lparr>sq = iw_queue (ir_all s), crew = map (\<lambda>d. iso_phase (id_todo d)) (ir_desks s),
     started = ir_started s, decided = ir_decided s\<rparr>"

lemma iso_queue_fields [simp]:
  "sq (iso_queue s) = iw_queue (ir_all s)" "crew (iso_queue s) = map (\<lambda>d. iso_phase (id_todo d)) (ir_desks s)"
  "started (iso_queue s) = ir_started s" "decided (iso_queue s) = ir_decided s"
  by (simp_all add: iso_queue_def)

lemma iso_at_fields [simp]:
  "iw_queue (iso_at s i) = iw_queue (ir_all s)" "iw_sink (iso_at s i) = iw_sink (ir_all s)" "iw_report (iso_at s i) = iw_report (ir_all s)"
  by (simp_all add: iso_at_def Let_def)

lemma iso_up_fields [simp]:
  "ir_all (iso_up i td w s) = w" "ir_started (iso_up i td w s) = ir_started s" "ir_decided (iso_up i td w s) = ir_decided s"
  "map (\<lambda>d. f (id_todo d)) (ir_desks (iso_up i td w s)) = (map (\<lambda>d. f (id_todo d)) (ir_desks s))[i := f td]"
  "length (ir_desks (iso_up i td w s)) = length (ir_desks s)"
  by (simp_all add: iso_up_def map_update)

lemma iso_does_phase: "iso_does i td s \<Longrightarrow> i < length (crew (iso_queue s)) \<and> crew (iso_queue s) ! i = iso_phase td"
  by (auto simp: iso_does_def)

lemma iso_stays_at: "iso_does i td s \<Longrightarrow> (crew (iso_queue s))[i := iso_phase td] = crew (iso_queue s)"
  using iso_does_phase [of i td s] by (metis list_update_id)

lemma leaves_frame:
  "iw_queue (iso_leaves ie w) = iw_queue w" "iw_report (iso_leaves ie w) = iw_report w" "same_entries (iw_sink w) (iw_sink (iso_leaves ie w))"
proof -
  obtain ls where "iw_sink (stopService ie w) = do_op (DoWorker (ie_envID ie) ls) (iw_sink w)" using stopService_frame(3) by blast
  then have "iw_sink (iso_leaves ie w) = do_op (DoEnvStop (ie_envID ie)) (do_op (DoWorker (ie_envID ie) ls) (iw_sink w))"
    by (simp add: iso_leaves_def Let_def)
  then show "same_entries (iw_sink w) (iw_sink (iso_leaves ie w))"
    using op_entries [of "DoWorker (ie_envID ie) ls" "iw_sink w"] op_entries [of "DoEnvStop (ie_envID ie)" "do_op (DoWorker (ie_envID ie) ls) (iw_sink w)"]
    by (simp add: op_finishes_def same_entries_def)
  show "iw_queue (iso_leaves ie w) = iw_queue w" "iw_report (iso_leaves ie w) = iw_report w"
    by (simp_all add: iso_leaves_def Let_def stopService_frame)
qed

text \<open>The queue of the suite allows no retry, so a completed ticket is over.\<close>

lemma no_retry:
  assumes "run_inv cs 0 s" "i < length (crew s)" "crew s ! i = Working t"
  shows "\<not> snd (Complete t ok core (sq s))"
proof -
  have "t \<in># flying (crew s)" using flying_working [OF assms(2,3)] by simp
  then have "0 \<le> t_retry t" "max_retry (sq s) = 0" using assms(1) by (auto simp: run_inv_def numbered_def account_def)
  then show ?thesis by (auto simp: Complete_def Let_def stop_def split: if_splits)
qed

lemma no_retry_queued: "run_inv cs 0 s \<Longrightarrow> retry_queue (sq s) = []"
  unfolding run_inv_def numbered_def by (cases "retry_queue (sq s)") force+

lemma iso_step_queue:
  assumes "iso_step ies s s'" "run_inv cs 0 (iso_queue s)"
  shows "iso_queue s' = iso_queue s \<or> run_step (\<lambda>i. ie_slot (ies i)) (\<lambda>_. LaneAny) (iso_queue s) (iso_queue s')"
  using assms(1)
proof (cases rule: iso_step.cases)
  case (iso_claim i e q' t)
  then have "run_step (\<lambda>i. ie_slot (ies i)) (\<lambda>_. LaneAny) (iso_queue s) ((iso_queue s)\<lparr>sq := q', crew := (crew (iso_queue s))[i := Working t],
      started := started (iso_queue s) @ [t]\<rparr>)"
    using iso_does_phase [OF iso_claim(2)] by (intro run_step.claim) simp_all
  then show ?thesis by (simp add: iso_queue_def iso_claim(1))
next
  case (iso_wait i e q')
  then have "run_step (\<lambda>i. ie_slot (ies i)) (\<lambda>_. LaneAny) (iso_queue s) ((iso_queue s)\<lparr>sq := q'\<rparr>)"
    using iso_does_phase [OF iso_wait(2)] by (intro run_step.wait) simp_all
  then show ?thesis using iso_stays_at [OF iso_wait(2)] by (simp add: iso_queue_def iso_wait(1))
next
  case (iso_leave i e q' ie)
  then have "run_step (\<lambda>i. ie_slot (ies i)) (\<lambda>_. LaneAny) (iso_queue s) ((iso_queue s)\<lparr>sq := q', crew := (crew (iso_queue s))[i := Gone]\<rparr>)"
    using iso_does_phase [OF iso_leave(2)] by (intro run_step.leave) simp_all
  then show ?thesis by (simp add: iso_queue_def iso_leave(1) leaves_frame)
next
  case (iso_judge i t ie v lines w)
  then show ?thesis using judged_effect(1) [OF iso_judge(4)] iso_stays_at [OF iso_judge(2)] by (simp add: iso_queue_def)
next
  case (iso_enter i t v lines ie)
  then show ?thesis using iso_stays_at [OF iso_enter(2)] by (simp add: iso_queue_def iso_entered_def)
next
  case (iso_complete i t v)
  note p = iso_does_phase [OF iso_complete(2)]
  obtain q where q: "Complete t (iv_ok v) (iv_hasCore v) (iw_queue (ir_all s)) = (q, False)"
    using no_retry [OF assms(2), of i t "iv_ok v" "iv_hasCore v"] p by (metis iso_phase.simps(5) iso_queue_fields(1) prod.collapse)
  have "run_step (\<lambda>i. ie_slot (ies i)) (\<lambda>_. LaneAny) (iso_queue s) ((iso_queue s)\<lparr>sq := q, crew := (crew (iso_queue s))[i := Asking],
      decided := decided (iso_queue s) @ [t_case t]\<rparr>)"
    using p q by (intro run_step.verdict) simp_all
  then show ?thesis using q by (simp add: iso_queue_def iso_complete(1) iso_completed_def)
next
  case (iso_output f)
  then show ?thesis by (simp add: iso_queue_def)
qed

lemma iso_begins_fresh: "iso_queue (iso_begins n (w\<lparr>iw_queue := q, iw_sink := files, iw_report := []\<rparr>)) = fresh q n"
  by (simp add: iso_queue_def iso_begins_def fresh_def)

lemma plain_policy: "Policy None None (New cs m) = New cs m"
  by (simp add: Policy_def New_def)

lemma iso_inv:
  assumes "iso_tests ies n cs files s" "distinct cs"
  shows "run_inv cs 0 (iso_queue s)"
proof -
  obtain w where w: "iso_reaches ies (iso_begins n (w\<lparr>iw_queue := New cs 0, iw_sink := files, iw_report := []\<rparr>)) s"
    using assms(1) by (auto simp: iso_tests_def)
  then have "shared_run (\<lambda>i. ie_slot (ies i)) (\<lambda>_. LaneAny) cs 0 None None n (iso_queue s)"
  proof (induction rule: iso_reaches.induct)
    case iso_here
    then show ?case by (simp add: shared_run_def plain_policy iso_begins_fresh reaches.here)
  next
    case (iso_more s t)
    then show ?case using iso_step_queue [OF iso_more(2) shared_run_inv [OF iso_more.IH assms(2)]]
      unfolding shared_run_def by (auto intro: reaches.more)
  qed
  then show ?thesis by (rule shared_run_inv [OF _ assms(2)])
qed

subsection \<open>What was reported, entered and completed\<close>

fun iso_open :: "iso_todo \<Rightarrow> string multiset" where
  "iso_open (IsoClaimed t) = {# t_case t #}"
| "iso_open td = {#}"

fun unentered :: "iso_todo \<Rightarrow> string multiset" where
  "unentered (IsoJudged t v lines) = {# t_case t #}"
| "unentered td = {#}"

fun uncompleted :: "iso_todo \<Rightarrow> string multiset" where
  "uncompleted (IsoEntered t v) = {# t_case t #}"
| "uncompleted td = {#}"

definition iso_desks :: "(iso_todo \<Rightarrow> string multiset) \<Rightarrow> ('m, 'e) iso_crew \<Rightarrow> string multiset" where
  "iso_desks g s = sum_list (map (\<lambda>d. g (id_todo d)) (ir_desks s))"

lemma iso_update: "iso_does i td s \<Longrightarrow> iso_desks g (iso_up i td' w s) + g td = iso_desks g s + g td'"
  using sum_update [of i "map (\<lambda>d. g (id_todo d)) (ir_desks s)" "g td'"] by (simp add: iso_does_def iso_desks_def)

lemma iso_desks_same [simp]:
  "iso_desks g (s\<lparr>ir_all := w\<rparr>) = iso_desks g s" "iso_desks g (s\<lparr>ir_started := x\<rparr>) = iso_desks g s"
  "iso_desks g (s\<lparr>ir_decided := y\<rparr>) = iso_desks g s"
  by (simp_all add: iso_desks_def)

lemma flying_open: "image_mset t_case (flying (crew (iso_queue s))) = iso_desks iso_open s + iso_desks unentered s + iso_desks uncompleted s"
proof -
  have "image_mset t_case (flying (map (\<lambda>d. iso_phase (id_todo d)) ds)) =
      sum_list (map (\<lambda>d. iso_open (id_todo d)) ds) + sum_list (map (\<lambda>d. unentered (id_todo d)) ds) + sum_list (map (\<lambda>d. uncompleted (id_todo d)) ds)" for ds
  proof (induction ds)
    case (Cons d ds)
    have "image_mset t_case (tick (iso_phase (id_todo d))) = iso_open (id_todo d) + unentered (id_todo d) + uncompleted (id_todo d)"
      by (cases "id_todo d") simp_all
    then show ?case using Cons by (simp add: flying_def ac_simps)
  qed (simp add: flying_def)
  then show ?thesis by (simp add: iso_desks_def)
qed

definition iso_books :: "sink \<Rightarrow> ('m, 'e) iso_crew \<Rightarrow> string list \<Rightarrow> bool" where
  "iso_books files s F \<longleftrightarrow> has_entered files F (iw_sink (ir_all s)) \<and>
     mset (judged_cases (iw_report (ir_all s))) = mset F + iso_desks unentered s \<and>
     mset F = mset (ir_decided s) + iso_desks uncompleted s"

lemma books_same:
  assumes "iso_books files s F" "same_entries (iw_sink (ir_all s)) (iw_sink (ir_all s'))"
    and "mset (judged_cases (iw_report (ir_all s'))) + iso_desks unentered s = mset (judged_cases (iw_report (ir_all s))) + iso_desks unentered s'"
    and "mset (ir_decided s') + iso_desks uncompleted s' = mset (ir_decided s) + iso_desks uncompleted s"
  shows "iso_books files s' F"
  using assms entered_same by (auto simp: iso_books_def)

lemma enter_entries:
  assumes "has_entered files F (iw_sink w)" "plain_case (t_case t)"
  shows "has_entered files (t_case t # F) (iw_sink (iso_entered ie t v lines w))"
proof -
  let ?a = "TestCase (t_case t) (ie_envID ie) (iv_ok v) 0 0 (iw_sink w)"
  have e: "same_entries (iw_sink w) ?a" "same_entries ?a (WorkerLines (ie_envID ie) (lines @ [[]]) ?a)"
    using op_entries [of "DoCase (t_case t) (ie_envID ie) (iv_ok v) 0 0"] op_entries [of "DoWorker (ie_envID ie) (lines @ [[]])"]
    by (simp_all add: op_finishes_def)
  have "has_entered files (t_case t # F) (Finish_case (ie_envID ie) (t_case t) (WorkerLines (ie_envID ie) (lines @ [[]]) ?a))"
    by (rule entered_one [OF entered_same [OF entered_same [OF assms(1) e(1)] e(2)] assms(2)])
  then show ?thesis by (simp add: iso_entered_def)
qed

lemma books_step:
  assumes "iso_step ies s s'" "iso_books files s F" "\<forall>c \<in># iso_desks unentered s. plain_case c"
  shows "\<exists>F'. iso_books files s' F'"
  using assms(1)
proof (cases rule: iso_step.cases)
  case (iso_claim i e q' t)
  then show ?thesis using iso_update [OF iso_claim(2), of unentered] iso_update [OF iso_claim(2), of uncompleted]
    by (intro exI [of _ F] books_same [OF assms(2)]) (simp_all add: same_entries_def)
next
  case (iso_wait i e q')
  then show ?thesis using iso_update [OF iso_wait(2), of unentered] iso_update [OF iso_wait(2), of uncompleted]
    by (intro exI [of _ F] books_same [OF assms(2)]) (simp_all add: same_entries_def)
next
  case (iso_leave i e q' ie)
  then show ?thesis using iso_update [OF iso_leave(2), of unentered] iso_update [OF iso_leave(2), of uncompleted]
      leaves_frame [where ie = ie and w = "(iso_at s i)\<lparr>iw_queue := q'\<rparr>"]
    by (intro exI [of _ F] books_same [OF assms(2)]) simp_all
next
  case (iso_judge i t ie v lines w)
  then show ?thesis using iso_update [OF iso_judge(2), of unentered] iso_update [OF iso_judge(2), of uncompleted] judged_effect [OF iso_judge(4)]
    by (intro exI [of _ F] books_same [OF assms(2)]) (auto simp: same_entries_def)
next
  case (iso_enter i t v lines ie)
  have d: "iso_desks unentered s = add_mset (t_case t) (iso_desks unentered s')" "iso_desks uncompleted s' = add_mset (t_case t) (iso_desks uncompleted s)"
    using iso_update [OF iso_enter(2), of unentered "IsoEntered t v"] iso_update [OF iso_enter(2), of uncompleted "IsoEntered t v"] by (simp_all add: iso_enter(1))
  then have "plain_case (t_case t)" using assms(3) by simp
  then show ?thesis
    using enter_entries [where files = files and F = F and w = "iso_at s i" and t = t and ie = ie and v = v and lines = lines] assms(2) d
    by (intro exI [of _ "t_case t # F"]) (simp add: iso_books_def iso_enter(1) iso_entered_def)
next
  case (iso_complete i t v)
  then show ?thesis using iso_update [OF iso_complete(2), of unentered] iso_update [OF iso_complete(2), of uncompleted]
    by (intro exI [of _ F] books_same [OF assms(2)]) (simp_all add: same_entries_def iso_completed_def)
next
  case (iso_output f)
  then show ?thesis by (intro exI [of _ F] books_same [OF assms(2)]) (simp_all add: output_entries)
qed

lemma iso_account:
  assumes "iso_tests ies n cs files s" "distinct cs"
  shows "mset cs = mset (waiting (iw_queue (ir_all s))) + iso_desks iso_open s + iso_desks unentered s + iso_desks uncompleted s + mset (ir_decided s)"
proof -
  have "mset cs = mset (waiting (sq (iso_queue s))) + mset (retry_queue (sq (iso_queue s))) + image_mset t_case (flying (crew (iso_queue s))) + mset (decided (iso_queue s))"
    using iso_inv [OF assms] unfolding run_inv_def account_def places_def by (elim conjE) (rule sym)
  then show ?thesis using no_retry_queued [OF iso_inv [OF assms]] unfolding flying_open by (simp add: ac_simps)
qed

lemma iso_begins_bare: "iso_desks unentered (iso_begins n w) = {#}" "iso_desks uncompleted (iso_begins n w) = {#}"
  "ir_decided (iso_begins n w) = []" "ir_all (iso_begins n w) = w"
  by (induction n) (simp_all add: iso_desks_def iso_begins_def)

lemma iso_kept:
  assumes "iso_tests ies n cs files s" "distinct cs" "\<forall>c \<in> set cs. plain_case c" "sink_sound files"
  shows "\<exists>F. iso_books files s F"
proof -
  obtain w where w: "iso_reaches ies (iso_begins n (w\<lparr>iw_queue := New cs 0, iw_sink := files, iw_report := []\<rparr>)) s"
    using assms(1) by (auto simp: iso_tests_def)
  then show ?thesis
  proof (induction rule: iso_reaches.induct)
    case iso_here
    then show ?case using entered_nothing [OF assms(4)] by (auto simp: iso_books_def iso_begins_bare intro!: exI [of _ "[]"])
  next
    case (iso_more s t)
    have "iso_tests ies n cs files s" using iso_more(1) by (auto simp: iso_tests_def)
    from iso_account [OF this assms(2)] have "set_mset (iso_desks unentered s) \<subseteq> set cs" by (metis set_mset_mset set_mset_union Un_upper1 Un_upper2 sup.coboundedI1)
    then show ?case using books_step [OF iso_more(2)] iso_more.IH assms(3) by blast
  qed
qed

subsection \<open>The counters of a run that was cut off\<close>

lemma timed_facts: "map snd (timed at calls) = calls" "\<forall>i. fe_fails (at i) = None \<Longrightarrow> \<forall>x \<in> set (timed at calls). fe_fails (fst x) = None"
  "x \<in> set (timed at calls) \<Longrightarrow> snd x \<in> set calls"
proof -
  have "map snd (map (\<lambda>(i, c). (at i, c)) (enumerate k calls)) = calls" for k
    by (induction calls arbitrary: k) simp_all
  then show m: "map snd (timed at calls) = calls" by (simp add: timed_def)
  then show "x \<in> set (timed at calls) \<Longrightarrow> snd x \<in> set calls" by (metis image_eqI list.set_map)
qed (auto simp: timed_def)

lemma timed_fresh:
  "\<exists>part. timed at (fresh_calls cs skipped notes) = (at 0, TaskStart) # (at 1, TotalTestCase (int (length cs)) 0 (int (length skipped))) # part \<and>
     map snd part = map (\<lambda>c. Stopping (skip_stop c)) skipped @ map note_call notes"
proof -
  let ?rest = "map (\<lambda>c. Stopping (skip_stop c)) skipped @ map note_call notes"
  have "map snd (map (\<lambda>(i, c). (at i, c)) (enumerate k calls)) = calls" for k calls
    by (induction calls arbitrary: k) simp_all
  then show ?thesis
    by (intro exI [of _ "map (\<lambda>(i, c). (at i, c)) (enumerate 2 ?rest)"]) (simp add: timed_def fresh_calls_def numeral_2_eq_2)
qed

lemma skips_uncounted: "verdicts ok (map (\<lambda>c. Stopping (skip_stop c)) skipped) = 0"
  by (induction skipped) (simp_all add: verdicts_def is_verdict_def skip_stop_def)

lemma iso_left:
  assumes "iso_tests ies n cs files s" "distinct cs" "\<forall>c \<in> set cs. plain_case c" "sink_sound files" "Remaining files = cs"
    and rest: "rest = sink_Open (sk_files (iw_sink (ir_all s))) True"
  shows "sink_sound rest" "distinct (Remaining rest)" "\<forall>c \<in> set (Remaining rest). plain_case c"
    "mset cs = mset (waiting (iw_queue (ir_all s))) + iso_desks iso_open s + mset (judged_cases (iw_report (ir_all s)))"
    "mset (Remaining rest) + mset (judged_cases (iw_report (ir_all s))) = mset cs + iso_desks unentered s"
proof -
  obtain F where F: "has_entered files F (iw_sink (ir_all s))" "mset (judged_cases (iw_report (ir_all s))) = mset F + iso_desks unentered s"
    "mset F = mset (ir_decided s) + iso_desks uncompleted s"
    using iso_kept [OF assms(1-4)] by (auto simp: iso_books_def)
  have r: "sink_sound rest" "Remaining rest = filter (\<lambda>c. c \<notin> set F) cs" using entered_left [OF F(1) assms(4)] assms(5) rest by simp_all
  then show "sink_sound rest" "distinct (Remaining rest)" "\<forall>c \<in> set (Remaining rest). plain_case c" using assms(2,3) by simp_all
  note parts = iso_account [OF assms(1,2)]
  show "mset cs = mset (waiting (iw_queue (ir_all s))) + iso_desks iso_open s + mset (judged_cases (iw_report (ir_all s)))"
    using parts F(2,3) by (simp add: ac_simps)
  have "mset cs = (mset (waiting (iw_queue (ir_all s))) + iso_desks iso_open s + iso_desks unentered s) + mset F"
    using parts F(3) by (simp add: ac_simps)
  from mset_filter_away [OF this assms(2)] this
  show "mset (Remaining rest) + mset (judged_cases (iw_report (ir_all s))) = mset cs + iso_desks unentered s"
    using r(2) F(2) by (simp add: ac_simps)
qed

text \<open>
  C10: A fresh isolation run with any number of slots is cut off at any moment and continued, with any number of slots, from
  what its files have; its counters at the end, and on the disk, are the verdicts of both parts. Each case of the list has
  been judged once in the two parts together, but for those the continued run has not judged yet, and once more each
  that was cut off between its verdict and its entry in the files. Skipped cases are counted as skipped and no more.
\<close>

theorem isolation_counts_each_case_once:
  assumes "OpenIsolation refused dir cat out False disk = Inr f0" "dir \<noteq> []" "distinct cs" "\<forall>c \<in> set cs. plain_case c"
    and "iso_tests ies n cs (All_cases cs (sink_Open [] False)) s1" "rest = sink_Open (sk_files (iw_sink (ir_all s1))) True"
    and "f1 = fold fb_report (timed at (fresh_calls cs skipped (iw_report (ir_all s1)))) f0"
    and "OpenIsolation refused' dir cat out' True (ff_disk f1) = Inr f2"
    and "iso_tests ies' n' (Remaining rest) rest s2"
    and "f3 = fold fb_report (timed at' (again_calls (Remaining rest) (iw_report (ir_all s2)))) f2"
    and "\<forall>i. fe_fails (at i) = None" "\<forall>i. fe_fails (at' i) = None" "int (length skipped + length cs) \<le> int_hi"
  shows "fs_Executed (ff_stats f3) = int (length (judged_cases (iw_report (ir_all s1))) + length (judged_cases (iw_report (ir_all s2)))) \<and>
    fs_Success (ff_stats f3) = verdicts True (map note_call (iw_report (ir_all s1) @ iw_report (ir_all s2))) \<and>
    fs_Fail (ff_stats f3) = verdicts False (map note_call (iw_report (ir_all s1) @ iw_report (ir_all s2))) \<and>
    fs_Total (ff_stats f3) = fs_Executed (ff_stats f3) + int (length skipped) \<and>
    fd_status (ff_disk f3) = Some (stats_text (ff_stats f3)) \<and>
    mset (judged_cases (iw_report (ir_all s1))) + mset (judged_cases (iw_report (ir_all s2))) +
      (mset (waiting (iw_queue (ir_all s2))) + iso_desks iso_open s2) = mset cs + iso_desks unentered s1"
proof -
  let ?a = "map note_call (iw_report (ir_all s1))" and ?b = "map note_call (iw_report (ir_all s2))" and ?n = "int (length skipped)"
  have fl: "sink_sound (All_cases cs (sink_Open [] False))" "Remaining (All_cases cs (sink_Open [] False)) = cs"
    using fresh_lists [OF _ assms(4), of "[]"] by (simp_all add: no_journal_def)
  note one = iso_left [OF assms(5,3,4) fl assms(6)]
  note two = iso_left(4) [OF assms(9) one(2,3,1) refl refl]
  obtain part where part: "timed at (fresh_calls cs skipped (iw_report (ir_all s1))) =
      (at 0, TaskStart) # (at 1, TotalTestCase (int (length cs)) 0 ?n) # part"
    "map snd part = map (\<lambda>c. Stopping (skip_stop c)) skipped @ ?a"
    using timed_fresh [of at cs skipped "iw_report (ir_all s1)"] by blast
  let ?part2 = "timed at' (again_calls (Remaining rest) (iw_report (ir_all s2)))"
  have v1: "verdicts ok (map snd part) = verdicts ok ?a" for ok
    unfolding part(2) verdicts_simps(2) skips_uncounted by simp
  have v2: "verdicts ok (map snd ?part2) = verdicts ok ?b" for ok
    unfolding timed_facts(1) again_calls_def by (simp add: verdicts_def is_verdict_def)
  have "length (judged_cases (iw_report (ir_all s1))) \<le> length cs"
    using one(4) by (metis le_add2 size_mset size_union)
  then have b: "0 + ?n + (verdicts True (map snd part) + verdicts False (map snd part)) \<le> int_hi"
    unfolding v1 notes_are_verdicts using assms(13) by simp
  have q: "\<forall>x \<in> set part \<union> set ?part2. fe_fails (fst x) = None"
    using timed_facts(2) [OF assms(11), of "fresh_calls cs skipped (iw_report (ir_all s1))"] timed_facts(2) [OF assms(12)] unfolding part(1) by auto
  have z: "\<forall>x \<in> set part. \<not> sizes_run (snd x)"
  proof
    fix x assume "x \<in> set part"
    then have "snd x \<in> set (map snd part)" by simp
    then show "\<not> sizes_run (snd x)" unfolding part(2) using notes_size_nothing by (auto simp: sizes_run_def)
  qed
  have o: "opens refused dir False disk f0" "opens refused' dir True (ff_disk f1) f2"
    using assms(1,8) unfolding opens_def by blast+
  have d: "on_disk (tallied (verdicts True ?a + verdicts True ?b) (verdicts False ?a + verdicts False ?b) ?n) f3"
    using interrupted_counts [OF o assms(2) assms(7) [unfolded part(1)] _ q z _ b] assms(10,11) unfolding v1 v2 by simp
  have "mset (judged_cases (iw_report (ir_all s1))) + mset (judged_cases (iw_report (ir_all s2))) +
      (mset (waiting (iw_queue (ir_all s2))) + iso_desks iso_open s2) = mset cs + iso_desks unentered s1"
    using one(5) two by (simp add: ac_simps)
  then show ?thesis using d notes_are_verdicts [of "iw_report (ir_all s1)"] notes_are_verdicts [of "iw_report (ir_all s2)"]
    unfolding on_disk_def tallied_def by simp
qed

text \<open>One worker that has judged the first case of its list, and not entered it.\<close>

lemma one_judged:
  "\<exists>s :: (unit, unit) iso_crew. iso_tests (\<lambda>_. small_iso) 1 (c # cs) files s \<and> judged_cases (iw_report (ir_all s)) = [c] \<and>
     iso_desks unentered s = {# c #}"
proof -
  define t where "t = \<lparr>t_case = c, t_retry = 0\<rparr>"
  define s0 where "s0 = iso_begins 1 (small_iso_worker\<lparr>iw_queue := New (c # cs) 0, iw_sink := files, iw_report := []\<rparr>)"
  have s0: "iso_does 0 IsoFree s0" "iw_queue (ir_all s0) = New (c # cs) 0" "iw_report (ir_all s0) = []" "length (ir_desks s0) = 1"
    by (simp_all add: s0_def iso_begins_def iso_does_def)
  have u: "[0..<Suc (length cs)] = 0 # [1..<Suc (length cs)]" by (simp add: upt_conv_Cons del: upt_Suc)
  have "admissible () (New (c # cs) 0) = Some (c, 0)"
    using u by (simp add: admissible_def New_def scanPolicy_def policy_ok_def del: upt_Suc)
  moreover have "held_of (New (c # cs) 0 :: unit queue) (ie_slot small_iso) = []" "\<not> stopped (New (c # cs) 0 :: unit queue)"
    "\<not> lanes (New (c # cs) 0 :: unit queue)" by (simp_all add: held_of_def New_def)
  ultimately obtain q where q: "claimOnce () (ie_slot small_iso) LaneAny (New (c # cs) 0) = (q, Got t)"
    by (simp add: t_def claimOnce_def)
  define s1 where "s1 = (iso_up 0 (IsoClaimed t) ((iso_at s0 0)\<lparr>iw_queue := q\<rparr>) s0)\<lparr>ir_started := ir_started s0 @ [t]\<rparr>"
  have s1: "iso_reaches (\<lambda>_. small_iso) s0 s1" "iso_does 0 (IsoClaimed t) s1" "iw_report (ir_all s1) = []" "length (ir_desks s1) = 1"
    using iso_more [OF iso_here iso_claim [where ies = "\<lambda>_. small_iso", OF s0(1)]] q s0 by (simp_all add: s1_def iso_does_def iso_up_def)
  obtain v ls w where j: "iso_judged small_iso t (iso_at s1 0) = ((v, ls), w)" by (metis surj_pair)
  define s where "s = iso_up 0 (IsoJudged t v ls) w s1"
  have "iso_reaches (\<lambda>_. small_iso) s0 s"
    using iso_more [OF s1(1) iso_judge [where ies = "\<lambda>_. small_iso", OF s1(2) _ j]] by (simp add: s_def same_slot_def)
  moreover have "judged_cases (iw_report (ir_all s)) = [c]" using judged_effect(3) [OF j] s1(3) by (auto simp: s_def t_def)
  moreover have "iso_desks unentered s = {# c #}"
    using s1(4) by (cases "ir_desks s1") (simp_all add: s_def iso_desks_def iso_up_def t_def)
  ultimately show ?thesis unfolding iso_tests_def s0_def by blast
qed

theorem isolation_counts_each_case_once_witness:
  "\<exists>(s1 :: (unit, unit) iso_crew) (s2 :: (unit, unit) iso_crew) rest f0 f1 f2.
     iso_tests (\<lambda>_. small_iso) 1 [''a'', ''b''] (All_cases [''a'', ''b''] (sink_Open [] False)) s1 \<and>
     rest = sink_Open (sk_files (iw_sink (ir_all s1))) True \<and> iso_tests (\<lambda>_. small_iso) 1 (Remaining rest) rest s2 \<and>
     OpenIsolation {} ''d'' ''isolation'' None False no_disk = Inr f0 \<and>
     f1 = fold fb_report (timed (\<lambda>_. small_fe) (fresh_calls [''a'', ''b''] [''c''] (iw_report (ir_all s1)))) f0 \<and>
     OpenIsolation {} ''d'' ''isolation'' None True (ff_disk f1) = Inr f2 \<and>
     fs_Executed (ff_stats (fold fb_report (timed (\<lambda>_. small_fe) (again_calls (Remaining rest) (iw_report (ir_all s2)))) f2)) = 2 \<and>
     fs_Total (ff_stats (fold fb_report (timed (\<lambda>_. small_fe) (again_calls (Remaining rest) (iw_report (ir_all s2)))) f2)) = 3"
proof -
  have op: "\<exists>f. OpenIsolation {} dir cat out again d = Inr f" for dir cat out again d
    by (simp add: OpenIsolation_def openLog_def Let_def)
  obtain s1 :: "(unit, unit) iso_crew" where s1: "iso_tests (\<lambda>_. small_iso) 1 [''a'', ''b''] (All_cases [''a'', ''b''] (sink_Open [] False)) s1"
    "judged_cases (iw_report (ir_all s1)) = [''a'']" "iso_desks unentered s1 = {# ''a'' #}" using one_judged by blast
  define rest where "rest = sink_Open (sk_files (iw_sink (ir_all s1))) True"
  have fl: "sink_sound (All_cases [''a'', ''b''] (sink_Open [] False))" "Remaining (All_cases [''a'', ''b''] (sink_Open [] False)) = [''a'', ''b'']"
    using fresh_lists [of "[]" "[''a'', ''b'']"] plain_names by (simp_all add: no_journal_def)
  have "mset (Remaining rest) + {# ''a'' #} = mset [''a'', ''b''] + {# ''a'' #}"
    using iso_left(5) [OF s1(1) _ _ fl rest_def] s1(2,3) plain_names by simp
  then have "mset (Remaining rest) \<noteq> {#}" by simp
  then obtain c cs where r: "Remaining rest = c # cs" by (cases "Remaining rest") simp_all
  obtain s2 :: "(unit, unit) iso_crew" where s2: "iso_tests (\<lambda>_. small_iso) 1 (Remaining rest) rest s2"
    "judged_cases (iw_report (ir_all s2)) = [c]" using one_judged unfolding r by blast
  obtain f0 where f0: "OpenIsolation {} ''d'' ''isolation'' None False no_disk = Inr f0" using op by blast
  define f1 where "f1 = fold fb_report (timed (\<lambda>_. small_fe) (fresh_calls [''a'', ''b''] [''c''] (iw_report (ir_all s1)))) f0"
  obtain f2 where f2: "OpenIsolation {} ''d'' ''isolation'' None True (ff_disk f1) = Inr f2" using op by blast
  define f3 where "f3 = fold fb_report (timed (\<lambda>_. small_fe) (again_calls (Remaining rest) (iw_report (ir_all s2)))) f2"
  have "fs_Executed (ff_stats f3) = 2 \<and> fs_Total (ff_stats f3) = 3"
    using isolation_counts_each_case_once [OF f0 _ _ _ s1(1) rest_def f1_def f2 s2(1) f3_def] s1(2) s2(2) plain_names
    by (simp add: small_fe_def int_hi_def)
  then show ?thesis using s1(1) rest_def s2(1) f0 f1_def f2 unfolding f3_def by blast
qed

end
