(* ===== verification/Sql_Suite.thy ===== *)
theory Sql_Suite
  imports Isolation Shell_Corpus Jtable
begin

text \<open>
  The SQL suite, \<open>internal/runner/sqlsuite\<close>: what it reads of the engine's version (\<open>engine.go\<close>) and of
  its configuration (\<open>settings.go\<close>), its cases and their answers (\<open>cases.go\<close>) and when a rendering is
  the answer (\<open>compare.go\<close>). The corpus is a tree; which files there are besides, and what the files
  hold, are parameters.
\<close>

subsection \<open>The engine\<close>

record sql_engine =
  en_rel :: string
  en_ver :: string
  en_major :: int
  en_minor :: int
  en_patch :: string
  en_build :: string
  en_prefix :: string
  en_bits :: string
  en_debug :: bool

datatype engine_error = NoCubridLine string | NoVersion string | FewParts string string | BadNumber string

definition first_digits :: "string \<Rightarrow> string" where
  "first_digits s = takeWhile is_digit (dropWhile (\<lambda>c. \<not> is_digit c) s)"

definition cubrid_line :: "string \<Rightarrow> string" where
  "cubrid_line out =
     (case find (\<lambda>l. contains l ''CUBRID'') (split_on LF out) of None \<Rightarrow> [] | Some l \<Rightarrow> trim_space l)"

definition parseEngine :: "string \<Rightarrow> engine_error + sql_engine" where
  "parseEngine out =
     (let rel = cubrid_line out; paren = split_on (CHR ''('') rel in
      if rel = [] then Inl (NoCubridLine (trim_space out))
      else if length paren < 3 then Inl (NoVersion rel)
      else (let ver = fst (cut_at (CHR '')'') (paren ! 1));
                bits = (case go_fields (paren ! 2) of [] \<Rightarrow> [] | f # fs \<Rightarrow> trim_suffix f ''bit'');
                parts = split_on (CHR ''.'') ver
        in if length parts < 4 then Inl (FewParts ver rel)
           else (case atoi (first_digits (parts ! 0)) of None \<Rightarrow> Inl (BadNumber ver)
             | Some major \<Rightarrow>
               (case atoi (parts ! 1) of None \<Rightarrow> Inl (BadNumber ver)
                | Some minor \<Rightarrow>
                    Inr \<lparr>en_rel = rel, en_ver = ver, en_major = major, en_minor = minor, en_patch = parts ! 2,
                      en_build = parts ! 3,
                      en_prefix = (case last_index_of ver ''.'' of None \<Rightarrow> ver | Some p \<Rightarrow> take p ver),
                      en_bits = bits, en_debug = contains out ''debug''\<rparr>))))"

definition atLeast :: "sql_engine \<Rightarrow> int \<Rightarrow> int \<Rightarrow> bool" where
  "atLeast e major minor \<longleftrightarrow> major < en_major e \<or> en_major e = major \<and> minor \<le> en_minor e"

subsection \<open>Settings\<close>

record sql_settings =
  ss_ctpHome :: string
  ss_confPath :: string
  ss_category :: string
  ss_alias :: string
  ss_dbName :: string
  ss_scenario :: string
  ss_excludeFile :: string
  ss_createdbOpts :: string
  ss_needLocale :: string
  ss_dataFile :: string
  ss_jdbcConfig :: string
  ss_dbCharset :: string
  ss_confHAMode :: string

definition or_else :: "string \<Rightarrow> string \<Rightarrow> string" where
  "or_else v fallback = (if v = [] then fallback else v)"

text \<open>\<open>stat\<close> says of a path whether there is something there and whether that is a directory.\<close>

definition newSettings :: "(string \<Rightarrow> bool option) \<Rightarrow> string \<Rightarrow> string \<Rightarrow> string \<Rightarrow> ini \<Rightarrow> sql_engine \<Rightarrow> sql_settings option" where
  "newSettings stat home confPath task i e =
     (let get = (\<lambda>k. trim_space (ini_GetOr i ''sql'' k [])); scenario = get ''scenario'' in
      case stat scenario of
        None \<Rightarrow> None
      | Some isDir \<Rightarrow>
          if scenario = [] then None
          else Some \<lparr>ss_ctpHome = home, ss_confPath = confPath, ss_category = task, ss_alias = or_else (get ''test_category'') task,
            ss_dbName = (if task = ''medium'' then ''mdb'' else ''basic''),
            ss_scenario = (if isDir \<and> \<not> has_suffix scenario ''/'' then scenario @ ''/'' else scenario),
            ss_excludeFile = get ''testcase_exclude_from_file'', ss_createdbOpts = get ''cubrid_createdb_opts'',
            ss_needLocale = or_else (get ''need_make_locale'') ''yes'', ss_dataFile = get ''data_file'',
            ss_jdbcConfig = or_else (get ''jdbc_config_file'') ''test_default.xml'',
            ss_dbCharset = (if task = ''sql'' \<and> atLeast e 11 5 then ''en_US.utf8'' else or_else (get ''db_charset'') ''en_US.iso88591''),
            ss_confHAMode = trim_space (ini_GetOr i ''sql/cubrid_ha.conf'' ''ha_mode'' [])\<rparr>)"

definition cqtArg :: "sql_settings \<Rightarrow> string" where
  "cqtArg s = ss_scenario s @ ''?db='' @ ss_dbName s @ ''_qa'' @
     (if ss_excludeFile s = [] then [] else ''&filter='' @ ss_excludeFile s)"

definition header_vars :: "string \<Rightarrow> sql_settings \<Rightarrow> sql_engine \<Rightarrow> string \<Rightarrow> (string \<times> string) list" where
  "header_vars cubrid s e logFile =
     [(''config_file_main'', ss_confPath s), (''scenario_category'', ss_category s), (''scenario_full_name'', ss_category s),
      (''db_name'', ss_dbName s), (''cubrid_bits'', en_bits e), (''cubrid_ver'', en_ver e),
      (''cubrid_ver_p1'', itoa (en_major e)), (''cubrid_ver_p2'', itoa (en_minor e)), (''cubrid_ver_p3'', en_patch e),
      (''cubrid_ver_p4'', en_build e), (''cubrid_ver_prefix'', en_prefix e), (''os_type'', ''Linux''),
      (''db_charset'', ss_dbCharset s), (''cubrid_createdb_opts'', ss_createdbOpts s),
      (''need_make_locale'', ss_needLocale s), (''test_data_file'', ss_dataFile s), (''log_filename'', logFile),
      (''cubrid_root_dir'', cubrid), (''conf_ha_mode'', ss_confHAMode s), (''jdbc_config_file_ext'', ss_jdbcConfig s)]"

definition header :: "string \<Rightarrow> sql_settings \<Rightarrow> sql_engine \<Rightarrow> string \<Rightarrow> string" where
  "header cubrid s e logFile =
     ''export CTP_HOME='' @ Quote (ss_ctpHome s) @ [LF] @
     concat (map (\<lambda>(k, v). k @ ''='' @ Quote v @ [LF]) (header_vars cubrid s e logFile))"

definition logName :: "sql_settings \<Rightarrow> sql_engine \<Rightarrow> int \<Rightarrow> string" where
  "logName s e epoch =
     path_join [ss_ctpHome s, ''sql'', ''log'', ss_category s @ ''_'' @ en_ver e @ ''_'' @ itoa epoch @ ''.log'']"

subsection \<open>Cases\<close>

definition units :: "string \<Rightarrow> nat list" where
  "units s = concat (map utf16 (runes (map byte_of s)))"

fun units_less :: "nat list \<Rightarrow> nat list \<Rightarrow> bool" where
  "units_less [] bs = (bs \<noteq> [])"
| "units_less (a # as) [] = False"
| "units_less (a # as) (b # bs) = (if a = b then units_less as bs else a < b)"

definition javaLess :: "string \<Rightarrow> string \<Rightarrow> bool" where
  "javaLess a b = units_less (units a) (units b)"

definition containPath :: "string \<Rightarrow> string \<Rightarrow> bool" where
  "containPath rel0 pattern0 \<longleftrightarrow>
     rel0 \<noteq> [] \<and> pattern0 \<noteq> [] \<and>
     (let rel = replace_all (java_trim rel0) [BS] ''/''; pattern = replace_all (java_trim pattern0) [BS] ''/''
      in contains rel (if has_suffix pattern ''/'' \<or> has_suffix pattern ''.sql'' then pattern else pattern @ ''/''))"

text \<open>The lines of a list, each shorter than the scanner's buffer of a mebibyte.\<close>

definition lineList :: "string \<Rightarrow> string list" where
  "lineList body = filter (\<lambda>l. l \<noteq> []) (map java_trim (split_on LF body))"

definition is_dir :: "ftree \<Rightarrow> bool" where
  "is_dir t = (case t of Dir es \<Rightarrow> True | File n \<Rightarrow> False)"

definition by_name :: "(string \<times> ftree) list \<Rightarrow> (string \<times> ftree) list" where
  "by_name es = sort_by (\<lambda>a b. javaLess (fst a) (fst b)) es"

lemma set_by_name [simp]: "set (by_name es) = set es"
  by (simp add: by_name_def)

definition walked :: "string \<Rightarrow> bool" where
  "walked path \<longleftrightarrow> \<not> contains (trim_suffix path ''/'' @ ''/'') ''/answers/''"

definition child_path :: "string \<Rightarrow> string \<Rightarrow> string" where
  "child_path path n = path @ (if has_suffix path ''/'' then [] else ''/'') @ n"

lemma entry_smaller: "(n, t) \<in> set es \<Longrightarrow> size t < Suc (size_list (size_prod (\<lambda>_. 0) size) es)"
  by (induction es) auto

function walkCases :: "(string \<Rightarrow> bool) \<Rightarrow> string \<Rightarrow> ftree \<Rightarrow> string list" where
  "walkCases readable path (File n) = (if walked path \<and> has_suffix path ''.sql'' then [path] else [])"
| "walkCases readable path (Dir es) =
     (if \<not> walked path \<or> \<not> readable path then []
      else concat (map (\<lambda>(n, t).
        if is_dir t \<and> n \<noteq> ''common'' \<and> n \<noteq> ''answers'' then walkCases readable (child_path path n) t
        else if has_suffix (child_path path n) ''.sql'' then [child_path path n] else []) (by_name es)))"
  by pat_completeness auto
termination
  by (relation "measure (\<lambda>(r, p, t). size t)") (auto dest!: entry_smaller)

declare walkCases.simps [simp del]

text \<open>
  The elements directly under the root of a document, from the tokens the decoder gives; the last
  argument says whether the tokens ended well.
\<close>

datatype xml_token = StartElement string | CharData string | EndElement

fun root_children :: "int \<Rightarrow> string \<Rightarrow> string \<Rightarrow> (string \<times> string) list \<Rightarrow> xml_token list \<Rightarrow> bool \<Rightarrow> (string \<times> string) list option" where
  "root_children depth name txt found [] ok = (if ok then Some found else None)"
| "root_children depth name txt found (StartElement n # ts) ok =
     (if depth + 1 = 2 then root_children (depth + 1) n [] found ts ok else root_children (depth + 1) name txt found ts ok)"
| "root_children depth name txt found (CharData s # ts) ok =
     root_children depth name (if depth = 2 then txt @ s else txt) found ts ok"
| "root_children depth name txt found (EndElement # ts) ok =
     root_children (depth - 1) name txt
       (if depth = 2 \<and> map_of found name = None then found @ [(name, txt)] else found) ts ok"

definition rootChildren :: "(xml_token list \<times> bool) option \<Rightarrow> (string \<times> string) list option" where
  "rootChildren doc = (case doc of None \<Rightarrow> None | Some (ts, ok) \<Rightarrow> root_children 0 [] [] [] ts ok)"

record cqt_config =
  cq_runMode :: "string option"
  cq_secondary :: "string option"
  cq_xmlSummary :: bool
  cq_answerInSummary :: bool
  cq_queryPlanAll :: bool

definition flag_of :: "(string \<times> string) list \<Rightarrow> string \<Rightarrow> bool" where
  "flag_of found k = (case map_of found k of None \<Rightarrow> False | Some v \<Rightarrow> to_lower v = ''true'')"

definition readCQTConfig :: "(xml_token list \<times> bool) option \<Rightarrow> (xml_token list \<times> bool) option \<Rightarrow> cqt_config option" where
  "readCQTConfig testXML systemXML =
     (case rootChildren testXML of None \<Rightarrow> None
      | Some found \<Rightarrow>
          Some \<lparr>cq_runMode = map_of found ''run_mode'', cq_secondary = map_of found ''run_mode_secondary'',
            cq_xmlSummary = flag_of found ''need_xml_summary'', cq_answerInSummary = flag_of found ''need_answer_in_summary'',
            cq_queryPlanAll = (case rootChildren systemXML of None \<Rightarrow> False | Some sys \<Rightarrow> flag_of sys ''queryPlan'')\<rparr>)"

definition case_stem :: "string \<Rightarrow> string" where
  "case_stem f = fst (cut_at (CHR ''.'') (path_base f))"

definition answerPath :: "string \<Rightarrow> string" where
  "answerPath f =
     (let dir = path_dir f;
          d = (case last_index_of dir ''cases'' of None \<Rightarrow> dir | Some i \<Rightarrow> take i dir @ ''answers'')
      in d @ ''/'' @ case_stem f @ ''.answer'')"

definition answer_of :: "(string \<Rightarrow> bool) \<Rightarrow> cqt_config \<Rightarrow> string \<Rightarrow> string option" where
  "answer_of here cfg c =
     (let answer = answerPath c in
      if \<not> here answer then None
      else (case cq_runMode cfg of
          None \<Rightarrow> Some answer
        | Some mode \<Rightarrow>
            if mode = [] then Some answer
            else (let second = answer @ ''_'' @ (case cq_secondary cfg of None \<Rightarrow> ''null'' | Some v \<Rightarrow> v) in
              if here (answer @ ''_'' @ mode) then Some (answer @ ''_'' @ mode)
              else if here second then Some second else Some answer)))"

record case_set =
  cs_all :: "string list"
  cs_answer :: "(string \<times> string) list"

definition excluded_by :: "string \<Rightarrow> string list \<Rightarrow> string \<Rightarrow> bool" where
  "excluded_by scenario patterns c \<longleftrightarrow>
     (\<exists>p \<in> set patterns. containPath (drop (min (length scenario) (length c)) c) p)"

definition once_each :: "string list \<Rightarrow> string list" where
  "once_each cs = foldl (\<lambda>acc c. if c \<in> set acc then acc else acc @ [c]) [] cs"

definition sql_discover :: "(string \<Rightarrow> bool) \<Rightarrow> (string \<Rightarrow> bool) \<Rightarrow> sql_settings \<Rightarrow> cqt_config \<Rightarrow> ftree option \<Rightarrow> string option \<Rightarrow> case_set" where
  "sql_discover readable here s cfg corpus list =
     (let found = (case corpus of None \<Rightarrow> [] | Some t \<Rightarrow> walkCases readable (ss_scenario s) t);
          patterns = (if ss_excludeFile s = [] then [] else (case list of None \<Rightarrow> [] | Some body \<Rightarrow> lineList body));
          cs = once_each (filter (\<lambda>c. \<not> excluded_by (ss_scenario s) patterns c) found)
      in \<lparr>cs_all = cs, cs_answer = concat (map (\<lambda>c. case answer_of here cfg c of None \<Rightarrow> [] | Some a \<Rightarrow> [(c, a)]) cs)\<rparr>)"

subsection \<open>The verdict\<close>

definition stripBreaks :: "string \<Rightarrow> string" where
  "stripBreaks b = filter (\<lambda>c. c \<noteq> CR \<and> c \<noteq> LF) b"

definition bad_rune :: "string \<Rightarrow> bool" where
  "bad_rune b \<longleftrightarrow> next_rune (map byte_of b) = (65533, 1)"

definition replacement :: string where
  "replacement = [char_of (239 :: nat), char_of (191 :: nat), char_of (189 :: nat)]"

lemma rune_width_pos: "0 < snd (next_rune bs)"
  using next_rune_width [of bs] by simp

function valid_utf8 :: "string \<Rightarrow> bool" where
  "valid_utf8 b = (if b = [] then True else if bad_rune b then False else valid_utf8 (drop (snd (next_rune (map byte_of b))) b))"
  by pat_completeness auto
termination
  using rune_width_pos by (relation "measure length") (auto simp: bad_rune_def)

function java_loop :: "string \<Rightarrow> string" where
  "java_loop b =
     (if b = [] then []
      else (let n = snd (next_rune (map byte_of b)) in
        (if bad_rune b then replacement else take n b) @ java_loop (drop n b)))"
  by pat_completeness auto
termination
  using rune_width_pos by (relation "measure length") auto

declare valid_utf8.simps [simp del] java_loop.simps [simp del]

definition asJavaReadsIt :: "string \<Rightarrow> string" where
  "asJavaReadsIt b = (if valid_utf8 b then b else java_loop b)"

definition matches :: "string \<Rightarrow> string \<Rightarrow> bool" where
  "matches rendered answer \<longleftrightarrow> stripBreaks rendered = stripBreaks (asJavaReadsIt answer)"

end
