(* ===== verification/Sql_Record.thy ===== *)
theory Sql_Record
  imports Sql_Suite
begin

text \<open>
  The records of a SQL run, \<open>internal/result/sql.go\<close>: what is printed and written around each case, and the
  summaries of the directories. The category map is a tree of the Java hash tables whose order shows
  in the files. Files are a list of what was written where; which writes and reads succeed are
  parameters.
\<close>

record sql_run =
  qr_Type :: string
  qr_Alias :: string
  qr_Bits :: string
  qr_Build :: string
  qr_Scenario :: string
  qr_Mode :: string
  qr_XMLSummary :: bool
  qr_AnswerInSummary :: bool
  qr_QueryPlanAll :: bool
  qr_Cases :: "string list"
  qr_Answers :: "(string \<times> string) list"
  qr_Serial :: bool

record sql_outcome =
  qo_File :: string
  qo_Index :: nat
  qo_Total :: nat
  qo_Start :: string
  qo_Ran :: bool
  qo_OK :: bool
  qo_Ms :: int
  qo_Rendered :: "string option"
  qo_Err :: "string option"
  qo_HasCore :: bool

record sql_case =
  qc_file :: string
  qc_answer :: string
  qc_name :: string
  qc_caseDir :: string
  qc_bottom :: string
  qc_shouldRun :: bool
  qc_ran :: bool
  qc_ok :: bool
  qc_hasCore :: bool
  qc_ms :: int

subsection \<open>The percentage of a progress line\<close>

text \<open>The quotient of two numbers to \<open>p\<close> bits: a numerator over a power of two, with its exponent.\<close>

definition round_ratio :: "nat \<Rightarrow> nat \<Rightarrow> nat \<Rightarrow> nat \<times> nat" where
  "round_ratio p a b =
     (let s = p + bit_len b; x = a * 2 ^ s div b; sticky = (if a * 2 ^ s mod b = 0 then 0 else 1)
      in (round_to p (2 * x + sticky), s + 1))"

definition half_even :: "nat \<Rightarrow> nat \<Rightarrow> nat" where
  "half_even a b =
     (let q = a div b; r = a mod b in if b < 2 * r \<or> (b = 2 * r \<and> odd q) then q + 1 else q)"

definition two_digits :: "nat \<Rightarrow> string" where
  "two_digits n = [digit_char (n div 10 mod 10), digit_char (n mod 10)]"

definition percent :: "nat \<Rightarrow> nat \<Rightarrow> string" where
  "percent i n =
     (case round_ratio 24 (round_to 24 i) (round_to 24 n) of (q, k) \<Rightarrow>
       (case round_ratio 53 (round_to 24 (q * 100)) 100 of (d, k') \<Rightarrow>
         (let v = half_even (round_to 53 (d * 100) * 100) (2 ^ (k + k'))
          in nat_digits (v div 100) @ ''.'' @ two_digits v @ ''%'')))"

definition progress :: "sql_outcome \<Rightarrow> string" where
  "progress c = ''['' @ qo_Start c @ ''] Testing '' @ qo_File c @ '' ('' @ nat_digits (qo_Index c) @ ''/'' @
     nat_digits (qo_Total c) @ '' '' @ percent (qo_Index c) (qo_Total c) @ '')''"

subsection \<open>The category map\<close>

datatype sql_summary = Summary
  (sm_bottom: bool) (sm_resultDir: string) (sm_catPath: string) (sm_total: int) (sm_success: int) (sm_fail: int)
  (sm_time: int) (sm_site: int) (sm_cases: "string list") (sm_children: "sql_summary list")

text \<open>A node's table has the names below it and, once it has a summary, \<open>Summary\<close> without a node.\<close>

datatype cat_node = CatNode "(string \<times> cat_node option) list list" nat nat "sql_summary option"

definition summaryKey :: string where "summaryKey = ''Summary''"

fun node_keys :: "cat_node \<Rightarrow> cat_node option jtable" where
  "node_keys (CatNode bs n th s) = \<lparr>buckets = bs, count_of = n, threshold = th\<rparr>"

fun node_summary :: "cat_node \<Rightarrow> sql_summary option" where
  "node_summary (CatNode bs n th s) = s"

definition with_keys :: "cat_node option jtable \<Rightarrow> sql_summary option \<Rightarrow> cat_node" where
  "with_keys t s = CatNode (buckets t) (count_of t) (threshold t) s"

definition new_node :: cat_node where
  "new_node = with_keys newJTable None"

definition cutCases :: "string \<Rightarrow> string" where
  "cutCases p = trim_suffix (case last_index_of p ''/cases'' of None \<Rightarrow> p | Some i \<Rightarrow> take i p) ''/''"

text \<open>
  Making the way to a directory of cases. A directory called \<open>Summary\<close> below one with cases is the
  entry without a node, and the code stops there.
\<close>

fun cat_add :: "string list \<Rightarrow> string \<Rightarrow> string \<Rightarrow> cat_node \<Rightarrow> (cat_node \<times> bool) option" where
  "cat_add [] bottom catPath n =
     (case node_summary n of
        Some s \<Rightarrow> Some (n, False)
      | None \<Rightarrow> Some (with_keys (jput summaryKey None (node_keys n)) (Some (Summary True bottom catPath 0 0 0 0 0 [] [])), True))"
| "cat_add (k # ks) bottom catPath n =
     (case jget (node_keys n) k of
        Some None \<Rightarrow> None
      | found \<Rightarrow>
          (case cat_add ks bottom catPath (case found of Some (Some c) \<Rightarrow> c | _ \<Rightarrow> new_node) of
             None \<Rightarrow> None
           | Some (c', fresh) \<Rightarrow> Some (with_keys (jput k (Some c') (node_keys n)) (node_summary n), fresh)))"

definition add_case :: "string \<Rightarrow> sql_summary \<Rightarrow> sql_summary" where
  "add_case c s =
     (case s of Summary b r p t su f ti si cs ch \<Rightarrow> Summary b r p t su f ti si (cs @ [c]) ch)"

fun cat_append :: "string list \<Rightarrow> string \<Rightarrow> cat_node \<Rightarrow> cat_node" where
  "cat_append [] c n = with_keys (node_keys n) (map_option (add_case c) (node_summary n))"
| "cat_append (k # ks) c n =
     (case jget (node_keys n) k of
        Some (Some ch) \<Rightarrow> with_keys (jput k (Some (cat_append ks c ch)) (node_keys n)) (node_summary n)
      | _ \<Rightarrow> n)"

definition rel_of :: "sql_run \<Rightarrow> string \<Rightarrow> string" where
  "rel_of r f = drop (min (length (qr_Scenario r)) (length f)) f"

definition new_case :: "sql_run \<Rightarrow> string \<Rightarrow> string \<Rightarrow> sql_case" where
  "new_case r dir f =
     (let a = map_of (qr_Answers r) f in
      \<lparr>qc_file = f, qc_answer = (case a of Some x \<Rightarrow> x | None \<Rightarrow> answerPath f), qc_name = case_stem f,
       qc_caseDir = path_dir f, qc_bottom = cutCases (dir @ ''/'' @ qr_Type r @ ''/'' @ rel_of r f),
       qc_shouldRun = (a \<noteq> None), qc_ran = False, qc_ok = False, qc_hasCore = False, qc_ms = 0\<rparr>)"

text \<open>The summaries by directory of results: where in the map the summary of each is.\<close>

type_synonym built = "sql_case list \<times> cat_node \<times> (string \<times> string list) list"

definition build_one :: "sql_run \<Rightarrow> string \<Rightarrow> string \<Rightarrow> built \<Rightarrow> built option" where
  "build_one r dir f b =
     (case b of (cs, cat, at) \<Rightarrow>
        if f \<in> qc_file ` set cs then Some b
        else (let c = new_case r dir f; catPath = cutCases (qr_Type r @ ''/'' @ rel_of r f); ks = split_on (CHR ''/'') catPath
          in case cat_add ks (qc_bottom c) catPath cat of
               None \<Rightarrow> None
             | Some (cat1, fresh) \<Rightarrow>
                 (let at1 = (if fresh then (qc_bottom c, ks) # at else at)
                  in case map_of at1 (qc_bottom c) of
                       None \<Rightarrow> None
                     | Some ks' \<Rightarrow> Some (cs @ [c], cat_append ks' f cat1, at1))))"

fun build_all :: "sql_run \<Rightarrow> string \<Rightarrow> string list \<Rightarrow> built \<Rightarrow> built option" where
  "build_all r dir [] b = Some b"
| "build_all r dir (f # fs) b = (case build_one r dir f b of None \<Rightarrow> None | Some b' \<Rightarrow> build_all r dir fs b')"

definition build :: "sql_run \<Rightarrow> string \<Rightarrow> built option" where
  "build r dir = build_all r dir (qr_Cases r) ([], new_node, [])"

subsection \<open>The summaries\<close>

definition counted :: "sql_case list \<Rightarrow> sql_summary \<Rightarrow> sql_summary" where
  "counted cs s =
     (let mine = concat (map (\<lambda>f. filter (\<lambda>c. qc_file c = f) cs) (sm_cases s)); ran = filter qc_ran mine
      in Summary (sm_bottom s) (sm_resultDir s) (sm_catPath s) (sm_total s + int (length mine))
           (sm_success s + int (length (filter qc_ok ran))) (sm_fail s + int (length (filter (\<lambda>c. \<not> qc_ok c) ran)))
           (sm_time s + sum_list (map qc_ms ran)) (sm_site s) (sm_cases s) (sm_children s))"

definition path_tokens :: "string \<Rightarrow> string list" where
  "path_tokens p = filter (\<lambda>x. x \<noteq> []) (split_on (CHR ''/'') p)"

text \<open>The children of a summary in the order of the table they are put into.\<close>

definition in_table_order :: "sql_summary list \<Rightarrow> sql_summary list" where
  "in_table_order chs =
     (let t = foldl (\<lambda>t ch. jput (sm_resultDir ch) ch t) newJTable chs
      in concat (map (\<lambda>k. case jget t k of None \<Rightarrow> [] | Some ch \<Rightarrow> [ch]) (jkeys t)))"

definition kid_summaries :: "cat_node option jtable \<Rightarrow> sql_summary list" where
  "kid_summaries t =
     concat (map (\<lambda>k. if k = summaryKey then []
       else (case jget t k of Some (Some c) \<Rightarrow> (case node_summary c of None \<Rightarrow> [] | Some s \<Rightarrow> [s]) | _ \<Rightarrow> [])) (jkeys t))"

definition inner_summary :: "string \<Rightarrow> string list \<Rightarrow> sql_summary list \<Rightarrow> sql_summary" where
  "inner_summary dir dp chs =
     (let resultDir = ''/'' @ join_with ''/'' dp in
      Summary False resultDir (cutCases (trim_prefix (drop (min (length dir) (length resultDir)) resultDir) ''/''))
        (sum_list (map sm_total chs)) (sum_list (map sm_success chs)) (sum_list (map sm_fail chs)) (sum_list (map sm_time chs))
        (if dp = [] then 0 else if to_lower (last dp) = ''site'' then 0 else 1)
        (concat (map sm_cases chs)) (in_table_order chs))"

definition closed_node :: "string \<Rightarrow> string \<Rightarrow> string list \<Rightarrow> cat_node option jtable \<Rightarrow> sql_summary option \<Rightarrow> cat_node \<times> sql_summary option" where
  "closed_node testID dir dp t old =
     (if \<not> contains (''/'' @ join_with ''/'' dp) testID then (with_keys t old, None)
      else (let t' = jput summaryKey None t; s = inner_summary dir dp (kid_summaries t') in (with_keys t' (Some s), Some s)))"

fun entry_size :: "string \<times> cat_node option \<Rightarrow> nat" where
  "entry_size (k, v) = (case v of None \<Rightarrow> 1 | Some c \<Rightarrow> Suc (Suc (size c)))"

lemma entries_smaller:
  "sum_list (map entry_size (concat (rev bs))) < size (CatNode bs n th s)"
proof -
  have one: "sum_list (map entry_size es) \<le> size_list (size_prod (\<lambda>_. 0) (size_option size)) es" for es
  proof (induction es)
    case (Cons e es)
    then show ?case by (cases e) (auto split: option.splits)
  qed simp
  have "mset (map entry_size (concat (rev bs))) = mset (map entry_size (concat bs))"
    by (simp only: mset_map mset_concat_rev)
  then have "sum_list (map entry_size (concat (rev bs))) = sum_list (map entry_size (concat bs))"
    by (metis sum_mset_sum_list)
  also have "\<dots> \<le> size_list (size_list (size_prod (\<lambda>_. 0) (size_option size))) bs"
  proof (induction bs)
    case (Cons b bs)
    then show ?case using one [of b] by simp
  qed simp
  finally show ?thesis by simp
qed

text \<open>
  \<open>makeSummary\<close>: the way through the map, with the vector of names it shares across the recursion and
  the summary made last.
\<close>

type_synonym walk_state = "string list \<times> sql_summary option"

function (sequential) walk_node :: "string \<Rightarrow> string \<Rightarrow> sql_case list \<Rightarrow> cat_node \<Rightarrow> walk_state \<Rightarrow> cat_node \<times> walk_state"
  and walk_kids :: "string \<Rightarrow> string \<Rightarrow> sql_case list \<Rightarrow> (string \<times> cat_node option) list \<Rightarrow> walk_state \<Rightarrow>
    (string \<times> cat_node option) list \<times> walk_state" where
  "walk_node testID dir cs (CatNode bs n th s) (dp, lst) =
     (case s of
        Some (Summary True r p t su f ti si fs ch) \<Rightarrow>
          (let s' = counted cs (Summary True r p t su f ti si fs ch) in (CatNode bs n th (Some s'), path_tokens r, Some s'))
      | _ \<Rightarrow>
          (case walk_kids testID dir cs (concat (rev bs)) (dp, lst) of (es, dp1, lst1) \<Rightarrow>
            (let t = foldl (\<lambda>t (k, v). jput k v t) \<lparr>buckets = bs, count_of = n, threshold = th\<rparr> es; dp2 = butlast dp1
             in case closed_node testID dir dp2 t s of (node, made) \<Rightarrow>
               (node, dp2, case made of None \<Rightarrow> lst1 | Some x \<Rightarrow> Some x))))"
| "walk_kids testID dir cs [] st = ([], st)"
| "walk_kids testID dir cs ((k, None) # es) st =
     (case walk_kids testID dir cs es st of (es', st') \<Rightarrow> ((k, None) # es', st'))"
| "walk_kids testID dir cs ((k, Some c) # es) (dp, lst) =
     (case walk_node testID dir cs c (dp @ [k], lst) of (c', st1) \<Rightarrow>
       (case walk_kids testID dir cs es st1 of (es', st2) \<Rightarrow> ((k, Some c') # es', st2)))"
  by pat_completeness auto
termination
  by (relation "measure (case_sum (\<lambda>(_, _, _, n, _). size n) (\<lambda>(_, _, _, es, _). sum_list (map entry_size es)))")
    (use entries_smaller in auto)

declare walk_node.simps [simp del] walk_kids.simps [simp del]

definition makeSummary :: "string \<Rightarrow> string \<Rightarrow> sql_case list \<Rightarrow> cat_node \<Rightarrow> sql_summary option" where
  "makeSummary testID dir cs cat = snd (snd (walk_node testID dir cs cat ([], None)))"

definition case_of :: "sql_case list \<Rightarrow> string \<Rightarrow> sql_case list" where
  "case_of cs f = filter (\<lambda>c. qc_file c = f) cs"

definition summary_text :: "string \<Rightarrow> sql_case list \<Rightarrow> sql_summary \<Rightarrow> string" where
  "summary_text msgID cs s =
     ''total:'' @ itoa (sm_total s) @ [LF] @ ''success:'' @ itoa (sm_success s) @ [LF] @ ''fail:'' @ itoa (sm_fail s) @ [LF] @
     ''totalTime:'' @ itoa (sm_time s) @ ''ms'' @ [LF] @ ''SiteRunTimes:'' @ itoa (sm_site s) @ ''times'' @ [LF] @
     (if msgID = [] then [] else ''msg_id:'' @ msgID @ [LF]) @
     (if sm_bottom s
      then concat (map (\<lambda>c. qc_file c @ '':'' @ (if \<not> qc_ran c then [] else if qc_ok c then ''ok'' else ''nok'') @ ''    '' @
        itoa (qc_ms c) @ ''ms'' @ [LF]) (concat (map (case_of cs) (sm_cases s))))
      else concat (map (\<lambda>ch. sm_catPath ch @ ''/:'' @ itoa (sm_total ch) @ ''    '' @ itoa (sm_success ch) @ ''    '' @
        itoa (sm_fail ch) @ [LF]) (sm_children s)))"

subsection \<open>The JUnit report\<close>

definition xmlAttr :: "string \<Rightarrow> string" where
  "xmlAttr v = concat (map (\<lambda>c. if c = CHR ''&'' then ''&amp;'' else if c = CHR ''<'' then ''&lt;''
     else if c = CHR ''>'' then ''&gt;'' else if c = quot then ''&quot;'' else [c]) v)"

definition junitAnchors :: "string list" where
  "junitAnchors = [''cubrid-testcases-private-ex'', ''cubrid-testcases-private'', ''cubrid-testcases'']"

fun anchored :: "string list \<Rightarrow> string \<Rightarrow> string \<times> string" where
  "anchored [] f = (f, f)"
| "anchored (a # as) f =
     (case index_of f (''/'' @ a @ ''/'') of
        Some i \<Rightarrow> (drop (i + length a + 2) f, a @ ''/'' @ drop (i + length a + 2) f)
      | None \<Rightarrow> anchored as f)"

fun reported_cases :: "sql_case list \<Rightarrow> sql_summary \<Rightarrow> sql_case list" where
  "reported_cases cs (Summary b r p t su f ti si fs ch) =
     (if b then filter qc_ran (concat (map (case_of cs) fs)) else concat (map (reported_cases cs) ch))"

text \<open>Thousandths and the rest, a division that truncates.\<close>

definition toward_zero :: "int \<Rightarrow> int" where
  "toward_zero n = sgn n * (\<bar>n\<bar> div 1000)"

definition three_digits :: "int \<Rightarrow> string" where
  "three_digits n =
     (let s = itoa \<bar>n\<bar>; w = (if n < 0 then 2 else 3) in (if n < 0 then ''-'' else []) @ replicate (w - length s) (CHR ''0'') @ s)"

definition junit_case :: "(string \<Rightarrow> string) \<Rightarrow> string \<Rightarrow> sql_case \<Rightarrow> string" where
  "junit_case failure suite c =
     (case anchored junitAnchors (qc_file c) of (name, f) \<Rightarrow>
       [LF] @ ''    <testcase classname='' @ [quot] @ xmlAttr suite @ [quot] @ '' name='' @ [quot] @ xmlAttr name @ [quot] @
       '' file='' @ [quot] @ xmlAttr f @ [quot] @ '' time='' @ [quot] @ itoa (toward_zero (qc_ms c)) @ ''.'' @
       three_digits (qc_ms c - 1000 * toward_zero (qc_ms c)) @ [quot] @ ''>'' @
       (if qc_ok c then ''</testcase>''
        else [LF] @ ''      <failure message='' @ [quot] @ ''unexpected result'' @ [quot] @ ''>'' @
          (if failure (qc_file c) = [] then [] else ''<![CDATA['' @ failure (qc_file c) @ '']]>'') @
          ''</failure>'' @ [LF] @ ''    </testcase>''))"

definition sql_junit :: "(string \<Rightarrow> string) \<Rightarrow> sql_run \<Rightarrow> sql_case list \<Rightarrow> sql_summary \<Rightarrow> string" where
  "sql_junit failure r cs root =
     (let cases = reported_cases cs root; target = ''linux_'' @ qr_Type r @ ''_'' @ qr_Bits r @ ''bit'';
          suite = target @ ''_'' @ qr_Mode r
      in ''<?xml version='' @ [quot] @ ''1.0'' @ [quot] @ '' encoding='' @ [quot] @ ''UTF-8'' @ [quot] @ ''?>'' @ [LF] @
         ''<testsuites>'' @ [LF] @ ''  <testsuite name='' @ [quot] @ xmlAttr suite @ [quot] @ '' tests='' @ [quot] @
         itoa (int (length cases)) @ [quot] @ '' failures='' @ [quot] @
         itoa (int (length (filter (\<lambda>c. \<not> qc_ok c) cases))) @ [quot] @ ''>'' @
         concat (map (junit_case failure suite) cases) @ (if cases = [] then [] else [LF] @ ''  '') @
         ''</testsuite>'' @ [LF] @ ''</testsuites>'')"

subsection \<open>The records of a run\<close>

record sql_files =
  fs_here :: "string \<Rightarrow> bool"
  fs_reads :: "string \<Rightarrow> string option"
  fs_writes :: "string \<Rightarrow> bool"
  fs_answer_first :: bool

record sql_record =
  rs_run :: sql_run
  rs_testID :: string
  rs_dir :: string
  rs_cases :: "sql_case list"
  rs_cat :: cat_node
  rs_xml :: "string option"
  rs_out :: string
  rs_log :: "string option"
  rs_files :: "(string \<times> string) list"

datatype record_error = NotACase string | NotWritten string | NotCopied string | NoSummary

definition test_id :: "sql_run \<Rightarrow> string \<Rightarrow> int \<Rightarrow> string" where
  "test_id r stamp random = ''schedule_linux_'' @ qr_Type r @ ''_'' @ qr_Bits r @ ''bit_'' @ stamp @ itoa random @ ''_'' @ qr_Build r"

definition OpenSQL :: "sql_files \<Rightarrow> string \<Rightarrow> int \<Rightarrow> int \<Rightarrow> string \<Rightarrow> int \<Rightarrow> bool \<Rightarrow> sql_run \<Rightarrow> (record_error + sql_record) option" where
  "OpenSQL fs home year month stamp random logged r =
     (let testID = test_id r stamp random;
          dir = path_join [home, ''sql'', ''result'', CHR ''y'' # itoa year, CHR ''m'' # itoa month, testID]
      in case build r dir of None \<Rightarrow> None
         | Some (cs, cat, at) \<Rightarrow>
             (case find (\<lambda>c. \<not> fs_writes fs (qc_bottom c)) cs of
                Some c \<Rightarrow> Some (Inl (NotWritten (qc_bottom c)))
              | None \<Rightarrow>
                  (let summary = path_join [dir, ''summary.xml''] in
                   if qr_XMLSummary r \<and> \<not> fs_writes fs summary then Some (Inl (NotWritten summary))
                   else Some (Inr \<lparr>rs_run = r, rs_testID = testID, rs_dir = dir, rs_cases = cs, rs_cat = cat,
                     rs_xml = (if qr_XMLSummary r then Some (''<results>'' @ [LF]) else None), rs_out = [],
                     rs_log = (if logged then Some [] else None), rs_files = []\<rparr>))))"

definition sql_print :: "string \<Rightarrow> sql_record \<Rightarrow> sql_record" where
  "sql_print t s = s\<lparr>rs_out := rs_out s @ t, rs_log := map_option (\<lambda>l. l @ t) (rs_log s)\<rparr>"

definition sql_file :: "string \<Rightarrow> string \<Rightarrow> sql_record \<Rightarrow> sql_record" where
  "sql_file path t s = s\<lparr>rs_files := rs_files s @ [(path, t)]\<rparr>"

definition sql_Begin :: "string list \<Rightarrow> sql_record \<Rightarrow> sql_record" where
  "sql_Begin startup s =
     sql_print (''Result Root Dir:'' @ rs_dir s @ [LF] @ concat (map (\<lambda>l. l @ [LF]) startup) @
       ''---------------execute begin--------------------'' @ [LF]) s"

definition sql_Say :: "string \<Rightarrow> sql_record \<Rightarrow> sql_record" where
  "sql_Say line s = sql_print (line @ [LF]) s"

definition sql_Starting :: "sql_outcome \<Rightarrow> sql_record \<Rightarrow> sql_record" where
  "sql_Starting c s = (if qr_Serial (rs_run s) then sql_print (progress c) s else s)"

definition sql_judged :: "sql_outcome \<Rightarrow> sql_case \<Rightarrow> sql_case" where
  "sql_judged c rc = rc\<lparr>qc_ran := True, qc_ok := qo_OK c \<and> qo_Err c = None, qc_ms := qo_Ms c, qc_hasCore := qo_HasCore c\<rparr>"

definition put_case :: "sql_case \<Rightarrow> sql_record \<Rightarrow> sql_record" where
  "put_case rc s = s\<lparr>rs_cases := map (\<lambda>c. if qc_file c = qc_file rc then rc else c) (rs_cases s)\<rparr>"

text \<open>Files left by a failed case: its rendering, and with a summary its source and its answer.\<close>

definition sql_copy :: "sql_files \<Rightarrow> string \<Rightarrow> string \<Rightarrow> sql_record \<Rightarrow> record_error option \<times> sql_record" where
  "sql_copy fs src to s =
     (case fs_reads fs src of None \<Rightarrow> (Some (NotCopied src), s)
      | Some t \<Rightarrow> if fs_writes fs to then (None, sql_file to t s) else (Some (NotWritten to), s))"

definition failure_copies :: "sql_files \<Rightarrow> sql_case \<Rightarrow> sql_record \<Rightarrow> record_error option \<times> sql_record" where
  "failure_copies fs rc s =
     (let a = (qc_answer rc, path_join [qc_bottom rc, qc_name rc @ ''.answer'']);
          b = (qc_file rc, path_join [qc_bottom rc, qc_name rc @ ''.sql'']);
          p = (if fs_answer_first fs then a else b); q = (if fs_answer_first fs then b else a)
      in case sql_copy fs (fst p) (snd p) s of
           (Some e, s1) \<Rightarrow> (Some e, s1)
         | (None, s1) \<Rightarrow> sql_copy fs (fst q) (snd q) s1)"

definition scenario_record :: "sql_run \<Rightarrow> sql_case \<Rightarrow> string" where
  "scenario_record r rc =
     ''  <scenario>'' @ [LF] @ ''     <case>'' @ qr_Type r @ ''/'' @ rel_of r (qc_file rc) @ ''</case>'' @ [LF] @
     ''     <answer>'' @ qr_Type r @ ''/'' @ rel_of r (qc_answer rc) @ ''</answer>'' @ [LF] @
     ''     <elapsetime>'' @ itoa (qc_ms rc) @ ''</elapsetime>'' @ [LF] @
     ''     <result>'' @ (if qc_ok rc then ''success'' else ''fail'') @ ''</result>'' @ [LF] @ ''  </scenario>'' @ [LF]"

definition verdict_tail :: "sql_outcome \<Rightarrow> sql_case \<Rightarrow> string \<Rightarrow> sql_record \<Rightarrow> sql_record" where
  "verdict_tail c rc prog s =
     (let s1 = sql_print (prog @ (if qc_ok rc then '' [OK]'' else '' [NOK]'') @ [LF]) s
      in case qo_Err c of None \<Rightarrow> s1 | Some e \<Rightarrow> sql_print (''[ERROR] '' @ qo_File c @ '': '' @ e @ [LF]) s1)"

definition sql_Case :: "sql_files \<Rightarrow> sql_outcome \<Rightarrow> sql_record \<Rightarrow> record_error option \<times> sql_record" where
  "sql_Case fs c s =
     (case find (\<lambda>rc. qc_file rc = qo_File c) (rs_cases s) of
        None \<Rightarrow> (Some (NotACase (qo_File c)), s)
      | Some rc0 \<Rightarrow>
          (let prog = (if qr_Serial (rs_run s) then [] else progress c) in
           if \<not> qc_shouldRun rc0 then (None, if qr_Serial (rs_run s) then s else sql_print (prog @ [LF]) s)
           else (let rc = sql_judged c rc0; s1 = put_case rc s;
                     beside = path_join [qc_caseDir rc, qc_name rc @ ''.result''];
                     kept = path_join [qc_bottom rc, qc_name rc @ ''.result''];
                     s2 = (case qo_Rendered c of Some t \<Rightarrow> if fs_writes fs beside then sql_file beside t s1 else s1 | None \<Rightarrow> s1);
                     lost = (\<not> qc_ok rc \<and> qo_Rendered c \<noteq> None \<and> \<not> fs_writes fs kept);
                     s3 = (case qo_Rendered c of Some t \<Rightarrow> if \<not> qc_ok rc then sql_file kept t s2 else s2 | None \<Rightarrow> s2)
             in if lost then (Some (NotWritten kept), s2)
                else if \<not> qr_XMLSummary (rs_run s) then (None, verdict_tail c rc prog s3)
                else (case (if qc_ok rc then (None, s3) else failure_copies fs rc s3) of
                    (Some e, s4) \<Rightarrow> (Some e, s4)
                  | (None, s4) \<Rightarrow>
                      if \<not> fs_writes fs ''summary.xml'' then (Some (NotWritten ''summary.xml''), s4)
                      else (None, verdict_tail c rc prog
                        (s4\<lparr>rs_xml := map_option (\<lambda>x. x @ scenario_record (rs_run s) rc) (rs_xml s4)\<rparr>))))))"

subsection \<open>The records for XStream\<close>

text \<open>
  \<open>summaryInfo\<close>: a second tree of the same directories. A node is known by its way through the map, which is
  how a change made to one of them is found again.
\<close>

datatype sql_info = Info
  (in_at: "string list") (in_resultDir: string) (in_catPath: string) (in_name: string)
  (in_total: int) (in_site: int) (in_success: int) (in_fail: int) (in_time: int) (in_version: string)
  (in_children: "sql_info list") (in_ok: "sql_case list") (in_nok: "sql_case list") (in_notRun: "sql_case list")

definition afterSecondUnderscore :: "string \<Rightarrow> string" where
  "afterSecondUnderscore testID =
     (let cut = (\<lambda>x. case cut_at (CHR ''_'') x of (before, rest, found) \<Rightarrow> if found then rest else x) in cut (cut testID))"

definition after_last_slash :: "string \<Rightarrow> string" where
  "after_last_slash p = (case last_index_of p ''/'' of None \<Rightarrow> p | Some i \<Rightarrow> drop (i + 1) p)"

text \<open>
  What one node becomes: the numbers of its own summary, or, at the top, of the root's when it has none;
  its name is the run's at the top and the end of its path elsewhere.
\<close>

definition info_of :: "sql_run \<Rightarrow> string \<Rightarrow> sql_case list \<Rightarrow> sql_summary \<Rightarrow> string list \<Rightarrow> sql_summary option \<Rightarrow> sql_info list \<Rightarrow> sql_info" where
  "info_of r testID cs root at own kids =
     (let outer = (at = []); sm = (case own of Some x \<Rightarrow> Some x | None \<Rightarrow> if outer then Some root else None);
          name = (if outer then afterSecondUnderscore testID else (case own of None \<Rightarrow> [] | Some x \<Rightarrow> after_last_slash (sm_catPath x)));
          version = (if \<not> outer then [] else if qr_Bits r = ''32'' then ''32bits'' else ''Main'');
          mine = (case own of Some x \<Rightarrow> if sm_bottom x then concat (map (case_of cs) (sm_cases x)) else [] | None \<Rightarrow> []);
          okays = filter (\<lambda>c. qc_ran c \<and> qc_ok c) mine; noks = filter (\<lambda>c. qc_ran c \<and> \<not> qc_ok c) mine;
          unrun = filter (\<lambda>c. \<not> qc_ran c) mine
      in case sm of
           None \<Rightarrow> Info at [] [] name 0 0 0 0 0 version kids okays noks unrun
         | Some x \<Rightarrow> Info at (sm_resultDir x) (sm_catPath x) name (sm_total x) (sm_site x) (sm_success x) (sm_fail x) (sm_time x)
             version kids okays noks unrun)"

function makeSummaryInfo :: "sql_run \<Rightarrow> string \<Rightarrow> sql_case list \<Rightarrow> sql_summary \<Rightarrow> string list \<Rightarrow> cat_node \<Rightarrow> sql_info"
  and info_kids :: "sql_run \<Rightarrow> string \<Rightarrow> sql_case list \<Rightarrow> sql_summary \<Rightarrow> string list \<Rightarrow> (string \<times> cat_node option) list \<Rightarrow> sql_info list" where
  "makeSummaryInfo r testID cs root at (CatNode bs n th s) =
     info_of r testID cs root at s (info_kids r testID cs root at (concat (rev bs)))"
| "info_kids r testID cs root at [] = []"
| "info_kids r testID cs root at ((k, v) # es) =
     (case v of None \<Rightarrow> [] | Some c \<Rightarrow> if k = summaryKey then [] else [makeSummaryInfo r testID cs root (at @ [k]) c]) @
     info_kids r testID cs root at es"
  by pat_completeness auto
termination
  by (relation "measure (case_sum (\<lambda>(_, _, _, _, _, n). size n) (\<lambda>(_, _, _, _, _, es). sum_list (map entry_size es)))")
    (use entries_smaller in \<open>auto split: option.splits\<close>)

text \<open>All children but the last by name, then the last.\<close>

definition childList :: "sql_info list \<Rightarrow> sql_info list" where
  "childList kids =
     (if length kids < 2 then kids
      else sort_by (\<lambda>a b. javaLess (in_name a) (in_name b)) (butlast kids) @ [last kids])"

lemma childList_set: "set (childList kids) = set kids"
proof (cases kids rule: rev_cases)
  case (snoc ks k)
  then show ?thesis by (auto simp: childList_def)
qed (simp add: childList_def)

definition xmlText :: "string \<Rightarrow> string" where
  "xmlText s = concat (map (\<lambda>c. if c = CHR ''&'' then ''&amp;'' else if c = CHR ''<'' then ''&lt;''
     else if c = CHR ''>'' then ''&gt;'' else if c = quot then ''&quot;'' else if c = SQUOTE then ''&apos;''
     else if c = CR then ''&#x0D;'' else if c = CHR 0x00 then ''&#x0;'' else [c]) (java_loop s))"

definition printsQueryPlan :: "(string \<Rightarrow> bool) \<Rightarrow> sql_run \<Rightarrow> string \<Rightarrow> bool" where
  "printsQueryPlan here r f \<longleftrightarrow>
     qr_QueryPlanAll r \<or> (case last_index_of f ''.'' of None \<Rightarrow> False | Some i \<Rightarrow> here (take i f @ ''.queryPlan''))"

definition element :: "nat \<Rightarrow> string \<Rightarrow> string \<Rightarrow> string" where
  "element depth tag body =
     concat (replicate depth ''  '') @ ''<'' @ tag @ ''>'' @ body @ ''</'' @ tag @ ''>'' @ [LF]"

definition truth :: "bool \<Rightarrow> string" where
  "truth b = (if b then ''true'' else ''false'')"

definition case_entry :: "(string \<Rightarrow> bool) \<Rightarrow> sql_run \<Rightarrow> nat \<Rightarrow> sql_case \<Rightarrow> string" where
  "case_entry here r d c =
     (if qc_ran c
      then element d ''siteRunTimes'' ''1'' @ element d ''printQueryPlan'' ''false'' @ element d ''type'' ''0'' @
        element d ''totalTime'' (itoa (qc_ms c)) @ element d ''caseFile'' (xmlText (qc_file c)) @
        (if qr_AnswerInSummary r then element d ''answerFile'' (xmlText (qc_answer c)) else []) @
        element d ''hasAnswer'' ''false'' @ element d ''isSuccessFul'' (truth (qc_ok c)) @
        element d ''hasCore'' (truth (qc_hasCore c)) @ element d ''shouldRun'' ''true''
      else element d ''siteRunTimes'' ''1'' @ element d ''printQueryPlan'' (truth (printsQueryPlan here r (qc_file c))) @
        element d ''type'' ''0'' @ element d ''totalTime'' ''0'' @ element d ''caseDir'' (xmlText (qc_caseDir c)) @
        element d ''caseFile'' (xmlText (qc_file c)) @ element d ''caseName'' (xmlText (qc_name c)) @
        element d ''answerFile'' (xmlText (qc_answer c)) @ element d ''hasAnswer'' ''false'' @
        element d ''resultDir'' (xmlText (qc_bottom c)) @ element d ''isSuccessFul'' ''true'' @
        element d ''hasCore'' ''false'' @ element d ''shouldRun'' ''false'')"

definition indented :: "nat \<Rightarrow> string \<Rightarrow> string" where
  "indented depth line = concat (replicate depth ''  '') @ line @ [LF]"

definition caseList :: "(string \<Rightarrow> bool) \<Rightarrow> sql_run \<Rightarrow> string \<Rightarrow> sql_case list \<Rightarrow> nat \<Rightarrow> string" where
  "caseList here r tag cs depth =
     (if cs = [] then indented depth (''<'' @ tag @ ''/>'')
      else indented depth (''<'' @ tag @ ''>'') @
        concat (map (\<lambda>c. indented (depth + 1) ''<caseresult>'' @ case_entry here r (depth + 2) c @
          indented (depth + 1) ''</caseresult>'') cs) @ indented depth (''</'' @ tag @ ''>''))"

text \<open>
  \<open>xstream\<close>, with the nodes whose path has been replaced by the alias so far: an element, given those of
  its children.
\<close>

definition info_element :: "(string \<Rightarrow> bool) \<Rightarrow> sql_run \<Rightarrow> string list list \<Rightarrow> nat \<Rightarrow> bool \<Rightarrow> sql_info \<Rightarrow> string list \<Rightarrow> string" where
  "info_element here r aliased depth outer i kids =
     (let d = depth + 1 in
      indented depth ''<summary>'' @
      (if \<not> outer \<and> in_at i \<noteq> [] then indented d (''<parent reference='' @ [quot] @ ''../../..'' @ [quot] @ ''/>'') else []) @
      (if kids = [] then indented d ''<childList/>'' else indented d ''<childList>'' @ concat kids @ indented d ''</childList>'') @
      element d ''resultDir'' (xmlText (in_resultDir i)) @
      element d ''catPath'' (xmlText (if in_at i \<in> set aliased then qr_Alias r else in_catPath i)) @
      element d ''name'' (xmlText (in_name i)) @ element d ''totalCount'' (itoa (in_total i)) @
      element d ''siteRunTimes'' (itoa (in_site i)) @ element d ''successCount'' (itoa (in_success i)) @
      element d ''failCount'' (itoa (in_fail i)) @ element d ''totalTime'' (itoa (in_time i)) @ element d ''type'' ''0'' @
      (if in_version i = [] then [] else element d ''version'' (xmlText (in_version i))) @
      caseList here r ''okList'' (in_ok i) d @ caseList here r ''nokList'' (in_nok i) d @
      caseList here r ''notRunList'' (in_notRun i) d @ indented depth ''</summary>'')"

lemma info_smaller: "x \<in> set (childList (in_children i)) \<Longrightarrow> size x < size i"
  by (cases i) (simp add: childList_set size_list_estimation' less_Suc_eq_le trans_le_add1)

function xstream :: "(string \<Rightarrow> bool) \<Rightarrow> sql_run \<Rightarrow> string list list \<Rightarrow> nat \<Rightarrow> bool \<Rightarrow> sql_info \<Rightarrow> string" where
  "xstream here r aliased depth outer i =
     info_element here r aliased depth outer i (map (xstream here r aliased (depth + 2) False) (childList (in_children i)))"
  by pat_completeness auto
termination
  by (relation "measure (\<lambda>(_, _, _, _, _, i). size i)") (auto dest!: info_smaller)

declare xstream.simps [simp del]

text \<open>The summaries in the order their files are written, each with its way through the map.\<close>

function summaries_of :: "string list \<Rightarrow> cat_node \<Rightarrow> (string list \<times> sql_summary) list"
  and summaries_in :: "string list \<Rightarrow> sql_summary option \<Rightarrow> (string \<times> cat_node option) list \<Rightarrow> (string list \<times> sql_summary) list" where
  "summaries_of at (CatNode bs n th s) = summaries_in at s (concat (rev bs))"
| "summaries_in at s [] = []"
| "summaries_in at s ((k, v) # es) =
     (if k = summaryKey then (case s of None \<Rightarrow> [] | Some x \<Rightarrow> [(at, x)])
      else (case v of None \<Rightarrow> [] | Some c \<Rightarrow> summaries_of (at @ [k]) c)) @ summaries_in at s es"
  by pat_completeness auto
termination
  by (relation "measure (case_sum (\<lambda>(_, n). size n) (\<lambda>(_, _, es). sum_list (map entry_size es)))")
    (use entries_smaller in \<open>auto split: option.splits\<close>)

fun all_infos :: "sql_info \<Rightarrow> sql_info list" where
  "all_infos (Info at rd cat name tot site su fa ms version kids okays noks unrun) =
     Info at rd cat name tot site su fa ms version kids okays noks unrun # concat (map all_infos kids)"

definition takes_alias :: "sql_run \<Rightarrow> sql_info \<Rightarrow> bool" where
  "takes_alias r si \<longleftrightarrow> to_lower (qr_Type r) = to_lower (in_catPath si) \<and> to_lower (qr_Type r) \<noteq> to_lower (qr_Alias r)"

fun saveResultSummary :: "(string \<Rightarrow> bool) \<Rightarrow> sql_run \<Rightarrow> string \<Rightarrow> sql_case list \<Rightarrow> sql_info \<Rightarrow> string list list \<Rightarrow>
    (string list \<times> sql_summary) list \<Rightarrow> (string \<times> string) list" where
  "saveResultSummary here r msgID cs info aliased [] = []"
| "saveResultSummary here r msgID cs info aliased ((at, sm) # rest) =
     (path_join [sm_resultDir sm, ''summary_info''], summary_text msgID cs sm) #
     (case find (\<lambda>i. in_at i = at) (all_infos info) of
        None \<Rightarrow> saveResultSummary here r msgID cs info aliased rest
      | Some si \<Rightarrow>
          (let aliased' = (if takes_alias r si then at # aliased else aliased) in
           (path_join [in_resultDir si, ''summary.info''], trim_suffix (xstream here r aliased' 0 True si) [LF]) #
           saveResultSummary here r msgID cs info aliased' rest))"

record sql_counts =
  nc_Total :: int
  nc_Success :: int
  nc_Fail :: int
  nc_Time :: int

definition main_info :: "sql_run \<Rightarrow> string \<Rightarrow> string \<Rightarrow> sql_summary \<Rightarrow> string" where
  "main_info r dir now root =
     ''build:'' @ qr_Build r @ [LF] @ ''version:'' @ qr_Bits r @ ''bit'' @ [LF] @ ''os:linux'' @ [LF] @ ''category:'' @ qr_Alias r @ [LF] @
     ''elapse_time:'' @ itoa (sm_time root) @ [LF] @ ''success:'' @ itoa (sm_success root) @ [LF] @ ''fail:'' @ itoa (sm_fail root) @ [LF] @
     ''total:'' @ itoa (sm_total root) @ [LF] @ ''execute_case:'' @ itoa (sm_success root + sm_fail root) @ [LF] @
     ''totalTime:'' @ itoa (sm_time root) @ [LF] @ ''end_time:'' @ now @ [LF] @ ''result_path:'' @ dir @ [LF]"

fun write_all :: "sql_files \<Rightarrow> (string \<times> string) list \<Rightarrow> sql_record \<Rightarrow> record_error option \<times> sql_record" where
  "write_all fs [] s = (None, s)"
| "write_all fs ((p, t) # ws) s = (if fs_writes fs p then write_all fs ws (sql_file p t s) else (Some (NotWritten p), s))"

definition report_files :: "(string \<Rightarrow> string) \<Rightarrow> sql_record \<Rightarrow> sql_summary \<Rightarrow> (string \<times> string) list" where
  "report_files failure s root =
     (let r = rs_run s in
      if qr_Mode r = [] then []
      else [(path_join [rs_dir s, ''linux_'' @ qr_Type r @ ''_'' @ qr_Bits r @ ''bit.xml''], sql_junit failure r (rs_cases s) root)])"

definition sql_End :: "sql_files \<Rightarrow> (string \<Rightarrow> string) \<Rightarrow> string \<Rightarrow> string \<Rightarrow> sql_record \<Rightarrow> (record_error + sql_counts) \<times> sql_record" where
  "sql_End fs failure msgID now s0 =
     (case walk_node (rs_testID s0) (rs_dir s0) (rs_cases s0) (rs_cat s0) ([], None) of
        (cat, _, None) \<Rightarrow> (Inl NoSummary, s0\<lparr>rs_cat := cat\<rparr>)
      | (cat, _, Some root) \<Rightarrow>
          (let s = s0\<lparr>rs_cat := cat\<rparr>; infos = saveResultSummary (fs_here fs) (rs_run s) msgID (rs_cases s)
                  (makeSummaryInfo (rs_run s) (rs_testID s) (rs_cases s) root [] cat) [] (summaries_of [] cat)
           in case write_all fs infos s of (Some e, s1) \<Rightarrow> (Inl e, s1)
            | (None, s1) \<Rightarrow>
              (case write_all fs (report_files failure s root) (sql_print (''---------------execute end  --------------------'' @ [LF]) s1) of
                 (Some e, s2) \<Rightarrow> (Inl e, s2)
               | (None, s2) \<Rightarrow>
                 (let s3 = (case rs_xml s2 of None \<Rightarrow> s2
                       | Some x \<Rightarrow> sql_file (path_join [rs_dir s, ''summary.xml'']) (x @ ''</results>'' @ [LF]) (s2\<lparr>rs_xml := None\<rparr>))
                  in case write_all fs (if qr_XMLSummary (rs_run s)
                         then [(path_join [rs_dir s, ''main.info''], main_info (rs_run s) (rs_dir s) now root)] else []) s3 of
                       (Some e, s4) \<Rightarrow> (Inl e, s4)
                     | (None, s4) \<Rightarrow>
                         (Inr \<lparr>nc_Total = sm_total root, nc_Success = sm_success root, nc_Fail = sm_fail root, nc_Time = sm_time root\<rparr>, s4)))))"

definition sql_Summary :: "sql_counts \<Rightarrow> string \<Rightarrow> sql_record \<Rightarrow> sql_record" where
  "sql_Summary c logFile s =
     s\<lparr>rs_out := rs_out s @ [LF] @ ''-----------------------'' @ [LF] @ ''Fail:'' @ itoa (nc_Fail c) @ [LF] @
       ''Success:'' @ itoa (nc_Success c) @ [LF] @ ''Total:'' @ itoa (nc_Total c) @ [LF] @ ''Elapse Time:'' @ itoa (nc_Time c) @ [LF] @
       ''Test Log:'' @ logFile @ [LF] @ ''Test Result Directory:'' @ rs_dir s @ [LF] @ ''-----------------------'' @ [LF, LF]\<rparr>"

definition MainInfoTail :: "sql_files \<Rightarrow> string \<Rightarrow> string \<Rightarrow> string \<Rightarrow> sql_record \<Rightarrow> record_error option \<times> sql_record" where
  "MainInfoTail fs rel user machine s =
     write_all fs [(path_join [rs_dir s, ''main.info''],
       ''cubrid_rel:'' @ rel @ [LF] @ ''user:'' @ user @ [LF] @ ''machine:'' @ machine @ [LF])] s"

definition TestError :: "sql_files \<Rightarrow> sql_record \<Rightarrow> record_error option \<times> sql_record" where
  "TestError fs s = write_all fs [(path_join [rs_dir s, ''summary_info''], ''test_error=Y'' @ [LF])] s"

subsection \<open>The status page of a finished case\<close>

definition nonBlankLines :: "string \<Rightarrow> (nat \<times> string) list" where
  "nonBlankLines s = filter (\<lambda>(n, l). trim_space l \<noteq> [])
     (let ls = split_on LF (filter (\<lambda>c. c \<noteq> CR) s) in zip [1..<length ls + 1] ls)"

definition lineOf :: "(nat \<times> string) list \<Rightarrow> nat \<Rightarrow> nat" where
  "lineOf lines i = (if i < length lines then fst (lines ! i) else if lines \<noteq> [] then fst (last lines) + 1 else 1)"

fun common_lines :: "(nat \<times> string) list \<Rightarrow> (nat \<times> string) list \<Rightarrow> nat" where
  "common_lines ((n, a) # as) ((m, b) # bs) = (if a = b then Suc (common_lines as bs) else 0)"
| "common_lines as bs = 0"

definition shown_lines :: "string \<Rightarrow> nat \<Rightarrow> (nat \<times> string) list \<Rightarrow> string" where
  "shown_lines name i lines =
     [LF] @ name @ '', from line '' @ nat_digits (lineOf lines i) @ '':'' @ [LF] @
     concat (map (\<lambda>j. (if j = i then ''> '' else ''  '') @ snd (lines ! j) @ [LF]) [i - 3..<min (i + 8) (length lines)])"

definition sql_Describe :: "(string \<Rightarrow> string option) \<Rightarrow> string \<Rightarrow> sql_record \<Rightarrow> string" where
  "sql_Describe reads f s =
     (case find (\<lambda>c. qc_file c = f) (rs_cases s) of
        None \<Rightarrow> []
      | Some c \<Rightarrow>
          if \<not> qc_ran c \<and> qc_shouldRun c then []
          else (let result = path_join [qc_caseDir c, qc_name c @ ''.result''] in
            f @ [LF, LF] @ ''answer: '' @ qc_answer c @ [LF] @ ''result: '' @ result @ [LF, LF] @
            (if \<not> qc_shouldRun c then ''not run: it has no answer, and CQT counts that as a failure'' @ [LF]
             else if qc_ok c then ''OK in '' @ itoa (qc_ms c) @ '' ms'' @ [LF]
             else ''NOK in '' @ itoa (qc_ms c) @ '' ms'' @ [LF] @
               (case (reads (qc_answer c), reads result) of
                  (Some want, Some got) \<Rightarrow>
                    (let a = nonBlankLines want; r = nonBlankLines got; i = common_lines a r in
                     if i = length a \<and> i = length r
                     then [LF] @ ''the two differ only in line breaks, which CQT removes before comparing'' @ [LF]
                     else [LF] @ ''first difference:'' @ [LF] @ shown_lines ''answer'' i a @ shown_lines ''result'' i r)
                | _ \<Rightarrow> [LF] @ ''(cannot read both)'' @ [LF]))))"

end
