(* ===== verification/Sql_Run.thy ===== *)
theory Sql_Run
  imports Sql_Record
begin

text \<open>
  Running the cases of the SQL suite: the protocol with the executor (\<open>executor.go\<close> in
  \<open>internal/runner/sqlsuite\<close>) and a slot's loop (\<open>worker.go\<close>). The executor process is a parameter: what it
  writes after it was sent a line, or that it can no longer be written to. What it wrote and nobody has
  read is part of the state; after that comes the end of the stream. Its last words on standard error
  are not modelled.
\<close>

subsection \<open>The protocol\<close>

type_synonym 'p peer = "string \<Rightarrow> 'p \<Rightarrow> (string \<times> 'p) option"

record 'p jdbc =
  jd_out :: string
  jd_peer :: 'p

datatype ask_error = BadPath string | ExecutorGone string | ExecutorSaid string

definition executor_gone :: "ask_error \<Rightarrow> bool" where
  "executor_gone e = (case e of ExecutorGone w \<Rightarrow> True | _ \<Rightarrow> False)"

text \<open>Reading the first line of a stream, and the body that follows it.\<close>

definition next_line :: "string \<Rightarrow> (string \<times> string) option" where
  "next_line s = (case cut_at LF s of (line, rest, ok) \<Rightarrow> if ok then Some (line, rest) else None)"

definition read_body :: "string \<Rightarrow> string \<Rightarrow> string \<Rightarrow> string \<Rightarrow> (ask_error + string \<times> int) \<times> string" where
  "read_body line len ms rest =
     (case (atoi len, atoi ms) of
        (Some n, Some t) \<Rightarrow>
          if n < 0 then (Inl (ExecutorSaid line), rest)
          else if length rest < nat n then (Inl (ExecutorGone ''mid-result''), [])
          else (Inr (take (nat n) rest, t), drop (nat n) rest)
      | _ \<Rightarrow> (Inl (ExecutorSaid line), rest))"

definition read_reply :: "string \<Rightarrow> (ask_error + string \<times> int) \<times> string" where
  "read_reply s =
     (case next_line s of
        None \<Rightarrow> (Inl (ExecutorGone ''EOF''), [])
      | Some (line, rest) \<Rightarrow>
          if has_prefix line ''E '' then (Inl (ExecutorSaid (drop 2 line)), rest)
          else (case go_fields (trim_prefix line ''R '') of
              [len, ms] \<Rightarrow> if \<not> has_prefix line ''R '' then (Inl (ExecutorGone line), rest) else read_body line len ms rest
            | _ \<Rightarrow> (Inl (ExecutorGone line), rest)))"

definition jdbc_ask :: "'p peer \<Rightarrow> string \<Rightarrow> string \<Rightarrow> 'p jdbc \<Rightarrow> (ask_error + string \<times> int) \<times> 'p jdbc" where
  "jdbc_ask peer verb f x =
     (if CR \<in> set f \<or> LF \<in> set f then (Inl (BadPath f), x)
      else (case peer (verb @ '' '' @ f @ [LF]) (jd_peer x) of
          None \<Rightarrow> (Inl (ExecutorGone ''write''), x)
        | Some (o', p) \<Rightarrow>
            (case read_reply (jd_out x @ o') of (r, rest) \<Rightarrow> (r, x\<lparr>jd_out := rest, jd_peer := p\<rparr>))))"

definition jdbc_Run :: "'p peer \<Rightarrow> string \<Rightarrow> 'p jdbc \<Rightarrow> (ask_error + string \<times> int) \<times> 'p jdbc" where
  "jdbc_Run peer = jdbc_ask peer ''X''"

definition jdbc_Failure :: "'p peer \<Rightarrow> string \<Rightarrow> 'p jdbc \<Rightarrow> string \<times> 'p jdbc" where
  "jdbc_Failure peer f x = (case jdbc_ask peer ''F'' f x of (Inl e, x') \<Rightarrow> ([], x') | (Inr (t, ms), x') \<Rightarrow> (t, x'))"

text \<open>What it says when it is ready: how many cases it found, and what was printed while it started.\<close>

definition attach :: "string \<Rightarrow> (ask_error + int \<times> string list) \<times> string" where
  "attach s =
     (case next_line s of
        None \<Rightarrow> (Inl (ExecutorSaid ''did not start''), [])
      | Some (line0, rest) \<Rightarrow>
          (let line = trim_space line0; ready = has_prefix line ''READY '' in
           case go_fields (if ready then drop 6 line else line) of
             [n, len] \<Rightarrow>
               if \<not> ready then (Inl (ExecutorSaid line), rest)
               else (case (atoi len, atoi n) of
                   (Some k, Some found) \<Rightarrow>
                     if k < 0 then (Inl (ExecutorSaid line), rest)
                     else if length rest < nat k then (Inl (ExecutorSaid ''did not start''), [])
                     else (let said = take (nat k) rest in
                       (Inr (found, if said = [] then [] else split_on LF (trim_suffix said [LF])), drop (nat k) rest))
                 | _ \<Rightarrow> (Inl (ExecutorSaid line), rest))
           | _ \<Rightarrow> (Inl (ExecutorSaid line), rest)))"

definition javaOptions :: "int \<Rightarrow> string" where
  "javaOptions places =
     (if places = 1 then ''-Xms1024m -XX:+UseParallelGC''
      else ''-Xms256m -Xmx1g -XX:+UseParallelGC -XX:ParallelGCThreads=2 -Dtestkit.follow_order=true'')"

subsection \<open>A slot's loop\<close>

record 'm sql_env =
  se_name :: string
  se_ch :: "'m sh_channel"
  se_run :: "string \<Rightarrow> 'm \<Rightarrow> (ask_error + string \<times> int) \<times> 'm"
  se_answers :: "(string \<times> string) list"
  se_files :: "'m \<Rightarrow> sql_files"
  se_total :: nat
  se_cubrid :: string
  se_backup :: string
  se_now :: "'m \<Rightarrow> string"
  se_took :: "'m \<Rightarrow> 'm \<Rightarrow> int"

record ('m, 'e) sql_worker =
  sw_m :: 'm
  sw_queue :: "'e queue"
  sw_rec :: sql_record
  sw_started :: nat
  sw_cores :: "string list"
  sw_crashes :: "string list"
  sw_page :: "page_note list"
  sw_meter :: "(string \<times> string \<times> int \<times> bool) list"

datatype sql_stop = Stopped ask_error | Unrecorded record_error

definition ask_text :: "ask_error \<Rightarrow> string" where
  "ask_text e = (case e of
     BadPath f \<Rightarrow> ''a case path cannot hold a line break: '' @ f
   | ExecutorGone w \<Rightarrow> ''the sql executor is gone'' @ w
   | ExecutorSaid w \<Rightarrow> ''the sql executor: '' @ w)"

definition core_file :: "string \<Rightarrow> string list \<times> string list \<Rightarrow> string list \<times> string list" where
  "core_file path st =
     (case st of (found, seen) \<Rightarrow>
        if path = [] \<or> path \<in> set seen then st
        else if trim_of ''0123456789'' (fst (snd (cut_at (CHR ''.'') (path_base path)))) \<noteq> [] then st
        else (found @ [path], path # seen))"

definition newCores :: "'m sh_channel \<Rightarrow> string list \<Rightarrow> 'm \<Rightarrow> string list \<times> string list \<times> 'm" where
  "newCores ch seen m =
     (case ch (''find '' @ [quot] @ ''$CUBRID'' @ [quot] @ '' -type f -iname '' @ [SQUOTE] @ ''core.*'' @ [SQUOTE] @ '' 2>/dev/null'') m of
        (Inl e, m1) \<Rightarrow> ([], seen, m1)
      | (Inr r, m1) \<Rightarrow>
          (case fold core_file (split_on LF (trim_space (sh_out r))) ([], seen) of (found, seen') \<Rightarrow> (found, seen', m1)))"

fun analyze_all :: "'m sh_channel \<Rightarrow> string list \<Rightarrow> 'm \<Rightarrow> stack list \<times> 'm" where
  "analyze_all ch [] m = ([], m)"
| "analyze_all ch (c # cs) m =
     (case Analyze ch c m of (r, m1) \<Rightarrow>
       (case analyze_all ch cs m1 of (ss, m2) \<Rightarrow> ((case r of Inl e \<Rightarrow> ss | Inr s \<Rightarrow> s # ss), m2)))"

definition coreErr :: "'m sql_env \<Rightarrow> string \<Rightarrow> string list \<Rightarrow> ('m, 'e) sql_worker \<Rightarrow> ('m, 'e) sql_worker" where
  "coreErr se f cores w =
     (case find (\<lambda>c. qc_file c = f) (rs_cases (sw_rec w)) of
        None \<Rightarrow> w
      | Some rc \<Rightarrow>
          (case analyze_all (se_ch se) cores (sw_m w) of (stacks, m) \<Rightarrow>
            (let at = (if se_backup se = [] then se_cubrid se else path_join [se_backup se, rs_testID (sw_rec w)]);
                 path = path_join [qc_bottom rc, trim_suffix (path_base f) ''.sql'' @ ''.err'']
             in if stacks = [] \<or> \<not> fs_writes (se_files se m) path then w\<lparr>sw_m := m\<rparr>
                else w\<lparr>sw_m := m, sw_rec := sql_file path (stack_Report at stacks) (sw_rec w)\<rparr>)))"

text \<open>The executor's answer to a case: gone, or the outcome so far.\<close>

definition executed :: "'m sql_env \<Rightarrow> string \<Rightarrow> sql_outcome \<Rightarrow> 'm \<Rightarrow> (ask_error + sql_outcome) \<times> 'm" where
  "executed se answer c m =
     (case se_run se (qo_File c) m of (rr, m1) \<Rightarrow>
       ((case rr of
           Inl e \<Rightarrow> if executor_gone e then Inl e else Inr (c\<lparr>qo_Err := Some (ask_text e)\<rparr>)
         | Inr (rendered, ms) \<Rightarrow>
             (case fs_reads (se_files se m1) answer of
                None \<Rightarrow> Inr (c\<lparr>qo_Err := Some (''open '' @ answer)\<rparr>)
              | Some want \<Rightarrow> Inr (c\<lparr>qo_Rendered := Some rendered, qo_Ms := ms, qo_OK := matches rendered want\<rparr>))), m1))"

definition with_cores :: "'m sql_env \<Rightarrow> sql_outcome \<Rightarrow> ('m, 'e) sql_worker \<Rightarrow> sql_outcome \<times> ('m, 'e) sql_worker" where
  "with_cores se c w =
     (if qo_OK c \<and> qo_Err c = None then (c, w)
      else (case newCores (se_ch se) (sw_cores w) (sw_m w) of (found, seen, m) \<Rightarrow>
        (let w1 = w\<lparr>sw_m := m, sw_cores := seen\<rparr> in
         if found = [] then (c, w1) else (c\<lparr>qo_HasCore := True\<rparr>, coreErr se (qo_File c) found w1))))"

definition crashed :: "crash \<Rightarrow> sql_outcome \<Rightarrow> sql_outcome" where
  "crashed cr c =
     c\<lparr>qo_OK := False, qo_HasCore := True,
       qo_Err := (case qo_Err c of None \<Rightarrow> Some (''the server left a crash report: '' @ crash_String cr) | Some e \<Rightarrow> Some e)\<rparr>"

definition with_crashes :: "'m sql_env \<Rightarrow> sql_outcome \<Rightarrow> ('m, 'e) sql_worker \<Rightarrow> sql_outcome \<times> ('m, 'e) sql_worker" where
  "with_crashes se c w =
     (case Crashes (se_ch se) (se_cubrid se) (sw_crashes w) (sw_m w) of (crs, seen, m) \<Rightarrow>
        (fold crashed crs c,
         w\<lparr>sw_crashes := seen,
           sw_m := fold (\<lambda>cr m. snd (Keep_report (se_ch se) cr (path_join [rs_dir (sw_rec w), ''crash'']) (qo_File c) m)) crs m\<rparr>))"

definition sql_finish :: "ticket \<Rightarrow> ('m, 'e) sql_worker \<Rightarrow> ('m, 'e) sql_worker" where
  "sql_finish t w = w\<lparr>sw_queue := fst (Complete t True False (sw_queue w))\<rparr>"

definition sql_case_dir :: "string \<Rightarrow> string" where "sql_case_dir f = path_dir (path_dir f)"

definition sql_settle :: "'m sql_env \<Rightarrow> ticket \<Rightarrow> 'm \<Rightarrow> sql_outcome \<Rightarrow> ('m, 'e) sql_worker \<Rightarrow> sql_stop option \<times> ('m, 'e) sql_worker" where
  "sql_settle se t m0 c w =
     (case sql_Case (se_files se (sw_m w)) c (sw_rec w) of
        (Some e, r) \<Rightarrow> (Some (Unrecorded e), sql_finish t (w\<lparr>sw_rec := r\<rparr>))
      | (None, r) \<Rightarrow>
          (None, sql_finish t (w\<lparr>sw_rec := r,
             sw_meter := sw_meter w @ [(t_case t, sql_case_dir (t_case t), se_took se m0 (sw_m w), qo_Err c = None)],
             sw_page := sw_page w @ [Live (t_case t) [], End (t_case t) (qo_Ran c \<and> qo_OK c \<and> qo_Err c = None)]\<rparr>)))"

definition sql_one :: "'m sql_env \<Rightarrow> ticket \<Rightarrow> ('m, 'e) sql_worker \<Rightarrow> sql_stop option \<times> ('m, 'e) sql_worker" where
  "sql_one se t w0 =
     (let f = t_case t;
          c0 = \<lparr>qo_File = f, qo_Index = sw_started w0 + 1, qo_Total = se_total se, qo_Start = se_now se (sw_m w0), qo_Ran = False,
            qo_OK = False, qo_Ms = 0, qo_Rendered = None, qo_Err = None, qo_HasCore = False\<rparr>;
          w1 = w0\<lparr>sw_started := sw_started w0 + 1, sw_rec := sql_Starting c0 (sw_rec w0), sw_page := sw_page w0 @ [Begin f, Live f f]\<rparr>
      in case map_of (se_answers se) f of
           None \<Rightarrow> sql_settle se t (sw_m w0) c0 w1
         | Some answer \<Rightarrow>
             (case executed se answer (c0\<lparr>qo_Ran := True\<rparr>) (sw_m w1) of
                (Inl e, m1) \<Rightarrow> (Some (Stopped e), sql_finish t (w1\<lparr>sw_m := m1\<rparr>))
              | (Inr c1, m1) \<Rightarrow>
                  (case with_cores se c1 (w1\<lparr>sw_m := m1\<rparr>) of (c2, w2) \<Rightarrow>
                    (case with_crashes se c2 w2 of (c3, w3) \<Rightarrow> sql_settle se t (sw_m w0) c3 w3))))"

fun sql_loop :: "'m sql_env \<Rightarrow> 'e list \<Rightarrow> ('m, 'e) sql_worker \<Rightarrow> sql_stop option \<times> ('m, 'e) sql_worker" where
  "sql_loop se [] w = (None, w)"
| "sql_loop se (e # es) w =
     (case claimOnce e (se_name se) LaneAny (sw_queue w) of
        (q, Got t) \<Rightarrow>
          (case sql_one se t (w\<lparr>sw_queue := q\<rparr>) of
             (None, w1) \<Rightarrow> sql_loop se es w1
           | (Some x, w1) \<Rightarrow> (Some x, w1))
      | (q, Again) \<Rightarrow> sql_loop se es (w\<lparr>sw_queue := q\<rparr>)
      | (q, Over) \<Rightarrow> (None, w\<lparr>sw_queue := q\<rparr>))"

end
