(* ===== verification/Sql_Claims.thy ===== *)
theory Sql_Claims
  imports Sql_Run
begin

text \<open>
  What a SQL run may rely on: the answers of the executor stay with the cases they were asked for, a
  rendering is compared as text, a passed case was answered as its answer file says and left no crash, and
  the cases are those of the corpus.
\<close>

subsection \<open>The protocol\<close>

text \<open>A reply as the executor writes it.\<close>

definition reply_text :: "string + string \<times> int \<Rightarrow> string" where
  "reply_text r = (case r of
     Inl msg \<Rightarrow> ''E '' @ msg @ [LF]
   | Inr (body, ms) \<Rightarrow> ''R '' @ itoa (int (length body)) @ '' '' @ itoa ms @ [LF] @ body)"

definition reply_ok :: "string + string \<times> int \<Rightarrow> bool" where
  "reply_ok r \<longleftrightarrow> (case r of Inl msg \<Rightarrow> LF \<notin> set msg | Inr (body, ms) \<Rightarrow> int (length body) \<le> int_hi \<and> in_int ms)"

definition as_answer :: "string + string \<times> int \<Rightarrow> ask_error + string \<times> int" where
  "as_answer r = (case r of Inl msg \<Rightarrow> Inl (ExecutorSaid msg) | Inr a \<Rightarrow> Inr a)"

lemma itoa_no_space: "graphic (hd (itoa n)) \<and> (\<forall>c \<in> set (itoa n). graphic c) \<and> LF \<notin> set (itoa n)"
proof -
  have "\<forall>c \<in> set (itoa n). graphic c" using itoa_graphic by blast
  moreover have "\<not> graphic LF" by (simp add: LF_def graphic_def char_nat_def)
  moreover have "hd (itoa n) \<in> set (itoa n)" by simp
  ultimately show ?thesis by blast
qed

lemma two_fields: "go_fields (itoa a @ '' '' @ itoa b) = [itoa a, itoa b]"
proof -
  have "go_fields (join_with '' '' [itoa a, itoa b] @ []) = [itoa a, itoa b] @ go_fields []"
    by (rule go_fields_join) (use itoa_no_space in auto)
  then show ?thesis by (simp add: go_fields_Nil)
qed

lemma read_one_reply:
  assumes "reply_ok r"
  shows "read_reply (reply_text r @ s) = (as_answer r, s)"
proof (cases r)
  case (Inl msg)
  have "cut_at LF ((''E '' @ msg) @ LF # s) = (''E '' @ msg, s, True)"
    by (rule cut_at_append) (use assms Inl in \<open>simp add: reply_ok_def LF_def\<close>)
  then show ?thesis by (simp add: Inl read_reply_def next_line_def reply_text_def as_answer_def)
next
  case (Inr a)
  obtain body ms where a: "a = (body, ms)" by (cases a)
  let ?n = "int (length body)"
  let ?l = "''R '' @ itoa ?n @ '' '' @ itoa ms"
  have n: "in_int ?n" "in_int ms" using assms by (simp_all add: Inr a reply_ok_def in_int_def int_lo_def)
  have "cut_at LF (?l @ LF # body @ s) = (?l, body @ s, True)"
    by (rule cut_at_append) (use itoa_no_space [of ?n] itoa_no_space [of ms] in \<open>simp add: LF_def\<close>)
  then have l: "next_line (reply_text r @ s) = Some (?l, body @ s)"
    by (simp add: next_line_def reply_text_def Inr a)
  have f: "go_fields (trim_prefix ?l ''R '') = [itoa ?n, itoa ms]" using two_fields [of ?n ms] by (simp add: trim_prefix_def)
  have "read_reply (reply_text r @ s) = read_body ?l (itoa ?n) (itoa ms) (body @ s)"
    unfolding read_reply_def l using f by simp
  then show ?thesis using n by (simp add: read_body_def atoi_itoa Inr a as_answer_def)
qed

fun run_all :: "('a \<Rightarrow> 's \<Rightarrow> 'r \<times> 's) \<Rightarrow> 'a list \<Rightarrow> 's \<Rightarrow> 'r list \<times> 's" where
  "run_all run [] s = ([], s)"
| "run_all run (f # fs) s =
     (case run f s of (r, s1) \<Rightarrow> (case run_all run fs s1 of (rs, s2) \<Rightarrow> (r # rs, s2)))"

text \<open>What the process says to each of the lines it is sent.\<close>

fun spoken :: "(string \<Rightarrow> 'p \<Rightarrow> 'r) \<Rightarrow> (string \<Rightarrow> 'p \<Rightarrow> 'p) \<Rightarrow> string list \<Rightarrow> 'p \<Rightarrow> 'r list" where
  "spoken says goes [] p = []"
| "spoken says goes (l # ls) p = says l p # spoken says goes ls (goes l p)"

definition plain_path :: "string \<Rightarrow> bool" where
  "plain_path f \<longleftrightarrow> CR \<notin> set f \<and> LF \<notin> set f"

definition run_line :: "string \<Rightarrow> string" where
  "run_line f = ''X '' @ f @ [LF]"

lemma run_in_step:
  assumes "peer (run_line f) (jd_peer x) = Some (reply_text r, p)" "reply_ok r" "jd_out x = []" "plain_path f"
  shows "jdbc_Run peer f x = (as_answer r, x\<lparr>jd_peer := p\<rparr>)"
  using assms read_one_reply [of r "[]"]
  by (cases x) (simp add: jdbc_Run_def jdbc_ask_def run_line_def plain_path_def)

text \<open>
  C25: An executor that writes one whole reply to each line is read in step: every case gets the rendering
  written for it, whatever bytes the renderings hold, and nothing is left over for the next.
\<close>

theorem replies_stay_in_step:
  assumes "\<forall>l p. peer l p = Some (reply_text (says l p), goes l p) \<and> reply_ok (says l p)"
    and "jd_out x = []" "\<forall>f \<in> set fs. plain_path f"
  shows "fst (run_all (jdbc_Run peer) fs x) = map as_answer (spoken says goes (map run_line fs) (jd_peer x)) \<and>
    jd_out (snd (run_all (jdbc_Run peer) fs x)) = []"
  using assms(2,3)
proof (induction fs arbitrary: x)
  case (Cons f fs)
  have "jdbc_Run peer f x = (as_answer (says (run_line f) (jd_peer x)), x\<lparr>jd_peer := goes (run_line f) (jd_peer x)\<rparr>)"
    by (rule run_in_step) (use assms(1) Cons.prems in auto)
  then show ?case using Cons.IH [of "x\<lparr>jd_peer := goes (run_line f) (jd_peer x)\<rparr>"] Cons.prems by (simp add: split_def)
qed simp

theorem replies_stay_in_step_witness:
  "fst (run_all (jdbc_Run (\<lambda>l p. Some (reply_text (Inr (''R 1 2'' @ [LF], 7)), p))) [''a.sql'', ''b.sql''] \<lparr>jd_out = [], jd_peer = ()\<rparr>) =
     [Inr (''R 1 2'' @ [LF], 7), Inr (''R 1 2'' @ [LF], 7)]"
proof -
  have ok: "reply_ok (Inr (''R 1 2'' @ [LF], 7))" by (simp add: reply_ok_def in_int_def int_lo_def int_hi_def)
  have "\<forall>f \<in> set [''a.sql'', ''b.sql'']. plain_path f" by (simp add: plain_path_def LF_def CR_def)
  from replies_stay_in_step [where says = "\<lambda>l p. Inr (''R 1 2'' @ [LF], 7)" and goes = "\<lambda>l p. p" and x = "\<lparr>jd_out = [], jd_peer = ()\<rparr>", OF _ _ this] ok
  show ?thesis by (simp add: as_answer_def del: run_all.simps)
qed

text \<open>
  A line that begins as a reply but gives no sizes is an error of the case and not the end of the
  executor: what was written behind it is then read as the answer to the next case.
\<close>

lemma garbled_reply_shifts:
  "read_reply (''R x 1'' @ [LF] @ ''R 2 5'' @ [LF] @ ''ok'' @ s) = (Inl (ExecutorSaid ''R x 1''), ''R 2 5'' @ [LF] @ ''ok'' @ s)"
proof -
  have "cut_at LF (''R x 1'' @ LF # ''R 2 5'' @ LF # ''ok'' @ s) = (''R x 1'', ''R 2 5'' @ LF # ''ok'' @ s, True)"
    by (rule cut_at_append) (simp add: LF_def)
  moreover have "go_fields ''x 1'' = [''x'', ''1'']"
    using go_fields_join [of "[''x'', ''1'']" "[]"] by (simp add: go_fields_Nil graphic_def char_nat_def)
  moreover have "atoi ''x'' = None" by (simp add: atoi_def all_digits_def is_digit_def char_nat_def)
  ultimately show ?thesis by (simp add: read_reply_def next_line_def trim_prefix_def read_body_def)
qed

subsection \<open>Comparing as text\<close>

definition utf8_rune :: "nat \<Rightarrow> string" where
  "utf8_rune n = map char_of
     (if n < 128 then [n]
      else if n < 2048 then [192 + n div 64, 128 + n mod 64]
      else if n < 65536 then [224 + n div 4096, 128 + n div 64 mod 64, 128 + n mod 64]
      else [240 + n div 262144, 128 + n div 4096 mod 64, 128 + n div 64 mod 64, 128 + n mod 64])"

text \<open>What an answer is once it was read into a Java string and written out again.\<close>

definition java_text :: "string \<Rightarrow> string" where
  "java_text b = concat (map utf8_rune (runes (map byte_of b)))"

lemma base64: "(y :: nat) < 64 \<Longrightarrow> (x * 64 + y) div 64 = x" "y < 64 \<Longrightarrow> (x * 64 + y) mod 64 = y"
  by simp_all

lemma div_64: "(n :: nat) div 4096 = n div 64 div 64" "n div 262144 = n div 64 div 64 div 64"
  using div_mult2_eq [of n 64 64] div_mult2_eq [of n 4096 64] by simp_all

lemma two_bytes:
  assumes "194 \<le> (a :: nat)" "a \<le> 223" "cont 128 191 b"
  shows "utf8_rune ((a - 192) * 64 + (b - 128)) = map char_of [a, b]"
proof -
  define x y where "x = a - 192" and "y = b - 128"
  have r: "a = 192 + x" "b = 128 + y" "2 \<le> x" "x < 32" "y < 64"
    using assms by (auto simp: x_def y_def cont_def)
  show ?thesis using r base64 [of y x] by (simp add: utf8_rune_def)
qed

lemma base64_3:
  assumes "(n :: nat) = (x * 64 + y) * 64 + z" "y < 64" "z < 64"
  shows "n div 64 = x * 64 + y" "n mod 64 = z" "n div 4096 = x" "n div 64 mod 64 = y"
proof -
  show d: "n div 64 = x * 64 + y" "n mod 64 = z" unfolding assms(1) by (rule base64 [OF assms(3)])+
  show "n div 4096 = x" "n div 64 mod 64 = y" unfolding div_64 d by (rule base64 [OF assms(2)])+
qed

lemma three_bytes:
  assumes "224 \<le> (a :: nat)" "a \<le> 239" "cont (if a = 224 then 160 else 128) hi b" "hi \<le> 191" "cont 128 191 c"
    and "n = (a - 224) * 4096 + (b - 128) * 64 + (c - 128)"
  shows "utf8_rune n = map char_of [a, b, c]"
proof -
  define x y z where "x = a - 224" and "y = b - 128" and "z = c - 128"
  have r: "a = 224 + x" "b = 128 + y" "c = 128 + z" "x < 16" "y < 64" "z < 64" "x = 0 \<longrightarrow> 32 \<le> y"
    using assms(1-5) by (auto simp: x_def y_def z_def cont_def split: if_splits)
  have n: "n = (x * 64 + y) * 64 + z" unfolding assms(6) x_def y_def z_def by simp
  have "\<not> n < 128" "\<not> n < 2048" "n < 65536" using r(4-7) unfolding n by auto
  then show ?thesis using base64_3 [OF n r(5,6)] r(1-3) unfolding utf8_rune_def by simp
qed

lemma four_bytes:
  assumes "240 \<le> (a :: nat)" "a \<le> 244" "cont (if a = 240 then 144 else 128) hi b" "hi \<le> 191" "cont 128 191 c" "cont 128 191 d"
    and "n = (a - 240) * 262144 + (b - 128) * 4096 + (c - 128) * 64 + (d - 128)"
  shows "utf8_rune n = map char_of [a, b, c, d]"
proof -
  define x y z u where "x = a - 240" and "y = b - 128" and "z = c - 128" and "u = d - 128"
  have r: "a = 240 + x" "b = 128 + y" "c = 128 + z" "d = 128 + u" "x < 16" "y < 64" "z < 64" "u < 64" "x = 0 \<longrightarrow> 16 \<le> y"
    using assms(1-6) by (auto simp: x_def y_def z_def u_def cont_def split: if_splits)
  have n: "n = ((x * 64 + y) * 64 + z) * 64 + u" unfolding assms(7) x_def y_def z_def u_def by simp
  have "\<not> n < 128" "\<not> n < 2048" "\<not> n < 65536" using r(5-9) unfolding n by auto
  moreover have "n div 262144 = x" "n div 4096 mod 64 = y"
    unfolding div_64 base64_3(1) [OF n r(7,8)] using base64 [OF r(7), of "x * 64 + y"] base64 [OF r(6), of x] by simp_all
  ultimately show ?thesis using base64_3(2,4) [OF n r(7,8)] r(1-4) unfolding utf8_rune_def by simp
qed

lemma bytes_back: "map char_of (map byte_of b) = b"
  by (simp add: byte_of_def char_nat_def map_idI)

lemma rune_back:
  assumes "b \<noteq> []"
  shows "utf8_rune (fst (next_rune (map byte_of b))) =
    (if bad_rune b then replacement else take (snd (next_rune (map byte_of b))) b)"
proof -
  let ?bs = "map byte_of b"
  have "next_rune ?bs = (65533, 1) \<or>
      utf8_rune (fst (next_rune ?bs)) = map char_of (take (snd (next_rune ?bs)) ?bs)"
  proof -
    obtain a r where bs: "?bs = a # r" using assms by (cases b) auto
    have other: "next_rune ?bs = (65533, 1)"
      if "\<not> a < 128" "\<not> (194 \<le> a \<and> a \<le> 223)" "\<not> (224 \<le> a \<and> a \<le> 239)" "\<not> (240 \<le> a \<and> a \<le> 244)"
      using that unfolding bs next_rune_def list.case by (simp only: if_False)
    consider "a < 128" | "194 \<le> a" "a \<le> 223" | "224 \<le> a" "a \<le> 239" | "240 \<le> a" "a \<le> 244"
      | "next_rune ?bs = (65533, 1)"
      using other by blast
    then show ?thesis
    proof cases
      case 1
      then show ?thesis unfolding bs next_rune_def by (simp add: utf8_rune_def)
    next
      case 2
      show ?thesis
      proof (cases r)
        case (Cons b1 r1)
        then show ?thesis using 2 two_bytes [OF 2, of b1] unfolding bs next_rune_def by simp
      qed (use 2 in \<open>simp add: bs next_rune_def\<close>)
    next
      case 3
      show ?thesis
      proof (cases "\<exists>b1 b2 r2. r = b1 # b2 # r2")
        case True
        then obtain b1 b2 r2 where r: "r = b1 # b2 # r2" by blast
        show ?thesis using 3 three_bytes [OF 3, of "if a = 237 then 159 else 191" b1 b2, OF _ _ _ refl]
          unfolding bs r next_rune_def by simp
      qed (use 3 in \<open>auto simp: bs next_rune_def split: list.split\<close>)
    next
      case 4
      show ?thesis
      proof (cases "\<exists>b1 b2 b3 r3. r = b1 # b2 # b3 # r3")
        case True
        then obtain b1 b2 b3 r3 where r: "r = b1 # b2 # b3 # r3" by blast
        show ?thesis using 4 four_bytes [OF 4, of "if a = 244 then 143 else 191" b1 b2 b3, OF _ _ _ _ refl]
          unfolding bs r next_rune_def by simp
      qed (use 4 in \<open>auto simp: bs next_rune_def split: list.split\<close>)
    next
      case 5
      then show ?thesis by simp
    qed
  qed
  moreover have "utf8_rune 65533 = replacement" by (simp add: utf8_rune_def replacement_def)
  moreover have "map char_of (take n ?bs) = take n b" for n by (metis bytes_back take_map)
  ultimately show ?thesis by (auto simp: bad_rune_def)
qed

lemma loop_is_text: "java_loop b = java_text b"
proof (induction b rule: java_loop.induct)
  case (1 b)
  show ?case
  proof (cases "b = []")
    case True
    then show ?thesis by (simp add: java_loop.simps java_text_def runes.simps)
  next
    case False
    let ?n = "snd (next_rune (map byte_of b))"
    have "runes (map byte_of b) = fst (next_rune (map byte_of b)) # runes (map byte_of (drop ?n b))"
      using False by (subst runes.simps) (simp add: drop_map)
    then show ?thesis using 1 [OF False refl] rune_back [OF False] False
      by (subst java_loop.simps) (simp add: java_text_def Let_def)
  qed
qed

lemma valid_is_kept: "valid_utf8 b \<Longrightarrow> java_loop b = b"
proof (induction b rule: valid_utf8.induct)
  case (1 b)
  show ?case
  proof (cases "b = []")
    case True
    then show ?thesis by (simp add: java_loop.simps)
  next
    case False
    have v: "\<not> bad_rune b" "valid_utf8 (drop (snd (next_rune (map byte_of b))) b)"
      using "1.prems" False by (subst (asm) valid_utf8.simps; simp split: if_splits)+
    then show ?thesis using 1(1) [OF False v(1) v(2)] False by (subst java_loop.simps) (simp add: Let_def)
  qed
qed

text \<open>
  C28: A rendering passes exactly when it is, line breaks aside, the text a Java program reads in the
  answer: its runes, with the replacement character for each byte that is not part of one.
\<close>

theorem verdict_compares_text:
  "matches rendered answer \<longleftrightarrow> stripBreaks rendered = stripBreaks (java_text answer)"
  using loop_is_text [of answer] valid_is_kept [of answer] by (simp add: matches_def asJavaReadsIt_def)

subsection \<open>What a verdict rests on\<close>

definition sql_recorded :: "string \<Rightarrow> sql_record \<Rightarrow> sql_case option" where
  "sql_recorded f s = find (\<lambda>rc. qc_file rc = f) (rs_cases s)"

lemma record_keeps [simp]:
  "rs_cases (sql_print x s) = rs_cases s" "rs_cases (sql_file p x s) = rs_cases s"
  "rs_cases (verdict_tail c rc prog s) = rs_cases s" "rs_cases (sql_Starting c s) = rs_cases s"
  by (simp_all add: sql_print_def sql_file_def verdict_tail_def sql_Starting_def Let_def split: option.splits)

lemma copies_keep [simp]: "rs_cases (snd (sql_copy fs a b s)) = rs_cases s" "rs_cases (snd (failure_copies fs rc s)) = rs_cases s"
proof -
  show *: "rs_cases (snd (sql_copy fs a b s)) = rs_cases s" for a b s
    by (auto simp: sql_copy_def split: option.splits)
  show "rs_cases (snd (failure_copies fs rc s)) = rs_cases s"
    using * by (auto simp: failure_copies_def Let_def split: prod.splits option.splits) (metis snd_conv)+
qed

lemma copies_keepD: "failure_copies fs rc s = (e, s') \<Longrightarrow> rs_cases s' = rs_cases s"
  by (metis copies_keep(2) snd_conv)

lemma find_judged:
  assumes "find (\<lambda>rc. qc_file rc = f) cs = Some rc0" "qc_file rc = f"
  shows "find (\<lambda>rc. qc_file rc = f) (map (\<lambda>c. if qc_file c = f then rc else c) cs) = Some rc"
  using assms by (induction cs) (auto split: if_splits)

lemma find_file: "find (\<lambda>rc. qc_file rc = f) cs = Some rc0 \<Longrightarrow> qc_file rc0 = f"
  by (metis (mono_tags, lifting) find_Some_iff)

lemma sql_Case_judges:
  assumes "sql_Case fs c s = (None, s')" "sql_recorded (qo_File c) s = Some rc0" "qc_shouldRun rc0"
  shows "sql_recorded (qo_File c) s' = Some (sql_judged c rc0)"
proof -
  let ?rc = "sql_judged c rc0"
  have f: "qc_file ?rc = qo_File c" "qc_file rc0 = qo_File c"
    using find_file assms(2) by (auto simp: sql_judged_def sql_recorded_def)
  have r: "sql_recorded (qo_File c) (put_case ?rc s) = Some ?rc"
    using find_judged [OF assms(2) [unfolded sql_recorded_def] f(1)] f(1) by (simp add: sql_recorded_def put_case_def)
  have "rs_cases s' = rs_cases (put_case ?rc s)"
    using assms(1)
    by (auto simp: sql_Case_def assms(2) [unfolded sql_recorded_def] assms(3) Let_def dest!: copies_keepD
      split: option.splits if_splits prod.splits)
  then show ?thesis using r by (simp add: sql_recorded_def)
qed

lemma coreErr_keeps: "rs_cases (sw_rec (coreErr se f cores w)) = rs_cases (sw_rec w)"
  by (simp add: coreErr_def Let_def split: option.splits prod.splits)

lemma with_cores_effect:
  assumes "with_cores se c w = (c', w')"
  shows "qo_File c' = qo_File c \<and> qo_OK c' = qo_OK c \<and> qo_Err c' = qo_Err c \<and> rs_cases (sw_rec w') = rs_cases (sw_rec w) \<and>
    (qo_OK c \<and> qo_Err c = None \<longrightarrow> w' = w)"
  using assms by (auto simp: with_cores_def coreErr_keeps Let_def split: if_splits prod.splits)

lemma crashes_effect:
  "qo_File (fold crashed crs c) = qo_File c"
  "qo_OK (fold crashed crs c) \<longleftrightarrow> qo_OK c \<and> crs = []"
  "qo_Err (fold crashed crs c) = None \<longleftrightarrow> qo_Err c = None \<and> crs = []"
  by (induction crs arbitrary: c) (auto simp: crashed_def split: option.splits)

lemma with_crashes_effect:
  assumes "with_crashes se c w = (c', w')"
  shows "qo_File c' = qo_File c \<and> rs_cases (sw_rec w') = rs_cases (sw_rec w) \<and>
    (qo_OK c' \<and> qo_Err c' = None \<longleftrightarrow>
       qo_OK c \<and> qo_Err c = None \<and> fst (Crashes (se_ch se) (se_cubrid se) (sw_crashes w) (sw_m w)) = [])"
  using assms crashes_effect by (auto simp: with_crashes_def split: prod.splits)

text \<open>What speaks for a case: a rendering of it, an answer that says the same, and no crash report.\<close>

definition answered_well :: "'m sql_env \<Rightarrow> string \<Rightarrow> string list \<Rightarrow> 'm \<Rightarrow> bool" where
  "answered_well se f crashes m \<longleftrightarrow>
     (\<exists>answer rendered ms m1 want. map_of (se_answers se) f = Some answer \<and> se_run se f m = (Inr (rendered, ms), m1) \<and>
        fs_reads (se_files se m1) answer = Some want \<and> stripBreaks rendered = stripBreaks (java_text want) \<and>
        fst (Crashes (se_ch se) (se_cubrid se) crashes m1) = [])"

lemma executed_well:
  assumes "executed se answer c m = (Inr c', m1)" "qo_Err c = None" "\<not> qo_OK c"
  shows "qo_File c' = qo_File c \<and> (qo_OK c' \<and> qo_Err c' = None \<longleftrightarrow>
    (\<exists>rendered ms want. se_run se (qo_File c) m = (Inr (rendered, ms), m1) \<and> fs_reads (se_files se m1) answer = Some want \<and>
       stripBreaks rendered = stripBreaks (java_text want)))"
  using assms loop_is_text valid_is_kept
  by (auto simp: executed_def matches_def asJavaReadsIt_def split: prod.splits sum.splits option.splits if_splits)

lemma settle_judges:
  assumes "sql_settle se t m0 c w = (None, w')" "qo_File c = t_case t" "sql_recorded (t_case t) (sw_rec w) = Some rc0" "qc_shouldRun rc0"
  shows "sql_recorded (t_case t) (sw_rec w') = Some (sql_judged c rc0)"
  using assms sql_Case_judges [of "se_files se (sw_m w)" c "sw_rec w" _ rc0]
  by (auto simp: sql_settle_def sql_finish_def split: prod.splits option.splits)

text \<open>
  C7: A case whose ticket was worked on is recorded as run, and as passed exactly if the executor rendered
  it, the rendering is the text of its answer file, and the server left no new crash report.
\<close>

theorem sql_verdict_has_evidence:
  assumes "sql_one se t w = (None, w')" "sql_recorded (t_case t) (sw_rec w) = Some rc0" "qc_shouldRun rc0"
  shows "\<exists>rc. sql_recorded (t_case t) (sw_rec w') = Some rc \<and> qc_ran rc \<and>
    (qc_ok rc \<longleftrightarrow> answered_well se (t_case t) (sw_crashes w) (sw_m w))"
proof -
  let ?c0 = "\<lparr>qo_File = t_case t, qo_Index = sw_started w + 1, qo_Total = se_total se, qo_Start = se_now se (sw_m w), qo_Ran = False,
    qo_OK = False, qo_Ms = 0, qo_Rendered = None, qo_Err = None, qo_HasCore = False\<rparr>"
  let ?w1 = "w\<lparr>sw_started := sw_started w + 1, sw_rec := sql_Starting ?c0 (sw_rec w), sw_page := sw_page w @ [Begin (t_case t), Live (t_case t) (t_case t)]\<rparr>"
  have r1: "sql_recorded (t_case t) (sw_rec ?w1) = Some rc0" using assms(2) by (simp add: sql_recorded_def)
  show ?thesis
  proof (cases "map_of (se_answers se) (t_case t)")
    case None
    have "sql_settle se t (sw_m w) ?c0 ?w1 = (None, w')" using assms(1) None by (simp add: sql_one_def Let_def)
    from settle_judges [OF this _ r1 assms(3)] show ?thesis
      using None by (auto simp: sql_judged_def answered_well_def)
  next
    case (Some answer)
    let ?c = "?c0\<lparr>qo_Ran := True\<rparr>"
    obtain c1 m1 where e: "executed se answer ?c (sw_m ?w1) = (Inr c1, m1)"
      using assms(1) Some by (auto simp: sql_one_def Let_def split: prod.splits sum.splits)
    obtain c2 w2 where k: "with_cores se c1 (?w1\<lparr>sw_m := m1\<rparr>) = (c2, w2)" by fastforce
    obtain c3 w3 where x: "with_crashes se c2 w2 = (c3, w3)" by fastforce
    have s: "sql_settle se t (sw_m w) c3 w3 = (None, w')" using assms(1) Some e k x by (simp add: sql_one_def Let_def)
    note E = executed_well [OF e] and K = with_cores_effect [OF k] and X = with_crashes_effect [OF x]
    have f: "qo_File c3 = t_case t" using E K X by simp
    have r3: "sql_recorded (t_case t) (sw_rec w3) = Some rc0" using r1 K X by (simp add: sql_recorded_def)
    have m: "sw_m ?w1 = sw_m w" "sw_crashes ?w1 = sw_crashes w" by simp_all
    have E': "qo_OK c1 \<and> qo_Err c1 = None \<longleftrightarrow>
        (\<exists>rendered ms want. se_run se (t_case t) (sw_m w) = (Inr (rendered, ms), m1) \<and>
           fs_reads (se_files se m1) answer = Some want \<and> stripBreaks rendered = stripBreaks (java_text want))"
      using E m by simp
    have X': "qo_OK c3 \<and> qo_Err c3 = None \<longleftrightarrow>
        qo_OK c1 \<and> qo_Err c1 = None \<and> fst (Crashes (se_ch se) (se_cubrid se) (sw_crashes w) m1) = []"
      using K X by auto
    have "qo_OK c3 \<and> qo_Err c3 = None \<longleftrightarrow> answered_well se (t_case t) (sw_crashes w) (sw_m w)"
    proof
      assume "qo_OK c3 \<and> qo_Err c3 = None"
      then show "answered_well se (t_case t) (sw_crashes w) (sw_m w)"
        using X' E' Some unfolding answered_well_def by blast
    next
      assume "answered_well se (t_case t) (sw_crashes w) (sw_m w)"
      then obtain rendered ms m2 want where a: "se_run se (t_case t) (sw_m w) = (Inr (rendered, ms), m2)"
        "fs_reads (se_files se m2) answer = Some want" "stripBreaks rendered = stripBreaks (java_text want)"
        "fst (Crashes (se_ch se) (se_cubrid se) (sw_crashes w) m2) = []"
        using Some unfolding answered_well_def by auto
      have "m2 = m1" using e a(1) m by (auto simp: executed_def split: prod.splits)
      then show "qo_OK c3 \<and> qo_Err c3 = None" using X' E' a by blast
    qed
    then show ?thesis using settle_judges [OF s f r3 assms(3)] by (auto simp: sql_judged_def)
  qed
qed

definition small_sql :: "unit sql_env" where
  "small_sql = \<lparr>se_name = ''slot0'', se_ch = \<lambda>script m. (Inl (CouldNotRun []), m), se_run = \<lambda>f m. (Inr (''1'' @ [LF], 3), m),
     se_answers = [(''/c/cases/a.sql'', ''/c/answers/a.answer'')],
     se_files = \<lambda>m. \<lparr>fs_here = \<lambda>p. False, fs_reads = \<lambda>p. Some ''1'', fs_writes = \<lambda>p. True, fs_answer_first = False\<rparr>, se_total = 1, se_cubrid = [],
     se_backup = [], se_now = \<lambda>m. [], se_took = \<lambda>m m'. 0\<rparr>"

definition small_sql_case :: sql_case where
  "small_sql_case = \<lparr>qc_file = ''/c/cases/a.sql'', qc_answer = ''/c/answers/a.answer'', qc_name = ''a'', qc_caseDir = ''/c/cases'',
     qc_bottom = ''/r/sql'', qc_shouldRun = True, qc_ran = False, qc_ok = False, qc_hasCore = False, qc_ms = 0\<rparr>"

definition small_sql_worker :: "(unit, unit) sql_worker" where
  "small_sql_worker = \<lparr>sw_m = (), sw_queue = New [''/c/cases/a.sql''] 0,
     sw_rec = \<lparr>rs_run = \<lparr>qr_Type = ''sql'', qr_Alias = ''sql'', qr_Bits = ''64'', qr_Build = [], qr_Scenario = ''/c/'', qr_Mode = [],
         qr_XMLSummary = False, qr_AnswerInSummary = False, qr_QueryPlanAll = False, qr_Cases = [''/c/cases/a.sql''], qr_Answers = se_answers small_sql, qr_Serial = True\<rparr>,
       rs_testID = ''t'', rs_dir = ''/r'', rs_cases = [small_sql_case], rs_cat = new_node, rs_xml = None, rs_out = [], rs_log = None,
       rs_files = []\<rparr>,
     sw_started = 0, sw_cores = [], sw_crashes = [], sw_page = [], sw_meter = []\<rparr>"

lemma small_sql_runs: "fst (sql_one small_sql \<lparr>t_case = ''/c/cases/a.sql'', t_retry = 0\<rparr> small_sql_worker) = None"
  by (simp add: sql_one_def small_sql_def small_sql_worker_def small_sql_case_def executed_def with_cores_def with_crashes_def
    Crashes_def sql_settle_def sql_Case_def newCores_def sql_Starting_def sql_print_def Let_def split: prod.splits)

theorem sql_verdict_has_evidence_witness:
  "\<exists>rc. sql_recorded ''/c/cases/a.sql'' (sw_rec (snd (sql_one small_sql \<lparr>t_case = ''/c/cases/a.sql'', t_retry = 0\<rparr> small_sql_worker))) = Some rc \<and>
     qc_ran rc \<and> (qc_ok rc \<longleftrightarrow> answered_well small_sql ''/c/cases/a.sql'' [] ())"
proof -
  let ?t = "\<lparr>t_case = ''/c/cases/a.sql'', t_retry = 0\<rparr>"
  have s: "sql_one small_sql ?t small_sql_worker = (None, snd (sql_one small_sql ?t small_sql_worker))"
    using small_sql_runs by (metis prod.collapse)
  have r: "sql_recorded (t_case ?t) (sw_rec small_sql_worker) = Some small_sql_case" "qc_shouldRun small_sql_case"
    by (simp_all add: sql_recorded_def small_sql_worker_def small_sql_case_def)
  show ?thesis using sql_verdict_has_evidence [OF s r] by (simp add: small_sql_worker_def)
qed

end
