(* ===== verification/Sql_Discover_Claims.thy ===== *)
theory Sql_Discover_Claims
  imports Sql_Suite
begin

text \<open>The cases of a SQL run are exactly those of the corpus the walk is meant to find, each once.\<close>

text \<open>The entries from a tree down to another, by their names; and trees whose names are names.\<close>

fun leads :: "ftree \<Rightarrow> string list \<Rightarrow> ftree \<Rightarrow> bool" where
  "leads t [] u \<longleftrightarrow> t = u"
| "leads (Dir es) (n # ns) u \<longleftrightarrow> (\<exists>t. (n, t) \<in> set es \<and> leads t ns u)"
| "leads (File k) (n # ns) u \<longleftrightarrow> False"

definition good_name :: "string \<Rightarrow> bool" where
  "good_name n \<longleftrightarrow> n \<noteq> [] \<and> CHR ''/'' \<notin> set n"

definition good_names :: "ftree \<Rightarrow> bool" where
  "good_names t \<longleftrightarrow> (\<forall>ns u. leads t ns u \<longrightarrow> (\<forall>n \<in> set ns. good_name n))"

lemma good_entry:
  assumes "good_names (Dir es)" "(n, t) \<in> set es"
  shows "good_name n" "good_names t"
proof -
  have "leads (Dir es) [n] t" using assms(2) by auto
  then show "good_name n" using assms(1) unfolding good_names_def by (metis list.set_intros(1))
  show "good_names t"
    unfolding good_names_def
  proof (intro allI impI)
    fix ns u assume "leads t ns u"
    then have "leads (Dir es) (n # ns) u" using assms(2) by auto
    then show "\<forall>m \<in> set ns. good_name m" using assms(1) unfolding good_names_def by (metis list.set_intros(2))
  qed
qed

definition answers_dir :: string where "answers_dir = ''/answers/''"

lemma walked_child:
  assumes "walked path" "good_name n" "n \<noteq> ''answers''"
  shows "walked (child_path path n)"
proof -
  let ?q = "trim_suffix path ''/''"
  have n: "n \<noteq> []" "CHR ''/'' \<notin> set n" using assms(2) by (auto simp: good_name_def)
  have c: "child_path path n = (?q @ ''/'') @ n"
    by (cases "has_suffix path ''/''") (auto simp: child_path_def trim_suffix_def suffix_def)
  have t: "trim_suffix (child_path path n) ''/'' = child_path path n"
  proof -
    have "last (child_path path n) \<noteq> CHR ''/''" using n c by (auto dest: last_in_set)
    then show ?thesis by (auto simp: trim_suffix_def suffix_def)
  qed
  have "\<not> contains (((?q @ ''/'') @ n) @ ''/'') answers_dir"
  proof
    assume "contains (((?q @ ''/'') @ n) @ ''/'') answers_dir"
    then obtain a b where ab: "((?q @ ''/'') @ n) @ ''/'' = a @ answers_dir @ b" by (auto simp: sublist_def)
    show False
    proof (cases b rule: rev_cases)
      case Nil
      then have "(?q @ ''/'') @ n = (a @ ''/'') @ ''answers''" using ab by (simp add: answers_dir_def)
      then have "n = ''answers''"
        using n(2) by (auto simp: append_eq_append_conv2 append_eq_Cons_conv Cons_eq_append_conv)
      then show False using assms(3) by simp
    next
      case (snoc b' x)
      then have "(?q @ ''/'') @ n = (a @ answers_dir) @ b'" using ab by (metis append.assoc butlast_snoc)
      then have "\<exists>us. (?q @ ''/'') = (a @ answers_dir) @ us \<and> us @ n = b' \<or>
          (?q @ ''/'') @ us = a @ answers_dir \<and> n = us @ b'"
        by (simp only: append_eq_append_conv2)
      then obtain us where us: "?q @ ''/'' = (a @ answers_dir) @ us \<or> (?q @ ''/'') @ us = a @ answers_dir \<and> n = us @ b'"
        by blast
      then have "contains (?q @ ''/'') answers_dir"
      proof
        assume "?q @ ''/'' = (a @ answers_dir) @ us"
        then show ?thesis by (auto simp: sublist_def)
      next
        assume u: "(?q @ ''/'') @ us = a @ answers_dir \<and> n = us @ b'"
        have "us = []"
        proof (rule ccontr)
          assume "us \<noteq> []"
          then have "last us = last (a @ answers_dir)" using u by (metis last_appendR)
          then have "last us = CHR ''/''" by (simp add: answers_dir_def)
          moreover have "last us \<in> set n" using \<open>us \<noteq> []\<close> u by simp
          ultimately show False using n(2) by simp
        qed
        then have "?q @ ''/'' = a @ answers_dir @ []" using u by simp
        then show ?thesis unfolding sublist_def by blast
      qed
      then show False using assms(1) by (simp add: walked_def answers_dir_def)
    qed
  qed
  then show ?thesis using c t by (simp add: walked_def answers_dir_def)
qed

lemma child_suffix: "good_name n \<Longrightarrow> has_suffix (child_path path n) ''.sql'' \<longleftrightarrow> has_suffix n ''.sql''"
proof -
  assume g: "good_name n"
  obtain q where c: "child_path path n = (q @ ''/'') @ n"
    by (cases "has_suffix path ''/''") (auto simp: child_path_def suffix_def)
  show ?thesis
  proof
    assume "has_suffix (child_path path n) ''.sql''"
    then obtain zs where "(q @ ''/'') @ n = zs @ ''.sql''" unfolding c suffix_def by blast
    then show "has_suffix n ''.sql''"
      using g by (auto simp: append_eq_append_conv2 good_name_def suffix_def append_eq_Cons_conv Cons_eq_append_conv)
  qed (auto simp: c suffix_def)
qed

text \<open>One level of the walk: the cases below a directory are its own files and those of its directories.\<close>

definition kept_out :: "string \<Rightarrow> bool" where
  "kept_out n \<longleftrightarrow> n = ''common'' \<or> n = ''answers''"

lemma kept_out_suffix: "kept_out n \<Longrightarrow> \<not> has_suffix n ''.sql''"
  unfolding kept_out_def suffix_def by (auto simp: append_eq_Cons_conv Cons_eq_append_conv)

lemma walk_level:
  assumes "walked path" "good_names (Dir es)"
  shows "c \<in> set (walkCases (\<lambda>p. True) path (Dir es)) \<longleftrightarrow>
    (\<exists>n t. (n, t) \<in> set es \<and>
      (if is_dir t \<and> \<not> kept_out n then c \<in> set (walkCases (\<lambda>p. True) (child_path path n) t)
       else has_suffix n ''.sql'' \<and> c = child_path path n))"
proof -
  have s: "\<And>n t. (n, t) \<in> set es \<Longrightarrow> has_suffix (child_path path n) ''.sql'' \<longleftrightarrow> has_suffix n ''.sql''"
    using good_entry(1) [OF assms(2)] child_suffix by blast
  have "c \<in> set (walkCases (\<lambda>p. True) path (Dir es)) \<longleftrightarrow>
    (\<exists>x \<in> set es. c \<in> set (case x of (n, t) \<Rightarrow>
        if is_dir t \<and> n \<noteq> ''common'' \<and> n \<noteq> ''answers'' then walkCases (\<lambda>p. True) (child_path path n) t
        else if has_suffix (child_path path n) ''.sql'' then [child_path path n] else []))"
    using assms(1) by (simp add: walkCases.simps)
  also have "\<dots> \<longleftrightarrow> (\<exists>n t. (n, t) \<in> set es \<and>
      (if is_dir t \<and> \<not> kept_out n then c \<in> set (walkCases (\<lambda>p. True) (child_path path n) t)
       else has_suffix (child_path path n) ''.sql'' \<and> c = child_path path n))"
    unfolding kept_out_def Bex_def split_paired_Ex by (auto split: if_splits)
  also have "\<dots> \<longleftrightarrow> (\<exists>n t. (n, t) \<in> set es \<and>
      (if is_dir t \<and> \<not> kept_out n then c \<in> set (walkCases (\<lambda>p. True) (child_path path n) t)
       else has_suffix n ''.sql'' \<and> c = child_path path n))"
    using s by (intro iff_exI conj_cong refl if_cong) simp
  finally show ?thesis .
qed

text \<open>The case a chain of names leads to, when the walk may follow it.\<close>

definition case_below :: "ftree \<Rightarrow> string \<Rightarrow> string list \<Rightarrow> string \<Rightarrow> string \<Rightarrow> bool" where
  "case_below t path ns n c \<longleftrightarrow> (\<exists>k. leads t (ns @ [n]) (File k)) \<and> has_suffix n ''.sql'' \<and>
     (\<forall>m \<in> set ns. \<not> kept_out m) \<and> c = foldl child_path path (ns @ [n])"

lemma case_below_File [simp]: "\<not> case_below (File k) path ns n c"
  by (cases ns) (simp_all add: case_below_def)

lemma case_below_Nil:
  "case_below (Dir es) path [] n c \<longleftrightarrow>
     (\<exists>k. (n, File k) \<in> set es) \<and> has_suffix n ''.sql'' \<and> c = child_path path n"
  by (auto simp: case_below_def)

lemma case_below_Cons:
  "case_below (Dir es) path (m # ns) n c \<longleftrightarrow>
     \<not> kept_out m \<and> (\<exists>t. (m, t) \<in> set es \<and> case_below t (child_path path m) ns n c)"
  by (auto simp: case_below_def)

lemma finds_the_cases:
  assumes "walked path" "good_names (Dir es)"
  shows "c \<in> set (walkCases (\<lambda>p. True) path (Dir es)) \<longleftrightarrow> (\<exists>ns n. case_below (Dir es) path ns n c)"
  using assms
proof (induction "size (Dir es)" arbitrary: es path rule: less_induct)
  case less
  have sub: "c \<in> set (walkCases (\<lambda>p. True) (child_path path m) t) \<longleftrightarrow>
      (\<exists>ns n. case_below t (child_path path m) ns n c)"
    if e: "(m, t) \<in> set es" and d: "is_dir t" and "\<not> kept_out m" for m t
  proof -
    obtain es' where t: "t = Dir es'" using d by (cases t) (auto simp: is_dir_def)
    have "size (Dir es') < size (Dir es)" using entry_smaller [OF e] t by simp
    moreover have "walked (child_path path m)"
      using walked_child [OF less.prems(1) good_entry(1) [OF less.prems(2) e]] \<open>\<not> kept_out m\<close>
      by (simp add: kept_out_def)
    ultimately show ?thesis using less.hyps good_entry(2) [OF less.prems(2) e] t by blast
  qed
  show ?case
  proof
    assume "c \<in> set (walkCases (\<lambda>p. True) path (Dir es))"
    then obtain n t where nt: "(n, t) \<in> set es"
      "if is_dir t \<and> \<not> kept_out n then c \<in> set (walkCases (\<lambda>p. True) (child_path path n) t)
       else has_suffix n ''.sql'' \<and> c = child_path path n"
      using walk_level [OF less.prems] by blast
    show "\<exists>ns n. case_below (Dir es) path ns n c"
    proof (cases "is_dir t \<and> \<not> kept_out n")
      case True
      then show ?thesis using nt sub case_below_Cons by meson
    next
      case False
      then have "has_suffix n ''.sql''" "c = child_path path n" using nt(2) by (auto split: if_splits)
      moreover from this obtain k where "t = File k"
        using False kept_out_suffix by (cases t) (auto simp: is_dir_def)
      ultimately show ?thesis using nt(1) case_below_Nil by blast
    qed
  next
    assume "\<exists>ns n. case_below (Dir es) path ns n c"
    then obtain ns n where b: "case_below (Dir es) path ns n c" by blast
    show "c \<in> set (walkCases (\<lambda>p. True) path (Dir es))"
    proof (cases ns)
      case Nil
      then obtain k where "(n, File k) \<in> set es" "has_suffix n ''.sql''" "c = child_path path n"
        using b case_below_Nil by blast
      then show ?thesis unfolding walk_level [OF less.prems] by (force simp: is_dir_def)
    next
      case (Cons m ns')
      then obtain t where "(m, t) \<in> set es" "\<not> kept_out m" "case_below t (child_path path m) ns' n c"
        using b case_below_Cons by blast
      moreover from this have "is_dir t" by (cases t) (auto simp: is_dir_def)
      ultimately show ?thesis using sub unfolding walk_level [OF less.prems] by metis
    qed
  qed
qed

text \<open>
  C16: the walk of a SQL corpus finds a path exactly when it leads, entry by entry from the scenario's
  directory, to a file whose name ends in .sql through directories none of which is named common or
  answers: no case of the corpus is passed over, at any depth, and no helper script is run as one.
\<close>
theorem walk_finds_the_cases:
  assumes "walked path" "good_names (Dir es)"
  shows "c \<in> set (walkCases (\<lambda>p. True) path (Dir es)) \<longleftrightarrow>
    (\<exists>ns n k. leads (Dir es) (ns @ [n]) (File k) \<and> has_suffix n ''.sql'' \<and>
       (\<forall>m \<in> set ns. m \<noteq> ''common'' \<and> m \<noteq> ''answers'') \<and> c = foldl child_path path (ns @ [n]))"
  unfolding finds_the_cases [OF assms] case_below_def kept_out_def by blast

lemma good_names_File: "good_names (File k)"
proof -
  have "ns = []" if "leads (File k) ns u" for ns u using that by (cases ns) auto
  then show ?thesis unfolding good_names_def by fastforce
qed

lemma good_names_Dir:
  assumes "\<forall>(n, t) \<in> set es. good_name n \<and> good_names t"
  shows "good_names (Dir es)"
  unfolding good_names_def
proof (intro allI impI ballI)
  fix ns u m assume "leads (Dir es) ns u" "m \<in> set ns"
  then show "good_name m"
  proof (cases ns)
    case (Cons n ns')
    then obtain t where "(n, t) \<in> set es" "leads t ns' u" using \<open>leads (Dir es) ns u\<close> by auto
    then show ?thesis using assms Cons \<open>m \<in> set ns\<close> unfolding good_names_def by fastforce
  qed simp
qed

lemma walk_finds_the_cases_witness:
  "''/s/a/b.sql'' \<in> set (walkCases (\<lambda>p. True) ''/s''
     (Dir [(''common'', Dir [(''x.sql'', File 1)]), (''a'', Dir [(''b.sql'', File 2), (''b.txt'', File 3)])]))"
proof -
  let ?es = "[(''common'', Dir [(''x.sql'', File 1)]), (''a'', Dir [(''b.sql'', File 2), (''b.txt'', File 3)])]"
  have w: "walked ''/s''"
    by (simp add: walked_def trim_suffix_def suffix_def sublist_code)
  have g: "good_names (Dir ?es)"
    by (intro good_names_Dir) (simp add: good_name_def good_names_Dir good_names_File)
  have l: "leads (Dir ?es) ([''a''] @ [''b.sql'']) (File 2)" by simp
  have "''/s/a/b.sql'' = foldl child_path ''/s'' ([''a''] @ [''b.sql''])" "has_suffix ''b.sql'' ''.sql''"
    by (simp_all add: child_path_def suffix_def)
  moreover have "\<forall>m \<in> set [''a'']. m \<noteq> ''common'' \<and> m \<noteq> ''answers''" by simp
  ultimately show ?thesis using l unfolding walk_finds_the_cases [OF w g] by blast
qed

end
