(* ===== verification/Spec2Isabelle.thy ===== *)
theory Spec2Isabelle
  imports Dispatch_Lane_Claims Ctl_Reader_Claims Ctl_Controller_Ends Conf_Claims Topology Jtable
    Sizing_Claims Plan_Claims Harepl_Statement_Claims Harepl_Batch_Claims Harepl_Convert_Claims
    Harepl_Case_Claims Harepl_Compare_Claims Harepl_Reset_Claims Harepl_Start_Claims Casecheck_Claims
    Sandbox_Wait Sandbox_Pair Shell_Discover_Claims Coredump_Claims Shell_Worker_Claims Shell_Crew_Claims
    Shell_Monitor_Claims Shell_Corpus_Claims Feedback_Claims Feedback_Report_Claims Isolation_Crew_Claims
    Sql_Claims Sql_Discover_Claims
begin

text \<open>
  The CUBRID test kit runs the regression suites of a database: it finds the cases of a suite,
  decides how many to run at once, hands them out to workers, judges what each one printed and
  writes the results in the form the old tool did. A run may be interrupted and continued. This
  development models the parts that decide something; all paths below are under \<open>src/\<close>.

  \<^bold>\<open>The parts and how they interact.\<close>
  A suite reads its configuration (\<open>internal/conf\<close>, \<open>internal/topology\<close>), finds and filters its
  cases, asks \<open>internal/sizing\<close> how many slots the machine carries and \<open>internal/plan\<close> in which
  order to run, and makes a queue of \<open>internal/dispatch\<close>. Each slot has a worker that claims a
  ticket, runs the case through a channel of \<open>internal/exec\<close>, judges it, asks
  \<open>internal/coredump\<close> what a dead server left, tells the report of \<open>internal/feedback\<close>, writes to
  the run directory through \<open>internal/result\<close> and completes the ticket, which may put the case back
  for a retry. The isolation suite runs each case under the controller of \<open>internal/ctl\<close>. The
  SQL suite asks its executor for a rendering of each case and compares it with the answer. The
  replication suite cuts each case into statements, runs them on the master of a pair and compares
  the reads with a slave, after a wait of \<open>internal/sandbox\<close>. A continued run reads what the first
  one left: the list of finished cases, the ledger, the counters.

  \<^bold>\<open>Which theory models what.\<close>
  \<^item> \<open>Prelude\<close>, \<open>Ordering\<close>, \<open>Decimal\<close>: what is used of Go's \<open>strings\<close>, \<open>sort\<close> and
    \<open>strconv\<close>, with the collections \<open>go_text\<close> and \<open>go_num\<close> of rewrite rules. \<open>Store\<close> and
    \<open>Journal\<close> hold the two interfaces that several parts provide, as locales: a store of values by
    key (configuration, result table), and a journal of finished work (result directory, ledger).
  \<^item> \<open>Conf\<close>, \<open>Conf_Claims\<close>: \<open>internal/conf/config.go\<close>, \<open>ini.go\<close>. \<open>Topology\<close>:
    \<open>internal/topology/topology.go\<close>. \<open>Jtable\<close>: \<open>internal/result/jhashtable.go\<close>, with 32-bit hashes.
  \<^item> \<open>Dispatch_Policy\<close>, \<open>Dispatch_Queue\<close>: \<open>internal/dispatch/policy.go\<close>, \<open>dispatch.go\<close>. The
    struct \<open>Queue\<close> is a record, a method under the mutex a function of it, and a blocked claim the
    answer \<open>Again\<close>. \<open>Dispatch_Run\<close> is a crew of workers over one queue as a step relation;
    \<open>Dispatch_Safety\<close> and \<open>Dispatch_Lanes\<close> carry the invariants, \<open>Dispatch_Claims\<close> and
    \<open>Dispatch_Lane_Claims\<close> what follows for whole runs.
  \<^item> \<open>Ctl_Reader\<close>, \<open>Ctl_Command\<close>, \<open>Ctl_Client\<close>, \<open>Ctl_Controller\<close> and their claims:
    \<open>internal/ctl\<close>, the statement reader with its line buffer, the commands, a client's buffers and
    the loop of the controller over events of \<open>select\<close>.
  \<^item> \<open>Sizing\<close>, \<open>Plan\<close> and their claims: \<open>internal/sizing\<close>, \<open>internal/plan\<close>.
  \<^item> \<open>Harepl_Statement\<close>, \<open>Harepl_Batch\<close>, \<open>Harepl_Convert\<close>, \<open>Harepl_Compare\<close>, \<open>Harepl_Case\<close>,
    \<open>Harepl_Reset\<close>, \<open>Harepl_Ledger\<close>, \<open>Harepl_Run\<close>: the files of those names in
    \<open>internal/runner/hareplsuite\<close>; \<open>Harepl_Deal_Claims\<close>, \<open>Harepl_Run_Claims\<close> and
    \<open>Harepl_Start_Claims\<close> are about a run over several pairs, whose shards interleave step by step.
    \<open>Sandbox_Wait\<close>, \<open>Sandbox_Pair\<close>: \<open>internal/sandbox/replication.go\<close>, \<open>topology.go\<close>.
  \<^item> \<open>Exec_Shell\<close>: \<open>internal/exec\<close>, paths, quoting and what a command left. \<open>Coredump\<close>:
    \<open>internal/coredump\<close>. \<open>Result_Sink\<close>: \<open>internal/result/sink.go\<close>, the directory as a list of
    named contents. \<open>Feedback\<close>: \<open>internal/feedback\<close>, the report with its files.
  \<^item> \<open>Shell_Discover\<close>, \<open>Shell_Case\<close>, \<open>Case_Logs\<close>, \<open>Shell_Worker\<close>, \<open>Shell_Monitor\<close>,
    \<open>Shell_Corpus\<close>: \<open>internal/runner/shellsuite\<close>, with the patches of \<open>internal/patch\<close>.
    \<open>Isolation\<close>: \<open>internal/runner/isolationsuite\<close>. \<open>Casecheck\<close>: \<open>internal/casecheck\<close>.
  \<^item> \<open>Sql_Suite\<close>, \<open>Sql_Run\<close>: \<open>internal/runner/sqlsuite\<close>, what it reads, its cases and their answers, the
    verdict, the protocol with the executor and the loop of a slot. \<open>Sql_Record\<close>:
    \<open>internal/result/sql.go\<close>, the category map as a tree of result tables and all that is written of it.
    \<open>Sql_Claims\<close>, \<open>Sql_Discover_Claims\<close>: what a verdict rests on, and which cases a walk finds.

  A struct is a record whose fields keep the Go names behind a prefix, a method is a function from
  the state to the new state and what it returns, an error is the left side of a sum or the absent
  value of an option, and text is a list of bytes.

  \<^bold>\<open>What the lemmas show.\<close>
  Of the queue: an uncancelled run leaves no work behind, each case has one verdict, attempts are
  numbered and bounded, a retry runs alone, and with lanes a directory keeps its worker. Of what is
  written: a continued run takes up exactly what had no verdict, after any number of
  interruptions; the counters of the report count every verdict once across an interruption; the
  ledger does not depend on how the shards interleaved; the report's document has one suite and
  keeps the output. Of the judging: a shell case that passed has evidence for it; an isolation case
  passes on the last flag of its output; a SQL case passes on an answer that reads the same as its
  rendering, and the renderings stay with their cases; a reported replication difference is one, after a wait that
  succeeded. Of time: the controller returns after a bounded number of events, a case that does not
  end is ended by the monitor and not before its time, and a wait for replication ends. Of the
  routines: the statement cutters against their specifications, the rows of the edit distance against
  one typing error, quoting against a shell's reading, the slots against the machine. Lemmas beside
  the properties prove the places where code and comment part; they are listed with the findings.

  \<^bold>\<open>Abstractions.\<close>
  \<^item> Machines, servers and file systems answer through channels: a channel is a parameter, a function
    from a script and the machine's state to an answer and a new state. Nothing is assumed of it
    unless a statement says so. Clocks, the reading of free memory and the outcome of a write that
    may fail are parameters in the same way.
  \<^item> A Go map is a list of pairs with distinct keys, and where the order of a walk shows, the order is
    a parameter. Letter case is folded for ASCII. Text is taken to be UTF-8, of which only ASCII bytes
    are looked at. Floating point numbers are rounded as doubles, or floats in the hash table.
  \<^item> Threads that share a mutex interleave at their locked sections: the workers at the queue, the
    monitor and a worker at the case in flight, the shards of a run at the ledger. A worker's pass over
    one ticket is one step where only the order of its own effects matters.
  \<^item> The run directory is a list of named contents and a scenario a tree of named entries. A write is
    there at once; an interruption falls between the steps of the model.

  \<^bold>\<open>Bounds and fuel.\<close>
  Recursion follows the data or a measure. Loops that wait for the outside take the outside as a list:
  the controller its events, a worker its readings of the machine, a monitor its polls. The list is
  the only bound. That it is long enough is proved where returning is the claim:
  \<open>Ctl_Controller_Ends\<close> bounds the events of a case by its deadlines, \<open>Dispatch_Claims\<close> the steps
  of a run by its cases and retries, \<open>Shell_Monitor_Claims\<close> the time until a stuck case is ended,
  \<open>Sandbox_Wait\<close> the probes of a wait. Go's \<open>int\<close> has 64 bits; counts and durations are
  unbounded integers here, and \<open>Atoi\<close> refuses what 64 bits do not hold, which a statement about
  reading a number back takes as its hypothesis.

  \<^bold>\<open>Not modelled.\<close>
  Process control, mounts and namespaces (\<open>internal/contain\<close>), containers (\<open>internal/sandbox\<close> but for
  the pair and the wait), the performance suite (\<open>internal/perf\<close>), the pages of \<open>internal/status\<close>, the
  stages of the SQL suite and the start of its executor, argument parsing (\<open>cmd/testkit\<close>, \<open>internal/cli\<close>) and the set-up code of the
  suites: they call the operating system or print for readers, and what they decide is in the parts
  above. \<open>internal/haapply\<close> is replaced by the replication suite. The sizing meter samples on a timer;
  what becomes of its samples is modelled. The files \<open>check.go\<close> of the suites ask a machine for its
  commands and are left out but for the findings on them.
\<close>

end
